(* ===== verification/Nova_Prelude.thy ===== *)
theory Nova_Prelude
  imports Main
    "HOL-Library.AList"
    "HOL-Library.Word"
    "HOL-Library.Char_ord"
    "HOL-Library.List_Lexorder"
    "HOL-Library.Product_Lexorder"
    "HOL-Library.Sublist"
begin

text \<open>
  Shared vocabulary of the development: saturating 64-bit counters, byte strings,
  association lists standing for the hash maps of the in-memory backend, and the
  interface locales that several components share.

  A Rust \<open>String\<close> is a list of bytes here (\<open>string\<close>, one \<open>char\<close> per UTF-8 byte), so that
  \<open>str::len\<close> is \<open>length\<close>.  A \<open>u64\<close> or \<open>usize\<close> is a natural number, and wherever the code
  uses a saturating operation the saturation is written out with \<open>sat_add\<close> / \<open>sat_mul\<close>.
\<close>

named_theorems wf_intro \<open>preservation of well-formedness by the operations\<close>
named_theorems ops \<open>unfolding equations of the operations of a component\<close>

section \<open>Saturating counters\<close>

definition u64_max :: nat where
  "u64_max = 2 ^ 64 - 1"

definition u32_max :: nat where
  "u32_max = 2 ^ 32 - 1"

definition sat_add :: "nat \<Rightarrow> nat \<Rightarrow> nat" where
  "sat_add a b = min (a + b) u64_max"

definition sat_mul :: "nat \<Rightarrow> nat \<Rightarrow> nat" where
  "sat_mul a b = min (a * b) u64_max"

definition sat_add32 :: "nat \<Rightarrow> nat \<Rightarrow> nat" where
  "sat_add32 a b = min (a + b) u32_max"

lemma sat_add_le [simp]: "sat_add a b \<le> u64_max"
  by (simp add: sat_add_def)

lemma sat_add_comm: "sat_add a b = sat_add b a"
  by (simp add: sat_add_def add.commute)

lemma sat_add_assoc: "sat_add (sat_add a b) c = sat_add a (sat_add b c)"
  by (auto simp: sat_add_def min_def)

lemma sat_add_mono: "a \<le> u64_max \<Longrightarrow> a \<le> sat_add a b"
  by (simp add: sat_add_def)

lemma sat_add_exact: "a + b \<le> u64_max \<Longrightarrow> sat_add a b = a + b"
  by (simp add: sat_add_def)

lemma sat_add_zero [simp]: "a \<le> u64_max \<Longrightarrow> sat_add a 0 = a"
  by (simp add: sat_add_def)

lemma sat_add_zero_left [simp]: "a \<le> u64_max \<Longrightarrow> sat_add 0 a = a"
  by (simp add: sat_add_def)

lemma sat_add_strict: "a < u64_max \<Longrightarrow> 0 < b \<Longrightarrow> a < sat_add a b"
  by (simp add: sat_add_def)

section \<open>Association lists\<close>

text \<open>
  A \<open>HashMap\<close> of the backend is an association list with distinct keys; \<open>map_of\<close> is lookup,
  \<open>AList.update\<close> is insert (replacing in place) and \<open>AList.delete\<close> is remove.
\<close>

type_synonym ('k, 'v) table = "('k \<times> 'v) list"

definition keys_distinct :: "('k, 'v) table \<Rightarrow> bool" where
  "keys_distinct t \<longleftrightarrow> distinct (map fst t)"

lemma keys_distinct_Nil [simp]: "keys_distinct []"
  by (simp add: keys_distinct_def)

lemma keys_distinct_update [simp, wf_intro]:
  "keys_distinct t \<Longrightarrow> keys_distinct (AList.update k v t)"
  by (simp add: keys_distinct_def distinct_update)

lemma keys_distinct_delete [simp, wf_intro]:
  "keys_distinct t \<Longrightarrow> keys_distinct (AList.delete k t)"
  by (simp add: keys_distinct_def AList.distinct_delete)

lemma keys_distinct_filter [simp, wf_intro]:
  "keys_distinct t \<Longrightarrow> keys_distinct (filter P t)"
  by (induction t) (auto simp: keys_distinct_def)

lemma map_of_update [simp]: "map_of (AList.update k v t) = (map_of t)(k \<mapsto> v)"
  by (simp add: update_conv')

lemma map_of_delete [simp]: "map_of (AList.delete k t) = (map_of t)(k := None)"
  by (simp add: delete_conv')

lemma map_of_filter_key:
  "map_of (filter (\<lambda>p. P (fst p)) t) k = (if P k then map_of t k else None)"
  by (induction t) auto

lemma map_of_filter:
  assumes "keys_distinct t"
  shows "map_of (filter (\<lambda>(k, v). P k v) t) k =
    (case map_of t k of Some v \<Rightarrow> if P k v then Some v else None | None \<Rightarrow> None)"
  using assms
  by (induction t) (auto simp: keys_distinct_def map_of_eq_None_iff image_iff split: option.splits
      dest: map_of_SomeD)

lemma map_of_in_set:
  "keys_distinct t \<Longrightarrow> (k, v) \<in> set t \<longleftrightarrow> map_of t k = Some v"
  by (simp add: keys_distinct_def)

lemma sort_key_sorted_id: "sorted (map f xs) \<Longrightarrow> sort_key f xs = xs"
  by (induction xs) (auto simp: insort_is_Cons)

end
