(* ===== verification/Json.thy ===== *)
theory Json
  imports Nova_Prelude "HOL-Library.Multiset"
begin

text \<open>
  JSON values as \<open>serde_json::Value\<close> has them, the iterative depth measurement of
  \<open>protocol/limits.rs\<close> and the canonical encoding of \<open>canonical.rs\<close>.

  An object is the list of its entries in iteration order.  Unicode normalisation (\<open>nfc\<close>), the
  string escaping (\<open>esc\<close>, \<open>serde_json::to_string\<close> of a string) and the rendering of a number
  (\<open>num_fmt\<close>) belong to other crates and are parameters.
\<close>

text \<open>A \<open>serde_json::Number\<close> is a \<open>u64\<close>, a negative \<open>i64\<close> or a finite \<open>f64\<close> (its 64 bits here).\<close>

datatype json_number = PosInt nat | NegInt int | Float "64 word"

datatype json =
    JNull
  | JBool bool
  | JNum json_number
  | JStr string
  | JArr "json list"
  | JObj "(string \<times> json) list"

section \<open>Depth\<close>

fun json_children :: "json \<Rightarrow> json list" where
  "json_children (JArr items) = items"
| "json_children (JObj m) = map snd m"
| "json_children _ = []"

lemma json_children_size: "(\<Sum>c\<leftarrow>json_children v. Suc (size c)) \<le> size v"
proof (cases v)
  case (JArr items)
  have "(\<Sum>c\<leftarrow>items. Suc (size c)) = size_list size items" for items :: "json list"
    by (induction items) auto
  then show ?thesis using JArr by simp
next
  case (JObj m)
  have "(\<Sum>p\<leftarrow>m. Suc (size (snd p))) \<le> size_list (size_prod (\<lambda>x. 0) size) m"
    for m :: "(string \<times> json) list"
    by (induction m) (auto simp: size_prod_simp)
  then show ?thesis using JObj by (simp add: comp_def le_SucI)
qed auto

text \<open>
  The loop of \<open>json_depth\<close>: the head of the list is the top of the stack, so pushing the
  children one by one puts them there in reverse.
\<close>

function json_depth_loop :: "nat \<Rightarrow> (json \<times> nat) list \<Rightarrow> nat" where
  "json_depth_loop max_depth [] = max_depth"
| "json_depth_loop max_depth ((node, depth) # stack) =
    json_depth_loop (max max_depth depth)
      (rev (map (\<lambda>item. (item, depth + 1)) (json_children node)) @ stack)"
  by pat_completeness auto
termination
proof (relation "measure (\<lambda>(_, stack). \<Sum>p\<leftarrow>stack. Suc (size (fst p)))", goal_cases)
  case (2 max_depth node depth stack)
  then show ?case
    using json_children_size[of node]
    by (simp add: rev_map[symmetric] comp_def)
qed simp

definition json_depth :: "json \<Rightarrow> nat" where
  "json_depth v = json_depth_loop 0 [(v, 1)]"

text \<open>The reference: nesting depth by structural recursion, a scalar counting one.\<close>

fun nesting :: "json \<Rightarrow> nat" where
  "nesting (JArr items) = Suc (fold max (map nesting items) 0)"
| "nesting (JObj m) = Suc (fold max (map (\<lambda>p. nesting (snd p)) m) 0)"
| "nesting _ = 1"

lemma fold_max_ge: "fold max xs (a::nat) = max a (fold max xs 0)"
proof (induction xs arbitrary: a)
  case (Cons x xs)
  show ?case using Cons[of "max x a"] Cons[of x] by simp
qed simp

lemma fold_max_append: "fold max (xs @ ys) (0::nat) = max (fold max xs 0) (fold max ys 0)"
  by (simp add: fold_max_ge[of ys "fold max xs 0"])

lemma fold_max_rev: "fold max (rev xs) (0::nat) = fold max xs 0"
proof (induction xs)
  case (Cons x xs)
  then show ?case by (simp add: fold_max_append fold_max_ge[of xs x])
qed simp

lemma fold_max_shift:
  "fold max (map (\<lambda>v. f v + d) vs) (0::nat) = (if vs = [] then 0 else fold max (map f vs) 0 + d)"
proof (induction vs)
  case (Cons v vs)
  then show ?case
    by (simp add: fold_max_ge[of _ "f v + d"] fold_max_ge[of _ "f v"] nat_add_max_left)
qed simp

lemma nesting_children:
  "nesting v = Suc (fold max (map nesting (json_children v)) 0)"
  by (cases v) (auto simp: comp_def)

lemma json_depth_loop_eq:
  "json_depth_loop m stack = max m (fold max (map (\<lambda>(v, d). d + nesting v - 1) stack) 0)"
proof (induction m stack rule: json_depth_loop.induct)
  case (2 m node depth stack)
  let ?cs = "json_children node"
  have pos: "nesting v > 0" for v by (subst nesting_children) simp
  have eq: "map (\<lambda>(v, d). d + nesting v - 1) (map (\<lambda>item. (item, depth + 1)) ?cs)
      = map (\<lambda>v. nesting v + depth) ?cs"
    by simp
  have "fold max (map (\<lambda>(v, d). d + nesting v - 1)
      (rev (map (\<lambda>item. (item, depth + 1)) ?cs) @ stack)) 0
      = max (if ?cs = [] then 0 else fold max (map nesting ?cs) 0 + depth)
         (fold max (map (\<lambda>(v, d). d + nesting v - 1) stack) 0)"
    unfolding map_append fold_max_append rev_map[symmetric] fold_max_rev eq fold_max_shift ..
  moreover have "depth + nesting node - 1 = depth + fold max (map nesting ?cs) 0"
    by (subst nesting_children) simp
  moreover have "max (max m depth) (max (if ?cs = [] then 0 else F + depth) S)
      = max m (max (depth + F) S)" if "?cs = [] \<Longrightarrow> F = 0" for F S :: nat
    using that by (auto simp: max_def)
  ultimately show ?case
    unfolding json_depth_loop.simps 2 list.map prod.case fold_Cons comp_apply
    by (subst fold_max_ge) simp
qed simp

lemma json_depth_eq: "json_depth v = nesting v"
proof -
  have "nesting v > 0" by (subst nesting_children) simp
  then show ?thesis by (simp add: json_depth_def json_depth_loop_eq)
qed

text \<open>The stack-based depth measurement, written iteratively so that a hostile document
  cannot exhaust the call stack, terminates on every document and returns its nesting depth.\<close>

theorem json_depth_is_nesting: "json_depth v = nesting v"
  by (rule json_depth_eq)

section \<open>Canonical encoding\<close>

definition sorted_entries :: "(string \<times> json) list \<Rightarrow> (string \<times> json) list" where
  "sorted_entries m = sort_key fst m"

lemma sorted_entries_set [simp]: "set (sorted_entries m) = set m"
  by (simp add: sorted_entries_def)

fun join_commas :: "string list \<Rightarrow> string" where
  "join_commas [] = []"
| "join_commas [x] = x"
| "join_commas (x # y # ys) = x @ '','' @ join_commas (y # ys)"

lemma json_size_arr: "x \<in> set items \<Longrightarrow> size x < size (JArr items)"
  using member_le_sum_list[of "Suc (size x)" "map (\<lambda>c. Suc (size c)) items"]
    json_children_size[of "JArr items"] by force

lemma json_size_obj: "p \<in> set m \<Longrightarrow> size (snd p) < size (JObj m)"
  using member_le_sum_list[of "Suc (size (snd p))" "map (\<lambda>c. Suc (size (snd c))) m"]
    json_children_size[of "JObj m"] by (force simp: comp_def)

function (sequential) canonical_json ::
  "(string \<Rightarrow> string) \<Rightarrow> (string \<Rightarrow> string) \<Rightarrow> (json_number \<Rightarrow> string) \<Rightarrow> json \<Rightarrow> string" where
  "canonical_json nfc esc num_fmt JNull = ''null''"
| "canonical_json nfc esc num_fmt (JBool b) = (if b then ''true'' else ''false'')"
| "canonical_json nfc esc num_fmt (JNum n) = num_fmt n"
| "canonical_json nfc esc num_fmt (JStr s) = esc (nfc s)"
| "canonical_json nfc esc num_fmt (JArr items) =
    ''['' @ join_commas (map (canonical_json nfc esc num_fmt) items) @ '']''"
| "canonical_json nfc esc num_fmt (JObj m) =
    ''{'' @ join_commas (map (\<lambda>p. esc (nfc (fst p)) @ '':'' @ canonical_json nfc esc num_fmt (snd p))
             (sorted_entries m)) @ ''}''"
  by pat_completeness auto
termination
  by (relation "measure (\<lambda>(_, _, _, v). size v)") (simp_all add: json_size_arr json_size_obj del: json.size)

text \<open>\<open>serde_json::to_vec\<close>: the compact encoding, entries in iteration order, no normalisation.\<close>

function (sequential) compact_json ::
  "(string \<Rightarrow> string) \<Rightarrow> (json_number \<Rightarrow> string) \<Rightarrow> json \<Rightarrow> string" where
  "compact_json esc num_fmt JNull = ''null''"
| "compact_json esc num_fmt (JBool b) = (if b then ''true'' else ''false'')"
| "compact_json esc num_fmt (JNum n) = num_fmt n"
| "compact_json esc num_fmt (JStr s) = esc s"
| "compact_json esc num_fmt (JArr items) =
    ''['' @ join_commas (map (compact_json esc num_fmt) items) @ '']''"
| "compact_json esc num_fmt (JObj m) =
    ''{'' @ join_commas (map (\<lambda>p. esc (fst p) @ '':'' @ compact_json esc num_fmt (snd p)) m) @ ''}''"
  by pat_completeness auto
termination
  by (relation "measure (\<lambda>(_, _, v). size v)") (simp_all add: json_size_arr json_size_obj del: json.size)

text \<open>
  Two documents say the same thing when one is obtained from the other by reordering the
  entries of objects, at any depth.
\<close>

inductive json_same :: "json \<Rightarrow> json \<Rightarrow> bool" where
  same_refl: "json_same v v"
| same_trans: "json_same u v \<Longrightarrow> json_same v w \<Longrightarrow> json_same u w"
| same_arr: "list_all2 json_same xs ys \<Longrightarrow> json_same (JArr xs) (JArr ys)"
| same_obj: "list_all2 (\<lambda>p q. fst p = fst q \<and> json_same (snd p) (snd q)) m m' \<Longrightarrow>
    json_same (JObj m) (JObj m')"
| same_perm: "mset m = mset m' \<Longrightarrow> distinct (map fst m) \<Longrightarrow> json_same (JObj m) (JObj m')"

lemma list_all2_insort_key:
  assumes "list_all2 R xs ys" "R x y" "\<And>a b. R a b \<Longrightarrow> f a = g b"
  shows "list_all2 R (insort_key f x xs) (insort_key g y ys)"
  using assms by (induction xs ys rule: list_all2_induct) auto

lemma list_all2_sort_key:
  assumes "list_all2 R xs ys" "\<And>a b. R a b \<Longrightarrow> f a = g b"
  shows "list_all2 R (sort_key f xs) (sort_key g ys)"
  using assms by (induction xs ys rule: list_all2_induct) (auto intro: list_all2_insort_key)

lemma list_all2_map_eq: "list_all2 (\<lambda>x y. f x = g y) xs ys \<Longrightarrow> map f xs = map g ys"
  by (induction rule: list_all2_induct) auto

lemma sorted_entries_perm:
  assumes "mset m = mset m'" "distinct (map fst m)"
  shows "sorted_entries m = sorted_entries m'"
  unfolding sorted_entries_def
  by (rule sort_key_inj_key_eq) (use assms in \<open>auto simp: distinct_map\<close>)

text \<open>The canonical encoding that is signed does not depend on the order in which the keys
  of any object of the document happen to be listed, so re-serialising stored content cannot
  cause a false integrity failure.\<close>

theorem canonical_json_key_order:
  assumes "json_same v w"
  shows "canonical_json nfc esc num_fmt v = canonical_json nfc esc num_fmt w"
  using assms
proof (induction rule: json_same.induct)
  case (same_arr xs ys)
  then have "map (canonical_json nfc esc num_fmt) xs = map (canonical_json nfc esc num_fmt) ys"
    by (intro list_all2_map_eq) (auto elim: list_all2_mono)
  then show ?case by simp
next
  case (same_obj m m')
  let ?R = "\<lambda>p q. fst p = fst q \<and> canonical_json nfc esc num_fmt (snd p)
      = canonical_json nfc esc num_fmt (snd q)"
  have "list_all2 ?R m m'"
    using same_obj by (auto elim: list_all2_mono)
  then have "list_all2 ?R (sorted_entries m) (sorted_entries m')"
    unfolding sorted_entries_def by (rule list_all2_sort_key) auto
  then have "map (\<lambda>p. esc (nfc (fst p)) @ '':'' @ canonical_json nfc esc num_fmt (snd p)) (sorted_entries m)
      = map (\<lambda>p. esc (nfc (fst p)) @ '':'' @ canonical_json nfc esc num_fmt (snd p)) (sorted_entries m')"
    by (intro list_all2_map_eq) (auto elim: list_all2_mono)
  then show ?case by simp
next
  case (same_perm m m')
  then show ?case by (simp add: sorted_entries_perm)
qed auto

theorem canonical_json_key_order_witness:
  "canonical_json (\<lambda>s. s) (\<lambda>s. s) (\<lambda>_. ''0'') (JArr [JObj [(''b'', JNull), (''a'', JBool True)]])
    = canonical_json (\<lambda>s. s) (\<lambda>s. s) (\<lambda>_. ''0'') (JArr [JObj [(''a'', JBool True), (''b'', JNull)]])"
  by (rule canonical_json_key_order, rule same_arr) (auto intro: same_perm)

end
