(* ===== verification/Identity.thy ===== *)
theory Identity
  imports Nova_Prelude
begin

text \<open>
  Identity values (\<open>crates/responses/src/identity.rs\<close>, the id types of \<open>response.rs\<close> and
  \<open>conversation.rs\<close>): the validated string newtypes, response and conversation ids with their
  printed form, and the fencing token.

  A \<open>Uuid\<close> is its 128-bit value.  Its textual form belongs to the \<open>uuid\<close> crate: printing and
  parsing are parameters \<open>uuid_fmt\<close> and \<open>uuid_parse\<close> of the definitions that use them, and
  the documented law \<open>uuid_parse (uuid_fmt u) = Some u\<close> is a named hypothesis where needed.
\<close>

type_synonym uuid = "128 word"

section \<open>Identifier errors\<close>

record id_error =
  ie_kind :: string
  ie_expected :: string

definition IdError_new :: "string \<Rightarrow> string \<Rightarrow> id_error" where
  "IdError_new kind expected = \<lparr>ie_kind = kind, ie_expected = expected\<rparr>"

section \<open>Byte classes\<close>

definition byte_in :: "nat \<Rightarrow> nat \<Rightarrow> char \<Rightarrow> bool" where
  "byte_in lo hi b \<longleftrightarrow> lo \<le> of_char b \<and> of_char b \<le> (hi :: nat)"

definition is_ascii_lowercase :: "char \<Rightarrow> bool" where
  "is_ascii_lowercase = byte_in 0x61 0x7a"

definition is_ascii_uppercase :: "char \<Rightarrow> bool" where
  "is_ascii_uppercase = byte_in 0x41 0x5a"

definition is_ascii_digit :: "char \<Rightarrow> bool" where
  "is_ascii_digit = byte_in 0x30 0x39"

definition is_ascii_alphanumeric :: "char \<Rightarrow> bool" where
  "is_ascii_alphanumeric b \<longleftrightarrow> is_ascii_lowercase b \<or> is_ascii_uppercase b \<or> is_ascii_digit b"

lemmas byte_class_defs = byte_in_def is_ascii_lowercase_def is_ascii_uppercase_def
  is_ascii_digit_def is_ascii_alphanumeric_def

section \<open>Validated string newtypes\<close>

datatype node_tag = NodeTag (nt_str: string)
datatype tenant_id = TenantId (ti_str: string)
datatype idempotency_key = IdempotencyKey (ik_str: string)

definition NodeTag_MAX_LEN :: nat where
  "NodeTag_MAX_LEN = 32"

definition NodeTag_err :: id_error where
  "NodeTag_err = IdError_new ''node tag'' ''1..=32 characters of [a-z0-9-]''"

definition node_tag_char :: "char \<Rightarrow> bool" where
  "node_tag_char b \<longleftrightarrow> is_ascii_lowercase b \<or> is_ascii_digit b \<or> b = CHR ''-''"

definition NodeTag_parse :: "string \<Rightarrow> id_error + node_tag" where
  "NodeTag_parse raw =
    (if raw \<noteq> [] \<and> length raw \<le> NodeTag_MAX_LEN \<and> list_all node_tag_char raw
     then Inr (NodeTag raw) else Inl NodeTag_err)"

definition TenantId_MAX_LEN :: nat where
  "TenantId_MAX_LEN = 64"

definition TenantId_parse :: "string \<Rightarrow> id_error + tenant_id" where
  "TenantId_parse raw =
    (if raw \<noteq> [] \<and> length raw \<le> TenantId_MAX_LEN
        \<and> list_all (\<lambda>b. is_ascii_alphanumeric b \<or> b \<in> {CHR ''.'', CHR ''_'', CHR ''-''}) raw
     then Inr (TenantId raw)
     else Inl (IdError_new ''tenant id'' ''1..=64 characters of [A-Za-z0-9._-]''))"

definition IdempotencyKey_MAX_LEN :: nat where
  "IdempotencyKey_MAX_LEN = 128"

definition IdempotencyKey_parse :: "string \<Rightarrow> id_error + idempotency_key" where
  "IdempotencyKey_parse raw =
    (if raw \<noteq> [] \<and> length raw \<le> IdempotencyKey_MAX_LEN \<and> list_all (byte_in 0x21 0x7e) raw
     then Inr (IdempotencyKey raw)
     else Inl (IdError_new ''idempotency key''
       ''1..=128 visible ASCII characters with no whitespace''))"

text \<open>\<open>AgentId\<close> is a private uuid.\<close>

datatype agent_id = AgentId (ag_uuid: uuid)

section \<open>The fencing token\<close>

datatype attempt = Attempt (at_no: nat)

definition UNCLAIMED :: attempt where
  "UNCLAIMED = Attempt 0"

definition attempt_next :: "attempt \<Rightarrow> attempt" where
  "attempt_next a = Attempt (sat_add (at_no a) 1)"

definition is_unclaimed :: "attempt \<Rightarrow> bool" where
  "is_unclaimed a \<longleftrightarrow> a = UNCLAIMED"

text \<open>The derived \<open>Ord\<close> of \<open>Attempt\<close> compares the wrapped number.\<close>

instantiation attempt :: linorder
begin

definition less_eq_attempt :: "attempt \<Rightarrow> attempt \<Rightarrow> bool" where
  "less_eq_attempt a b \<longleftrightarrow> at_no a \<le> at_no b"

definition less_attempt :: "attempt \<Rightarrow> attempt \<Rightarrow> bool" where
  "less_attempt a b \<longleftrightarrow> at_no a < at_no b"

instance
  by standard (auto simp: less_eq_attempt_def less_attempt_def attempt.expand)

end

lemma attempt_next_ge: "at_no a \<le> u64_max \<Longrightarrow> a \<le> attempt_next a"
  by (simp add: less_eq_attempt_def attempt_next_def sat_add_mono)

lemma attempt_next_gt: "at_no a < u64_max \<Longrightarrow> a < attempt_next a"
  by (simp add: less_attempt_def attempt_next_def sat_add_strict)

lemma attempt_next_bounded [simp]: "at_no (attempt_next a) \<le> u64_max"
  by (simp add: attempt_next_def)

lemma attempt_next_claimed [simp]: "\<not> is_unclaimed (attempt_next a)"
  by (simp add: is_unclaimed_def attempt_next_def UNCLAIMED_def sat_add_def u64_max_def)

section \<open>Response ids\<close>

datatype response_id = ResponseId (rid_node: node_tag) (rid_uuid: uuid)

text \<open>The derived order is lexicographic: node tag (by its bytes), then uuid.\<close>

instantiation node_tag :: linorder
begin

definition less_eq_node_tag :: "node_tag \<Rightarrow> node_tag \<Rightarrow> bool" where
  "less_eq_node_tag a b \<longleftrightarrow> nt_str a \<le> nt_str b"

definition less_node_tag :: "node_tag \<Rightarrow> node_tag \<Rightarrow> bool" where
  "less_node_tag a b \<longleftrightarrow> nt_str a < nt_str b"

instance
  by standard (auto simp: less_eq_node_tag_def less_node_tag_def node_tag.expand)

end

instantiation response_id :: linorder
begin

definition less_eq_response_id :: "response_id \<Rightarrow> response_id \<Rightarrow> bool" where
  "less_eq_response_id a b \<longleftrightarrow> (rid_node a, rid_uuid a) \<le> (rid_node b, rid_uuid b)"

definition less_response_id :: "response_id \<Rightarrow> response_id \<Rightarrow> bool" where
  "less_response_id a b \<longleftrightarrow> (rid_node a, rid_uuid a) < (rid_node b, rid_uuid b)"

instance
  by standard
    (auto simp: less_eq_response_id_def less_response_id_def response_id.expand)

end

definition ResponseId_PREFIX :: string where
  "ResponseId_PREFIX = ''resp_''"

definition ResponseId_err :: id_error where
  "ResponseId_err = IdError_new ''response id'' ''resp_<node>_<uuid>''"

text \<open>\<open>str::strip_prefix\<close> and \<open>str::split_once\<close> with a single-byte separator.\<close>

fun strip_prefix :: "string \<Rightarrow> string \<Rightarrow> string option" where
  "strip_prefix [] s = Some s"
| "strip_prefix (p # ps) [] = None"
| "strip_prefix (p # ps) (c # cs) = (if p = c then strip_prefix ps cs else None)"

fun split_once :: "char \<Rightarrow> string \<Rightarrow> (string \<times> string) option" where
  "split_once sep [] = None"
| "split_once sep (c # cs) =
    (if c = sep then Some ([], cs)
     else case split_once sep cs of Some (a, b) \<Rightarrow> Some (c # a, b) | None \<Rightarrow> None)"

definition ResponseId_parse ::
  "(string \<Rightarrow> uuid option) \<Rightarrow> string \<Rightarrow> id_error + response_id" where
  "ResponseId_parse uuid_parse raw =
    (case strip_prefix ResponseId_PREFIX raw of
       None \<Rightarrow> Inl ResponseId_err
     | Some rest \<Rightarrow>
       (case split_once (CHR ''_'') rest of
          None \<Rightarrow> Inl ResponseId_err
        | Some (node, uuid) \<Rightarrow>
          (case NodeTag_parse node of
             Inl e \<Rightarrow> Inl e
           | Inr node_tag \<Rightarrow>
             (case uuid_parse uuid of
                None \<Rightarrow> Inl ResponseId_err
              | Some u \<Rightarrow> Inr (ResponseId node_tag u)))))"

definition ResponseId_display :: "(uuid \<Rightarrow> string) \<Rightarrow> response_id \<Rightarrow> string" where
  "ResponseId_display uuid_fmt r =
    ResponseId_PREFIX @ nt_str (rid_node r) @ ''_'' @ uuid_fmt (rid_uuid r)"

text \<open>The default idempotency key of a generation is its own printed id.\<close>

definition IdempotencyKey_for_response :: "(uuid \<Rightarrow> string) \<Rightarrow> response_id \<Rightarrow> idempotency_key" where
  "IdempotencyKey_for_response uuid_fmt r = IdempotencyKey (ResponseId_display uuid_fmt r)"

section \<open>Conversation ids\<close>

datatype conversation_id = ConversationId (cid_uuid: uuid)

definition ConversationId_PREFIX :: string where
  "ConversationId_PREFIX = ''conv_''"

definition ConversationId_err :: id_error where
  "ConversationId_err = IdError_new ''conversation id'' ''conv_<uuid>''"

definition ConversationId_parse ::
  "(string \<Rightarrow> uuid option) \<Rightarrow> string \<Rightarrow> id_error + conversation_id" where
  "ConversationId_parse uuid_parse raw =
    (case strip_prefix ConversationId_PREFIX raw of
       None \<Rightarrow> Inl ConversationId_err
     | Some uuid \<Rightarrow>
       (case uuid_parse uuid of
          None \<Rightarrow> Inl ConversationId_err
        | Some u \<Rightarrow> Inr (ConversationId u)))"

definition ConversationId_display :: "(uuid \<Rightarrow> string) \<Rightarrow> conversation_id \<Rightarrow> string" where
  "ConversationId_display uuid_fmt c = ConversationId_PREFIX @ uuid_fmt (cid_uuid c)"

section \<open>Parsing and printing\<close>

lemma strip_prefix_append [simp]: "strip_prefix p (p @ s) = Some s"
  by (induction p) auto

lemma strip_prefix_SomeD: "strip_prefix p s = Some r \<Longrightarrow> s = p @ r"
  by (induction p s rule: strip_prefix.induct) (auto split: if_splits)

lemma split_once_append:
  "sep \<notin> set a \<Longrightarrow> split_once sep (a @ sep # b) = Some (a, b)"
  by (induction a) auto

lemma split_once_SomeD:
  "split_once sep s = Some (a, b) \<Longrightarrow> s = a @ sep # b \<and> sep \<notin> set a"
  by (induction s arbitrary: a) (auto split: if_splits option.splits)

lemma node_tag_no_underscore: "list_all node_tag_char s \<Longrightarrow> CHR ''_'' \<notin> set s"
  by (auto simp: list_all_iff node_tag_char_def byte_class_defs)

definition node_tag_valid :: "node_tag \<Rightarrow> bool" where
  "node_tag_valid n \<longleftrightarrow> NodeTag_parse (nt_str n) = Inr n"

lemma node_tag_valid_iff:
  "node_tag_valid n \<longleftrightarrow> nt_str n \<noteq> [] \<and> length (nt_str n) \<le> 32 \<and> list_all node_tag_char (nt_str n)"
  by (cases n) (auto simp: node_tag_valid_def NodeTag_parse_def NodeTag_MAX_LEN_def)

lemma node_tag_visible: "node_tag_char b \<Longrightarrow> byte_in 0x21 0x7e b"
  by (auto simp: node_tag_char_def byte_class_defs)

text \<open>A response id whose node tag is valid is read back unchanged from its printed form,
  whatever the textual form of a uuid is, as long as the uuid crate parses what it prints.\<close>

theorem ResponseId_roundtrip:
  assumes "\<And>u. uuid_parse (uuid_fmt u) = Some u"
    and "node_tag_valid (rid_node r)"
  shows "ResponseId_parse uuid_parse (ResponseId_display uuid_fmt r) = Inr r"
proof -
  have "CHR ''_'' \<notin> set (nt_str (rid_node r))"
    using assms(2) by (simp add: node_tag_valid_iff node_tag_no_underscore)
  then have "split_once (CHR ''_'') (nt_str (rid_node r) @ CHR ''_'' # uuid_fmt (rid_uuid r))
      = Some (nt_str (rid_node r), uuid_fmt (rid_uuid r))"
    by (rule split_once_append)
  then show ?thesis
    using assms by (simp add: ResponseId_parse_def ResponseId_display_def node_tag_valid_def)
qed

theorem ResponseId_roundtrip_witness:
  "ResponseId_parse (\<lambda>s. Some (of_nat (length s)))
      (ResponseId_display (\<lambda>u. replicate (unat u) CHR ''a'') (ResponseId (NodeTag ''n1'') 3))
    = Inr (ResponseId (NodeTag ''n1'') 3)"
  by (rule ResponseId_roundtrip)
    (simp_all add: node_tag_valid_iff node_tag_char_def byte_class_defs)

text \<open>A parsed id always carries a valid node tag, so an accepted id can be routed.\<close>

theorem ResponseId_parse_valid:
  "ResponseId_parse uuid_parse raw = Inr r \<Longrightarrow>
    node_tag_valid (rid_node r) \<and>
    (\<exists>u. raw = ''resp_'' @ nt_str (rid_node r) @ ''_'' @ u \<and> uuid_parse u = Some (rid_uuid r))"
  by (auto simp: ResponseId_parse_def node_tag_valid_def NodeTag_parse_def ResponseId_PREFIX_def
      split: option.splits sum.splits if_splits
      dest!: strip_prefix_SomeD split_once_SomeD)

lemma ConversationId_roundtrip:
  assumes "\<And>u. uuid_parse (uuid_fmt u) = Some u"
  shows "ConversationId_parse uuid_parse (ConversationId_display uuid_fmt c) = Inr c"
  by (cases c) (simp add: ConversationId_parse_def ConversationId_display_def assms)

text \<open>
  \<open>IdempotencyKey::for_response\<close> skips validation; the key it builds would have passed.  The
  hypotheses are what the hyphenated form of a uuid is documented to be: 36 bytes of visible
  ASCII.
\<close>

theorem for_response_is_valid_key:
  assumes "node_tag_valid (rid_node r)"
    and "\<And>u. length (uuid_fmt u) = 36"
    and "\<And>u. list_all (byte_in 0x21 0x7e) (uuid_fmt u)"
  shows "IdempotencyKey_parse (ik_str (IdempotencyKey_for_response uuid_fmt r))
    = Inr (IdempotencyKey_for_response uuid_fmt r)"
proof -
  have "list_all (byte_in 0x21 0x7e) (nt_str (rid_node r))"
    using assms(1) by (auto simp: node_tag_valid_iff list_all_iff node_tag_visible)
  then show ?thesis
    using assms by (simp add: IdempotencyKey_parse_def IdempotencyKey_for_response_def
        ResponseId_display_def ResponseId_PREFIX_def IdempotencyKey_MAX_LEN_def
        node_tag_valid_iff byte_in_def)
qed

end
