(* ===== verification/Url_Guard.thy ===== *)
theory Url_Guard
  imports Identity
begin

text \<open>
  SSRF defence for reference URLs (\<open>crates/responses/src/protocol/url_guard.rs\<close>), with the part
  of \<open>std::net\<close> it uses: address classification on octets and segments at their width, and the
  textual address parser behind \<open>str::parse::<IpAddr>\<close>.

  \<open>Url::parse\<close> belongs to the \<open>url\<close> crate; the definitions take it as the parameter
  \<open>url_parse\<close>, which returns the parts the guard reads.
\<close>

unbundle bit_operations_syntax

section \<open>Addresses (std::net)\<close>

datatype ipv4_addr = Ipv4Addr "8 word" "8 word" "8 word" "8 word"

text \<open>Eight 16-bit segments, most significant first.\<close>

datatype ipv6_addr =
  Ipv6Addr "16 word" "16 word" "16 word" "16 word" "16 word" "16 word" "16 word" "16 word"

datatype ip_addr = IpV4 ipv4_addr | IpV6 ipv6_addr

fun v4_is_loopback :: "ipv4_addr \<Rightarrow> bool" where
  "v4_is_loopback (Ipv4Addr a b c d) \<longleftrightarrow> a = 127"

fun v4_is_private :: "ipv4_addr \<Rightarrow> bool" where
  "v4_is_private (Ipv4Addr a b c d) \<longleftrightarrow>
    a = 10 \<or> (a = 172 \<and> 16 \<le> b \<and> b \<le> 31) \<or> (a = 192 \<and> b = 168)"

fun v4_is_link_local :: "ipv4_addr \<Rightarrow> bool" where
  "v4_is_link_local (Ipv4Addr a b c d) \<longleftrightarrow> a = 169 \<and> b = 254"

fun v4_is_unspecified :: "ipv4_addr \<Rightarrow> bool" where
  "v4_is_unspecified (Ipv4Addr a b c d) \<longleftrightarrow> a = 0 \<and> b = 0 \<and> c = 0 \<and> d = 0"

fun v4_is_documentation :: "ipv4_addr \<Rightarrow> bool" where
  "v4_is_documentation (Ipv4Addr a b c d) \<longleftrightarrow>
    (a = 192 \<and> b = 0 \<and> c = 2) \<or> (a = 198 \<and> b = 51 \<and> c = 100) \<or> (a = 203 \<and> b = 0 \<and> c = 113)"

definition byte_hi :: "16 word \<Rightarrow> 8 word" where
  "byte_hi w = ucast (drop_bit 8 w)"

definition byte_lo :: "16 word \<Rightarrow> 8 word" where
  "byte_lo w = ucast w"

definition u16_from_be_bytes :: "8 word \<Rightarrow> 8 word \<Rightarrow> 16 word" where
  "u16_from_be_bytes h l = push_bit 8 (ucast h) OR ucast l"

text \<open>\<open>Ipv6Addr::to_ipv4\<close>: both the compatible \<open>::a.b.c.d\<close> and the mapped \<open>::ffff:a.b.c.d\<close> forms.\<close>

fun to_ipv4 :: "ipv6_addr \<Rightarrow> ipv4_addr option" where
  "to_ipv4 (Ipv6Addr s0 s1 s2 s3 s4 s5 s6 s7) =
    (if s0 = 0 \<and> s1 = 0 \<and> s2 = 0 \<and> s3 = 0 \<and> s4 = 0 \<and> (s5 = 0 \<or> s5 = 0xffff)
     then Some (Ipv4Addr (byte_hi s6) (byte_lo s6) (byte_hi s7) (byte_lo s7))
     else None)"

fun v6_is_loopback :: "ipv6_addr \<Rightarrow> bool" where
  "v6_is_loopback (Ipv6Addr s0 s1 s2 s3 s4 s5 s6 s7) \<longleftrightarrow>
    [s0, s1, s2, s3, s4, s5, s6, s7] = [0, 0, 0, 0, 0, 0, 0, 1]"

fun v6_is_unspecified :: "ipv6_addr \<Rightarrow> bool" where
  "v6_is_unspecified (Ipv6Addr s0 s1 s2 s3 s4 s5 s6 s7) \<longleftrightarrow>
    [s0, s1, s2, s3, s4, s5, s6, s7] = [0, 0, 0, 0, 0, 0, 0, 0]"

fun v6_segment0 :: "ipv6_addr \<Rightarrow> 16 word" where
  "v6_segment0 (Ipv6Addr s0 s1 s2 s3 s4 s5 s6 s7) = s0"

definition v6_is_multicast :: "ipv6_addr \<Rightarrow> bool" where
  "v6_is_multicast ip \<longleftrightarrow> v6_segment0 ip AND 0xff00 = 0xff00"

section \<open>Textual addresses (the parser of std::net)\<close>

definition hex_digit_val :: "char \<Rightarrow> nat option" where
  "hex_digit_val c =
    (let n = of_char c in
     if 0x30 \<le> n \<and> n \<le> 0x39 then Some (n - 0x30)
     else if 0x61 \<le> n \<and> n \<le> 0x66 then Some (n - 0x61 + 10)
     else if 0x41 \<le> n \<and> n \<le> 0x46 then Some (n - 0x41 + 10) else None)"

definition digit_val :: "nat \<Rightarrow> char \<Rightarrow> nat option" where
  "digit_val radix c =
    (case hex_digit_val c of Some d \<Rightarrow> if d < radix then Some d else None | None \<Rightarrow> None)"

text \<open>
  \<open>Parser::read_number\<close>: greedy digits; \<open>None\<close> when there is none, more than \<open>max_digits\<close>, a
  value above \<open>max_val\<close> (the checked arithmetic of the target type), or a leading zero where it
  is not allowed.
\<close>

fun read_digits :: "nat \<Rightarrow> nat \<Rightarrow> nat \<Rightarrow> nat \<Rightarrow> nat \<Rightarrow> string \<Rightarrow> (nat \<times> nat \<times> string) option" where
  "read_digits radix max_digits max_val count acc [] = Some (count, acc, [])"
| "read_digits radix max_digits max_val count acc (c # cs) =
    (case digit_val radix c of
       None \<Rightarrow> Some (count, acc, c # cs)
     | Some d \<Rightarrow>
       (if acc * radix + d > max_val \<or> count + 1 > max_digits then None
        else read_digits radix max_digits max_val (count + 1) (acc * radix + d) cs))"

definition read_number ::
  "nat \<Rightarrow> nat \<Rightarrow> nat \<Rightarrow> bool \<Rightarrow> string \<Rightarrow> (nat \<times> string) option" where
  "read_number radix max_digits max_val allow_zero_prefix s =
    (case read_digits radix max_digits max_val 0 0 s of
       None \<Rightarrow> None
     | Some (count, v, rest) \<Rightarrow>
       if count = 0 then None
       else if \<not> allow_zero_prefix \<and> s \<noteq> [] \<and> hd s = CHR ''0'' \<and> count > 1 then None
       else Some (v, rest))"

definition read_given_char :: "char \<Rightarrow> string \<Rightarrow> string option" where
  "read_given_char c s = (case s of x # xs \<Rightarrow> if x = c then Some xs else None | [] \<Rightarrow> None)"

text \<open>\<open>read_separator\<close>: the separator is required before every group but the first.\<close>

definition read_separator ::
  "char \<Rightarrow> nat \<Rightarrow> (string \<Rightarrow> ('a \<times> string) option) \<Rightarrow> string \<Rightarrow> ('a \<times> string) option" where
  "read_separator sep index inner s =
    (if index > 0
     then case read_given_char sep s of None \<Rightarrow> None | Some s' \<Rightarrow> inner s'
     else inner s)"

definition read_octet :: "nat \<Rightarrow> string \<Rightarrow> (8 word \<times> string) option" where
  "read_octet i s = map_option (\<lambda>(n, r). (of_nat n, r))
    (read_separator (CHR ''.'') i (read_number 10 3 255 False) s)"

definition read_ipv4_addr :: "string \<Rightarrow> (ipv4_addr \<times> string) option" where
  "read_ipv4_addr s =
    (case read_octet 0 s of None \<Rightarrow> None | Some (a, s1) \<Rightarrow>
     (case read_octet 1 s1 of None \<Rightarrow> None | Some (b, s2) \<Rightarrow>
      (case read_octet 2 s2 of None \<Rightarrow> None | Some (c, s3) \<Rightarrow>
       (case read_octet 3 s3 of None \<Rightarrow> None | Some (d, s4) \<Rightarrow>
          Some (Ipv4Addr a b c d, s4)))))"

text \<open>
  \<open>read_groups\<close> reads at most \<open>limit\<close> groups starting at index \<open>i\<close>; an embedded IPv4 address takes
  two groups and ends the reading.  It returns the groups, whether an IPv4 tail was read, and
  the rest of the input.
\<close>

function read_groups ::
  "nat \<Rightarrow> nat \<Rightarrow> string \<Rightarrow> 16 word list \<times> bool \<times> string" where
  "read_groups limit i s =
    (if limit \<le> i then ([], False, s)
     else case (if i < limit - 1 then read_separator (CHR '':'') i read_ipv4_addr s else None) of
       Some (Ipv4Addr a b c d, s') \<Rightarrow> ([u16_from_be_bytes a b, u16_from_be_bytes c d], True, s')
     | None \<Rightarrow>
       (case read_separator (CHR '':'') i (read_number 16 4 0xffff True) s of
          None \<Rightarrow> ([], False, s)
        | Some (g, s') \<Rightarrow>
          (case read_groups limit (i + 1) s' of (gs, v4, r) \<Rightarrow> (of_nat g # gs, v4, r))))"
  by pat_completeness auto
termination
  by (relation "measure (\<lambda>(limit, i, s). limit - i)") auto

definition ipv6_of_list :: "16 word list \<Rightarrow> ipv6_addr" where
  "ipv6_of_list gs = Ipv6Addr (gs ! 0) (gs ! 1) (gs ! 2) (gs ! 3) (gs ! 4) (gs ! 5) (gs ! 6) (gs ! 7)"

definition read_ipv6_addr :: "string \<Rightarrow> (ipv6_addr \<times> string) option" where
  "read_ipv6_addr s =
    (case read_groups 8 0 s of (head, head_ipv4, s1) \<Rightarrow>
     (if length head = 8 then Some (ipv6_of_list head, s1)
      else if head_ipv4 then None
      else case read_given_char (CHR '':'') s1 of None \<Rightarrow> None | Some s2 \<Rightarrow>
       (case read_given_char (CHR '':'') s2 of None \<Rightarrow> None | Some s3 \<Rightarrow>
        (case read_groups (8 - (length head + 1)) 0 s3 of (tail, _, s4) \<Rightarrow>
          Some (ipv6_of_list (head @ replicate (8 - length head - length tail) 0 @ tail), s4)))))"

definition parse_ip_addr :: "string \<Rightarrow> ip_addr option" where
  "parse_ip_addr s =
    (case (case read_ipv4_addr s of
             Some (v4, r) \<Rightarrow> Some (IpV4 v4, r)
           | None \<Rightarrow> map_option (\<lambda>(v6, r). (IpV6 v6, r)) (read_ipv6_addr s)) of
       Some (ip, []) \<Rightarrow> Some ip
     | _ \<Rightarrow> None)"

section \<open>The guard\<close>

datatype url_rejection =
    Malformed
  | SchemeNotAllowed string
  | MissingHost
  | PrivateAddress
  | EmbeddedCredentials
  | TooLong nat

datatype url_host = HostIpv4 ipv4_addr | HostIpv6 ipv6_addr | HostDomain string

record parsed_url =
  url_scheme :: string
  url_username :: string
  url_password :: "string option"
  url_host :: "url_host option"

definition BLOCKED_HOST_SUFFIXES :: "string list" where
  "BLOCKED_HOST_SUFFIXES =
    [''localhost'', ''.localhost'', ''.local'', ''.internal'', ''.intranet'', ''.corp'', ''.home'', ''.lan'']"

definition to_ascii_lowercase :: "string \<Rightarrow> string" where
  "to_ascii_lowercase = map (\<lambda>c. if is_ascii_uppercase c then char_of (of_char c + 0x20 :: nat) else c)"

fun is_blocked_v4 :: "ipv4_addr \<Rightarrow> bool" where
  "is_blocked_v4 (Ipv4Addr a b c d) =
    (let ip = Ipv4Addr a b c d in
     if v4_is_loopback ip \<or> v4_is_private ip \<or> v4_is_link_local ip \<or> v4_is_unspecified ip
        \<or> v4_is_documentation ip then True
     else if a = 0 then True
     else if a = 9 \<or> a = 11 \<or> a = 21 \<or> a = 30 then True
     else if a = 100 then 64 \<le> b \<and> b \<le> 127
     else if 224 \<le> a then True
     else False)"

definition is_blocked_v6 :: "ipv6_addr \<Rightarrow> bool" where
  "is_blocked_v6 ip =
    (case to_ipv4 ip of
       Some v4 \<Rightarrow> is_blocked_v4 v4
     | None \<Rightarrow>
       if v6_is_loopback ip \<or> v6_is_unspecified ip \<or> v6_is_multicast ip then True
       else v6_segment0 ip AND 0xfe00 = 0xfc00 \<or> v6_segment0 ip AND 0xffc0 = 0xfe80)"

fun is_blocked_ip :: "ip_addr \<Rightarrow> bool" where
  "is_blocked_ip (IpV4 v4) = is_blocked_v4 v4"
| "is_blocked_ip (IpV6 v6) = is_blocked_v6 v6"

definition ensure_public_https ::
  "(string \<Rightarrow> parsed_url option) \<Rightarrow> string \<Rightarrow> nat \<Rightarrow> url_rejection + unit" where
  "ensure_public_https url_parse raw max_bytes =
    (if length raw > max_bytes then Inl (TooLong max_bytes)
     else case url_parse raw of
       None \<Rightarrow> Inl Malformed
     | Some url \<Rightarrow>
       if url_scheme url \<noteq> ''https'' then Inl (SchemeNotAllowed (url_scheme url))
       else if url_username url \<noteq> [] \<or> url_password url \<noteq> None then Inl EmbeddedCredentials
       else case url_host url of
         None \<Rightarrow> Inl MissingHost
       | Some (HostIpv4 v4) \<Rightarrow> if is_blocked_v4 v4 then Inl PrivateAddress else Inr ()
       | Some (HostIpv6 v6) \<Rightarrow> if is_blocked_v6 v6 then Inl PrivateAddress else Inr ()
       | Some (HostDomain name) \<Rightarrow>
         (let lowered = to_ascii_lowercase name in
          if list_ex (\<lambda>s. lowered = s \<or> suffix s lowered) BLOCKED_HOST_SUFFIXES
          then Inl PrivateAddress
          else case parse_ip_addr lowered of
            Some ip \<Rightarrow> if is_blocked_ip ip then Inl PrivateAddress else Inr ()
          | None \<Rightarrow> Inr ()))"

section \<open>Bit-level facts\<close>

lemma word16_eq_iff: "(w::16 word) = v \<longleftrightarrow> (\<forall>n<16. bit w n = bit v n)"
  by (auto intro!: bit_word_eqI)

lemma word_bit_high8: "8 \<le> n \<Longrightarrow> \<not> bit (w::8 word) n"
  using bit_imp_le_length[of w n] by auto

lemma word16_bit_high: "16 \<le> n \<Longrightarrow> \<not> bit (w::16 word) n"
  using bit_imp_le_length[of w n] by auto

lemma all_less16: "(\<forall>n<16::nat. P n) \<longleftrightarrow> 
    P 0 \<and> P 1 \<and> P 2 \<and> P 3 \<and> P 4 \<and> P 5 \<and> P 6 \<and> P 7 \<and>
    P 8 \<and> P 9 \<and> P 10 \<and> P 11 \<and> P 12 \<and> P 13 \<and> P 14 \<and> P 15"
  by (simp add: numeral_eq_Suc All_less_Suc2 conj_ac)

lemmas word16_bits = word16_eq_iff all_less16 word16_bit_high
  bit_drop_bit_eq bit_and_iff bit_numeral_simps

lemma mask_fc00: "(w::16 word) AND 0xfe00 = 0xfc00 \<longleftrightarrow> drop_bit 9 w = 0x7e"
  by (simp add: word16_bits)

lemma mask_fe80: "(w::16 word) AND 0xffc0 = 0xfe80 \<longleftrightarrow> drop_bit 6 w = 0x3fa"
  by (simp add: word16_bits)

lemma mask_ff00: "(w::16 word) AND 0xff00 = 0xff00 \<longleftrightarrow> drop_bit 8 w = 0xff"
  by (simp add: word16_bits)

definition v4_num :: "ipv4_addr \<Rightarrow> nat" where
  "v4_num ip = (case ip of Ipv4Addr a b c d \<Rightarrow>
    unat a * 2 ^ 24 + unat b * 2 ^ 16 + unat c * 2 ^ 8 + unat d)"

definition in_cidr :: "ipv4_addr \<Rightarrow> ipv4_addr \<times> nat \<Rightarrow> bool" where
  "in_cidr ip net \<longleftrightarrow> v4_num ip div 2 ^ (32 - snd net) = v4_num (fst net) div 2 ^ (32 - snd net)"

definition blocked_v4_nets :: "(ipv4_addr \<times> nat) list" where
  "blocked_v4_nets =
    [(Ipv4Addr 0 0 0 0, 8), (Ipv4Addr 9 0 0 0, 8), (Ipv4Addr 10 0 0 0, 8), (Ipv4Addr 11 0 0 0, 8),
     (Ipv4Addr 21 0 0 0, 8), (Ipv4Addr 30 0 0 0, 8), (Ipv4Addr 100 64 0 0, 10),
     (Ipv4Addr 127 0 0 0, 8), (Ipv4Addr 169 254 0 0, 16), (Ipv4Addr 172 16 0 0, 12),
     (Ipv4Addr 192 0 2 0, 24), (Ipv4Addr 192 168 0 0, 16), (Ipv4Addr 198 51 100 0, 24),
     (Ipv4Addr 203 0 113 0, 24), (Ipv4Addr 224 0 0 0, 3)]"

lemma octet_bound: "unat (a::8 word) < 256"
  using unsigned_less[of a, where 'a=nat] by simp

lemma v4_num_div:
  "v4_num (Ipv4Addr a b c d) div 536870912 = unat a div 32"
  "v4_num (Ipv4Addr a b c d) div 16777216 = unat a"
  "v4_num (Ipv4Addr a b c d) div 4194304 = unat a * 4 + unat b div 64"
  "v4_num (Ipv4Addr a b c d) div 1048576 = unat a * 16 + unat b div 16"
  "v4_num (Ipv4Addr a b c d) div 65536 = unat a * 256 + unat b"
  "v4_num (Ipv4Addr a b c d) div 256 = (unat a * 256 + unat b) * 256 + unat c"
  using octet_bound[of a] octet_bound[of b] octet_bound[of c] octet_bound[of d]
  by (auto simp: v4_num_def)

lemma digits_eq_iff:
  assumes "y < k" "y' < (k::nat)"
  shows "x * k + y = x' * k + y' \<longleftrightarrow> x = x' \<and> y = y'"
proof
  assume eq: "x * k + y = x' * k + y'"
  have "(x * k + y) div k = x" "(x' * k + y') div k = x'"
    using assms by auto
  with eq show "x = x' \<and> y = y'" by (metis add_left_cancel)
qed auto

lemma in_cidr_simps:
  "in_cidr (Ipv4Addr a b c d) (Ipv4Addr p q r s, 3) \<longleftrightarrow> unat a div 32 = unat p div 32"
  "in_cidr (Ipv4Addr a b c d) (Ipv4Addr p q r s, 8) \<longleftrightarrow> a = p"
  "in_cidr (Ipv4Addr a b c d) (Ipv4Addr p q r s, 10) \<longleftrightarrow> a = p \<and> unat b div 64 = unat q div 64"
  "in_cidr (Ipv4Addr a b c d) (Ipv4Addr p q r s, 12) \<longleftrightarrow> a = p \<and> unat b div 16 = unat q div 16"
  "in_cidr (Ipv4Addr a b c d) (Ipv4Addr p q r s, 16) \<longleftrightarrow> a = p \<and> b = q"
  using octet_bound[of b] octet_bound[of c] octet_bound[of q] octet_bound[of r]
  by (simp_all add: in_cidr_def v4_num_div word_unat_eq_iff digits_eq_iff)

lemma in_cidr_24 [simp]:
  "in_cidr (Ipv4Addr a b c d) (Ipv4Addr p q r s, 24) \<longleftrightarrow> a = p \<and> b = q \<and> c = r"
proof -
  have "v4_num (Ipv4Addr a b c d) div 256 = v4_num (Ipv4Addr p q r s) div 256 \<longleftrightarrow>
      unat a = unat p \<and> unat b = unat q \<and> unat c = unat r"
    unfolding v4_num_div by (simp only: digits_eq_iff octet_bound conj_assoc)
  then show ?thesis by (simp add: in_cidr_def word_unat_eq_iff)
qed

lemma octet_ranges:
  "224 \<le> (a::8 word) \<longleftrightarrow> unat a div 32 = 7"
  "64 \<le> a \<and> a \<le> 127 \<longleftrightarrow> unat a div 64 = 1"
  "16 \<le> a \<and> a \<le> 31 \<longleftrightarrow> unat a div 16 = 1"
  using octet_bound[of a] by (auto simp: word_le_nat_alt)

text \<open>The octet tests of the guard block exactly the addresses of fifteen CIDR blocks: this
  network, loopback, RFC 1918, link-local, carrier-grade NAT, the documentation nets, the four
  internal fabric ranges, and everything from multicast upwards.\<close>

theorem is_blocked_v4_iff_cidr:
  "is_blocked_v4 ip \<longleftrightarrow> (\<exists>net \<in> set blocked_v4_nets. in_cidr ip net)"
proof (cases ip)
  case (Ipv4Addr a b c d)
  then show ?thesis
    by (simp add: blocked_v4_nets_def in_cidr_simps octet_ranges Let_def)
qed

lemma be_bytes [simp]: "byte_hi (u16_from_be_bytes h l) = h" "byte_lo (u16_from_be_bytes h l) = l"
  by (auto intro!: bit_word_eqI simp: byte_hi_def byte_lo_def u16_from_be_bytes_def bit_simps word_bit_high8)

lemma is_blocked_v6_iff:
  "is_blocked_v6 ip \<longleftrightarrow> (case to_ipv4 ip of Some v4 \<Rightarrow> is_blocked_v4 v4 | None \<Rightarrow>
     drop_bit 8 (v6_segment0 ip) = 0xff \<or> drop_bit 9 (v6_segment0 ip) = 0x7e \<or> drop_bit 6 (v6_segment0 ip) = 0x3fa)"
  by (cases ip) (auto simp: is_blocked_v6_def v6_is_multicast_def mask_fc00 mask_fe80 mask_ff00 split: option.splits if_splits)

definition ipv6_mapped :: "ipv4_addr \<Rightarrow> ipv6_addr" where
  "ipv6_mapped ip = (case ip of Ipv4Addr a b c d \<Rightarrow>
    Ipv6Addr 0 0 0 0 0 0xffff (u16_from_be_bytes a b) (u16_from_be_bytes c d))"

definition ipv6_compat :: "ipv4_addr \<Rightarrow> ipv6_addr" where
  "ipv6_compat ip = (case ip of Ipv4Addr a b c d \<Rightarrow>
    Ipv6Addr 0 0 0 0 0 0 (u16_from_be_bytes a b) (u16_from_be_bytes c d))"

lemma to_ipv4_embedded [simp]:
  "to_ipv4 (ipv6_mapped ip) = Some ip" "to_ipv4 (ipv6_compat ip) = Some ip"
  by (simp_all add: ipv6_mapped_def ipv6_compat_def split: ipv4_addr.split)

text \<open>The two families cannot disagree about the same address.\<close>

lemma is_blocked_v6_embedded:
  "is_blocked_v6 (ipv6_mapped ip) = is_blocked_v4 ip"
  "is_blocked_v6 (ipv6_compat ip) = is_blocked_v4 ip"
  by (simp_all add: is_blocked_v6_def)

text \<open>What an accepted host is.\<close>

definition public_host :: "url_host \<Rightarrow> bool" where
  "public_host h = (case h of
     HostIpv4 v4 \<Rightarrow> \<not> is_blocked_v4 v4
   | HostIpv6 v6 \<Rightarrow> \<not> is_blocked_v6 v6
   | HostDomain name \<Rightarrow>
       (\<forall>s \<in> set BLOCKED_HOST_SUFFIXES. \<not> suffix s (to_ascii_lowercase name)) \<and>
       (case parse_ip_addr (to_ascii_lowercase name) of
          Some ip \<Rightarrow> \<not> is_blocked_ip ip | None \<Rightarrow> True))"

text \<open>A URL is accepted exactly when it is short enough, parses, uses https, carries no
  credentials and names a host outside the blocked ranges and suffixes; nothing else is let
  through and nothing of this shape is refused.\<close>

theorem ensure_public_https_iff:
  "ensure_public_https url_parse raw max_bytes = Inr () \<longleftrightarrow>
    length raw \<le> max_bytes \<and>
    (\<exists>url h. url_parse raw = Some url \<and> url_scheme url = ''https'' \<and> url_username url = [] \<and>
       url_password url = None \<and> url_host url = Some h \<and> public_host h)"
  by (auto simp: ensure_public_https_def public_host_def list_ex_iff Let_def
      split: option.splits url_host.splits if_splits)

end
