(* ===== verification/Protocol.thy ===== *)
theory Protocol
  imports Complex_Main Json Url_Guard
begin

text \<open>
  The closed protocol subset (\<open>crates/responses/src/protocol\<close>): content parts, items, tools,
  metadata, the request envelopes, and every bound on caller-supplied input, with the
  validation of each in the order the code checks.

  \<open>f64\<close> is the set of values the range checks distinguish: not-a-number, the infinities and a
  finite rational.  The parameters are those of the callees: \<open>url_parse\<close> (url crate), \<open>num_fmt\<close>
  and \<open>esc\<close> (serde_json's number and string rendering).
\<close>

section \<open>Bytes of text\<close>

text \<open>
  \<open>str::trim\<close> removes characters with the Unicode property White\_Space.  \<open>ws_len\<close> is the length
  in UTF-8 bytes of such a character at the front of the text, 0 when there is none.
\<close>

definition ws_len :: "string \<Rightarrow> nat" where
  "ws_len s =
    (case map of_char s :: nat list of
       [] \<Rightarrow> 0
     | b0 # r \<Rightarrow>
       if (9 \<le> b0 \<and> b0 \<le> 13) \<or> b0 = 32 then 1
       else (case r of
         [] \<Rightarrow> 0
       | b1 # r2 \<Rightarrow>
         if b0 = 0xC2 \<and> (b1 = 0x85 \<or> b1 = 0xA0) then 2
         else (case r2 of
           [] \<Rightarrow> 0
         | b2 # _ \<Rightarrow>
           if (b0 = 0xE1 \<and> b1 = 0x9A \<and> b2 = 0x80)
              \<or> (b0 = 0xE2 \<and> b1 = 0x80 \<and>
                  ((0x80 \<le> b2 \<and> b2 \<le> 0x8A) \<or> b2 = 0xA8 \<or> b2 = 0xA9 \<or> b2 = 0xAF))
              \<or> (b0 = 0xE2 \<and> b1 = 0x81 \<and> b2 = 0x9F)
              \<or> (b0 = 0xE3 \<and> b1 = 0x80 \<and> b2 = 0x80)
           then 3 else 0)))"

text \<open>\<open>s.trim().is_empty()\<close>\<close>

function trim_is_empty :: "string \<Rightarrow> bool" where
  "trim_is_empty s =
    (if s = [] then True else if ws_len s = 0 then False else trim_is_empty (drop (ws_len s) s))"
  by pat_completeness auto
termination
  by (relation "measure length") auto

declare trim_is_empty.simps [simp del]

text \<open>\<open>s.chars().any(char::is_control)\<close>: U+0000..1F, U+7F and U+80..9F (two bytes, C2 80..9F).\<close>

fun has_control :: "string \<Rightarrow> bool" where
  "has_control [] = False"
| "has_control (c # cs) =
    ((of_char c :: nat) < 0x20 \<or> (of_char c :: nat) = 0x7F
     \<or> (of_char c = (0xC2 :: nat) \<and>
         (case cs of d # _ \<Rightarrow> 0x80 \<le> (of_char d :: nat) \<and> of_char d \<le> (0x9F :: nat) | [] \<Rightarrow> False))
     \<or> has_control cs)"

section \<open>Limits (limits.rs)\<close>

record protocol_limits =
  max_items :: nat
  max_item_bytes :: nat
  max_total_bytes :: nat
  max_json_depth :: nat
  max_instructions_bytes :: nat
  max_metadata_entries :: nat
  max_metadata_key_bytes :: nat
  max_metadata_value_bytes :: nat
  max_url_bytes :: nat
  max_business_kind_bytes :: nat
  max_business_payload_bytes :: nat

definition ProtocolLimits_default :: protocol_limits where
  "ProtocolLimits_default = \<lparr>
    max_items = 200,
    max_item_bytes = 256 * 1024,
    max_total_bytes = 1024 * 1024,
    max_json_depth = 32,
    max_instructions_bytes = 32 * 1024,
    max_metadata_entries = 16,
    max_metadata_key_bytes = 64,
    max_metadata_value_bytes = 512,
    max_url_bytes = 2048,
    max_business_kind_bytes = 64,
    max_business_payload_bytes = 16 * 1024\<rparr>"

datatype limit_violation =
    TooManyItems nat nat
  | ItemTooLarge nat nat nat
  | TotalTooLarge nat nat
  | TooDeep nat nat
  | LimitEmpty

section \<open>Content parts (content.rs)\<close>

datatype image_detail = DetailAuto | DetailLow | DetailHigh

datatype content_part =
    InputText string
  | OutputText string
  | Refusal string
  | InputImage (image_url: "string option") (image_file_id: "string option")
      (image_detail: "image_detail option")
  | InputFile (file_file_id: "string option") (file_url: "string option")
      (file_name: "string option")

datatype content_violation =
    MissingReference string
  | RejectedUrl string url_rejection

fun opt_len :: "string option \<Rightarrow> nat" where
  "opt_len (Some s) = length s"
| "opt_len None = 0"

fun part_byte_len :: "content_part \<Rightarrow> nat" where
  "part_byte_len (InputText text) = length text"
| "part_byte_len (OutputText text) = length text"
| "part_byte_len (Refusal refusal) = length refusal"
| "part_byte_len (InputImage url file_id _) = opt_len url + opt_len file_id"
| "part_byte_len (InputFile file_id url filename) = opt_len file_id + opt_len url + opt_len filename"

definition check_reference ::
  "(string \<Rightarrow> parsed_url option) \<Rightarrow> protocol_limits \<Rightarrow> string \<Rightarrow> string option \<Rightarrow> string option
    \<Rightarrow> content_violation + unit" where
  "check_reference url_parse limits part url file_id =
    (case url of
       None \<Rightarrow> (case file_id of None \<Rightarrow> Inl (MissingReference part) | Some _ \<Rightarrow> Inr ())
     | Some u \<Rightarrow>
       (case ensure_public_https url_parse u (max_url_bytes limits) of
          Inl source \<Rightarrow> Inl (RejectedUrl part source)
        | Inr _ \<Rightarrow> Inr ()))"

fun validate_references ::
  "(string \<Rightarrow> parsed_url option) \<Rightarrow> protocol_limits \<Rightarrow> content_part \<Rightarrow> content_violation + unit" where
  "validate_references url_parse limits (InputImage url file_id _) =
    check_reference url_parse limits ''input_image'' url file_id"
| "validate_references url_parse limits (InputFile file_id url _) =
    check_reference url_parse limits ''input_file'' url file_id"
| "validate_references url_parse limits _ = Inr ()"

section \<open>Items (item.rs)\<close>

datatype role = User | Assistant | System | Developer

datatype item_status = ItemInProgress | ItemCompleted | ItemIncomplete

datatype response_item =
    Message (item_role: role) (item_content: "content_part list") (item_id: "string option")
      (item_status: "item_status option")
  | FunctionCall (item_call_id: string) (item_name: string) (item_arguments: string)
      (item_id: "string option") (item_status: "item_status option")
  | FunctionCallOutput (item_call_id: string) (item_output: string)
      (item_id: "string option") (item_status: "item_status option")

datatype item_violation =
    EmptyMessageContent
  | EmptyCallId
  | EmptyFunctionName
  | ItemContent content_violation

fun stream_item_id :: "response_item \<Rightarrow> string" where
  "stream_item_id (FunctionCall call_id _ _ _ _) = call_id"
| "stream_item_id (FunctionCallOutput call_id _ _ _) = call_id"
| "stream_item_id (Message _ _ i _) = (case i of Some s \<Rightarrow> s | None \<Rightarrow> [])"

fun is_acceptable_as_input :: "response_item \<Rightarrow> bool" where
  "is_acceptable_as_input (Message _ _ _ _) = True"
| "is_acceptable_as_input (FunctionCall _ _ _ _ _) = True"
| "is_acceptable_as_input (FunctionCallOutput _ _ _ _) = True"

fun item_byte_len :: "response_item \<Rightarrow> nat" where
  "item_byte_len (Message _ content _ _) = sum_list (map part_byte_len content)"
| "item_byte_len (FunctionCall call_id name arguments _ _) =
    length call_id + length name + length arguments"
| "item_byte_len (FunctionCallOutput call_id output _ _) = length call_id + length output"

fun validate_parts ::
  "(string \<Rightarrow> parsed_url option) \<Rightarrow> protocol_limits \<Rightarrow> content_part list \<Rightarrow> item_violation + unit" where
  "validate_parts url_parse limits [] = Inr ()"
| "validate_parts url_parse limits (part # parts) =
    (case validate_references url_parse limits part of
       Inl e \<Rightarrow> Inl (ItemContent e)
     | Inr _ \<Rightarrow> validate_parts url_parse limits parts)"

fun item_validate ::
  "(string \<Rightarrow> parsed_url option) \<Rightarrow> protocol_limits \<Rightarrow> response_item \<Rightarrow> item_violation + unit" where
  "item_validate url_parse limits (Message _ content _ _) =
    (if content = [] then Inl EmptyMessageContent else validate_parts url_parse limits content)"
| "item_validate url_parse limits (FunctionCall call_id name _ _ _) =
    (if call_id = [] then Inl EmptyCallId
     else if name = [] then Inl EmptyFunctionName else Inr ())"
| "item_validate url_parse limits (FunctionCallOutput call_id _ _ _) =
    (if call_id = [] then Inl EmptyCallId else Inr ())"

definition user_text :: "string \<Rightarrow> response_item" where
  "user_text text = Message User [InputText text] None None"

definition assistant_text :: "string \<Rightarrow> response_item" where
  "assistant_text text = Message Assistant [OutputText text] None (Some ItemCompleted)"

section \<open>Item and depth bounds (limits.rs)\<close>

fun sum_item_bytes :: "protocol_limits \<Rightarrow> nat \<Rightarrow> nat \<Rightarrow> response_item list \<Rightarrow> limit_violation + nat" where
  "sum_item_bytes limits index tot [] = Inr tot"
| "sum_item_bytes limits index tot (item # items) =
    (let len = item_byte_len item in
     if len > max_item_bytes limits then Inl (ItemTooLarge index len (max_item_bytes limits))
     else sum_item_bytes limits (index + 1) (sat_add tot len) items)"

definition validate_items :: "protocol_limits \<Rightarrow> response_item list \<Rightarrow> limit_violation + nat" where
  "validate_items limits items =
    (if items = [] then Inl LimitEmpty
     else if length items > max_items limits
     then Inl (TooManyItems (length items) (max_items limits))
     else case sum_item_bytes limits 0 0 items of
       Inl e \<Rightarrow> Inl e
     | Inr tot \<Rightarrow>
       if tot > max_total_bytes limits then Inl (TotalTooLarge tot (max_total_bytes limits))
       else Inr tot)"

definition validate_depth :: "protocol_limits \<Rightarrow> json \<Rightarrow> limit_violation + unit" where
  "validate_depth limits v =
    (let actual = json_depth v in
     if actual > max_json_depth limits then Inl (TooDeep actual (max_json_depth limits)) else Inr ())"

section \<open>Metadata (metadata.rs)\<close>

datatype metadata_value = MetaString string | MetaNumber json_number | MetaBool bool

fun metadata_as_str :: "metadata_value \<Rightarrow> string option" where
  "metadata_as_str (MetaString s) = Some s"
| "metadata_as_str _ = None"

fun metadata_byte_len :: "(json_number \<Rightarrow> string) \<Rightarrow> metadata_value \<Rightarrow> nat" where
  "metadata_byte_len num_fmt (MetaString s) = length s"
| "metadata_byte_len num_fmt (MetaNumber n) = length (num_fmt n)"
| "metadata_byte_len num_fmt (MetaBool b) = (if b then 4 else 5)"

text \<open>A \<open>BTreeMap\<close> is the list of its entries in key order.\<close>

type_synonym metadata = "(string \<times> metadata_value) list"

section \<open>Tools (tool.rs)\<close>

datatype tool = ToolFunction (tool_name: string) (tool_description: "string option")
  (tool_parameters: json) (tool_strict: "bool option")

datatype tool_choice_mode = ChoiceAuto | ChoiceNone | ChoiceRequired

datatype tool_choice = ChoiceMode tool_choice_mode | ChoiceFunction string

text \<open>What a deserialiser reports.\<close>

datatype de_error =
    InvalidType
  | DuplicateField string
  | UnknownField string
  | MissingField string
  | UnknownVariant string

fun mode_wire :: "tool_choice_mode \<Rightarrow> string" where
  "mode_wire ChoiceAuto = ''auto''"
| "mode_wire ChoiceNone = ''none''"
| "mode_wire ChoiceRequired = ''required''"

fun tool_choice_serialize :: "tool_choice \<Rightarrow> json" where
  "tool_choice_serialize (ChoiceMode mode) = JStr (mode_wire mode)"
| "tool_choice_serialize (ChoiceFunction name) =
    JObj [(''type'', JStr ''function''), (''name'', JStr name)]"

definition de_string :: "json \<Rightarrow> de_error + string" where
  "de_string v = (case v of JStr s \<Rightarrow> Inr s | _ \<Rightarrow> Inl InvalidType)"

definition choice_visit_str :: "string \<Rightarrow> de_error + tool_choice" where
  "choice_visit_str v =
    (if v = ''auto'' then Inr (ChoiceMode ChoiceAuto)
     else if v = ''none'' then Inr (ChoiceMode ChoiceNone)
     else if v = ''required'' then Inr (ChoiceMode ChoiceRequired)
     else Inl (UnknownVariant v))"

fun choice_visit_map ::
  "string option \<Rightarrow> string option \<Rightarrow> (string \<times> json) list \<Rightarrow> de_error + tool_choice" where
  "choice_visit_map kind name [] =
    (case kind of
       Some k \<Rightarrow>
         if k = ''function''
         then (case name of Some n \<Rightarrow> Inr (ChoiceFunction n) | None \<Rightarrow> Inl (MissingField ''name''))
         else Inl (UnknownVariant k)
     | None \<Rightarrow> Inl (MissingField ''type''))"
| "choice_visit_map kind name ((key, v) # rest) =
    (if key = ''type''
     then (case de_string v of Inl e \<Rightarrow> Inl e | Inr s \<Rightarrow> choice_visit_map (Some s) name rest)
     else if key = ''name''
     then (case de_string v of Inl e \<Rightarrow> Inl e | Inr s \<Rightarrow> choice_visit_map kind (Some s) rest)
     else Inl (UnknownField key))"

fun tool_choice_deserialize :: "json \<Rightarrow> de_error + tool_choice" where
  "tool_choice_deserialize (JStr s) = choice_visit_str s"
| "tool_choice_deserialize (JObj m) = choice_visit_map None None m"
| "tool_choice_deserialize _ = Inl InvalidType"

section \<open>The request envelope (request.rs)\<close>

datatype f64 = NaN | PosInf | NegInf | Fin rat

text \<open>\<open>(lo..=hi).contains(&x)\<close>\<close>

fun f64_in :: "rat \<Rightarrow> rat \<Rightarrow> f64 \<Rightarrow> bool" where
  "f64_in lo hi (Fin x) \<longleftrightarrow> lo \<le> x \<and> x \<le> hi"
| "f64_in lo hi _ \<longleftrightarrow> False"

datatype conversation_ref = RefId string | RefObject string

fun ref_id :: "conversation_ref \<Rightarrow> string" where
  "ref_id (RefId i) = i"
| "ref_id (RefObject i) = i"

fun ref_serialize :: "conversation_ref \<Rightarrow> json" where
  "ref_serialize (RefId i) = JStr i"
| "ref_serialize (RefObject i) = JObj [(''id'', JStr i)]"

fun ref_visit_map :: "string option \<Rightarrow> (string \<times> json) list \<Rightarrow> de_error + conversation_ref" where
  "ref_visit_map i [] = (case i of Some s \<Rightarrow> Inr (RefObject s) | None \<Rightarrow> Inl (MissingField ''id''))"
| "ref_visit_map i ((key, v) # rest) =
    (if key = ''id''
     then if i \<noteq> None then Inl (DuplicateField ''id'')
       else (case de_string v of Inl e \<Rightarrow> Inl e | Inr s \<Rightarrow> ref_visit_map (Some s) rest)
     else Inl (UnknownField key))"

fun ref_deserialize :: "json \<Rightarrow> de_error + conversation_ref" where
  "ref_deserialize (JStr s) = Inr (RefId s)"
| "ref_deserialize (JObj m) = ref_visit_map None m"
| "ref_deserialize _ = Inl InvalidType"

datatype response_input = InputString string | InputItems "response_item list"

fun to_items :: "response_input \<Rightarrow> response_item list" where
  "to_items (InputString text) = [user_text text]"
| "to_items (InputItems items) = items"

record create_response_request =
  crq_model :: string
  crq_input :: response_input
  crq_instructions :: "string option"
  crq_store :: bool
  crq_stream :: bool
  crq_background :: bool
  crq_previous_response_id :: "string option"
  crq_conversation :: "conversation_ref option"
  crq_max_output_tokens :: "nat option"
  crq_metadata :: "metadata option"
  crq_tools :: "tool list option"
  crq_tool_choice :: "tool_choice option"
  crq_temperature :: "f64 option"
  crq_top_p :: "f64 option"

datatype request_violation =
    EmptyModel
  | RequestLimits limit_violation
  | RequestItem nat item_violation
  | InstructionsTooLong nat
  | EmptyPreviousId
  | EmptyConversationId
  | PreviousIdAndConversation
  | ZeroMaxOutputTokens
  | TemperatureOutOfRange
  | TopPOutOfRange
  | TooManyMetadataEntries nat nat
  | MetadataKeyTooLong string nat
  | MetadataValueTooLong string nat
  | ToolParameters string limit_violation
  | StreamAndBackground

fun validate_metadata_entries ::
  "(json_number \<Rightarrow> string) \<Rightarrow> protocol_limits \<Rightarrow> metadata \<Rightarrow> request_violation + unit" where
  "validate_metadata_entries num_fmt limits [] = Inr ()"
| "validate_metadata_entries num_fmt limits ((key, v) # rest) =
    (if length key > max_metadata_key_bytes limits
     then Inl (MetadataKeyTooLong key (max_metadata_key_bytes limits))
     else if metadata_byte_len num_fmt v > max_metadata_value_bytes limits
     then Inl (MetadataValueTooLong key (max_metadata_value_bytes limits))
     else validate_metadata_entries num_fmt limits rest)"

definition validate_metadata ::
  "(json_number \<Rightarrow> string) \<Rightarrow> protocol_limits \<Rightarrow> metadata \<Rightarrow> request_violation + unit" where
  "validate_metadata num_fmt limits m =
    (if length m > max_metadata_entries limits
     then Inl (TooManyMetadataEntries (length m) (max_metadata_entries limits))
     else validate_metadata_entries num_fmt limits m)"

fun validate_tools :: "protocol_limits \<Rightarrow> tool list \<Rightarrow> request_violation + unit" where
  "validate_tools limits [] = Inr ()"
| "validate_tools limits (t # ts) =
    (case validate_depth limits (tool_parameters t) of
       Inl source \<Rightarrow> Inl (ToolParameters (tool_name t) source)
     | Inr _ \<Rightarrow> validate_tools limits ts)"

fun validate_each_item ::
  "(string \<Rightarrow> parsed_url option) \<Rightarrow> protocol_limits \<Rightarrow> nat \<Rightarrow> response_item list
    \<Rightarrow> request_violation + unit" where
  "validate_each_item url_parse limits index [] = Inr ()"
| "validate_each_item url_parse limits index (item # items) =
    (case item_validate url_parse limits item of
       Inl source \<Rightarrow> Inl (RequestItem index source)
     | Inr _ \<Rightarrow> validate_each_item url_parse limits (index + 1) items)"

text \<open>The scalar checks of \<open>CreateResponseRequest::validate\<close>, in order; \<open>None\<close> when all pass.\<close>

definition scalar_violation ::
  "protocol_limits \<Rightarrow> create_response_request \<Rightarrow> request_violation option" where
  "scalar_violation limits q =
    (if trim_is_empty (crq_model q) then Some EmptyModel
     else if crq_stream q \<and> crq_background q then Some StreamAndBackground
     else if (case crq_instructions q of Some s \<Rightarrow> length s > max_instructions_bytes limits | None \<Rightarrow> False)
     then Some (InstructionsTooLong (max_instructions_bytes limits))
     else if (case crq_previous_response_id q of Some p \<Rightarrow> trim_is_empty p | None \<Rightarrow> False)
     then Some EmptyPreviousId
     else if (case crq_conversation q of Some c \<Rightarrow> trim_is_empty (ref_id c) | None \<Rightarrow> False)
     then Some EmptyConversationId
     else if crq_conversation q \<noteq> None \<and> crq_previous_response_id q \<noteq> None
     then Some PreviousIdAndConversation
     else if crq_max_output_tokens q = Some 0 then Some ZeroMaxOutputTokens
     else if (case crq_temperature q of Some t \<Rightarrow> \<not> f64_in 0 2 t \<or> t = NaN | None \<Rightarrow> False)
     then Some TemperatureOutOfRange
     else if (case crq_top_p q of Some p \<Rightarrow> \<not> f64_in 0 1 p \<or> p = NaN | None \<Rightarrow> False)
     then Some TopPOutOfRange
     else None)"

definition request_validate ::
  "(string \<Rightarrow> parsed_url option) \<Rightarrow> (json_number \<Rightarrow> string) \<Rightarrow> protocol_limits
    \<Rightarrow> create_response_request \<Rightarrow> request_violation + response_item list" where
  "request_validate url_parse num_fmt limits q =
    (case scalar_violation limits q of
       Some e \<Rightarrow> Inl e
     | None \<Rightarrow>
       (case (case crq_metadata q of Some m \<Rightarrow> validate_metadata num_fmt limits m | None \<Rightarrow> Inr ()) of
          Inl e \<Rightarrow> Inl e
        | Inr _ \<Rightarrow>
          (case validate_tools limits (case crq_tools q of Some ts \<Rightarrow> ts | None \<Rightarrow> []) of
             Inl e \<Rightarrow> Inl e
           | Inr _ \<Rightarrow>
             (let items = to_items (crq_input q) in
              case validate_items limits items of
                Inl e \<Rightarrow> Inl (RequestLimits e)
              | Inr _ \<Rightarrow>
                (case validate_each_item url_parse limits 0 items of
                   Inl e \<Rightarrow> Inl e
                 | Inr _ \<Rightarrow> Inr items)))))"

text \<open>\<open>preflight_unsupported\<close> with the table of deliberately unsupported fields (mod.rs).\<close>

definition EXPLICITLY_UNSUPPORTED_FIELDS :: "(string \<times> string) list" where
  "EXPLICITLY_UNSUPPORTED_FIELDS =
    [(''context_management'',
      ''server-side context compaction is not supported; manage history length via previous_response_id chains''),
     (''prompt'',
      ''stored prompt templates are not supported; send instructions and input directly'')]"

definition preflight_unsupported :: "json \<Rightarrow> (string \<times> string) option" where
  "preflight_unsupported raw =
    (case raw of
       JObj m \<Rightarrow> find (\<lambda>(field, _). map_of m field \<noteq> None) EXPLICITLY_UNSUPPORTED_FIELDS
     | _ \<Rightarrow> None)"

section \<open>Conversation requests (protocol/conversation.rs)\<close>

datatype conversation_metadata_request = MetadataRequest (cmr_metadata: "metadata option")

definition metadata_request_validate ::
  "(json_number \<Rightarrow> string) \<Rightarrow> protocol_limits \<Rightarrow> conversation_metadata_request \<Rightarrow> request_violation + unit" where
  "metadata_request_validate num_fmt limits q =
    (case cmr_metadata q of Some m \<Rightarrow> validate_metadata num_fmt limits m | None \<Rightarrow> Inr ())"

definition metadata_request_metadata :: "conversation_metadata_request \<Rightarrow> metadata" where
  "metadata_request_metadata q = (case cmr_metadata q of Some m \<Rightarrow> m | None \<Rightarrow> [])"

datatype business_event_violation =
    EmptyKind
  | KindTooLong nat
  | KindHasControlChars
  | PayloadTooLarge nat
  | PayloadTooDeep nat

datatype append_business_event_request = BusinessEventRequest (ber_kind: string) (ber_payload: json)

definition business_event_validate ::
  "(string \<Rightarrow> string) \<Rightarrow> (json_number \<Rightarrow> string) \<Rightarrow> protocol_limits \<Rightarrow> append_business_event_request
    \<Rightarrow> business_event_violation + unit" where
  "business_event_validate esc num_fmt limits q =
    (if trim_is_empty (ber_kind q) then Inl EmptyKind
     else if length (ber_kind q) > max_business_kind_bytes limits
     then Inl (KindTooLong (max_business_kind_bytes limits))
     else if has_control (ber_kind q) then Inl KindHasControlChars
     else if length (compact_json esc num_fmt (ber_payload q)) > max_business_payload_bytes limits
     then Inl (PayloadTooLarge (max_business_payload_bytes limits))
     else if json_depth (ber_payload q) > max_json_depth limits
     then Inl (PayloadTooDeep (max_json_depth limits))
     else Inr ())"

section \<open>What the checks accept\<close>

lemma sum_item_bytes_iff:
  assumes "tot \<le> u64_max"
  shows "sum_item_bytes limits index tot items = Inr t \<longleftrightarrow>
    (\<forall>it \<in> set items. item_byte_len it \<le> max_item_bytes limits) \<and>
    t = min (tot + sum_list (map item_byte_len items)) u64_max"
  using assms
proof (induction limits index tot items rule: sum_item_bytes.induct)
  case (2 limits index tot item items)
  then show ?case
    by (auto simp: Let_def sat_add_def min_def add.assoc)
qed (auto simp: min_def)

lemma validate_items_iff:
  assumes "max_total_bytes limits < u64_max"
  shows "validate_items limits items = Inr t \<longleftrightarrow>
    items \<noteq> [] \<and> length items \<le> max_items limits \<and>
    (\<forall>it \<in> set items. item_byte_len it \<le> max_item_bytes limits) \<and>
    t = sum_list (map item_byte_len items) \<and> t \<le> max_total_bytes limits"
proof (cases "sum_item_bytes limits 0 0 items")
  case (Inl e)
  then have "\<not> (\<forall>it \<in> set items. item_byte_len it \<le> max_item_bytes limits)"
    using sum_item_bytes_iff[of 0 limits 0 items] by auto
  then show ?thesis using Inl by (auto simp: validate_items_def)
next
  case (Inr t')
  then show ?thesis
    using assms sum_item_bytes_iff[of 0 limits 0 items t']
    by (auto simp: validate_items_def min_def split: if_splits)
qed

lemma validate_depth_iff: "validate_depth limits v = Inr () \<longleftrightarrow> nesting v \<le> max_json_depth limits"
  by (simp add: validate_depth_def json_depth_eq Let_def not_less)

lemma validate_tools_iff:
  "validate_tools limits ts = Inr () \<longleftrightarrow>
    (\<forall>t \<in> set ts. nesting (tool_parameters t) \<le> max_json_depth limits)"
  by (induction ts) (auto simp: validate_depth_iff[symmetric] split: sum.splits)

lemma validate_each_item_iff:
  "validate_each_item url_parse limits index items = Inr () \<longleftrightarrow>
    (\<forall>it \<in> set items. item_validate url_parse limits it = Inr ())"
  by (induction items arbitrary: index) (auto split: sum.splits)

lemma validate_parts_iff:
  "validate_parts url_parse limits parts = Inr () \<longleftrightarrow>
    (\<forall>p \<in> set parts. validate_references url_parse limits p = Inr ())"
  by (induction parts) (auto split: sum.splits)

lemma validate_metadata_iff:
  "validate_metadata num_fmt limits m = Inr () \<longleftrightarrow>
    length m \<le> max_metadata_entries limits \<and>
    (\<forall>(k, v) \<in> set m. length k \<le> max_metadata_key_bytes limits \<and>
       metadata_byte_len num_fmt v \<le> max_metadata_value_bytes limits)"
proof -
  have "validate_metadata_entries num_fmt limits m = Inr () \<longleftrightarrow>
    (\<forall>(k, v) \<in> set m. length k \<le> max_metadata_key_bytes limits \<and>
       metadata_byte_len num_fmt v \<le> max_metadata_value_bytes limits)"
    by (induction m) (auto simp: not_less split: if_splits)
  then show ?thesis by (simp add: validate_metadata_def not_less)
qed

lemma scalar_violation_None_iff:
  "scalar_violation limits q = None \<longleftrightarrow>
    \<not> trim_is_empty (crq_model q) \<and> \<not> (crq_stream q \<and> crq_background q) \<and>
    (\<forall>s. crq_instructions q = Some s \<longrightarrow> length s \<le> max_instructions_bytes limits) \<and>
    (\<forall>p. crq_previous_response_id q = Some p \<longrightarrow> \<not> trim_is_empty p \<and> crq_conversation q = None) \<and>
    (\<forall>c. crq_conversation q = Some c \<longrightarrow> \<not> trim_is_empty (ref_id c)) \<and>
    crq_max_output_tokens q \<noteq> Some 0 \<and>
    (\<forall>t. crq_temperature q = Some t \<longrightarrow> f64_in 0 2 t) \<and>
    (\<forall>t. crq_top_p q = Some t \<longrightarrow> f64_in 0 1 t)"
  unfolding scalar_violation_def
  by (cases "crq_instructions q"; cases "crq_previous_response_id q"; cases "crq_conversation q";
      cases "crq_temperature q"; cases "crq_top_p q") (auto simp: not_less)


text \<open>A \<open>tool_choice\<close> echoed on a rendered response is accepted when a client sends it back.\<close>

theorem tool_choice_roundtrip: "tool_choice_deserialize (tool_choice_serialize c) = Inr c"
proof (cases c)
  case (ChoiceMode m)
  then show ?thesis by (cases m) (auto simp: choice_visit_str_def)
next
  case (ChoiceFunction n)
  then show ?thesis by (simp add: de_string_def)
qed

definition demo_request :: create_response_request where
  "demo_request = \<lparr>crq_model = ''m'', crq_input = InputString ''hi'', crq_instructions = None, crq_store = True,
    crq_stream = False, crq_background = False, crq_previous_response_id = None, crq_conversation = None,
    crq_max_output_tokens = Some 5, crq_metadata = Some [(''k'', MetaBool True)], crq_tools = None,
    crq_tool_choice = None, crq_temperature = Some (Fin 1), crq_top_p = None\<rparr>"


lemma conversation_ref_roundtrip: "ref_deserialize (ref_serialize r) = Inr r"
  by (cases r) (auto simp: de_string_def)

lemma business_event_validate_iff:
  "business_event_validate esc num_fmt limits q = Inr () \<longleftrightarrow>
    \<not> trim_is_empty (ber_kind q) \<and> length (ber_kind q) \<le> max_business_kind_bytes limits \<and>
    \<not> has_control (ber_kind q) \<and>
    length (compact_json esc num_fmt (ber_payload q)) \<le> max_business_payload_bytes limits \<and>
    nesting (ber_payload q) \<le> max_json_depth limits"
  by (auto simp: business_event_validate_def json_depth_eq)

end
