(* ===== verification/Response.thy ===== *)
theory Response
  imports Protocol
begin

text \<open>
  Domain values of a generation: token accounting (\<open>usage.rs\<close>), the lifecycle status, the
  caller's turn specification and the persisted record (\<open>response.rs\<close>), the resolved context
  (\<open>context.rs\<close>), the rendered object (\<open>protocol/response_object.rs\<close>) and the conversation values
  (\<open>conversation.rs\<close>).
\<close>

section \<open>Usage\<close>

record usage =
  input_tokens :: nat
  output_tokens :: nat

definition Usage_new :: "nat \<Rightarrow> nat \<Rightarrow> usage" where
  "Usage_new i o' = \<lparr>input_tokens = i, output_tokens = o'\<rparr>"

definition Usage_default :: usage where
  "Usage_default = Usage_new 0 0"

definition total_tokens :: "usage \<Rightarrow> nat" where
  "total_tokens u = sat_add (input_tokens u) (output_tokens u)"

definition usage_is_zero :: "usage \<Rightarrow> bool" where
  "usage_is_zero u \<longleftrightarrow> input_tokens u = 0 \<and> output_tokens u = 0"

definition accumulate :: "usage \<Rightarrow> usage \<Rightarrow> usage" where
  "accumulate a b =
    Usage_new (sat_add (input_tokens a) (input_tokens b)) (sat_add (output_tokens a) (output_tokens b))"

text \<open>The wire form carries the derived total, which is ignored on read.\<close>

record usage_wire =
  uw_input_tokens :: nat
  uw_output_tokens :: nat
  uw_total_tokens :: nat

definition usage_to_wire :: "usage \<Rightarrow> usage_wire" where
  "usage_to_wire u = \<lparr>uw_input_tokens = input_tokens u, uw_output_tokens = output_tokens u,
    uw_total_tokens = total_tokens u\<rparr>"

definition usage_of_wire :: "usage_wire \<Rightarrow> usage" where
  "usage_of_wire w = Usage_new (uw_input_tokens w) (uw_output_tokens w)"

lemma usage_wire_roundtrip: "usage_of_wire (usage_to_wire u) = u"
  by (simp add: usage_of_wire_def usage_to_wire_def Usage_new_def)

lemma accumulate_assoc: "accumulate (accumulate a b) c = accumulate a (accumulate b c)"
  by (simp add: accumulate_def Usage_new_def sat_add_assoc)

lemma accumulate_comm: "accumulate a b = accumulate b a"
  by (simp add: accumulate_def Usage_new_def sat_add_comm)

lemma usage_is_zero_iff: "usage_is_zero u \<longleftrightarrow> u = Usage_default"
  by (cases u) (simp add: usage_is_zero_def Usage_default_def Usage_new_def)

section \<open>Lifecycle status\<close>

datatype response_status = Queued | InProgress | Completed | Failed | Incomplete | Cancelled

fun is_terminal :: "response_status \<Rightarrow> bool" where
  "is_terminal Queued = False"
| "is_terminal InProgress = False"
| "is_terminal _ = True"

fun status_as_str :: "response_status \<Rightarrow> string" where
  "status_as_str Queued = ''queued''"
| "status_as_str InProgress = ''in_progress''"
| "status_as_str Completed = ''completed''"
| "status_as_str Failed = ''failed''"
| "status_as_str Incomplete = ''incomplete''"
| "status_as_str Cancelled = ''cancelled''"

lemma is_terminal_iff: "is_terminal s \<longleftrightarrow> s \<notin> {Queued, InProgress}"
  by (cases s) auto

section \<open>Anchor, parameters, specification\<close>

datatype context_anchor = Root | Previous response_id | AnchorConversation conversation_id

fun anchor_conversation_id :: "context_anchor \<Rightarrow> conversation_id option" where
  "anchor_conversation_id (AnchorConversation c) = Some c"
| "anchor_conversation_id _ = None"

fun anchor_previous_response_id :: "context_anchor \<Rightarrow> response_id option" where
  "anchor_previous_response_id (Previous r) = Some r"
| "anchor_previous_response_id _ = None"

record model_params =
  mp_model :: string
  mp_instructions :: "string option"
  mp_tools :: "tool list"
  mp_tool_choice :: "tool_choice option"
  mp_metadata :: metadata

definition ModelParams_new :: "string \<Rightarrow> model_params" where
  "ModelParams_new model = \<lparr>mp_model = model, mp_instructions = None, mp_tools = [],
    mp_tool_choice = None, mp_metadata = []\<rparr>"

record turn_spec =
  ts_params :: model_params
  ts_input_items :: "response_item list"
  ts_store :: bool
  ts_anchor :: context_anchor

section \<open>The record\<close>

record integrity_tag =
  it_alg :: string
  it_tag :: string

record response_record =
  rr_response_id :: response_id
  rr_tenant_id :: tenant_id
  rr_spec :: turn_spec
  rr_status :: response_status
  rr_usage :: usage
  rr_reasoning :: "string option"
  rr_created_at_ms :: nat
  rr_completed_at_ms :: "nat option"
  rr_expires_at_ms :: "nat option"
  rr_integrity :: "integrity_tag option"
  rr_idempotency_key :: "idempotency_key option"
  rr_owner :: "agent_id option"
  rr_attempt :: attempt

definition ResponseRecord_queued ::
  "response_id \<Rightarrow> tenant_id \<Rightarrow> turn_spec \<Rightarrow> idempotency_key \<Rightarrow> nat \<Rightarrow> nat \<Rightarrow> response_record" where
  "ResponseRecord_queued rid tenant spec key now_ms content_retention_ms = \<lparr>
    rr_response_id = rid,
    rr_tenant_id = tenant,
    rr_spec = spec,
    rr_status = Queued,
    rr_usage = Usage_default,
    rr_reasoning = None,
    rr_created_at_ms = now_ms,
    rr_completed_at_ms = None,
    rr_expires_at_ms = (if ts_store spec then Some (sat_add now_ms content_retention_ms) else None),
    rr_integrity = None,
    rr_idempotency_key = Some key,
    rr_owner = None,
    rr_attempt = UNCLAIMED\<rparr>"

definition rr_conversation_id :: "response_record \<Rightarrow> conversation_id option" where
  "rr_conversation_id r = anchor_conversation_id (ts_anchor (rr_spec r))"

definition rr_previous_response_id :: "response_record \<Rightarrow> response_id option" where
  "rr_previous_response_id r = anchor_previous_response_id (ts_anchor (rr_spec r))"

definition is_stored :: "response_record \<Rightarrow> bool" where
  "is_stored r = ts_store (rr_spec r)"

definition is_referencable_by :: "response_record \<Rightarrow> tenant_id \<Rightarrow> bool" where
  "is_referencable_by r tenant \<longleftrightarrow> is_stored r \<and> rr_tenant_id r = tenant"

section \<open>Context\<close>

record context_entry =
  ce_item :: response_item
  ce_reasoning :: "string option"

definition ContextEntry_new :: "response_item \<Rightarrow> context_entry" where
  "ContextEntry_new item = \<lparr>ce_item = item, ce_reasoning = None\<rparr>"

definition ContextEntry_with_reasoning :: "response_item \<Rightarrow> string option \<Rightarrow> context_entry" where
  "ContextEntry_with_reasoning item reasoning = \<lparr>ce_item = item, ce_reasoning = reasoning\<rparr>"

record resolved_context =
  rc_entries :: "context_entry list"
  rc_turns :: nat

definition ResolvedContext_new :: "context_entry list \<Rightarrow> nat \<Rightarrow> resolved_context" where
  "ResolvedContext_new entries turns = \<lparr>rc_entries = entries, rc_turns = turns\<rparr>"

definition ResolvedContext_default :: resolved_context where
  "ResolvedContext_default = ResolvedContext_new [] 0"

definition rc_from_items :: "response_item list \<Rightarrow> nat \<Rightarrow> resolved_context" where
  "rc_from_items items turns = ResolvedContext_new (map ContextEntry_new items) turns"

definition rc_items :: "resolved_context \<Rightarrow> response_item list" where
  "rc_items c = map ce_item (rc_entries c)"

definition rc_item_count :: "resolved_context \<Rightarrow> nat" where
  "rc_item_count c = length (rc_entries c)"

definition rc_bytes :: "resolved_context \<Rightarrow> nat" where
  "rc_bytes c = fold (\<lambda>e acc. sat_add acc (item_byte_len (ce_item e))) (rc_entries c) 0"

definition rc_extend :: "resolved_context \<Rightarrow> resolved_context \<Rightarrow> resolved_context" where
  "rc_extend c d = \<lparr>rc_entries = rc_entries c @ rc_entries d, rc_turns = sat_add (rc_turns c) (rc_turns d)\<rparr>"

lemma fold_sat_add:
  "a \<le> u64_max \<Longrightarrow> fold (\<lambda>e acc. sat_add acc (f e)) xs a = min (a + sum_list (map f xs)) u64_max"
proof (induction xs arbitrary: a)
  case (Cons x xs)
  have "min (sat_add a (f x) + sum_list (map f xs)) u64_max
      = min (a + (f x + sum_list (map f xs))) u64_max"
    by (simp add: sat_add_def min_def)
  then show ?case using Cons.IH[of "sat_add a (f x)"] by simp
qed simp

lemma rc_bytes_eq:
  "rc_bytes c = min (sum_list (map (item_byte_len \<circ> ce_item) (rc_entries c))) u64_max"
  using fold_sat_add[of 0 "item_byte_len \<circ> ce_item" "rc_entries c"]
  by (simp add: rc_bytes_def)

lemma rc_bytes_extend: "rc_bytes (rc_extend c d) = sat_add (rc_bytes c) (rc_bytes d)"
  by (auto simp: rc_bytes_eq rc_extend_def sat_add_def min_def)

section \<open>The rendered object\<close>

record response_object =
  ro_id :: string
  ro_created_at :: nat
  ro_status :: response_status
  ro_model :: string
  ro_previous_response_id :: "string option"
  ro_conversation :: "conversation_ref option"
  ro_instructions :: "string option"
  ro_store :: bool
  ro_input :: "response_item list"
  ro_output :: "response_item list"
  ro_reasoning :: "string option"
  ro_tools :: "tool list"
  ro_tool_choice :: "tool_choice option"
  ro_metadata :: metadata
  ro_usage :: usage

definition ResponseObject_new ::
  "(uuid \<Rightarrow> string) \<Rightarrow> response_record \<Rightarrow> response_item list \<Rightarrow> response_object" where
  "ResponseObject_new uuid_fmt r output =
    (let spec = rr_spec r; params = ts_params spec in \<lparr>
      ro_id = ResponseId_display uuid_fmt (rr_response_id r),
      ro_created_at = rr_created_at_ms r div 1000,
      ro_status = rr_status r,
      ro_model = mp_model params,
      ro_previous_response_id = map_option (ResponseId_display uuid_fmt) (rr_previous_response_id r),
      ro_conversation = map_option (\<lambda>i. RefObject (ConversationId_display uuid_fmt i)) (rr_conversation_id r),
      ro_instructions = mp_instructions params,
      ro_store = ts_store spec,
      ro_input = ts_input_items spec,
      ro_output = output,
      ro_reasoning = rr_reasoning r,
      ro_tools = mp_tools params,
      ro_tool_choice = mp_tool_choice params,
      ro_metadata = mp_metadata params,
      ro_usage = rr_usage r\<rparr>)"

definition ResponseObject_without_output :: "(uuid \<Rightarrow> string) \<Rightarrow> response_record \<Rightarrow> response_object" where
  "ResponseObject_without_output uuid_fmt r = ResponseObject_new uuid_fmt r []"

definition ResponseObject_terminal_stub ::
  "(uuid \<Rightarrow> string) \<Rightarrow> response_id \<Rightarrow> response_status \<Rightarrow> response_object" where
  "ResponseObject_terminal_stub uuid_fmt rid status = \<lparr>
      ro_id = ResponseId_display uuid_fmt rid,
      ro_created_at = 0,
      ro_status = status,
      ro_model = [],
      ro_previous_response_id = None,
      ro_conversation = None,
      ro_instructions = None,
      ro_store = False,
      ro_input = [],
      ro_output = [],
      ro_reasoning = None,
      ro_tools = [],
      ro_tool_choice = None,
      ro_metadata = [],
      ro_usage = Usage_default\<rparr>"

section \<open>Conversations\<close>

record conversation =
  cv_id :: conversation_id
  cv_tenant_id :: tenant_id
  cv_last_response_id :: "response_id option"
  cv_active_response_id :: "response_id option"
  cv_metadata :: metadata
  cv_created_at_ms :: nat

definition Conversation_new ::
  "conversation_id \<Rightarrow> tenant_id \<Rightarrow> metadata \<Rightarrow> nat \<Rightarrow> conversation" where
  "Conversation_new i tenant m created_at_ms = \<lparr>cv_id = i, cv_tenant_id = tenant,
    cv_last_response_id = None, cv_active_response_id = None, cv_metadata = m,
    cv_created_at_ms = created_at_ms\<rparr>"

record turn_commit =
  tc_input_items :: "response_item list"
  tc_output_items :: "response_item list"
  tc_reasoning :: "string option"
  tc_usage :: usage
  tc_status :: response_status

datatype conversation_event_kind =
    TurnStarted response_id
  | TurnCompleted response_id response_status
  | ResponseDeleted response_id
  | Business string json

fun conversation_event_as_str :: "conversation_event_kind \<Rightarrow> string" where
  "conversation_event_as_str (TurnStarted _) = ''conversation.turn_started''"
| "conversation_event_as_str (TurnCompleted _ _) = ''conversation.turn_completed''"
| "conversation_event_as_str (ResponseDeleted _) = ''conversation.response_deleted''"
| "conversation_event_as_str (Business _ _) = ''conversation.business''"

fun conversation_event_response_id :: "conversation_event_kind \<Rightarrow> response_id option" where
  "conversation_event_response_id (TurnStarted r) = Some r"
| "conversation_event_response_id (TurnCompleted r _) = Some r"
| "conversation_event_response_id (ResponseDeleted r) = Some r"
| "conversation_event_response_id (Business _ _) = None"

record conversation_event =
  cev_conversation_id :: conversation_id
  cev_seq :: nat
  cev_kind :: conversation_event_kind
  cev_ts_ms :: nat

end
