(* ===== verification/Events.thy ===== *)
theory Events
  imports Response
begin

text \<open>
  Stream events (\<open>crates/responses/src/events.rs\<close>): the closed set of names, the bodies, the
  event a producer hands to the log and the stored form with its sequence number.
\<close>

datatype response_event_kind =
    EvCreated
  | EvInProgress
  | EvOutputTextDelta
  | EvReasoningTextDelta
  | EvOutputItemAdded
  | EvOutputItemDone
  | EvFunctionCallArgumentsDelta
  | EvFunctionCallArgumentsDone
  | EvContentPartAdded
  | EvContentPartDone
  | EvOutputTextDone
  | EvCompleted
  | EvFailed
  | EvIncomplete

fun coalescible :: "response_event_kind \<Rightarrow> bool" where
  "coalescible EvOutputTextDelta = True"
| "coalescible EvFunctionCallArgumentsDelta = True"
| "coalescible EvReasoningTextDelta = True"
| "coalescible _ = False"

fun kind_is_terminal :: "response_event_kind \<Rightarrow> bool" where
  "kind_is_terminal EvCompleted = True"
| "kind_is_terminal EvFailed = True"
| "kind_is_terminal EvIncomplete = True"
| "kind_is_terminal _ = False"

text \<open>One name per kind; \<open>FromStr\<close> reads the same table.\<close>

definition event_kinds :: "response_event_kind list" where
  "event_kinds = [EvCreated, EvInProgress, EvOutputTextDelta, EvReasoningTextDelta,
    EvOutputItemAdded, EvOutputItemDone, EvFunctionCallArgumentsDelta, EvFunctionCallArgumentsDone,
    EvContentPartAdded, EvContentPartDone, EvOutputTextDone, EvCompleted, EvFailed, EvIncomplete]"

fun kind_as_str :: "response_event_kind \<Rightarrow> string" where
  "kind_as_str EvCreated = ''response.created''"
| "kind_as_str EvInProgress = ''response.in_progress''"
| "kind_as_str EvOutputTextDelta = ''response.output_text.delta''"
| "kind_as_str EvReasoningTextDelta = ''response.reasoning_text.delta''"
| "kind_as_str EvOutputItemAdded = ''response.output_item.added''"
| "kind_as_str EvOutputItemDone = ''response.output_item.done''"
| "kind_as_str EvFunctionCallArgumentsDelta = ''response.function_call_arguments.delta''"
| "kind_as_str EvFunctionCallArgumentsDone = ''response.function_call_arguments.done''"
| "kind_as_str EvContentPartAdded = ''response.content_part.added''"
| "kind_as_str EvContentPartDone = ''response.content_part.done''"
| "kind_as_str EvOutputTextDone = ''response.output_text.done''"
| "kind_as_str EvCompleted = ''response.completed''"
| "kind_as_str EvFailed = ''response.failed''"
| "kind_as_str EvIncomplete = ''response.incomplete''"

definition kind_from_str :: "string \<Rightarrow> response_event_kind option" where
  "kind_from_str s = find (\<lambda>k. kind_as_str k = s) event_kinds"

datatype event_body =
    Delta string nat "nat option" string
  | Item nat response_item
  | Arguments nat string string
  | Text string nat nat string
  | Part string nat nat content_part
  | BodyResponse response_object

record append_event =
  ae_response_id :: response_id
  ae_kind :: response_event_kind
  ae_attempt :: "attempt option"
  ae_body :: event_body

definition AppendEvent_from_parts ::
  "response_id \<Rightarrow> response_event_kind \<Rightarrow> attempt option \<Rightarrow> event_body \<Rightarrow> append_event" where
  "AppendEvent_from_parts rid kind att body =
    \<lparr>ae_response_id = rid, ae_kind = kind, ae_attempt = att, ae_body = body\<rparr>"

definition lifecycle :: "response_id \<Rightarrow> response_event_kind \<Rightarrow> response_object \<Rightarrow> append_event" where
  "lifecycle rid kind response =
    \<lparr>ae_response_id = rid, ae_kind = kind, ae_attempt = None, ae_body = BodyResponse response\<rparr>"

definition lifecycle_with_attempt ::
  "response_id \<Rightarrow> response_event_kind \<Rightarrow> attempt \<Rightarrow> response_object \<Rightarrow> append_event" where
  "lifecycle_with_attempt rid kind att response =
    \<lparr>ae_response_id = rid, ae_kind = kind, ae_attempt = Some att, ae_body = BodyResponse response\<rparr>"

definition text_delta ::
  "response_id \<Rightarrow> attempt \<Rightarrow> string \<Rightarrow> nat \<Rightarrow> nat \<Rightarrow> string \<Rightarrow> append_event" where
  "text_delta rid att item output_index content_index delta =
    \<lparr>ae_response_id = rid, ae_kind = EvOutputTextDelta, ae_attempt = Some att,
     ae_body = Delta item output_index (Some content_index) delta\<rparr>"

definition arguments_delta ::
  "response_id \<Rightarrow> attempt \<Rightarrow> string \<Rightarrow> nat \<Rightarrow> string \<Rightarrow> append_event" where
  "arguments_delta rid att item output_index delta =
    \<lparr>ae_response_id = rid, ae_kind = EvFunctionCallArgumentsDelta, ae_attempt = Some att,
     ae_body = Delta item output_index None delta\<rparr>"

definition reasoning_text_delta :: "response_id \<Rightarrow> attempt \<Rightarrow> string \<Rightarrow> append_event" where
  "reasoning_text_delta rid att delta =
    \<lparr>ae_response_id = rid, ae_kind = EvReasoningTextDelta, ae_attempt = Some att,
     ae_body = Delta [] 0 None delta\<rparr>"

definition output_text_done ::
  "response_id \<Rightarrow> attempt \<Rightarrow> string \<Rightarrow> nat \<Rightarrow> nat \<Rightarrow> string \<Rightarrow> append_event" where
  "output_text_done rid att item output_index content_index text =
    \<lparr>ae_response_id = rid, ae_kind = EvOutputTextDone, ae_attempt = Some att,
     ae_body = Text item output_index content_index text\<rparr>"

definition content_part_event ::
  "response_id \<Rightarrow> attempt \<Rightarrow> bool \<Rightarrow> string \<Rightarrow> nat \<Rightarrow> nat \<Rightarrow> content_part \<Rightarrow> append_event" where
  "content_part_event rid att done' item output_index content_index part =
    \<lparr>ae_response_id = rid, ae_kind = (if done' then EvContentPartDone else EvContentPartAdded),
     ae_attempt = Some att, ae_body = Part item output_index content_index part\<rparr>"

definition item_event ::
  "response_id \<Rightarrow> attempt \<Rightarrow> bool \<Rightarrow> nat \<Rightarrow> response_item \<Rightarrow> append_event" where
  "item_event rid att done' output_index item =
    \<lparr>ae_response_id = rid, ae_kind = (if done' then EvOutputItemDone else EvOutputItemAdded),
     ae_attempt = Some att, ae_body = Item output_index item\<rparr>"

definition arguments_event ::
  "response_id \<Rightarrow> attempt \<Rightarrow> nat \<Rightarrow> string \<Rightarrow> string \<Rightarrow> append_event" where
  "arguments_event rid att output_index item arguments =
    \<lparr>ae_response_id = rid, ae_kind = EvFunctionCallArgumentsDone, ae_attempt = Some att,
     ae_body = Arguments output_index item arguments\<rparr>"

record response_event =
  re_sequence_number :: nat
  re_event :: append_event

definition with_seq :: "append_event \<Rightarrow> nat \<Rightarrow> response_event" where
  "with_seq e n = \<lparr>re_sequence_number = n, re_event = e\<rparr>"

definition re_kind :: "response_event \<Rightarrow> response_event_kind" where
  "re_kind e = ae_kind (re_event e)"

definition re_body :: "response_event \<Rightarrow> event_body" where
  "re_body e = ae_body (re_event e)"

definition re_response_object :: "response_event \<Rightarrow> response_object option" where
  "re_response_object e = (case re_body e of BodyResponse r \<Rightarrow> Some r | _ \<Rightarrow> None)"

lemma event_kinds_complete: "k \<in> set event_kinds"
  by (cases k) (auto simp: event_kinds_def)

lemma event_kinds_names_distinct: "distinct (map kind_as_str event_kinds)"
  by (simp add: event_kinds_def)

text \<open>
  The pairing a client relies on: which body a kind carries.  Every constructor of the producer
  API respects it, lifecycle constructors when they are given a lifecycle kind.
\<close>

fun body_matches :: "response_event_kind \<Rightarrow> event_body \<Rightarrow> bool" where
  "body_matches k (Delta _ _ ci _) =
    (case ci of Some _ \<Rightarrow> k = EvOutputTextDelta
     | None \<Rightarrow> k \<in> {EvReasoningTextDelta, EvFunctionCallArgumentsDelta})"
| "body_matches k (Item _ _) = (k \<in> {EvOutputItemAdded, EvOutputItemDone})"
| "body_matches k (Arguments _ _ _) = (k = EvFunctionCallArgumentsDone)"
| "body_matches k (Text _ _ _ _) = (k = EvOutputTextDone)"
| "body_matches k (Part _ _ _ _) = (k \<in> {EvContentPartAdded, EvContentPartDone})"
| "body_matches k (BodyResponse _) =
    (k \<in> {EvCreated, EvInProgress, EvCompleted, EvFailed, EvIncomplete})"

definition event_ok :: "append_event \<Rightarrow> bool" where
  "event_ok e = body_matches (ae_kind e) (ae_body e)"

lemmas event_constructors = lifecycle_def lifecycle_with_attempt_def text_delta_def
  arguments_delta_def reasoning_text_delta_def output_text_done_def content_part_event_def
  item_event_def arguments_event_def

lemma constructors_event_ok [simp]:
  "event_ok (text_delta r a i oi ci d)" "event_ok (arguments_delta r a i oi d)"
  "event_ok (reasoning_text_delta r a d)" "event_ok (output_text_done r a i oi ci t)"
  "event_ok (content_part_event r a dn i oi ci p)" "event_ok (item_event r a dn oi it)"
  "event_ok (arguments_event r a oi i s)"
  by (simp_all add: event_ok_def event_constructors)

lemma lifecycle_event_ok [simp]:
  "event_ok (lifecycle r k o') \<longleftrightarrow> k \<in> {EvCreated, EvInProgress, EvCompleted, EvFailed, EvIncomplete}"
  "event_ok (lifecycle_with_attempt r k a o')
    \<longleftrightarrow> k \<in> {EvCreated, EvInProgress, EvCompleted, EvFailed, EvIncomplete}"
  by (cases k; simp add: event_ok_def event_constructors)+

lemma kind_from_str_as_str: "kind_from_str (kind_as_str k) = Some k"
  by (cases k) (simp_all add: kind_from_str_def event_kinds_def)

end
