(* ===== verification/Wire.thy ===== *)
theory Wire
  imports Events
begin

text \<open>
  The JSON form of items as their serde attributes fix it (\<open>protocol/content.rs\<close>,
  \<open>protocol/item.rs\<close>: internally tagged by \<open>type\<close>, snake case, absent options skipped, unknown
  fields refused), the canonical encoding that is signed (\<open>canonical.rs\<close>) and the integrity port
  (\<open>integrity_hmac.rs\<close>).
\<close>

text \<open>Behaviour of other crates that the encodings depend on.\<close>

record codec =
  cx_nfc :: "string \<Rightarrow> string"
  cx_esc :: "string \<Rightarrow> string"
  cx_num_fmt :: "json_number \<Rightarrow> string"
  cx_uuid_fmt :: "uuid \<Rightarrow> string"

section \<open>Serialising\<close>

fun detail_wire :: "image_detail \<Rightarrow> string" where
  "detail_wire DetailAuto = ''auto''"
| "detail_wire DetailLow = ''low''"
| "detail_wire DetailHigh = ''high''"

fun role_wire :: "role \<Rightarrow> string" where
  "role_wire User = ''user''"
| "role_wire Assistant = ''assistant''"
| "role_wire System = ''system''"
| "role_wire Developer = ''developer''"

fun item_status_wire :: "item_status \<Rightarrow> string" where
  "item_status_wire ItemInProgress = ''in_progress''"
| "item_status_wire ItemCompleted = ''completed''"
| "item_status_wire ItemIncomplete = ''incomplete''"

definition opt_field :: "string \<Rightarrow> string option \<Rightarrow> (string \<times> json) list" where
  "opt_field k v = (case v of Some s \<Rightarrow> [(k, JStr s)] | None \<Rightarrow> [])"

fun part_to_json :: "content_part \<Rightarrow> json" where
  "part_to_json (InputText t) = JObj [(''type'', JStr ''input_text''), (''text'', JStr t)]"
| "part_to_json (OutputText t) = JObj [(''type'', JStr ''output_text''), (''text'', JStr t)]"
| "part_to_json (Refusal t) = JObj [(''type'', JStr ''refusal''), (''refusal'', JStr t)]"
| "part_to_json (InputImage url fid det) = JObj ((''type'', JStr ''input_image'') #
    opt_field ''image_url'' url @ opt_field ''file_id'' fid @
    opt_field ''detail'' (map_option detail_wire det))"
| "part_to_json (InputFile fid url name) = JObj ((''type'', JStr ''input_file'') #
    opt_field ''file_id'' fid @ opt_field ''file_url'' url @ opt_field ''filename'' name)"

fun item_to_json :: "response_item \<Rightarrow> json" where
  "item_to_json (Message role content i st) = JObj ([(''type'', JStr ''message''),
    (''role'', JStr (role_wire role)), (''content'', JArr (map part_to_json content))] @
    opt_field ''id'' i @ opt_field ''status'' (map_option item_status_wire st))"
| "item_to_json (FunctionCall call_id name arguments i st) = JObj ([(''type'', JStr ''function_call''),
    (''call_id'', JStr call_id), (''name'', JStr name), (''arguments'', JStr arguments)] @
    opt_field ''id'' i @ opt_field ''status'' (map_option item_status_wire st))"
| "item_to_json (FunctionCallOutput call_id output i st) = JObj ([(''type'', JStr ''function_call_output''),
    (''call_id'', JStr call_id), (''output'', JStr output)] @
    opt_field ''id'' i @ opt_field ''status'' (map_option item_status_wire st))"

section \<open>Deserialising\<close>

text \<open>
  \<open>None\<close> is a rejected document.  \<open>get_opt\<close> is the optional field (absent or null), whose inner
  result is \<open>None\<close> when the value has the wrong type.
\<close>

definition get_str :: "(string \<times> json) list \<Rightarrow> string \<Rightarrow> string option" where
  "get_str m k = (case map_of m k of Some (JStr s) \<Rightarrow> Some s | _ \<Rightarrow> None)"

definition get_opt ::
  "(string \<times> json) list \<Rightarrow> string \<Rightarrow> (string \<Rightarrow> 'a option) \<Rightarrow> 'a option option" where
  "get_opt m k read =
    (case map_of m k of
       None \<Rightarrow> Some None
     | Some JNull \<Rightarrow> Some None
     | Some (JStr s) \<Rightarrow> (case read s of Some v \<Rightarrow> Some (Some v) | None \<Rightarrow> None)
     | Some _ \<Rightarrow> None)"

definition fields_known :: "string list \<Rightarrow> (string \<times> json) list \<Rightarrow> bool" where
  "fields_known allowed m \<longleftrightarrow> distinct (map fst m) \<and> (\<forall>k \<in> set (map fst m). k \<in> set allowed)"

definition detail_of_wire :: "string \<Rightarrow> image_detail option" where
  "detail_of_wire s = find (\<lambda>d. detail_wire d = s) [DetailAuto, DetailLow, DetailHigh]"

definition role_of_wire :: "string \<Rightarrow> role option" where
  "role_of_wire s = find (\<lambda>r. role_wire r = s) [User, Assistant, System, Developer]"

definition item_status_of_wire :: "string \<Rightarrow> item_status option" where
  "item_status_of_wire s =
    find (\<lambda>r. item_status_wire r = s) [ItemInProgress, ItemCompleted, ItemIncomplete]"

definition part_of_fields :: "string \<Rightarrow> (string \<times> json) list \<Rightarrow> content_part option" where
  "part_of_fields ty m =
    (if ty = ''input_text'' \<and> fields_known [''type'', ''text''] m
     then map_option InputText (get_str m ''text'')
     else if ty = ''output_text'' \<and> fields_known [''type'', ''text''] m
     then map_option OutputText (get_str m ''text'')
     else if ty = ''refusal'' \<and> fields_known [''type'', ''refusal''] m
     then map_option Refusal (get_str m ''refusal'')
     else if ty = ''input_image'' \<and> fields_known [''type'', ''image_url'', ''file_id'', ''detail''] m
     then (case (get_opt m ''image_url'' Some, get_opt m ''file_id'' Some, get_opt m ''detail'' detail_of_wire) of
             (Some url, Some fid, Some det) \<Rightarrow> Some (InputImage url fid det)
           | _ \<Rightarrow> None)
     else if ty = ''input_file'' \<and> fields_known [''type'', ''file_id'', ''file_url'', ''filename''] m
     then (case (get_opt m ''file_id'' Some, get_opt m ''file_url'' Some, get_opt m ''filename'' Some) of
             (Some fid, Some url, Some name) \<Rightarrow> Some (InputFile fid url name)
           | _ \<Rightarrow> None)
     else None)"

definition part_of_json :: "json \<Rightarrow> content_part option" where
  "part_of_json v =
    (case v of
       JObj m \<Rightarrow> (case get_str m ''type'' of Some ty \<Rightarrow> part_of_fields ty m | None \<Rightarrow> None)
     | _ \<Rightarrow> None)"

fun parts_of_json :: "json list \<Rightarrow> content_part list option" where
  "parts_of_json [] = Some []"
| "parts_of_json (v # vs) =
    (case part_of_json v of
       None \<Rightarrow> None
     | Some p \<Rightarrow> (case parts_of_json vs of None \<Rightarrow> None | Some ps \<Rightarrow> Some (p # ps)))"

definition content_of_fields :: "(string \<times> json) list \<Rightarrow> content_part list option" where
  "content_of_fields m = (case map_of m ''content'' of Some (JArr vs) \<Rightarrow> parts_of_json vs | _ \<Rightarrow> None)"

definition item_of_fields :: "string \<Rightarrow> (string \<times> json) list \<Rightarrow> response_item option" where
  "item_of_fields ty m =
    (case (get_opt m ''id'' Some, get_opt m ''status'' item_status_of_wire) of
       (Some i, Some st) \<Rightarrow>
         if ty = ''message'' \<and> fields_known [''type'', ''role'', ''content'', ''id'', ''status''] m
         then (case (Option.bind (get_str m ''role'') role_of_wire, content_of_fields m) of
                 (Some r, Some c) \<Rightarrow> Some (Message r c i st)
               | _ \<Rightarrow> None)
         else if ty = ''function_call''
           \<and> fields_known [''type'', ''call_id'', ''name'', ''arguments'', ''id'', ''status''] m
         then (case (get_str m ''call_id'', get_str m ''name'', get_str m ''arguments'') of
                 (Some c, Some n, Some a) \<Rightarrow> Some (FunctionCall c n a i st)
               | _ \<Rightarrow> None)
         else if ty = ''function_call_output''
           \<and> fields_known [''type'', ''call_id'', ''output'', ''id'', ''status''] m
         then (case (get_str m ''call_id'', get_str m ''output'') of
                 (Some c, Some out) \<Rightarrow> Some (FunctionCallOutput c out i st)
               | _ \<Rightarrow> None)
         else None
     | _ \<Rightarrow> None)"

definition item_of_json :: "json \<Rightarrow> response_item option" where
  "item_of_json v =
    (case v of
       JObj m \<Rightarrow> (case get_str m ''type'' of Some ty \<Rightarrow> item_of_fields ty m | None \<Rightarrow> None)
     | _ \<Rightarrow> None)"

section \<open>Canonical items and the integrity port\<close>

definition canonical_items :: "codec \<Rightarrow> response_item list \<Rightarrow> string" where
  "canonical_items cx items =
    canonical_json (cx_nfc cx) (cx_esc cx) (cx_num_fmt cx) (JArr (map item_to_json items))"

definition canonical_output_text :: "codec \<Rightarrow> string list \<Rightarrow> string" where
  "canonical_output_text cx deltas = cx_nfc cx (concat deltas)"

datatype integrity_error = KeyUnavailable string | Mismatch | IntegrityInternal string

record integrity =
  in_alg :: string
  in_sign :: "string \<Rightarrow> integrity_error + string"
  in_verify :: "string \<Rightarrow> string \<Rightarrow> integrity_error + unit"

definition ALG :: string where
  "ALG = ''hmac-sha256-v1''"

text \<open>
  \<open>HmacSha256Integrity\<close>: the keyed hash itself (\<open>hmac\<close>, hex of HMAC-SHA256) is the \<open>hmac\<close> crate's.
\<close>

definition hmac_from_key ::
  "(string \<Rightarrow> string \<Rightarrow> string) \<Rightarrow> string \<Rightarrow> integrity_error + integrity" where
  "hmac_from_key hmac key =
    (if length key < 16 then Inl (KeyUnavailable ''key must be at least 16 bytes'')
     else Inr \<lparr>in_alg = ALG,
       in_sign = (\<lambda>canonical. Inr (hmac key canonical)),
       in_verify = (\<lambda>canonical expected. if hmac key canonical = expected then Inr () else Inl Mismatch)\<rparr>)"

section \<open>Round trips\<close>

lemma detail_roundtrip [simp]: "detail_of_wire (detail_wire d) = Some d"
  by (cases d) (simp_all add: detail_of_wire_def)

lemma role_roundtrip [simp]: "role_of_wire (role_wire d) = Some d"
  by (cases d) (simp_all add: role_of_wire_def)

lemma item_status_roundtrip [simp]: "item_status_of_wire (item_status_wire d) = Some d"
  by (cases d) (simp_all add: item_status_of_wire_def)

lemma part_roundtrip [simp]: "part_of_json (part_to_json p) = Some p"
proof (cases p)
  case (InputImage url fid det)
  then show ?thesis
    by (cases url; cases fid; cases det)
      (simp_all add: part_of_json_def part_of_fields_def get_str_def get_opt_def fields_known_def opt_field_def)
next
  case (InputFile fid url name)
  then show ?thesis
    by (cases url; cases fid; cases name)
      (simp_all add: part_of_json_def part_of_fields_def get_str_def get_opt_def fields_known_def opt_field_def)
qed (simp_all add: part_of_json_def part_of_fields_def get_str_def fields_known_def)

lemma parts_roundtrip [simp]: "parts_of_json (map part_to_json ps) = Some ps"
  by (induction ps) simp_all

text \<open>Every item the service can emit is accepted when it comes back as input on a later
  turn: the deserialiser reads back exactly the item that was serialised.\<close>

theorem item_json_roundtrip: "item_of_json (item_to_json it) = Some it"
proof (cases it)
  case (Message r c i st)
  then show ?thesis
    by (cases i; cases st)
      (simp_all add: item_of_json_def item_of_fields_def get_str_def get_opt_def fields_known_def
        opt_field_def content_of_fields_def)
next
  case (FunctionCall c n a i st)
  then show ?thesis
    by (cases i; cases st)
      (simp_all add: item_of_json_def item_of_fields_def get_str_def get_opt_def fields_known_def opt_field_def)
next
  case (FunctionCallOutput c out i st)
  then show ?thesis
    by (cases i; cases st)
      (simp_all add: item_of_json_def item_of_fields_def get_str_def get_opt_def fields_known_def opt_field_def)
qed

lemma hmac_sign_verify:
  "hmac_from_key hmac key = Inr ig \<Longrightarrow> in_sign ig c = Inr tag \<Longrightarrow> in_verify ig c tag = Inr ()"
  by (auto simp: hmac_from_key_def split: if_splits)

end
