(* ===== verification/Store.thy ===== *)
theory Store
  imports Wire
begin

text \<open>
  The shared in-memory store (\<open>verify/mock/server/src/store.rs\<close>): the maps behind one mutex, the
  degrade switches and limits, and the helper operations the ports are built from.  The store
  is one record; an operation takes it and returns it updated, which is what holding the mutex
  for the whole operation gives.

  A \<open>HashMap\<close> is an association list, a \<open>BTreeSet\<close> a sorted list.  A tenant index is accessed
  through the interface \<open>tenant_index\<close>, interpreted on the sorted-list implementation and used
  for both the response and the conversation index.
\<close>

instantiation conversation_id :: linorder
begin

definition less_eq_conversation_id :: "conversation_id \<Rightarrow> conversation_id \<Rightarrow> bool" where
  "less_eq_conversation_id a b \<longleftrightarrow> cid_uuid a \<le> cid_uuid b"

definition less_conversation_id :: "conversation_id \<Rightarrow> conversation_id \<Rightarrow> bool" where
  "less_conversation_id a b \<longleftrightarrow> cid_uuid a < cid_uuid b"

instance
  by standard (auto simp: less_eq_conversation_id_def less_conversation_id_def conversation_id.expand)

end

section \<open>Errors shared by the storage ports\<close>

datatype store_error = ReadOnly | Unavailable | Internal string

section \<open>Tenant index\<close>

type_synonym 'k tenant_index = "(tenant_id, 'k list) table"

definition index_get :: "'k tenant_index \<Rightarrow> tenant_id \<Rightarrow> 'k list" where
  "index_get idx t = (case map_of idx t of Some s \<Rightarrow> s | None \<Rightarrow> [])"

definition index_insert :: "tenant_id \<Rightarrow> 'k::linorder \<Rightarrow> 'k tenant_index \<Rightarrow> 'k tenant_index" where
  "index_insert t k idx = AList.update t (insort_insert k (index_get idx t)) idx"

definition unindex :: "tenant_id \<Rightarrow> 'k::linorder \<Rightarrow> 'k tenant_index \<Rightarrow> 'k tenant_index" where
  "unindex t k idx =
    (case map_of idx t of
       None \<Rightarrow> idx
     | Some s \<Rightarrow>
       (let s' = remove1 k s in
        if s' = [] then AList.delete t idx else AList.update t s' idx))"

definition index_wf :: "'k::linorder tenant_index \<Rightarrow> bool" where
  "index_wf idx \<longleftrightarrow> keys_distinct idx \<and>
    (\<forall>t s. map_of idx t = Some s \<longrightarrow> s \<noteq> [] \<and> sorted s \<and> distinct s)"

text \<open>
  The interface: what the store relies on of an index, and the agreement of an index with the
  table it indexes, preserved by every table operation.
\<close>

definition agrees :: "('t \<Rightarrow> 'k set) \<Rightarrow> ('k \<rightharpoonup> 'v) \<Rightarrow> ('v \<Rightarrow> 't) \<Rightarrow> bool" where
  "agrees g m owner \<longleftrightarrow> (\<forall>t k. k \<in> g t \<longleftrightarrow> (\<exists>v. m k = Some v \<and> owner v = t))"

locale tenant_index_laws =
  fixes get :: "'i \<Rightarrow> 't \<Rightarrow> 'k set"
    and ins :: "'t \<Rightarrow> 'k \<Rightarrow> 'i \<Rightarrow> 'i"
    and del :: "'t \<Rightarrow> 'k \<Rightarrow> 'i \<Rightarrow> 'i"
    and wf :: "'i \<Rightarrow> bool"
  assumes get_ins: "wf i \<Longrightarrow> get (ins t k i) t' = (if t' = t then insert k (get i t) else get i t')"
    and get_del: "wf i \<Longrightarrow> get (del t k i) t' = (if t' = t then get i t - {k} else get i t')"
    and wf_ins: "wf i \<Longrightarrow> wf (ins t k i)"
    and wf_del: "wf i \<Longrightarrow> wf (del t k i)"
begin

lemma agree_insert:
  assumes "wf i" "agrees (get i) m owner"
    and "\<And>v0. m k = Some v0 \<Longrightarrow> owner v0 = owner v"
  shows "agrees (get (ins (owner v) k i)) (m(k \<mapsto> v)) owner"
  using assms by (auto simp: agrees_def get_ins)

lemma agree_delete:
  assumes "wf i" "agrees (get i) m owner" "m k = Some v"
  shows "agrees (get (del (owner v) k i)) (m(k := None)) owner"
  using assms by (auto simp: agrees_def get_del)

lemma agree_update:
  assumes "agrees (get i) m owner" "m k = Some v0" "owner v = owner v0"
  shows "agrees (get i) (m(k \<mapsto> v)) owner"
  using assms by (auto simp: agrees_def)

end

lemma index_get_insert:
  "set (index_get (index_insert t k idx) t') =
    (if t' = t then insert k (set (index_get idx t)) else set (index_get idx t'))"
  by (auto simp: index_get_def index_insert_def set_insort_insert)

lemma index_wfD:
  assumes "index_wf idx" "map_of idx t = Some s"
  shows "s \<noteq> []" "sorted s" "distinct s"
  using assms unfolding index_wf_def by blast+

lemma index_wf_keys: "index_wf idx \<Longrightarrow> keys_distinct idx"
  unfolding index_wf_def by blast

lemma index_wfI:
  assumes "keys_distinct idx" "\<And>t s. map_of idx t = Some s \<Longrightarrow> s \<noteq> [] \<and> sorted s \<and> distinct s"
  shows "index_wf idx"
  using assms unfolding index_wf_def by blast

lemma index_wf_get: "index_wf idx \<Longrightarrow> sorted (index_get idx t) \<and> distinct (index_get idx t)"
  by (cases "map_of idx t") (auto simp: index_get_def dest: index_wfD)

lemma index_wf_insert:
  assumes wf: "index_wf idx"
  shows "index_wf (index_insert t k idx)"
proof -
  have "s \<noteq> [] \<and> sorted s \<and> distinct s" if "map_of (index_insert t k idx) t' = Some s" for t' s
  proof (cases "t' = t")
    case True
    then have s: "s = insort_insert k (index_get idx t)" using that by (simp add: index_insert_def)
    then have "k \<in> set s" by (simp add: set_insort_insert)
    then show ?thesis
      using index_wf_get[OF wf, of t] s
      by (auto simp: sorted_insort_insert distinct_insort_insert)
  next
    case False
    then have "map_of idx t' = Some s" using that by (simp add: index_insert_def)
    then show ?thesis using index_wfD[OF wf] by blast
  qed
  moreover have "keys_distinct (index_insert t k idx)"
    using index_wf_keys[OF wf] by (simp add: index_insert_def)
  ultimately show ?thesis by (intro index_wfI)
qed

lemma index_get_simps:
  "map_of idx t = Some s \<Longrightarrow> index_get idx t = s"
  "map_of idx t = None \<Longrightarrow> index_get idx t = []"
  by (simp_all add: index_get_def)

lemma map_of_unindex:
  "map_of (unindex t k idx) t' =
    (if t' = t \<and> map_of idx t \<noteq> None
     then if remove1 k (index_get idx t) = [] then None else Some (remove1 k (index_get idx t))
     else map_of idx t')"
  by (cases "map_of idx t") (simp_all add: unindex_def Let_def index_get_simps)

lemma index_get_unindex:
  assumes "index_wf idx"
  shows "set (index_get (unindex t k idx) t') =
    (if t' = t then set (index_get idx t) - {k} else set (index_get idx t'))"
proof -
  have "index_get (unindex t k idx) t' = (if t' = t then remove1 k (index_get idx t) else index_get idx t')"
    by (cases "map_of idx t") (simp_all add: index_get_def[of "unindex t k idx"] map_of_unindex index_get_simps index_get_def[of idx t'])
  then show ?thesis using index_wf_get[OF assms, of t] by (simp add: set_remove1_eq)
qed

lemma index_wf_unindex:
  assumes wf: "index_wf idx"
  shows "index_wf (unindex t k idx)"
proof (cases "map_of idx t")
  case (Some s)
  then have s: "sorted s" "distinct s" by (auto dest: index_wfD[OF wf])
  have kd: "keys_distinct (unindex t k idx)"
    using index_wf_keys[OF wf] Some by (simp add: unindex_def Let_def)
  have "s' \<noteq> [] \<and> sorted s' \<and> distinct s'" if "map_of (unindex t k idx) t' = Some s'" for t' s'
  proof (cases "t' = t")
    case True
    then have "s' = remove1 k s" "s' \<noteq> []"
      using that Some by (auto simp: unindex_def Let_def split: if_splits)
    then show ?thesis using s by (simp add: sorted_remove1)
  next
    case False
    then have "map_of idx t' = Some s'"
      using that Some by (simp add: unindex_def Let_def split: if_splits)
    then show ?thesis using index_wfD[OF wf] by blast
  qed
  with kd show ?thesis by (intro index_wfI)
qed (use wf in \<open>simp add: unindex_def\<close>)

interpretation tix: tenant_index_laws
  "\<lambda>idx t. set (index_get idx t)" index_insert unindex "index_wf :: 'k::linorder tenant_index \<Rightarrow> bool"
  by unfold_locales
    (simp_all add: index_get_insert index_get_unindex index_wf_insert index_wf_unindex)

section \<open>State\<close>

record snapshot =
  sn_entries :: "context_entry list"
  sn_turn_count :: nat
  sn_appended :: "(response_id, nat) table"

definition Snapshot_default :: snapshot where
  "Snapshot_default = \<lparr>sn_entries = [], sn_turn_count = 0, sn_appended = []\<rparr>"

record conversation_event_stream =
  cs_next_seq :: nat
  cs_events :: "conversation_event list"
  cs_lock_seq :: "nat option"
  cs_last_completed :: "(response_id \<times> nat) option"

definition Stream_default :: conversation_event_stream where
  "Stream_default = \<lparr>cs_next_seq = 0, cs_events = [], cs_lock_seq = None, cs_last_completed = None\<rparr>"

record mem_store =
  st_records :: "(response_id, response_record) table"
  st_by_tenant :: "response_id tenant_index"
  st_expiry :: "(nat \<times> response_id) list"
  st_queued :: "response_id list"
  st_idem :: "(idempotency_key, response_id) table"
  st_heartbeats :: "(agent_id, nat) table"
  st_partial_usage :: "(response_id \<times> attempt, usage) table"
  st_conversations :: "(conversation_id, conversation) table"
  st_conversations_by_tenant :: "conversation_id tenant_index"
  st_conversation_events :: "(conversation_id, conversation_event_stream) table"
  st_snapshots :: "(conversation_id, snapshot) table"
  st_read_only :: bool
  st_unavailable :: bool
  st_pending_limit :: nat
  st_max_records :: nat
  st_max_conversations :: nat
  st_max_events_per_conversation :: nat

definition MemStore_new :: mem_store where
  "MemStore_new = \<lparr>
    st_records = [], st_by_tenant = [], st_expiry = [], st_queued = [], st_idem = [],
    st_heartbeats = [], st_partial_usage = [], st_conversations = [],
    st_conversations_by_tenant = [], st_conversation_events = [], st_snapshots = [],
    st_read_only = False, st_unavailable = False, st_pending_limit = 10000,
    st_max_records = 100000, st_max_conversations = 100000,
    st_max_events_per_conversation = 100000\<rparr>"

definition set_read_only :: "bool \<Rightarrow> mem_store \<Rightarrow> mem_store" where
  "set_read_only b s = s\<lparr>st_read_only := b\<rparr>"

definition set_unavailable :: "bool \<Rightarrow> mem_store \<Rightarrow> mem_store" where
  "set_unavailable b s = s\<lparr>st_unavailable := b\<rparr>"

definition set_pending_limit :: "nat \<Rightarrow> mem_store \<Rightarrow> mem_store" where
  "set_pending_limit n s = s\<lparr>st_pending_limit := max n 1\<rparr>"

definition set_max_records :: "nat \<Rightarrow> mem_store \<Rightarrow> mem_store" where
  "set_max_records n s = s\<lparr>st_max_records := max n 1\<rparr>"

definition set_max_conversations :: "nat \<Rightarrow> mem_store \<Rightarrow> mem_store" where
  "set_max_conversations n s = s\<lparr>st_max_conversations := max n 1\<rparr>"

definition set_max_events_per_conversation :: "nat \<Rightarrow> mem_store \<Rightarrow> mem_store" where
  "set_max_events_per_conversation n s = s\<lparr>st_max_events_per_conversation := max n 1\<rparr>"

section \<open>Helper operations\<close>

definition insert_record :: "response_record \<Rightarrow> mem_store \<Rightarrow> mem_store" where
  "insert_record r s =
    (let rid = rr_response_id r in
     s\<lparr>st_expiry := (case rr_expires_at_ms r of
                      Some deadline \<Rightarrow> insort_insert (deadline, rid) (st_expiry s)
                    | None \<Rightarrow> st_expiry s),
       st_by_tenant := index_insert (rr_tenant_id r) rid (st_by_tenant s),
       st_records := AList.update rid r (st_records s)\<rparr>)"

definition remove_record :: "response_id \<Rightarrow> mem_store \<Rightarrow> response_record option \<times> mem_store" where
  "remove_record rid s =
    (case map_of (st_records s) rid of
       None \<Rightarrow> (None, s)
     | Some r \<Rightarrow>
       (Some r,
        s\<lparr>st_records := AList.delete rid (st_records s),
          st_expiry := (case rr_expires_at_ms r of
                         Some deadline \<Rightarrow> remove1 (deadline, rid) (st_expiry s)
                       | None \<Rightarrow> st_expiry s),
          st_by_tenant := unindex (rr_tenant_id r) rid (st_by_tenant s),
          st_partial_usage := filter (\<lambda>p. fst (fst p) \<noteq> rid) (st_partial_usage s)\<rparr>))"

definition insert_conversation :: "conversation \<Rightarrow> mem_store \<Rightarrow> mem_store" where
  "insert_conversation c s =
    s\<lparr>st_conversations_by_tenant := index_insert (cv_tenant_id c) (cv_id c) (st_conversations_by_tenant s),
      st_conversations := AList.update (cv_id c) c (st_conversations s)\<rparr>"

definition remove_conversation :: "conversation_id \<Rightarrow> mem_store \<Rightarrow> conversation option \<times> mem_store" where
  "remove_conversation cid s =
    (case map_of (st_conversations s) cid of
       None \<Rightarrow> (None, s)
     | Some c \<Rightarrow>
       (Some c,
        s\<lparr>st_conversations := AList.delete cid (st_conversations s),
          st_conversations_by_tenant := unindex (cv_tenant_id c) cid (st_conversations_by_tenant s),
          st_conversation_events := AList.delete cid (st_conversation_events s),
          st_snapshots := AList.delete cid (st_snapshots s)\<rparr>))"

definition stream_of :: "mem_store \<Rightarrow> conversation_id \<Rightarrow> conversation_event_stream" where
  "stream_of s cid =
    (case map_of (st_conversation_events s) cid of Some st \<Rightarrow> st | None \<Rightarrow> Stream_default)"

definition put_stream :: "conversation_id \<Rightarrow> conversation_event_stream \<Rightarrow> mem_store \<Rightarrow> mem_store" where
  "put_stream cid st s = s\<lparr>st_conversation_events := AList.update cid st (st_conversation_events s)\<rparr>"

definition push_conversation_event ::
  "conversation_id \<Rightarrow> conversation_event_kind \<Rightarrow> nat \<Rightarrow> mem_store \<Rightarrow> nat \<times> mem_store" where
  "push_conversation_event cid kind now_ms s =
    (let st = stream_of s cid; seq = cs_next_seq st in
     (seq, put_stream cid
       (st\<lparr>cs_next_seq := seq + 1,
           cs_events := cs_events st @ [\<lparr>cev_conversation_id = cid, cev_seq = seq, cev_kind = kind,
                                         cev_ts_ms = now_ms\<rparr>]\<rparr>) s))"

definition in_flight_count :: "mem_store \<Rightarrow> nat" where
  "in_flight_count s = length (filter (\<lambda>p. \<not> is_terminal (rr_status (snd p))) (st_records s))"

definition total_usage :: "response_id \<Rightarrow> mem_store \<Rightarrow> usage" where
  "total_usage rid s =
    fold (\<lambda>p acc. accumulate acc (snd p))
      (filter (\<lambda>p. fst (fst p) = rid) (st_partial_usage s))
      (case map_of (st_records s) rid of Some r \<Rightarrow> rr_usage r | None \<Rightarrow> Usage_default)"

section \<open>Well-formedness\<close>

text \<open>Both secondary indexes say exactly which rows a tenant owns, and no key occurs twice.\<close>

definition records_wf :: "mem_store \<Rightarrow> bool" where
  "records_wf s \<longleftrightarrow> keys_distinct (st_records s) \<and> index_wf (st_by_tenant s) \<and>
    (\<forall>rid r. map_of (st_records s) rid = Some r \<longrightarrow> rr_response_id r = rid) \<and>
    agrees (\<lambda>t. set (index_get (st_by_tenant s) t)) (map_of (st_records s)) rr_tenant_id"

definition conversations_wf :: "mem_store \<Rightarrow> bool" where
  "conversations_wf s \<longleftrightarrow> keys_distinct (st_conversations s) \<and> index_wf (st_conversations_by_tenant s) \<and>
    (\<forall>cid c. map_of (st_conversations s) cid = Some c \<longrightarrow> cv_id c = cid) \<and>
    agrees (\<lambda>t. set (index_get (st_conversations_by_tenant s) t)) (map_of (st_conversations s)) cv_tenant_id"

lemma records_wf_new [simp]: "records_wf MemStore_new"
  by (simp add: records_wf_def MemStore_new_def index_wf_def index_get_def agrees_def)

lemma conversations_wf_new [simp]: "conversations_wf MemStore_new"
  by (simp add: conversations_wf_def MemStore_new_def index_wf_def index_get_def agrees_def)

lemma records_wf_insert [wf_intro]:
  assumes "records_wf s"
    and "\<And>r0. map_of (st_records s) (rr_response_id r) = Some r0 \<Longrightarrow> rr_tenant_id r0 = rr_tenant_id r"
  shows "records_wf (insert_record r s)"
proof -
  have "agrees (\<lambda>t. set (index_get (index_insert (rr_tenant_id r) (rr_response_id r) (st_by_tenant s)) t))
      ((map_of (st_records s))(rr_response_id r \<mapsto> r)) rr_tenant_id"
    by (rule tix.agree_insert) (use assms in \<open>auto simp: records_wf_def\<close>)
  then show ?thesis
    using assms(1) by (simp add: records_wf_def insert_record_def Let_def tix.wf_ins)
qed

lemma records_wf_remove [wf_intro]:
  assumes "records_wf s"
  shows "records_wf (snd (remove_record rid s))"
proof (cases "map_of (st_records s) rid")
  case (Some r)
  then show ?thesis
    using assms tix.agree_delete[of "st_by_tenant s" "map_of (st_records s)" rr_tenant_id rid r]
    by (simp add: records_wf_def remove_record_def tix.wf_del)
qed (use assms in \<open>simp add: remove_record_def\<close>)

text \<open>Changing a row in place keeps the index, as long as its id and tenant stay.\<close>

lemma records_wf_update [wf_intro]:
  assumes "records_wf s" "map_of (st_records s) rid = Some r0"
    and "rr_response_id r = rr_response_id r0" "rr_tenant_id r = rr_tenant_id r0"
  shows "records_wf (s\<lparr>st_records := AList.update rid r (st_records s)\<rparr>)"
  using assms tix.agree_update[of "st_by_tenant s" "map_of (st_records s)" rr_tenant_id rid r0 r]
  by (simp add: records_wf_def)

lemma conversations_wf_insert [wf_intro]:
  assumes "conversations_wf s"
    and "\<And>c0. map_of (st_conversations s) (cv_id c) = Some c0 \<Longrightarrow> cv_tenant_id c0 = cv_tenant_id c"
  shows "conversations_wf (insert_conversation c s)"
proof -
  have "agrees (\<lambda>t. set (index_get (index_insert (cv_tenant_id c) (cv_id c) (st_conversations_by_tenant s)) t))
      ((map_of (st_conversations s))(cv_id c \<mapsto> c)) cv_tenant_id"
    by (rule tix.agree_insert) (use assms in \<open>auto simp: conversations_wf_def\<close>)
  then show ?thesis
    using assms(1) by (simp add: conversations_wf_def insert_conversation_def tix.wf_ins)
qed

lemma conversations_wf_remove [wf_intro]:
  assumes "conversations_wf s"
  shows "conversations_wf (snd (remove_conversation cid s))"
proof (cases "map_of (st_conversations s) cid")
  case (Some c)
  then show ?thesis
    using assms tix.agree_delete[of "st_conversations_by_tenant s" "map_of (st_conversations s)"
        cv_tenant_id cid c]
    by (simp add: conversations_wf_def remove_conversation_def tix.wf_del)
qed (use assms in \<open>simp add: remove_conversation_def\<close>)

lemma conversations_wf_update [wf_intro]:
  assumes "conversations_wf s" "map_of (st_conversations s) cid = Some c0"
    and "cv_id c = cv_id c0" "cv_tenant_id c = cv_tenant_id c0"
  shows "conversations_wf (s\<lparr>st_conversations := AList.update cid c (st_conversations s)\<rparr>)"
  using assms tix.agree_update[of "st_conversations_by_tenant s" "map_of (st_conversations s)"
      cv_tenant_id cid c0 c]
  by (simp add: conversations_wf_def)

end
