(* ===== verification/Ledger.thy ===== *)
theory Ledger
  imports Store
begin

text \<open>
  The generation ledger (\<open>verify/mock/server/src/ledger.rs\<close> behind the port
  \<open>crates/responses/src/ports/ledger.rs\<close>): creation behind the idempotency gate, the conditional
  claim, completion, cancellation and reaping under the attempt fence, deletion and purge.

  Each operation runs under one lock and is one function on the store.  Durations are given in
  milliseconds and \<open>now_ms\<close> is the clock reading of the caller.
\<close>

section \<open>The port\<close>

datatype ledger_error =
    LNotFound
  | LStaleAttempt
  | LInvalidTransition string
  | LStore store_error

datatype create_outcome =
    Accepted response_record
  | Duplicate response_record
  | OutcomeReadOnly
  | Overloaded

fun outcome_record :: "create_outcome \<Rightarrow> response_record option" where
  "outcome_record (Accepted r) = Some r"
| "outcome_record (Duplicate r) = Some r"
| "outcome_record OutcomeReadOnly = None"
| "outcome_record Overloaded = None"

record claimed_response =
  cl_record :: response_record
  cl_exec_deadline_ms :: nat

record request_provenance =
  rp_response_id :: response_id
  rp_attempt :: attempt
  rp_exec_deadline_ms :: nat

definition claim_provenance :: "claimed_response \<Rightarrow> request_provenance" where
  "claim_provenance c = \<lparr>rp_response_id = rr_response_id (cl_record c),
    rp_attempt = rr_attempt (cl_record c), rp_exec_deadline_ms = cl_exec_deadline_ms c\<rparr>"

record aborted_claim =
  ab_response_id :: response_id
  ab_previous_attempt :: attempt
  ab_tenant_id :: tenant_id
  ab_conversation_id :: "conversation_id option"
  ab_input_items :: "response_item list"
  ab_store :: bool

section \<open>Operations\<close>

definition check_attempt :: "response_id \<Rightarrow> attempt \<Rightarrow> mem_store \<Rightarrow> ledger_error + unit" where
  "check_attempt rid att s =
    (if st_read_only s then Inl (LStore ReadOnly)
     else case map_of (st_records s) rid of
       None \<Rightarrow> Inl LNotFound
     | Some r \<Rightarrow> if rr_attempt r \<noteq> att \<or> rr_status r \<noteq> InProgress then Inl LStaleAttempt else Inr ())"

definition guard_writable :: "mem_store \<Rightarrow> ledger_error + unit" where
  "guard_writable s = (if st_read_only s then Inl (LStore ReadOnly) else Inr ())"

fun integrity_error_to_string :: "integrity_error \<Rightarrow> string" where
  "integrity_error_to_string (KeyUnavailable m) = ''integrity key unavailable: '' @ m"
| "integrity_error_to_string Mismatch = ''integrity mismatch''"
| "integrity_error_to_string (IntegrityInternal m) = ''internal: '' @ m"

definition sign :: "codec \<Rightarrow> integrity option \<Rightarrow> response_record \<Rightarrow> ledger_error + response_record" where
  "sign cx ig r =
    (case ig of
       None \<Rightarrow> Inr r
     | Some ig \<Rightarrow>
       (case in_sign ig (canonical_items cx (ts_input_items (rr_spec r))) of
          Inl e \<Rightarrow> Inl (LStore (Internal (integrity_error_to_string e)))
        | Inr tag \<Rightarrow> Inr (r\<lparr>rr_integrity := Some \<lparr>it_alg = in_alg ig, it_tag = tag\<rparr>\<rparr>)))"

definition ledger_create ::
  "codec \<Rightarrow> integrity option \<Rightarrow> response_record \<Rightarrow> idempotency_key \<Rightarrow> mem_store
    \<Rightarrow> (ledger_error + create_outcome) \<times> mem_store" where
  "ledger_create cx ig r0 key s =
    (case sign cx ig r0 of
       Inl e \<Rightarrow> (Inl e, s)
     | Inr r \<Rightarrow>
       (case map_of (st_idem s) key of
          Some existing \<Rightarrow>
            (case map_of (st_records s) existing of
               None \<Rightarrow> (Inl LNotFound, s)
             | Some er \<Rightarrow> (Inr (Duplicate er), s))
        | None \<Rightarrow>
          if st_read_only s then (Inr OutcomeReadOnly, s)
          else if in_flight_count s \<ge> st_pending_limit s then (Inr Overloaded, s)
          else if length (st_records s) \<ge> st_max_records s then (Inl (LStore Unavailable), s)
          else (Inr (Accepted r),
            insert_record r
              (s\<lparr>st_queued := st_queued s @ [rr_response_id r],
                 st_idem := AList.update key (rr_response_id r) (st_idem s)\<rparr>))))"

fun claim_loop ::
  "agent_id \<Rightarrow> nat \<Rightarrow> nat \<Rightarrow> response_id list \<Rightarrow> mem_store \<Rightarrow> claimed_response option \<times> mem_store" where
  "claim_loop agent now_ms exec_ttl [] s = (None, s\<lparr>st_queued := []\<rparr>)"
| "claim_loop agent now_ms exec_ttl (rid # rest) s =
    (case map_of (st_records s) rid of
       None \<Rightarrow> claim_loop agent now_ms exec_ttl rest s
     | Some r \<Rightarrow>
       if rr_status r \<noteq> Queued then claim_loop agent now_ms exec_ttl rest s
       else
         (let r' = r\<lparr>rr_attempt := attempt_next (rr_attempt r), rr_status := InProgress,
                     rr_owner := Some agent\<rparr> in
          (Some \<lparr>cl_record = r', cl_exec_deadline_ms = sat_add now_ms exec_ttl\<rparr>,
           s\<lparr>st_queued := rest, st_records := AList.update rid r' (st_records s),
             st_heartbeats := AList.update agent now_ms (st_heartbeats s)\<rparr>)))"

definition ledger_claim ::
  "agent_id \<Rightarrow> nat \<Rightarrow> nat \<Rightarrow> mem_store \<Rightarrow> (ledger_error + claimed_response option) \<times> mem_store" where
  "ledger_claim agent now_ms exec_ttl s =
    (case guard_writable s of
       Inl e \<Rightarrow> (Inl e, s)
     | Inr _ \<Rightarrow> (case claim_loop agent now_ms exec_ttl (st_queued s) s of (c, s') \<Rightarrow> (Inr c, s')))"

definition ledger_heartbeat :: "agent_id \<Rightarrow> nat \<Rightarrow> mem_store \<Rightarrow> (ledger_error + unit) \<times> mem_store" where
  "ledger_heartbeat agent now_ms s =
    (Inr (), s\<lparr>st_heartbeats := AList.update agent now_ms (st_heartbeats s)\<rparr>)"

definition ledger_complete ::
  "response_id \<Rightarrow> attempt \<Rightarrow> response_status \<Rightarrow> usage \<Rightarrow> nat \<Rightarrow> mem_store
    \<Rightarrow> (ledger_error + unit) \<times> mem_store" where
  "ledger_complete rid expected status usage now_ms s =
    (case guard_writable s of
       Inl e \<Rightarrow> (Inl e, s)
     | Inr _ \<Rightarrow>
       if \<not> is_terminal status
       then (Inl (LInvalidTransition (status_as_str status @ '' is not terminal'')), s)
       else case map_of (st_records s) rid of
         None \<Rightarrow> (Inl LNotFound, s)
       | Some r \<Rightarrow>
         if rr_attempt r \<noteq> expected \<or> rr_status r \<noteq> InProgress then (Inl LStaleAttempt, s)
         else (Inr (), s\<lparr>st_records := AList.update rid
           (r\<lparr>rr_status := status, rr_owner := None, rr_usage := usage,
              rr_completed_at_ms := Some now_ms\<rparr>) (st_records s)\<rparr>))"

definition book_partial :: "response_id \<Rightarrow> attempt \<Rightarrow> usage \<Rightarrow> mem_store \<Rightarrow> mem_store" where
  "book_partial rid att partial s =
    (if usage_is_zero partial then s
     else s\<lparr>st_partial_usage := AList.update (rid, att) partial (st_partial_usage s)\<rparr>)"

definition ledger_cancel ::
  "tenant_id \<Rightarrow> response_id \<Rightarrow> nat \<Rightarrow> mem_store \<Rightarrow> (ledger_error + unit) \<times> mem_store" where
  "ledger_cancel tenant rid now_ms s =
    (case guard_writable s of
       Inl e \<Rightarrow> (Inl e, s)
     | Inr _ \<Rightarrow>
       (case map_of (st_records s) rid of
          None \<Rightarrow> (Inl LNotFound, s)
        | Some r \<Rightarrow>
          if rr_tenant_id r \<noteq> tenant then (Inl LNotFound, s)
          else if is_terminal (rr_status r)
          then (Inl (LInvalidTransition (''already '' @ status_as_str (rr_status r))), s)
          else (Inr (),
            book_partial rid (rr_attempt r) (rr_usage r)
              (s\<lparr>st_records := AList.update rid
                (r\<lparr>rr_attempt := attempt_next (rr_attempt r), rr_status := Cancelled,
                   rr_owner := None, rr_completed_at_ms := Some now_ms\<rparr>) (st_records s)\<rparr>))))"

text \<open>Whether the holder of an in-progress record stopped reporting.\<close>

definition claim_lost :: "nat \<Rightarrow> nat \<Rightarrow> mem_store \<Rightarrow> response_record \<Rightarrow> bool" where
  "claim_lost now_ms ttl_ms s r =
    (case rr_owner r of
       None \<Rightarrow> True
     | Some a \<Rightarrow> (case map_of (st_heartbeats s) a of None \<Rightarrow> True | Some hb \<Rightarrow> now_ms - hb > ttl_ms))"

definition reap_victims :: "nat \<Rightarrow> nat \<Rightarrow> mem_store \<Rightarrow> response_id list" where
  "reap_victims now_ms ttl_ms s =
    map fst (filter (\<lambda>p. rr_status (snd p) = InProgress \<and> claim_lost now_ms ttl_ms s (snd p)) (st_records s))"

fun reap_each :: "nat \<Rightarrow> response_id list \<Rightarrow> mem_store \<Rightarrow> aborted_claim list \<times> mem_store" where
  "reap_each now_ms [] s = ([], s)"
| "reap_each now_ms (rid # rest) s =
    (case map_of (st_records s) rid of
       None \<Rightarrow> reap_each now_ms rest s
     | Some r \<Rightarrow>
       (case reap_each now_ms rest
          (book_partial rid (rr_attempt r) (rr_usage r)
            (s\<lparr>st_records := AList.update rid
              (r\<lparr>rr_attempt := attempt_next (rr_attempt r), rr_status := Failed, rr_owner := None,
                 rr_completed_at_ms := Some now_ms\<rparr>) (st_records s)\<rparr>)) of
          (aborted, s') \<Rightarrow>
            (\<lparr>ab_response_id = rid, ab_previous_attempt = rr_attempt r, ab_tenant_id = rr_tenant_id r,
              ab_conversation_id = rr_conversation_id r, ab_input_items = ts_input_items (rr_spec r),
              ab_store = ts_store (rr_spec r)\<rparr> # aborted, s')))"

definition ledger_reap ::
  "nat \<Rightarrow> nat \<Rightarrow> mem_store \<Rightarrow> (ledger_error + aborted_claim list) \<times> mem_store" where
  "ledger_reap now_ms ttl_ms s =
    (case reap_each now_ms (reap_victims now_ms ttl_ms s) s of (aborted, s') \<Rightarrow> (Inr aborted, s'))"

definition ledger_record_partial_usage ::
  "response_id \<Rightarrow> attempt \<Rightarrow> usage \<Rightarrow> mem_store \<Rightarrow> (ledger_error + unit) \<times> mem_store" where
  "ledger_record_partial_usage rid att usage s =
    (if map_of (st_records s) rid = None then (Inl LNotFound, s)
     else
       (let entry = (case map_of (st_partial_usage s) (rid, att) of Some u \<Rightarrow> u | None \<Rightarrow> Usage_default) in
        (Inr (), s\<lparr>st_partial_usage := AList.update (rid, att) (accumulate entry usage) (st_partial_usage s)\<rparr>)))"

definition ledger_get :: "response_id \<Rightarrow> mem_store \<Rightarrow> ledger_error + response_record option" where
  "ledger_get rid s = Inr (map_of (st_records s) rid)"

definition ledger_delete :: "response_id \<Rightarrow> mem_store \<Rightarrow> (ledger_error + bool) \<times> mem_store" where
  "ledger_delete rid s =
    (case guard_writable s of
       Inl e \<Rightarrow> (Inl e, s)
     | Inr _ \<Rightarrow> (case remove_record rid s of (removed, s') \<Rightarrow> (Inr (removed \<noteq> None), s')))"

fun remove_records :: "response_id list \<Rightarrow> mem_store \<Rightarrow> nat \<times> mem_store" where
  "remove_records [] s = (0, s)"
| "remove_records (rid # rest) s =
    (case remove_record rid s of (removed, s1) \<Rightarrow>
      (case remove_records rest s1 of (n, s2) \<Rightarrow> ((if removed \<noteq> None then Suc n else n), s2)))"

definition ledger_delete_by_tenant :: "tenant_id \<Rightarrow> mem_store \<Rightarrow> (ledger_error + nat) \<times> mem_store" where
  "ledger_delete_by_tenant tenant s =
    (case guard_writable s of
       Inl e \<Rightarrow> (Inl e, s)
     | Inr _ \<Rightarrow>
       (case remove_records (index_get (st_by_tenant s) tenant) s of (n, s') \<Rightarrow> (Inr n, s')))"

definition ledger_in_flight :: "mem_store \<Rightarrow> ledger_error + nat" where
  "ledger_in_flight s = Inr (in_flight_count s)"

section \<open>Invariant\<close>

text \<open>
  What each status says about a row: a queued row has never been claimed, a row in progress has
  an owner and no usage yet, a terminal row has a completion time and no owner.
\<close>

definition record_ok :: "response_record \<Rightarrow> bool" where
  "record_ok r \<longleftrightarrow> at_no (rr_attempt r) \<le> u64_max \<and>
    (case rr_status r of
       Queued \<Rightarrow> rr_attempt r = UNCLAIMED \<and> rr_owner r = None \<and> rr_usage r = Usage_default
         \<and> rr_completed_at_ms r = None
     | InProgress \<Rightarrow> rr_attempt r \<noteq> UNCLAIMED \<and> rr_owner r \<noteq> None \<and> rr_usage r = Usage_default
         \<and> rr_completed_at_ms r = None
     | _ \<Rightarrow> rr_owner r = None \<and> rr_completed_at_ms r \<noteq> None)"

definition records_all :: "(response_record \<Rightarrow> bool) \<Rightarrow> mem_store \<Rightarrow> bool" where
  "records_all P s \<longleftrightarrow> (\<forall>rid r. map_of (st_records s) rid = Some r \<longrightarrow> P r)"

definition queue_ok :: "mem_store \<Rightarrow> bool" where
  "queue_ok s \<longleftrightarrow> (\<forall>rid r. map_of (st_records s) rid = Some r \<longrightarrow> rr_status r = Queued \<longrightarrow>
    rid \<in> set (st_queued s))"

definition partial_ok :: "mem_store \<Rightarrow> bool" where
  "partial_ok s \<longleftrightarrow> keys_distinct (st_partial_usage s) \<and>
    (\<forall>p \<in> set (st_partial_usage s). map_of (st_records s) (fst (fst p)) \<noteq> None)"

definition expiry_ok :: "mem_store \<Rightarrow> bool" where
  "expiry_ok s \<longleftrightarrow> sorted (st_expiry s) \<and> distinct (st_expiry s) \<and>
    (\<forall>d rid. (d, rid) \<in> set (st_expiry s) \<longleftrightarrow>
      (\<exists>r. map_of (st_records s) rid = Some r \<and> rr_expires_at_ms r = Some d))"

definition ledger_wf :: "mem_store \<Rightarrow> bool" where
  "ledger_wf s \<longleftrightarrow> records_wf s \<and> records_all record_ok s \<and> queue_ok s \<and> partial_ok s \<and> expiry_ok s"

lemma ledger_wfD:
  assumes "ledger_wf s"
  shows "records_wf s" "records_all record_ok s" "queue_ok s" "partial_ok s" "expiry_ok s"
  using assms by (simp_all add: ledger_wf_def)

lemma ledger_wf_record_ok: "ledger_wf s \<Longrightarrow> map_of (st_records s) rid = Some r \<Longrightarrow> record_ok r"
  unfolding ledger_wf_def records_all_def by blast

lemma records_wf_id: "records_wf s \<Longrightarrow> map_of (st_records s) rid = Some r \<Longrightarrow> rr_response_id r = rid"
  unfolding records_wf_def by blast

lemma ledger_wf_new [simp]: "ledger_wf MemStore_new"
  by (simp add: ledger_wf_def records_all_def queue_ok_def partial_ok_def expiry_ok_def)
    (simp add: MemStore_new_def)

text \<open>Fields the invariant does not look at.\<close>

lemma ledger_wf_frame [simp]:
  "ledger_wf (s\<lparr>st_heartbeats := h\<rparr>) = ledger_wf s"
  "ledger_wf (s\<lparr>st_idem := i\<rparr>) = ledger_wf s"
  "ledger_wf (s\<lparr>st_conversations := c\<rparr>) = ledger_wf s"
  "ledger_wf (s\<lparr>st_conversations_by_tenant := ci\<rparr>) = ledger_wf s"
  "ledger_wf (s\<lparr>st_conversation_events := ce\<rparr>) = ledger_wf s"
  "ledger_wf (s\<lparr>st_snapshots := sn\<rparr>) = ledger_wf s"
  "ledger_wf (s\<lparr>st_read_only := b\<rparr>) = ledger_wf s"
  "ledger_wf (s\<lparr>st_unavailable := b\<rparr>) = ledger_wf s"
  "ledger_wf (s\<lparr>st_pending_limit := n\<rparr>) = ledger_wf s"
  "ledger_wf (s\<lparr>st_max_records := n\<rparr>) = ledger_wf s"
  "ledger_wf (s\<lparr>st_max_conversations := n\<rparr>) = ledger_wf s"
  "ledger_wf (s\<lparr>st_max_events_per_conversation := n\<rparr>) = ledger_wf s"
  by (simp_all add: ledger_wf_def records_wf_def records_all_def queue_ok_def partial_ok_def expiry_ok_def)

lemma records_all_update:
  "records_all P s \<Longrightarrow> P r \<Longrightarrow> records_all P (s\<lparr>st_records := AList.update rid r (st_records s)\<rparr>)"
  by (auto simp: records_all_def)

lemma ledger_wf_change:
  assumes wf: "ledger_wf s" and r: "map_of (st_records s) rid = Some r" and ok: "record_ok r'"
    and same: "rr_response_id r' = rr_response_id r" "rr_tenant_id r' = rr_tenant_id r"
      "rr_expires_at_ms r' = rr_expires_at_ms r"
    and st: "rr_status r' \<noteq> Queued"
  shows "ledger_wf (s\<lparr>st_records := AList.update rid r' (st_records s)\<rparr>)"
  unfolding ledger_wf_def
proof (intro conjI)
  let ?s = "s\<lparr>st_records := AList.update rid r' (st_records s)\<rparr>"
  show "records_wf ?s" using ledger_wfD[OF wf] r same by (auto intro: records_wf_update)
  show "records_all record_ok ?s" using ledger_wfD[OF wf] ok by (auto intro: records_all_update)
  show "queue_ok ?s" using ledger_wfD(3)[OF wf] st by (auto simp: queue_ok_def)
  show "partial_ok ?s" using ledger_wfD(4)[OF wf] by (auto simp: partial_ok_def)
  show "expiry_ok ?s" using ledger_wfD(5)[OF wf] r same by (auto simp: expiry_ok_def)
qed

lemma set_update_subset_local:
  "set (AList.update k v t) \<subseteq> insert (k, v) (set t)"
  by (induction t) auto

lemma ledger_wf_book_partial:
  assumes "ledger_wf s" "map_of (st_records s) rid \<noteq> None"
  shows "ledger_wf (book_partial rid att u s)"
proof -
  have "set (AList.update (rid, att) u (st_partial_usage s)) \<subseteq>
      insert ((rid, att), u) (set (st_partial_usage s))"
    by (rule set_update_subset_local)
  then show ?thesis
    using assms by (auto simp: book_partial_def ledger_wf_def partial_ok_def records_wf_def
        records_all_def queue_ok_def expiry_ok_def)
qed

subsection \<open>Every operation keeps it\<close>

lemma guard_writable_simps [simp]:
  "st_read_only s \<Longrightarrow> guard_writable s = Inl (LStore ReadOnly)"
  "\<not> st_read_only s \<Longrightarrow> guard_writable s = Inr ()"
  by (simp_all add: guard_writable_def)

text \<open>Signing changes nothing but the tag.\<close>

lemma sign_same:
  assumes "sign cx ig r0 = Inr r"
  shows "rr_response_id r = rr_response_id r0" "rr_tenant_id r = rr_tenant_id r0"
    "rr_spec r = rr_spec r0" "rr_status r = rr_status r0" "rr_attempt r = rr_attempt r0"
    "rr_owner r = rr_owner r0" "rr_usage r = rr_usage r0"
    "rr_completed_at_ms r = rr_completed_at_ms r0" "rr_expires_at_ms r = rr_expires_at_ms r0"
    "rr_created_at_ms r = rr_created_at_ms r0" "rr_idempotency_key r = rr_idempotency_key r0"
    "rr_reasoning r = rr_reasoning r0"
  using assms by (auto simp: sign_def split: option.splits sum.splits)

lemma sign_record_ok: "sign cx ig r0 = Inr r \<Longrightarrow> record_ok r = record_ok r0"
  by (cases "rr_status r0") (auto simp: sign_def record_ok_def split: option.splits sum.splits)

lemma queued_record_ok [simp]: "record_ok (ResponseRecord_queued rid t spec key now ret)"
  by (simp add: record_ok_def ResponseRecord_queued_def UNCLAIMED_def)

lemma expiry_ok_insert:
  assumes "expiry_ok s" "map_of (st_records s) (rr_response_id r) = None"
  shows "expiry_ok (insert_record r s)"
  using assms
  by (auto simp: expiry_ok_def insert_record_def Let_def sorted_insort_insert distinct_insort_insert
      set_insort_insert split: option.splits)

lemma ledger_wf_insert:
  assumes wf: "ledger_wf s" and fresh: "map_of (st_records s) (rr_response_id r) = None"
    and ok: "record_ok r" and q: "rr_status r = Queued \<Longrightarrow> rr_response_id r \<in> set (st_queued s)"
  shows "ledger_wf (insert_record r s)"
  unfolding ledger_wf_def
proof (intro conjI)
  show "records_wf (insert_record r s)"
    using ledger_wfD(1)[OF wf] fresh by (intro records_wf_insert) auto
  show "records_all record_ok (insert_record r s)"
    using ledger_wfD(2)[OF wf] ok by (auto simp: records_all_def insert_record_def Let_def)
  show "queue_ok (insert_record r s)"
    using ledger_wfD(3)[OF wf] q by (auto simp: queue_ok_def insert_record_def Let_def)
  show "partial_ok (insert_record r s)"
    using ledger_wfD(4)[OF wf] by (auto simp: partial_ok_def insert_record_def Let_def)
  show "expiry_ok (insert_record r s)"
    using ledger_wfD(5)[OF wf] fresh by (rule expiry_ok_insert)
qed

lemma ledger_wf_enqueue: "ledger_wf s \<Longrightarrow> ledger_wf (s\<lparr>st_queued := st_queued s @ ids\<rparr>)"
  by (auto simp: ledger_wf_def records_wf_def records_all_def queue_ok_def partial_ok_def expiry_ok_def)

lemma ledger_create_wf [wf_intro]:
  assumes wf: "ledger_wf s" and ok: "record_ok r0"
    and fresh: "map_of (st_records s) (rr_response_id r0) = None"
  shows "ledger_wf (snd (ledger_create cx ig r0 key s))"
proof -
  have "ledger_wf (insert_record r (s\<lparr>st_queued := st_queued s @ [rr_response_id r],
      st_idem := AList.update key (rr_response_id r) (st_idem s)\<rparr>))" if "sign cx ig r0 = Inr r" for r
    using ledger_wf_enqueue[OF wf, of "[rr_response_id r]"] fresh sign_record_ok[OF that] ok
    by (intro ledger_wf_insert) (simp_all add: sign_same[OF that])
  then show ?thesis
    using wf by (auto simp: ledger_create_def split: sum.splits option.splits)
qed

lemma claimed_record_ok:
  "record_ok r \<Longrightarrow> record_ok (r\<lparr>rr_attempt := attempt_next (rr_attempt r), rr_status := InProgress,
      rr_owner := Some a\<rparr>)" if "rr_status r = Queued"
  using that attempt_next_claimed[of "rr_attempt r"] by (simp add: record_ok_def is_unclaimed_def)

lemma ended_record_ok:
  "is_terminal st \<Longrightarrow> record_ok r \<Longrightarrow> record_ok (r\<lparr>rr_attempt := attempt_next (rr_attempt r), rr_status := st,
      rr_owner := None, rr_completed_at_ms := Some t\<rparr>)"
  by (cases st) (simp_all add: record_ok_def)

lemma ledger_wf_queue:
  "ledger_wf (s\<lparr>st_queued := q\<rparr>) \<longleftrightarrow> records_wf s \<and> records_all record_ok s \<and>
    queue_ok (s\<lparr>st_queued := q\<rparr>) \<and> partial_ok s \<and> expiry_ok s"
  by (simp add: ledger_wf_def records_wf_def records_all_def partial_ok_def expiry_ok_def)

lemma ledger_wf_dequeue:
  assumes wf: "ledger_wf (s\<lparr>st_queued := rid # rest\<rparr>)"
    and nq: "\<And>r. map_of (st_records s) rid = Some r \<Longrightarrow> rr_status r \<noteq> Queued"
  shows "ledger_wf (s\<lparr>st_queued := rest\<rparr>)"
proof -
  have "rid' \<in> set rest" if "map_of (st_records s) rid' = Some r" "rr_status r = Queued" for rid' r
    using wf that nq by (cases "rid' = rid") (auto simp: ledger_wf_queue queue_ok_def)
  then have "queue_ok (s\<lparr>st_queued := rest\<rparr>)" by (simp add: queue_ok_def)
  with wf show ?thesis by (simp add: ledger_wf_queue)
qed

lemma claim_loop_wf:
  "ledger_wf (s\<lparr>st_queued := q\<rparr>) \<Longrightarrow> ledger_wf (snd (claim_loop agent now_ms ttl q s))"
proof (induction agent now_ms ttl q s rule: claim_loop.induct)
  case (2 agent now_ms ttl rid rest s)
  show ?case
  proof (cases "\<exists>r. map_of (st_records s) rid = Some r \<and> rr_status r = Queued")
    case False
    then have "ledger_wf (s\<lparr>st_queued := rest\<rparr>)"
      by (intro ledger_wf_dequeue[OF 2(3)]) auto
    with False show ?thesis using 2(1,2) by (cases "map_of (st_records s) rid") simp_all
  next
    case True
    then obtain r where r: "map_of (st_records s) rid = Some r" "rr_status r = Queued" by blast
    let ?r = "r\<lparr>rr_attempt := attempt_next (rr_attempt r), rr_status := InProgress, rr_owner := Some agent\<rparr>"
    let ?s = "s\<lparr>st_queued := rid # rest\<rparr>"
    have "record_ok r" using ledger_wf_record_ok[OF 2(3), of rid] r by simp
    then have "ledger_wf (?s\<lparr>st_records := AList.update rid ?r (st_records ?s)\<rparr>)"
      using r claimed_record_ok[OF r(2)] by (intro ledger_wf_change[OF 2(3)]) auto
    moreover have "?s\<lparr>st_records := AList.update rid ?r (st_records ?s)\<rparr>
        = s\<lparr>st_records := AList.update rid ?r (st_records s), st_queued := rid # rest\<rparr>"
      by simp
    ultimately have "ledger_wf (s\<lparr>st_records := AList.update rid ?r (st_records s), st_queued := rid # rest\<rparr>)"
      by (simp only:)
    then have "ledger_wf (s\<lparr>st_records := AList.update rid ?r (st_records s), st_queued := rest\<rparr>)"
      by (rule ledger_wf_dequeue) auto
    moreover have "s\<lparr>st_records := AList.update rid ?r (st_records s), st_queued := rest\<rparr>
        = s\<lparr>st_queued := rest, st_records := AList.update rid ?r (st_records s)\<rparr>"
      by simp
    ultimately have "ledger_wf (s\<lparr>st_queued := rest, st_records := AList.update rid ?r (st_records s)\<rparr>)"
      by (simp only:)
    then show ?thesis using r by (simp add: Let_def)
  qed
qed simp

lemma ledger_claim_wf [wf_intro]: "ledger_wf s \<Longrightarrow> ledger_wf (snd (ledger_claim agent now_ms ttl s))"
  using claim_loop_wf[where s = s and q = "st_queued s"]
  by (simp add: ledger_claim_def guard_writable_def case_prod_unfold)

lemma ledger_heartbeat_wf [wf_intro]: "ledger_wf s \<Longrightarrow> ledger_wf (snd (ledger_heartbeat agent now_ms s))"
  by (simp add: ledger_heartbeat_def)

lemma ledger_complete_wf [wf_intro]:
  assumes wf: "ledger_wf s"
  shows "ledger_wf (snd (ledger_complete rid att status u now_ms s))"
proof -
  have "ledger_wf (s\<lparr>st_records := AList.update rid (r\<lparr>rr_status := status, rr_owner := None,
      rr_usage := u, rr_completed_at_ms := Some now_ms\<rparr>) (st_records s)\<rparr>)"
    if "map_of (st_records s) rid = Some r" "is_terminal status" for r
    using wf that ledger_wf_record_ok[OF wf that(1)]
    by (intro ledger_wf_change) (auto simp: record_ok_def split: response_status.splits)
  then show ?thesis
    using wf by (auto simp: ledger_complete_def guard_writable_def split: option.splits)
qed

lemma ledger_wf_end:
  assumes wf: "ledger_wf s" and r: "map_of (st_records s) rid = Some r" and st: "is_terminal st"
  shows "ledger_wf (book_partial rid (rr_attempt r) (rr_usage r)
    (s\<lparr>st_records := AList.update rid (r\<lparr>rr_attempt := attempt_next (rr_attempt r), rr_status := st,
       rr_owner := None, rr_completed_at_ms := Some now_ms\<rparr>) (st_records s)\<rparr>))"
  using st ended_record_ok[OF st ledger_wf_record_ok[OF wf r]]
  by (intro ledger_wf_book_partial ledger_wf_change[OF wf r]) auto

lemma ledger_cancel_wf [wf_intro]:
  assumes wf: "ledger_wf s"
  shows "ledger_wf (snd (ledger_cancel tenant rid now_ms s))"
  using wf by (auto simp: ledger_cancel_def guard_writable_def split: option.splits intro: ledger_wf_end)

lemma reap_each_wf: "ledger_wf s \<Longrightarrow> ledger_wf (snd (reap_each now_ms ids s))"
proof (induction now_ms ids s rule: reap_each.induct)
  case (2 now_ms rid rest s)
  show ?case
  proof (cases "map_of (st_records s) rid")
    case (Some r)
    then show ?thesis
      using 2(2)[OF Some ledger_wf_end[OF 2(3) Some, of Failed now_ms]]
      by (simp add: case_prod_unfold)
  qed (use 2 in simp)
qed simp

lemma ledger_reap_wf [wf_intro]: "ledger_wf s \<Longrightarrow> ledger_wf (snd (ledger_reap now_ms ttl s))"
  using reap_each_wf[of s now_ms "reap_victims now_ms ttl s"]
  by (simp add: ledger_reap_def case_prod_unfold)

lemma ledger_record_partial_usage_wf [wf_intro]:
  assumes wf: "ledger_wf s"
  shows "ledger_wf (snd (ledger_record_partial_usage rid att u s))"
proof -
  have "set (AList.update (rid, att) v (st_partial_usage s)) \<subseteq>
      insert ((rid, att), v) (set (st_partial_usage s))" for v
    by (rule set_update_subset_local)
  then show ?thesis
    using wf by (fastforce simp: ledger_record_partial_usage_def Let_def ledger_wf_def partial_ok_def
        records_wf_def records_all_def queue_ok_def expiry_ok_def)
qed

lemma expiry_ok_remove:
  assumes ex: "expiry_ok s"
  shows "expiry_ok (snd (remove_record rid s))"
proof (cases "map_of (st_records s) rid")
  case (Some r)
  have d: "distinct (st_expiry s)" using ex by (simp add: expiry_ok_def)
  have "(d, rid) \<notin> set (st_expiry s)" if "rr_expires_at_ms r \<noteq> Some d" for d
    using ex Some that by (auto simp: expiry_ok_def)
  with d show ?thesis
    using ex Some
    by (auto simp: expiry_ok_def remove_record_def sorted_remove1 split: option.splits if_splits)
qed (use ex in \<open>simp add: remove_record_def\<close>)

lemma remove_record_wf [wf_intro]:
  assumes wf: "ledger_wf s"
  shows "ledger_wf (snd (remove_record rid s))"
  unfolding ledger_wf_def
proof (intro conjI)
  show "records_wf (snd (remove_record rid s))"
    by (rule records_wf_remove[OF ledger_wfD(1)[OF wf]])
  show "records_all record_ok (snd (remove_record rid s))"
    using ledger_wfD(2)[OF wf] by (auto simp: records_all_def remove_record_def split: option.splits if_splits)
  show "queue_ok (snd (remove_record rid s))"
    using ledger_wfD(3)[OF wf] by (auto simp: queue_ok_def remove_record_def split: option.splits if_splits)
  show "partial_ok (snd (remove_record rid s))"
    using ledger_wfD(4)[OF wf] by (auto simp: partial_ok_def remove_record_def split: option.splits)
  show "expiry_ok (snd (remove_record rid s))"
    by (rule expiry_ok_remove[OF ledger_wfD(5)[OF wf]])
qed

lemma ledger_delete_wf [wf_intro]: "ledger_wf s \<Longrightarrow> ledger_wf (snd (ledger_delete rid s))"
  using remove_record_wf[of s rid] by (auto simp: ledger_delete_def guard_writable_def case_prod_unfold)

lemma remove_records_wf: "ledger_wf s \<Longrightarrow> ledger_wf (snd (remove_records ids s))"
proof (induction ids arbitrary: s)
  case (Cons rid rest)
  show ?case
    using Cons.IH[OF remove_record_wf[OF Cons.prems, of rid]]
    by (simp add: case_prod_unfold)
qed simp

lemma ledger_delete_by_tenant_wf [wf_intro]:
  "ledger_wf s \<Longrightarrow> ledger_wf (snd (ledger_delete_by_tenant tenant s))"
  using remove_records_wf[of s "index_get (st_by_tenant s) tenant"]
  by (auto simp: ledger_delete_by_tenant_def guard_writable_def case_prod_unfold)

section \<open>How a row may change\<close>

text \<open>
  A row either stays as it is, or moves strictly forward in its lifecycle, keeping what identifies
  it and what was asked, and never lowering its fence.
\<close>

fun status_rank :: "response_status \<Rightarrow> nat" where
  "status_rank Queued = 0"
| "status_rank InProgress = 1"
| "status_rank _ = 2"

lemma status_rank_terminal: "is_terminal st \<longleftrightarrow> status_rank st = 2"
  by (cases st) auto

lemma status_rank_le: "status_rank st \<le> 2"
  by (cases st) auto

definition record_evolves :: "response_record \<Rightarrow> response_record \<Rightarrow> bool" where
  "record_evolves r r' \<longleftrightarrow> r' = r \<or>
    (rr_response_id r' = rr_response_id r \<and> rr_tenant_id r' = rr_tenant_id r \<and>
     rr_spec r' = rr_spec r \<and> rr_created_at_ms r' = rr_created_at_ms r \<and>
     rr_expires_at_ms r' = rr_expires_at_ms r \<and> rr_integrity r' = rr_integrity r \<and>
     rr_idempotency_key r' = rr_idempotency_key r \<and>
     rr_attempt r \<le> rr_attempt r' \<and> status_rank (rr_status r) < status_rank (rr_status r'))"

lemma record_evolves_refl [simp]: "record_evolves r r"
  by (simp add: record_evolves_def)

lemma record_evolves_trans: "record_evolves a b \<Longrightarrow> record_evolves b c \<Longrightarrow> record_evolves a c"
  by (auto simp: record_evolves_def)

lemma record_evolves_terminal: "record_evolves r r' \<Longrightarrow> is_terminal (rr_status r) \<Longrightarrow> r' = r"
  using status_rank_le[of "rr_status r'"] by (auto simp: record_evolves_def status_rank_terminal)

lemma record_evolves_attempt: "record_evolves r r' \<Longrightarrow> rr_attempt r \<le> rr_attempt r'"
  by (auto simp: record_evolves_def)

lemma record_evolves_queued: "record_evolves r r' \<Longrightarrow> rr_status r' = Queued \<Longrightarrow> r' = r"
  by (auto simp: record_evolves_def)

text \<open>
  Two stores, before and after: rows evolve; a row that is new is reported by \<open>born\<close>, a row that is
  gone stays gone.
\<close>

definition store_evolves :: "mem_store \<Rightarrow> mem_store \<Rightarrow> bool" where
  "store_evolves s s' \<longleftrightarrow>
    (\<forall>rid r'. map_of (st_records s') rid = Some r' \<longrightarrow>
      (\<exists>r. map_of (st_records s) rid = Some r \<and> record_evolves r r'))"

lemma store_evolves_same: "st_records s' = st_records s \<Longrightarrow> store_evolves s s'"
  by (simp add: store_evolves_def)

lemma store_evolves_trans: "store_evolves a b \<Longrightarrow> store_evolves b c \<Longrightarrow> store_evolves a c"
  unfolding store_evolves_def by (meson record_evolves_trans)

lemma store_evolves_update:
  assumes "map_of (st_records s) rid = Some r"
    and "st_records s' = AList.update rid r' (st_records s)" "record_evolves r r'"
  shows "store_evolves s s'"
  using assms by (auto simp: store_evolves_def)

lemma book_partial_records [simp]: "st_records (book_partial rid a u s) = st_records s"
  by (simp add: book_partial_def)

lemma claim_evolves: "record_ok r \<Longrightarrow> rr_status r = Queued \<Longrightarrow>
    record_evolves r (r\<lparr>rr_attempt := attempt_next (rr_attempt r), rr_status := InProgress, rr_owner := Some a\<rparr>)"
  using attempt_next_ge[of "rr_attempt r"] by (auto simp: record_evolves_def record_ok_def)

lemma end_evolves: "record_ok r \<Longrightarrow> \<not> is_terminal (rr_status r) \<Longrightarrow> is_terminal st \<Longrightarrow>
    record_evolves r (r\<lparr>rr_attempt := attempt_next (rr_attempt r), rr_status := st, rr_owner := None,
      rr_completed_at_ms := Some t\<rparr>)"
  using status_rank_le[of "rr_status r"]
  by (auto simp: record_evolves_def record_ok_def attempt_next_ge status_rank_terminal)

text \<open>What a successful claim did.\<close>

lemma claim_loop_cases:
  assumes "claim_loop agent now_ms ttl q s = (res, s')"
  shows "(res = None \<and> s' = s\<lparr>st_queued := []\<rparr> \<and>
      (\<forall>rid r. rid \<in> set q \<longrightarrow> map_of (st_records s) rid = Some r \<longrightarrow> rr_status r \<noteq> Queued)) \<or>
    (\<exists>rid r r' rest. rid \<in> set q \<and> map_of (st_records s) rid = Some r \<and> rr_status r = Queued \<and>
      r' = r\<lparr>rr_attempt := attempt_next (rr_attempt r), rr_status := InProgress, rr_owner := Some agent\<rparr> \<and>
      res = Some \<lparr>cl_record = r', cl_exec_deadline_ms = sat_add now_ms ttl\<rparr> \<and>
      s' = s\<lparr>st_queued := rest, st_records := AList.update rid r' (st_records s),
             st_heartbeats := AList.update agent now_ms (st_heartbeats s)\<rparr>)"
  using assms
proof (induction agent now_ms ttl q s rule: claim_loop.induct)
  case (2 agent now_ms ttl rid rest s)
  show ?case
  proof (cases "\<exists>r. map_of (st_records s) rid = Some r \<and> rr_status r = Queued")
    case True
    then show ?thesis using 2(3) by (force simp: Let_def)
  next
    case False
    then have eq: "claim_loop agent now_ms ttl rest s = (res, s')"
      using 2(3) by (auto split: option.splits)
    have "(res = None \<and> s' = s\<lparr>st_queued := []\<rparr> \<and>
        (\<forall>rid r. rid \<in> set rest \<longrightarrow> map_of (st_records s) rid = Some r \<longrightarrow> rr_status r \<noteq> Queued)) \<or>
      (\<exists>rid r r' rest'. rid \<in> set rest \<and> map_of (st_records s) rid = Some r \<and> rr_status r = Queued \<and>
        r' = r\<lparr>rr_attempt := attempt_next (rr_attempt r), rr_status := InProgress, rr_owner := Some agent\<rparr> \<and>
        res = Some \<lparr>cl_record = r', cl_exec_deadline_ms = sat_add now_ms ttl\<rparr> \<and>
        s' = s\<lparr>st_queued := rest', st_records := AList.update rid r' (st_records s),
               st_heartbeats := AList.update agent now_ms (st_heartbeats s)\<rparr>)"
      using 2(1,2) False eq by (cases "map_of (st_records s) rid") auto
    with False show ?thesis by auto
  qed
qed auto

lemma claim_loop_evolves:
  assumes wf: "ledger_wf s"
  shows "store_evolves s (snd (claim_loop agent now_ms ttl q s))"
proof -
  obtain res s' where eq: "claim_loop agent now_ms ttl q s = (res, s')" by fastforce
  from claim_loop_cases[OF eq] have "store_evolves s s'"
  proof (elim disjE conjE exE)
    fix rid r r' rest
    assume r: "map_of (st_records s) rid = Some r" "rr_status r = Queued"
      and upd: "r' = r\<lparr>rr_attempt := attempt_next (rr_attempt r), rr_status := InProgress, rr_owner := Some agent\<rparr>"
      "s' = s\<lparr>st_queued := rest, st_records := AList.update rid r' (st_records s),
             st_heartbeats := AList.update agent now_ms (st_heartbeats s)\<rparr>"
    have "record_evolves r r'"
      unfolding upd(1) by (rule claim_evolves[OF ledger_wf_record_ok[OF wf r(1)] r(2)])
    then show ?thesis by (intro store_evolves_update[OF r(1), of s' r']) (simp_all add: upd(2))
  qed (simp add: store_evolves_same)
  with eq show ?thesis by simp
qed

lemma ledger_claim_evolves: "ledger_wf s \<Longrightarrow> store_evolves s (snd (ledger_claim agent now_ms ttl s))"
  using claim_loop_evolves[of s agent now_ms ttl "st_queued s"]
  by (simp add: ledger_claim_def guard_writable_def case_prod_unfold store_evolves_same)

lemma ledger_heartbeat_evolves: "store_evolves s (snd (ledger_heartbeat agent now_ms s))"
  by (simp add: ledger_heartbeat_def store_evolves_same)

lemma ledger_complete_evolves: "store_evolves s (snd (ledger_complete rid att status u now_ms s))"
proof -
  have "record_evolves r (r\<lparr>rr_status := status, rr_owner := None, rr_usage := u, rr_completed_at_ms := Some now_ms\<rparr>)"
    if "rr_status r = InProgress" "is_terminal status" for r
    using that by (simp add: record_evolves_def status_rank_terminal)
  then show ?thesis
    by (auto simp: ledger_complete_def guard_writable_def store_evolves_same split: option.splits)
      (rule store_evolves_update, assumption, simp, simp)
qed

lemma ledger_cancel_evolves:
  "ledger_wf s \<Longrightarrow> store_evolves s (snd (ledger_cancel tenant rid now_ms s))"
  by (auto simp: ledger_cancel_def guard_writable_def store_evolves_same split: option.splits)
    (rule store_evolves_update, assumption, simp, rule end_evolves, auto intro: ledger_wf_record_ok)

lemma ledger_record_partial_usage_evolves:
  "store_evolves s (snd (ledger_record_partial_usage rid att u s))"
  by (simp add: ledger_record_partial_usage_def Let_def store_evolves_same)

lemma remove_record_evolves: "store_evolves s (snd (remove_record rid s))"
  by (auto simp: remove_record_def store_evolves_def split: option.splits if_splits)

lemma ledger_delete_evolves: "store_evolves s (snd (ledger_delete rid s))"
  using remove_record_evolves[of s rid]
  by (simp add: ledger_delete_def guard_writable_def case_prod_unfold store_evolves_same)

lemma remove_records_evolves: "store_evolves s (snd (remove_records ids s))"
proof (induction ids arbitrary: s)
  case (Cons rid rest)
  show ?case
    using store_evolves_trans[OF remove_record_evolves[of s rid] Cons.IH[of "snd (remove_record rid s)"]]
    by (simp add: case_prod_unfold)
qed (simp add: store_evolves_same)

lemma ledger_delete_by_tenant_evolves: "store_evolves s (snd (ledger_delete_by_tenant tenant s))"
  using remove_records_evolves
  by (simp add: ledger_delete_by_tenant_def guard_writable_def case_prod_unfold store_evolves_same)

subsection \<open>Reaping\<close>

definition reaped :: "nat \<Rightarrow> response_record \<Rightarrow> response_record" where
  "reaped now_ms r = r\<lparr>rr_attempt := attempt_next (rr_attempt r), rr_status := Failed,
    rr_owner := None, rr_completed_at_ms := Some now_ms\<rparr>"

lemma reap_each_records:
  "distinct ids \<Longrightarrow> map_of (st_records (snd (reap_each now_ms ids s))) rid =
    (if rid \<in> set ids then map_option (reaped now_ms) (map_of (st_records s) rid)
     else map_of (st_records s) rid)"
proof (induction now_ms ids s rule: reap_each.induct)
  case (2 now_ms rid' rest s)
  then show ?case
    by (cases "map_of (st_records s) rid'") (auto simp: case_prod_unfold reaped_def)
qed simp

lemma reap_victims_distinct: "records_wf s \<Longrightarrow> distinct (reap_victims now_ms ttl s)"
  unfolding reap_victims_def records_wf_def keys_distinct_def by (simp add: distinct_map_filter)

lemma claim_lost_iff:
  "claim_lost now_ms ttl s r \<longleftrightarrow>
    (\<forall>a hb. rr_owner r = Some a \<and> map_of (st_heartbeats s) a = Some hb \<longrightarrow> ttl < now_ms - hb)"
  by (auto simp: claim_lost_def split: option.splits)

lemma reap_victims_iff:
  "records_wf s \<Longrightarrow> rid \<in> set (reap_victims now_ms ttl s) \<longleftrightarrow>
    (\<exists>r. map_of (st_records s) rid = Some r \<and> rr_status r = InProgress \<and> claim_lost now_ms ttl s r)"
  by (force simp: reap_victims_def records_wf_def map_of_in_set[symmetric])

lemma ledger_reap_records:
  assumes "records_wf s"
  shows "map_of (st_records (snd (ledger_reap now_ms ttl s))) rid =
    (case map_of (st_records s) rid of
       None \<Rightarrow> None
     | Some r \<Rightarrow> Some (if rr_status r = InProgress \<and> claim_lost now_ms ttl s r then reaped now_ms r else r))"
  using reap_each_records[OF reap_victims_distinct[OF assms, of now_ms ttl], of now_ms s rid]
  by (auto simp: ledger_reap_def case_prod_unfold reap_victims_iff[OF assms] split: option.splits)

lemma ledger_reap_evolves:
  assumes wf: "ledger_wf s"
  shows "store_evolves s (snd (ledger_reap now_ms ttl s))"
  unfolding store_evolves_def
proof (intro allI impI)
  fix rid r'
  assume r': "map_of (st_records (snd (ledger_reap now_ms ttl s))) rid = Some r'"
  then obtain r where r: "map_of (st_records s) rid = Some r"
    and eq: "r' = (if rr_status r = InProgress \<and> claim_lost now_ms ttl s r then reaped now_ms r else r)"
    by (auto simp: ledger_reap_records[OF ledger_wfD(1)[OF wf]] split: option.splits)
  have "record_evolves r r'"
    using end_evolves[OF ledger_wf_record_ok[OF wf r], of Failed now_ms]
    by (auto simp: eq reaped_def)
  with r show "\<exists>r. map_of (st_records s) rid = Some r \<and> record_evolves r r'" by blast
qed

lemma reap_each_claims:
  "distinct ids \<Longrightarrow> (\<forall>rid \<in> set ids. map_of (st_records s) rid \<noteq> None) \<Longrightarrow>
    map ab_response_id (fst (reap_each now_ms ids s)) = ids"
proof (induction now_ms ids s rule: reap_each.induct)
  case (2 now_ms rid rest s)
  then obtain r where "map_of (st_records s) rid = Some r" by auto
  with 2 show ?case by (auto simp: case_prod_unfold)
qed simp

text \<open>
  A row that is not terminal has burnt nothing the ledger knows of, so there is never anything to
  book when it is cancelled or reaped.
\<close>

lemma record_ok_usage: "record_ok r \<Longrightarrow> \<not> is_terminal (rr_status r) \<Longrightarrow> usage_is_zero (rr_usage r)"
  by (cases "rr_status r") (auto simp: record_ok_def usage_is_zero_iff)

lemma reap_each_partial:
  assumes "ledger_wf s" "distinct ids"
    and "\<And>rid r. rid \<in> set ids \<Longrightarrow> map_of (st_records s) rid = Some r \<Longrightarrow> \<not> is_terminal (rr_status r)"
  shows "st_partial_usage (snd (reap_each now_ms ids s)) = st_partial_usage s"
  using assms
proof (induction now_ms ids s rule: reap_each.induct)
  case (2 now_ms rid rest s)
  show ?case
  proof (cases "map_of (st_records s) rid")
    case None
    then show ?thesis using 2 by auto
  next
    case (Some r)
    let ?s = "s\<lparr>st_records := AList.update rid (r\<lparr>rr_attempt := attempt_next (rr_attempt r),
      rr_status := Failed, rr_owner := None, rr_completed_at_ms := Some now_ms\<rparr>) (st_records s)\<rparr>"
    have z: "usage_is_zero (rr_usage r)"
      using 2(5)[of rid r] Some record_ok_usage[OF ledger_wf_record_ok[OF 2(3) Some]] by simp
    then have b: "book_partial rid (rr_attempt r) (rr_usage r) ?s = ?s" by (simp add: book_partial_def)
    have "ledger_wf ?s" using ledger_wf_end[OF 2(3) Some, of Failed now_ms] b by simp
    moreover have "\<not> is_terminal (rr_status r1)"
      if "rid1 \<in> set rest" "map_of (st_records ?s) rid1 = Some r1" for rid1 r1
      using 2(5)[of rid1 r1] 2(4) that by (auto split: if_splits)
    ultimately have "st_partial_usage (snd (reap_each now_ms rest ?s)) = st_partial_usage ?s"
      using 2(2)[OF Some] 2(4) b by simp
    then show ?thesis using Some b by (simp add: case_prod_unfold)
  qed
qed simp

lemma remove_record_records:
  "map_of (st_records (snd (remove_record rid s))) = (map_of (st_records s))(rid := None)"
  "fst (remove_record rid s) = map_of (st_records s) rid"
  by (auto simp: remove_record_def split: option.splits)

lemma remove_records_spec:
  assumes "distinct ids"
  shows "map_of (st_records (snd (remove_records ids s))) rid =
      (if rid \<in> set ids then None else map_of (st_records s) rid) \<and>
    ((\<forall>rid \<in> set ids. map_of (st_records s) rid \<noteq> None) \<longrightarrow> fst (remove_records ids s) = length ids)"
  using assms
proof (induction ids arbitrary: s)
  case (Cons i ids)
  have "\<forall>rid \<in> set ids. map_of (st_records (snd (remove_record i s))) rid = map_of (st_records s) rid"
    using Cons.prems by (auto simp: remove_record_records)
  then show ?case
    using Cons.IH[of "snd (remove_record i s)"] Cons.prems
    by (auto simp: case_prod_unfold remove_record_records)
qed simp

section \<open>Correctness of the operations\<close>

text \<open>C6: A claim on a writable ledger returns nothing exactly when no response is queued; otherwise
  it returns one that was queued, raises its fence by one, marks it in progress under the caller,
  records a heartbeat for the caller, and leaves every other row as it was.\<close>

theorem ledger_claim_spec:
  assumes wf: "ledger_wf s" and w: "\<not> st_read_only s"
    and eq: "ledger_claim agent now_ms ttl s = (res, s')"
  shows "(res = Inr None \<longleftrightarrow> (\<forall>rid r. map_of (st_records s) rid = Some r \<longrightarrow> rr_status r \<noteq> Queued)) \<and>
    (\<forall>c. res = Inr (Some c) \<longrightarrow>
      (\<exists>rid r. map_of (st_records s) rid = Some r \<and> rr_status r = Queued \<and>
        cl_record c = r\<lparr>rr_attempt := attempt_next (rr_attempt r), rr_status := InProgress,
          rr_owner := Some agent\<rparr> \<and>
        cl_exec_deadline_ms c = sat_add now_ms ttl \<and>
        map_of (st_records s') = (map_of (st_records s))(rid \<mapsto> cl_record c) \<and>
        map_of (st_heartbeats s') agent = Some now_ms)) \<and>
    (\<exists>c. res = Inr c)"
proof -
  obtain c where c: "claim_loop agent now_ms ttl (st_queued s) s = (c, s')" "res = Inr c"
    using eq w by (auto simp: ledger_claim_def split: prod.splits)
  have q: "rid \<in> set (st_queued s)" if "map_of (st_records s) rid = Some r" "rr_status r = Queued" for rid r
    using ledger_wfD(3)[OF wf] that by (auto simp: queue_ok_def)
  from claim_loop_cases[OF c(1)] show ?thesis
  proof (elim disjE)
    assume "c = None \<and> s' = s\<lparr>st_queued := []\<rparr> \<and> (\<forall>rid r. rid \<in> set (st_queued s) \<longrightarrow>
        map_of (st_records s) rid = Some r \<longrightarrow> rr_status r \<noteq> Queued)"
    then show ?thesis using q c(2) by auto
  next
    assume "\<exists>rid r r' rest. rid \<in> set (st_queued s) \<and> map_of (st_records s) rid = Some r \<and>
      rr_status r = Queued \<and>
      r' = r\<lparr>rr_attempt := attempt_next (rr_attempt r), rr_status := InProgress, rr_owner := Some agent\<rparr> \<and>
      c = Some \<lparr>cl_record = r', cl_exec_deadline_ms = sat_add now_ms ttl\<rparr> \<and>
      s' = s\<lparr>st_queued := rest, st_records := AList.update rid r' (st_records s),
             st_heartbeats := AList.update agent now_ms (st_heartbeats s)\<rparr>"
    then obtain rid r r' rest where r: "map_of (st_records s) rid = Some r" "rr_status r = Queued"
      and r': "r' = r\<lparr>rr_attempt := attempt_next (rr_attempt r), rr_status := InProgress, rr_owner := Some agent\<rparr>"
      and h: "c = Some \<lparr>cl_record = r', cl_exec_deadline_ms = sat_add now_ms ttl\<rparr>"
        "s' = s\<lparr>st_queued := rest, st_records := AList.update rid r' (st_records s),
             st_heartbeats := AList.update agent now_ms (st_heartbeats s)\<rparr>"
      by blast
    have "\<exists>rid r. map_of (st_records s) rid = Some r \<and> rr_status r = Queued \<and>
        r' = r\<lparr>rr_attempt := attempt_next (rr_attempt r), rr_status := InProgress, rr_owner := Some agent\<rparr> \<and>
        map_of (st_records s') = (map_of (st_records s))(rid \<mapsto> r')"
      using r r' h(2) by (intro exI[of _ rid] exI[of _ r]) simp
    then show ?thesis using c(2) h r by auto
  qed
qed

lemma fence_closed:
  assumes "map_of (st_records s) rid = Some r" "rr_status r \<noteq> InProgress" "\<not> st_read_only s"
  shows "check_attempt rid att s = Inl LStaleAttempt"
    and "is_terminal st \<Longrightarrow> ledger_complete rid att st u now s = (Inl LStaleAttempt, s)"
  using assms by (simp_all add: check_attempt_def ledger_complete_def)

text \<open>C7: Once a cancellation has been acknowledged, whoever is executing the response is fenced
  off for good: under every attempt number the fence check answers stale, and no completion can
  overwrite the cancelled row.\<close>

theorem cancel_fences_the_executor:
  assumes "ledger_cancel tenant rid now_ms s = (Inr (), s')"
  shows "(\<forall>att. check_attempt rid att s' = Inl LStaleAttempt) \<and>
    (\<forall>att st u t. is_terminal st \<longrightarrow> ledger_complete rid att st u t s' = (Inl LStaleAttempt, s')) \<and>
    (\<exists>r r'. map_of (st_records s) rid = Some r \<and> map_of (st_records s') rid = Some r' \<and>
       rr_status r' = Cancelled \<and> rr_tenant_id r = tenant \<and> \<not> is_terminal (rr_status r) \<and>
       rr_attempt r' = attempt_next (rr_attempt r))"
proof -
  obtain r where r: "map_of (st_records s) rid = Some r" "rr_tenant_id r = tenant"
      "\<not> is_terminal (rr_status r)" "\<not> st_read_only s"
    and s': "s' = book_partial rid (rr_attempt r) (rr_usage r)
      (s\<lparr>st_records := AList.update rid (r\<lparr>rr_attempt := attempt_next (rr_attempt r),
        rr_status := Cancelled, rr_owner := None, rr_completed_at_ms := Some now_ms\<rparr>) (st_records s)\<rparr>)"
    using assms by (auto simp: ledger_cancel_def guard_writable_def split: if_splits option.splits)
  have w: "\<not> st_read_only s'" using r(4) by (simp add: s' book_partial_def)
  let ?r = "r\<lparr>rr_attempt := attempt_next (rr_attempt r), rr_status := Cancelled, rr_owner := None,
    rr_completed_at_ms := Some now_ms\<rparr>"
  have m: "map_of (st_records s') rid = Some ?r" by (simp add: s')
  show ?thesis using fence_closed[OF m _ w] r m by auto
qed

lemma ledger_reap_rows:
  assumes wf: "ledger_wf s" and eq: "ledger_reap now_ms ttl s = (res, s')"
  shows "\<exists>aborted. res = Inr aborted \<and> distinct (map ab_response_id aborted) \<and>
    (\<forall>rid. rid \<in> set (map ab_response_id aborted) \<longleftrightarrow>
      (\<exists>r. map_of (st_records s) rid = Some r \<and> rr_status r = InProgress \<and> claim_lost now_ms ttl s r)) \<and>
    (\<forall>rid. map_of (st_records s') rid =
      (case map_of (st_records s) rid of
         None \<Rightarrow> None
       | Some r \<Rightarrow> Some (if rid \<in> set (map ab_response_id aborted) then reaped now_ms r else r)))"
proof -
  note rwf = ledger_wfD(1)[OF wf]
  let ?v = "reap_victims now_ms ttl s"
  obtain aborted where a: "reap_each now_ms ?v s = (aborted, s')" "res = Inr aborted"
    using eq by (auto simp: ledger_reap_def split: prod.splits)
  have "\<forall>rid \<in> set ?v. map_of (st_records s) rid \<noteq> None"
    by (auto simp: reap_victims_iff[OF rwf])
  then have ids: "map ab_response_id aborted = ?v"
    using reap_each_claims[OF reap_victims_distinct[OF rwf, of now_ms ttl], of s now_ms] a(1) by simp
  have "map_of (st_records s') rid = (case map_of (st_records s) rid of None \<Rightarrow> None
      | Some r \<Rightarrow> Some (if rid \<in> set ?v then reaped now_ms r else r))" for rid
    using reap_each_records[OF reap_victims_distinct[OF rwf, of now_ms ttl], of now_ms s rid] a(1)
    by (auto split: option.splits)
  then show ?thesis
    using a(2) reap_victims_distinct[OF rwf, of now_ms ttl] reap_victims_iff[OF rwf, of _ now_ms ttl]
    by (intro exI[of _ aborted]) (simp only: ids, simp)
qed


text \<open>A replay of an accepted idempotency key returns the stored original and changes
  nothing, even while the ledger is read-only or overloaded, for as long as the original is
  kept.\<close>

theorem create_idempotent:
  assumes "ledger_create cx ig r0 key s = (Inr (Accepted r), s1)"
    and "map_of (st_idem s2) key = map_of (st_idem s1) key"
    and "map_of (st_records s2) (rr_response_id r) = Some r2"
    and "sign cx ig r0' = Inr r'"
  shows "ledger_create cx ig r0' key s2 = (Inr (Duplicate r2), s2)"
proof -
  have "map_of (st_idem s1) key = Some (rr_response_id r)"
    using assms(1) by (auto simp: ledger_create_def insert_record_def Let_def
        split: sum.splits option.splits if_splits)
  then show ?thesis using assms(2-) by (simp add: ledger_create_def)
qed

lemma delete_by_tenant_rows:
  assumes wf: "ledger_wf s" and eq: "ledger_delete_by_tenant tenant s = (Inr n, s')"
  shows "map_of (st_records s') rid =
      (case map_of (st_records s) rid of
         Some r \<Rightarrow> if rr_tenant_id r = tenant then None else Some r | None \<Rightarrow> None)"
    "n = card {rid. \<exists>r. map_of (st_records s) rid = Some r \<and> rr_tenant_id r = tenant}" "ledger_wf s'"
proof -
  let ?ids = "index_get (st_by_tenant s) tenant"
  have ag: "rid \<in> set ?ids \<longleftrightarrow> (\<exists>r. map_of (st_records s) rid = Some r \<and> rr_tenant_id r = tenant)" for rid
    using ledger_wfD(1)[OF wf] by (simp add: records_wf_def agrees_def)
  have d: "distinct ?ids" using ledger_wfD(1)[OF wf] by (simp add: records_wf_def index_wf_get)
  have rr: "remove_records ?ids s = (n, s')"
    using eq by (auto simp: ledger_delete_by_tenant_def guard_writable_def split: prod.splits if_splits)
  have "\<forall>rid \<in> set ?ids. map_of (st_records s) rid \<noteq> None" by (auto simp: ag)
  then have rm: "map_of (st_records s') rid = (if rid \<in> set ?ids then None else map_of (st_records s) rid)"
    and n: "n = length ?ids" for rid
    using remove_records_spec[OF d, of s rid] rr by auto
  show "map_of (st_records s') rid =
      (case map_of (st_records s) rid of
         Some r \<Rightarrow> if rr_tenant_id r = tenant then None else Some r | None \<Rightarrow> None)"
    by (auto simp: rm ag split: option.splits)
  show "n = card {rid. \<exists>r. map_of (st_records s) rid = Some r \<and> rr_tenant_id r = tenant}"
    using distinct_card[OF d] n by (simp add: ag[symmetric])
  show "ledger_wf s'" using remove_records_wf[OF wf, of ?ids] rr by simp
qed

text \<open>Purging a tenant removes exactly the rows of that tenant, reports how many there were,
  and leaves nothing of them in the index, the expiry index or the booked usage.\<close>

theorem delete_by_tenant_exact:
  assumes wf: "ledger_wf s" and eq: "ledger_delete_by_tenant tenant s = (Inr n, s')"
  shows "(\<forall>rid. map_of (st_records s') rid =
      (case map_of (st_records s) rid of
         Some r \<Rightarrow> if rr_tenant_id r = tenant then None else Some r | None \<Rightarrow> None)) \<and>
    n = card {rid. \<exists>r. map_of (st_records s) rid = Some r \<and> rr_tenant_id r = tenant} \<and>
    index_get (st_by_tenant s') tenant = [] \<and> ledger_wf s'"
proof -
  note rows = delete_by_tenant_rows[OF wf eq]
  have "rid \<notin> set (index_get (st_by_tenant s') tenant)" for rid
    using ledger_wfD(1)[OF rows(3)] rows(1)[of rid] by (auto simp: records_wf_def agrees_def split: option.splits if_splits)
  then have "index_get (st_by_tenant s') tenant = []"
    by (metis list.set_sel(1))
  then show ?thesis using rows by blast
qed

text \<open>Neither a cancellation nor a reap ever books usage against the abandoned attempt: a row
  that can be cancelled or reaped carries the zero usage it was created with, because usage is
  only written by the transition to a terminal status.\<close>

theorem abandoned_attempts_book_nothing:
  assumes wf: "ledger_wf s"
  shows "st_partial_usage (snd (ledger_cancel tenant rid now_ms s)) = st_partial_usage s \<and>
    st_partial_usage (snd (ledger_reap now_ms ttl s)) = st_partial_usage s"
proof
  show "st_partial_usage (snd (ledger_cancel tenant rid now_ms s)) = st_partial_usage s"
    using record_ok_usage ledger_wf_record_ok[OF wf]
    by (auto simp: ledger_cancel_def guard_writable_def book_partial_def split: option.splits)
  note rwf = ledger_wfD(1)[OF wf]
  show "st_partial_usage (snd (ledger_reap now_ms ttl s)) = st_partial_usage s"
    using reap_each_partial[OF wf reap_victims_distinct[OF rwf, of now_ms ttl], of now_ms]
    by (auto simp: ledger_reap_def case_prod_unfold reap_victims_iff[OF rwf])
qed

section \<open>A small store\<close>

text \<open>Concrete values on which the theorems are exercised.\<close>

definition demo_rid :: response_id where
  "demo_rid = ResponseId (NodeTag ''n1'') 1"

definition demo_tenant :: tenant_id where
  "demo_tenant = TenantId ''t1''"

definition demo_agent :: agent_id where
  "demo_agent = AgentId 7"

definition demo_key :: idempotency_key where
  "demo_key = IdempotencyKey ''k1''"

definition demo_codec :: codec where
  "demo_codec = \<lparr>cx_nfc = (\<lambda>s. s), cx_esc = (\<lambda>s. s), cx_num_fmt = (\<lambda>_. ''0''), cx_uuid_fmt = (\<lambda>_. ''u'')\<rparr>"

definition demo_spec :: turn_spec where
  "demo_spec = \<lparr>ts_params = ModelParams_new ''m'', ts_input_items = [user_text ''hi''], ts_store = True,
    ts_anchor = Root\<rparr>"

definition demo_record :: response_record where
  "demo_record = ResponseRecord_queued demo_rid demo_tenant demo_spec demo_key 1000 60000"

definition demo_queued :: mem_store where
  "demo_queued = snd (ledger_create demo_codec None demo_record demo_key MemStore_new)"

definition demo_running :: mem_store where
  "demo_running = snd (ledger_claim demo_agent 2000 30000 demo_queued)"

lemmas demo_ids = demo_rid_def demo_tenant_def demo_agent_def demo_key_def

lemmas demo_defs = demo_ids demo_codec_def demo_spec_def demo_record_def ResponseRecord_queued_def
  ModelParams_new_def

lemma demo_queued_eq:
  "demo_queued = insert_record demo_record (MemStore_new\<lparr>st_queued := [demo_rid],
    st_idem := [(demo_key, demo_rid)]\<rparr>)"
  by (simp add: demo_queued_def ledger_create_def sign_def MemStore_new_def in_flight_count_def
      demo_record_def ResponseRecord_queued_def)

lemma demo_queued_wf: "ledger_wf demo_queued"
  unfolding demo_queued_def
  by (rule ledger_create_wf[OF ledger_wf_new]) (simp_all add: demo_record_def, simp add: MemStore_new_def)

lemma demo_running_wf: "ledger_wf demo_running"
  unfolding demo_running_def by (rule ledger_claim_wf[OF demo_queued_wf])

lemma demo_queued_fields:
  "map_of (st_records demo_queued) = [demo_rid \<mapsto> demo_record]"
  "st_queued demo_queued = [demo_rid]" "\<not> st_read_only demo_queued"
  "map_of (st_idem demo_queued) demo_key = Some demo_rid"
  by (simp_all add: demo_queued_eq insert_record_def MemStore_new_def demo_record_def
      ResponseRecord_queued_def)

definition demo_claimed_record :: response_record where
  "demo_claimed_record = demo_record\<lparr>rr_attempt := Attempt 1, rr_status := InProgress, rr_owner := Some demo_agent\<rparr>"

lemma demo_record_fields [simp]:
  "rr_response_id demo_record = demo_rid" "rr_tenant_id demo_record = demo_tenant"
  "rr_status demo_record = Queued" "rr_attempt demo_record = UNCLAIMED"
  "rr_usage demo_record = Usage_default"
  by (simp_all add: demo_record_def ResponseRecord_queued_def)

lemma demo_next [simp]: "attempt_next UNCLAIMED = Attempt 1"
  by (simp add: attempt_next_def UNCLAIMED_def sat_add_def u64_max_def)

lemma demo_running_eq:
  "demo_running = demo_queued\<lparr>st_queued := [],
    st_records := AList.update demo_rid demo_claimed_record (st_records demo_queued),
    st_heartbeats := AList.update demo_agent 2000 (st_heartbeats demo_queued)\<rparr>"
  by (simp add: demo_running_def ledger_claim_def demo_queued_fields demo_claimed_record_def Let_def)

lemma demo_claim:
  "ledger_claim demo_agent 2000 30000 demo_queued =
    (Inr (Some \<lparr>cl_record = demo_claimed_record, cl_exec_deadline_ms = 32000\<rparr>), demo_running)"
proof -
  have "sat_add 2000 30000 = 32000" by (simp add: sat_add_def u64_max_def)
  then show ?thesis
    by (simp add: demo_running_def ledger_claim_def demo_queued_fields demo_claimed_record_def Let_def)
qed

lemma demo_running_fields:
  "map_of (st_records demo_running) = [demo_rid \<mapsto> demo_claimed_record]"
  "\<not> st_read_only demo_running" "map_of (st_heartbeats demo_running) demo_agent = Some 2000"
  "st_idem demo_running = st_idem demo_queued"
  by (simp_all add: demo_running_eq demo_queued_fields)

theorem ledger_claim_spec_witness:
  "\<exists>c. fst (ledger_claim demo_agent 2000 30000 demo_queued) = Inr (Some c) \<and>
    rr_status (cl_record c) = InProgress \<and> rr_attempt (cl_record c) = Attempt 1 \<and>
    map_of (st_heartbeats demo_running) demo_agent = Some 2000"
  using ledger_claim_spec[OF demo_queued_wf demo_queued_fields(3) demo_claim]
  by (auto simp: demo_claim demo_claimed_record_def)

theorem cancel_fences_the_executor_witness:
  "\<exists>s'. ledger_cancel demo_tenant demo_rid 3000 demo_running = (Inr (), s') \<and>
    check_attempt demo_rid (Attempt 1) s' = Inl LStaleAttempt"
proof -
  obtain s' where s': "ledger_cancel demo_tenant demo_rid 3000 demo_running = (Inr (), s')"
    by (simp add: ledger_cancel_def demo_running_fields demo_claimed_record_def)
  show ?thesis using cancel_fences_the_executor[OF s'] s' by blast
qed


theorem create_idempotent_witness:
  "ledger_create demo_codec None (demo_record\<lparr>rr_response_id := ResponseId (NodeTag ''n2'') 2\<rparr>) demo_key demo_running
    = (Inr (Duplicate demo_claimed_record), demo_running)"
proof -
  have a: "ledger_create demo_codec None demo_record demo_key MemStore_new = (Inr (Accepted demo_record), demo_queued)"
    by (simp add: demo_queued_def ledger_create_def sign_def MemStore_new_def in_flight_count_def)
  show ?thesis
    using create_idempotent[OF a, of demo_running demo_claimed_record] by (simp add: demo_running_fields sign_def)
qed

theorem delete_by_tenant_exact_witness:
  "\<exists>s'. ledger_delete_by_tenant demo_tenant demo_running = (Inr 1, s') \<and> map_of (st_records s') demo_rid = None"
proof -
  obtain n s' where eq: "ledger_delete_by_tenant demo_tenant demo_running = (Inr n, s')"
    by (cases "remove_records (index_get (st_by_tenant demo_running) demo_tenant) demo_running")
      (simp add: ledger_delete_by_tenant_def demo_running_fields)
  have t: "rr_tenant_id demo_claimed_record = demo_tenant"
    by (simp add: demo_claimed_record_def)
  have "{rid. \<exists>r. map_of (st_records demo_running) rid = Some r \<and> rr_tenant_id r = demo_tenant} = {demo_rid}"
    by (auto simp: demo_running_fields t split: if_splits)
  then show ?thesis
    using delete_by_tenant_exact[OF demo_running_wf eq] eq by (auto simp: demo_running_fields t)
qed

theorem abandoned_attempts_book_nothing_witness:
  "st_partial_usage (snd (ledger_cancel demo_tenant demo_rid 3000 demo_running)) = st_partial_usage demo_running"
  using abandoned_attempts_book_nothing[OF demo_running_wf] by blast

end
