(* ===== verification/Paging.thy ===== *)
theory Paging
  imports Nova_Prelude
begin

text \<open>
  Reading an event stream by cursor.  Both streams of the system (per response and per
  conversation) are read through the same rule: a read returns the events after a cursor, at
  most a page of them.  Every consumer repeats such reads, moving its cursor to the last event
  of the page.  \<open>page_loop\<close> is that loop, and \<open>paged_reader\<close> the interface it relies on: under it,
  the loop returns and has seen the stream in order, without a gap or a repetition.
\<close>

text \<open>The first sequence number a caller with this cursor still needs; no cursor means from 0.\<close>

definition read_target :: "nat option \<Rightarrow> nat" where
  "read_target after = (case after of None \<Rightarrow> 0 | Some a \<Rightarrow> sat_add a 1)"

partial_function (option) page_loop ::
  "(nat option \<Rightarrow> 'err + 'e list) \<Rightarrow> ('e \<Rightarrow> nat) \<Rightarrow> ('e \<Rightarrow> bool) \<Rightarrow> ('e \<Rightarrow> 'a \<Rightarrow> 'a)
    \<Rightarrow> nat option \<Rightarrow> 'a \<Rightarrow> (('err \<times> 'a) + 'a) option" where
  "page_loop read seq stop absorb cursor acc =
    (case read cursor of
       Inl e \<Rightarrow> Some (Inl (e, acc))
     | Inr batch \<Rightarrow>
       if batch = [] then Some (Inr acc)
       else if list_ex stop batch then Some (Inr (fold absorb batch acc))
       else page_loop read seq stop absorb (Some (seq (last batch))) (fold absorb batch acc))"

declare page_loop.simps [code]

locale paged_reader =
  fixes read :: "'s \<Rightarrow> nat option \<Rightarrow> nat \<Rightarrow> 'err + 'e list"
    and seq :: "'e \<Rightarrow> nat"
    and events :: "'s \<Rightarrow> 'e list"
    and low :: "'s \<Rightarrow> nat"
    and wf :: "'s \<Rightarrow> bool"
  assumes read_ok: "wf s \<Longrightarrow> low s \<le> read_target c \<Longrightarrow> read_target c \<le> low s + length (events s) \<Longrightarrow>
      read s c n = Inr (take n (drop (read_target c - low s) (events s)))"
    and seq_nth: "wf s \<Longrightarrow> i < length (events s) \<Longrightarrow> seq (events s ! i) = low s + i"
    and bounded: "wf s \<Longrightarrow> low s + length (events s) < u64_max"
begin

text \<open>After a page, the cursor points exactly behind it.\<close>

lemma next_target:
  assumes "wf s" "low s \<le> read_target c" "0 < n"
    and batch: "batch = take n (drop (read_target c - low s) (events s))" "batch \<noteq> []"
  shows "read_target (Some (seq (last batch))) = read_target c + length batch"
proof -
  let ?o = "read_target c - low s"
  have len: "length batch \<le> length (events s) - ?o" "0 < length batch"
    using batch by auto
  have "batch ! i = events s ! (?o + i)" if "i < length batch" for i
    using that batch(1) len by (simp add: nth_drop)
  note nth = this
  obtain i where i: "length batch = Suc i" using batch(2) by (cases batch) auto
  have "last batch = events s ! (?o + i)" "?o + i < length (events s)"
    using last_conv_nth[OF batch(2)] nth[of i] len i by auto
  then have "seq (last batch) = low s + (?o + i)"
    using assms(1) by (simp add: seq_nth)
  then have "seq (last batch) = read_target c + length batch - 1"
    using assms(2) len i by simp
  moreover have "read_target c + length batch \<le> u64_max"
    using bounded[OF assms(1)] len assms(2) by linarith
  ultimately show ?thesis using len by (simp add: read_target_def sat_add_def)
qed

text \<open>
  The loop returns.  It has absorbed a prefix of what lies after the cursor: all of it, unless a
  page held an event to stop at.
\<close>

lemma page_loop_returns:
  assumes "wf s" "low s \<le> read_target c" "0 < n"
    and "read_target c \<le> low s + length (events s)"
  shows "\<exists>k. page_loop (\<lambda>c. read s c n) seq stop absorb c acc
      = Some (Inr (fold absorb (take k (drop (read_target c - low s) (events s))) acc)) \<and>
    (k \<ge> length (events s) - (read_target c - low s) \<or>
     list_ex stop (take k (drop (read_target c - low s) (events s))))"
  using assms(2,4)
proof (induction "length (events s) - (read_target c - low s)" arbitrary: c acc rule: less_induct)
  case less
  let ?rest = "drop (read_target c - low s) (events s)"
  let ?batch = "take n ?rest"
  have rd: "read s c n = Inr ?batch" by (rule read_ok[OF assms(1) less.prems])
  show ?case
  proof (cases "?batch = []")
    case True
    then have "?rest = []" using \<open>0 < n\<close> by auto
    then show ?thesis
      using True rd by (intro exI[of _ 0]) (simp add: page_loop.simps[of "\<lambda>c. read s c n" seq stop absorb c])
  next
    case ne: False
    show ?thesis
    proof (cases "list_ex stop ?batch")
      case True
      then show ?thesis
        using ne rd by (intro exI[of _ n]) (simp add: page_loop.simps[of "\<lambda>c. read s c n" seq stop absorb c])
    next
      case False
      let ?c = "Some (seq (last ?batch))"
      have t: "read_target ?c = read_target c + length ?batch"
        by (rule next_target[OF assms(1) less.prems(1) \<open>0 < n\<close> refl ne])
      have rest: "drop (read_target ?c - low s) (events s) = drop n ?rest"
        using t less.prems by (cases "n \<le> length ?rest") (auto simp: add.commute)
      have pos: "0 < length ?batch" using ne by simp
      have smaller: "length (events s) - (read_target ?c - low s) < length (events s) - (read_target c - low s)"
        using t less.prems pos by (simp only: length_take length_drop) linarith
      have "low s \<le> read_target ?c" "read_target ?c \<le> low s + length (events s)"
        using t less.prems by (simp_all only: length_take length_drop)
      from less.hyps[OF smaller this, of "fold absorb ?batch acc"] obtain k where
        k: "page_loop (\<lambda>c. read s c n) seq stop absorb ?c (fold absorb ?batch acc)
          = Some (Inr (fold absorb (take k (drop n ?rest)) (fold absorb ?batch acc)))"
        "k \<ge> length (events s) - (read_target ?c - low s) \<or> list_ex stop (take k (drop n ?rest))"
        unfolding rest by blast
      have tk: "take (n + k) ?rest = ?batch @ take k (drop n ?rest)" by (rule take_add)
      have "page_loop (\<lambda>c. read s c n) seq stop absorb c acc
          = Some (Inr (fold absorb (take (n + k) ?rest) acc))"
        using ne False rd k(1) unfolding tk
        by (simp add: page_loop.simps[of "\<lambda>c. read s c n" seq stop absorb c])
      moreover have "n + k \<ge> length (events s) - (read_target c - low s) \<or> list_ex stop (take (n + k) ?rest)"
        using k(2)
      proof
        assume "k \<ge> length (events s) - (read_target ?c - low s)"
        then have "n + k \<ge> length (events s) - (read_target c - low s)"
          using t less.prems by (simp only: length_take length_drop) linarith
        then show ?thesis ..
      next
        assume "list_ex stop (take k (drop n ?rest))"
        then show ?thesis unfolding tk by simp
      qed
      ultimately show ?thesis by blast
    qed
  qed
qed

text \<open>When only the last event can stop the loop, it sees everything after the cursor.\<close>

lemma page_loop_all:
  assumes "wf s" "low s \<le> read_target c" "0 < n" "read_target c \<le> low s + length (events s)"
    and "\<not> list_ex stop (butlast (events s))"
  shows "page_loop (\<lambda>c. read s c n) seq stop absorb c acc
    = Some (Inr (fold absorb (drop (read_target c - low s) (events s)) acc))"
proof -
  let ?rest = "drop (read_target c - low s) (events s)"
  obtain k where k: "page_loop (\<lambda>c. read s c n) seq stop absorb c acc = Some (Inr (fold absorb (take k ?rest) acc))"
    "k \<ge> length ?rest \<or> list_ex stop (take k ?rest)"
    using page_loop_returns[OF assms(1-4), of stop absorb acc] by auto
  have "k \<ge> length ?rest"
  proof (rule ccontr)
    assume a: "\<not> k \<ge> length ?rest"
    then have "set (take k ?rest) \<subseteq> set (butlast ?rest)"
      by (auto simp: take_butlast[symmetric] dest: in_set_takeD)
    moreover have "set (butlast ?rest) \<subseteq> set (butlast (events s))"
      by (simp add: butlast_drop set_drop_subset)
    ultimately have "\<not> list_ex stop (take k ?rest)" using assms(5) by (auto simp: list_ex_iff)
    with k(2) a show False by simp
  qed
  with k(1) show ?thesis by simp
qed

end

end
