(* ===== verification/Event_Log.thy ===== *)
theory Event_Log
  imports Ledger Paging
begin

text \<open>
  The per-response event log (\<open>verify/mock/server/src/event_log.rs\<close> behind the port
  \<open>crates/responses/src/ports/event_log.rs\<close>): a bounded ring per response, sequence numbers
  assigned on append, reads by cursor, and the two-phase expiry (tombstone, then unknown).

  The log has its own mutex.  An append first asks the ledger whether the attempt is current
  (\<open>append_fence\<close>, under the ledger's mutex) and then writes (\<open>append_write\<close>, under the log's).  A
  read that waits is a sequence of polls of the log as it is at each wake-up.
\<close>

section \<open>The port\<close>

datatype event_log_error =
    EUnknown
  | EExpired
  | EStaleAttempt
  | ECapacityExceeded
  | EStore store_error

fun store_error_to_string :: "store_error \<Rightarrow> string" where
  "store_error_to_string ReadOnly = ''read only''"
| "store_error_to_string Unavailable = ''unavailable''"
| "store_error_to_string (Internal m) = ''internal: '' @ m"

fun ledger_error_to_string :: "ledger_error \<Rightarrow> string" where
  "ledger_error_to_string LNotFound = ''not found''"
| "ledger_error_to_string LStaleAttempt = ''stale attempt''"
| "ledger_error_to_string (LInvalidTransition m) = ''invalid transition: '' @ m"
| "ledger_error_to_string (LStore e) = store_error_to_string e"

section \<open>State\<close>

definition TOMBSTONE_FACTOR :: nat where
  "TOMBSTONE_FACTOR = 10"

record response_log =
  rl_ring :: "response_event list"
  rl_next_seq :: nat
  rl_evicted_before :: nat
  rl_terminal_at_ms :: "nat option"
  rl_retain_ms :: nat
  rl_swept :: bool

definition ResponseLog_new :: response_log where
  "ResponseLog_new = \<lparr>rl_ring = [], rl_next_seq = 0, rl_evicted_before = 0, rl_terminal_at_ms = None,
    rl_retain_ms = 0, rl_swept = False\<rparr>"

definition tombstone_deadline :: "response_log \<Rightarrow> nat option" where
  "tombstone_deadline l =
    map_option (\<lambda>t. sat_add t (sat_mul (rl_retain_ms l) TOMBSTONE_FACTOR)) (rl_terminal_at_ms l)"

definition retention_deadline :: "response_log \<Rightarrow> nat option" where
  "retention_deadline l = map_option (\<lambda>t. sat_add t (rl_retain_ms l)) (rl_terminal_at_ms l)"

record event_log =
  el_logs :: "(response_id, response_log) table"
  el_capacity_per_response :: nat
  el_max_logs :: nat

definition EventLog_with_capacity :: "nat \<Rightarrow> nat \<Rightarrow> event_log" where
  "EventLog_with_capacity capacity max_logs =
    \<lparr>el_logs = [], el_capacity_per_response = max capacity 1, el_max_logs = max max_logs 1\<rparr>"

definition EventLog_new :: event_log where
  "EventLog_new = EventLog_with_capacity 20000 100000"

section \<open>Operations\<close>

definition append_fence :: "append_event \<Rightarrow> mem_store \<Rightarrow> event_log_error + unit" where
  "append_fence e s =
    (if st_read_only s then Inl (EStore ReadOnly)
     else case ae_attempt e of
       None \<Rightarrow> Inr ()
     | Some att \<Rightarrow>
       (case check_attempt (ae_response_id e) att s of
          Inr _ \<Rightarrow> Inr ()
        | Inl err \<Rightarrow>
          Inl (case err of
                 LStaleAttempt \<Rightarrow> EStaleAttempt
               | LStore ReadOnly \<Rightarrow> EStore ReadOnly
               | LNotFound \<Rightarrow> EUnknown
               | other \<Rightarrow> EStore (Internal (ledger_error_to_string other)))))"

text \<open>The eviction loop: pop from the front while the ring is over capacity.\<close>

function evict :: "nat \<Rightarrow> response_log \<Rightarrow> response_log" where
  "evict capacity l =
    (if length (rl_ring l) > capacity
     then evict capacity (l\<lparr>rl_ring := tl (rl_ring l), rl_evicted_before := rl_evicted_before l + 1\<rparr>)
     else l)"
  by pat_completeness auto
termination
  by (relation "measure (\<lambda>(_, l). length (rl_ring l))") auto

declare evict.simps [simp del]

definition push_event :: "nat \<Rightarrow> append_event \<Rightarrow> response_log \<Rightarrow> response_log" where
  "push_event capacity e l =
    evict capacity (l\<lparr>rl_next_seq := rl_next_seq l + 1, rl_ring := rl_ring l @ [with_seq e (rl_next_seq l)]\<rparr>)"

definition append_write :: "append_event \<Rightarrow> event_log \<Rightarrow> (event_log_error + nat) \<times> event_log" where
  "append_write e g =
    (let rid = ae_response_id e in
     if map_of (el_logs g) rid = None \<and> length (el_logs g) \<ge> el_max_logs g
     then (Inl ECapacityExceeded, g)
     else
       (let l = (case map_of (el_logs g) rid of Some l \<Rightarrow> l | None \<Rightarrow> ResponseLog_new) in
        if rl_swept l then (Inl EExpired, g)
        else (Inr (rl_next_seq l),
          g\<lparr>el_logs := AList.update rid (push_event (el_capacity_per_response g) e l) (el_logs g)\<rparr>)))"

definition event_append ::
  "append_event \<Rightarrow> mem_store \<Rightarrow> event_log \<Rightarrow> (event_log_error + nat) \<times> event_log" where
  "event_append e s g =
    (case append_fence e s of Inl err \<Rightarrow> (Inl err, g) | Inr _ \<Rightarrow> append_write e g)"

definition log_read :: "response_log \<Rightarrow> nat option \<Rightarrow> nat \<Rightarrow> event_log_error + response_event list" where
  "log_read l after limit =
    (if rl_swept l then Inl EExpired
     else
       (let target = read_target after in
        if target < rl_evicted_before l then Inl EExpired
        else if target < rl_next_seq l
        then Inr (take limit (drop (target - rl_evicted_before l) (rl_ring l)))
        else Inr []))"

definition event_read_after ::
  "response_id \<Rightarrow> nat option \<Rightarrow> nat \<Rightarrow> event_log \<Rightarrow> event_log_error + response_event list" where
  "event_read_after rid after limit g =
    (case map_of (el_logs g) rid of None \<Rightarrow> Inl EUnknown | Some l \<Rightarrow> log_read l after limit)"

text \<open>A read with a wait: the log as found at each wake-up, the last one at the deadline.\<close>

fun event_read_waiting ::
  "response_id \<Rightarrow> nat option \<Rightarrow> nat \<Rightarrow> event_log list \<Rightarrow> event_log_error + response_event list" where
  "event_read_waiting rid after limit [] = Inr []"
| "event_read_waiting rid after limit (g # gs) =
    (case event_read_after rid after limit g of
       Inl e \<Rightarrow> Inl e
     | Inr batch \<Rightarrow> if batch \<noteq> [] then Inr batch else event_read_waiting rid after limit gs)"

definition event_close ::
  "response_id \<Rightarrow> nat \<Rightarrow> nat \<Rightarrow> event_log \<Rightarrow> (event_log_error + unit) \<times> event_log" where
  "event_close rid now_ms retain_ms g =
    (case map_of (el_logs g) rid of
       None \<Rightarrow> (Inl EUnknown, g)
     | Some l \<Rightarrow> (Inr (), g\<lparr>el_logs := AList.update rid
         (l\<lparr>rl_retain_ms := retain_ms, rl_terminal_at_ms := Some now_ms\<rparr>) (el_logs g)\<rparr>))"

definition event_remove :: "response_id \<Rightarrow> event_log \<Rightarrow> (event_log_error + unit) \<times> event_log" where
  "event_remove rid g =
    (case map_of (el_logs g) rid of
       None \<Rightarrow> (Inl EUnknown, g)
     | Some _ \<Rightarrow> (Inr (), g\<lparr>el_logs := AList.delete rid (el_logs g)\<rparr>))"

datatype sweep_action = Keep | Sweep | Drop

definition deadline_passed :: "nat \<Rightarrow> nat option \<Rightarrow> bool" where
  "deadline_passed now_ms d = (case d of Some t \<Rightarrow> now_ms \<ge> t | None \<Rightarrow> False)"

definition sweep_action_of :: "nat \<Rightarrow> response_log \<Rightarrow> sweep_action" where
  "sweep_action_of now_ms l =
    (if deadline_passed now_ms (tombstone_deadline l) then Drop
     else if rl_swept l then Keep
     else if deadline_passed now_ms (retention_deadline l) then Sweep
     else Keep)"

definition swept_log :: "response_log \<Rightarrow> response_log" where
  "swept_log l = l\<lparr>rl_ring := [], rl_evicted_before := rl_next_seq l, rl_swept := True\<rparr>"

fun sweep_entries ::
  "nat \<Rightarrow> (response_id, response_log) table \<Rightarrow> nat \<times> (response_id, response_log) table" where
  "sweep_entries now_ms [] = (0, [])"
| "sweep_entries now_ms ((rid, l) # rest) =
    (case sweep_entries now_ms rest of (n, rest') \<Rightarrow>
      (case sweep_action_of now_ms l of
         Keep \<Rightarrow> (n, (rid, l) # rest')
       | Sweep \<Rightarrow> (Suc n, (rid, swept_log l) # rest')
       | Drop \<Rightarrow> (Suc n, rest')))"

definition event_sweep_expired :: "nat \<Rightarrow> event_log \<Rightarrow> (event_log_error + nat) \<times> event_log" where
  "event_sweep_expired now_ms g =
    (case sweep_entries now_ms (el_logs g) of (n, logs) \<Rightarrow> (Inr n, g\<lparr>el_logs := logs\<rparr>))"

section \<open>The ring refines the whole history\<close>

text \<open>
  The specification of one log is the list of everything ever appended to it; the event at
  position \<open>i\<close> has sequence number \<open>i\<close>.  The implementation keeps a suffix of it.
\<close>

definition numbered :: "append_event list \<Rightarrow> response_event list" where
  "numbered h = map (\<lambda>i. with_seq (h ! i) i) [0..<length h]"

definition log_refines :: "nat \<Rightarrow> append_event list \<Rightarrow> response_log \<Rightarrow> bool" where
  "log_refines capacity h l \<longleftrightarrow>
    rl_next_seq l = length h \<and>
    rl_evicted_before l = (if rl_swept l then length h else length h - capacity) \<and>
    rl_ring l = drop (rl_evicted_before l) (numbered h)"

lemma numbered_length [simp]: "length (numbered h) = length h"
  by (simp add: numbered_def)

lemma numbered_nth [simp]: "i < length h \<Longrightarrow> numbered h ! i = with_seq (h ! i) i"
  by (simp add: numbered_def)

lemma numbered_snoc: "numbered (h @ [e]) = numbered h @ [with_seq e (length h)]"
  by (rule nth_equalityI) (auto simp: nth_append less_Suc_eq)

lemma evict_eq:
  "evict capacity l = l\<lparr>rl_ring := drop (length (rl_ring l) - capacity) (rl_ring l),
    rl_evicted_before := rl_evicted_before l + (length (rl_ring l) - capacity)\<rparr>"
proof (induction capacity l rule: evict.induct)
  case (1 capacity l)
  show ?case
  proof (cases "length (rl_ring l) > capacity")
    case True
    then obtain x xs where "rl_ring l = x # xs" by (cases "rl_ring l") auto
    then show ?thesis using 1[OF True] True by (simp add: evict.simps[of capacity l] Suc_diff_le)
  qed (simp add: evict.simps[of capacity l])
qed

lemma push_event_refines:
  assumes "log_refines capacity h l" "\<not> rl_swept l"
  shows "log_refines capacity (h @ [e]) (push_event capacity e l)"
proof (cases "length h < capacity")
  case True
  then show ?thesis using assms by (auto simp: log_refines_def push_event_def evict_eq numbered_snoc)
next
  case False
  then obtain k where "length h = capacity + k" by (auto simp: not_less le_iff_add)
  then show ?thesis
    using assms by (auto simp: log_refines_def push_event_def evict_eq numbered_snoc add.commute)
qed

lemma log_refines_new [simp]: "log_refines capacity [] ResponseLog_new"
  by (simp add: log_refines_def ResponseLog_new_def numbered_def)

lemma swept_log_refines: "log_refines capacity h l \<Longrightarrow> log_refines capacity h (swept_log l)"
  by (simp add: log_refines_def swept_log_def)

lemma close_refines:
  "log_refines capacity h (l\<lparr>rl_retain_ms := r, rl_terminal_at_ms := t\<rparr>) = log_refines capacity h l"
  by (simp add: log_refines_def)

text \<open>Reading a log against its history: the exact slice, or a refusal, never part of it.\<close>

lemma log_read_refines:
  assumes "log_refines capacity h l"
  shows "log_read l after limit =
    (if rl_swept l \<or> read_target after < length h - capacity then Inl EExpired
     else Inr (take limit (drop (read_target after) (numbered h))))"
  using assms by (auto simp: log_read_def log_refines_def Let_def)

subsection \<open>The whole log\<close>

type_synonym history = "response_id \<rightharpoonup> append_event list"

definition log_refines_all :: "history \<Rightarrow> event_log \<Rightarrow> bool" where
  "log_refines_all H g \<longleftrightarrow> keys_distinct (el_logs g) \<and>
    (\<forall>rid. rel_option (log_refines (el_capacity_per_response g)) (H rid) (map_of (el_logs g) rid))"

text \<open>The abstract operations.\<close>

definition spec_append :: "append_event \<Rightarrow> history \<Rightarrow> history" where
  "spec_append e H = H(ae_response_id e \<mapsto>
    (case H (ae_response_id e) of Some h \<Rightarrow> h | None \<Rightarrow> []) @ [e])"

lemma log_refines_allD:
  "log_refines_all H g \<Longrightarrow> rel_option (log_refines (el_capacity_per_response g)) (H rid) (map_of (el_logs g) rid)"
  by (simp add: log_refines_all_def)

lemma append_write_refines:
  assumes H: "log_refines_all H g" and eq: "append_write e g = (res, g')"
  shows "(case res of
      Inr n \<Rightarrow> log_refines_all (spec_append e H) g' \<and>
        n = length (case H (ae_response_id e) of Some h \<Rightarrow> h | None \<Rightarrow> [])
    | Inl err \<Rightarrow> g' = g \<and> err \<in> {ECapacityExceeded, EExpired})"
proof -
  let ?rid = "ae_response_id e"
  let ?l = "case map_of (el_logs g) ?rid of Some l \<Rightarrow> l | None \<Rightarrow> ResponseLog_new"
  let ?h = "case H ?rid of Some h \<Rightarrow> h | None \<Rightarrow> []"
  have lh: "log_refines (el_capacity_per_response g) ?h ?l"
    using log_refines_allD[OF H, of ?rid] by (cases "H ?rid"; cases "map_of (el_logs g) ?rid") simp_all
  show ?thesis
  proof (cases res)
    case (Inl err)
    then show ?thesis using eq by (auto simp: append_write_def Let_def split: if_splits)
  next
    case (Inr n)
    then have ns: "\<not> rl_swept ?l" and n: "n = rl_next_seq ?l"
      and g': "g' = g\<lparr>el_logs := AList.update ?rid (push_event (el_capacity_per_response g) e ?l) (el_logs g)\<rparr>"
      using eq by (auto simp: append_write_def Let_def split: if_splits)
    have "log_refines (el_capacity_per_response g) (?h @ [e]) (push_event (el_capacity_per_response g) e ?l)"
      by (rule push_event_refines[OF lh ns])
    then have "log_refines_all (spec_append e H) g'"
      using H by (simp add: log_refines_all_def g' spec_append_def)
    moreover have "n = length ?h" using lh n by (simp add: log_refines_def)
    ultimately show ?thesis using Inr by simp
  qed
qed

text \<open>C8: The bounded rings of the log implement an unbounded history.  An accepted append adds the
  event at the end of its response's history and returns its position there as the sequence
  number; a refused one changes nothing.  A later read answers with exactly the requested slice
  of the history, or says that part of it has expired; it never silently skips evicted
  events.\<close>

theorem event_log_refines_history:
  assumes "log_refines_all H g"
  shows "(case event_append e s g of
      (Inr n, g') \<Rightarrow> log_refines_all (spec_append e H) g' \<and>
         n = length (case H (ae_response_id e) of Some h \<Rightarrow> h | None \<Rightarrow> [])
    | (Inl err, g') \<Rightarrow> g' = g) \<and>
    event_read_after rid after limit g =
     (case H rid of
        None \<Rightarrow> Inl EUnknown
      | Some h \<Rightarrow>
        if (\<exists>l. map_of (el_logs g) rid = Some l \<and> rl_swept l)
           \<or> read_target after < length h - el_capacity_per_response g
        then Inl EExpired
        else Inr (take limit (drop (read_target after) (numbered h))))"
proof
  show "case event_append e s g of
      (Inr n, g') \<Rightarrow> log_refines_all (spec_append e H) g' \<and>
         n = length (case H (ae_response_id e) of Some h \<Rightarrow> h | None \<Rightarrow> [])
    | (Inl err, g') \<Rightarrow> g' = g"
    using append_write_refines[OF assms, of e]
    by (auto simp: event_append_def split: sum.splits)
  show "event_read_after rid after limit g =
     (case H rid of
        None \<Rightarrow> Inl EUnknown
      | Some h \<Rightarrow>
        if (\<exists>l. map_of (el_logs g) rid = Some l \<and> rl_swept l)
           \<or> read_target after < length h - el_capacity_per_response g
        then Inl EExpired
        else Inr (take limit (drop (read_target after) (numbered h))))"
    using log_refines_allD[OF assms, of rid] log_read_refines
    by (cases "H rid"; cases "map_of (el_logs g) rid") (auto simp: event_read_after_def)
qed

subsection \<open>Invariant of the log\<close>

definition event_log_wf :: "event_log \<Rightarrow> bool" where
  "event_log_wf g \<longleftrightarrow> (\<exists>H. log_refines_all H g) \<and> length (el_logs g) \<le> el_max_logs g
    \<and> 1 \<le> el_capacity_per_response g"

lemma event_log_wf_new: "event_log_wf (EventLog_with_capacity c m)"
proof -
  have "log_refines_all Map.empty (EventLog_with_capacity c m)"
    by (simp add: log_refines_all_def EventLog_with_capacity_def)
  then show ?thesis by (auto simp: event_log_wf_def EventLog_with_capacity_def)
qed

lemma length_update_le: "length (AList.update k v t) = (if map_of t k = None then Suc (length t) else length t)"
  by (induction t) auto

lemma append_write_wf:
  assumes "event_log_wf g"
  shows "event_log_wf (snd (append_write e g))"
proof -
  obtain H where H: "log_refines_all H g" using assms by (auto simp: event_log_wf_def)
  have c: "el_capacity_per_response (snd (append_write e g)) = el_capacity_per_response g"
    "el_max_logs (snd (append_write e g)) = el_max_logs g"
    by (simp_all add: append_write_def Let_def)
  have l: "length (el_logs (snd (append_write e g))) \<le> el_max_logs g"
    using assms by (auto simp: append_write_def Let_def length_update_le event_log_wf_def)
  obtain res g' where eq: "append_write e g = (res, g')" by fastforce
  have "\<exists>H. log_refines_all H g'"
    using append_write_refines[OF H eq] H by (auto split: sum.splits)
  then show ?thesis using assms c l eq by (simp add: event_log_wf_def)
qed

lemma event_append_wf [wf_intro]: "event_log_wf g \<Longrightarrow> event_log_wf (snd (event_append e s g))"
  using append_write_wf by (simp add: event_append_def split: sum.split)

lemma event_close_wf [wf_intro]:
  assumes "event_log_wf g"
  shows "event_log_wf (snd (event_close rid now_ms retain g))"
proof (cases "map_of (el_logs g) rid")
  case (Some l)
  obtain H where H: "log_refines_all H g" using assms by (auto simp: event_log_wf_def)
  then obtain h where h: "H rid = Some h" "log_refines (el_capacity_per_response g) h l"
    using log_refines_allD[OF H, of rid] Some by (auto simp: option_rel_Some2)
  have "log_refines_all H (snd (event_close rid now_ms retain g))"
    using H Some h close_refines by (auto simp: log_refines_all_def event_close_def)
  then show ?thesis
    using assms Some by (auto simp: event_log_wf_def event_close_def length_update_le)
qed (use assms in \<open>simp add: event_close_def\<close>)

lemma event_remove_wf [wf_intro]:
  assumes "event_log_wf g"
  shows "event_log_wf (snd (event_remove rid g))"
proof (cases "map_of (el_logs g) rid")
  case (Some l)
  obtain H where H: "log_refines_all H g" using assms by (auto simp: event_log_wf_def)
  have "log_refines_all (H(rid := None)) (snd (event_remove rid g))"
    using H Some by (auto simp: log_refines_all_def event_remove_def)
  moreover have "length (AList.delete rid (el_logs g)) \<le> length (el_logs g)"
    by (rule length_delete_le)
  ultimately show ?thesis
    using assms Some by (auto simp: event_log_wf_def event_remove_def)
qed (use assms in \<open>simp add: event_remove_def\<close>)

text \<open>The sweep, row by row.\<close>

definition sweep_result :: "nat \<Rightarrow> response_log \<Rightarrow> response_log option" where
  "sweep_result now_ms l =
    (case sweep_action_of now_ms l of Keep \<Rightarrow> Some l | Sweep \<Rightarrow> Some (swept_log l) | Drop \<Rightarrow> None)"

lemma sweep_entries_keys: "fst ` set (snd (sweep_entries now_ms t)) \<subseteq> fst ` set t"
  by (induction t) (fastforce simp: case_prod_unfold split: sweep_action.splits)+

lemma sweep_entries_spec:
  "keys_distinct t \<Longrightarrow> keys_distinct (snd (sweep_entries now_ms t)) \<and>
    length (snd (sweep_entries now_ms t)) \<le> length t \<and>
    map_of (snd (sweep_entries now_ms t)) rid = Option.bind (map_of t rid) (sweep_result now_ms)"
proof (induction t)
  case (Cons p t)
  obtain r l where p: "p = (r, l)" by fastforce
  have kd: "keys_distinct t" "r \<notin> fst ` set t"
    using Cons.prems by (auto simp: p keys_distinct_def)
  have nk: "r \<notin> fst ` set (snd (sweep_entries now_ms t))"
    using sweep_entries_keys[of now_ms t] kd(2) by blast
  then have "map_of (snd (sweep_entries now_ms t)) r = None" by (simp add: map_of_eq_None_iff)
  moreover have "map_of t r = None" using kd(2) by (simp add: map_of_eq_None_iff)
  ultimately show ?case
    using Cons.IH[OF kd(1)] nk
    by (cases "sweep_action_of now_ms l") (auto simp: p case_prod_unfold sweep_result_def keys_distinct_def)
qed simp

lemma event_sweep_expired_wf [wf_intro]:
  assumes "event_log_wf g"
  shows "event_log_wf (snd (event_sweep_expired now_ms g))"
proof -
  obtain H where H: "log_refines_all H g" using assms by (auto simp: event_log_wf_def)
  let ?t = "snd (sweep_entries now_ms (el_logs g))"
  have kd: "keys_distinct (el_logs g)" using H by (simp add: log_refines_all_def)
  let ?H = "\<lambda>rid. if map_of ?t rid = None then None else H rid"
  have "rel_option (log_refines (el_capacity_per_response g)) (?H rid) (map_of ?t rid)" for rid
    using log_refines_allD[OF H, of rid] sweep_entries_spec[OF kd, of now_ms rid]
    by (cases "map_of (el_logs g) rid"; cases "H rid")
      (auto simp: sweep_result_def swept_log_refines split: sweep_action.splits)
  then have "log_refines_all ?H (g\<lparr>el_logs := ?t\<rparr>)"
    using sweep_entries_spec[OF kd] by (simp add: log_refines_all_def)
  then show ?thesis
    using assms sweep_entries_spec[OF kd, of now_ms]
    by (auto simp: event_log_wf_def event_sweep_expired_def case_prod_unfold intro: order_trans)
qed

section \<open>The log as a paged reader\<close>

definition log_live :: "response_log \<Rightarrow> bool" where
  "log_live l \<longleftrightarrow> \<not> rl_swept l \<and> (\<exists>capacity h. log_refines capacity h l \<and> length h < u64_max)"

interpretation rlog: paged_reader log_read re_sequence_number rl_ring rl_evicted_before log_live
proof
  fix l c n i
  assume "log_live l"
  then obtain capacity h where h: "log_refines capacity h l" "length h < u64_max" and ns: "\<not> rl_swept l"
    by (auto simp: log_live_def)
  have len: "rl_evicted_before l + length (rl_ring l) = rl_next_seq l"
    using h(1) ns by (auto simp: log_refines_def)
  show "log_read l c n = Inr (take n (drop (read_target c - rl_evicted_before l) (rl_ring l)))"
    if "rl_evicted_before l \<le> read_target c"
    using that ns len by (auto simp: log_read_def Let_def)
  show "re_sequence_number (rl_ring l ! i) = rl_evicted_before l + i" if "i < length (rl_ring l)"
    using that h(1) by (auto simp: log_refines_def with_seq_def)
  show "rl_evicted_before l + length (rl_ring l) < u64_max"
    using len h by (simp add: log_refines_def)
qed

section \<open>Correctness\<close>

text \<open>Expiry is announced before it is forgotten.  A stream that was never closed is never
  swept; a closed one reads as before until its retention has passed, then answers that it
  expired, and only after ten times the retention becomes unknown.\<close>

theorem sweep_two_phase:
  assumes "event_log_wf g" "map_of (el_logs g) rid = Some l"
  shows "event_read_after rid after limit (snd (event_sweep_expired now_ms g)) =
    (case rl_terminal_at_ms l of
       None \<Rightarrow> log_read l after limit
     | Some t \<Rightarrow>
       if sat_add t (sat_mul (rl_retain_ms l) 10) \<le> now_ms then Inl EUnknown
       else if sat_add t (rl_retain_ms l) \<le> now_ms then Inl EExpired
       else log_read l after limit)"
proof -
  have kd: "keys_distinct (el_logs g)"
    using assms(1) by (auto simp: event_log_wf_def log_refines_all_def)
  have "map_of (el_logs (snd (event_sweep_expired now_ms g))) rid = sweep_result now_ms l"
    using sweep_entries_spec[OF kd, of now_ms rid] assms(2)
    by (simp add: event_sweep_expired_def case_prod_unfold)
  then show ?thesis
    by (auto simp: event_read_after_def sweep_result_def sweep_action_of_def tombstone_deadline_def
        retention_deadline_def deadline_passed_def TOMBSTONE_FACTOR_def log_read_def swept_log_def
        split: option.splits)
qed

text \<open>The fence check of an append and its write are taken under two different locks, and a
  cancellation fits between them: an event that passed the check is then stored behind the
  terminal event of the cancelled response, although the check would now refuse it.\<close>

theorem append_fence_race:
  assumes "append_fence e s = Inr ()" "ae_response_id e = rid" "ae_attempt e = Some att"
    and "ledger_cancel tenant rid now_ms s = (Inr (), s')"
    and "append_write (lifecycle rid EvIncomplete obj) g = (Inr n, g')"
  shows "append_fence e s' = Inl EStaleAttempt \<and> (\<exists>g''. append_write e g' = (Inr (n + 1), g''))"
proof
  have "check_attempt rid att s' = Inl LStaleAttempt" "\<not> st_read_only s'"
    using assms(4) fence_closed(1)[of s' rid _ att]
    by (auto simp: ledger_cancel_def guard_writable_def book_partial_def check_attempt_def
        split: if_splits option.splits)
  then show "append_fence e s' = Inl EStaleAttempt"
    using assms(2,3) by (simp add: append_fence_def)
  have "map_of (el_logs g') rid \<noteq> None \<and>
      (\<forall>l. map_of (el_logs g') rid = Some l \<longrightarrow> \<not> rl_swept l \<and> rl_next_seq l = n + 1)"
    using assms(5) by (auto simp: append_write_def Let_def lifecycle_def push_event_def evict_eq
        split: if_splits)
  then show "\<exists>g''. append_write e g' = (Inr (n + 1), g'')"
    using assms(2) by (auto simp: append_write_def Let_def)
qed

definition demo_log :: event_log where
  "demo_log = EventLog_with_capacity 2 10"

definition demo_object :: response_object where
  "demo_object = ResponseObject_terminal_stub (\<lambda>_. ''u'') demo_rid Failed"

definition demo_delta :: append_event where
  "demo_delta = text_delta demo_rid (Attempt 1) ''m'' 0 0 ''hello''"

definition demo_log1 :: event_log where
  "demo_log1 = snd (append_write demo_delta demo_log)"

lemma demo_log_wf: "event_log_wf demo_log" "event_log_wf demo_log1"
  unfolding demo_log_def demo_log1_def by (auto intro: event_log_wf_new append_write_wf)

lemma demo_log1_entry:
  "map_of (el_logs demo_log1) demo_rid = Some (push_event 2 demo_delta ResponseLog_new)"
  by (simp add: demo_log1_def append_write_def demo_log_def EventLog_with_capacity_def demo_delta_def
      text_delta_def ResponseLog_new_def Let_def numeral_2_eq_2)

theorem event_log_refines_history_witness:
  "event_read_after demo_rid None 5 demo_log1 = Inr [with_seq demo_delta 0]"
proof -
  have e0: "log_refines_all Map.empty demo_log"
    by (simp add: log_refines_all_def demo_log_def EventLog_with_capacity_def)
  obtain n where w: "append_write demo_delta demo_log = (Inr n, demo_log1)"
    by (auto simp: demo_log1_def append_write_def Let_def demo_log_def EventLog_with_capacity_def ResponseLog_new_def)
  have H: "log_refines_all (spec_append demo_delta Map.empty) demo_log1"
    using append_write_refines[OF e0 w] by simp
  have "event_read_after demo_rid None 5 demo_log1 =
      Inr (take 5 (drop (read_target None) (numbered [demo_delta])))"
    using conjunct2[OF event_log_refines_history[OF H, where rid = demo_rid and after = None and limit = 5
        and e = demo_delta and s = demo_running]]
    by (simp add: demo_log1_entry spec_append_def demo_delta_def text_delta_def push_event_def evict_eq
        ResponseLog_new_def read_target_def demo_log1_def append_write_def Let_def demo_log_def
        EventLog_with_capacity_def)
  then show ?thesis by (simp add: read_target_def numbered_def)
qed

theorem sweep_two_phase_witness:
  "event_read_after demo_rid None 5 (snd (event_sweep_expired 99 (snd (event_close demo_rid 10 5 demo_log1))))
    = Inl EUnknown"
proof -
  let ?g = "snd (event_close demo_rid 10 5 demo_log1)"
  let ?l = "(push_event 2 demo_delta ResponseLog_new)\<lparr>rl_retain_ms := 5, rl_terminal_at_ms := Some 10\<rparr>"
  have "map_of (el_logs ?g) demo_rid = Some ?l"
    by (simp add: event_close_def demo_log1_entry)
  from sweep_two_phase[OF event_close_wf[OF demo_log_wf(2)] this, of None 5 99] show ?thesis
    by (simp add: sat_add_def sat_mul_def u64_max_def)
qed

theorem append_fence_race_witness:
  "\<exists>s' g' g''. ledger_cancel demo_tenant demo_rid 3000 demo_running = (Inr (), s') \<and>
    append_write (lifecycle demo_rid EvIncomplete demo_object) demo_log1 = (Inr 1, g') \<and>
    append_fence demo_delta s' = Inl EStaleAttempt \<and> append_write demo_delta g' = (Inr 2, g'')"
proof -
  have f: "append_fence demo_delta demo_running = Inr ()" "ae_response_id demo_delta = demo_rid"
      "ae_attempt demo_delta = Some (Attempt 1)"
    by (simp_all add: append_fence_def demo_delta_def text_delta_def check_attempt_def demo_running_fields
        demo_claimed_record_def)
  obtain s' where c: "ledger_cancel demo_tenant demo_rid 3000 demo_running = (Inr (), s')"
    by (simp add: ledger_cancel_def demo_running_fields demo_claimed_record_def)
  obtain g' where w: "append_write (lifecycle demo_rid EvIncomplete demo_object) demo_log1 = (Inr 1, g')"
    by (simp add: append_write_def Let_def lifecycle_def demo_log1_entry push_event_def evict_eq ResponseLog_new_def)
  show ?thesis using append_fence_race[OF f c w] c w by auto
qed

end
