(* ===== verification/Conversation_Store.thy ===== *)
theory Conversation_Store
  imports Ledger Paging
begin

text \<open>
  Conversations (\<open>verify/mock/server/src/conversation.rs\<close> behind the ports of
  \<open>crates/responses/src/ports/conversation.rs\<close>): the repository, the materialised snapshot, the
  turn lock with its boundary events, and the conversation event stream.

  All operations run under the store's mutex.  The turn lock is used through the interface
  \<open>turn_lock_laws\<close>, the event stream through \<open>paged_reader\<close>.
\<close>

section \<open>The ports\<close>

datatype conversation_error =
    CNotFound
  | CBusy response_id
  | CCapacityExceeded
  | CStore store_error

definition conv_guard_available :: "mem_store \<Rightarrow> conversation_error + unit" where
  "conv_guard_available s = (if st_unavailable s then Inl (CStore Unavailable) else Inr ())"

definition conv_guard_writable :: "mem_store \<Rightarrow> conversation_error + unit" where
  "conv_guard_writable s =
    (case conv_guard_available s of
       Inl e \<Rightarrow> Inl e
     | Inr _ \<Rightarrow> if st_read_only s then Inl (CStore ReadOnly) else Inr ())"

definition owned :: "mem_store \<Rightarrow> tenant_id \<Rightarrow> conversation_id \<Rightarrow> conversation option" where
  "owned s tenant cid =
    (case map_of (st_conversations s) cid of
       Some c \<Rightarrow> if cv_tenant_id c = tenant then Some c else None
     | None \<Rightarrow> None)"

definition ensure_event_capacity :: "mem_store \<Rightarrow> conversation_id \<Rightarrow> conversation_error + unit" where
  "ensure_event_capacity s cid =
    (let next = (case map_of (st_conversation_events s) cid of Some st \<Rightarrow> cs_next_seq st | None \<Rightarrow> 0) in
     if next \<ge> st_max_events_per_conversation s then Inl CCapacityExceeded else Inr ())"

section \<open>Repository\<close>

definition conv_create ::
  "conversation \<Rightarrow> mem_store \<Rightarrow> (conversation_error + conversation) \<times> mem_store" where
  "conv_create c s =
    (case conv_guard_writable s of
       Inl e \<Rightarrow> (Inl e, s)
     | Inr _ \<Rightarrow>
       if length (st_conversations s) \<ge> st_max_conversations s then (Inl CCapacityExceeded, s)
       else (Inr c, insert_conversation c s))"

definition conv_get ::
  "tenant_id \<Rightarrow> conversation_id \<Rightarrow> mem_store \<Rightarrow> conversation_error + conversation option" where
  "conv_get tenant cid s =
    (case conv_guard_available s of Inl e \<Rightarrow> Inl e | Inr _ \<Rightarrow> Inr (owned s tenant cid))"

definition conv_update_metadata ::
  "tenant_id \<Rightarrow> conversation_id \<Rightarrow> metadata \<Rightarrow> mem_store
    \<Rightarrow> (conversation_error + conversation) \<times> mem_store" where
  "conv_update_metadata tenant cid m s =
    (case conv_guard_writable s of
       Inl e \<Rightarrow> (Inl e, s)
     | Inr _ \<Rightarrow>
       (case owned s tenant cid of
          None \<Rightarrow> (Inl CNotFound, s)
        | Some c \<Rightarrow>
          (let c' = c\<lparr>cv_metadata := m\<rparr> in (Inr c', insert_conversation c' s))))"

definition conv_delete ::
  "tenant_id \<Rightarrow> conversation_id \<Rightarrow> mem_store \<Rightarrow> (conversation_error + bool) \<times> mem_store" where
  "conv_delete tenant cid s =
    (case conv_guard_writable s of
       Inl e \<Rightarrow> (Inl e, s)
     | Inr _ \<Rightarrow>
       if owned s tenant cid = None then (Inr False, s)
       else (case remove_conversation cid s of (removed, s') \<Rightarrow> (Inr (removed \<noteq> None), s')))"

fun remove_conversations :: "conversation_id list \<Rightarrow> mem_store \<Rightarrow> nat \<times> mem_store" where
  "remove_conversations [] s = (0, s)"
| "remove_conversations (cid # rest) s =
    (case remove_conversation cid s of (removed, s1) \<Rightarrow>
      (case remove_conversations rest s1 of (n, s2) \<Rightarrow> ((if removed \<noteq> None then Suc n else n), s2)))"

definition conv_delete_by_tenant ::
  "tenant_id \<Rightarrow> mem_store \<Rightarrow> (conversation_error + nat) \<times> mem_store" where
  "conv_delete_by_tenant tenant s =
    (case conv_guard_writable s of
       Inl e \<Rightarrow> (Inl e, s)
     | Inr _ \<Rightarrow>
       (case remove_conversations (index_get (st_conversations_by_tenant s) tenant) s of
          (n, s') \<Rightarrow> (Inr n, s')))"

definition conv_list :: "tenant_id \<Rightarrow> mem_store \<Rightarrow> conversation_error + conversation list" where
  "conv_list tenant s =
    (case conv_guard_available s of
       Inl e \<Rightarrow> Inl e
     | Inr _ \<Rightarrow>
       Inr (sort_key (\<lambda>c. - int (cv_created_at_ms c))
         (List.map_filter (\<lambda>cid. map_of (st_conversations s) cid)
           (index_get (st_conversations_by_tenant s) tenant))))"

definition conv_health :: "mem_store \<Rightarrow> conversation_error + unit" where
  "conv_health s = conv_guard_available s"

section \<open>Snapshot\<close>

definition snapshot_of :: "mem_store \<Rightarrow> conversation_id \<Rightarrow> snapshot" where
  "snapshot_of s cid = (case map_of (st_snapshots s) cid of Some sn \<Rightarrow> sn | None \<Rightarrow> Snapshot_default)"

definition read_snapshot ::
  "tenant_id \<Rightarrow> conversation_id \<Rightarrow> mem_store \<Rightarrow> conversation_error + resolved_context" where
  "read_snapshot tenant cid s =
    (case conv_guard_available s of
       Inl e \<Rightarrow> Inl e
     | Inr _ \<Rightarrow>
       (case owned s tenant cid of
          None \<Rightarrow> Inl CNotFound
        | Some _ \<Rightarrow>
          Inr (ResolvedContext_new (sn_entries (snapshot_of s cid)) (sn_turn_count (snapshot_of s cid)))))"

text \<open>The reasoning of a turn goes to the entry of its first output item.\<close>

fun output_entries :: "string option \<Rightarrow> response_item list \<Rightarrow> context_entry list" where
  "output_entries reasoning [] = []"
| "output_entries reasoning (item # items) =
    ContextEntry_with_reasoning item reasoning # output_entries None items"

definition turn_entries :: "turn_commit \<Rightarrow> context_entry list" where
  "turn_entries c = map ContextEntry_new (tc_input_items c) @ output_entries (tc_reasoning c) (tc_output_items c)"

definition append_turn ::
  "tenant_id \<Rightarrow> conversation_id \<Rightarrow> response_id \<Rightarrow> turn_commit \<Rightarrow> mem_store
    \<Rightarrow> (conversation_error + nat) \<times> mem_store" where
  "append_turn tenant cid rid commit s =
    (case conv_guard_writable s of
       Inl e \<Rightarrow> (Inl e, s)
     | Inr _ \<Rightarrow>
       (case owned s tenant cid of
          None \<Rightarrow> (Inl CNotFound, s)
        | Some _ \<Rightarrow>
          (let sn = snapshot_of s cid;
               s1 = s\<lparr>st_snapshots := AList.update cid sn (st_snapshots s)\<rparr> in
           case map_of (sn_appended sn) rid of
             Some index \<Rightarrow> (Inr index, s1)
           | None \<Rightarrow>
             (Inr (sn_turn_count sn),
              s\<lparr>st_snapshots := AList.update cid
                (sn\<lparr>sn_entries := sn_entries sn @ turn_entries commit,
                    sn_turn_count := sn_turn_count sn + 1,
                    sn_appended := AList.update rid (sn_turn_count sn) (sn_appended sn)\<rparr>)
                (st_snapshots s)\<rparr>))))"

definition conv_advance ::
  "tenant_id \<Rightarrow> conversation_id \<Rightarrow> response_id \<Rightarrow> mem_store \<Rightarrow> (conversation_error + unit) \<times> mem_store" where
  "conv_advance tenant cid last_id s =
    (case conv_guard_writable s of
       Inl e \<Rightarrow> (Inl e, s)
     | Inr _ \<Rightarrow>
       (case owned s tenant cid of
          None \<Rightarrow> (Inl CNotFound, s)
        | Some c \<Rightarrow> (Inr (), insert_conversation (c\<lparr>cv_last_response_id := Some last_id\<rparr>) s)))"

section \<open>Turn lock\<close>

definition acquire_active ::
  "tenant_id \<Rightarrow> conversation_id \<Rightarrow> response_id \<Rightarrow> nat \<Rightarrow> mem_store
    \<Rightarrow> (conversation_error + nat) \<times> mem_store" where
  "acquire_active tenant cid rid now_ms s =
    (case conv_guard_writable s of
       Inl e \<Rightarrow> (Inl e, s)
     | Inr _ \<Rightarrow>
       (case owned s tenant cid of
          None \<Rightarrow> (Inl CNotFound, s)
        | Some c \<Rightarrow>
          (case cv_active_response_id c of
             None \<Rightarrow>
               (case ensure_event_capacity s cid of
                  Inl e \<Rightarrow> (Inl e, s)
                | Inr _ \<Rightarrow>
                  (case push_conversation_event cid (TurnStarted rid) now_ms
                          (insert_conversation (c\<lparr>cv_active_response_id := Some rid\<rparr>) s) of
                     (seq, s1) \<Rightarrow>
                       (Inr seq, put_stream cid ((stream_of s1 cid)\<lparr>cs_lock_seq := Some seq\<rparr>) s1)))
           | Some holder \<Rightarrow>
             if holder = rid
             then (Inr (case cs_lock_seq (stream_of s cid) of Some q \<Rightarrow> q | None \<Rightarrow> 0), s)
             else (Inl (CBusy holder), s))))"

definition release_marker ::
  "conversation_id \<Rightarrow> conversation \<Rightarrow> response_id \<Rightarrow> response_status \<Rightarrow> nat \<Rightarrow> mem_store
    \<Rightarrow> (conversation_error + nat) \<times> mem_store" where
  "release_marker cid c rid status now_ms s =
    (case ensure_event_capacity s cid of
       Inl e \<Rightarrow> (Inl e, s)
     | Inr _ \<Rightarrow>
       (case push_conversation_event cid (TurnCompleted rid status) now_ms
               (insert_conversation (c\<lparr>cv_active_response_id := None\<rparr>) s) of
          (seq, s1) \<Rightarrow>
            (Inr seq, put_stream cid ((stream_of s1 cid)\<lparr>cs_last_completed := Some (rid, seq)\<rparr>) s1)))"

definition release_active ::
  "tenant_id \<Rightarrow> conversation_id \<Rightarrow> response_id \<Rightarrow> response_status \<Rightarrow> nat \<Rightarrow> mem_store
    \<Rightarrow> (conversation_error + nat) \<times> mem_store" where
  "release_active tenant cid rid status now_ms s =
    (case conv_guard_writable s of
       Inl e \<Rightarrow> (Inl e, s)
     | Inr _ \<Rightarrow>
       (case owned s tenant cid of
          None \<Rightarrow> (Inr 0, s)
        | Some c \<Rightarrow>
          if cv_active_response_id c \<noteq> Some rid then (Inr 0, s)
          else
            (case cs_last_completed (stream_of s cid) of
               Some (last_id, seq) \<Rightarrow>
                 if last_id = rid then (Inr seq, s) else release_marker cid c rid status now_ms s
             | None \<Rightarrow> release_marker cid c rid status now_ms s)))"

definition release_stale_active ::
  "tenant_id \<Rightarrow> conversation_id \<Rightarrow> response_id \<Rightarrow> mem_store \<Rightarrow> (conversation_error + bool) \<times> mem_store" where
  "release_stale_active tenant cid holder s =
    (case conv_guard_writable s of
       Inl e \<Rightarrow> (Inl e, s)
     | Inr _ \<Rightarrow>
       (case owned s tenant cid of
          None \<Rightarrow> (Inr False, s)
        | Some c \<Rightarrow>
          if cv_active_response_id c \<noteq> Some holder then (Inr False, s)
          else (Inr True, insert_conversation (c\<lparr>cv_active_response_id := None\<rparr>) s)))"

section \<open>Event stream\<close>

definition conv_append_event ::
  "tenant_id \<Rightarrow> conversation_id \<Rightarrow> conversation_event_kind \<Rightarrow> nat \<Rightarrow> mem_store
    \<Rightarrow> (conversation_error + nat) \<times> mem_store" where
  "conv_append_event tenant cid kind now_ms s =
    (case conv_guard_writable s of
       Inl e \<Rightarrow> (Inl e, s)
     | Inr _ \<Rightarrow>
       (case owned s tenant cid of
          None \<Rightarrow> (Inl CNotFound, s)
        | Some _ \<Rightarrow>
          (case ensure_event_capacity s cid of
             Inl e \<Rightarrow> (Inl e, s)
           | Inr _ \<Rightarrow> (case push_conversation_event cid kind now_ms s of (seq, s1) \<Rightarrow> (Inr seq, s1)))))"

text \<open>\<open>(s + 1) as usize\<close>: unlike the response log, this addition wraps.\<close>

definition conv_read_start :: "nat option \<Rightarrow> nat" where
  "conv_read_start after = (case after of None \<Rightarrow> 0 | Some a \<Rightarrow> (a + 1) mod 2 ^ 64)"

definition stream_read :: "conversation_event_stream \<Rightarrow> nat option \<Rightarrow> nat \<Rightarrow> conversation_event list" where
  "stream_read st after limit = take limit (drop (conv_read_start after) (cs_events st))"

definition conv_read_after ::
  "tenant_id \<Rightarrow> conversation_id \<Rightarrow> nat option \<Rightarrow> nat \<Rightarrow> mem_store
    \<Rightarrow> conversation_error + conversation_event list" where
  "conv_read_after tenant cid after limit s =
    (case conv_guard_available s of
       Inl e \<Rightarrow> Inl e
     | Inr _ \<Rightarrow>
       (case owned s tenant cid of
          None \<Rightarrow> Inl CNotFound
        | Some _ \<Rightarrow>
          (case map_of (st_conversation_events s) cid of
             None \<Rightarrow> Inr []
           | Some st \<Rightarrow> Inr (stream_read st after limit))))"

text \<open>
  The waiting form: availability is checked once, then the store is polled at each wake-up, the
  last poll at the deadline.
\<close>

fun conv_poll ::
  "tenant_id \<Rightarrow> conversation_id \<Rightarrow> nat option \<Rightarrow> nat \<Rightarrow> mem_store list
    \<Rightarrow> conversation_error + conversation_event list" where
  "conv_poll tenant cid after limit [] = Inr []"
| "conv_poll tenant cid after limit (s # ss) =
    (case owned s tenant cid of
       None \<Rightarrow> Inl CNotFound
     | Some _ \<Rightarrow>
       (let batch = (case map_of (st_conversation_events s) cid of
                       None \<Rightarrow> [] | Some st \<Rightarrow> stream_read st after limit) in
        if batch \<noteq> [] then Inr batch else conv_poll tenant cid after limit ss))"

definition conv_read_waiting ::
  "tenant_id \<Rightarrow> conversation_id \<Rightarrow> nat option \<Rightarrow> nat \<Rightarrow> mem_store list
    \<Rightarrow> conversation_error + conversation_event list" where
  "conv_read_waiting tenant cid after limit ss =
    (case ss of
       [] \<Rightarrow> Inr []
     | s # _ \<Rightarrow>
       (case conv_guard_available s of Inl e \<Rightarrow> Inl e | Inr _ \<Rightarrow> conv_poll tenant cid after limit ss))"

section \<open>Invariant\<close>

text \<open>
  A stream is numbered from 0 without gaps.  \<open>open_turn\<close> is the turn whose start is not matched by a
  later boundary event.  While the marker is set, the stream shows that very turn as open and
  \<open>cs_lock_seq\<close> points at its start, so that "busy" can be read off the stream.
\<close>

definition stream_ok :: "conversation_id \<Rightarrow> conversation_event_stream \<Rightarrow> bool" where
  "stream_ok cid st \<longleftrightarrow> cs_next_seq st = length (cs_events st) \<and>
    (\<forall>i < length (cs_events st). cev_seq (cs_events st ! i) = i \<and> cev_conversation_id (cs_events st ! i) = cid)"

definition turn_after :: "response_id option \<Rightarrow> conversation_event \<Rightarrow> response_id option" where
  "turn_after t e = (case cev_kind e of TurnStarted r \<Rightarrow> Some r | TurnCompleted r _ \<Rightarrow> None | _ \<Rightarrow> t)"

definition open_turn :: "conversation_event list \<Rightarrow> response_id option" where
  "open_turn es = foldl turn_after None es"

definition marker_ok :: "conversation \<Rightarrow> conversation_event_stream \<Rightarrow> bool" where
  "marker_ok c st \<longleftrightarrow> (\<forall>r. cv_active_response_id c = Some r \<longrightarrow>
    open_turn (cs_events st) = Some r \<and>
    (\<exists>q. cs_lock_seq st = Some q \<and> q < length (cs_events st) \<and> cev_kind (cs_events st ! q) = TurnStarted r))"

definition snapshot_ok :: "snapshot \<Rightarrow> bool" where
  "snapshot_ok sn \<longleftrightarrow> keys_distinct (sn_appended sn) \<and> map snd (sn_appended sn) = [0..<sn_turn_count sn]"

definition conv_ok :: "mem_store \<Rightarrow> conversation_id \<Rightarrow> bool" where
  "conv_ok s cid =
    (case map_of (st_conversations s) cid of
       None \<Rightarrow> map_of (st_conversation_events s) cid = None \<and> map_of (st_snapshots s) cid = None
     | Some c \<Rightarrow> stream_ok cid (stream_of s cid) \<and> snapshot_ok (snapshot_of s cid) \<and>
         marker_ok c (stream_of s cid))"

definition conv_wf :: "mem_store \<Rightarrow> bool" where
  "conv_wf s \<longleftrightarrow> conversations_wf s \<and> (\<forall>cid. conv_ok s cid)"

lemma conv_wfD: "conv_wf s \<Longrightarrow> conversations_wf s" "conv_wf s \<Longrightarrow> conv_ok s cid"
  by (simp_all add: conv_wf_def)

lemma conv_ok_cong:
  assumes "map_of (st_conversations s') cid = map_of (st_conversations s) cid"
    and "map_of (st_conversation_events s') cid = map_of (st_conversation_events s) cid"
    and "map_of (st_snapshots s') cid = map_of (st_snapshots s) cid"
  shows "conv_ok s' cid = conv_ok s cid"
  using assms by (simp add: conv_ok_def stream_of_def snapshot_of_def split: option.split)

lemma conv_wf_cong:
  assumes "st_conversations s' = st_conversations s"
    and "st_conversations_by_tenant s' = st_conversations_by_tenant s"
    and "st_conversation_events s' = st_conversation_events s" "st_snapshots s' = st_snapshots s"
  shows "conv_wf s' = conv_wf s"
proof -
  have "conv_ok s' cid = conv_ok s cid" for cid by (rule conv_ok_cong) (simp_all add: assms)
  then show ?thesis by (simp add: conv_wf_def conversations_wf_def assms)
qed

text \<open>An operation that touches one conversation has to be checked on that one only.\<close>

lemma conv_wf_local:
  assumes "conv_wf s" "conversations_wf s'" "conv_ok s' cid"
    and "\<And>k. k \<noteq> cid \<Longrightarrow> map_of (st_conversations s') k = map_of (st_conversations s) k \<and>
      map_of (st_conversation_events s') k = map_of (st_conversation_events s) k \<and>
      map_of (st_snapshots s') k = map_of (st_snapshots s) k"
  shows "conv_wf s'"
proof -
  have "conv_ok s' k" for k
    using assms conv_ok_cong[of s' k s] conv_wfD(2)[OF assms(1), of k] by (cases "k = cid") auto
  then show ?thesis using assms(2) by (simp add: conv_wf_def)
qed

lemma conv_wf_new [simp]: "conv_wf MemStore_new"
  by (simp add: conv_wf_def conv_ok_def) (simp add: MemStore_new_def)

lemma conv_wf_frame [simp]:
  "conv_wf (s\<lparr>st_records := x\<rparr>) = conv_wf s" "conv_wf (s\<lparr>st_by_tenant := ti\<rparr>) = conv_wf s"
  "conv_wf (s\<lparr>st_expiry := ex\<rparr>) = conv_wf s" "conv_wf (s\<lparr>st_queued := q\<rparr>) = conv_wf s"
  "conv_wf (s\<lparr>st_idem := i\<rparr>) = conv_wf s" "conv_wf (s\<lparr>st_heartbeats := h\<rparr>) = conv_wf s"
  "conv_wf (s\<lparr>st_partial_usage := p\<rparr>) = conv_wf s" "conv_wf (s\<lparr>st_read_only := b\<rparr>) = conv_wf s"
  "conv_wf (s\<lparr>st_unavailable := b\<rparr>) = conv_wf s" "conv_wf (s\<lparr>st_pending_limit := n\<rparr>) = conv_wf s"
  "conv_wf (s\<lparr>st_max_records := n\<rparr>) = conv_wf s" "conv_wf (s\<lparr>st_max_conversations := n\<rparr>) = conv_wf s"
  "conv_wf (s\<lparr>st_max_events_per_conversation := n\<rparr>) = conv_wf s"
  by (rule conv_wf_cong; simp)+

lemma owned_Some_iff:
  "owned s tenant cid = Some c \<longleftrightarrow> map_of (st_conversations s) cid = Some c \<and> cv_tenant_id c = tenant"
  by (auto simp: owned_def split: option.splits)

lemma conversations_wf_id: "conversations_wf s \<Longrightarrow> map_of (st_conversations s) cid = Some c \<Longrightarrow> cv_id c = cid"
  unfolding conversations_wf_def by blast

lemma defaults_ok [simp]: "stream_ok cid Stream_default" "snapshot_ok Snapshot_default"
  by (simp_all add: stream_ok_def Stream_default_def snapshot_ok_def Snapshot_default_def)

lemma conv_insert_fields [simp]:
  "map_of (st_conversations (insert_conversation c s)) = (map_of (st_conversations s))(cv_id c \<mapsto> c)"
  "st_conversation_events (insert_conversation c s) = st_conversation_events s"
  "st_snapshots (insert_conversation c s) = st_snapshots s"
  "stream_of (insert_conversation c s) = stream_of s"
  "snapshot_of (insert_conversation c s) = snapshot_of s"
  by (simp_all add: insert_conversation_def stream_of_def snapshot_of_def fun_eq_iff)

lemma put_stream_fields [simp]:
  "st_conversations (put_stream cid st s) = st_conversations s"
  "st_conversations_by_tenant (put_stream cid st s) = st_conversations_by_tenant s"
  "map_of (st_conversation_events (put_stream cid st s)) = (map_of (st_conversation_events s))(cid \<mapsto> st)"
  "st_snapshots (put_stream cid st s) = st_snapshots s"
  "stream_of (put_stream cid st s) cid = st"
  "snapshot_of (put_stream cid st s) = snapshot_of s"
  "conversations_wf (put_stream cid st s) = conversations_wf s"
  by (simp_all add: put_stream_def stream_of_def snapshot_of_def conversations_wf_def fun_eq_iff)

text \<open>A stream with one more event.\<close>

definition stream_push ::
  "conversation_id \<Rightarrow> conversation_event_kind \<Rightarrow> nat \<Rightarrow> conversation_event_stream \<Rightarrow> conversation_event_stream" where
  "stream_push cid kind now_ms st = st\<lparr>cs_next_seq := cs_next_seq st + 1,
    cs_events := cs_events st @ [\<lparr>cev_conversation_id = cid, cev_seq = cs_next_seq st, cev_kind = kind,
      cev_ts_ms = now_ms\<rparr>]\<rparr>"

lemma push_conversation_event_eq:
  "push_conversation_event cid kind now_ms s =
    (cs_next_seq (stream_of s cid), put_stream cid (stream_push cid kind now_ms (stream_of s cid)) s)"
  by (simp add: push_conversation_event_def stream_push_def Let_def)

lemma stream_push_ok: "stream_ok cid st \<Longrightarrow> stream_ok cid (stream_push cid kind now_ms st)"
  by (auto simp: stream_ok_def stream_push_def nth_append less_Suc_eq)

lemma stream_ok_update [simp]:
  "stream_ok cid (st\<lparr>cs_lock_seq := x\<rparr>) = stream_ok cid st"
  "stream_ok cid (st\<lparr>cs_last_completed := y\<rparr>) = stream_ok cid st"
  by (simp_all add: stream_ok_def)

lemma open_turn_push:
  "open_turn (cs_events (stream_push cid kind now_ms st)) =
    (case kind of TurnStarted r \<Rightarrow> Some r | TurnCompleted r _ \<Rightarrow> None | _ \<Rightarrow> open_turn (cs_events st))"
  by (simp add: stream_push_def open_turn_def turn_after_def split: conversation_event_kind.split)

lemma marker_ok_push:
  assumes "marker_ok c st" "\<And>r. kind \<noteq> TurnStarted r" "\<And>r x. kind \<noteq> TurnCompleted r x"
  shows "marker_ok c (stream_push cid kind now_ms st)"
proof -
  have "open_turn (cs_events (stream_push cid kind now_ms st)) = open_turn (cs_events st)"
    using assms(2,3) by (cases kind) (auto simp: open_turn_push)
  moreover have "cs_lock_seq (stream_push cid kind now_ms st) = cs_lock_seq st"
    "length (cs_events (stream_push cid kind now_ms st)) = Suc (length (cs_events st))"
    "\<And>i. i < length (cs_events st) \<Longrightarrow> cs_events (stream_push cid kind now_ms st) ! i = cs_events st ! i"
    by (simp_all add: stream_push_def nth_append)
  ultimately show ?thesis using assms(1) by (auto simp: marker_ok_def)
qed

subsection \<open>Every operation keeps it\<close>

text \<open>Replacing a conversation by one with the same id and owner, and possibly its stream.\<close>

lemma conv_wf_replace:
  assumes wf: "conv_wf s" and c: "map_of (st_conversations s) cid = Some c"
    and c': "cv_id c' = cv_id c" "cv_tenant_id c' = cv_tenant_id c" and m: "marker_ok c' (stream_of s cid)"
  shows "conv_wf (insert_conversation c' s)"
proof (rule conv_wf_local[OF wf, of _ cid])
  have id: "cv_id c' = cid" using conversations_wf_id[OF conv_wfD(1)[OF wf] c] c'(1) by simp
  show "conversations_wf (insert_conversation c' s)"
    by (rule conversations_wf_insert[OF conv_wfD(1)[OF wf]]) (use c c' id in auto)
  show "conv_ok (insert_conversation c' s) cid"
    using conv_wfD(2)[OF wf, of cid] c m id by (simp add: conv_ok_def)
  show "\<And>k. k \<noteq> cid \<Longrightarrow> map_of (st_conversations (insert_conversation c' s)) k = map_of (st_conversations s) k \<and>
      map_of (st_conversation_events (insert_conversation c' s)) k = map_of (st_conversation_events s) k \<and>
      map_of (st_snapshots (insert_conversation c' s)) k = map_of (st_snapshots s) k"
    using id by simp
qed

lemma conv_wf_put_stream:
  assumes wf: "conv_wf s" and c: "map_of (st_conversations s) cid = Some c"
    and st: "stream_ok cid st" "marker_ok c st"
  shows "conv_wf (put_stream cid st s)"
  by (rule conv_wf_local[OF wf, of _ cid])
    (use conv_wfD(1)[OF wf] conv_wfD(2)[OF wf, of cid] c st in \<open>auto simp: conv_ok_def\<close>)

lemma conv_create_wf [wf_intro]:
  assumes wf: "conv_wf s" and fresh: "map_of (st_conversations s) (cv_id c) = None"
    and idle: "cv_active_response_id c = None"
  shows "conv_wf (snd (conv_create c s))"
proof -
  have "conv_wf (insert_conversation c s)"
  proof (rule conv_wf_local[OF wf, of _ "cv_id c"])
    show "conversations_wf (insert_conversation c s)"
      by (rule conversations_wf_insert[OF conv_wfD(1)[OF wf]]) (use fresh in auto)
    show "conv_ok (insert_conversation c s) (cv_id c)"
      using conv_wfD(2)[OF wf, of "cv_id c"] fresh idle
      by (simp add: conv_ok_def marker_ok_def stream_of_def snapshot_of_def)
  qed simp
  then show ?thesis using wf by (simp add: conv_create_def split: sum.split)
qed

lemma marker_ok_same:
  "cv_active_response_id c' = cv_active_response_id c \<Longrightarrow> marker_ok c' st = marker_ok c st"
  by (simp add: marker_ok_def)

lemma conv_wf_marker: "conv_wf s \<Longrightarrow> map_of (st_conversations s) cid = Some c \<Longrightarrow> marker_ok c (stream_of s cid)"
  and conv_wf_stream: "conv_wf s \<Longrightarrow> map_of (st_conversations s) cid = Some c \<Longrightarrow> stream_ok cid (stream_of s cid)"
  and conv_wf_snapshot: "conv_wf s \<Longrightarrow> map_of (st_conversations s) cid = Some c \<Longrightarrow> snapshot_ok (snapshot_of s cid)"
  using conv_wfD(2)[of s cid] by (simp_all add: conv_ok_def)

lemma conv_update_metadata_wf [wf_intro]:
  assumes wf: "conv_wf s"
  shows "conv_wf (snd (conv_update_metadata tenant cid m s))"
proof -
  have "conv_wf (insert_conversation (c\<lparr>cv_metadata := m\<rparr>) s)" if "map_of (st_conversations s) cid = Some c" for c
    by (rule conv_wf_replace[OF wf that])
      (use conv_wf_marker[OF wf that] in \<open>simp_all add: marker_ok_def\<close>)
  then show ?thesis
    using wf by (auto simp: conv_update_metadata_def owned_Some_iff Let_def split: sum.split option.split)
qed

lemma conv_advance_wf [wf_intro]:
  assumes wf: "conv_wf s"
  shows "conv_wf (snd (conv_advance tenant cid r s))"
proof -
  have "conv_wf (insert_conversation (c\<lparr>cv_last_response_id := Some r\<rparr>) s)" if "map_of (st_conversations s) cid = Some c" for c
    by (rule conv_wf_replace[OF wf that])
      (use conv_wf_marker[OF wf that] in \<open>simp_all add: marker_ok_def\<close>)
  then show ?thesis
    using wf by (auto simp: conv_advance_def owned_Some_iff split: sum.split option.split)
qed

lemma remove_conversation_wf:
  assumes wf: "conv_wf s"
  shows "conv_wf (snd (remove_conversation cid s))"
  by (rule conv_wf_local[OF wf, of _ cid])
    (use wf conv_wfD(2)[OF wf, of cid] conversations_wf_remove[OF conv_wfD(1)[OF wf], of cid]
      in \<open>auto simp: remove_conversation_def conv_ok_def split: option.split\<close>)

lemma conv_delete_wf [wf_intro]: "conv_wf s \<Longrightarrow> conv_wf (snd (conv_delete tenant cid s))"
  using remove_conversation_wf[of s cid] by (simp add: conv_delete_def case_prod_unfold split: sum.split)

lemma remove_conversations_wf: "conv_wf s \<Longrightarrow> conv_wf (snd (remove_conversations ids s))"
proof (induction ids arbitrary: s)
  case (Cons cid rest)
  show ?case
    using Cons.IH[OF remove_conversation_wf[OF Cons.prems, of cid]] by (simp add: case_prod_unfold)
qed simp

lemma conv_delete_by_tenant_wf [wf_intro]: "conv_wf s \<Longrightarrow> conv_wf (snd (conv_delete_by_tenant tenant s))"
  using remove_conversations_wf[of s "index_get (st_conversations_by_tenant s) tenant"]
  by (simp add: conv_delete_by_tenant_def case_prod_unfold split: sum.split)

lemma snapshot_append_ok:
  assumes "snapshot_ok sn" "map_of (sn_appended sn) rid = None"
  shows "snapshot_ok (sn\<lparr>sn_entries := es, sn_turn_count := sn_turn_count sn + 1,
    sn_appended := AList.update rid (sn_turn_count sn) (sn_appended sn)\<rparr>)"
proof -
  have "AList.update rid n t = t @ [(rid, n)]" if "map_of t rid = None" for n and t :: "(response_id, nat) table"
    using that by (induction t) (auto split: if_splits)
  then show ?thesis
    using assms by (auto simp: snapshot_ok_def keys_distinct_def map_of_eq_None_iff)
qed

lemma append_turn_wf [wf_intro]:
  assumes wf: "conv_wf s"
  shows "conv_wf (snd (append_turn tenant cid rid commit s))"
proof -
  have put: "conv_wf (s\<lparr>st_snapshots := AList.update cid sn (st_snapshots s)\<rparr>)"
    if "map_of (st_conversations s) cid = Some c" "snapshot_ok sn" for c sn
  proof (rule conv_wf_local[OF wf, of _ cid])
    show "conversations_wf (s\<lparr>st_snapshots := AList.update cid sn (st_snapshots s)\<rparr>)"
      using conv_wfD(1)[OF wf] by (simp add: conversations_wf_def)
    show "conv_ok (s\<lparr>st_snapshots := AList.update cid sn (st_snapshots s)\<rparr>) cid"
      using conv_wfD(2)[OF wf, of cid] that by (simp add: conv_ok_def stream_of_def snapshot_of_def)
  qed simp
  show ?thesis
    using wf conv_wf_snapshot[OF wf] put snapshot_append_ok
    by (auto simp: append_turn_def owned_Some_iff Let_def split: sum.split option.split)
qed

lemma acquire_active_wf [wf_intro]:
  assumes wf: "conv_wf s"
  shows "conv_wf (snd (acquire_active tenant cid rid now_ms s))"
proof -
  have "conv_wf (put_stream cid ((stream_push cid (TurnStarted rid) now_ms (stream_of s cid))\<lparr>cs_lock_seq := Some (cs_next_seq (stream_of s cid))\<rparr>)
      (put_stream cid st (insert_conversation (c\<lparr>cv_active_response_id := Some rid\<rparr>) s)))"
    if c: "map_of (st_conversations s) cid = Some c" for c st
  proof (rule conv_wf_local[OF wf, of _ cid])
    let ?c = "c\<lparr>cv_active_response_id := Some rid\<rparr>"
    let ?st = "(stream_push cid (TurnStarted rid) now_ms (stream_of s cid))\<lparr>cs_lock_seq := Some (cs_next_seq (stream_of s cid))\<rparr>"
    have id: "cv_id c = cid" by (rule conversations_wf_id[OF conv_wfD(1)[OF wf] c])
    have "conversations_wf (insert_conversation ?c s)"
      by (rule conversations_wf_insert[OF conv_wfD(1)[OF wf]]) (use c id in auto)
    then show "conversations_wf (put_stream cid ?st (put_stream cid st (insert_conversation ?c s)))" by simp
    have n: "cs_next_seq (stream_of s cid) = length (cs_events (stream_of s cid))"
      using conv_wf_stream[OF wf c] by (simp add: stream_ok_def)
    have m: "marker_ok ?c ?st"
      using n open_turn_push[of cid "TurnStarted rid" now_ms "stream_of s cid"]
      by (auto simp: marker_ok_def stream_push_def)
    show "conv_ok (put_stream cid ?st (put_stream cid st (insert_conversation ?c s))) cid"
      using conv_wf_stream[OF wf c] conv_wf_snapshot[OF wf c] m id
      by (simp add: conv_ok_def stream_push_ok)
    show "map_of (st_conversations (put_stream cid ?st (put_stream cid st (insert_conversation ?c s)))) k = map_of (st_conversations s) k \<and>
      map_of (st_conversation_events (put_stream cid ?st (put_stream cid st (insert_conversation ?c s)))) k = map_of (st_conversation_events s) k \<and>
      map_of (st_snapshots (put_stream cid ?st (put_stream cid st (insert_conversation ?c s)))) k = map_of (st_snapshots s) k"
      if "k \<noteq> cid" for k using that id by simp
  qed
  then show ?thesis
    using wf by (auto simp: acquire_active_def owned_Some_iff push_conversation_event_eq split: sum.split option.split)
qed

lemma release_marker_wf:
  assumes wf: "conv_wf s" and c: "map_of (st_conversations s) cid = Some c"
  shows "conv_wf (snd (release_marker cid c rid status now_ms s))"
proof -
  let ?c = "c\<lparr>cv_active_response_id := None\<rparr>"
  have 1: "conv_wf (insert_conversation ?c s)"
    by (rule conv_wf_replace[OF wf c]) (simp_all add: marker_ok_def)
  have id: "cv_id c = cid" by (rule conversations_wf_id[OF conv_wfD(1)[OF wf] c])
  have s1: "stream_ok cid st \<Longrightarrow> conv_wf (put_stream cid st (insert_conversation ?c s))" for st
    by (rule conv_wf_put_stream[OF 1, of cid ?c]) (use id in \<open>simp_all add: marker_ok_def\<close>)
  have ok: "stream_ok cid (stream_push cid (TurnCompleted rid status) now_ms (stream_of s cid))"
    by (rule stream_push_ok[OF conv_wf_stream[OF wf c]])
  have "conv_wf (put_stream cid ((stream_push cid (TurnCompleted rid status) now_ms (stream_of s cid))\<lparr>cs_last_completed := x\<rparr>)
      (put_stream cid (stream_push cid (TurnCompleted rid status) now_ms (stream_of s cid)) (insert_conversation ?c s)))" for x
    by (rule conv_wf_put_stream[OF s1[OF ok], of cid ?c]) (use id ok in \<open>simp_all add: marker_ok_def\<close>)
  then show ?thesis using wf by (simp add: release_marker_def push_conversation_event_eq split: sum.split)
qed

lemma release_active_wf [wf_intro]:
  assumes wf: "conv_wf s"
  shows "conv_wf (snd (release_active tenant cid rid status now_ms s))"
  using wf release_marker_wf[OF wf]
  by (auto simp: release_active_def owned_Some_iff split: sum.split option.split)

lemma release_stale_active_wf [wf_intro]:
  assumes wf: "conv_wf s"
  shows "conv_wf (snd (release_stale_active tenant cid holder s))"
proof -
  have "conv_wf (insert_conversation (c\<lparr>cv_active_response_id := None\<rparr>) s)"
    if "map_of (st_conversations s) cid = Some c" for c
    by (rule conv_wf_replace[OF wf that]) (simp_all add: marker_ok_def)
  then show ?thesis
    using wf by (auto simp: release_stale_active_def owned_Some_iff split: sum.split option.split)
qed

text \<open>Turn boundaries are pushed by the lock alone; everybody else appends other kinds.\<close>

lemma conv_append_event_wf [wf_intro]:
  assumes wf: "conv_wf s" and k: "\<And>r. kind \<noteq> TurnStarted r" "\<And>r x. kind \<noteq> TurnCompleted r x"
  shows "conv_wf (snd (conv_append_event tenant cid kind now_ms s))"
proof -
  have "conv_wf (put_stream cid (stream_push cid kind now_ms (stream_of s cid)) s)"
    if c: "map_of (st_conversations s) cid = Some c" for c
    by (rule conv_wf_put_stream[OF wf c stream_push_ok[OF conv_wf_stream[OF wf c]]
        marker_ok_push[OF conv_wf_marker[OF wf c] k]])
  then show ?thesis
    using wf by (auto simp: conv_append_event_def owned_Some_iff push_conversation_event_eq split: sum.split option.split)
qed

section \<open>The turn lock as an interface\<close>

text \<open>
  What a client of the lock relies on: a granted claim makes the claimant the holder and was
  possible only when the lock was free or already his; whoever holds keeps holding until an
  operation that frees exactly this claim.  From that, exclusion over any run follows.
\<close>

locale turn_lock_laws =
  fixes holder :: "'s \<Rightarrow> 'c \<Rightarrow> 'r option"
    and step :: "'op \<Rightarrow> 's \<Rightarrow> bool \<times> 's"
    and claims :: "'op \<Rightarrow> ('c \<times> 'r) option"
    and frees :: "'op \<Rightarrow> ('c \<times> 'r) option"
    and wf :: "'s \<Rightarrow> bool"
  assumes granted: "wf s \<Longrightarrow> claims op = Some (c, r) \<Longrightarrow> fst (step op s) \<Longrightarrow>
      holder (snd (step op s)) c = Some r \<and> (holder s c = None \<or> holder s c = Some r)"
    and keeps: "wf s \<Longrightarrow> holder s c = Some r \<Longrightarrow> frees op \<noteq> Some (c, r) \<Longrightarrow> holder (snd (step op s)) c = Some r"
    and wf_step: "wf s \<Longrightarrow> wf (snd (step op s))"
begin

lemma held_over_run:
  assumes "wf s" "holder s c = Some r" "\<forall>op \<in> set ops. frees op \<noteq> Some (c, r)"
  shows "wf (fold (\<lambda>op s. snd (step op s)) ops s) \<and> holder (fold (\<lambda>op s. snd (step op s)) ops s) c = Some r"
  using assms by (induction ops arbitrary: s) (auto simp: keeps wf_step)

lemma exclusion:
  assumes "wf s" "holder s c = Some r" "\<forall>op \<in> set ops. frees op \<noteq> Some (c, r)"
    and "claims op' = Some (c, r')" "fst (step op' (fold (\<lambda>op s. snd (step op s)) ops s))"
  shows "r' = r"
  using held_over_run[OF assms(1-3)] granted[of "fold (\<lambda>op s. snd (step op s)) ops s" op' c r'] assms(4,5)
  by auto

end

datatype lock_op =
    OpAcquire tenant_id conversation_id response_id nat
  | OpRelease tenant_id conversation_id response_id response_status nat
  | OpReleaseStale tenant_id conversation_id response_id

definition conv_holder :: "mem_store \<Rightarrow> conversation_id \<Rightarrow> response_id option" where
  "conv_holder s cid = Option.bind (map_of (st_conversations s) cid) cv_active_response_id"

fun lock_step :: "lock_op \<Rightarrow> mem_store \<Rightarrow> bool \<times> mem_store" where
  "lock_step (OpAcquire t c r now) s = (case acquire_active t c r now s of (res, s') \<Rightarrow> (\<not> isl res, s'))"
| "lock_step (OpRelease t c r st now) s = (case release_active t c r st now s of (res, s') \<Rightarrow> (\<not> isl res, s'))"
| "lock_step (OpReleaseStale t c r) s = (case release_stale_active t c r s of (res, s') \<Rightarrow> (\<not> isl res, s'))"

fun op_claims :: "lock_op \<Rightarrow> (conversation_id \<times> response_id) option" where
  "op_claims (OpAcquire t c r now) = Some (c, r)"
| "op_claims _ = None"

fun op_frees :: "lock_op \<Rightarrow> (conversation_id \<times> response_id) option" where
  "op_frees (OpAcquire t c r now) = None"
| "op_frees (OpRelease t c r st now) = Some (c, r)"
| "op_frees (OpReleaseStale t c r) = Some (c, r)"

text \<open>What each lock operation does to the holder of any conversation.\<close>

lemma acquire_holder:
  assumes wf: "conv_wf s"
  shows "conv_holder (snd (acquire_active t cid rid now s)) k =
    (if \<not> isl (fst (acquire_active t cid rid now s)) \<and> k = cid then Some rid else conv_holder s k) \<and>
    (\<not> isl (fst (acquire_active t cid rid now s)) \<longrightarrow> conv_holder s cid = None \<or> conv_holder s cid = Some rid)"
proof (cases "owned s t cid")
  case None
  then show ?thesis by (simp add: acquire_active_def split: sum.split)
next
  case (Some c)
  then have c: "map_of (st_conversations s) cid = Some c" by (simp add: owned_Some_iff)
  have id: "cv_id c = cid" by (rule conversations_wf_id[OF conv_wfD(1)[OF wf] c])
  show ?thesis
    using Some c id
    by (cases "cv_active_response_id c")
      (auto simp: acquire_active_def conv_holder_def push_conversation_event_eq split: sum.split)
qed

lemma release_marker_holder:
  assumes "map_of (st_conversations s) cid = Some c" "cv_id c = cid" "cv_active_response_id c = Some rid"
  shows "conv_holder (snd (release_marker cid c rid status now s)) k =
    (if k = cid \<and> \<not> isl (fst (release_marker cid c rid status now s)) then None else conv_holder s k)"
  using assms by (simp add: release_marker_def conv_holder_def push_conversation_event_eq split: sum.split)

lemma release_holder:
  assumes wf: "conv_wf s" and h: "conv_holder s k = Some r" and ne: "(k, r) \<noteq> (cid, rid)"
  shows "conv_holder (snd (release_active t cid rid status now s)) k = Some r"
proof (cases "owned s t cid")
  case None
  then show ?thesis using h by (simp add: release_active_def split: sum.split)
next
  case (Some c)
  then have c: "map_of (st_conversations s) cid = Some c" by (simp add: owned_Some_iff)
  have id: "cv_id c = cid" by (rule conversations_wf_id[OF conv_wfD(1)[OF wf] c])
  have "conv_holder (snd (release_marker cid c rid status now s)) k = Some r"
    if "cv_active_response_id c = Some rid"
    using release_marker_holder[OF c id that, of status now k] h ne that c by (auto simp: conv_holder_def)
  then show ?thesis
    using h Some by (simp add: release_active_def split: sum.split option.split)
qed

lemma release_stale_holder:
  assumes wf: "conv_wf s" and h: "conv_holder s k = Some r" and ne: "(k, r) \<noteq> (cid, rid)"
  shows "conv_holder (snd (release_stale_active t cid rid s)) k = Some r"
proof (cases "owned s t cid")
  case None
  then show ?thesis using h by (simp add: release_stale_active_def split: sum.split)
next
  case (Some c)
  then have c: "map_of (st_conversations s) cid = Some c" by (simp add: owned_Some_iff)
  have id: "cv_id c = cid" by (rule conversations_wf_id[OF conv_wfD(1)[OF wf] c])
  show ?thesis
    using h ne c id Some by (auto simp: release_stale_active_def conv_holder_def split: sum.split)
qed

interpretation tlock: turn_lock_laws conv_holder lock_step op_claims op_frees conv_wf
proof
  fix s :: mem_store and op c r
  assume wf: "conv_wf s"
  show "conv_holder (snd (lock_step op s)) c = Some r \<and> (conv_holder s c = None \<or> conv_holder s c = Some r)"
    if "op_claims op = Some (c, r)" "fst (lock_step op s)"
    using that acquire_holder[OF wf] by (cases op) (auto simp: case_prod_unfold)
  show "conv_holder (snd (lock_step op s)) c = Some r"
    if "conv_holder s c = Some r" "op_frees op \<noteq> Some (c, r)"
  proof (cases op)
    case (OpAcquire t c' r' now)
    show ?thesis
      using acquire_holder[OF wf, of t c' r' now c] that(1) by (auto simp: OpAcquire case_prod_unfold)
  next
    case (OpRelease t c' r' st now)
    then show ?thesis
      using release_holder[OF wf that(1), of c' r' t st now] that(2) by (auto simp: case_prod_unfold)
  next
    case (OpReleaseStale t c' r')
    then show ?thesis
      using release_stale_holder[OF wf that(1), of c' r' t] that(2) by (auto simp: case_prod_unfold)
  qed
  show "conv_wf (snd (lock_step op s))"
    using wf by (cases op) (auto simp: case_prod_unfold intro: wf_intro)
qed

section \<open>The stream as a paged reader\<close>

definition stream_live :: "conversation_event_stream \<Rightarrow> bool" where
  "stream_live st \<longleftrightarrow> (\<exists>cid. stream_ok cid st) \<and> length (cs_events st) < u64_max"

interpretation cstream: paged_reader "\<lambda>st c n. Inr (stream_read st c n) :: conversation_error + conversation_event list"
  cev_seq cs_events "\<lambda>_. 0" stream_live
proof
  fix st c n i
  assume live: "stream_live st"
  show "Inr (stream_read st c n) = (Inr (take n (drop (read_target c - 0) (cs_events st))) :: conversation_error + _)"
    if "read_target c \<le> 0 + length (cs_events st)"
    using that live by (auto simp: stream_read_def conv_read_start_def read_target_def sat_add_def stream_live_def
        u64_max_def min_def split: option.splits if_splits)
  show "cev_seq (cs_events st ! i) = 0 + i" if "i < length (cs_events st)"
    using that live by (auto simp: stream_live_def stream_ok_def)
  show "0 + length (cs_events st) < u64_max" using live by (simp add: stream_live_def)
qed

section \<open>Correctness\<close>

text \<open>C9: One conversation runs one turn at a time.  From the moment a response holds the marker,
  and through any sequence of lock operations by anybody that does not release this very claim,
  it stays the holder, and every attempt of another response to start a turn is refused without
  changing anything.\<close>

theorem one_turn_at_a_time:
  assumes "conv_wf s" "conv_holder s cid = Some r"
    and "\<forall>op \<in> set ops. op_frees op \<noteq> Some (cid, r)"
    and "s' = fold (\<lambda>op s. snd (lock_step op s)) ops s" and "r' \<noteq> r"
  shows "conv_holder s' cid = Some r \<and> (\<exists>e. acquire_active t cid r' now s' = (Inl e, s'))"
proof
  have held: "conv_wf s'" "conv_holder s' cid = Some r"
    using tlock.held_over_run[OF assms(1-3)] assms(4) by auto
  then show "conv_holder s' cid = Some r" by simp
  have "\<not> fst (lock_step (OpAcquire t cid r' now) s')"
    using tlock.exclusion[OF assms(1-3), of "OpAcquire t cid r' now" r'] assms(4,5) by auto
  then have "isl (fst (acquire_active t cid r' now s'))" by (simp add: case_prod_unfold)
  then show "\<exists>e. acquire_active t cid r' now s' = (Inl e, s')"
    by (auto simp: acquire_active_def split: sum.splits option.splits if_splits prod.splits)
qed


text \<open>A release that succeeds for the holder frees the marker and records the end of the turn
  as the last event of the stream, unless the stream already ended a turn of the same response
  before: then nothing is written and the marker stays set.\<close>

theorem release_active_effect:
  assumes wf: "conv_wf s" and ok: "release_active t cid rid status now s = (Inr n, s')"
    and own: "owned s t cid = Some c" and h: "cv_active_response_id c = Some rid"
  shows "if \<exists>q. cs_last_completed (stream_of s cid) = Some (rid, q)
    then s' = s \<and> conv_holder s' cid = Some rid
    else conv_holder s' cid = None \<and> n = length (cs_events (stream_of s cid)) \<and>
      cs_events (stream_of s' cid) = cs_events (stream_of s cid) @
        [\<lparr>cev_conversation_id = cid, cev_seq = n, cev_kind = TurnCompleted rid status, cev_ts_ms = now\<rparr>] \<and>
      open_turn (cs_events (stream_of s' cid)) = None"
proof -
  have c: "map_of (st_conversations s) cid = Some c" using own by (simp add: owned_Some_iff)
  have id: "cv_id c = cid" by (rule conversations_wf_id[OF conv_wfD(1)[OF wf] c])
  have w: "conv_guard_writable s = Inr ()"
    using ok by (auto simp: release_active_def split: sum.splits)
  show ?thesis
  proof (cases "\<exists>q. cs_last_completed (stream_of s cid) = Some (rid, q)")
    case True
    then show ?thesis using ok own h w c by (auto simp: release_active_def conv_holder_def)
  next
    case False
    then have rm: "release_marker cid c rid status now s = (Inr n, s')"
      using ok own h w by (auto simp: release_active_def split: option.splits prod.splits if_splits)
    have n: "cs_next_seq (stream_of s cid) = length (cs_events (stream_of s cid))"
      using conv_wf_stream[OF wf c] by (simp add: stream_ok_def)
    show ?thesis
      using rm False id n
      by (auto simp: release_marker_def push_conversation_event_eq conv_holder_def stream_push_def
          open_turn_def turn_after_def split: sum.splits)
  qed
qed

text \<open>Reading a conversation stream from a cursor below the largest 64-bit number returns exactly
  the next events in order; with the largest number as cursor the addition wraps and the whole
  stream is replayed from its first event.\<close>

theorem conv_read_after_slice:
  assumes wf: "conv_wf s" and ok: "conv_read_after t cid after limit s = Inr batch"
    and cursor: "\<forall>a. after = Some a \<longrightarrow> a \<le> u64_max"
    and start: "start = (case after of None \<Rightarrow> 0 | Some a \<Rightarrow> if a = u64_max then 0 else a + 1)"
  shows "batch = take limit (drop start (cs_events (stream_of s cid))) \<and>
    (\<forall>i < length batch. cev_seq (batch ! i) = start + i)"
proof -
  have c: "\<exists>c. map_of (st_conversations s) cid = Some c"
    using ok by (auto simp: conv_read_after_def owned_def split: sum.splits option.splits)
  have "conv_read_start after = start"
    using cursor by (auto simp: conv_read_start_def start u64_max_def split: option.split)
  then have "batch = take limit (drop start (cs_events (stream_of s cid)))"
    using ok by (auto simp: conv_read_after_def stream_of_def stream_read_def Stream_default_def
        split: sum.splits option.splits)
  moreover have "\<forall>i < length (cs_events (stream_of s cid)). cev_seq (cs_events (stream_of s cid) ! i) = i"
    using c conv_wf_stream[OF wf] by (auto simp: stream_ok_def)
  ultimately show ?thesis by auto
qed

section \<open>A small conversation\<close>

definition demo_cid :: conversation_id where
  "demo_cid = ConversationId 5"

definition demo_idle :: mem_store where
  "demo_idle = snd (conv_create (Conversation_new demo_cid demo_tenant [] 1) MemStore_new)"

definition demo_busy :: mem_store where
  "demo_busy = snd (acquire_active demo_tenant demo_cid demo_rid 2 demo_idle)"

lemma demo_idle_wf: "conv_wf demo_idle"
  unfolding demo_idle_def
  by (rule conv_create_wf) (simp_all add: Conversation_new_def, simp add: MemStore_new_def)

lemma demo_busy_wf: "conv_wf demo_busy"
  unfolding demo_busy_def by (rule acquire_active_wf[OF demo_idle_wf])

lemma demo_idle_eq: "demo_idle = insert_conversation (Conversation_new demo_cid demo_tenant [] 1) MemStore_new"
  by (simp add: demo_idle_def conv_create_def conv_guard_writable_def conv_guard_available_def MemStore_new_def)

lemma demo_idle_fields:
  "conv_guard_writable demo_idle = Inr ()" "ensure_event_capacity demo_idle demo_cid = Inr ()"
  "owned demo_idle demo_tenant demo_cid = Some (Conversation_new demo_cid demo_tenant [] 1)"
  "map_of (sn_appended (snapshot_of demo_idle demo_cid)) demo_rid = None"
  by (simp_all add: demo_idle_eq insert_conversation_def MemStore_new_def Conversation_new_def
      conv_guard_writable_def conv_guard_available_def ensure_event_capacity_def owned_def snapshot_of_def
      Snapshot_default_def)

definition demo_turn :: conversation where
  "demo_turn = (Conversation_new demo_cid demo_tenant [] 1)\<lparr>cv_active_response_id := Some demo_rid\<rparr>"

lemma demo_busy_eq:
  "demo_busy = put_stream demo_cid ((stream_push demo_cid (TurnStarted demo_rid) 2 Stream_default)\<lparr>cs_lock_seq := Some 0\<rparr>)
    (put_stream demo_cid (stream_push demo_cid (TurnStarted demo_rid) 2 Stream_default)
      (insert_conversation demo_turn demo_idle))"
proof -
  have st: "stream_of demo_idle demo_cid = Stream_default"
    by (simp add: demo_idle_eq stream_of_def insert_conversation_def MemStore_new_def)
  show ?thesis
    by (simp add: demo_busy_def acquire_active_def demo_idle_fields push_conversation_event_eq demo_turn_def
        Conversation_new_def st) (simp add: Stream_default_def)
qed

lemma demo_turn_fields [simp]:
  "cv_id demo_turn = demo_cid" "cv_tenant_id demo_turn = demo_tenant"
  "cv_active_response_id demo_turn = Some demo_rid"
  by (simp_all add: demo_turn_def Conversation_new_def)

lemma demo_busy_fields:
  "conv_guard_writable demo_busy = Inr ()" "conv_guard_available demo_busy = Inr ()"
  "owned demo_busy demo_tenant demo_cid = Some demo_turn"
  "conv_holder demo_busy demo_cid = Some demo_rid"
  "stream_of demo_busy demo_cid = (stream_push demo_cid (TurnStarted demo_rid) 2 Stream_default)\<lparr>cs_lock_seq := Some 0\<rparr>"
  "map_of (st_conversation_events demo_busy) demo_cid = Some ((stream_push demo_cid (TurnStarted demo_rid) 2 Stream_default)\<lparr>cs_lock_seq := Some 0\<rparr>)"
proof -
  have "conv_guard_available demo_busy = Inr ()" "conv_guard_writable demo_busy = Inr ()"
    by (simp_all add: demo_busy_eq put_stream_def insert_conversation_def demo_idle_eq MemStore_new_def
        conv_guard_writable_def conv_guard_available_def)
  then show "conv_guard_writable demo_busy = Inr ()" "conv_guard_available demo_busy = Inr ()" by simp_all
  show "owned demo_busy demo_tenant demo_cid = Some demo_turn"
    "conv_holder demo_busy demo_cid = Some demo_rid"
    "stream_of demo_busy demo_cid = (stream_push demo_cid (TurnStarted demo_rid) 2 Stream_default)\<lparr>cs_lock_seq := Some 0\<rparr>"
    "map_of (st_conversation_events demo_busy) demo_cid = Some ((stream_push demo_cid (TurnStarted demo_rid) 2 Stream_default)\<lparr>cs_lock_seq := Some 0\<rparr>)"
    by (simp_all add: demo_busy_eq owned_def conv_holder_def)
qed

theorem one_turn_at_a_time_witness:
  "\<exists>e. acquire_active demo_tenant demo_cid (ResponseId (NodeTag ''n1'') 2) 9
      (snd (lock_step (OpAcquire demo_tenant demo_cid demo_rid 3) demo_busy))
    = (Inl e, snd (lock_step (OpAcquire demo_tenant demo_cid demo_rid 3) demo_busy))"
proof -
  have "ResponseId (NodeTag ''n1'') 2 \<noteq> demo_rid" by (simp add: demo_rid_def)
  from one_turn_at_a_time[OF demo_busy_wf demo_busy_fields(4) _ refl this,
      of "[OpAcquire demo_tenant demo_cid demo_rid 3]" demo_tenant 9]
  show ?thesis by simp
qed

definition demo_commit :: turn_commit where
  "demo_commit = \<lparr>tc_input_items = [user_text ''hi''], tc_output_items = [assistant_text ''yo''],
    tc_reasoning = Some ''think'', tc_usage = Usage_default, tc_status = Completed\<rparr>"


theorem release_active_effect_witness:
  "\<exists>s'. release_active demo_tenant demo_cid demo_rid Completed 7 demo_busy = (Inr 1, s') \<and>
    conv_holder s' demo_cid = None"
proof -
  have "ensure_event_capacity demo_busy demo_cid = Inr ()"
    by (simp add: ensure_event_capacity_def demo_busy_fields stream_push_def Stream_default_def)
      (simp add: demo_busy_eq put_stream_def insert_conversation_def demo_idle_eq MemStore_new_def)
  then obtain s' where a: "release_active demo_tenant demo_cid demo_rid Completed 7 demo_busy = (Inr 1, s')"
    by (simp add: release_active_def demo_busy_fields release_marker_def push_conversation_event_eq
        stream_push_def Stream_default_def)
  show ?thesis
    using release_active_effect[OF demo_busy_wf a demo_busy_fields(3) demo_turn_fields(3)] a
    by (simp add: demo_busy_fields stream_push_def Stream_default_def)
qed

theorem conv_read_after_slice_witness:
  "\<exists>batch. conv_read_after demo_tenant demo_cid (Some u64_max) 10 demo_busy = Inr batch \<and>
    batch = take 10 (cs_events (stream_of demo_busy demo_cid)) \<and> length batch = 1"
proof -
  obtain batch where a: "conv_read_after demo_tenant demo_cid (Some u64_max) 10 demo_busy = Inr batch"
    by (simp add: conv_read_after_def demo_busy_fields)
  show ?thesis
    using conv_read_after_slice[OF demo_busy_wf a _ refl] a
    by (simp add: demo_busy_fields stream_push_def Stream_default_def)
qed

end
