(* ===== verification/World.thy ===== *)
theory World
  imports Event_Log Conversation_Store
begin

text \<open>
  What the capability layer works on: its configuration (\<open>config.rs\<close>), its failures
  (\<open>service/error.rs\<close>), and the world its ports give it -- the store, the event log, a clock and a
  metrics sink (\<open>ports/\<close>, \<open>clock.rs\<close>).

  An operation of the service is a sequence of port calls.  Each call is atomic; the model runs
  the calls of one operation one after another on a \<open>world\<close>.  Every reading of the clock may
  return a different time, so the clock is a sequence of readings and a position in it.
  Counters are recorded as the list of increments.
\<close>

section \<open>Configuration\<close>

datatype config_error = TooSmall string nat

record chain_limits =
  cl_max_depth :: nat
  cl_max_items :: nat
  cl_max_bytes :: nat

definition ChainLimits_default :: chain_limits where
  "ChainLimits_default = \<lparr>cl_max_depth = 50, cl_max_items = 1000, cl_max_bytes = 1024 * 1024\<rparr>"

record config =
  cf_node_tag :: node_tag
  cf_retain_after_terminal_ms :: nat
  cf_heartbeat_ttl_ms :: nat
  cf_content_retention_ms :: nat
  cf_sync_wait_timeout_ms :: nat
  cf_event_page :: nat
  cf_chain :: chain_limits
  cf_limits :: protocol_limits

definition Config_for_node :: "node_tag \<Rightarrow> config" where
  "Config_for_node tag = \<lparr>
    cf_node_tag = tag,
    cf_retain_after_terminal_ms = 60000,
    cf_heartbeat_ttl_ms = 90000,
    cf_content_retention_ms = 30 * 24 * 60 * 60 * 1000,
    cf_sync_wait_timeout_ms = 30000,
    cf_event_page = 256,
    cf_chain = ChainLimits_default,
    cf_limits = ProtocolLimits_default\<rparr>"

definition config_validate :: "config \<Rightarrow> config_error + unit" where
  "config_validate c =
    (if cl_max_depth (cf_chain c) = 0 then Inl (TooSmall ''chain.max_depth'' 1)
     else if cl_max_items (cf_chain c) = 0 then Inl (TooSmall ''chain.max_items'' 1)
     else if cf_event_page c = 0 then Inl (TooSmall ''event_page'' 1)
     else if max_items (cf_limits c) = 0 then Inl (TooSmall ''limits.max_items'' 1)
     else Inr ())"

text \<open>\<open>from_toml\<close>: the TOML reader is a parameter.\<close>

datatype 'p config_load_error = Parse 'p | Invalid config_error

definition config_from_toml :: "(string \<Rightarrow> 'p + config) \<Rightarrow> string \<Rightarrow> 'p config_load_error + config" where
  "config_from_toml toml text =
    (case toml text of
       Inl e \<Rightarrow> Inl (Parse e)
     | Inr c \<Rightarrow> (case config_validate c of Inl e \<Rightarrow> Inl (Invalid e) | Inr _ \<Rightarrow> Inr c))"

lemma config_validate_ok_iff:
  "config_validate c = Inr () \<longleftrightarrow> 0 < cl_max_depth (cf_chain c) \<and> 0 < cl_max_items (cf_chain c) \<and>
    0 < cf_event_page c \<and> 0 < max_items (cf_limits c)"
  by (simp add: config_validate_def)

lemma config_from_toml_valid: "config_from_toml toml text = Inr c \<Longrightarrow> config_validate c = Inr ()"
  by (auto simp: config_from_toml_def split: sum.splits)

lemma Config_for_node_valid: "config_validate (Config_for_node tag) = Inr ()"
  by (simp add: config_validate_ok_iff Config_for_node_def ChainLimits_default_def ProtocolLimits_default_def)

section \<open>Failures\<close>

datatype context_error =
    ChainBroken response_id
  | NotStored
  | CrossTenant
  | TooDeep nat
  | CtxTooManyItems nat
  | CtxTooLarge nat

datatype service_error =
    SLedger ledger_error
  | SEventLog event_log_error
  | SConversation conversation_error
  | SContext context_error

section \<open>Dependencies and world\<close>

record deps =
  dp_cfg :: config
  dp_codec :: codec
  dp_integrity :: "integrity option"

record world =
  w_store :: mem_store
  w_log :: event_log
  w_clock :: "nat \<Rightarrow> nat"
  w_readings :: nat
  w_metrics :: "(string \<times> nat) list"

definition clock_now :: "world \<Rightarrow> nat \<times> world" where
  "clock_now w = (w_clock w (w_readings w), w\<lparr>w_readings := w_readings w + 1\<rparr>)"

definition incr :: "string \<Rightarrow> nat \<Rightarrow> world \<Rightarrow> world" where
  "incr name n w = w\<lparr>w_metrics := w_metrics w @ [(name, n)]\<rparr>"

text \<open>Port calls: an operation of the store, or of the log, run on the world.\<close>

definition on_store :: "(mem_store \<Rightarrow> 'a \<times> mem_store) \<Rightarrow> world \<Rightarrow> 'a \<times> world" where
  "on_store f w = (case f (w_store w) of (a, s) \<Rightarrow> (a, w\<lparr>w_store := s\<rparr>))"

definition on_log :: "(event_log \<Rightarrow> 'a \<times> event_log) \<Rightarrow> world \<Rightarrow> 'a \<times> world" where
  "on_log f w = (case f (w_log w) of (a, g) \<Rightarrow> (a, w\<lparr>w_log := g\<rparr>))"

definition log_append :: "append_event \<Rightarrow> world \<Rightarrow> (event_log_error + nat) \<times> world" where
  "log_append e w = on_log (event_append e (w_store w)) w"

section \<open>The conversations service\<close>

definition cs_create ::
  "uuid \<Rightarrow> tenant_id \<Rightarrow> metadata \<Rightarrow> world \<Rightarrow> (conversation_error + conversation) \<times> world" where
  "cs_create fresh tenant m w =
    (case clock_now w of (now_ms, w0) \<Rightarrow>
      (case on_store (conv_create (Conversation_new (ConversationId fresh) tenant m now_ms)) w0 of
         (Inl e, w1) \<Rightarrow> (Inl e, w1)
       | (Inr c, w1) \<Rightarrow> (Inr c, incr ''conversations_created'' 1 w1)))"

definition cs_retrieve ::
  "tenant_id \<Rightarrow> conversation_id \<Rightarrow> world \<Rightarrow> conversation_error + conversation option" where
  "cs_retrieve tenant cid w = conv_get tenant cid (w_store w)"

definition cs_update_metadata ::
  "tenant_id \<Rightarrow> conversation_id \<Rightarrow> metadata \<Rightarrow> world \<Rightarrow> (conversation_error + conversation) \<times> world" where
  "cs_update_metadata tenant cid m w = on_store (conv_update_metadata tenant cid m) w"

definition cs_delete ::
  "tenant_id \<Rightarrow> conversation_id \<Rightarrow> world \<Rightarrow> (conversation_error + bool) \<times> world" where
  "cs_delete tenant cid w =
    (case on_store (conv_delete tenant cid) w of
       (Inl e, w1) \<Rightarrow> (Inl e, w1)
     | (Inr deleted, w1) \<Rightarrow>
         (Inr deleted, if deleted then incr ''conversations_deleted'' 1 w1 else w1))"

definition cs_list :: "tenant_id \<Rightarrow> world \<Rightarrow> conversation_error + conversation list" where
  "cs_list tenant w = conv_list tenant (w_store w)"

definition cs_resolve_tail ::
  "tenant_id \<Rightarrow> conversation_id \<Rightarrow> world \<Rightarrow> conversation_error + response_id option" where
  "cs_resolve_tail tenant cid w =
    (case conv_get tenant cid (w_store w) of
       Inl e \<Rightarrow> Inl e
     | Inr None \<Rightarrow> Inl CNotFound
     | Inr (Some c) \<Rightarrow> Inr (cv_last_response_id c))"

definition cs_read_snapshot ::
  "tenant_id \<Rightarrow> conversation_id \<Rightarrow> world \<Rightarrow> conversation_error + resolved_context" where
  "cs_read_snapshot tenant cid w = read_snapshot tenant cid (w_store w)"

definition cs_acquire_active ::
  "tenant_id \<Rightarrow> conversation_id \<Rightarrow> response_id \<Rightarrow> world \<Rightarrow> (conversation_error + nat) \<times> world" where
  "cs_acquire_active tenant cid rid w =
    (case clock_now w of (now_ms, w0) \<Rightarrow> on_store (acquire_active tenant cid rid now_ms) w0)"

definition cs_release_active ::
  "tenant_id \<Rightarrow> conversation_id \<Rightarrow> response_id \<Rightarrow> response_status \<Rightarrow> world
    \<Rightarrow> (conversation_error + nat) \<times> world" where
  "cs_release_active tenant cid rid status w =
    (case clock_now w of (now_ms, w0) \<Rightarrow> on_store (release_active tenant cid rid status now_ms) w0)"

definition cs_release_stale_active ::
  "tenant_id \<Rightarrow> conversation_id \<Rightarrow> response_id \<Rightarrow> world \<Rightarrow> (conversation_error + bool) \<times> world" where
  "cs_release_stale_active tenant cid holder w = on_store (release_stale_active tenant cid holder) w"

definition cs_append_event ::
  "tenant_id \<Rightarrow> conversation_id \<Rightarrow> conversation_event_kind \<Rightarrow> world \<Rightarrow> (conversation_error + nat) \<times> world" where
  "cs_append_event tenant cid kind w =
    (case clock_now w of (now_ms, w0) \<Rightarrow> on_store (conv_append_event tenant cid kind now_ms) w0)"

section \<open>Invariant\<close>

text \<open>All rows, conversations and logs are well formed, and no log is near the end of the sequence numbers.\<close>

definition world_wf :: "world \<Rightarrow> bool" where
  "world_wf w \<longleftrightarrow> ledger_wf (w_store w) \<and> conv_wf (w_store w) \<and> event_log_wf (w_log w)"

definition log_short :: "response_id \<Rightarrow> event_log \<Rightarrow> bool" where
  "log_short rid g \<longleftrightarrow> (\<forall>l. map_of (el_logs g) rid = Some l \<longrightarrow> rl_next_seq l < u64_max)"

definition logs_short :: "event_log \<Rightarrow> bool" where
  "logs_short g \<longleftrightarrow> (\<forall>rid. log_short rid g)"

lemma logs_shortD: "logs_short g \<Longrightarrow> log_short rid g"
  by (simp add: logs_short_def)

lemma world_wfD:
  assumes "world_wf w"
  shows "ledger_wf (w_store w)" "conv_wf (w_store w)" "event_log_wf (w_log w)"
  using assms by (simp_all add: world_wf_def)

lemma world_wf_frame [simp]:
  "world_wf (w\<lparr>w_readings := n\<rparr>) = world_wf w" "world_wf (w\<lparr>w_metrics := m\<rparr>) = world_wf w"
  "world_wf (incr a k w) = world_wf w"
  by (simp_all add: world_wf_def incr_def)

lemma incr_fields [simp]:
  "w_store (incr a k w) = w_store w" "w_log (incr a k w) = w_log w"
  "w_clock (incr a k w) = w_clock w" "w_readings (incr a k w) = w_readings w"
  by (simp_all add: incr_def)

lemma on_store_eq: "on_store f w = (fst (f (w_store w)), w\<lparr>w_store := snd (f (w_store w))\<rparr>)"
  by (simp add: on_store_def case_prod_unfold)

lemma on_log_eq: "on_log f w = (fst (f (w_log w)), w\<lparr>w_log := snd (f (w_log w))\<rparr>)"
  by (simp add: on_log_def case_prod_unfold)

lemmas world_ops = on_store_eq on_log_eq clock_now_def log_append_def cs_acquire_active_def
  cs_release_active_def cs_release_stale_active_def cs_append_event_def

section \<open>Frames\<close>

text \<open>
  The ledger and the conversations live in one store but in disjoint parts of it.  What is left
  when the other part is erased does not change under an operation on the other part.
\<close>

definition ledger_part :: "mem_store \<Rightarrow> mem_store" where
  "ledger_part s = s\<lparr>st_conversations := [], st_conversations_by_tenant := [],
    st_conversation_events := [], st_snapshots := []\<rparr>"

definition conv_part :: "mem_store \<Rightarrow> mem_store" where
  "conv_part s = s\<lparr>st_records := [], st_by_tenant := [], st_expiry := [], st_queued := [], st_idem := [],
    st_heartbeats := [], st_partial_usage := []\<rparr>"

lemma ledger_part_wf [simp]: "ledger_wf (ledger_part s) = ledger_wf s"
  by (simp add: ledger_part_def)

lemma conv_part_wf [simp]: "conv_wf (conv_part s) = conv_wf s"
  by (simp add: conv_part_def)

lemma ledger_part_fields [simp]:
  "st_records (ledger_part s) = st_records s" "st_queued (ledger_part s) = st_queued s"
  "st_idem (ledger_part s) = st_idem s" "st_heartbeats (ledger_part s) = st_heartbeats s"
  "st_partial_usage (ledger_part s) = st_partial_usage s" "st_read_only (ledger_part s) = st_read_only s"
  "st_unavailable (ledger_part s) = st_unavailable s" "st_pending_limit (ledger_part s) = st_pending_limit s"
  "st_max_records (ledger_part s) = st_max_records s"
  "st_max_events_per_conversation (ledger_part s) = st_max_events_per_conversation s"
  by (simp_all add: ledger_part_def)

lemma conv_part_fields [simp]:
  "st_conversations (conv_part s) = st_conversations s" "st_conversation_events (conv_part s) = st_conversation_events s"
  "st_snapshots (conv_part s) = st_snapshots s" "st_read_only (conv_part s) = st_read_only s"
  "st_unavailable (conv_part s) = st_unavailable s"
  "st_max_events_per_conversation (conv_part s) = st_max_events_per_conversation s"
  by (simp_all add: conv_part_def)

lemma ledger_part_D:
  assumes "ledger_part s' = ledger_part s"
  shows "ledger_wf s' = ledger_wf s" "st_records s' = st_records s" "st_queued s' = st_queued s"
    "st_idem s' = st_idem s" "st_heartbeats s' = st_heartbeats s" "st_read_only s' = st_read_only s"
    "st_unavailable s' = st_unavailable s" "st_partial_usage s' = st_partial_usage s"
    "st_pending_limit s' = st_pending_limit s" "st_max_records s' = st_max_records s"
    "st_max_events_per_conversation s' = st_max_events_per_conversation s"
  using assms ledger_part_wf ledger_part_fields by metis+

lemma conv_part_D:
  assumes "conv_part s' = conv_part s"
  shows "conv_wf s' = conv_wf s" "st_conversations s' = st_conversations s"
    "st_conversation_events s' = st_conversation_events s" "st_snapshots s' = st_snapshots s"
    "st_read_only s' = st_read_only s" "st_unavailable s' = st_unavailable s"
    "st_max_events_per_conversation s' = st_max_events_per_conversation s"
  using assms conv_part_wf conv_part_fields by metis+

lemma conv_part_views:
  assumes "conv_part s' = conv_part s"
  shows "owned s' = owned s" "stream_of s' = stream_of s" "snapshot_of s' = snapshot_of s"
    "conv_holder s' = conv_holder s" "ensure_event_capacity s' = ensure_event_capacity s"
  using conv_part_D[OF assms]
  by (simp_all add: owned_def stream_of_def snapshot_of_def conv_holder_def ensure_event_capacity_def fun_eq_iff)

lemma insert_conversation_ledger_part [simp]: "ledger_part (insert_conversation c s) = ledger_part s"
  and put_stream_ledger_part [simp]: "ledger_part (put_stream cid st s) = ledger_part s"
  and remove_conversation_ledger_part [simp]: "ledger_part (snd (remove_conversation cid s)) = ledger_part s"
  by (simp_all add: ledger_part_def insert_conversation_def put_stream_def remove_conversation_def split: option.split)

lemma remove_conversations_ledger_part [simp]:
  "ledger_part (snd (remove_conversations ids s)) = ledger_part s"
  by (induction ids arbitrary: s) (simp_all add: case_prod_unfold)

lemma conv_ops_ledger_part [simp]:
  "ledger_part (snd (conv_create c s)) = ledger_part s"
  "ledger_part (snd (conv_update_metadata t cid m s)) = ledger_part s"
  "ledger_part (snd (conv_delete t cid s)) = ledger_part s"
  "ledger_part (snd (conv_delete_by_tenant t s)) = ledger_part s"
  "ledger_part (snd (conv_advance t cid rid s)) = ledger_part s"
  "ledger_part (snd (acquire_active t cid rid now s)) = ledger_part s"
  "ledger_part (snd (release_active t cid rid status now s)) = ledger_part s"
  "ledger_part (snd (release_stale_active t cid rid s)) = ledger_part s"
  "ledger_part (snd (conv_append_event t cid kind now s)) = ledger_part s"
  by (simp_all add: conv_create_def conv_update_metadata_def conv_delete_def conv_delete_by_tenant_def
      conv_advance_def acquire_active_def release_active_def release_marker_def release_stale_active_def
      conv_append_event_def push_conversation_event_eq case_prod_unfold Let_def
      split: sum.split option.split)

lemma append_turn_ledger_part [simp]: "ledger_part (snd (append_turn t cid rid commit s)) = ledger_part s"
  by (simp add: append_turn_def Let_def ledger_part_def split: sum.split option.split)

lemma insert_record_conv_part [simp]: "conv_part (insert_record r s) = conv_part s"
  and remove_record_conv_part [simp]: "conv_part (snd (remove_record rid s)) = conv_part s"
  and book_partial_conv_part [simp]: "conv_part (book_partial rid a u s) = conv_part s"
  by (simp_all add: conv_part_def insert_record_def remove_record_def book_partial_def Let_def split: option.split)

lemma conv_part_update [simp]:
  "conv_part (s\<lparr>st_records := x\<rparr>) = conv_part s" "conv_part (s\<lparr>st_queued := q\<rparr>) = conv_part s"
  "conv_part (s\<lparr>st_idem := i\<rparr>) = conv_part s" "conv_part (s\<lparr>st_heartbeats := h\<rparr>) = conv_part s"
  "conv_part (s\<lparr>st_partial_usage := u\<rparr>) = conv_part s"
  by (simp_all add: conv_part_def)

lemma claim_loop_conv_part [simp]: "conv_part (snd (claim_loop a now ttl q s)) = conv_part s"
  by (induction q) (simp_all add: Let_def split: option.split)

lemma reap_each_conv_part [simp]: "conv_part (snd (reap_each now ids s)) = conv_part s"
  by (induction ids arbitrary: s) (simp_all add: case_prod_unfold split: option.split)

lemma remove_records_conv_part [simp]: "conv_part (snd (remove_records ids s)) = conv_part s"
  by (induction ids arbitrary: s) (simp_all add: case_prod_unfold)

lemma ledger_ops_conv_part [simp]:
  "conv_part (snd (ledger_create cx ig r key s)) = conv_part s"
  "conv_part (snd (ledger_claim a now ttl s)) = conv_part s"
  "conv_part (snd (ledger_heartbeat a now s)) = conv_part s"
  "conv_part (snd (ledger_complete rid att st u now s)) = conv_part s"
  "conv_part (snd (ledger_cancel t rid now s)) = conv_part s"
  "conv_part (snd (ledger_reap now ttl s)) = conv_part s"
  "conv_part (snd (ledger_record_partial_usage rid att u s)) = conv_part s"
  "conv_part (snd (ledger_delete rid s)) = conv_part s"
  "conv_part (snd (ledger_delete_by_tenant t s)) = conv_part s"
  by (simp_all add: ledger_create_def ledger_claim_def ledger_heartbeat_def ledger_complete_def ledger_cancel_def
      ledger_reap_def ledger_record_partial_usage_def ledger_delete_def ledger_delete_by_tenant_def
      guard_writable_def case_prod_unfold Let_def split: sum.split option.split)

text \<open>A call on one part keeps the whole world well formed when it keeps its own part so.\<close>

lemma world_wf_conv:
  assumes "world_wf w" "ledger_part s = ledger_part (w_store w)" "conv_wf s"
  shows "world_wf (w\<lparr>w_store := s\<rparr>)"
  using assms ledger_part_D(1)[OF assms(2)] by (simp add: world_wf_def)

lemma world_wf_ledger:
  assumes "world_wf w" "conv_part s = conv_part (w_store w)" "ledger_wf s"
  shows "world_wf (w\<lparr>w_store := s\<rparr>)"
  using assms conv_part_D(1)[OF assms(2)] by (simp add: world_wf_def)

lemma world_wf_log: "world_wf w \<Longrightarrow> event_log_wf g \<Longrightarrow> world_wf (w\<lparr>w_log := g\<rparr>)"
  by (simp add: world_wf_def)

lemma log_append_wf [wf_intro]: "world_wf w \<Longrightarrow> world_wf (snd (log_append e w))"
  by (simp add: world_ops world_wf_log event_append_wf world_wfD)

lemma cs_release_active_wf [wf_intro]: "world_wf w \<Longrightarrow> world_wf (snd (cs_release_active t cid rid status w))"
  by (simp add: world_ops world_wf_conv release_active_wf world_wfD)

lemma cs_acquire_active_wf [wf_intro]: "world_wf w \<Longrightarrow> world_wf (snd (cs_acquire_active t cid rid w))"
  by (simp add: world_ops world_wf_conv acquire_active_wf world_wfD)

lemma cs_release_stale_active_wf [wf_intro]: "world_wf w \<Longrightarrow> world_wf (snd (cs_release_stale_active t cid rid w))"
  by (simp add: world_ops world_wf_conv release_stale_active_wf world_wfD)

end
