(* ===== verification/Replay.thy ===== *)
theory Replay
  imports World
begin

text \<open>
  Reading a response back from its event stream: \<open>replay_completed_items\<close> of the sweeper
  (\<open>service/sweep.rs\<close>) collects the archivable output items, \<open>latest_response_object\<close> of the
  responses service (\<open>service/responses.rs\<close>) the last rendered object.  Both page through the log
  with \<open>page_loop\<close>, so that a loop that never ends would be \<open>None\<close>; that they return is proved.
\<close>

section \<open>Archivable items\<close>

definition REPLAY_PAGE :: nat where
  "REPLAY_PAGE = 256"

record replay_state =
  rp_items :: "(nat \<times> response_item) list"
  rp_open :: "(nat \<times> response_item) option"
  rp_open_text :: string

definition replay_start :: replay_state where
  "replay_start = \<lparr>rp_items = [], rp_open = None, rp_open_text = []\<rparr>"

definition open_at :: "nat \<Rightarrow> replay_state \<Rightarrow> bool" where
  "open_at idx p = (case rp_open p of Some (i, _) \<Rightarrow> i = idx | None \<Rightarrow> False)"

definition replay_event :: "response_event \<Rightarrow> replay_state \<Rightarrow> replay_state" where
  "replay_event e p =
    (case re_kind e of
       EvOutputItemAdded \<Rightarrow>
         (case re_body e of
            Item idx item \<Rightarrow> p\<lparr>rp_open := Some (idx, item), rp_open_text := []\<rparr>
          | _ \<Rightarrow> p)
     | EvOutputItemDone \<Rightarrow>
         (case re_body e of
            Item idx item \<Rightarrow>
              (if open_at idx p then p\<lparr>rp_open := None, rp_open_text := []\<rparr> else p)
                \<lparr>rp_items := rp_items p @ [(idx, item)]\<rparr>
          | _ \<Rightarrow> p)
     | EvOutputTextDelta \<Rightarrow>
         (case re_body e of
            Delta _ idx _ delta \<Rightarrow>
              if open_at idx p then p\<lparr>rp_open_text := rp_open_text p @ delta\<rparr> else p
          | _ \<Rightarrow> p)
     | _ \<Rightarrow> p)"

text \<open>The open item, when it is a message that streamed text, is kept as an incomplete message.\<close>

definition replay_finish :: "replay_state \<Rightarrow> response_item list" where
  "replay_finish p =
    (let items =
       (case rp_open p of
          Some (idx, Message role _ iid _) \<Rightarrow>
            if rp_open_text p \<noteq> []
            then rp_items p @ [(idx, Message role [OutputText (rp_open_text p)] iid (Some ItemIncomplete))]
            else rp_items p
        | _ \<Rightarrow> rp_items p)
     in map snd (sort_key fst items))"

definition replay_completed_items ::
  "response_id \<Rightarrow> event_log \<Rightarrow> (event_log_error + response_item list) option" where
  "replay_completed_items rid g =
    map_option (\<lambda>r. case r of Inl (e, _) \<Rightarrow> Inl e | Inr p \<Rightarrow> Inr (replay_finish p))
      (page_loop (\<lambda>c. event_read_after rid c REPLAY_PAGE g) re_sequence_number (\<lambda>_. False)
        replay_event None replay_start)"

section \<open>The latest object\<close>

definition absorb_object :: "response_event \<Rightarrow> response_object option \<Rightarrow> response_object option" where
  "absorb_object e latest = (case re_response_object e of Some r \<Rightarrow> Some r | None \<Rightarrow> latest)"

definition latest_response_object ::
  "nat \<Rightarrow> response_id \<Rightarrow> event_log \<Rightarrow> (event_log_error + response_object option) option" where
  "latest_response_object page rid g =
    map_option (\<lambda>r. case r of
        Inl (e, latest) \<Rightarrow> (if e = EUnknown \<or> e = EExpired then Inr latest else Inl e)
      | Inr latest \<Rightarrow> Inr latest)
      (page_loop (\<lambda>c. event_read_after rid c page g) re_sequence_number (\<lambda>e. kind_is_terminal (re_kind e))
        absorb_object None None)"

section \<open>The loops return\<close>

text \<open>What a fresh reader of the log finds: nothing, an expired stream, or all of it.\<close>

definition log_view :: "response_id \<Rightarrow> event_log \<Rightarrow> event_log_error + response_event list" where
  "log_view rid g =
    (case map_of (el_logs g) rid of
       None \<Rightarrow> Inl EUnknown
     | Some l \<Rightarrow> if rl_swept l \<or> 0 < rl_evicted_before l then Inl EExpired else Inr (rl_ring l))"

lemma log_live_of_wf:
  assumes "event_log_wf g" "log_short rid g" "map_of (el_logs g) rid = Some l" "\<not> rl_swept l"
  shows "log_live l"
proof -
  obtain H where "log_refines_all H g" using assms(1) by (auto simp: event_log_wf_def)
  then obtain h where h: "log_refines (el_capacity_per_response g) h l"
    using log_refines_allD[of H g rid] assms(3) by (auto simp: option_rel_Some2)
  moreover have "rl_next_seq l < u64_max" using assms(2,3) by (simp add: log_short_def)
  ultimately show ?thesis using assms(4) by (auto simp: log_live_def log_refines_def)
qed

lemma page_loop_error:
  "read c = Inl e \<Longrightarrow> page_loop read seq stop absorb c acc = Some (Inl (e, acc))"
  by (simp add: page_loop.simps)

lemma read_view_error: "log_view rid g = Inl e \<Longrightarrow> event_read_after rid None n g = Inl e"
  by (auto simp: log_view_def event_read_after_def log_read_def read_target_def split: option.splits if_splits)

text \<open>
  A loop over the log returns: with the error of the view, or having absorbed a prefix of the
  ring that is all of it unless an event to stop at is in it.
\<close>

lemma log_loop_returns:
  assumes wf: "event_log_wf g" "log_short rid g" and n: "0 < n"
  shows "case log_view rid g of
      Inl e \<Rightarrow> page_loop (\<lambda>c. event_read_after rid c n g) re_sequence_number stop absorb None acc = Some (Inl (e, acc))
    | Inr ring \<Rightarrow> \<exists>k. page_loop (\<lambda>c. event_read_after rid c n g) re_sequence_number stop absorb None acc
          = Some (Inr (fold absorb (take k ring) acc)) \<and> (k \<ge> length ring \<or> list_ex stop (take k ring))"
proof (cases "log_view rid g")
  case (Inl e)
  then show ?thesis using read_view_error[OF Inl] by (simp add: page_loop_error)
next
  case (Inr ring)
  then obtain l where l: "map_of (el_logs g) rid = Some l" "\<not> rl_swept l" "rl_evicted_before l = 0" "ring = rl_ring l"
    by (auto simp: log_view_def split: option.splits if_splits)
  have read: "event_read_after rid c n g = log_read l c n" for c
    using l(1) by (simp add: event_read_after_def)
  show ?thesis
    using rlog.page_loop_returns[OF log_live_of_wf[OF wf l(1,2)] _ n, of None stop absorb acc] l(3,4) Inr
    by (simp add: read read_target_def)
qed

lemma log_loop_all:
  assumes wf: "event_log_wf g" "log_short rid g" and n: "0 < n" and v: "log_view rid g = Inr ring"
    and last: "\<not> list_ex stop (butlast ring)"
  shows "page_loop (\<lambda>c. event_read_after rid c n g) re_sequence_number stop absorb None acc
    = Some (Inr (fold absorb ring acc))"
proof -
  obtain l where l: "map_of (el_logs g) rid = Some l" "\<not> rl_swept l" "rl_evicted_before l = 0" "ring = rl_ring l"
    using v by (auto simp: log_view_def split: option.splits if_splits)
  have read: "event_read_after rid c n g = log_read l c n" for c
    using l(1) by (simp add: event_read_after_def)
  show ?thesis
    using rlog.page_loop_all[OF log_live_of_wf[OF wf l(1,2)] _ n, of None stop absorb acc] l(3,4) last
    by (simp add: read read_target_def)
qed

lemma replay_completed_items_eq:
  assumes wf: "event_log_wf g" "log_short rid g"
  shows "replay_completed_items rid g = Some (case log_view rid g of
      Inl e \<Rightarrow> Inl e
    | Inr ring \<Rightarrow> Inr (replay_finish (fold replay_event ring replay_start)))"
proof (cases "log_view rid g")
  case (Inl e)
  then show ?thesis
    using log_loop_returns[OF wf, of REPLAY_PAGE "\<lambda>_. False" replay_event replay_start]
    by (simp add: replay_completed_items_def REPLAY_PAGE_def)
next
  case (Inr ring)
  then show ?thesis
    using log_loop_all[OF wf _ Inr, of REPLAY_PAGE "\<lambda>_. False" replay_event replay_start]
    by (simp add: replay_completed_items_def REPLAY_PAGE_def list_ex_iff)
qed

lemma log_view_error: "log_view rid g = Inl e \<Longrightarrow> e = EUnknown \<or> e = EExpired"
  by (auto simp: log_view_def split: option.splits if_splits)

text \<open>
  The latest object: none when the stream is gone; otherwise the last one carried by the events
  up to the page that holds the terminal event.
\<close>

lemma latest_response_object_eq:
  assumes "event_log_wf g" "log_short rid g" "0 < page"
  shows "case log_view rid g of
      Inl e \<Rightarrow> latest_response_object page rid g = Some (Inr None)
    | Inr ring \<Rightarrow> \<exists>k. latest_response_object page rid g = Some (Inr (fold absorb_object (take k ring) None)) \<and>
        (k \<ge> length ring \<or> list_ex (\<lambda>e. kind_is_terminal (re_kind e)) (take k ring))"
proof (cases "log_view rid g")
  case (Inl e)
  then show ?thesis
    using log_loop_returns[OF assms, of "\<lambda>e. kind_is_terminal (re_kind e)" absorb_object None]
      log_view_error[OF Inl] by (auto simp: latest_response_object_def)
next
  case (Inr ring)
  then show ?thesis
    using log_loop_returns[OF assms, of "\<lambda>e. kind_is_terminal (re_kind e)" absorb_object None]
    by (force simp: latest_response_object_def)
qed

lemma latest_response_object_returns:
  assumes "event_log_wf g" "log_short rid g" "0 < page"
  shows "\<exists>r. latest_response_object page rid g = Some (Inr r)"
  using latest_response_object_eq[OF assms] by (auto split: sum.splits)

lemma latest_response_object_all:
  assumes "event_log_wf g" "log_short rid g" "0 < page" "log_view rid g = Inr ring"
    and "\<not> list_ex (\<lambda>e. kind_is_terminal (re_kind e)) (butlast ring)"
  shows "latest_response_object page rid g = Some (Inr (fold absorb_object ring None))"
  using log_loop_all[OF assms, of absorb_object None] by (simp add: latest_response_object_def)

lemma fold_absorb_object:
  "fold absorb_object es acc =
    (case List.map_filter re_response_object es of [] \<Rightarrow> acc | objs \<Rightarrow> Some (last objs))"
  by (induction es arbitrary: acc)
    (auto simp: absorb_object_def map_filter_simps split: option.split list.split)

end
