(* ===== verification/Service.thy ===== *)
theory Service
  imports Replay
begin

text \<open>
  The responses service (\<open>service/responses.rs\<close>): create, retrieve, wait, cancel and delete, as
  sequences of port calls on the world.  An operation that reads a stream back is an option:
  \<open>None\<close> would be a read loop that never ends, and \<open>service_operations_return\<close> excludes it.
\<close>

section \<open>Reading a response back\<close>

definition service_uuid_fmt :: "deps \<Rightarrow> uuid \<Rightarrow> string" where
  "service_uuid_fmt dp = cx_uuid_fmt (dp_codec dp)"

definition service_latest :: "deps \<Rightarrow> response_id \<Rightarrow> world \<Rightarrow> (service_error + response_object option) option" where
  "service_latest dp rid w =
    map_option (\<lambda>r. case r of Inl e \<Rightarrow> Inl (SEventLog e) | Inr latest \<Rightarrow> Inr latest)
      (latest_response_object (cf_event_page (dp_cfg dp)) rid (w_log w))"

definition current_object :: "deps \<Rightarrow> response_record \<Rightarrow> world \<Rightarrow> (service_error + response_object) option" where
  "current_object dp r w =
    map_option (\<lambda>x. case x of
        Inl e \<Rightarrow> Inl e
      | Inr (Some obj) \<Rightarrow> Inr obj
      | Inr None \<Rightarrow> Inr (ResponseObject_without_output (service_uuid_fmt dp) r))
      (service_latest dp (rr_response_id r) w)"

definition reconstruct_bare :: "deps \<Rightarrow> response_record \<Rightarrow> world \<Rightarrow> (service_error + resolved_context) option" where
  "reconstruct_bare dp r w =
    map_option (\<lambda>x. case x of
        Inl e \<Rightarrow> Inl e
      | Inr obj \<Rightarrow> Inr (rc_from_items
          (ts_input_items (rr_spec r) @ (case obj of Some ob \<Rightarrow> ro_output ob | None \<Rightarrow> [])) 1))
      (service_latest dp (rr_response_id r) w)"

section \<open>Context\<close>

definition snapshot_context :: "tenant_id \<Rightarrow> conversation_id \<Rightarrow> world \<Rightarrow> service_error + resolved_context" where
  "snapshot_context tenant cid w =
    (case cs_read_snapshot tenant cid w of Inl e \<Rightarrow> Inl (SConversation e) | Inr c \<Rightarrow> Inr c)"

definition previous_context ::
  "deps \<Rightarrow> tenant_id \<Rightarrow> response_id \<Rightarrow> world \<Rightarrow> (service_error + resolved_context) option" where
  "previous_context dp tenant rid w =
    (case ledger_get rid (w_store w) of
       Inl e \<Rightarrow> Some (Inl (SLedger e))
     | Inr None \<Rightarrow> Some (Inl (SContext (ChainBroken rid)))
     | Inr (Some r) \<Rightarrow>
       if \<not> is_referencable_by r tenant
       then Some (Inl (SContext (if rr_tenant_id r \<noteq> tenant then CrossTenant else NotStored)))
       else case ts_anchor (rr_spec r) of
         AnchorConversation cid \<Rightarrow> Some (snapshot_context tenant cid w)
       | Root \<Rightarrow> reconstruct_bare dp r w
       | Previous _ \<Rightarrow> Some (Inl (SContext (ChainBroken rid))))"

definition within_limits :: "chain_limits \<Rightarrow> resolved_context \<Rightarrow> service_error + resolved_context" where
  "within_limits limits c =
    (if rc_turns c \<ge> cl_max_depth limits then Inl (SContext (TooDeep (cl_max_depth limits)))
     else if rc_item_count c > cl_max_items limits then Inl (SContext (CtxTooManyItems (cl_max_items limits)))
     else if rc_bytes c > cl_max_bytes limits then Inl (SContext (CtxTooLarge (cl_max_bytes limits)))
     else Inr c)"

definition resolve_context ::
  "deps \<Rightarrow> tenant_id \<Rightarrow> context_anchor \<Rightarrow> world \<Rightarrow> (service_error + resolved_context) option" where
  "resolve_context dp tenant anchor w =
    map_option (\<lambda>x. case x of Inl e \<Rightarrow> Inl e | Inr c \<Rightarrow> within_limits (cf_chain (dp_cfg dp)) c)
      (case anchor of
         Root \<Rightarrow> Some (Inr ResolvedContext_default)
       | AnchorConversation cid \<Rightarrow> Some (snapshot_context tenant cid w)
       | Previous rid \<Rightarrow> previous_context dp tenant rid w)"

section \<open>Create\<close>

definition holder_is_stale :: "response_id \<Rightarrow> world \<Rightarrow> bool" where
  "holder_is_stale holder w =
    (case ledger_get holder (w_store w) of
       Inr (Some r) \<Rightarrow> is_terminal (rr_status r)
     | _ \<Rightarrow> True)"

definition acquire_turn ::
  "tenant_id \<Rightarrow> conversation_id \<Rightarrow> response_id \<Rightarrow> world \<Rightarrow> (service_error + unit) \<times> world" where
  "acquire_turn tenant cid rid w =
    (case cs_acquire_active tenant cid rid w of
       (Inr _, w1) \<Rightarrow> (Inr (), w1)
     | (Inl (CBusy holder), w1) \<Rightarrow>
       if \<not> holder_is_stale holder w1 then (Inl (SConversation (CBusy holder)), w1)
       else (case cs_release_stale_active tenant cid holder w1 of
           (Inl e, w2) \<Rightarrow> (Inl (SConversation e), w2)
         | (Inr _, w2) \<Rightarrow>
           (case cs_acquire_active tenant cid rid (incr ''conversation_stale_locks_released'' 1 w2) of
              (Inl e, w3) \<Rightarrow> (Inl (SConversation e), w3)
            | (Inr _, w3) \<Rightarrow> (Inr (), w3)))
     | (Inl e, w1) \<Rightarrow> (Inl (SConversation e), w1))"

definition admit ::
  "deps \<Rightarrow> response_record \<Rightarrow> idempotency_key \<Rightarrow> world \<Rightarrow> (service_error + create_outcome) \<times> world" where
  "admit dp r0 key w =
    (case on_store (ledger_create (dp_codec dp) (dp_integrity dp) r0 key) w of
       (Inl e, w1) \<Rightarrow> (Inl (SLedger e), w1)
     | (Inr (Accepted r), w1) \<Rightarrow>
       (case log_append (lifecycle (rr_response_id r) EvCreated
               (ResponseObject_without_output (service_uuid_fmt dp) r)) w1 of
          (Inl e, w2) \<Rightarrow> (Inl (SEventLog e), w2)
        | (Inr _, w2) \<Rightarrow> (Inr (Accepted r), incr ''responses_created'' 1 w2))
     | (Inr outcome, w1) \<Rightarrow> (Inr outcome, w1))"

definition release_after_failed_admission ::
  "tenant_id \<Rightarrow> conversation_id \<Rightarrow> response_id \<Rightarrow> world \<Rightarrow> world" where
  "release_after_failed_admission tenant cid rid w = snd (cs_release_active tenant cid rid Failed w)"

definition is_accepted :: "service_error + create_outcome \<Rightarrow> bool" where
  "is_accepted res = (case res of Inr (Accepted _) \<Rightarrow> True | _ \<Rightarrow> False)"

definition admit_turn ::
  "deps \<Rightarrow> response_id \<Rightarrow> tenant_id \<Rightarrow> turn_spec \<Rightarrow> idempotency_key option \<Rightarrow> nat \<Rightarrow> world
    \<Rightarrow> (service_error + create_outcome) \<times> world" where
  "admit_turn dp rid tenant spec key now_ms w =
    (let key' = (case key of Some k \<Rightarrow> k | None \<Rightarrow> IdempotencyKey_for_response (service_uuid_fmt dp) rid);
         r = ResponseRecord_queued rid tenant spec key' now_ms (cf_content_retention_ms (dp_cfg dp)) in
     case admit dp r key' w of
       (outcome, w1) \<Rightarrow>
         (outcome,
          case anchor_conversation_id (ts_anchor spec) of
            Some cid \<Rightarrow> if is_accepted outcome then w1 else release_after_failed_admission tenant cid rid w1
          | None \<Rightarrow> w1))"

definition service_create ::
  "deps \<Rightarrow> uuid \<Rightarrow> tenant_id \<Rightarrow> turn_spec \<Rightarrow> idempotency_key option \<Rightarrow> world
    \<Rightarrow> ((service_error + create_outcome) \<times> world) option" where
  "service_create dp fresh tenant spec key w =
    (case clock_now w of (now_ms, w0) \<Rightarrow>
      (case resolve_context dp tenant (ts_anchor spec) w0 of
         None \<Rightarrow> None
       | Some (Inl e) \<Rightarrow> Some (Inl e, w0)
       | Some (Inr _) \<Rightarrow>
         (let w1 = (if ts_anchor spec = Root then w0 else incr ''chain_resolved'' 1 w0);
              rid = ResponseId (cf_node_tag (dp_cfg dp)) fresh in
          case anchor_conversation_id (ts_anchor spec) of
            None \<Rightarrow> Some (admit_turn dp rid tenant spec key now_ms w1)
          | Some cid \<Rightarrow>
            (case acquire_turn tenant cid rid w1 of
               (Inl e, w2) \<Rightarrow> Some (Inl e, w2)
             | (Inr _, w2) \<Rightarrow> Some (admit_turn dp rid tenant spec key now_ms w2)))))"

section \<open>Retrieve and wait\<close>

definition service_retrieve ::
  "deps \<Rightarrow> tenant_id \<Rightarrow> response_id \<Rightarrow> world \<Rightarrow> (service_error + response_object option) option" where
  "service_retrieve dp tenant rid w =
    (case ledger_get rid (w_store w) of
       Inl e \<Rightarrow> Some (Inl (SLedger e))
     | Inr None \<Rightarrow> Some (Inr None)
     | Inr (Some r) \<Rightarrow>
       if rr_tenant_id r \<noteq> tenant then Some (Inr None)
       else map_option (\<lambda>x. case x of Inl e \<Rightarrow> Inl e | Inr obj \<Rightarrow> Inr (Some obj)) (current_object dp r w))"

text \<open>
  Waiting for a terminal event: one element per read, holding the log as found at each wake-up
  of that read; the list ends when the time budget is used up.  The object is then read from
  the world at the end.
\<close>

fun wait_loop ::
  "response_id \<Rightarrow> nat \<Rightarrow> nat option \<Rightarrow> event_log list list \<Rightarrow> event_log_error + unit" where
  "wait_loop rid page cursor [] = Inr ()"
| "wait_loop rid page cursor (polls # rest) =
    (case event_read_waiting rid cursor page polls of
       Inl e \<Rightarrow> Inl e
     | Inr batch \<Rightarrow>
       if batch = [] \<or> list_ex (\<lambda>e. kind_is_terminal (re_kind e)) batch then Inr ()
       else wait_loop rid page (Some (re_sequence_number (last batch))) rest)"

definition wait_terminal ::
  "deps \<Rightarrow> response_record \<Rightarrow> event_log list list \<Rightarrow> world \<Rightarrow> (service_error + response_object) option" where
  "wait_terminal dp r reads w =
    (case wait_loop (rr_response_id r) (cf_event_page (dp_cfg dp)) None reads of
       Inl e \<Rightarrow> Some (Inl (SEventLog e))
     | Inr _ \<Rightarrow> current_object dp r w)"

section \<open>Cancel\<close>

definition archive_turn ::
  "tenant_id \<Rightarrow> conversation_id \<Rightarrow> response_id \<Rightarrow> response_item list \<Rightarrow> response_status \<Rightarrow> world \<Rightarrow> world option" where
  "archive_turn tenant cid rid input status w =
    map_option (\<lambda>x. case x of
        Inr output \<Rightarrow> snd (on_store (append_turn tenant cid rid
          \<lparr>tc_input_items = input, tc_output_items = output, tc_reasoning = None, tc_usage = Usage_default,
           tc_status = status\<rparr>) w)
      | Inl e \<Rightarrow> w)
      (replay_completed_items rid (w_log w))"

definition archive_cancelled :: "tenant_id \<Rightarrow> response_id \<Rightarrow> response_record option \<Rightarrow> world \<Rightarrow> world option" where
  "archive_cancelled tenant rid rec w =
    (case rec of
       Some r \<Rightarrow>
         (case rr_conversation_id r of
            Some cid \<Rightarrow>
              if is_stored r then archive_turn tenant cid rid (ts_input_items (rr_spec r)) Cancelled w else Some w
          | None \<Rightarrow> Some w)
     | None \<Rightarrow> Some w)"

definition release_cancelled :: "tenant_id \<Rightarrow> response_id \<Rightarrow> response_record option \<Rightarrow> world \<Rightarrow> world" where
  "release_cancelled tenant rid rec w =
    (case Option.bind rec rr_conversation_id of
       Some cid \<Rightarrow> snd (cs_release_active tenant cid rid Cancelled w)
     | None \<Rightarrow> w)"

definition close_response :: "deps \<Rightarrow> response_id \<Rightarrow> nat \<Rightarrow> response_object \<Rightarrow> world \<Rightarrow> world" where
  "close_response dp rid now_ms obj w =
    snd (on_log (event_close rid now_ms (cf_retain_after_terminal_ms (dp_cfg dp)))
      (snd (log_append (lifecycle rid EvFailed obj) w)))"

definition service_cancel ::
  "deps \<Rightarrow> tenant_id \<Rightarrow> response_id \<Rightarrow> world \<Rightarrow> ((service_error + response_object) \<times> world) option" where
  "service_cancel dp tenant rid w =
    (case clock_now w of (now_ms, w0) \<Rightarrow>
      (case on_store (ledger_cancel tenant rid now_ms) w0 of
         (Inl e, w1) \<Rightarrow> Some (Inl (SLedger e), w1)
       | (Inr _, w1) \<Rightarrow>
         (let rec = (case ledger_get rid (w_store w1) of Inr r \<Rightarrow> r | Inl _ \<Rightarrow> None);
              obj = (case rec of
                Some r \<Rightarrow> ResponseObject_without_output (service_uuid_fmt dp) r
              | None \<Rightarrow> ResponseObject_terminal_stub (service_uuid_fmt dp) rid Cancelled) in
          map_option (\<lambda>w2. (Inr obj,
              incr ''responses_cancelled'' 1 (close_response dp rid now_ms obj (release_cancelled tenant rid rec w2))))
            (archive_cancelled tenant rid rec w1))))"

section \<open>Delete\<close>

definition service_delete :: "tenant_id \<Rightarrow> response_id \<Rightarrow> world \<Rightarrow> (service_error + bool) \<times> world" where
  "service_delete tenant rid w =
    (let conv = (case ledger_get rid (w_store w) of
                   Inr (Some r) \<Rightarrow> rr_conversation_id r
                 | _ \<Rightarrow> None) in
     case on_store (ledger_delete rid) w of
       (Inl e, w1) \<Rightarrow> (Inl (SLedger e), w1)
     | (Inr deleted, w1) \<Rightarrow>
       (let w2 = snd (on_log (event_remove rid) w1) in
        (Inr deleted,
         if deleted
         then (let w3 = incr ''responses_deleted'' 1 w2 in
               case conv of
                 Some cid \<Rightarrow> snd (cs_append_event tenant cid (ResponseDeleted rid) w3)
               | None \<Rightarrow> w3)
         else w2)))"

section \<open>Every operation returns\<close>

lemma service_latest_returns:
  assumes "world_wf w" "logs_short (w_log w)" "config_validate (dp_cfg dp) = Inr ()"
  shows "\<exists>x. service_latest dp rid w = Some (Inr x)"
proof -
  have "0 < cf_event_page (dp_cfg dp)" using assms(3) by (simp add: config_validate_ok_iff)
  from latest_response_object_returns[OF world_wfD(3)[OF assms(1)] logs_shortD[OF assms(2)] this, of rid] show ?thesis
    by (auto simp: service_latest_def)
qed

lemma resolve_context_returns:
  assumes "world_wf w" "logs_short (w_log w)" "config_validate (dp_cfg dp) = Inr ()"
  shows "\<exists>x. resolve_context dp tenant anchor w = Some x"
proof -
  have "\<exists>x. reconstruct_bare dp r w = Some x" for r
    using service_latest_returns[OF assms, of "rr_response_id r"] by (auto simp: reconstruct_bare_def)
  then have "\<exists>x. previous_context dp tenant rid w = Some x" for rid
    by (auto simp: previous_context_def ledger_get_def split: option.split context_anchor.split)
  then show ?thesis by (auto simp: resolve_context_def split: context_anchor.split)
qed

lemma archive_turn_returns:
  assumes "event_log_wf (w_log w)" "log_short rid (w_log w)"
  shows "\<exists>w'. archive_turn tenant cid rid input status w = Some w'"
  by (simp add: archive_turn_def replay_completed_items_eq[OF assms])

text \<open>C26: No operation of the service hangs in a read loop: under a validated configuration every one
  of them returns a result, whatever the anchor, the tenant and the state of the streams.\<close>

theorem service_operations_return:
  assumes wf: "world_wf w" "logs_short (w_log w)" and cfg: "config_validate (dp_cfg dp) = Inr ()"
  shows "(\<exists>x. service_create dp fresh tenant spec key w = Some x) \<and>
    (\<exists>x. service_retrieve dp tenant rid w = Some x) \<and>
    (\<exists>x. wait_terminal dp r reads w = Some x) \<and>
    (\<exists>x. service_cancel dp tenant rid w = Some x)"
proof (intro conjI)
  have cur: "\<exists>x. current_object dp r w = Some x" for r
    using service_latest_returns[OF wf cfg, of "rr_response_id r"] by (auto simp: current_object_def)
  then show "\<exists>x. service_retrieve dp tenant rid w = Some x" "\<exists>x. wait_terminal dp r reads w = Some x"
    by (auto simp: service_retrieve_def wait_terminal_def ledger_get_def split: option.split sum.split)
  have "\<exists>x. resolve_context dp tenant (ts_anchor spec) (snd (clock_now w)) = Some x"
    by (rule resolve_context_returns) (use assms in \<open>simp_all add: clock_now_def\<close>)
  then show "\<exists>x. service_create dp fresh tenant spec key w = Some x"
    by (auto simp: service_create_def clock_now_def Let_def split: sum.split option.split prod.split)
  have "\<exists>w'. archive_cancelled tenant rid rec (w\<lparr>w_readings := n, w_store := s\<rparr>) = Some w'" for rec n s
    using archive_turn_returns[of "w\<lparr>w_readings := n, w_store := s\<rparr>"] world_wfD(3)[OF wf(1)] logs_shortD[OF wf(2)]
    by (auto simp: archive_cancelled_def split: option.split)
  then show "\<exists>x. service_cancel dp tenant rid w = Some x"
    by (auto simp: service_cancel_def clock_now_def on_store_eq Let_def split: sum.split)
qed

section \<open>Create\<close>

lemma sign_keeps: "sign cx ig r0 = Inr r \<Longrightarrow> \<exists>x. r = r0\<lparr>rr_integrity := x\<rparr>"
  by (auto simp: sign_def intro: exI[of _ "rr_integrity r0"] split: option.splits sum.splits)

lemma ledger_create_accepted:
  assumes "ledger_create cx ig r0 key s = (Inr (Accepted r), s')"
  shows "(\<exists>x. r = r0\<lparr>rr_integrity := x\<rparr>) \<and> \<not> st_read_only s \<and>
    s' = insert_record r (s\<lparr>st_queued := st_queued s @ [rr_response_id r],
      st_idem := AList.update key (rr_response_id r) (st_idem s)\<rparr>)"
  using assms sign_keeps[of cx ig r0] by (auto simp: ledger_create_def split: sum.splits option.splits if_splits)

lemma append_first:
  assumes wf: "event_log_wf g" and new: "map_of (el_logs g) (ae_response_id e) = None"
    and ok: "append_write e g = (Inr n, g')"
  shows "n = 0 \<and> log_view (ae_response_id e) g' = Inr [with_seq e 0]"
proof -
  have "1 \<le> el_capacity_per_response g" using wf by (simp add: event_log_wf_def)
  then show ?thesis
    using ok new by (auto simp: append_write_def Let_def log_view_def push_event_def evict_eq ResponseLog_new_def
        split: if_splits)
qed

lemma admit_accepted:
  assumes wf: "world_wf w" and ok: "admit dp r0 key w = (Inr (Accepted r), w')" and r0: "record_ok r0"
    and fresh: "map_of (st_records (w_store w)) (rr_response_id r0) = None"
      "map_of (el_logs (w_log w)) (rr_response_id r0) = None"
  shows "(\<exists>x. r = r0\<lparr>rr_integrity := x\<rparr>) \<and> world_wf w' \<and> conv_part (w_store w') = conv_part (w_store w) \<and>
    map_of (st_records (w_store w')) (rr_response_id r0) = Some r \<and>
    rr_response_id r0 \<in> set (st_queued (w_store w')) \<and>
    log_view (rr_response_id r0) (w_log w') = Inr [with_seq (lifecycle (rr_response_id r0) EvCreated
      (ResponseObject_without_output (service_uuid_fmt dp) r)) 0]"
proof -
  let ?e = "lifecycle (rr_response_id r) EvCreated (ResponseObject_without_output (service_uuid_fmt dp) r)"
  obtain s1 n g' where c: "ledger_create (dp_codec dp) (dp_integrity dp) r0 key (w_store w) = (Inr (Accepted r), s1)"
    and a: "event_append ?e s1 (w_log w) = (Inr n, g')"
    and w': "w' = incr ''responses_created'' 1 (w\<lparr>w_store := s1, w_log := g'\<rparr>)"
    using ok by (auto simp: admit_def on_store_def log_append_def on_log_def
        split: prod.splits sum.splits create_outcome.splits)
  note acc = ledger_create_accepted[OF c]
  have id: "rr_response_id r = rr_response_id r0" using acc by auto
  have s1: "ledger_wf s1" "conv_part s1 = conv_part (w_store w)"
    using ledger_create_wf[OF world_wfD(1)[OF wf] r0 fresh(1), of "dp_codec dp" "dp_integrity dp" key]
      ledger_ops_conv_part(1)[of "dp_codec dp" "dp_integrity dp" r0 key "w_store w"] c by simp_all
  have aw: "append_write ?e (w_log w) = (Inr n, g')"
    using a by (auto simp: event_append_def split: sum.splits)
  have g': "event_log_wf g'"
    using event_append_wf[OF world_wfD(3)[OF wf], of ?e s1] a by simp
  have "world_wf w'"
    using world_wf_log[OF world_wf_ledger[OF wf s1(2) s1(1)] g'] by (simp add: w')
  moreover have "log_view (rr_response_id r0) g' = Inr [with_seq ?e 0]"
    using append_first[OF world_wfD(3)[OF wf] _ aw] fresh(2) id by (simp add: lifecycle_def)
  ultimately show ?thesis
    using acc s1(2) id by (auto simp: w' insert_record_def Let_def)
qed

subsection \<open>The turn marker\<close>

lemma conv_writable_iff: "conv_guard_writable s = Inr () \<longleftrightarrow> \<not> st_read_only s \<and> \<not> st_unavailable s"
  by (simp add: conv_guard_writable_def conv_guard_available_def)

lemma acquire_active_effect:
  assumes wf: "conv_wf s" and ok: "acquire_active t cid rid now s = (Inr n, s')"
  shows "conv_guard_writable s' = Inr () \<and> (\<exists>c. owned s' t cid = Some c \<and> cv_active_response_id c = Some rid) \<and>
    cs_last_completed (stream_of s' cid) = cs_last_completed (stream_of s cid)"
proof -
  obtain c where c: "owned s t cid = Some c" and g: "conv_guard_writable s = Inr ()"
    using ok by (auto simp: acquire_active_def split: sum.splits option.splits)
  have id: "cv_id c = cid" "cv_tenant_id c = t"
    using c conversations_wf_id[OF conv_wfD(1)[OF wf]] by (auto simp: owned_Some_iff)
  have lp: "ledger_part s' = ledger_part s"
    using conv_ops_ledger_part(6)[of t cid rid now s] ok by simp
  have g': "conv_guard_writable s' = Inr ()"
    using g ledger_part_D(6,7)[OF lp] by (simp add: conv_writable_iff)
  show ?thesis
  proof (cases "cv_active_response_id c")
    case None
    then show ?thesis
      using ok c g g' id by (auto simp: acquire_active_def owned_Some_iff push_conversation_event_eq stream_push_def
          split: sum.splits if_splits)
  next
    case (Some h)
    then show ?thesis using ok c g g' by (auto simp: acquire_active_def split: if_splits)
  qed
qed

lemma release_stale_holder_cases:
  assumes "conv_wf s"
  shows "conv_holder (snd (release_stale_active t cid rid s)) k \<in> {conv_holder s k, None}"
proof (cases "owned s t cid")
  case None
  then show ?thesis by (simp add: release_stale_active_def split: sum.split)
next
  case (Some c)
  then have "cv_id c = cid" using conversations_wf_id[OF conv_wfD(1)[OF assms]] by (auto simp: owned_Some_iff)
  then show ?thesis using Some by (auto simp: release_stale_active_def conv_holder_def split: sum.split)
qed

text \<open>Taking the turn touches neither the ledger nor the log; it succeeds only by holding the marker.\<close>

definition turn_taken :: "tenant_id \<Rightarrow> conversation_id \<Rightarrow> response_id \<Rightarrow> world \<Rightarrow> world \<Rightarrow> bool" where
  "turn_taken t cid rid w w' \<longleftrightarrow> conv_guard_writable (w_store w') = Inr () \<and>
    (\<exists>c. owned (w_store w') t cid = Some c \<and> cv_active_response_id c = Some rid) \<and>
    cs_last_completed (stream_of (w_store w') cid) = cs_last_completed (stream_of (w_store w) cid)"

definition turn_frame :: "world \<Rightarrow> world \<Rightarrow> bool" where
  "turn_frame w w' \<longleftrightarrow> world_wf w' \<and> w_log w' = w_log w \<and> ledger_part (w_store w') = ledger_part (w_store w)"

lemma turn_frame_trans: "turn_frame a b \<Longrightarrow> turn_frame b c \<Longrightarrow> turn_frame a c"
  by (simp add: turn_frame_def)

lemma cs_acquire_turn:
  assumes wf: "world_wf w" and eq: "cs_acquire_active t cid rid w = (res, w')"
  shows "turn_frame w w' \<and> (\<not> isl res \<longrightarrow> turn_taken t cid rid w w') \<and>
    (isl res \<longrightarrow> conv_holder (w_store w') = conv_holder (w_store w))"
proof -
  have w': "w' = w\<lparr>w_readings := w_readings w + 1, w_store := snd (acquire_active t cid rid (w_clock w (w_readings w)) (w_store w))\<rparr>"
    and res: "res = fst (acquire_active t cid rid (w_clock w (w_readings w)) (w_store w))"
    using eq by (auto simp: world_ops)
  have fr: "turn_frame w w'"
    using cs_acquire_active_wf[OF wf, of t cid rid] eq by (simp add: turn_frame_def w')
  obtain s1 where s1: "acquire_active t cid rid (w_clock w (w_readings w)) (w_store w) = (res, s1)"
    using res by (metis prod.collapse)
  have "turn_taken t cid rid w w'" if ok: "\<not> isl res"
  proof -
    obtain n where "res = Inr n" using ok by (cases res) auto
    then show ?thesis
      using acquire_active_effect[OF world_wfD(2)[OF wf], of t cid rid "w_clock w (w_readings w)" n s1] s1
      by (simp add: turn_taken_def w')
  qed
  moreover have "conv_holder (w_store w') = conv_holder (w_store w)" if "isl res"
    using acquire_holder[OF world_wfD(2)[OF wf], of t cid rid "w_clock w (w_readings w)"] that res
    by (auto simp: w' fun_eq_iff)
  ultimately show ?thesis using fr by blast
qed

lemma cs_release_stale_turn:
  assumes wf: "world_wf w" and eq: "cs_release_stale_active t cid h w = (res, w')"
  shows "turn_frame w w' \<and> conv_holder (w_store w') k \<in> {conv_holder (w_store w) k, None} \<and>
    stream_of (w_store w') = stream_of (w_store w)"
proof -
  have w': "w' = w\<lparr>w_store := snd (release_stale_active t cid h (w_store w))\<rparr>"
    using eq by (auto simp: world_ops)
  have "stream_of (snd (release_stale_active t cid h (w_store w))) = stream_of (w_store w)"
    by (simp add: release_stale_active_def split: sum.split option.split)
  then show ?thesis
    using cs_release_stale_active_wf[OF wf, of t cid h] eq release_stale_holder_cases[OF world_wfD(2)[OF wf], of t cid h k]
    by (simp add: turn_frame_def w')
qed

lemma turn_frame_incr [simp]: "turn_frame w (incr a k w') = turn_frame w w'" "turn_frame (incr a k w) w' = turn_frame w w'"
  by (simp_all add: turn_frame_def)

lemma acquire_turn_cases:
  assumes wf: "world_wf w" and eq: "acquire_turn t cid rid w = (res, w')"
  shows "turn_frame w w' \<and> (\<not> isl res \<longrightarrow> turn_taken t cid rid w w') \<and>
    (isl res \<longrightarrow> conv_holder (w_store w') cid \<in> {conv_holder (w_store w) cid, None})"
proof -
  obtain r1 w1 where a1: "cs_acquire_active t cid rid w = (r1, w1)" by fastforce
  note A1 = cs_acquire_turn[OF wf a1]
  show ?thesis
  proof (cases "\<exists>h. r1 = Inl (CBusy h) \<and> holder_is_stale h w1")
    case False
    then have "isl res = isl r1 \<and> w' = w1"
      using eq a1 by (auto simp: acquire_turn_def split: sum.splits conversation_error.splits if_splits)
    then show ?thesis using A1 by auto
  next
    case True
    then obtain h where h: "r1 = Inl (CBusy h)" "holder_is_stale h w1" by blast
    have wf1: "world_wf w1" using A1 by (simp add: turn_frame_def)
    obtain r2 w2 where a2: "cs_release_stale_active t cid h w1 = (r2, w2)" by fastforce
    note A2 = cs_release_stale_turn[OF wf1 a2]
    have wf2: "world_wf (incr ''conversation_stale_locks_released'' 1 w2)" using A2 by (simp add: turn_frame_def)
    obtain r3 w3 where a3: "cs_acquire_active t cid rid (incr ''conversation_stale_locks_released'' 1 w2) = (r3, w3)"
      by fastforce
    note A3 = cs_acquire_turn[OF wf2 a3]
    have str: "stream_of (w_store w1) = stream_of (w_store w)"
      using a1 h(1) by (auto simp: world_ops acquire_active_def push_conversation_event_eq split: sum.splits option.splits if_splits)
    have fr2: "turn_frame w w2" using A1 A2 turn_frame_trans by blast
    have hold2: "conv_holder (w_store w2) cid \<in> {conv_holder (w_store w) cid, None}"
      using A1 A2[of cid] h(1) by auto
    show ?thesis
    proof (cases r2)
      case (Inl e)
      then show ?thesis using eq a1 a2 h fr2 hold2 by (auto simp: acquire_turn_def)
    next
      case (Inr b)
      then have "isl res = isl r3 \<and> w' = w3"
        using eq a1 a2 a3 h by (auto simp: acquire_turn_def split: sum.splits)
      then show ?thesis
        using A3 fr2 hold2 A2 str turn_frame_trans[of w w2 w3] by (auto simp: turn_taken_def)
    qed
  qed
qed

text \<open>Releasing a turn that was just taken frees the marker, unless the stream has no room left.\<close>

lemma release_taken_turn:
  assumes wf: "conv_wf (w_store w)" and g: "conv_guard_writable (w_store w) = Inr ()"
    and c: "owned (w_store w) t cid = Some c" "cv_active_response_id c = Some rid"
    and last: "\<forall>q. cs_last_completed (stream_of (w_store w) cid) \<noteq> Some (rid, q)"
  shows "conv_holder (w_store (snd (cs_release_active t cid rid status w))) cid = None \<or>
    (w_store (snd (cs_release_active t cid rid status w)) = w_store w \<and>
     st_max_events_per_conversation (w_store w) \<le> cs_next_seq (stream_of (w_store w) cid))"
proof -
  let ?s = "w_store w" let ?now = "w_clock w (w_readings w)"
  have cc: "map_of (st_conversations ?s) cid = Some c" "cv_id c = cid"
    using c(1) conversations_wf_id[OF conv_wfD(1)[OF wf]] by (auto simp: owned_Some_iff)
  have r: "release_active t cid rid status ?now ?s = release_marker cid c rid status ?now ?s"
    using g c last by (auto simp: release_active_def split: option.splits)
  show ?thesis
  proof (cases "ensure_event_capacity ?s cid")
    case (Inl e)
    then show ?thesis
      by (auto simp: world_ops r release_marker_def ensure_event_capacity_def stream_of_def Stream_default_def Let_def
          split: if_splits option.splits)
  next
    case (Inr u)
    then have "\<not> isl (fst (release_marker cid c rid status ?now ?s))" by (simp add: release_marker_def push_conversation_event_eq)
    then show ?thesis
      using release_marker_holder[OF cc c(2), of status ?now cid] by (simp add: world_ops r)
  qed
qed

section \<open>What create promises\<close>

lemma admit_refused_conv:
  assumes "world_wf w" "admit dp r0 key w = (res, w1)"
  shows "conv_part (w_store w1) = conv_part (w_store w)"
  using assms by (auto simp: admit_def on_store_eq log_append_def on_log_eq
      split: sum.splits prod.splits create_outcome.splits)

lemma turn_frame_refl: "world_wf w \<Longrightarrow> w_log w' = w_log w \<Longrightarrow> w_store w' = w_store w \<Longrightarrow> turn_frame w w'"
  by (simp add: turn_frame_def world_wf_def)

text \<open>A create ends before the ledger is asked, or takes the turn and goes through admission.\<close>

lemma service_create_cases:
  assumes wf: "world_wf w" and eq: "service_create dp fresh tenant spec key w = Some (res, w')"
    and rid: "rid = ResponseId (cf_node_tag (dp_cfg dp)) fresh"
  shows "(isl res \<and> turn_frame w w' \<and> (\<forall>cid. anchor_conversation_id (ts_anchor spec) = Some cid \<longrightarrow>
        conv_holder (w_store w') cid \<in> {conv_holder (w_store w) cid, None})) \<or>
    (\<exists>w2. turn_frame w w2 \<and>
      (\<forall>cid. anchor_conversation_id (ts_anchor spec) = Some cid \<longrightarrow> turn_taken tenant cid rid w w2) \<and>
      admit_turn dp rid tenant spec key (w_clock w (w_readings w)) w2 = (res, w'))"
proof -
  let ?w0 = "w\<lparr>w_readings := Suc (w_readings w)\<rparr>"
  let ?w1 = "if ts_anchor spec = Root then ?w0 else incr ''chain_resolved'' 1 ?w0"
  have fr: "turn_frame w ?w0" "turn_frame w ?w1" by (rule turn_frame_refl[OF wf]; simp)+
  obtain ctx where ctx: "resolve_context dp tenant (ts_anchor spec) ?w0 = Some ctx"
    using eq by (auto simp: service_create_def clock_now_def split: option.splits)
  show ?thesis
  proof (cases ctx)
    case (Inl e)
    then have "res = Inl e" "w' = ?w0" using eq ctx by (auto simp: service_create_def clock_now_def)
    then show ?thesis using fr(1) by simp
  next
    case (Inr c)
    show ?thesis
    proof (cases "anchor_conversation_id (ts_anchor spec)")
      case None
      then have "admit_turn dp rid tenant spec key (w_clock w (w_readings w)) ?w1 = (res, w')"
        using eq ctx Inr by (auto simp: service_create_def clock_now_def Let_def rid)
      then show ?thesis using fr(2) None by (intro disjI2 exI[of _ ?w1]) simp
    next
      case (Some cid)
      obtain ra w2 where a: "acquire_turn tenant cid rid ?w1 = (ra, w2)" by fastforce
      have st: "w_store ?w1 = w_store w" by simp
      note A = acquire_turn_cases[OF _ a]
      have wf1: "world_wf ?w1" using wf by simp
      have fr2: "turn_frame w w2" using A[OF wf1] fr(2) turn_frame_trans by blast
      show ?thesis
      proof (cases ra)
        case (Inl e)
        then have "res = Inl e" "w' = w2"
          using eq ctx \<open>ctx = Inr c\<close> Some a by (auto simp: service_create_def clock_now_def Let_def rid)
        then show ?thesis using A[OF wf1] fr2 Inl Some st by auto
      next
        case (Inr u)
        then have "admit_turn dp rid tenant spec key (w_clock w (w_readings w)) w2 = (res, w')"
          using eq ctx \<open>ctx = Inr c\<close> Some a by (simp add: service_create_def clock_now_def Let_def rid)
        moreover have "turn_taken tenant cid rid w w2"
          using A[OF wf1] Inr st by (simp add: turn_taken_def)
        ultimately show ?thesis using fr2 Some by (intro disjI2 exI[of _ w2]) simp
      qed
    qed
  qed
qed

text \<open>C19: An accepted create leaves everything a client and an executor need: the queued row of this
  tenant with the requested specification, its id in the queue, a stream that begins with the
  full object, and, in a conversation, the turn marker.\<close>

theorem create_accepted:
  assumes wf: "world_wf w" and rid: "rid = ResponseId (cf_node_tag (dp_cfg dp)) fresh"
    and fresh: "map_of (st_records (w_store w)) rid = None" "map_of (el_logs (w_log w)) rid = None"
    and ok: "service_create dp fresh tenant spec key w = Some (Inr (Accepted r), w')"
  shows "world_wf w' \<and> rr_tenant_id r = tenant \<and> rr_spec r = spec \<and> rr_status r = Queued \<and>
    map_of (st_records (w_store w')) rid = Some r \<and> rid \<in> set (st_queued (w_store w')) \<and>
    log_view rid (w_log w') = Inr [with_seq (lifecycle rid EvCreated
      (ResponseObject_without_output (service_uuid_fmt dp) r)) 0] \<and>
    (\<forall>cid. ts_anchor spec = AnchorConversation cid \<longrightarrow> conv_holder (w_store w') cid = Some rid)"
proof -
  let ?key = "case key of Some k \<Rightarrow> k | None \<Rightarrow> IdempotencyKey_for_response (service_uuid_fmt dp) rid"
  let ?r0 = "ResponseRecord_queued rid tenant spec ?key (w_clock w (w_readings w)) (cf_content_retention_ms (dp_cfg dp))"
  have r0: "record_ok ?r0" "rr_response_id ?r0 = rid"
    by (simp_all add: record_ok_def ResponseRecord_queued_def UNCLAIMED_def)
  obtain w2 where fr: "turn_frame w w2"
    and taken: "\<forall>cid. anchor_conversation_id (ts_anchor spec) = Some cid \<longrightarrow> turn_taken tenant cid rid w w2"
    and at: "admit_turn dp rid tenant spec key (w_clock w (w_readings w)) w2 = (Inr (Accepted r), w')"
    using service_create_cases[OF wf ok rid] by auto
  have adm: "admit dp ?r0 ?key w2 = (Inr (Accepted r), w')"
    using at by (auto simp: admit_turn_def Let_def is_accepted_def split: prod.splits option.splits)
  have A: "(\<exists>x. r = ?r0\<lparr>rr_integrity := x\<rparr>) \<and> world_wf w' \<and> conv_part (w_store w') = conv_part (w_store w2) \<and>
    map_of (st_records (w_store w')) rid = Some r \<and> rid \<in> set (st_queued (w_store w')) \<and>
    log_view rid (w_log w') = Inr [with_seq (lifecycle rid EvCreated
      (ResponseObject_without_output (service_uuid_fmt dp) r)) 0]"
    using admit_accepted[OF _ adm r0(1)] fr fresh ledger_part_D(2)[of "w_store w2" "w_store w"] r0(2)
    by (simp add: turn_frame_def)
  have "conv_holder (w_store w') cid = Some rid" if "ts_anchor spec = AnchorConversation cid" for cid
    using taken that conv_part_views(4)[of "w_store w'" "w_store w2"] A
    by (auto simp: turn_taken_def conv_holder_def owned_Some_iff)
  then show ?thesis using A by (auto simp: ResponseRecord_queued_def)
qed

text \<open>C20: A create that is not accepted gives the turn back.  Whatever refused it -- the context, a
  busy conversation, the ledger, a replayed key, the event log -- its response does not hold the
  marker of the conversation afterwards, with one exception: a conversation whose event stream
  is full.\<close>

theorem create_refused_frees_the_turn:
  assumes wf: "world_wf w" and rid: "rid = ResponseId (cf_node_tag (dp_cfg dp)) fresh"
    and anchor: "ts_anchor spec = AnchorConversation cid"
    and fresh: "conv_holder (w_store w) cid \<noteq> Some rid"
      "\<forall>q. cs_last_completed (stream_of (w_store w) cid) \<noteq> Some (rid, q)"
    and eq: "service_create dp fresh tenant spec key w = Some (res, w')" and refused: "\<forall>r. res \<noteq> Inr (Accepted r)"
  shows "conv_holder (w_store w') cid \<noteq> Some rid \<or>
    st_max_events_per_conversation (w_store w') \<le> cs_next_seq (stream_of (w_store w') cid)"
  using service_create_cases[OF wf eq rid]
proof (elim disjE exE conjE)
  assume "\<forall>cid. anchor_conversation_id (ts_anchor spec) = Some cid \<longrightarrow>
      conv_holder (w_store w') cid \<in> {conv_holder (w_store w) cid, None}"
  then show ?thesis using anchor fresh(1) by auto
next
  fix w2
  assume fr: "turn_frame w w2" and at: "admit_turn dp rid tenant spec key (w_clock w (w_readings w)) w2 = (res, w')"
    and "\<forall>cid. anchor_conversation_id (ts_anchor spec) = Some cid \<longrightarrow> turn_taken tenant cid rid w w2"
  then have taken: "turn_taken tenant cid rid w w2" using anchor by simp
  have wf2: "world_wf w2" using fr by (simp add: turn_frame_def)
  have na: "\<not> is_accepted res" using refused by (auto simp: is_accepted_def split: sum.splits create_outcome.splits)
  then obtain r0 key' w3 where adm: "admit dp r0 key' w2 = (res, w3)"
      and w': "w' = release_after_failed_admission tenant cid rid w3"
    using at anchor by (auto simp: admit_turn_def Let_def split: prod.splits)
  have cp: "conv_part (w_store w3) = conv_part (w_store w2)" by (rule admit_refused_conv[OF wf2 adm])
  have g: "conv_guard_writable (w_store w3) = Inr ()"
    using taken conv_part_D(5,6)[OF cp] by (simp add: turn_taken_def conv_writable_iff)
  obtain c where c: "owned (w_store w3) tenant cid = Some c" "cv_active_response_id c = Some rid"
    using taken conv_part_views(1)[OF cp] by (auto simp: turn_taken_def)
  have "\<forall>q. cs_last_completed (stream_of (w_store w3) cid) \<noteq> Some (rid, q)"
    using taken fresh(2) conv_part_views(2)[OF cp] by (simp add: turn_taken_def)
  from release_taken_turn[OF _ g c this, of Failed] show ?thesis
    using conv_part_D(1)[OF cp] world_wfD(2)[OF wf2] by (auto simp: w' release_after_failed_admission_def)
qed

section \<open>What resolution and retrieval promise\<close>

text \<open>A resolved context is within all three bounds, and comes from the caller's own data only:
  nothing for a root, the snapshot of a conversation the tenant owns, or a stored response of
  the same tenant.\<close>

theorem resolve_context_bounded:
  assumes "resolve_context dp tenant anchor w = Some (Inr c)"
  shows "rc_turns c < cl_max_depth (cf_chain (dp_cfg dp)) \<and>
    length (rc_entries c) \<le> cl_max_items (cf_chain (dp_cfg dp)) \<and>
    min (sum_list (map (item_byte_len \<circ> ce_item) (rc_entries c))) u64_max \<le> cl_max_bytes (cf_chain (dp_cfg dp)) \<and>
    (case anchor of
       Root \<Rightarrow> rc_entries c = []
     | AnchorConversation cid \<Rightarrow> rc_entries c = sn_entries (snapshot_of (w_store w) cid) \<and>
         (\<exists>cv. map_of (st_conversations (w_store w)) cid = Some cv \<and> cv_tenant_id cv = tenant)
     | Previous rid \<Rightarrow> (\<exists>r. map_of (st_records (w_store w)) rid = Some r \<and> rr_tenant_id r = tenant \<and>
         ts_store (rr_spec r) \<and> (\<forall>p. ts_anchor (rr_spec r) \<noteq> Previous p)))"
proof -
  obtain x where x: "(case anchor of
         Root \<Rightarrow> Some (Inr ResolvedContext_default)
       | AnchorConversation cid \<Rightarrow> Some (snapshot_context tenant cid w)
       | Previous rid \<Rightarrow> previous_context dp tenant rid w) = Some x"
    and wx: "(case x of Inl e \<Rightarrow> Inl e | Inr c \<Rightarrow> within_limits (cf_chain (dp_cfg dp)) c) = Inr c"
    using assms by (auto simp: resolve_context_def)
  obtain c0 where c0: "x = Inr c0" and wl: "within_limits (cf_chain (dp_cfg dp)) c0 = Inr c"
    using wx by (cases x) auto
  note c0 = x[unfolded c0]
  have lim: "c0 = c" "rc_turns c < cl_max_depth (cf_chain (dp_cfg dp))"
      "length (rc_entries c) \<le> cl_max_items (cf_chain (dp_cfg dp))" "rc_bytes c \<le> cl_max_bytes (cf_chain (dp_cfg dp))"
    using wl by (auto simp: within_limits_def rc_item_count_def split: if_splits)
  show ?thesis
  proof (cases anchor)
    case Root
    then show ?thesis using c0 lim rc_bytes_eq[of c]
      by (auto simp: ResolvedContext_default_def ResolvedContext_new_def)
  next
    case (AnchorConversation cid)
    then show ?thesis using c0 lim rc_bytes_eq[of c]
      by (auto simp: snapshot_context_def cs_read_snapshot_def read_snapshot_def owned_Some_iff ResolvedContext_new_def
          split: sum.splits option.splits)
  next
    case (Previous rid)
    then show ?thesis using c0 lim rc_bytes_eq[of c]
      by (auto simp: previous_context_def ledger_get_def is_referencable_by_def is_stored_def
          split: option.splits if_splits context_anchor.splits)
  qed
qed

text \<open>Retrieval does not tell a foreign response from an absent one.  For the owner it renders the
  last object the stream carries, and falls back to the row when the stream is gone.\<close>

theorem service_retrieve_spec:
  assumes wf: "world_wf w" "logs_short (w_log w)" and cfg: "config_validate (dp_cfg dp) = Inr ()"
    and view: "\<forall>ring. log_view rid (w_log w) = Inr ring \<longrightarrow> \<not> list_ex (\<lambda>e. kind_is_terminal (re_kind e)) (butlast ring)"
  shows "service_retrieve dp tenant rid w = Some (Inr
    (case map_of (st_records (w_store w)) rid of
       None \<Rightarrow> None
     | Some r \<Rightarrow>
       if rr_tenant_id r \<noteq> tenant then None
       else Some (case log_view rid (w_log w) of
           Inl _ \<Rightarrow> ResponseObject_without_output (service_uuid_fmt dp) r
         | Inr ring \<Rightarrow> (case List.map_filter re_response_object ring of
               [] \<Rightarrow> ResponseObject_without_output (service_uuid_fmt dp) r
             | objs \<Rightarrow> last objs))))"
proof (cases "map_of (st_records (w_store w)) rid")
  case None
  then show ?thesis by (simp add: service_retrieve_def ledger_get_def)
next
  case (Some r)
  have id: "rr_response_id r = rid" by (rule records_wf_id[OF ledger_wfD(1)[OF world_wfD(1)[OF wf(1)]] Some])
  have page: "0 < cf_event_page (dp_cfg dp)" using cfg by (simp add: config_validate_ok_iff)
  note e = world_wfD(3)[OF wf(1)] logs_shortD[OF wf(2)] page
  have "latest_response_object (cf_event_page (dp_cfg dp)) rid (w_log w) = Some (Inr
      (case log_view rid (w_log w) of Inl _ \<Rightarrow> None | Inr ring \<Rightarrow> fold absorb_object ring None))"
  proof (cases "log_view rid (w_log w)")
    case (Inl x)
    then show ?thesis using latest_response_object_eq[OF e, of rid] by simp
  next
    case (Inr ring')
    then have "\<not> list_ex (\<lambda>e. kind_is_terminal (re_kind e)) (butlast ring')" using view by blast
    then show ?thesis using latest_response_object_all[OF e Inr] Inr by simp
  qed
  then show ?thesis
    using Some id by (auto simp: service_retrieve_def ledger_get_def current_object_def service_latest_def
        fold_absorb_object split: sum.split list.split)
qed

section \<open>What cancel promises\<close>

text \<open>Archiving touches the snapshot of one conversation and nothing else.\<close>

definition snapshot_frame :: "world \<Rightarrow> world \<Rightarrow> bool" where
  "snapshot_frame w w' \<longleftrightarrow> w_log w' = w_log w \<and> ledger_part (w_store w') = ledger_part (w_store w) \<and>
    st_conversations (w_store w') = st_conversations (w_store w) \<and>
    st_conversation_events (w_store w') = st_conversation_events (w_store w) \<and>
    w_clock w' = w_clock w \<and> w_readings w' = w_readings w \<and> (world_wf w \<longrightarrow> world_wf w')"

lemma snapshot_frame_refl [simp]: "snapshot_frame w w"
  by (simp add: snapshot_frame_def)

lemma append_turn_frame: "snapshot_frame w (w\<lparr>w_store := snd (append_turn t cid rid commit (w_store w))\<rparr>)"
proof -
  have "st_conversations (snd (append_turn t cid rid commit s)) = st_conversations s"
    "st_conversation_events (snd (append_turn t cid rid commit s)) = st_conversation_events s" for s
    by (simp_all add: append_turn_def Let_def split: sum.split option.split)
  then show ?thesis
    using world_wf_conv[OF _ append_turn_ledger_part append_turn_wf[OF world_wfD(2)], of w t cid rid commit]
    by (simp add: snapshot_frame_def)
qed

lemma archive_turn_frame:
  assumes "archive_turn t cid rid input status w = Some w'"
  shows "snapshot_frame w w'"
proof -
  obtain x where "replay_completed_items rid (w_log w) = Some x" using assms by (auto simp: archive_turn_def)
  then show ?thesis
    using assms append_turn_frame[of w t cid rid] by (cases x) (auto simp: archive_turn_def on_store_eq)
qed

lemma append_turn_remembers:
  assumes "conv_guard_writable s = Inr ()" "owned s t cid = Some c"
  shows "map_of (sn_appended (snapshot_of (snd (append_turn t cid rid commit s)) cid)) rid \<noteq> None"
proof -
  have put: "snapshot_of (s\<lparr>st_snapshots := AList.update cid sn (st_snapshots s)\<rparr>) cid = sn" for sn
    by (simp add: snapshot_of_def)
  show ?thesis
    using assms by (cases "map_of (sn_appended (snapshot_of s cid)) rid") (simp_all add: append_turn_def Let_def put)
qed

lemma archive_turn_done:
  assumes wf: "event_log_wf (w_log w)" "log_short rid (w_log w)" and g: "conv_guard_writable (w_store w) = Inr ()"
    and own: "owned (w_store w) t cid = Some c" and view: "log_view rid (w_log w) = Inr ring"
    and ok: "archive_turn t cid rid input status w = Some w'"
  shows "map_of (sn_appended (snapshot_of (w_store w') cid)) rid \<noteq> None"
  using ok append_turn_remembers[OF g own, of rid]
  by (auto simp: archive_turn_def replay_completed_items_eq[OF wf] view on_store_eq)

lemma close_response_entry:
  assumes wf: "event_log_wf (w_log w)" and ro: "\<not> st_read_only (w_store w)"
    and l: "map_of (el_logs (w_log w)) rid = Some l" "\<not> rl_swept l"
  shows "\<exists>l'. map_of (el_logs (w_log (close_response dp rid now obj w))) rid = Some l' \<and>
    last (rl_ring l') = with_seq (lifecycle rid EvFailed obj) (rl_next_seq l) \<and>
    rl_next_seq l' = rl_next_seq l + 1 \<and> rl_terminal_at_ms l' = Some now \<and>
    rl_retain_ms l' = cf_retain_after_terminal_ms (dp_cfg dp) \<and> \<not> rl_swept l'"
    and "w_store (close_response dp rid now obj w) = w_store w"
proof -
  have cap: "1 \<le> el_capacity_per_response (w_log w)" using wf by (simp add: event_log_wf_def)
  have last: "last (drop (Suc (length (rl_ring l)) - el_capacity_per_response (w_log w)) (rl_ring l @ [x])) = x" for x
    using cap by simp
  show "\<exists>l'. map_of (el_logs (w_log (close_response dp rid now obj w))) rid = Some l' \<and>
    last (rl_ring l') = with_seq (lifecycle rid EvFailed obj) (rl_next_seq l) \<and>
    rl_next_seq l' = rl_next_seq l + 1 \<and> rl_terminal_at_ms l' = Some now \<and>
    rl_retain_ms l' = cf_retain_after_terminal_ms (dp_cfg dp) \<and> \<not> rl_swept l'"
    using l ro last by (simp add: close_response_def world_ops event_append_def append_fence_def lifecycle_def
        append_write_def Let_def event_close_def push_event_def evict_eq)
  show "w_store (close_response dp rid now obj w) = w_store w"
    by (simp add: close_response_def world_ops)
qed

lemma ledger_cancel_done:
  assumes "ledger_cancel tenant rid now s = (Inr u, s')"
  shows "\<exists>r r'. map_of (st_records s) rid = Some r \<and> rr_tenant_id r = tenant \<and> \<not> is_terminal (rr_status r) \<and>
    map_of (st_records s') rid = Some r' \<and> rr_status r' = Cancelled \<and> rr_spec r' = rr_spec r \<and>
    \<not> st_read_only s \<and> conv_part s' = conv_part s"
  using assms ledger_ops_conv_part(5)[of tenant rid now s]
  by (auto simp: ledger_cancel_def guard_writable_def split: option.splits if_splits)

text \<open>A cancel that succeeds is the cancel of the row, the archive, the release and the closing, in this order.\<close>

lemma service_cancel_steps:
  assumes ok: "service_cancel dp tenant rid w = Some (Inr obj, w')"
  obtains s1 r' w1 w2 where
    "ledger_cancel tenant rid (w_clock w (w_readings w)) (w_store w) = (Inr (), s1)"
    "w1 = w\<lparr>w_readings := Suc (w_readings w), w_store := s1\<rparr>"
    "map_of (st_records s1) rid = Some r'" "obj = ResponseObject_without_output (service_uuid_fmt dp) r'"
    "archive_cancelled tenant rid (Some r') w1 = Some w2"
    "w' = incr ''responses_cancelled'' 1 (close_response dp rid (w_clock w (w_readings w)) obj
      (release_cancelled tenant rid (Some r') w2))"
proof -
  obtain s1 where c: "ledger_cancel tenant rid (w_clock w (w_readings w)) (w_store w) = (Inr (), s1)"
    using ok by (auto simp: service_cancel_def clock_now_def on_store_def split: prod.splits sum.splits)
  obtain r' where r': "map_of (st_records s1) rid = Some r'"
    using ledger_cancel_done[OF c] by blast
  show ?thesis
    using ok c r' that by (auto simp: service_cancel_def clock_now_def on_store_def ledger_get_def Let_def)
qed

lemma archive_cancelled_frame: "archive_cancelled tenant rid rec w = Some w2 \<Longrightarrow> snapshot_frame w w2"
  by (auto simp: archive_cancelled_def dest: archive_turn_frame split: option.splits if_splits)

lemma release_cancelled_frame:
  "w_log (release_cancelled tenant rid rec w) = w_log w"
  "ledger_part (w_store (release_cancelled tenant rid rec w)) = ledger_part (w_store w)"
  by (simp_all add: release_cancelled_def world_ops split: option.split)

lemma release_active_snapshot [simp]: "snapshot_of (snd (release_active t cid rid st now s)) = snapshot_of s"
  by (simp add: release_active_def release_marker_def push_conversation_event_eq split: sum.split option.split)

text \<open>A release on behalf of a response never leaves it holding the marker, with two exceptions.\<close>

lemma release_leaves_unheld:
  assumes wf: "conv_wf (w_store w)" and g: "conv_guard_writable (w_store w) = Inr ()"
    and c: "owned (w_store w) t cid = Some c"
  shows "conv_holder (w_store (snd (cs_release_active t cid rid status w))) cid \<noteq> Some rid \<or>
    st_max_events_per_conversation (w_store w) \<le> cs_next_seq (stream_of (w_store w) cid) \<or>
    (\<exists>q. cs_last_completed (stream_of (w_store w) cid) = Some (rid, q))"
proof (cases "cv_active_response_id c = Some rid")
  case True
  then show ?thesis using release_taken_turn[OF wf g c, of rid status] by auto
next
  case False
  then have "w_store (snd (cs_release_active t cid rid status w)) = w_store w"
    using g c by (simp add: world_ops release_active_def)
  then show ?thesis using False c by (auto simp: conv_holder_def owned_Some_iff)
qed

text \<open>C21: A cancel that succeeds settles everything the response owned.  The row, which was the
  tenant's and still running, is cancelled; its stream ends with the terminal event carrying the
  cancelled object and its retention starts; and in a conversation the turn is archived and the
  marker is free, unless the stream is full or this response had already completed a turn.\<close>

theorem service_cancel_settles:
  assumes wf: "world_wf w" "logs_short (w_log w)" and up: "\<not> st_unavailable (w_store w)"
    and ok: "service_cancel dp tenant rid w = Some (Inr obj, w')"
    and l: "map_of (el_logs (w_log w)) rid = Some l" "\<not> rl_swept l" "rl_evicted_before l = 0"
  shows "\<exists>r. map_of (st_records (w_store w)) rid = Some r \<and> rr_tenant_id r = tenant \<and> \<not> is_terminal (rr_status r) \<and>
    (\<exists>r'. map_of (st_records (w_store w')) rid = Some r' \<and> rr_status r' = Cancelled \<and>
       obj = ResponseObject_without_output (service_uuid_fmt dp) r') \<and>
    (\<exists>l'. map_of (el_logs (w_log w')) rid = Some l' \<and> rl_terminal_at_ms l' = Some (w_clock w (w_readings w)) \<and>
       last (rl_ring l') = with_seq (lifecycle rid EvFailed obj) (rl_next_seq l)) \<and>
    (\<forall>cid c. rr_conversation_id r = Some cid \<and> owned (w_store w) tenant cid = Some c \<longrightarrow>
       (is_stored r \<longrightarrow> map_of (sn_appended (snapshot_of (w_store w') cid)) rid \<noteq> None) \<and>
       (conv_holder (w_store w') cid \<noteq> Some rid \<or>
        st_max_events_per_conversation (w_store w) \<le> cs_next_seq (stream_of (w_store w) cid) \<or>
        (\<exists>q. cs_last_completed (stream_of (w_store w) cid) = Some (rid, q))))"
proof -
  let ?now = "w_clock w (w_readings w)"
  obtain s1 r' w1 w2 where st: "ledger_cancel tenant rid ?now (w_store w) = (Inr (), s1)"
    "w1 = w\<lparr>w_readings := Suc (w_readings w), w_store := s1\<rparr>"
    "map_of (st_records s1) rid = Some r'" "obj = ResponseObject_without_output (service_uuid_fmt dp) r'"
    "archive_cancelled tenant rid (Some r') w1 = Some w2"
    "w' = incr ''responses_cancelled'' 1 (close_response dp rid ?now obj (release_cancelled tenant rid (Some r') w2))"
    using service_cancel_steps[OF ok] by metis
  let ?w3 = "release_cancelled tenant rid (Some r') w2"
  obtain r where r: "map_of (st_records (w_store w)) rid = Some r" "rr_tenant_id r = tenant" "\<not> is_terminal (rr_status r)"
      "rr_status r' = Cancelled" "rr_spec r' = rr_spec r" "\<not> st_read_only (w_store w)" "conv_part s1 = conv_part (w_store w)"
    using ledger_cancel_done[OF st(1)] st(3) by auto
  note F = archive_cancelled_frame[OF st(5), unfolded snapshot_frame_def]
  have lp: "ledger_part (w_store ?w3) = ledger_part s1" using F st(2) release_cancelled_frame by simp
  have ro: "\<not> st_read_only s1" "\<not> st_unavailable s1" using r(6) up conv_part_D(5,6)[OF r(7)] by simp_all
  have log: "w_log ?w3 = w_log w" using F st(2) release_cancelled_frame(1) by simp
  have cl: "\<exists>l'. map_of (el_logs (w_log w')) rid = Some l' \<and> rl_terminal_at_ms l' = Some ?now \<and>
       last (rl_ring l') = with_seq (lifecycle rid EvFailed obj) (rl_next_seq l)"
    and sto: "w_store w' = w_store ?w3"
    using close_response_entry[of ?w3 rid l dp ?now obj] log l ro world_wfD(3)[OF wf(1)] ledger_part_D(6)[OF lp] st(6)
    by auto
  have rec: "map_of (st_records (w_store w')) rid = Some r'"
    using ledger_part_D(2)[OF lp] st(3) sto by simp
  have conv: "(is_stored r \<longrightarrow> map_of (sn_appended (snapshot_of (w_store w') cid)) rid \<noteq> None) \<and>
       (conv_holder (w_store w') cid \<noteq> Some rid \<or>
        st_max_events_per_conversation (w_store w) \<le> cs_next_seq (stream_of (w_store w) cid) \<or>
        (\<exists>q. cs_last_completed (stream_of (w_store w) cid) = Some (rid, q)))"
    if cid: "rr_conversation_id r = Some cid" and own: "owned (w_store w) tenant cid = Some c" for cid c
  proof -
    have cid': "rr_conversation_id r' = Some cid" "is_stored r' = is_stored r"
      using cid r(5) by (simp_all add: rr_conversation_id_def is_stored_def)
    have w3: "?w3 = snd (cs_release_active tenant cid rid Cancelled w2)" using cid'(1) by (simp add: release_cancelled_def)
    have own1: "owned (w_store w1) tenant cid = Some c" using own conv_part_views(1)[OF r(7)] st(2) by simp
    have g1: "conv_guard_writable (w_store w1) = Inr ()" using ro st(2) by (simp add: conv_writable_iff)
    have view: "log_view rid (w_log w1) = Inr (rl_ring l)" using l st(2) by (simp add: log_view_def)
    have arch: "map_of (sn_appended (snapshot_of (w_store w2) cid)) rid \<noteq> None" if "is_stored r"
      using archive_turn_done[OF _ _ g1 own1 view] st(2,5) logs_shortD[OF wf(2)] world_wfD(3)[OF wf(1)] that cid'
      by (simp add: archive_cancelled_def)
    have same2: "owned (w_store w2) tenant cid = Some c" "stream_of (w_store w2) = stream_of (w_store w1)"
        "conv_guard_writable (w_store w2) = Inr ()" "conv_wf (w_store w2)"
      using F own1 g1 ledger_part_D(6,7)[of "w_store w2" "w_store w1"] conv_part_D(1)[OF r(7)] st(2) world_wfD[OF wf(1)]
        ledger_cancel_wf[of "w_store w" tenant rid ?now] st(1)
      by (auto simp: owned_def stream_of_def fun_eq_iff conv_writable_iff world_wf_def)
    have str: "stream_of (w_store w2) = stream_of (w_store w)"
      "st_max_events_per_conversation (w_store w2) = st_max_events_per_conversation (w_store w)"
      using same2(2) conv_part_views(2)[OF r(7)] conv_part_D(7)[OF r(7)] F ledger_part_D(11)[of "w_store w2" "w_store w1"] st(2) by simp_all
    show ?thesis
      using release_leaves_unheld[OF same2(4,3,1), of rid Cancelled] str arch sto w3 by (auto simp: world_ops)
  qed
  show ?thesis using r(1-4) rec st(4) cl conv by blast
qed

section \<open>Where the code is weaker than it means to be\<close>

text \<open>Deleting a response asks nothing of the caller: any tenant that names the id removes the row
  and the stream of another tenant's response.\<close>

theorem delete_ignores_the_tenant:
  assumes wf: "world_wf w" and rw: "\<not> st_read_only (w_store w)" and r: "map_of (st_records (w_store w)) rid = Some r"
    and eq: "service_delete tenant rid w = (res, w')"
  shows "res = Inr True \<and> map_of (st_records (w_store w')) rid = None \<and> map_of (el_logs (w_log w')) rid = None"
proof -
  have d: "ledger_delete rid (w_store w) = (Inr True, snd (remove_record rid (w_store w)))"
    using rw r by (simp add: ledger_delete_def guard_writable_def remove_record_def)
  have kd: "keys_distinct (el_logs (w_log w))"
    using world_wfD(3)[OF wf] by (auto simp: event_log_wf_def log_refines_all_def)
  have lg: "map_of (el_logs (snd (event_remove rid (w_log w)))) rid = None"
    using kd by (auto simp: event_remove_def split: option.split)
  have rm: "map_of (st_records (snd (remove_record rid (w_store w)))) rid = None"
    using r by (simp add: remove_record_def)
  have ap: "st_records (snd (conv_append_event tenant cid k now s)) = st_records s" for cid k now s
    by (rule ledger_part_D(2)) simp
  show ?thesis
    using eq lg rm ap by (auto simp: service_delete_def d r ledger_get_def Let_def world_ops split: option.splits)
qed

text \<open>When the ledger accepted a response but its first event cannot be written, the caller is
  told that the create failed while the row stays queued and will be executed.\<close>

theorem failed_create_still_runs:
  assumes "admit dp r0 key w = (Inl (SEventLog e), w')" "rr_status r0 = Queued"
  shows "\<exists>r. map_of (st_records (w_store w')) (rr_response_id r0) = Some r \<and> rr_status r = Queued \<and>
    rr_response_id r0 \<in> set (st_queued (w_store w'))"
proof -
  obtain x s1 where c0: "ledger_create (dp_codec dp) (dp_integrity dp) r0 key (w_store w) = (x, s1)" by fastforce
  have "\<exists>r. x = Inr (Accepted r)"
  proof (cases x)
    case (Inr o1)
    then show ?thesis using assms(1) c0 by (cases o1) (simp_all add: admit_def on_store_def)
  qed (use assms(1) c0 in \<open>simp add: admit_def on_store_def\<close>)
  then obtain r where c: "ledger_create (dp_codec dp) (dp_integrity dp) r0 key (w_store w) = (Inr (Accepted r), s1)"
    using c0 by blast
  have w': "w_store w' = s1"
    using assms(1) c by (auto simp: admit_def on_store_def log_append_def on_log_eq split: sum.splits)
  obtain y where "r = r0\<lparr>rr_integrity := y\<rparr>"
    and s1: "s1 = insert_record r ((w_store w)\<lparr>st_queued := st_queued (w_store w) @ [rr_response_id r],
      st_idem := AList.update key (rr_response_id r) (st_idem (w_store w))\<rparr>)"
    using ledger_create_accepted[OF c] by blast
  then have "rr_response_id r = rr_response_id r0" "rr_status r = Queued" using assms(2) by simp_all
  then show ?thesis by (simp add: w' s1 insert_record_def Let_def)
qed

section \<open>Examples\<close>

definition demo_deps :: deps where
  "demo_deps = \<lparr>dp_cfg = Config_for_node (NodeTag ''n1''), dp_codec = demo_codec, dp_integrity = None\<rparr>"

definition world_at :: "mem_store \<Rightarrow> event_log \<Rightarrow> world" where
  "world_at s g = \<lparr>w_store = s, w_log = g, w_clock = (\<lambda>n. n + 1), w_readings = 0, w_metrics = []\<rparr>"

lemma world_at_fields [simp]:
  "w_store (world_at s g) = s" "w_log (world_at s g) = g" "w_readings (world_at s g) = 0"
  "w_clock (world_at s g) n = n + 1"
  by (simp_all add: world_at_def)

lemma world_at_wf: "ledger_wf s \<Longrightarrow> conv_wf s \<Longrightarrow> event_log_wf g \<Longrightarrow> world_wf (world_at s g)"
  by (simp add: world_wf_def)

lemma demo_deps_valid: "config_validate (dp_cfg demo_deps) = Inr ()"
  by (simp add: demo_deps_def Config_for_node_valid)

lemma demo_running_world: "world_wf (world_at demo_running demo_log)" "world_wf (world_at demo_running demo_log1)"
proof -
  have "conv_part demo_running = conv_part MemStore_new"
    by (simp add: demo_running_def demo_queued_def)
  then have "conv_wf demo_running" using conv_part_D(1) conv_wf_new by blast
  then show "world_wf (world_at demo_running demo_log)" "world_wf (world_at demo_running demo_log1)"
    by (simp_all add: world_at_wf demo_running_wf demo_log_wf)
qed

lemma demo_logs_short: "logs_short demo_log" "logs_short demo_log1"
  by (auto simp: logs_short_def log_short_def demo_log1_def demo_log_def EventLog_with_capacity_def append_write_def
      demo_delta_def text_delta_def ResponseLog_new_def push_event_def evict_eq u64_max_def Let_def)

theorem service_operations_return_witness:
  "\<exists>x. service_cancel demo_deps demo_tenant demo_rid (world_at demo_running demo_log1) = Some x"
  using service_operations_return[OF demo_running_world(2) _ demo_deps_valid] demo_logs_short by simp

theorem service_retrieve_spec_witness:
  "service_retrieve demo_deps (TenantId ''other'') demo_rid (world_at demo_running demo_log) = Some (Inr None) \<and>
   service_retrieve demo_deps demo_tenant demo_rid (world_at demo_running demo_log)
     = Some (Inr (Some (ResponseObject_without_output (service_uuid_fmt demo_deps) demo_claimed_record)))"
proof -
  have v: "log_view demo_rid demo_log = Inl EUnknown"
    by (simp add: log_view_def demo_log_def EventLog_with_capacity_def)
  show ?thesis
    using service_retrieve_spec[OF demo_running_world(1) _ demo_deps_valid, of demo_rid "TenantId ''other''"]
      service_retrieve_spec[OF demo_running_world(1) _ demo_deps_valid, of demo_rid demo_tenant]
    by (simp add: v demo_logs_short demo_running_fields demo_claimed_record_def demo_tenant_def)
qed

theorem resolve_context_bounded_witness:
  "resolve_context demo_deps demo_tenant Root (world_at demo_running demo_log) = Some (Inr ResolvedContext_default) \<and>
    rc_turns ResolvedContext_default < cl_max_depth (cf_chain (dp_cfg demo_deps))"
proof -
  have "resolve_context demo_deps demo_tenant Root (world_at demo_running demo_log) = Some (Inr ResolvedContext_default)"
    by (simp add: resolve_context_def within_limits_def demo_deps_def Config_for_node_def ChainLimits_default_def
        ResolvedContext_default_def ResolvedContext_new_def rc_item_count_def rc_bytes_def)
  with resolve_context_bounded[OF this] show ?thesis by simp
qed

theorem delete_ignores_the_tenant_witness:
  "\<exists>w'. service_delete (TenantId ''other'') demo_rid (world_at demo_running demo_log1) = (Inr True, w') \<and>
    map_of (st_records (w_store w')) demo_rid = None"
proof -
  obtain res w' where e: "service_delete (TenantId ''other'') demo_rid (world_at demo_running demo_log1) = (res, w')"
    by fastforce
  have r: "map_of (st_records (w_store (world_at demo_running demo_log1))) demo_rid = Some demo_claimed_record"
    and rw: "\<not> st_read_only (w_store (world_at demo_running demo_log1))"
    by (simp_all add: demo_running_fields)
  show ?thesis using delete_ignores_the_tenant[OF demo_running_world(2) rw r e] e by simp
qed

theorem failed_create_still_runs_witness:
  "\<exists>w'. admit demo_deps demo_record demo_key
      (world_at MemStore_new \<lparr>el_logs = [(ResponseId (NodeTag ''n1'') 9, ResponseLog_new)],
        el_capacity_per_response = 1, el_max_logs = 1\<rparr>) = (Inl (SEventLog ECapacityExceeded), w') \<and>
    demo_rid \<in> set (st_queued (w_store w'))"
proof -
  let ?w = "world_at MemStore_new \<lparr>el_logs = [(ResponseId (NodeTag ''n1'') 9, ResponseLog_new)],
        el_capacity_per_response = 1, el_max_logs = 1\<rparr>"
  have c: "ledger_create demo_codec None demo_record demo_key MemStore_new = (Inr (Accepted demo_record), demo_queued)"
    by (simp add: demo_queued_def ledger_create_def sign_def MemStore_new_def in_flight_count_def)
  have "\<exists>w'. admit demo_deps demo_record demo_key ?w = (Inl (SEventLog ECapacityExceeded), w')"
    using demo_queued_fields(3)
    by (simp add: admit_def on_store_def demo_deps_def c log_append_def on_log_def event_append_def append_fence_def
        lifecycle_def append_write_def demo_rid_def)
  then obtain w' where w': "admit demo_deps demo_record demo_key ?w = (Inl (SEventLog ECapacityExceeded), w')" ..
  then show ?thesis using failed_create_still_runs[OF w'] by auto
qed

definition demo_turn_spec :: turn_spec where
  "demo_turn_spec = demo_spec\<lparr>ts_anchor := AnchorConversation demo_cid\<rparr>"

lemma demo_idle_world: "world_wf (world_at demo_idle demo_log)"
proof -
  have "ledger_part demo_idle = ledger_part MemStore_new" by (simp add: demo_idle_def)
  then have "ledger_wf demo_idle" using ledger_part_D(1) ledger_wf_new by blast
  then show ?thesis by (simp add: world_at_wf demo_idle_wf demo_log_wf)
qed

lemma demo_busy_ledger:
  "st_records demo_busy = []" "st_idem demo_busy = []" "\<not> st_read_only demo_busy"
  "st_pending_limit demo_busy = 10000" "st_max_records demo_busy = 100000"
proof -
  have "ledger_part demo_busy = ledger_part MemStore_new" by (simp add: demo_busy_def demo_idle_def)
  from ledger_part_D[OF this] show "st_records demo_busy = []" "st_idem demo_busy = []" "\<not> st_read_only demo_busy"
    "st_pending_limit demo_busy = 10000" "st_max_records demo_busy = 100000"
    by (simp_all add: MemStore_new_def)
qed

lemma demo_create_accepted:
  "\<exists>r w'. service_create demo_deps 1 demo_tenant demo_turn_spec None (world_at demo_idle demo_log)
    = Some (Inr (Accepted r), w')"
proof -
  have id: "ResponseId (cf_node_tag (dp_cfg demo_deps)) 1 = demo_rid"
    by (simp add: demo_deps_def Config_for_node_def demo_rid_def)
  have ctx: "resolve_context demo_deps demo_tenant (AnchorConversation demo_cid) w = Some (Inr (ResolvedContext_new [] 0))"
    if "w_store w = demo_idle" for w
    using that demo_idle_fields
    by (simp add: resolve_context_def snapshot_context_def cs_read_snapshot_def read_snapshot_def conv_guard_available_def
        conv_writable_iff within_limits_def ResolvedContext_new_def rc_item_count_def rc_bytes_def demo_deps_def
        Config_for_node_def ChainLimits_default_def snapshot_of_def demo_idle_eq insert_conversation_def MemStore_new_def
        Snapshot_default_def)
  obtain n where acq: "acquire_active demo_tenant demo_cid demo_rid 2 demo_idle = (Inr n, demo_busy)"
    using demo_idle_fields
    by (auto simp: demo_busy_def acquire_active_def Conversation_new_def push_conversation_event_eq)
  have adm: "\<exists>r w'. admit_turn demo_deps demo_rid demo_tenant demo_turn_spec None now w = (Inr (Accepted r), w')"
    if "w_store w = demo_busy" "w_log w = demo_log" for w now
    using that demo_busy_ledger
    by (simp add: admit_turn_def Let_def admit_def on_store_def demo_deps_def ledger_create_def sign_def in_flight_count_def
        log_append_def on_log_def event_append_def append_fence_def lifecycle_def insert_record_def append_write_def
        demo_log_def EventLog_with_capacity_def ResponseLog_new_def demo_turn_spec_def is_accepted_def
        split: option.split)
  have at: "acquire_turn demo_tenant demo_cid demo_rid w = (Inr (), w\<lparr>w_readings := 2, w_store := demo_busy\<rparr>)"
    if "w_store w = demo_idle" "w_clock w 1 = 2" "w_readings w = 1" for w
    using that acq by (simp add: acquire_turn_def world_ops numeral_2_eq_2)
  show ?thesis
    using adm[of "(incr ''chain_resolved'' 1 ((world_at demo_idle demo_log)\<lparr>w_readings := 1\<rparr>))\<lparr>w_readings := 2, w_store := demo_busy\<rparr>" 1]
    by (simp add: service_create_def clock_now_def id demo_turn_spec_def ctx at Let_def numeral_2_eq_2)
qed

theorem create_accepted_witness:
  "\<exists>r w'. service_create demo_deps 1 demo_tenant demo_turn_spec None (world_at demo_idle demo_log)
      = Some (Inr (Accepted r), w') \<and> rr_status r = Queued \<and> conv_holder (w_store w') demo_cid = Some demo_rid"
proof -
  obtain r w' where ok: "service_create demo_deps 1 demo_tenant demo_turn_spec None (world_at demo_idle demo_log)
      = Some (Inr (Accepted r), w')" using demo_create_accepted by blast
  have id: "demo_rid = ResponseId (cf_node_tag (dp_cfg demo_deps)) 1"
    by (simp add: demo_deps_def Config_for_node_def demo_rid_def)
  have "st_records demo_idle = []" by (simp add: demo_idle_eq insert_conversation_def MemStore_new_def)
  then show ?thesis
    using create_accepted[OF demo_idle_world id _ _ ok] ok
    by (simp add: demo_turn_spec_def demo_log_def EventLog_with_capacity_def)
qed

theorem create_refused_frees_the_turn_witness:
  "\<exists>res w'. service_create demo_deps 1 (TenantId ''other'') demo_turn_spec None (world_at demo_idle demo_log)
      = Some (res, w') \<and> isl res \<and>
    (conv_holder (w_store w') demo_cid \<noteq> Some demo_rid \<or>
     st_max_events_per_conversation (w_store w') \<le> cs_next_seq (stream_of (w_store w') demo_cid))"
proof -
  have own: "owned demo_idle (TenantId ''other'') demo_cid = None" "conv_guard_available demo_idle = Inr ()"
    using demo_idle_fields(1,3)
    by (auto simp: owned_def demo_tenant_def Conversation_new_def conv_writable_iff conv_guard_available_def
        split: option.splits if_splits)
  have ok: "service_create demo_deps 1 (TenantId ''other'') demo_turn_spec None (world_at demo_idle demo_log)
      = Some (Inl (SConversation CNotFound), (world_at demo_idle demo_log)\<lparr>w_readings := 1\<rparr>)"
    by (simp add: service_create_def clock_now_def demo_turn_spec_def resolve_context_def snapshot_context_def
        cs_read_snapshot_def read_snapshot_def own)
  have id: "demo_rid = ResponseId (cf_node_tag (dp_cfg demo_deps)) 1"
    by (simp add: demo_deps_def Config_for_node_def demo_rid_def)
  have "conv_holder demo_idle demo_cid = None" "stream_of demo_idle demo_cid = Stream_default"
    by (simp_all add: conv_holder_def stream_of_def demo_idle_eq insert_conversation_def MemStore_new_def Conversation_new_def)
  then show ?thesis
    using create_refused_frees_the_turn[OF demo_idle_world id _ _ _ ok, of demo_cid] ok
    by (simp add: demo_turn_spec_def Stream_default_def)
qed

theorem service_cancel_settles_witness:
  "\<exists>obj w' r'. service_cancel demo_deps demo_tenant demo_rid (world_at demo_running demo_log1) = Some (Inr obj, w') \<and>
    map_of (st_records (w_store w')) demo_rid = Some r' \<and> rr_status r' = Cancelled"
proof -
  let ?w = "world_at demo_running demo_log1"
  obtain s1 where c: "ledger_cancel demo_tenant demo_rid (Suc 0) demo_running = (Inr (), s1)"
    by (simp add: ledger_cancel_def demo_running_fields demo_claimed_record_def)
  obtain r' where r': "map_of (st_records s1) demo_rid = Some r'" "rr_spec r' = demo_spec"
    using ledger_cancel_done[OF c]
    by (auto simp: demo_running_fields demo_claimed_record_def demo_record_def ResponseRecord_queued_def)
  have "\<exists>obj w'. service_cancel demo_deps demo_tenant demo_rid ?w = Some (Inr obj, w')"
    using r' by (simp add: service_cancel_def clock_now_def on_store_def c ledger_get_def Let_def archive_cancelled_def
        rr_conversation_id_def demo_spec_def)
  then obtain obj w' where ok: "service_cancel demo_deps demo_tenant demo_rid ?w = Some (Inr obj, w')" by blast
  have up: "\<not> st_unavailable demo_running"
    by (simp add: demo_running_eq demo_queued_eq insert_record_def MemStore_new_def)
  show ?thesis
    using service_cancel_settles[OF demo_running_world(2) _ _ ok, of "push_event 2 demo_delta ResponseLog_new"] ok up
      demo_log1_entry demo_logs_short by (auto simp: push_event_def evict_eq ResponseLog_new_def)
qed

end
