(* ===== verification/Ingress.thy ===== *)
theory Ingress
  imports Service
begin

text \<open>
  The edge of the gateway (\<open>gateway/src\<close>): decimal text and the messages of the refusals, the key
  table and tenant resolution (\<open>auth.rs\<close>), the mapping of every failure to an HTTP answer
  (\<open>error.rs\<close>, \<open>sse.rs\<close>) and the two checks every route starts with (\<open>routes/shared.rs\<close>).

  Parsing HTTP is the server library's: a request's headers arrive here as the lookup result of
  each header name -- absent, present but not visible ASCII, or its text.
\<close>

section \<open>Text\<close>

text \<open>Decimal rendering of an unsigned integer, and \<open>str::parse::<u64>\<close>: an optional plus sign, at
  least one digit, and a value that fits.\<close>

definition digit_char :: "nat \<Rightarrow> char" where
  "digit_char d = char_of (48 + d)"

fun dec :: "nat \<Rightarrow> string" where
  "dec n = (if n < 10 then [digit_char n] else dec (n div 10) @ [digit_char (n mod 10)])"

declare dec.simps [simp del]

definition parse_digits :: "string \<Rightarrow> nat option" where
  "parse_digits s =
    (if s = [] \<or> \<not> list_all is_ascii_digit s then None
     else (let n = foldl (\<lambda>a c. a * 10 + (of_char c - 48)) 0 s in if n \<le> u64_max then Some n else None))"

definition parse_u64 :: "string \<Rightarrow> nat option" where
  "parse_u64 s = parse_digits (case s of [] \<Rightarrow> [] | c # cs \<Rightarrow> if c = CHR ''+'' then cs else s)"

text \<open>\<open>str::trim\<close> on header text, which is visible ASCII, spaces and tabs.\<close>

definition is_blank :: "char \<Rightarrow> bool" where
  "is_blank c \<longleftrightarrow> c = CHR '' '' \<or> c = CHR 0x09"

definition trim :: "string \<Rightarrow> string" where
  "trim s = rev (dropWhile is_blank (rev (dropWhile is_blank s)))"

text \<open>\<open>str::split\<close> at every character of a set; adjacent separators give empty pieces.\<close>

fun split_on :: "(char \<Rightarrow> bool) \<Rightarrow> string \<Rightarrow> string list" where
  "split_on P [] = [[]]"
| "split_on P (c # cs) =
    (if P c then [] # split_on P cs
     else (case split_on P cs of piece # rest \<Rightarrow> (c # piece) # rest | [] \<Rightarrow> [[c]]))"

section \<open>Messages\<close>

definition id_error_to_string :: "id_error \<Rightarrow> string" where
  "id_error_to_string e = ''invalid '' @ ie_kind e @ '': expected '' @ ie_expected e"

fun url_rejection_to_string :: "url_rejection \<Rightarrow> string" where
  "url_rejection_to_string Malformed = ''malformed url''"
| "url_rejection_to_string (SchemeNotAllowed s) = ''scheme `'' @ s @ ''` is not allowed; only https is accepted''"
| "url_rejection_to_string MissingHost = ''url has no host''"
| "url_rejection_to_string PrivateAddress = ''host resolves to a non-public address range''"
| "url_rejection_to_string EmbeddedCredentials = ''credentials in url are not allowed''"
| "url_rejection_to_string (TooLong m) = ''url exceeds '' @ dec m @ '' bytes''"

fun content_violation_to_string :: "content_violation \<Rightarrow> string" where
  "content_violation_to_string (MissingReference part) = part @ '' requires either a file id or a url reference''"
| "content_violation_to_string (RejectedUrl part e) = part @ '' url rejected: '' @ url_rejection_to_string e"

fun item_violation_to_string :: "item_violation \<Rightarrow> string" where
  "item_violation_to_string EmptyMessageContent = ''message content must not be empty''"
| "item_violation_to_string EmptyCallId = ''call_id must not be empty''"
| "item_violation_to_string EmptyFunctionName = ''function name must not be empty''"
| "item_violation_to_string (ItemContent e) = ''item content invalid: '' @ content_violation_to_string e"

fun limit_violation_to_string :: "limit_violation \<Rightarrow> string" where
  "limit_violation_to_string (TooManyItems n m) = ''input has '' @ dec n @ '' items, limit is '' @ dec m"
| "limit_violation_to_string (ItemTooLarge i n m) =
    ''item '' @ dec i @ '' is '' @ dec n @ '' bytes, limit is '' @ dec m"
| "limit_violation_to_string (TotalTooLarge n m) = ''input totals '' @ dec n @ '' bytes, limit is '' @ dec m"
| "limit_violation_to_string (limit_violation.TooDeep n m) =
    ''json nesting depth '' @ dec n @ '' exceeds limit '' @ dec m"
| "limit_violation_to_string LimitEmpty = ''input must not be empty''"

fun request_violation_to_string :: "request_violation \<Rightarrow> string" where
  "request_violation_to_string EmptyModel = ''model must not be empty''"
| "request_violation_to_string (RequestLimits e) = ''input invalid: '' @ limit_violation_to_string e"
| "request_violation_to_string (RequestItem i e) =
    ''item '' @ dec i @ '' invalid: '' @ item_violation_to_string e"
| "request_violation_to_string (InstructionsTooLong m) = ''instructions exceed '' @ dec m @ '' bytes''"
| "request_violation_to_string EmptyPreviousId = ''previous_response_id must not be empty''"
| "request_violation_to_string EmptyConversationId = ''conversation id must not be empty''"
| "request_violation_to_string PreviousIdAndConversation =
    ''previous_response_id and conversation must not both be set''"
| "request_violation_to_string ZeroMaxOutputTokens = ''max_output_tokens must be greater than zero''"
| "request_violation_to_string TemperatureOutOfRange = ''temperature must be within [0, 2]''"
| "request_violation_to_string TopPOutOfRange = ''top_p must be within [0, 1]''"
| "request_violation_to_string (TooManyMetadataEntries n m) =
    ''metadata has '' @ dec n @ '' entries, limit is '' @ dec m"
| "request_violation_to_string (MetadataKeyTooLong k m) = ''metadata key `'' @ k @ ''` exceeds '' @ dec m @ '' bytes''"
| "request_violation_to_string (MetadataValueTooLong k m) =
    ''metadata value for `'' @ k @ ''` exceeds '' @ dec m @ '' bytes''"
| "request_violation_to_string (ToolParameters n e) =
    ''tool `'' @ n @ ''` parameters invalid: '' @ limit_violation_to_string e"
| "request_violation_to_string StreamAndBackground = ''stream and background must not both be set''"

fun business_event_violation_to_string :: "business_event_violation \<Rightarrow> string" where
  "business_event_violation_to_string EmptyKind = ''kind must not be empty''"
| "business_event_violation_to_string (KindTooLong m) = ''kind exceeds '' @ dec m @ '' bytes''"
| "business_event_violation_to_string KindHasControlChars = ''kind must not contain control characters''"
| "business_event_violation_to_string (PayloadTooLarge m) = ''payload exceeds '' @ dec m @ '' bytes''"
| "business_event_violation_to_string (PayloadTooDeep m) = ''payload nests deeper than '' @ dec m"

section \<open>Credentials (auth.rs)\<close>

datatype auth_error = AuthMissing | AuthInvalid

record key_table =
  kt_keys :: "(string, tenant_id) table"
  kt_admin_key :: "string option"

text \<open>A header lookup: \<open>None\<close> absent, \<open>Some None\<close> present but not visible ASCII.\<close>

type_synonym headers = "string \<Rightarrow> string option option"

fun key_entries :: "(string, tenant_id) table \<Rightarrow> string list \<Rightarrow> string + (string, tenant_id) table" where
  "key_entries keys [] = Inr keys"
| "key_entries keys (entry # rest) =
    (case split_once (CHR '':'') entry of
       None \<Rightarrow> Inl ''api key entry must be `key:tenant`''
     | Some (key, tenant) \<Rightarrow>
       if length key < 8 then Inl ''api keys must be at least 8 characters''
       else (case TenantId_parse tenant of
           Inl e \<Rightarrow> Inl (id_error_to_string e)
         | Inr t \<Rightarrow> key_entries (AList.update key t keys) rest))"

definition is_key_separator :: "char \<Rightarrow> bool" where
  "is_key_separator c \<longleftrightarrow> c = CHR '','' \<or> c = CHR '' '' \<or> c = CHR 0x0A \<or> c = CHR 0x09"

definition KeyTable_parse :: "string \<Rightarrow> string + key_table" where
  "KeyTable_parse spec =
    (case key_entries [] (filter (\<lambda>s. s \<noteq> []) (split_on is_key_separator spec)) of
       Inl e \<Rightarrow> Inl e
     | Inr keys \<Rightarrow> Inr \<lparr>kt_keys = keys, kt_admin_key = None\<rparr>)"

text \<open>The environment is a lookup of variables.\<close>

definition KeyTable_from_env :: "(string \<Rightarrow> string option) \<Rightarrow> string \<Rightarrow> string \<Rightarrow> string + key_table" where
  "KeyTable_from_env env keys_env admin_env =
    (case KeyTable_parse (case env keys_env of Some s \<Rightarrow> s | None \<Rightarrow> []) of
       Inl e \<Rightarrow> Inl e
     | Inr t \<Rightarrow> Inr (t\<lparr>kt_admin_key :=
         (case env admin_env of Some v \<Rightarrow> if v = [] then None else Some v | None \<Rightarrow> None)\<rparr>))"

definition keys_is_empty :: "key_table \<Rightarrow> bool" where
  "keys_is_empty t \<longleftrightarrow> kt_keys t = []"

definition keys_lookup :: "key_table \<Rightarrow> string \<Rightarrow> tenant_id option" where
  "keys_lookup t key = map_of (kt_keys t) key"

definition admin_key_matches :: "key_table \<Rightarrow> string \<Rightarrow> bool" where
  "admin_key_matches t presented = (case kt_admin_key t of None \<Rightarrow> True | Some expected \<Rightarrow> expected = presented)"

definition bearer :: "headers \<Rightarrow> string option" where
  "bearer h = map_option trim (Option.bind (Option.bind (h ''authorization'') id) (strip_prefix ''Bearer ''))"

definition local_tenant :: tenant_id where
  "local_tenant = TenantId ''local''"

definition keys_resolve :: "key_table \<Rightarrow> headers \<Rightarrow> auth_error + tenant_id" where
  "keys_resolve t h =
    (if keys_is_empty t then Inr local_tenant
     else case bearer h of
       None \<Rightarrow> Inl AuthMissing
     | Some key \<Rightarrow> (case keys_lookup t key of Some tenant \<Rightarrow> Inr tenant | None \<Rightarrow> Inl AuthInvalid))"

definition authorize_admin :: "key_table \<Rightarrow> headers \<Rightarrow> auth_error + unit" where
  "authorize_admin t h =
    (if admin_key_matches t (case bearer h of Some k \<Rightarrow> k | None \<Rightarrow> []) then Inr () else Inl AuthInvalid)"

section \<open>Answers (error.rs)\<close>

text \<open>The error body is a JSON object; every answer to a failure is one of these.\<close>

record 'b http_response =
  hr_status :: nat
  hr_body :: 'b

definition error_json :: "string \<Rightarrow> string \<Rightarrow> json" where
  "error_json code message = JObj [(''error'', JObj [(''type'', JStr code), (''message'', JStr message)])]"

type_synonym stream_failure = "nat \<times> string \<times> string"

definition api_error :: "nat \<Rightarrow> string \<Rightarrow> string \<Rightarrow> json http_response" where
  "api_error status code message = \<lparr>hr_status = status, hr_body = error_json code message\<rparr>"

definition bad_request :: "string \<Rightarrow> string \<Rightarrow> json http_response" where
  "bad_request code message = api_error 400 code message"

definition not_found :: "json http_response" where
  "not_found = api_error 404 ''not_found'' ''no such response''"

definition not_found_kind :: "string \<Rightarrow> json http_response" where
  "not_found_kind kind = api_error 404 ''not_found'' (''no such '' @ kind)"

fun map_ledger_error :: "ledger_error \<Rightarrow> json http_response" where
  "map_ledger_error LNotFound = not_found"
| "map_ledger_error LStaleAttempt = api_error 409 ''stale_attempt'' ''attempt superseded by a newer one''"
| "map_ledger_error (LInvalidTransition msg) = api_error 409 ''invalid_transition'' msg"
| "map_ledger_error (LStore ReadOnly) = api_error 503 ''read_only'' ''service is read-only''"
| "map_ledger_error (LStore Unavailable) = api_error 503 ''unavailable'' ''ledger is unavailable''"
| "map_ledger_error (LStore (Internal msg)) = api_error 500 ''internal'' msg"

fun map_context_error :: "(uuid \<Rightarrow> string) \<Rightarrow> context_error \<Rightarrow> json http_response" where
  "map_context_error fmt (ChainBroken rid) = api_error 400 ''chain_broken''
    (''chain link '' @ ResponseId_display fmt rid @ '' is missing or expired; resend the history explicitly'')"
| "map_context_error fmt NotStored = api_error 400 ''previous_not_stored''
    ''the referenced response was created with store=false and cannot be chained''"
| "map_context_error fmt (TooDeep limit) = api_error 400 ''chain_too_long''
    (''chain exceeds the '' @ dec limit @ '' link limit; start a new chain'')"
| "map_context_error fmt (CtxTooManyItems limit) = api_error 400 ''chain_too_long''
    (''chain exceeds '' @ dec limit @ '' items; start a new chain'')"
| "map_context_error fmt (CtxTooLarge limit) = api_error 400 ''chain_too_large''
    (''chain exceeds '' @ dec limit @ '' bytes; start a new chain'')"
| "map_context_error fmt CrossTenant = api_error 404 ''not_found'' ''no such response''"

fun map_conversation_stream_error :: "(uuid \<Rightarrow> string) \<Rightarrow> conversation_error \<Rightarrow> stream_failure" where
  "map_conversation_stream_error fmt CNotFound = (404, ''not_found'', ''no such conversation'')"
| "map_conversation_stream_error fmt (CBusy holder) = (409, ''conversation_busy'',
    ''a turn is already in flight for this conversation: '' @ ResponseId_display fmt holder)"
| "map_conversation_stream_error fmt CCapacityExceeded =
    (503, ''capacity_exceeded'', ''conversation event capacity exceeded'')"
| "map_conversation_stream_error fmt (CStore Unavailable) =
    (503, ''store_unavailable'', ''conversation store is unavailable; the request was not stored'')"
| "map_conversation_stream_error fmt (CStore ReadOnly) = (503, ''read_only'', ''service is read-only'')"
| "map_conversation_stream_error fmt (CStore (Internal msg)) = (500, ''internal'', msg)"

definition map_conversation_error :: "(uuid \<Rightarrow> string) \<Rightarrow> conversation_error \<Rightarrow> json http_response" where
  "map_conversation_error fmt e =
    (case map_conversation_stream_error fmt e of (status, code, message) \<Rightarrow> api_error status code message)"

fun map_event_log_error :: "event_log_error \<Rightarrow> stream_failure" where
  "map_event_log_error EUnknown = (404, ''not_found'', ''no such response'')"
| "map_event_log_error EExpired =
    (410, ''cursor_expired'', ''requested position is no longer buffered; there is no recovery path'')"
| "map_event_log_error EStaleAttempt = (409, ''stale_attempt'', ''attempt superseded'')"
| "map_event_log_error (EStore ReadOnly) = (503, ''read_only'', ''service is read-only'')"
| "map_event_log_error (EStore Unavailable) = (503, ''unavailable'', ''event buffer is unavailable'')"
| "map_event_log_error ECapacityExceeded = (503, ''capacity_exceeded'', ''event buffer capacity exceeded'')"
| "map_event_log_error (EStore (Internal msg)) = (500, ''internal'', msg)"

fun map_service_error :: "(uuid \<Rightarrow> string) \<Rightarrow> service_error \<Rightarrow> json http_response" where
  "map_service_error fmt (SLedger e) = map_ledger_error e"
| "map_service_error fmt (SEventLog e) =
    (case map_event_log_error e of (status, code, message) \<Rightarrow> api_error status code message)"
| "map_service_error fmt (SConversation e) = map_conversation_error fmt e"
| "map_service_error fmt (SContext e) = map_context_error fmt e"

section \<open>Ingress checks (routes/shared.rs)\<close>

definition tenant_or_reject :: "key_table \<Rightarrow> headers \<Rightarrow> json http_response + tenant_id" where
  "tenant_or_reject t h =
    (case keys_resolve t h of
       Inr tenant \<Rightarrow> Inr tenant
     | Inl AuthMissing \<Rightarrow> Inl (api_error 401 ''missing_credentials'' ''provide `Authorization: Bearer <key>`'')
     | Inl AuthInvalid \<Rightarrow> Inl (api_error 401 ''invalid_credentials'' ''credentials were rejected''))"

definition parse_or_not_found :: "'e + 'a \<Rightarrow> string \<Rightarrow> json http_response + 'a" where
  "parse_or_not_found parsed kind = (case parsed of Inr a \<Rightarrow> Inr a | Inl _ \<Rightarrow> Inl (not_found_kind kind))"


section \<open>Decimal text\<close>

lemma of_digit_char: "d < 10 \<Longrightarrow> (of_char (digit_char d) :: nat) = 48 + d"
  by (simp add: digit_char_def)

lemma digit_char_digit: "d < 10 \<Longrightarrow> is_ascii_digit (digit_char d)"
  by (simp add: is_ascii_digit_def byte_in_def of_digit_char)

lemma dec_digits: "list_all is_ascii_digit (dec n) \<and> dec n \<noteq> []"
proof (induction n rule: dec.induct)
  case (1 n)
  then show ?case by (cases "n < 10") (simp_all add: dec.simps[of n] digit_char_digit)
qed

lemma dec_value: "foldl (\<lambda>a c. a * 10 + (of_char c - 48)) 0 (dec n) = n"
proof (induction n rule: dec.induct)
  case (1 n)
  show ?case
  proof (cases "n < 10")
    case True
    then show ?thesis by (simp add: dec.simps[of n] of_digit_char)
  next
    case False
    then show ?thesis using 1[OF False] by (simp add: dec.simps[of n] of_digit_char)
  qed
qed

lemma parse_u64_dec: "n \<le> u64_max \<Longrightarrow> parse_u64 (dec n) = Some n"
proof -
  assume n: "n \<le> u64_max"
  obtain c cs where c: "dec n = c # cs" using dec_digits[of n] by (cases "dec n") auto
  then have "is_ascii_digit c" using dec_digits[of n] by simp
  then have "c \<noteq> CHR ''+''" by (auto simp: is_ascii_digit_def byte_in_def)
  then have "parse_u64 (dec n) = parse_digits (dec n)" by (simp add: parse_u64_def c)
  then show ?thesis using dec_digits[of n] dec_value[of n] n by (simp add: parse_digits_def)
qed

lemma trim_digits: "list_all is_ascii_digit s \<Longrightarrow> trim s = s"
proof -
  assume s: "list_all is_ascii_digit s"
  have *: "dropWhile is_blank t = t" if "list_all is_ascii_digit t" for t
    using that by (cases t) (auto simp: is_ascii_digit_def byte_in_def is_blank_def)
  have "list_all is_ascii_digit (rev s)" using s by (auto simp: list_all_iff)
  then show ?thesis using s by (simp add: trim_def *)
qed

section \<open>Credentials\<close>

definition entry_pair :: "string \<Rightarrow> string \<times> tenant_id" where
  "entry_pair e = (case split_once (CHR '':'') e of Some (k, t) \<Rightarrow> (k, TenantId t) | None \<Rightarrow> (e, TenantId []))"

lemma TenantId_parse_Inr: "TenantId_parse s = Inr t \<Longrightarrow> t = TenantId s"
  by (auto simp: TenantId_parse_def split: if_splits)

text \<open>A table that parsed holds, for each key, the last entry of the specification with that key.\<close>

lemma key_entries_lookup:
  "key_entries keys es = Inr t \<Longrightarrow> map_of t = map_of keys ++ map_of (rev (map entry_pair es))"
proof (induction keys es rule: key_entries.induct)
  case (2 keys entry rest)
  obtain k tn where kt: "split_once (CHR '':'') entry = Some (k, tn)"
    using 2(2) by (auto split: option.splits)
  obtain t' where t': "TenantId_parse tn = Inr t'" using 2(2) kt by (auto split: if_splits sum.splits)
  have l: "\<not> length k < 8" using 2(2) kt by (auto split: if_splits)
  have "map_of t = map_of (AList.update k t' keys) ++ map_of (rev (map entry_pair rest))"
    by (rule 2(1)[OF kt refl l t']) (use 2(2) kt t' l in simp)
  moreover have "entry_pair entry = (k, t')" using TenantId_parse_Inr[OF t'] kt by (simp add: entry_pair_def)
  ultimately show ?case by (simp add: map_add_assoc)
qed simp

definition spec_entries :: "string \<Rightarrow> (string \<times> tenant_id) list" where
  "spec_entries spec = rev (map entry_pair (filter (\<lambda>s. s \<noteq> []) (split_on is_key_separator spec)))"

lemma key_entries_ok:
  "key_entries keys es = Inr t \<Longrightarrow> (\<forall>(k, tn) \<in> set keys. 8 \<le> length k \<and> TenantId_parse (ti_str tn) = Inr tn) \<Longrightarrow>
    \<forall>(k, tn) \<in> set t. 8 \<le> length k \<and> TenantId_parse (ti_str tn) = Inr tn"
proof (induction keys es rule: key_entries.induct)
  case (2 keys entry rest)
  obtain k tn where kt: "split_once (CHR '':'') entry = Some (k, tn)"
    using 2(2) by (auto split: option.splits)
  obtain t' where t': "TenantId_parse tn = Inr t'" using 2(2) kt by (auto split: if_splits sum.splits)
  have l: "\<not> length k < 8" using 2(2) kt by (auto split: if_splits)
  have "set (AList.update k t' keys) \<subseteq> insert (k, t') (set keys)"
    by (induction keys) auto
  then have "\<forall>(k, tn) \<in> set (AList.update k t' keys). 8 \<le> length k \<and> TenantId_parse (ti_str tn) = Inr tn"
    using 2(3) l t' TenantId_parse_Inr[OF t'] by auto
  then show ?case using 2(1)[OF kt refl l t'] 2(2) kt t' l by simp
qed auto

text \<open>A table read from its specification lets a request in as a tenant exactly when the specification is
  empty (local mode, where everybody is the local tenant) or the bearer key of the request is one of its
  entries, the last one with that key deciding; and every key it accepts has at least eight characters.\<close>

theorem keys_resolve_iff:
  assumes "KeyTable_parse spec = Inr t"
  shows "(keys_resolve t h = Inr tenant \<longleftrightarrow>
      (if spec_entries spec = [] then tenant = local_tenant
       else \<exists>key. bearer h = Some key \<and> map_of (spec_entries spec) key = Some tenant)) \<and>
    (\<forall>key. map_of (spec_entries spec) key \<noteq> None \<longrightarrow> 8 \<le> length key)"
proof -
  obtain keys where k: "key_entries [] (filter (\<lambda>s. s \<noteq> []) (split_on is_key_separator spec)) = Inr keys"
    and t: "t = \<lparr>kt_keys = keys, kt_admin_key = None\<rparr>"
    using assms by (auto simp: KeyTable_parse_def split: sum.splits)
  have m: "map_of keys = map_of (spec_entries spec)" using key_entries_lookup[OF k] by (simp add: spec_entries_def)
  have e: "keys = [] \<longleftrightarrow> spec_entries spec = []"
    using m by (metis map_of_eq_empty_iff)
  have "8 \<le> length key" if "map_of keys key \<noteq> None" for key
    using that key_entries_ok[OF k] by (auto dest: map_of_SomeD)
  then show ?thesis
    using e m by (auto simp: keys_resolve_def keys_is_empty_def keys_lookup_def t split: option.splits)
qed

theorem keys_resolve_iff_witness:
  "\<exists>t. KeyTable_parse ''key-aaaaaaa:tenant-a'' = Inr t \<and>
    keys_resolve t (\<lambda>n. if n = ''authorization'' then Some (Some ''Bearer key-aaaaaaa'') else None) = Inr (TenantId ''tenant-a'')"
proof -
  have p: "KeyTable_parse ''key-aaaaaaa:tenant-a'' = Inr \<lparr>kt_keys = [(''key-aaaaaaa'', TenantId ''tenant-a'')], kt_admin_key = None\<rparr>"
    by code_simp
  have b: "bearer (\<lambda>n. if n = ''authorization'' then Some (Some ''Bearer key-aaaaaaa'') else None) = Some ''key-aaaaaaa''"
    "map_of (spec_entries ''key-aaaaaaa:tenant-a'') ''key-aaaaaaa'' = Some (TenantId ''tenant-a'')"
    by code_simp+
  then show ?thesis
    using keys_resolve_iff[OF p, of "\<lambda>n. if n = ''authorization'' then Some (Some ''Bearer key-aaaaaaa'') else None" "TenantId ''tenant-a''"] p
    by (cases "spec_entries ''key-aaaaaaa:tenant-a'' = []") auto
qed

section \<open>Failures are failures\<close>

text \<open>Every failure of the service becomes an error answer, never a success.  It is 404 exactly for what the
  caller may not know to exist -- an absent resource and one of another tenant look alike -- and 503 or 500 exactly
  for a failure of a store or its capacity.\<close>

theorem service_error_status:
  "400 \<le> hr_status (map_service_error fmt e) \<and>
   (hr_status (map_service_error fmt e) = 404 \<longleftrightarrow>
      e \<in> {SLedger LNotFound, SEventLog EUnknown, SConversation CNotFound, SContext CrossTenant}) \<and>
   (500 \<le> hr_status (map_service_error fmt e) \<longleftrightarrow>
      e \<in> range (\<lambda>x. SLedger (LStore x)) \<union> range (\<lambda>x. SEventLog (EStore x)) \<union> range (\<lambda>x. SConversation (CStore x)) \<union>
        {SEventLog ECapacityExceeded, SConversation CCapacityExceeded}) \<and>
   map_service_error fmt (SContext CrossTenant) = map_service_error fmt (SLedger LNotFound)"
proof (cases e)
  case (SLedger x)
  then show ?thesis
    by (cases x rule: map_ledger_error.cases) (auto simp: api_error_def not_found_def)
next
  case (SEventLog x)
  then show ?thesis
    by (cases x rule: map_event_log_error.cases) (auto simp: api_error_def not_found_def)
next
  case (SConversation x)
  then show ?thesis
    by (cases "(fmt, x)" rule: map_conversation_stream_error.cases)
      (auto simp: api_error_def not_found_def map_conversation_error_def)
next
  case (SContext x)
  then show ?thesis by (cases x) (auto simp: api_error_def not_found_def)
qed

end
