(* ===== verification/Sse.thy ===== *)
theory Sse
  imports Ingress
begin

text \<open>
  Server-sent events (\<open>gateway/src/sse.rs\<close>): probe first, then stream.  The skeleton \<open>open_sse\<close> is
  written once over the \<open>SseSource\<close> interface; the two sources are the event log of a response and
  the event stream of a conversation.

  A read that waits is given the states of its source at each wake-up, as in the event log.  A
  running stream is therefore a function of one such list per read.  Keep-alive frames carry no
  data and are the server library's.
\<close>

section \<open>The skeleton\<close>

definition RESPONSE_BATCH :: nat where
  "RESPONSE_BATCH = 64"

datatype 'e sse_frame = EventFrame string string 'e | ErrorFrame json

definition stream_error_json :: "string \<Rightarrow> string \<Rightarrow> json" where
  "stream_error_json code message =
    JObj [(''type'', JStr ''error''), (''error'', JObj [(''code'', JStr code), (''message'', JStr message)])]"

definition event_frame :: "('e \<Rightarrow> nat) \<Rightarrow> ('e \<Rightarrow> string) \<Rightarrow> 'e \<Rightarrow> 'e sse_frame" where
  "event_frame seq name e = EventFrame (name e) (dec (seq e)) e"

text \<open>The frames of the stream and whether it has ended.\<close>

fun sse_run ::
  "('s list \<Rightarrow> nat option \<Rightarrow> nat \<Rightarrow> stream_failure + 'e list) \<Rightarrow> ('e \<Rightarrow> nat) \<Rightarrow> ('e \<Rightarrow> string) \<Rightarrow> ('e \<Rightarrow> bool)
    \<Rightarrow> nat \<Rightarrow> nat option \<Rightarrow> 's list list \<Rightarrow> 'e sse_frame list \<times> bool" where
  "sse_run read seq name ends batch cursor [] = ([], False)"
| "sse_run read seq name ends batch cursor (polls # rest) =
    (case read polls cursor batch of
       Inl (_, code, message) \<Rightarrow> ([ErrorFrame (stream_error_json code message)], True)
     | Inr es \<Rightarrow>
       if es = [] then sse_run read seq name ends batch cursor rest
       else if list_ex ends es then (map (event_frame seq name) es, True)
       else (case sse_run read seq name ends batch (Some (seq (last es))) rest of
           (frames, ended) \<Rightarrow> (map (event_frame seq name) es @ frames, ended)))"

text \<open>What a client gets: an error status before anything is committed, or the stream.\<close>

definition open_sse ::
  "('s list \<Rightarrow> nat option \<Rightarrow> nat \<Rightarrow> stream_failure + 'e list) \<Rightarrow> ('e \<Rightarrow> nat) \<Rightarrow> ('e \<Rightarrow> string) \<Rightarrow> ('e \<Rightarrow> bool)
    \<Rightarrow> nat option \<Rightarrow> nat \<Rightarrow> 's \<Rightarrow> 's list list \<Rightarrow> json http_response + 'e sse_frame list \<times> bool" where
  "open_sse read seq name ends starting_after batch probe reads =
    (case read [probe] starting_after 1 of
       Inl (status, code, message) \<Rightarrow> Inl (api_error status code message)
     | Inr _ \<Rightarrow> Inr (sse_run read seq name ends (max batch 1) starting_after reads))"

section \<open>The two sources\<close>

definition response_read ::
  "response_id \<Rightarrow> event_log list \<Rightarrow> nat option \<Rightarrow> nat \<Rightarrow> stream_failure + response_event list" where
  "response_read rid polls cursor limit =
    (case event_read_waiting rid cursor limit polls of
       Inl e \<Rightarrow> Inl (map_event_log_error e)
     | Inr es \<Rightarrow> Inr es)"

definition response_event_name :: "response_event \<Rightarrow> string" where
  "response_event_name e = kind_as_str (re_kind e)"

definition response_event_terminal :: "response_event \<Rightarrow> bool" where
  "response_event_terminal e = kind_is_terminal (re_kind e)"

definition open_stream ::
  "response_id \<Rightarrow> nat option \<Rightarrow> event_log \<Rightarrow> event_log list list
    \<Rightarrow> json http_response + response_event sse_frame list \<times> bool" where
  "open_stream rid starting_after probe reads =
    open_sse (response_read rid) re_sequence_number response_event_name response_event_terminal starting_after
      RESPONSE_BATCH probe reads"

definition conversation_read ::
  "(uuid \<Rightarrow> string) \<Rightarrow> tenant_id \<Rightarrow> conversation_id \<Rightarrow> mem_store list \<Rightarrow> nat option \<Rightarrow> nat
    \<Rightarrow> stream_failure + conversation_event list" where
  "conversation_read fmt tenant cid polls cursor limit =
    (case conv_read_waiting tenant cid cursor limit polls of
       Inl e \<Rightarrow> Inl (map_conversation_stream_error fmt e)
     | Inr es \<Rightarrow> Inr es)"

definition conversation_event_name :: "conversation_event \<Rightarrow> string" where
  "conversation_event_name e = conversation_event_as_str (cev_kind e)"

definition conversation_event_terminal :: "conversation_event \<Rightarrow> bool" where
  "conversation_event_terminal e = False"

definition open_conversation_stream ::
  "(uuid \<Rightarrow> string) \<Rightarrow> tenant_id \<Rightarrow> conversation_id \<Rightarrow> nat option \<Rightarrow> nat \<Rightarrow> mem_store \<Rightarrow> mem_store list list
    \<Rightarrow> json http_response + conversation_event sse_frame list \<times> bool" where
  "open_conversation_stream fmt tenant cid starting_after batch probe reads =
    open_sse (conversation_read fmt tenant cid) cev_seq conversation_event_name conversation_event_terminal
      starting_after batch probe reads"

definition resolve_cursor :: "nat option \<Rightarrow> string option \<Rightarrow> nat option" where
  "resolve_cursor query last_event_id =
    (case Option.bind last_event_id (\<lambda>v. parse_u64 (trim v)) of Some n \<Rightarrow> Some n | None \<Rightarrow> query)"

lemma resolve_cursor_id: "n \<le> u64_max \<Longrightarrow> resolve_cursor q (Some (dec n)) = Some n"
  using dec_digits[of n] by (simp add: resolve_cursor_def trim_digits parse_u64_dec)

section \<open>No gap, no repetition\<close>

text \<open>
  What the skeleton relies on.  The feed is a final history of which every state that is read
  holds a prefix; a read answers with the requested slice of that prefix, or fails.
\<close>

definition cursor_ok :: "nat option \<Rightarrow> bool" where
  "cursor_ok c \<longleftrightarrow> (\<forall>a. c = Some a \<longrightarrow> a < u64_max)"

fun frame_event :: "'e sse_frame \<Rightarrow> 'e option" where
  "frame_event (EventFrame _ _ e) = Some e"
| "frame_event (ErrorFrame _) = None"

definition delivered :: "'e sse_frame list \<Rightarrow> 'e list" where
  "delivered frames = List.map_filter frame_event frames"

lemma delivered_events [simp]: "delivered (map (event_frame seq name) es) = es"
  by (induction es) (simp_all add: delivered_def event_frame_def map_filter_simps)

lemma delivered_append [simp]: "delivered (a @ b) = delivered a @ delivered b"
  by (simp add: delivered_def map_filter_def)

lemma delivered_error [simp]: "delivered [ErrorFrame j] = []" "delivered [] = []"
  by (simp_all add: delivered_def map_filter_simps)

locale sse_feed =
  fixes read :: "'s list \<Rightarrow> nat option \<Rightarrow> nat \<Rightarrow> stream_failure + 'e list"
    and seq :: "'e \<Rightarrow> nat"
    and name :: "'e \<Rightarrow> string"
    and ends :: "'e \<Rightarrow> bool"
    and sees :: "'e list \<Rightarrow> 's \<Rightarrow> bool"
    and valid :: "'e list \<Rightarrow> bool"
  assumes read_slice: "valid hist \<Longrightarrow> cursor_ok c \<Longrightarrow> \<forall>s \<in> set polls. \<exists>h. prefix h hist \<and> sees h s \<Longrightarrow>
      read polls c n = Inr es \<Longrightarrow> \<exists>h. prefix h hist \<and> es = take n (drop (read_target c) h)"
    and seq_nth: "valid hist \<Longrightarrow> i < length hist \<Longrightarrow> seq (hist ! i) = i"
    and bounded: "valid hist \<Longrightarrow> length hist < u64_max"
begin

lemma slice_of_hist:
  assumes "prefix h hist"
  shows "take n (drop t h) = take (min n (length h - t)) (drop t hist)"
proof -
  obtain zs where "hist = h @ zs" using assms by (auto simp: prefix_def)
  then show ?thesis by (cases "n \<le> length h - t") simp_all
qed

text \<open>After a batch the cursor is behind it.\<close>

lemma next_cursor:
  assumes "valid hist" "es = take k (drop t hist)" "es \<noteq> []"
  shows "cursor_ok (Some (seq (last es)))" "read_target (Some (seq (last es))) = t + length es"
proof -
  have len: "length es \<le> length hist - t" "0 < length es" using assms(2,3) by auto
  have "last es = hist ! (t + (length es - 1))"
    using assms(2,3) len by (subst last_conv_nth) (auto simp: nth_append)
  moreover have "t + (length es - 1) < length hist" using len by linarith
  ultimately have s: "seq (last es) = t + (length es - 1)"
    using seq_nth[OF assms(1)] by metis
  have b: "t + length es < u64_max" using len bounded[OF assms(1)] by linarith
  show "cursor_ok (Some (seq (last es)))" using s b by (simp add: cursor_ok_def)
  show "read_target (Some (seq (last es))) = t + length es"
    using s b len by (simp add: read_target_def sat_add_def)
qed

lemma run_slice:
  assumes "valid hist" "cursor_ok c" "\<forall>polls \<in> set reads. \<forall>s \<in> set polls. \<exists>h. prefix h hist \<and> sees h s"
  shows "\<exists>k failure. fst (sse_run read seq name ends batch c reads) =
      map (event_frame seq name) (take k (drop (read_target c) hist)) @ map ErrorFrame failure \<and> length failure \<le> 1 \<and>
      (failure \<noteq> [] \<longrightarrow> snd (sse_run read seq name ends batch c reads))"
  using assms(2,3)
proof (induction reads arbitrary: c)
  case Nil
  show ?case by (rule exI[of _ 0]) simp
next
  case (Cons polls rest)
  show ?case
  proof (cases "read polls c batch")
    case (Inl f)
    then show ?thesis
      by (cases f) (auto intro!: exI[of _ 0] exI[of _ "[stream_error_json (fst (snd f)) (snd (snd f))]"])
  next
    case (Inr es)
    obtain h where h: "prefix h hist" "es = take batch (drop (read_target c) h)"
      using read_slice[OF assms(1) Cons.prems(1) _ Inr] Cons.prems(2) by auto
    then obtain k where k: "es = take k (drop (read_target c) hist)" using slice_of_hist by blast
    consider "es = []" | "es \<noteq> []" "list_ex ends es" | "es \<noteq> []" "\<not> list_ex ends es" by blast
    then show ?thesis
    proof cases
      case 1
      then show ?thesis using Cons.IH[OF Cons.prems(1)] Cons.prems(2) Inr by simp
    next
      case 2
      then show ?thesis using Inr k by (intro exI[of _ k] exI[of _ "[]"]) simp
    next
      case 3
      note nc = next_cursor[OF assms(1) k 3(1)]
      obtain k' failure where IH:
        "fst (sse_run read seq name ends batch (Some (seq (last es))) rest) =
          map (event_frame seq name) (take k' (drop (read_target c + length es) hist)) @ map ErrorFrame failure"
        "length failure \<le> 1"
        "failure \<noteq> [] \<longrightarrow> snd (sse_run read seq name ends batch (Some (seq (last es))) rest)"
        using Cons.IH[OF nc(1)] Cons.prems(2) unfolding nc(2) by auto
      have "take (length es) (drop (read_target c) hist) = es" unfolding k by (cases "k \<le> length hist - read_target c") simp_all
      then have "take (length es + k') (drop (read_target c) hist) = es @ take k' (drop (read_target c + length es) hist)"
        by (subst take_add) (simp add: add.commute)
      then show ?thesis
        using 3 Inr IH by (intro exI[of _ "length es + k'"] exI[of _ failure]) (simp add: case_prod_unfold)
    qed
  qed
qed

text \<open>Reconnecting with the id of the last frame received continues where the first connection stopped.\<close>

lemma resume_slice:
  assumes "valid hist" "cursor_ok c"
    and "\<forall>polls \<in> set (reads1 @ reads2). \<forall>s \<in> set polls. \<exists>h. prefix h hist \<and> sees h s"
    and "fst (sse_run read seq name ends batch c reads1) = frames @ [EventFrame nm i e]"
  shows "\<exists>k. delivered (fst (sse_run read seq name ends batch c reads1) @
      fst (sse_run read seq name ends batch (resolve_cursor q (Some i)) reads2)) = take k (drop (read_target c) hist)"
proof -
  have sees1: "\<forall>polls \<in> set reads1. \<forall>s \<in> set polls. \<exists>h. prefix h hist \<and> sees h s"
    and sees2: "\<forall>polls \<in> set reads2. \<forall>s \<in> set polls. \<exists>h. prefix h hist \<and> sees h s"
    using assms(3) by auto
  obtain k failure where k: "fst (sse_run read seq name ends batch c reads1) =
      map (event_frame seq name) (take k (drop (read_target c) hist)) @ map ErrorFrame failure"
    using run_slice[OF assms(1,2), of reads1 batch] sees1 by blast
  let ?es = "take k (drop (read_target c) hist)"
  have "failure = []" using k assms(4) by (cases failure rule: rev_cases) auto
  then have m: "map (event_frame seq name) ?es = frames @ [EventFrame nm i e]" using k assms(4) by simp
  then have "?es \<noteq> []" by (metis Nil_is_map_conv append_is_Nil_conv not_Cons_self2)
  then have "event_frame seq name (last ?es) = EventFrame nm i e"
    using m by (metis last_map last_snoc)
  then have i: "i = dec (seq (last ?es))" by (auto simp: event_frame_def)
  note nc = next_cursor[OF assms(1) refl \<open>?es \<noteq> []\<close>]
  have c2: "resolve_cursor q (Some i) = Some (seq (last ?es))"
    using nc(1) by (simp add: i resolve_cursor_id cursor_ok_def)
  obtain k2 failure2 where k2: "fst (sse_run read seq name ends batch (Some (seq (last ?es))) reads2) =
      map (event_frame seq name) (take k2 (drop (read_target c + length ?es) hist)) @ map ErrorFrame failure2" "length failure2 \<le> 1"
    using run_slice[OF assms(1) nc(1) sees2, of batch] unfolding nc(2) by blast
  have k': "take (length ?es) (drop (read_target c) hist) = ?es" by (cases "k \<le> length hist - read_target c") simp_all
  have f2: "delivered (map ErrorFrame failure2) = []" using k2(2) by (cases failure2) auto
  have "take (length ?es + k2) (drop (read_target c) hist) = ?es @ take k2 (drop (read_target c + length ?es) hist)"
    using k' by (subst take_add) (simp add: add.commute)
  then show ?thesis
    using k k2 f2 \<open>failure = []\<close> by (intro exI[of _ "length ?es + k2"]) (simp add: c2)
qed

text \<open>When every read finds the whole history and only its last event ends the stream, enough reads deliver
  everything after the cursor and the stream ends.\<close>

lemma run_complete:
  assumes "valid hist" "0 < batch" "hist \<noteq> []" "ends (last hist)" "\<not> list_ex ends (butlast hist)"
    and "cursor_ok c" "read_target c < length hist" "length hist - read_target c \<le> length reads * batch"
    and "\<forall>polls \<in> set reads. \<forall>c'. cursor_ok c' \<longrightarrow> read_target c \<le> read_target c' \<longrightarrow>
        read_target c' < length hist \<longrightarrow> read polls c' batch = Inr (take batch (drop (read_target c') hist))"
  shows "sse_run read seq name ends batch c reads = (map (event_frame seq name) (drop (read_target c) hist), True)"
  using assms(6-9)
proof (induction reads arbitrary: c)
  case (Cons polls rest)
  let ?t = "read_target c"
  let ?es = "take batch (drop ?t hist)"
  have rd: "read polls c batch = Inr ?es" using Cons.prems(1,2,4) by auto
  have ne: "?es \<noteq> []" using Cons.prems(2) assms(2) by simp
  show ?case
  proof (cases "length hist - ?t \<le> batch")
    case True
    then have es: "?es = drop ?t hist" by simp
    then have "last hist \<in> set ?es" using Cons.prems(2) assms(3) by (metis last_drop last_in_set ne)
    then have "list_ex ends ?es" using assms(4) by (auto simp: list_ex_iff)
    then show ?thesis using rd ne es by simp
  next
    case False
    have "set ?es \<subseteq> set (butlast hist)"
    proof -
      have "?es = take batch (butlast (drop ?t hist))" using False by (simp add: take_butlast)
      then have "set ?es \<subseteq> set (butlast (drop ?t hist))" by (metis set_take_subset)
      also have "\<dots> \<subseteq> set (butlast hist)" by (simp add: butlast_drop set_drop_subset)
      finally show ?thesis .
    qed
    then have nt: "\<not> list_ex ends ?es" using assms(5) by (auto simp: list_ex_iff)
    note nc = next_cursor[OF assms(1) refl ne]
    have len: "length ?es = batch" using False by simp
    have IH: "sse_run read seq name ends batch (Some (seq (last ?es))) rest =
        (map (event_frame seq name) (drop (?t + batch) hist), True)"
    proof -
      have "read_target (Some (seq (last ?es))) = ?t + batch" using nc(2) len by simp
      moreover have "length hist - (?t + batch) \<le> length rest * batch" using Cons.prems(3) by simp
      ultimately show ?thesis
        using Cons.IH[OF nc(1)] Cons.prems(2,4) False by simp
    qed
    have "?es @ drop (?t + batch) hist = drop ?t hist"
      by (metis add.commute append_take_drop_id drop_drop)
    then show ?thesis using rd ne nt IH by (simp add: map_append[symmetric] del: map_append)
  qed
qed simp

end

section \<open>The two streams are such feeds\<close>

definition response_sees :: "response_id \<Rightarrow> response_event list \<Rightarrow> event_log \<Rightarrow> bool" where
  "response_sees rid h g \<longleftrightarrow>
    (\<forall>l. map_of (el_logs g) rid = Some l \<longrightarrow> (\<exists>cap a. h = numbered a \<and> log_refines cap a l))"

definition response_history :: "response_event list \<Rightarrow> bool" where
  "response_history h \<longleftrightarrow> (\<exists>a. h = numbered a \<and> length a < u64_max)"

lemma numbered_take: "numbered (take m h) = take m (numbered h)"
  by (rule nth_equalityI) auto

lemma event_read_waiting_slice:
  assumes "\<forall>g \<in> set polls. \<exists>h. prefix h hist \<and> response_sees rid h g" "event_read_waiting rid c n polls = Inr es"
  shows "\<exists>h. prefix h hist \<and> es = take n (drop (read_target c) h)"
  using assms
proof (induction polls)
  case (Cons g gs)
  obtain h where h: "prefix h hist" "response_sees rid h g" using Cons.prems(1) by auto
  obtain l where l: "map_of (el_logs g) rid = Some l"
    using Cons.prems(2) by (cases "map_of (el_logs g) rid") (auto simp: event_read_after_def)
  then obtain cap a where a: "h = numbered a" "log_refines cap a l" using h(2) by (auto simp: response_sees_def)
  have "event_read_after rid c n g = Inr es \<longrightarrow> es = take n (drop (read_target c) h)"
    using l log_read_refines[OF a(2), of c n] a(1) by (auto simp: event_read_after_def)
  then show ?case
    using Cons h(1) by (auto split: sum.splits if_splits)
qed (auto intro: exI[of _ "[]"])

interpretation rfeed: sse_feed "response_read rid" re_sequence_number response_event_name response_event_terminal
    "response_sees rid" response_history for rid
proof
  fix hist c polls n es i
  show "\<exists>h. prefix h hist \<and> es = take n (drop (read_target c) h)"
    if "\<forall>s \<in> set polls. \<exists>h. prefix h hist \<and> response_sees rid h s" "response_read rid polls c n = Inr es"
    using event_read_waiting_slice[OF that(1)] that(2) by (auto simp: response_read_def split: sum.splits)
  show "re_sequence_number (hist ! i) = i" if "response_history hist" "i < length hist"
    using that by (auto simp: response_history_def with_seq_def)
  show "length hist < u64_max" if "response_history hist" using that by (auto simp: response_history_def)
qed

definition conversation_sees :: "conversation_id \<Rightarrow> conversation_event list \<Rightarrow> mem_store \<Rightarrow> bool" where
  "conversation_sees cid h s \<longleftrightarrow> h = (case map_of (st_conversation_events s) cid of Some st \<Rightarrow> cs_events st | None \<Rightarrow> [])"

definition conversation_history :: "conversation_event list \<Rightarrow> bool" where
  "conversation_history h \<longleftrightarrow> (\<forall>i < length h. cev_seq (h ! i) = i) \<and> length h < u64_max"

lemma conv_start_target: "cursor_ok c \<Longrightarrow> conv_read_start c = read_target c"
  by (auto simp: conv_read_start_def read_target_def cursor_ok_def sat_add_def u64_max_def split: option.split)

lemma conv_poll_slice:
  assumes "cursor_ok c" "\<forall>s \<in> set polls. \<exists>h. prefix h hist \<and> conversation_sees cid h s" "conv_poll t cid c n polls = Inr es"
  shows "\<exists>h. prefix h hist \<and> es = take n (drop (read_target c) h)"
  using assms(2,3)
proof (induction polls)
  case (Cons s ss)
  obtain h where h: "prefix h hist" "conversation_sees cid h s" using Cons.prems(1) by auto
  have "(case map_of (st_conversation_events s) cid of None \<Rightarrow> [] | Some st \<Rightarrow> stream_read st c n) = take n (drop (read_target c) h)"
    using h(2) by (auto simp: conversation_sees_def stream_read_def conv_start_target[OF assms(1)] split: option.split)
  then show ?case
    using Cons h(1) by (auto simp: Let_def split: option.splits if_splits)
qed (auto intro: exI[of _ "[]"])

interpretation cfeed: sse_feed "conversation_read fmt t cid" cev_seq conversation_event_name conversation_event_terminal
    "conversation_sees cid" conversation_history for fmt t cid
proof
  fix hist c polls n es i
  show "\<exists>h. prefix h hist \<and> es = take n (drop (read_target c) h)"
    if "cursor_ok c" "\<forall>s \<in> set polls. \<exists>h. prefix h hist \<and> conversation_sees cid h s"
      "conversation_read fmt t cid polls c n = Inr es"
    using conv_poll_slice[OF that(1,2)] that(3)
    by (cases polls) (auto simp: conversation_read_def conv_read_waiting_def intro: exI[of _ "[]"] split: sum.splits)
qed (auto simp: conversation_history_def)


section \<open>What a subscriber sees\<close>

lemma open_sse_run:
  "open_sse read seq name ends after batch probe reads = Inr x \<Longrightarrow> x = sse_run read seq name ends (max batch 1) after reads"
  by (auto simp: open_sse_def split: sum.splits)

text \<open>C15: A client that follows the stream of a response, loses the connection and comes back with the id of the
  last frame it received has, in total, exactly the events of the history after its first cursor, in order, none
  twice and none missing, whatever was appended meanwhile.\<close>

theorem response_reconnect_continues:
  assumes "length h < u64_max" "cursor_ok after"
    and "\<forall>polls \<in> set (reads1 @ reads2). \<forall>g \<in> set polls. \<exists>m. response_sees rid (numbered (take m h)) g"
    and "open_stream rid after probe1 reads1 = Inr (frames @ [EventFrame nm i e], ended1)"
    and "open_stream rid (resolve_cursor q (Some i)) probe2 reads2 = Inr (frames2, ended2)"
  shows "\<exists>k. delivered ((frames @ [EventFrame nm i e]) @ frames2) = take k (drop (read_target after) (numbered h))"
proof -
  have "prefix (numbered (take m h)) (numbered h)" for m
    by (simp add: numbered_take take_is_prefix)
  then have sees: "\<forall>polls \<in> set (reads1 @ reads2). \<forall>g \<in> set polls. \<exists>x. prefix x (numbered h) \<and> response_sees rid x g"
    using assms(3) by blast
  have "response_history (numbered h)" using assms(1) by (auto simp: response_history_def)
  from rfeed.resume_slice[OF this assms(2) sees] show ?thesis
    using open_sse_run[OF assms(4)[unfolded open_stream_def]] open_sse_run[OF assms(5)[unfolded open_stream_def]]
    by (metis fst_conv)
qed

text \<open>The same for the event stream of a conversation, for any page size.\<close>

theorem conversation_reconnect_continues:
  assumes "conversation_history h" "cursor_ok after"
    and "\<forall>polls \<in> set (reads1 @ reads2). \<forall>s \<in> set polls. \<exists>m. conversation_sees cid (take m h) s"
    and "open_conversation_stream fmt t cid after batch probe1 reads1 = Inr (frames @ [EventFrame nm i e], ended1)"
    and "open_conversation_stream fmt t cid (resolve_cursor q (Some i)) batch probe2 reads2 = Inr (frames2, ended2)"
  shows "\<exists>k. delivered ((frames @ [EventFrame nm i e]) @ frames2) = take k (drop (read_target after) h)"
proof -
  have sees: "\<forall>polls \<in> set (reads1 @ reads2). \<forall>s \<in> set polls. \<exists>x. prefix x h \<and> conversation_sees cid x s"
    using assms(3) take_is_prefix by blast
  from cfeed.resume_slice[OF assms(1,2) sees] show ?thesis
    using open_sse_run[OF assms(4)[unfolded open_conversation_stream_def]]
      open_sse_run[OF assms(5)[unfolded open_conversation_stream_def]]
    by (metis fst_conv)
qed

text \<open>C16: A stream that is followed to its end is complete.  When the history of a response has ended with a
  terminal event and is still buffered from the cursor on, enough reads deliver every event after the cursor, the
  terminal one last, and the stream closes.\<close>

theorem response_stream_completes:
  assumes "length h < u64_max" "h \<noteq> []" "kind_is_terminal (ae_kind (last h))"
    and "\<forall>x \<in> set (butlast h). \<not> kind_is_terminal (ae_kind x)"
    and "cursor_ok after" "read_target after < length h" "length h \<le> length reads"
    and "\<forall>polls \<in> set (reads @ [[probe]]). polls \<noteq> [] \<and> (\<exists>l cap. map_of (el_logs (hd polls)) rid = Some l \<and>
        log_refines cap h l \<and> \<not> rl_swept l \<and> length h - cap \<le> read_target after)"
  shows "open_stream rid after probe reads =
    Inr (map (event_frame re_sequence_number response_event_name) (drop (read_target after) (numbered h)), True)"
proof -
  have rd: "response_read rid polls c n = Inr (take n (drop (read_target c) (numbered h)))"
    if "polls \<in> set (reads @ [[probe]])" "read_target after \<le> read_target c" "read_target c < length h" "0 < n" for polls c n
  proof -
    note ok = bspec[OF assms(8) that(1)]
    then obtain g gs where p: "polls = g # gs" by (cases polls) auto
    obtain l cap where l: "map_of (el_logs g) rid = Some l" "log_refines cap h l" "\<not> rl_swept l" "length h - cap \<le> read_target after"
      using ok p by auto
    have "event_read_after rid c n g = Inr (take n (drop (read_target c) (numbered h)))"
      using l log_read_refines[OF l(2), of c n] that(2) by (simp add: event_read_after_def)
    then show ?thesis using that(3,4) by (simp add: p response_read_def)
  qed
  have nh: "numbered h \<noteq> []" using assms(2) by (metis length_0_conv numbered_length)
  have term_nth: "response_event_terminal (numbered h ! i) \<longleftrightarrow> kind_is_terminal (ae_kind (h ! i))" if "i < length h" for i
    using that by (simp add: response_event_terminal_def re_kind_def with_seq_def)
  have "response_event_terminal (last (numbered h))"
    using assms(2,3) term_nth[of "length h - 1"] nh by (simp add: last_conv_nth)
  moreover have "\<not> list_ex response_event_terminal (butlast (numbered h))"
    using assms(4) term_nth by (fastforce simp: list_ex_iff in_set_conv_nth nth_butlast)
  moreover have "response_history (numbered h)" using assms(1) by (auto simp: response_history_def)
  moreover have "length h \<le> length reads * 64" using assms(7) by simp
  moreover have "\<forall>polls \<in> set reads. \<forall>c'. cursor_ok c' \<longrightarrow> read_target after \<le> read_target c' \<longrightarrow>
      read_target c' < length (numbered h) \<longrightarrow> response_read rid polls c' 64 = Inr (take 64 (drop (read_target c') (numbered h)))"
    using rd by simp
  ultimately have "sse_run (response_read rid) re_sequence_number response_event_name response_event_terminal
      (max RESPONSE_BATCH 1) after reads =
      (map (event_frame re_sequence_number response_event_name) (drop (read_target after) (numbered h)), True)"
    using nh assms(5-7) by (intro rfeed.run_complete) (simp_all add: RESPONSE_BATCH_def)
  then show ?thesis using rd[of "[probe]" after 1] assms(6) by (simp add: open_stream_def open_sse_def)
qed


section \<open>A small stream\<close>

definition demo_done :: append_event where
  "demo_done = lifecycle demo_rid EvCompleted demo_object"

definition demo_entry2 :: response_log where
  "demo_entry2 = push_event 2 demo_done (push_event 2 demo_delta ResponseLog_new)"

definition demo_log2 :: event_log where
  "demo_log2 = demo_log1\<lparr>el_logs := [(demo_rid, demo_entry2)]\<rparr>"

lemma demo_entries:
  "log_refines 2 [demo_delta] (push_event 2 demo_delta ResponseLog_new)" "log_refines 2 [demo_delta, demo_done] demo_entry2"
  "\<not> rl_swept demo_entry2"
proof -
  show "log_refines 2 [demo_delta] (push_event 2 demo_delta ResponseLog_new)"
    using push_event_refines[of 2 "[]" ResponseLog_new demo_delta] by (simp add: ResponseLog_new_def log_refines_def numbered_def)
  then show "log_refines 2 [demo_delta, demo_done] demo_entry2"
    using push_event_refines[of 2 "[demo_delta]" "push_event 2 demo_delta ResponseLog_new" demo_done]
    by (simp add: demo_entry2_def push_event_def evict_eq ResponseLog_new_def)
  show "\<not> rl_swept demo_entry2" by (simp add: demo_entry2_def push_event_def evict_eq ResponseLog_new_def)
qed

lemma demo_reads:
  "response_read demo_rid [demo_log1] None n = Inr (take n [with_seq demo_delta 0])"
  "response_read demo_rid [demo_log2] None n = Inr (take n [with_seq demo_delta 0, with_seq demo_done 1])"
  "response_read demo_rid [demo_log2] (Some 0) n = Inr (take n [with_seq demo_done 1])"
  using log_read_refines[OF demo_entries(1), of None n] log_read_refines[OF demo_entries(2), of _ n]
  by (simp_all add: response_read_def event_read_after_def demo_log1_entry demo_log2_def demo_entries(3) read_target_def
      sat_add_def u64_max_def numbered_def push_event_def evict_eq ResponseLog_new_def)

lemma demo_kinds:
  "\<not> response_event_terminal (with_seq demo_delta 0)" "response_event_terminal (with_seq demo_done 1)"
  "re_sequence_number (with_seq x n) = n" "dec 0 = ''0''"
  subgoal by (simp add: response_event_terminal_def re_kind_def with_seq_def demo_delta_def text_delta_def)
  subgoal by (simp add: response_event_terminal_def re_kind_def with_seq_def demo_done_def lifecycle_def)
  subgoal by (simp add: with_seq_def)
  subgoal by code_simp
  done

theorem response_reconnect_continues_witness:
  "\<exists>k. delivered (map (event_frame re_sequence_number response_event_name) [with_seq demo_delta 0, with_seq demo_done 1]) =
    take k (drop (read_target None) (numbered [demo_delta, demo_done]))"
proof -
  have a: "open_stream demo_rid None demo_log1 [[demo_log1]] =
      Inr ([] @ [EventFrame (response_event_name (with_seq demo_delta 0)) ''0'' (with_seq demo_delta 0)], False)"
    by (simp add: open_stream_def open_sse_def RESPONSE_BATCH_def demo_reads demo_kinds event_frame_def)
  have c: "resolve_cursor None (Some ''0'') = Some 0" using resolve_cursor_id[of 0 None] by (simp add: demo_kinds)
  have b: "open_stream demo_rid (resolve_cursor None (Some ''0'')) demo_log2 [[demo_log2]] =
      Inr (map (event_frame re_sequence_number response_event_name) [with_seq demo_done 1], True)"
    using demo_kinds(2) by (simp add: c open_stream_def open_sse_def RESPONSE_BATCH_def demo_reads)
  have "response_sees demo_rid (numbered (take 1 [demo_delta, demo_done])) demo_log1"
    "response_sees demo_rid (numbered (take 2 [demo_delta, demo_done])) demo_log2"
    using demo_entries by (auto simp: response_sees_def demo_log1_entry demo_log2_def)
  note sees = exI[of "\<lambda>m. response_sees demo_rid (numbered (take m [demo_delta, demo_done])) demo_log1", OF this(1)]
    exI[of "\<lambda>m. response_sees demo_rid (numbered (take m [demo_delta, demo_done])) demo_log2", OF this(2)]
  from sees have s: "\<forall>polls \<in> set ([[demo_log1]] @ [[demo_log2]]). \<forall>g \<in> set polls. \<exists>m. response_sees demo_rid (numbered (take m [demo_delta, demo_done])) g"
    by simp
  show ?thesis
    using response_reconnect_continues[OF _ _ s a b] demo_kinds(3,4) by (simp add: u64_max_def cursor_ok_def event_frame_def)
qed

theorem response_stream_completes_witness:
  "open_stream demo_rid (Some 0) demo_log2 [[demo_log2], [demo_log2]] =
    Inr (map (event_frame re_sequence_number response_event_name) (drop (read_target (Some 0)) (numbered [demo_delta, demo_done])), True)"
  by (rule response_stream_completes)
    (use demo_entries in \<open>auto simp: u64_max_def cursor_ok_def read_target_def sat_add_def demo_log2_def
       demo_done_def demo_delta_def lifecycle_def text_delta_def\<close>)

theorem conversation_reconnect_continues_witness:
  "\<exists>k. delivered (map (event_frame cev_seq conversation_event_name) (cs_events (stream_of demo_busy demo_cid))) =
    take k (drop (read_target None) (cs_events (stream_of demo_busy demo_cid)))"
proof -
  let ?ev = "\<lparr>cev_conversation_id = demo_cid, cev_seq = 0, cev_kind = TurnStarted demo_rid, cev_ts_ms = 2\<rparr>"
  have ev: "cs_events (stream_of demo_busy demo_cid) = [?ev]"
    by (simp add: demo_busy_fields stream_push_def Stream_default_def)
  have rd: "conversation_read (\<lambda>_. ''u'') demo_tenant demo_cid [demo_busy] None n = Inr (take n [?ev])"
    "conversation_read (\<lambda>_. ''u'') demo_tenant demo_cid [demo_busy] (Some 0) n = Inr []" for n
    by (simp_all add: conversation_read_def conv_read_waiting_def demo_busy_fields stream_read_def conv_read_start_def
        stream_push_def Stream_default_def)
  have a: "open_conversation_stream (\<lambda>_. ''u'') demo_tenant demo_cid None 10 demo_busy [[demo_busy]] =
      Inr ([] @ [EventFrame (conversation_event_name ?ev) ''0'' ?ev], False)"
    by (simp add: open_conversation_stream_def open_sse_def rd demo_kinds event_frame_def conversation_event_terminal_def)
  have c: "resolve_cursor None (Some ''0'') = Some 0" using resolve_cursor_id[of 0 None] by (simp add: demo_kinds)
  have b: "open_conversation_stream (\<lambda>_. ''u'') demo_tenant demo_cid (resolve_cursor None (Some ''0'')) 10 demo_busy [[demo_busy]] =
      Inr ([], False)"
    by (simp add: c open_conversation_stream_def open_sse_def rd)
  have h: "conversation_history [?ev]" by (simp add: conversation_history_def u64_max_def)
  have s: "\<forall>polls \<in> set ([[demo_busy]] @ [[demo_busy]]). \<forall>s \<in> set polls. \<exists>m. conversation_sees demo_cid (take m [?ev]) s"
    by (auto simp: conversation_sees_def demo_busy_fields stream_push_def Stream_default_def intro: exI[of _ 1])
  show ?thesis
    using conversation_reconnect_continues[OF h _ s a b] by (simp add: ev cursor_ok_def event_frame_def demo_kinds)
qed

end
