(* ===== verification/Gateway.thy ===== *)
theory Gateway
  imports Sse
begin

text \<open>
  The HTTP routes of the gateway (\<open>gateway/src/routes\<close>), its configuration (\<open>config.rs\<close>), state
  (\<open>state.rs\<close>) and drain (\<open>shutdown.rs\<close>).

  A route is a function of the gateway's state, the request and the world; it returns the answer
  and the world after its port calls.  Reading JSON into a request type is the serialisation
  library's, so the decoders are parameters, as are the textual forms of UUIDs and URLs.  An
  answer that opens a stream carries the source and the cursor; the frames it then delivers are
  those of \<open>sse_run\<close>.
\<close>

section \<open>Configuration (config.rs)\<close>

record gateway_config =
  gc_listen :: string
  gc_mem_server_url_env :: string
  gc_api_keys_env :: string
  gc_pending_limit :: nat
  gc_conversation_events_page :: nat
  gc_drain_timeout_ms :: nat
  gc_responses :: config

definition default_mem_server_url_env :: string where
  "default_mem_server_url_env = ''NOVA_MEM_SERVER_URL''"

definition default_api_keys_env :: string where
  "default_api_keys_env = ''NOVA_API_KEYS''"

definition default_pending_limit :: nat where
  "default_pending_limit = 10000"

definition default_conversation_events_page :: nat where
  "default_conversation_events_page = 256"

definition default_drain_timeout_ms :: nat where
  "default_drain_timeout_ms = 600000"

datatype gateway_config_error = ConfigMessage string | ResponsesConfig config_error

definition gateway_config_validate :: "gateway_config \<Rightarrow> gateway_config_error + unit" where
  "gateway_config_validate c =
    (if gc_drain_timeout_ms c = 0 then Inl (ConfigMessage ''drain_timeout_ms must be greater than zero'')
     else if gc_conversation_events_page c = 0
     then Inl (ConfigMessage ''conversation_events_page must be at least 1'')
     else if gc_pending_limit c = 0 then Inl (ConfigMessage ''pending_limit must be at least 1'')
     else case config_validate (gc_responses c) of Inl e \<Rightarrow> Inl (ResponsesConfig e) | Inr _ \<Rightarrow> Inr ())"

section \<open>State (state.rs)\<close>

record app_state =
  as_cfg :: gateway_config
  as_keys :: key_table
  as_accepting :: bool

definition responses_cfg :: "app_state \<Rightarrow> config" where
  "responses_cfg st = gc_responses (as_cfg st)"

definition is_accepting :: "app_state \<Rightarrow> bool" where
  "is_accepting st = as_accepting st"

definition stop_accepting :: "app_state \<Rightarrow> app_state" where
  "stop_accepting st = st\<lparr>as_accepting := False\<rparr>"

text \<open>What the routes use of other crates.\<close>

record formats =
  ft_codec :: codec
  ft_integrity :: "integrity option"
  ft_uuid_parse :: "string \<Rightarrow> uuid option"
  ft_url_parse :: "string \<Rightarrow> parsed_url option"
  ft_decode_create :: "json \<Rightarrow> string + create_response_request"
  ft_decode_metadata :: "json \<Rightarrow> string + conversation_metadata_request"
  ft_decode_event :: "json \<Rightarrow> string + append_business_event_request"

definition ft_fmt :: "formats \<Rightarrow> uuid \<Rightarrow> string" where
  "ft_fmt ft = cx_uuid_fmt (ft_codec ft)"

text \<open>The service is assembled with the capability layer's half of the configuration.\<close>

definition service_deps :: "formats \<Rightarrow> app_state \<Rightarrow> deps" where
  "service_deps ft st = \<lparr>dp_cfg = responses_cfg st, dp_codec = ft_codec ft, dp_integrity = ft_integrity ft\<rparr>"

section \<open>Bodies\<close>

record conversation_object =
  co_id :: string
  co_created_at :: nat
  co_metadata :: metadata
  co_status :: "string option"
  co_active_response_id :: "string option"

definition ConversationObject_new :: "(uuid \<Rightarrow> string) \<Rightarrow> conversation \<Rightarrow> conversation_object" where
  "ConversationObject_new fmt c = \<lparr>co_id = ConversationId_display fmt (cv_id c),
    co_created_at = cv_created_at_ms c div 1000, co_metadata = cv_metadata c, co_status = None,
    co_active_response_id = None\<rparr>"

definition ConversationObject_with_activity :: "(uuid \<Rightarrow> string) \<Rightarrow> conversation \<Rightarrow> conversation_object" where
  "ConversationObject_with_activity fmt c = (ConversationObject_new fmt c)\<lparr>
    co_status := Some (if cv_active_response_id c \<noteq> None then ''busy'' else ''idle''),
    co_active_response_id := map_option (ResponseId_display fmt) (cv_active_response_id c)\<rparr>"

datatype transcript_entry = TranscriptReasoning string | TranscriptItem response_item

record transcript_object =
  to_conversation_id :: string
  to_data :: "transcript_entry list"

fun transcript_entries :: "context_entry list \<Rightarrow> transcript_entry list" where
  "transcript_entries [] = []"
| "transcript_entries (e # es) =
    (case ce_reasoning e of Some t \<Rightarrow> [TranscriptReasoning t] | None \<Rightarrow> [])
      @ TranscriptItem (ce_item e) # transcript_entries es"

definition transcript_object_of :: "(uuid \<Rightarrow> string) \<Rightarrow> conversation_id \<Rightarrow> resolved_context \<Rightarrow> transcript_object" where
  "transcript_object_of fmt cid ctx =
    \<lparr>to_conversation_id = ConversationId_display fmt cid, to_data = transcript_entries (rc_entries ctx)\<rparr>"

datatype body =
    JsonBody json
  | ResponseBody response_object
  | ConversationBody conversation_object
  | ConversationListBody "conversation_object list"
  | DeletedBody string string
  | AppendedBody string nat
  | TranscriptBody transcript_object
  | ResponseStream response_id "nat option"
  | ConversationStream tenant_id conversation_id "nat option" nat

type_synonym answer = "body http_response"

definition refuse :: "json http_response \<Rightarrow> answer" where
  "refuse r = \<lparr>hr_status = hr_status r, hr_body = JsonBody (hr_body r)\<rparr>"

definition ok :: "body \<Rightarrow> answer" where
  "ok b = \<lparr>hr_status = 200, hr_body = b\<rparr>"

definition draining :: "json http_response" where
  "draining = api_error 503 ''draining'' ''node is shutting down; retry against the service''"

section \<open>Responses (routes/responses.rs)\<close>

definition parse_response_id :: "formats \<Rightarrow> string \<Rightarrow> json http_response + response_id" where
  "parse_response_id ft raw = (case ResponseId_parse (ft_uuid_parse ft) raw of Inr r \<Rightarrow> Inr r | Inl _ \<Rightarrow> Inl not_found)"

definition context_anchor_of :: "formats \<Rightarrow> create_response_request \<Rightarrow> json http_response + context_anchor" where
  "context_anchor_of ft q =
    (case crq_conversation q of
       Some ref \<Rightarrow>
         (case ConversationId_parse (ft_uuid_parse ft) (ref_id ref) of
            Inl _ \<Rightarrow> Inl (bad_request ''invalid_request'' ''conversation is not a valid conversation id'')
          | Inr cid \<Rightarrow> Inr (AnchorConversation cid))
     | None \<Rightarrow>
       (case crq_previous_response_id q of
          None \<Rightarrow> Inr Root
        | Some raw \<Rightarrow>
          (case ResponseId_parse (ft_uuid_parse ft) raw of
             Inl _ \<Rightarrow> Inl (bad_request ''chain_broken'' ''previous_response_id is not a valid response id'')
           | Inr rid \<Rightarrow> Inr (Previous rid))))"

definition idempotency_key_of :: "headers \<Rightarrow> json http_response + idempotency_key option" where
  "idempotency_key_of h =
    (case h ''idempotency-key'' of
       None \<Rightarrow> Inr None
     | Some v \<Rightarrow>
       (case map_option IdempotencyKey_parse v of
          Some (Inr key) \<Rightarrow> Inr (Some key)
        | _ \<Rightarrow> Inl (bad_request ''invalid_request''
            ''idempotency-key header is empty, too long, or contains whitespace'')))"

definition turn_spec_of ::
  "create_response_request \<Rightarrow> response_item list \<Rightarrow> context_anchor \<Rightarrow> turn_spec" where
  "turn_spec_of q input_items anchor = \<lparr>
    ts_params = \<lparr>mp_model = crq_model q, mp_instructions = crq_instructions q,
      mp_tools = (case crq_tools q of Some ts \<Rightarrow> ts | None \<Rightarrow> []), mp_tool_choice = crq_tool_choice q,
      mp_metadata = (case crq_metadata q of Some m \<Rightarrow> m | None \<Rightarrow> [])\<rparr>,
    ts_input_items = input_items, ts_store = crq_store q, ts_anchor = anchor\<rparr>"

text \<open>The part of the create route before the service is called.\<close>

definition read_create ::
  "formats \<Rightarrow> app_state \<Rightarrow> headers \<Rightarrow> json
    \<Rightarrow> json http_response + tenant_id \<times> create_response_request \<times> turn_spec \<times> idempotency_key option" where
  "read_create ft st h raw =
    (case tenant_or_reject (as_keys st) h of
       Inl resp \<Rightarrow> Inl resp
     | Inr tenant \<Rightarrow>
       if \<not> is_accepting st then Inl draining
       else case preflight_unsupported raw of
         Some (field, hint) \<Rightarrow> Inl (bad_request ''unsupported_parameter'' (''`'' @ field @ ''` '' @ hint))
       | None \<Rightarrow>
         (case ft_decode_create ft raw of
            Inl e \<Rightarrow> Inl (bad_request ''invalid_request'' e)
          | Inr q \<Rightarrow>
            (case request_validate (ft_url_parse ft) (cx_num_fmt (ft_codec ft)) (cf_limits (responses_cfg st)) q of
               Inl e \<Rightarrow> Inl (bad_request ''invalid_request'' (request_violation_to_string e))
             | Inr items \<Rightarrow>
               (case context_anchor_of ft q of
                  Inl resp \<Rightarrow> Inl resp
                | Inr anchor \<Rightarrow>
                  (case idempotency_key_of h of
                     Inl resp \<Rightarrow> Inl resp
                   | Inr key \<Rightarrow> Inr (tenant, q, turn_spec_of q items anchor, key))))))"

text \<open>Opening a stream: the probe reads the log as it is now.\<close>

definition stream_answer :: "response_id \<Rightarrow> nat option \<Rightarrow> world \<Rightarrow> answer" where
  "stream_answer rid cursor w =
    (case open_stream rid cursor (w_log w) [] of
       Inl resp \<Rightarrow> refuse resp
     | Inr _ \<Rightarrow> ok (ResponseStream rid cursor))"

text \<open>
  The delivery modes of an accepted response.  In the synchronous one the route waits; \<open>reads\<close> are
  the logs found while waiting and \<open>later\<close> is the world in which the object is then read.
\<close>

definition deliver ::
  "formats \<Rightarrow> app_state \<Rightarrow> create_response_request \<Rightarrow> response_record \<Rightarrow> event_log list list \<Rightarrow> world \<Rightarrow> world
    \<Rightarrow> answer option" where
  "deliver ft st q r reads later w =
    (if crq_stream q then Some (stream_answer (rr_response_id r) None w)
     else if crq_background q
     then Some \<lparr>hr_status = 202, hr_body = ResponseBody (ResponseObject_without_output (ft_fmt ft) r)\<rparr>
     else map_option (\<lambda>x. case x of
         Inr object \<Rightarrow> ok (ResponseBody object)
       | Inl e \<Rightarrow> refuse (map_service_error (ft_fmt ft) e))
       (wait_terminal (service_deps ft st) r reads later))"

definition route_create ::
  "formats \<Rightarrow> app_state \<Rightarrow> uuid \<Rightarrow> headers \<Rightarrow> json \<Rightarrow> event_log list list \<Rightarrow> world \<Rightarrow> world
    \<Rightarrow> (answer \<times> world) option" where
  "route_create ft st fresh h raw reads later w =
    (case read_create ft st h raw of
       Inl resp \<Rightarrow> Some (refuse resp, w)
     | Inr (tenant, q, spec, key) \<Rightarrow>
       (case service_create (service_deps ft st) fresh tenant spec key w of
          None \<Rightarrow> None
        | Some (Inl e, w1) \<Rightarrow> Some (refuse (map_service_error (ft_fmt ft) e), w1)
        | Some (Inr (Accepted r), w1) \<Rightarrow> map_option (\<lambda>a. (a, w1)) (deliver ft st q r reads later w1)
        | Some (Inr (Duplicate r), w1) \<Rightarrow> Some (ok (ResponseBody (ResponseObject_without_output (ft_fmt ft) r)), w1)
        | Some (Inr OutcomeReadOnly, w1) \<Rightarrow> Some (refuse (api_error 503 ''read_only'' ''service is read-only''), w1)
        | Some (Inr Overloaded, w1) \<Rightarrow>
            Some (refuse (api_error 429 ''overloaded'' ''too many in-flight responses; retry later''), w1)))"

definition last_event_id :: "headers \<Rightarrow> string option" where
  "last_event_id h = Option.bind (h ''last-event-id'') id"

definition stream_impl ::
  "response_id \<Rightarrow> nat option \<Rightarrow> headers \<Rightarrow> tenant_id \<Rightarrow> world \<Rightarrow> answer" where
  "stream_impl rid starting_after h tenant w =
    (let cursor = resolve_cursor starting_after (last_event_id h) in
     case ledger_get rid (w_store w) of
       Inr (Some r) \<Rightarrow> if rr_tenant_id r \<noteq> tenant then refuse not_found else stream_answer rid cursor w
     | _ \<Rightarrow> stream_answer rid cursor w)"

definition route_retrieve ::
  "formats \<Rightarrow> app_state \<Rightarrow> headers \<Rightarrow> string \<Rightarrow> bool option \<Rightarrow> nat option \<Rightarrow> world \<Rightarrow> answer option" where
  "route_retrieve ft st h raw_id q_stream q_starting_after w =
    (case tenant_or_reject (as_keys st) h of
       Inl resp \<Rightarrow> Some (refuse resp)
     | Inr tenant \<Rightarrow>
       (case parse_response_id ft raw_id of
          Inl resp \<Rightarrow> Some (refuse resp)
        | Inr rid \<Rightarrow>
          if q_stream = Some True then Some (stream_impl rid q_starting_after h tenant w)
          else map_option (\<lambda>x. case x of
              Inr (Some object) \<Rightarrow> ok (ResponseBody object)
            | Inr None \<Rightarrow> refuse not_found
            | Inl e \<Rightarrow> refuse (map_service_error (ft_fmt ft) e))
            (service_retrieve (service_deps ft st) tenant rid w)))"

definition route_cancel ::
  "formats \<Rightarrow> app_state \<Rightarrow> headers \<Rightarrow> string \<Rightarrow> world \<Rightarrow> (answer \<times> world) option" where
  "route_cancel ft st h raw_id w =
    (case tenant_or_reject (as_keys st) h of
       Inl resp \<Rightarrow> Some (refuse resp, w)
     | Inr tenant \<Rightarrow>
       (case parse_response_id ft raw_id of
          Inl resp \<Rightarrow> Some (refuse resp, w)
        | Inr rid \<Rightarrow>
          map_option (\<lambda>(x, w1). (case x of
              Inr object \<Rightarrow> ok (ResponseBody object)
            | Inl e \<Rightarrow> refuse (map_service_error (ft_fmt ft) e), w1))
            (service_cancel (service_deps ft st) tenant rid w)))"

definition route_delete :: "formats \<Rightarrow> app_state \<Rightarrow> headers \<Rightarrow> string \<Rightarrow> world \<Rightarrow> answer \<times> world" where
  "route_delete ft st h raw_id w =
    (case tenant_or_reject (as_keys st) h of
       Inl resp \<Rightarrow> (refuse resp, w)
     | Inr tenant \<Rightarrow>
       (case parse_response_id ft raw_id of
          Inl resp \<Rightarrow> (refuse resp, w)
        | Inr rid \<Rightarrow>
          (case service_delete tenant rid w of
             (Inr True, w1) \<Rightarrow> (ok (DeletedBody (ResponseId_display (ft_fmt ft) rid) ''response.deleted''), w1)
           | (Inr False, w1) \<Rightarrow> (refuse not_found, w1)
           | (Inl e, w1) \<Rightarrow> (refuse (map_service_error (ft_fmt ft) e), w1))))"


section \<open>Conversations (routes/conversations.rs)\<close>

definition parse_conversation_id :: "formats \<Rightarrow> string \<Rightarrow> json http_response + conversation_id" where
  "parse_conversation_id ft raw = parse_or_not_found (ConversationId_parse (ft_uuid_parse ft) raw) ''conversation''"

definition read_metadata ::
  "formats \<Rightarrow> app_state \<Rightarrow> json \<Rightarrow> json http_response + metadata" where
  "read_metadata ft st raw =
    (case ft_decode_metadata ft raw of
       Inl e \<Rightarrow> Inl (bad_request ''invalid_request'' e)
     | Inr q \<Rightarrow>
       (case metadata_request_validate (cx_num_fmt (ft_codec ft)) (cf_limits (responses_cfg st)) q of
          Inl e \<Rightarrow> Inl (bad_request ''invalid_request'' (request_violation_to_string e))
        | Inr _ \<Rightarrow> Inr (metadata_request_metadata q)))"

definition conv_answer :: "formats \<Rightarrow> conversation_error + conversation \<Rightarrow> answer" where
  "conv_answer ft x =
    (case x of
       Inr c \<Rightarrow> ok (ConversationBody (ConversationObject_new (ft_fmt ft) c))
     | Inl e \<Rightarrow> refuse (map_conversation_error (ft_fmt ft) e))"

definition route_conv_create ::
  "formats \<Rightarrow> app_state \<Rightarrow> uuid \<Rightarrow> headers \<Rightarrow> json \<Rightarrow> world \<Rightarrow> answer \<times> world" where
  "route_conv_create ft st fresh h raw w =
    (case tenant_or_reject (as_keys st) h of
       Inl resp \<Rightarrow> (refuse resp, w)
     | Inr tenant \<Rightarrow>
       if \<not> is_accepting st then (refuse draining, w)
       else case read_metadata ft st raw of
         Inl resp \<Rightarrow> (refuse resp, w)
       | Inr m \<Rightarrow> (case cs_create fresh tenant m w of (x, w1) \<Rightarrow> (conv_answer ft x, w1)))"

definition route_conv_retrieve :: "formats \<Rightarrow> app_state \<Rightarrow> headers \<Rightarrow> string \<Rightarrow> world \<Rightarrow> answer" where
  "route_conv_retrieve ft st h raw_id w =
    (case tenant_or_reject (as_keys st) h of
       Inl resp \<Rightarrow> refuse resp
     | Inr tenant \<Rightarrow>
       (case parse_conversation_id ft raw_id of
          Inl resp \<Rightarrow> refuse resp
        | Inr cid \<Rightarrow>
          (case cs_retrieve tenant cid w of
             Inr (Some c) \<Rightarrow> ok (ConversationBody (ConversationObject_new (ft_fmt ft) c))
           | Inr None \<Rightarrow> refuse (not_found_kind ''conversation'')
           | Inl e \<Rightarrow> refuse (map_conversation_error (ft_fmt ft) e))))"

definition route_conv_update ::
  "formats \<Rightarrow> app_state \<Rightarrow> headers \<Rightarrow> string \<Rightarrow> json \<Rightarrow> world \<Rightarrow> answer \<times> world" where
  "route_conv_update ft st h raw_id raw w =
    (case tenant_or_reject (as_keys st) h of
       Inl resp \<Rightarrow> (refuse resp, w)
     | Inr tenant \<Rightarrow>
       if \<not> is_accepting st then (refuse draining, w)
       else case parse_conversation_id ft raw_id of
         Inl resp \<Rightarrow> (refuse resp, w)
       | Inr cid \<Rightarrow>
         (case read_metadata ft st raw of
            Inl resp \<Rightarrow> (refuse resp, w)
          | Inr m \<Rightarrow> (case cs_update_metadata tenant cid m w of (x, w1) \<Rightarrow> (conv_answer ft x, w1))))"

definition route_conv_delete :: "formats \<Rightarrow> app_state \<Rightarrow> headers \<Rightarrow> string \<Rightarrow> world \<Rightarrow> answer \<times> world" where
  "route_conv_delete ft st h raw_id w =
    (case tenant_or_reject (as_keys st) h of
       Inl resp \<Rightarrow> (refuse resp, w)
     | Inr tenant \<Rightarrow>
       (case parse_conversation_id ft raw_id of
          Inl resp \<Rightarrow> (refuse resp, w)
        | Inr cid \<Rightarrow>
          (case cs_delete tenant cid w of
             (Inr True, w1) \<Rightarrow> (ok (DeletedBody (ConversationId_display (ft_fmt ft) cid) ''conversation.deleted''), w1)
           | (Inr False, w1) \<Rightarrow> (refuse (not_found_kind ''conversation''), w1)
           | (Inl e, w1) \<Rightarrow> (refuse (map_conversation_error (ft_fmt ft) e), w1))))"

definition route_conv_list :: "formats \<Rightarrow> app_state \<Rightarrow> headers \<Rightarrow> world \<Rightarrow> answer" where
  "route_conv_list ft st h w =
    (case tenant_or_reject (as_keys st) h of
       Inl resp \<Rightarrow> refuse resp
     | Inr tenant \<Rightarrow>
       (case cs_list tenant w of
          Inr cs \<Rightarrow> ok (ConversationListBody (map (ConversationObject_with_activity (ft_fmt ft)) cs))
        | Inl e \<Rightarrow> refuse (map_conversation_error (ft_fmt ft) e)))"

definition route_conv_events ::
  "formats \<Rightarrow> app_state \<Rightarrow> headers \<Rightarrow> string \<Rightarrow> nat option \<Rightarrow> world \<Rightarrow> answer" where
  "route_conv_events ft st h raw_id q_starting_after w =
    (case tenant_or_reject (as_keys st) h of
       Inl resp \<Rightarrow> refuse resp
     | Inr tenant \<Rightarrow>
       (case parse_conversation_id ft raw_id of
          Inl resp \<Rightarrow> refuse resp
        | Inr cid \<Rightarrow>
          (let cursor = resolve_cursor q_starting_after (last_event_id h);
               page = gc_conversation_events_page (as_cfg st) in
           case open_conversation_stream (ft_fmt ft) tenant cid cursor page (w_store w) [] of
             Inl resp \<Rightarrow> refuse resp
           | Inr _ \<Rightarrow> ok (ConversationStream tenant cid cursor page))))"

definition route_conv_append_event ::
  "formats \<Rightarrow> app_state \<Rightarrow> headers \<Rightarrow> string \<Rightarrow> json \<Rightarrow> world \<Rightarrow> answer \<times> world" where
  "route_conv_append_event ft st h raw_id raw w =
    (case tenant_or_reject (as_keys st) h of
       Inl resp \<Rightarrow> (refuse resp, w)
     | Inr tenant \<Rightarrow>
       if \<not> is_accepting st then (refuse draining, w)
       else case parse_conversation_id ft raw_id of
         Inl resp \<Rightarrow> (refuse resp, w)
       | Inr cid \<Rightarrow>
         (case ft_decode_event ft raw of
            Inl e \<Rightarrow> (refuse (bad_request ''invalid_request'' e), w)
          | Inr q \<Rightarrow>
            (case business_event_validate (cx_esc (ft_codec ft)) (cx_num_fmt (ft_codec ft)) (cf_limits (responses_cfg st)) q of
               Inl e \<Rightarrow> (refuse (bad_request ''invalid_request'' (business_event_violation_to_string e)), w)
             | Inr _ \<Rightarrow>
               (case cs_append_event tenant cid (Business (ber_kind q) (ber_payload q)) w of
                  (Inr seq, w1) \<Rightarrow> (ok (AppendedBody (ConversationId_display (ft_fmt ft) cid) seq), w1)
                | (Inl e, w1) \<Rightarrow> (refuse (map_conversation_error (ft_fmt ft) e), w1)))))"

definition route_conv_transcript :: "formats \<Rightarrow> app_state \<Rightarrow> headers \<Rightarrow> string \<Rightarrow> world \<Rightarrow> answer" where
  "route_conv_transcript ft st h raw_id w =
    (case tenant_or_reject (as_keys st) h of
       Inl resp \<Rightarrow> refuse resp
     | Inr tenant \<Rightarrow>
       (case parse_conversation_id ft raw_id of
          Inl resp \<Rightarrow> refuse resp
        | Inr cid \<Rightarrow>
          (case cs_read_snapshot tenant cid w of
             Inr ctx \<Rightarrow> ok (TranscriptBody (transcript_object_of (ft_fmt ft) cid ctx))
           | Inl e \<Rightarrow> refuse (map_conversation_error (ft_fmt ft) e))))"

section \<open>Operations (routes/admin.rs)\<close>

definition require_admin :: "app_state \<Rightarrow> headers \<Rightarrow> json http_response + unit" where
  "require_admin st h =
    (case authorize_admin (as_keys st) h of
       Inr u \<Rightarrow> Inr u
     | Inl _ \<Rightarrow> Inl (api_error 401 ''invalid_credentials'' ''admin credentials required''))"

definition with_admin :: "app_state \<Rightarrow> headers \<Rightarrow> world \<Rightarrow> (world \<Rightarrow> answer \<times> world) \<Rightarrow> answer \<times> world" where
  "with_admin st h w f = (case require_admin st h of Inl resp \<Rightarrow> (refuse resp, w) | Inr _ \<Rightarrow> f w)"

definition route_set_read_only :: "app_state \<Rightarrow> headers \<Rightarrow> bool \<Rightarrow> world \<Rightarrow> answer \<times> world" where
  "route_set_read_only st h enabled w = with_admin st h w (\<lambda>w.
    let w1 = w\<lparr>w_store := set_read_only enabled (w_store w)\<rparr> in
    (ok (JsonBody (JObj [(''ok'', JBool True), (''read_only'', JBool (st_read_only (w_store w1))),
       (''node_tag'', JStr (nt_str (cf_node_tag (responses_cfg st))))])), w1))"

definition route_set_pending_limit :: "app_state \<Rightarrow> headers \<Rightarrow> nat \<Rightarrow> world \<Rightarrow> answer \<times> world" where
  "route_set_pending_limit st h limit w = with_admin st h w (\<lambda>w.
    let w1 = w\<lparr>w_store := set_pending_limit limit (w_store w)\<rparr> in
    (ok (JsonBody (JObj [(''ok'', JBool True),
       (''pending_limit'', JNum (PosInt (st_pending_limit (w_store w1))))])), w1))"

definition purge_ledger :: "tenant_id \<Rightarrow> nat \<Rightarrow> world \<Rightarrow> answer \<times> world" where
  "purge_ledger tenant conversations w =
    (case on_store (ledger_delete_by_tenant tenant) w of
       (Inl e, w1) \<Rightarrow> (refuse (map_ledger_error e), w1)
     | (Inr deleted, w1) \<Rightarrow>
         (ok (JsonBody (JObj [(''ok'', JBool True), (''tenant'', JStr (ti_str tenant)),
            (''deleted'', JNum (PosInt deleted)), (''conversations_deleted'', JNum (PosInt conversations))])),
          incr ''tenant_purges'' 1 w1))"

definition route_purge_tenant ::
  "formats \<Rightarrow> app_state \<Rightarrow> headers \<Rightarrow> string \<Rightarrow> world \<Rightarrow> answer \<times> world" where
  "route_purge_tenant ft st h tenant_raw w = with_admin st h w (\<lambda>w.
    case TenantId_parse tenant_raw of
      Inl _ \<Rightarrow> (refuse (bad_request ''invalid_tenant'' ''tenant id is malformed''), w)
    | Inr tenant \<Rightarrow>
      (case on_store (conv_delete_by_tenant tenant) w of
         (Inl e, w1) \<Rightarrow> (refuse (map_conversation_error (ft_fmt ft) e), w1)
       | (Inr conversations, w1) \<Rightarrow> purge_ledger tenant conversations w1))"

definition route_health :: "app_state \<Rightarrow> world \<Rightarrow> answer" where
  "route_health st w =
    (let conversation_ok = (case conv_health (w_store w) of Inr _ \<Rightarrow> True | Inl _ \<Rightarrow> False);
         in_flight = (case ledger_in_flight (w_store w) of Inr n \<Rightarrow> n | Inl _ \<Rightarrow> 0) in
     \<lparr>hr_status = (if conversation_ok then 200 else 503),
      hr_body = JsonBody (JObj [(''ok'', JBool conversation_ok),
        (''node_tag'', JStr (nt_str (cf_node_tag (responses_cfg st)))), (''accepting'', JBool (is_accepting st)),
        (''read_only'', JBool (st_read_only (w_store w))), (''in_flight'', JNum (PosInt in_flight)),
        (''stores'', JObj [(''conversation'', JBool conversation_ok)])])\<rparr>)"

section \<open>Drain (shutdown.rs)\<close>

datatype drain_outcome = DrainComplete | DrainTimeout nat

text \<open>
  The poll loop: each element is the store found at a poll and whether the deadline had passed
  when the loop looked at the clock.
\<close>

fun drain_loop :: "(mem_store \<times> bool) list \<Rightarrow> drain_outcome option" where
  "drain_loop [] = None"
| "drain_loop ((s, past_deadline) # rest) =
    (let in_flight = (case ledger_in_flight s of Inr n \<Rightarrow> n | Inl _ \<Rightarrow> 0) in
     if in_flight = 0 then Some DrainComplete
     else if past_deadline then Some (DrainTimeout in_flight)
     else drain_loop rest)"

text \<open>From the signal on: the gateway refuses new work, waits in the loop and counts a timeout.\<close>

definition shutdown_drain :: "(mem_store \<times> bool) list \<Rightarrow> app_state \<Rightarrow> world \<Rightarrow> (app_state \<times> world) option" where
  "shutdown_drain polls st w =
    (let w1 = incr ''drain_started'' 1 w in
     map_option (\<lambda>outcome. (stop_accepting st,
         case outcome of DrainComplete \<Rightarrow> w1 | DrainTimeout _ \<Rightarrow> incr ''drain_timeouts'' 1 w1))
       (drain_loop polls))"

section \<open>Who gets in\<close>

lemmas route_defs = route_create_def read_create_def route_cancel_def route_delete_def route_conv_create_def
  route_conv_update_def route_conv_delete_def route_conv_append_event_def

text \<open>C29: A request without valid credentials changes nothing and is told so with 401, on every route that
  could change anything; and without the admin key no operational switch moves and no tenant is purged.\<close>

theorem rejected_requests_change_nothing:
  "(tenant_or_reject (as_keys st) h = Inl resp \<longrightarrow> hr_status resp = 401 \<and>
    route_create ft st fresh h raw reads later w = Some (refuse resp, w) \<and>
    route_cancel ft st h raw_id w = Some (refuse resp, w) \<and>
    route_delete ft st h raw_id w = (refuse resp, w) \<and>
    route_conv_create ft st fresh h raw w = (refuse resp, w) \<and>
    route_conv_update ft st h raw_id raw w = (refuse resp, w) \<and>
    route_conv_delete ft st h raw_id w = (refuse resp, w) \<and>
    route_conv_append_event ft st h raw_id raw w = (refuse resp, w)) \<and>
   (require_admin st h = Inl resp \<longrightarrow> hr_status resp = 401 \<and>
    route_set_read_only st h enabled w = (refuse resp, w) \<and>
    route_set_pending_limit st h limit w = (refuse resp, w) \<and>
    route_purge_tenant ft st h raw_id w = (refuse resp, w))"
proof (intro conjI impI)
  assume "tenant_or_reject (as_keys st) h = Inl resp"
  then show "hr_status resp = 401"
    by (auto simp: tenant_or_reject_def api_error_def split: sum.splits auth_error.splits)
next
  assume "require_admin st h = Inl resp"
  then show "hr_status resp = 401" by (auto simp: require_admin_def api_error_def split: sum.splits)
qed (simp_all add: route_defs with_admin_def route_set_read_only_def route_set_pending_limit_def route_purge_tenant_def)

text \<open>A draining gateway takes no new work: every authenticated create or conversation write is refused
  with 503 and changes nothing, while retrieving, streaming, cancelling and deleting answer as before.\<close>

theorem draining_refuses_new_work:
  assumes "tenant_or_reject (as_keys st) h = Inr t" and st': "st' = stop_accepting st"
  shows "route_create ft st' fresh h raw reads later w = Some (refuse draining, w) \<and>
    route_conv_create ft st' fresh h raw w = (refuse draining, w) \<and>
    route_conv_update ft st' h raw_id raw w = (refuse draining, w) \<and>
    route_conv_append_event ft st' h raw_id raw w = (refuse draining, w) \<and>
    route_retrieve ft st' h raw_id q_stream after w = route_retrieve ft st h raw_id q_stream after w \<and>
    route_conv_events ft st' h raw_id after w = route_conv_events ft st h raw_id after w \<and>
    route_cancel ft st' h raw_id w = route_cancel ft st h raw_id w \<and>
    route_delete ft st' h raw_id w = route_delete ft st h raw_id w"
proof -
  have keys: "as_keys st' = as_keys st" "as_cfg st' = as_cfg st" "\<not> is_accepting st'"
    by (simp_all add: st' stop_accepting_def is_accepting_def)
  have "service_deps ft st' = service_deps ft st" by (simp add: service_deps_def responses_cfg_def keys)
  then show ?thesis
    using assms(1) keys by (simp add: route_defs route_retrieve_def route_conv_events_def cong: sum.case_cong if_cong)
qed


section \<open>Success is success\<close>

lemma ledger_error_failure: "400 \<le> hr_status (map_ledger_error e)"
  by (cases e rule: map_ledger_error.cases) (simp_all add: api_error_def not_found_def)

lemma event_log_error_failure: "400 \<le> fst (map_event_log_error e)"
  by (cases e rule: map_event_log_error.cases) simp_all

lemma conversation_error_failure: "400 \<le> fst (map_conversation_stream_error fmt e)"
  by (cases "(fmt, e)" rule: map_conversation_stream_error.cases) simp_all

lemma service_error_failure: "400 \<le> hr_status (map_service_error fmt e)"
proof (cases e)
  case (SContext x)
  then show ?thesis by (cases x) (simp_all add: api_error_def)
qed (use ledger_error_failure event_log_error_failure conversation_error_failure in
    \<open>simp_all add: map_conversation_error_def api_error_def case_prod_unfold\<close>)

lemma read_create_failure: "read_create ft st h raw = Inl resp \<Longrightarrow> 400 \<le> hr_status resp"
  by (auto simp: read_create_def tenant_or_reject_def draining_def bad_request_def api_error_def context_anchor_of_def
      idempotency_key_of_def split: sum.splits auth_error.splits option.splits if_splits)

lemma open_stream_failure: "open_stream rid c g reads = Inl resp \<Longrightarrow> 400 \<le> hr_status resp"
  using event_log_error_failure
  by (auto simp: open_stream_def open_sse_def response_read_def api_error_def split: sum.splits) (metis fst_conv)+

lemma stream_answer_status: "hr_status (stream_answer rid c w) = 200 \<or> 400 \<le> hr_status (stream_answer rid c w)"
  by (cases "open_stream rid c (w_log w) []") (auto simp: stream_answer_def ok_def refuse_def open_stream_failure)

text \<open>C30: A create that is answered with success has a response behind it: the service accepted a new one or
  found the one its idempotency key already stands for.  202 is only given to a background request, and an answer
  below 400 is never given to a failure.\<close>

theorem create_success_is_real:
  assumes "route_create ft st fresh h raw reads later w = Some (a, w')" "hr_status a < 400"
  shows "\<exists>tenant q spec key r. read_create ft st h raw = Inr (tenant, q, spec, key) \<and>
    (service_create (service_deps ft st) fresh tenant spec key w = Some (Inr (Accepted r), w') \<or>
     service_create (service_deps ft st) fresh tenant spec key w = Some (Inr (Duplicate r), w')) \<and>
    hr_status a \<in> {200, 202} \<and> (hr_status a = 202 \<longrightarrow> crq_background q \<and> \<not> crq_stream q)"
proof -
  have err: "400 \<le> hr_status (refuse (map_service_error f e))" for f e
    by (simp add: refuse_def service_error_failure)
  obtain tenant q spec key where rc: "read_create ft st h raw = Inr (tenant, q, spec, key)"
    using assms read_create_failure by (cases "read_create ft st h raw") (fastforce simp: route_create_def refuse_def)+
  note eq = assms(1)[unfolded route_create_def rc, simplified]
  obtain x w1 where sc: "service_create (service_deps ft st) fresh tenant spec key w = Some (x, w1)"
    using eq by (auto split: option.splits)
  obtain oc where x: "x = Inr oc" using eq sc err assms(2) by (cases x) (auto simp: not_le[symmetric])
  show ?thesis
  proof (cases oc)
    case (Accepted r)
    then have d: "deliver ft st q r reads later w1 = Some a" and w1: "w1 = w'" using eq sc x by auto
    have "hr_status a \<in> {200, 202} \<and> (hr_status a = 202 \<longrightarrow> crq_background q \<and> \<not> crq_stream q)"
      using d assms(2) err stream_answer_status[of "rr_response_id r" None w1]
      by (cases "wait_terminal (service_deps ft st) r reads later")
        (auto simp: deliver_def ok_def not_le[symmetric] split: if_splits sum.splits)
    then show ?thesis using rc sc x Accepted w1 by blast
  next
    case (Duplicate r)
    then show ?thesis using rc sc x eq by (auto simp: ok_def)
  qed (use eq sc x assms(2) in \<open>auto simp: refuse_def api_error_def\<close>)
qed


section \<open>Erasure\<close>

lemma refused_stores:
  "400 \<le> hr_status (refuse (map_conversation_error fmt e))" "400 \<le> hr_status (refuse (map_ledger_error x))"
  using conversation_error_failure[of fmt e] ledger_error_failure[of x]
  by (simp_all add: refuse_def map_conversation_error_def api_error_def case_prod_unfold)

lemma purge_done:
  assumes "route_purge_tenant ft st h raw w = (a, w')" "hr_status a = 200" "TenantId_parse raw = Inr t"
  shows "\<exists>n m s1. on_store (conv_delete_by_tenant t) w = (Inr n, w\<lparr>w_store := s1\<rparr>) \<and> ledger_part s1 = ledger_part (w_store w) \<and>
    ledger_delete_by_tenant t s1 = (Inr m, w_store w') \<and> w_log w' = w_log w"
proof -
  let ?s1 = "snd (conv_delete_by_tenant t (w_store w))"
  have adm: "require_admin st h = Inr ()"
    using assms(1,2) by (cases "require_admin st h")
      (auto simp: route_purge_tenant_def with_admin_def refuse_def require_admin_def api_error_def split: sum.splits)
  obtain n where n: "fst (conv_delete_by_tenant t (w_store w)) = Inr n"
  proof (cases "fst (conv_delete_by_tenant t (w_store w))")
    case (Inl e)
    then have "a = refuse (map_conversation_error (ft_fmt ft) e)"
      using assms(1,3) adm by (simp add: route_purge_tenant_def with_admin_def on_store_eq)
    then show thesis using assms(2) refused_stores(1)[of "ft_fmt ft" e] by simp
  qed
  then have pl: "purge_ledger t n (w\<lparr>w_store := ?s1\<rparr>) = (a, w')"
    using assms(1,3) adm by (simp add: route_purge_tenant_def with_admin_def on_store_eq)
  obtain m where m: "fst (ledger_delete_by_tenant t ?s1) = Inr m"
  proof (cases "fst (ledger_delete_by_tenant t ?s1)")
    case (Inl e)
    then have "a = refuse (map_ledger_error e)" using pl by (simp add: purge_ledger_def on_store_eq)
    then show thesis using assms(2) refused_stores(2)[of e] by simp
  qed
  then have "w' = incr ''tenant_purges'' 1 (w\<lparr>w_store := snd (ledger_delete_by_tenant t ?s1)\<rparr>)"
    using pl by (auto simp: purge_ledger_def on_store_eq)
  then have "ledger_delete_by_tenant t ?s1 = (Inr m, w_store w')" "w_log w' = w_log w"
    using m by (simp_all add: incr_def prod_eq_iff)
  then show ?thesis
    using n by (intro exI[of _ n] exI[of _ m] exI[of _ ?s1]) (simp add: on_store_eq)
qed

text \<open>C31: Purging a tenant removes its rows but not its response streams, and the stream route trusts a missing
  row: before the purge another tenant that asks for a stream is told it does not exist, afterwards it is given
  the stream with everything still buffered in it.\<close>

theorem purge_publishes_streams:
  assumes wf: "world_wf w" and purge: "route_purge_tenant ft st adm raw w = (a, w')" "hr_status a = 200" "TenantId_parse raw = Inr t"
    and row: "map_of (st_records (w_store w)) rid = Some r" "rr_tenant_id r = t" "t' \<noteq> t"
    and log: "map_of (el_logs (w_log w)) rid = Some l" "\<not> rl_swept l" "rl_evicted_before l = 0"
    and hd: "h ''last-event-id'' = None"
  shows "stream_impl rid None h t' w = refuse not_found \<and>
    stream_impl rid None h t' w' = ok (ResponseStream rid None) \<and>
    (\<forall>n. event_read_after rid None n (w_log w') = Inr (take n (rl_ring l)))"
proof -
  obtain m s1 where lp: "ledger_part s1 = ledger_part (w_store w)" and d: "ledger_delete_by_tenant t s1 = (Inr m, w_store w')"
    and lg: "w_log w' = w_log w"
    using purge_done[OF purge] by auto
  have "ledger_wf s1" using world_wfD(1)[OF wf] ledger_part_D(1)[OF lp] by simp
  then have gone: "map_of (st_records (w_store w')) rid = None"
    using delete_by_tenant_rows(1)[OF _ d, of rid] row ledger_part_D(2)[OF lp] by simp
  have c: "resolve_cursor None (last_event_id h) = None" by (simp add: last_event_id_def hd resolve_cursor_def)
  have l: "log_refines (el_capacity_per_response (w_log w)) hist l" if "log_refines_all H (w_log w)" "H rid = Some hist" for H hist
    using log_refines_allD[OF that(1), of rid] that(2) log(1) by simp
  obtain H where H: "log_refines_all H (w_log w)" using world_wfD(3)[OF wf] by (auto simp: event_log_wf_def)
  then obtain hist where h: "H rid = Some hist"
    using log_refines_allD[OF H, of rid] log(1) by (cases "H rid") auto
  have rd: "event_read_after rid None n (w_log w') = Inr (take n (rl_ring l))" for n
    using l[OF H h] log log_read_refines[OF l[OF H h], of None n]
    by (auto simp: lg event_read_after_def read_target_def log_refines_def)
  have "stream_impl rid None h t' w = refuse not_found"
    using row by (simp add: stream_impl_def c ledger_get_def)
  moreover have "stream_impl rid None h t' w' = ok (ResponseStream rid None)"
    using gone rd[of "Suc 0"] by (simp add: stream_impl_def c ledger_get_def stream_answer_def open_stream_def open_sse_def response_read_def)
  ultimately show ?thesis using rd by blast
qed

section \<open>Rendering\<close>

lemma transcript_items: "List.map_filter (\<lambda>e. case e of TranscriptItem i \<Rightarrow> Some i | _ \<Rightarrow> None) (transcript_entries es) = map ce_item es"
  by (induction es) (auto simp: map_filter_simps split: option.split)

text \<open>The transcript keeps the whole history: its items are those of the context in order, and two contexts
  with the same transcript are the same, so no item and no reasoning block is lost or moved.\<close>

theorem transcript_is_faithful:
  "List.map_filter (\<lambda>e. case e of TranscriptItem i \<Rightarrow> Some i | _ \<Rightarrow> None) (to_data (transcript_object_of fmt cid ctx)) = rc_items ctx \<and>
    (to_data (transcript_object_of fmt cid ctx) = to_data (transcript_object_of fmt cid ctx') \<longleftrightarrow> rc_entries ctx = rc_entries ctx')"
proof
  show "List.map_filter (\<lambda>e. case e of TranscriptItem i \<Rightarrow> Some i | _ \<Rightarrow> None) (to_data (transcript_object_of fmt cid ctx)) = rc_items ctx"
    by (simp add: transcript_object_of_def transcript_items rc_items_def)
  have "transcript_entries es = transcript_entries es' \<Longrightarrow> es = es'" for es es'
  proof (induction es arbitrary: es')
    case Nil
    then show ?case by (cases es') (auto split: option.splits)
  next
    case (Cons e es)
    then obtain e' rest where e': "es' = e' # rest" by (cases es') (auto split: option.splits)
    then have "ce_item e = ce_item e' \<and> ce_reasoning e = ce_reasoning e' \<and> transcript_entries es = transcript_entries rest"
      using Cons.prems by (cases "ce_reasoning e"; cases "ce_reasoning e'") auto
    then show ?case using Cons.IH[of rest] e' by simp
  qed
  then show "to_data (transcript_object_of fmt cid ctx) = to_data (transcript_object_of fmt cid ctx') \<longleftrightarrow> rc_entries ctx = rc_entries ctx'"
    by (auto simp: transcript_object_of_def)
qed

text \<open>The drain ends as soon as a poll finds nothing in flight or the budget used up.\<close>

lemma drain_loop_ends:
  "(\<exists>x \<in> set polls. snd x \<or> in_flight_count (fst x) = 0) \<longleftrightarrow> drain_loop polls \<noteq> None"
  by (induction polls rule: drain_loop.induct) (auto simp: Let_def ledger_in_flight_def)


section \<open>A small deployment\<close>

definition demo_keys :: key_table where
  "demo_keys = \<lparr>kt_keys = [(''key-aaaaaaa'', demo_tenant), (''key-bbbbbbb'', TenantId ''t2'')], kt_admin_key = Some ''adminadmin''\<rparr>"

definition demo_app :: app_state where
  "demo_app = \<lparr>as_cfg = \<lparr>gc_listen = ''127.0.0.1:1'', gc_mem_server_url_env = default_mem_server_url_env,
      gc_api_keys_env = default_api_keys_env, gc_pending_limit = default_pending_limit,
      gc_conversation_events_page = default_conversation_events_page, gc_drain_timeout_ms = default_drain_timeout_ms,
      gc_responses = Config_for_node (NodeTag ''n1'')\<rparr>,
    as_keys = demo_keys, as_accepting = True\<rparr>"

definition bearer_header :: "string \<Rightarrow> headers" where
  "bearer_header key n = (if n = ''authorization'' then Some (Some (''Bearer '' @ key)) else None)"

definition demo_background :: create_response_request where
  "demo_background = demo_request\<lparr>crq_background := True\<rparr>"

definition demo_formats :: formats where
  "demo_formats = \<lparr>ft_codec = demo_codec, ft_integrity = None,
    ft_uuid_parse = (\<lambda>s. if s = ''1'' then Some 1 else if s = ''5'' then Some 5 else None), ft_url_parse = (\<lambda>_. None),
    ft_decode_create = (\<lambda>_. Inr demo_background), ft_decode_metadata = (\<lambda>_. Inr (MetadataRequest None)),
    ft_decode_event = (\<lambda>_. Inl ''no'')\<rparr>"

lemma demo_auth:
  "tenant_or_reject (as_keys demo_app) (bearer_header ''key-aaaaaaa'') = Inr demo_tenant"
  "tenant_or_reject (as_keys demo_app) (bearer_header ''key-bbbbbbb'') = Inr (TenantId ''t2'')"
  "require_admin demo_app (bearer_header ''adminadmin'') = Inr ()"
proof -
  have k: "as_keys demo_app = demo_keys" by (simp add: demo_app_def)
  show "tenant_or_reject (as_keys demo_app) (bearer_header ''key-aaaaaaa'') = Inr demo_tenant"
    "tenant_or_reject (as_keys demo_app) (bearer_header ''key-bbbbbbb'') = Inr (TenantId ''t2'')"
    unfolding k by code_simp+
  have "authorize_admin demo_keys (bearer_header ''adminadmin'') = Inr ()" by code_simp
  then show "require_admin demo_app (bearer_header ''adminadmin'') = Inr ()" by (simp add: require_admin_def k)
qed

lemma demo_ids_parse:
  "parse_response_id demo_formats ''resp_n1_1'' = Inr demo_rid" "parse_conversation_id demo_formats ''conv_5'' = Inr demo_cid"
  "parse_response_id demo_formats ''x'' = Inl not_found"
  "parse_conversation_id demo_formats ''x'' = Inl (not_found_kind ''conversation'')"
  by code_simp+

theorem rejected_requests_change_nothing_witness:
  "\<exists>resp. tenant_or_reject (as_keys demo_app) (\<lambda>_. None) = Inl resp \<and>
    route_delete demo_formats demo_app (\<lambda>_. None) ''resp_n1_1'' (world_at demo_running demo_log) = (refuse resp, world_at demo_running demo_log)"
proof -
  obtain resp where "tenant_or_reject (as_keys demo_app) (\<lambda>_. None) = Inl resp"
    by (simp add: tenant_or_reject_def keys_resolve_def demo_app_def demo_keys_def keys_is_empty_def bearer_def)
  then show ?thesis
    using rejected_requests_change_nothing[of demo_app "\<lambda>_. None" resp demo_formats 1 JNull "[]" "world_at demo_running demo_log"
        "world_at demo_running demo_log" "''resp_n1_1''"] by blast
qed

theorem draining_refuses_new_work_witness:
  "route_create demo_formats (stop_accepting demo_app) 1 (bearer_header ''key-aaaaaaa'') JNull [] (world_at demo_idle demo_log)
      (world_at demo_idle demo_log) = Some (refuse draining, world_at demo_idle demo_log)"
  using draining_refuses_new_work[OF demo_auth(1) refl] by simp


lemma demo_read_create:
  "read_create demo_formats demo_app (bearer_header ''key-aaaaaaa'') JNull =
    Inr (demo_tenant, demo_background, turn_spec_of demo_background [user_text ''hi''] Root, None)"
  by (simp add: read_create_def demo_auth is_accepting_def responses_cfg_def demo_app_def[THEN arg_cong[of _ _ as_accepting]]
      demo_app_def[THEN arg_cong[of _ _ as_cfg]] preflight_unsupported_def demo_formats_def request_validate_def demo_background_def demo_request_def
      scalar_violation_def trim_is_empty.simps[of "''m''"] ws_len_def ProtocolLimits_default_def user_text_def Config_for_node_def
      validate_metadata_def validate_items_def sat_add_def u64_max_def context_anchor_of_def idempotency_key_of_def bearer_header_def demo_codec_def)

theorem create_success_is_real_witness:
  "\<exists>a w'. route_create demo_formats demo_app 1 (bearer_header ''key-aaaaaaa'') JNull [] (world_at MemStore_new demo_log)
      (world_at MemStore_new demo_log) = Some (a, w') \<and> hr_status a = 202"
proof -
  let ?w = "world_at MemStore_new demo_log"
  have "\<exists>r w'. service_create (service_deps demo_formats demo_app) 1 demo_tenant
      (turn_spec_of demo_background [user_text ''hi''] Root) None ?w = Some (Inr (Accepted r), w')"
    by (simp add: service_create_def clock_now_def resolve_context_def within_limits_def ResolvedContext_default_def ResolvedContext_new_def turn_spec_of_def
        rc_item_count_def rc_bytes_def service_deps_def demo_app_def responses_cfg_def Config_for_node_def ChainLimits_default_def
        admit_turn_def Let_def admit_def on_store_def ledger_create_def sign_def in_flight_count_def MemStore_new_def
        log_append_def on_log_def event_append_def append_fence_def lifecycle_def insert_record_def append_write_def
        demo_log_def EventLog_with_capacity_def ResponseLog_new_def is_accepted_def demo_formats_def split: option.split)
  then obtain r w' where sc: "service_create (service_deps demo_formats demo_app) 1 demo_tenant
      (turn_spec_of demo_background [user_text ''hi''] Root) None ?w = Some (Inr (Accepted r), w')" by blast
  have b: "crq_background demo_background" "\<not> crq_stream demo_background"
    by (simp_all add: demo_background_def demo_request_def)
  obtain a where a: "route_create demo_formats demo_app 1 (bearer_header ''key-aaaaaaa'') JNull [] ?w ?w = Some (a, w')" "hr_status a = 202"
    using sc b by (simp add: route_create_def demo_read_create deliver_def)
  then show ?thesis using create_success_is_real[OF a(1)] by auto
qed

theorem purge_publishes_streams_witness:
  "\<exists>w'. snd (route_purge_tenant demo_formats demo_app (bearer_header ''adminadmin'') ''t1'' (world_at demo_running demo_log1)) = w' \<and>
    stream_impl demo_rid None (\<lambda>_. None) (TenantId ''t2'') w' = ok (ResponseStream demo_rid None)"
proof -
  let ?w = "world_at demo_running demo_log1"
  obtain a w' where p: "route_purge_tenant demo_formats demo_app (bearer_header ''adminadmin'') ''t1'' ?w = (a, w')"
    by fastforce
  have t: "TenantId_parse ''t1'' = Inr demo_tenant" unfolding demo_tenant_def by code_simp
  have u: "\<not> st_unavailable demo_running" by (simp add: demo_running_eq demo_queued_eq insert_record_def MemStore_new_def)
  have g: "conv_guard_writable demo_running = Inr ()" using demo_running_fields(2) u by (simp add: conv_writable_iff)
  let ?s = "snd (conv_delete_by_tenant demo_tenant demo_running)"
  have "\<not> st_read_only ?s" using demo_running_fields(2) ledger_part_D(6)[of ?s demo_running] by simp
  then have "hr_status a = 200"
    using p t g by (auto simp: route_purge_tenant_def with_admin_def demo_auth on_store_eq conv_delete_by_tenant_def purge_ledger_def
        ledger_delete_by_tenant_def guard_writable_def ok_def case_prod_unfold)
  then show ?thesis
    using purge_publishes_streams[OF demo_running_world(2) p _ t, of demo_rid demo_claimed_record "TenantId ''t2''"] p
    by (simp add: demo_running_fields demo_log1_entry demo_claimed_record_def push_event_def evict_eq ResponseLog_new_def demo_tenant_def)
qed

end
