(* ===== verification/Sink.thy ===== *)
theory Sink
  imports Replay
begin

text \<open>
  The execution seam (\<open>agent-runtime/src/runner.rs\<close>) and the event sink
  (\<open>agent-runtime/src/sink.rs\<close>) through which a runner streams its output into the event log.

  The sink keeps its own account of what it streamed; the archival path of a cancelled or reaped
  turn rebuilds the same from the log.  The central theorem is that the two agree, whatever the
  order of calls and whatever else happens to the system in between.
\<close>

section \<open>The seam\<close>

record agent_task =
  tk_params :: model_params
  tk_items :: "response_item list"
  tk_provenance :: request_provenance
  tk_max_tool_rounds :: nat

record agent_outcome =
  oc_items :: "response_item list"
  oc_usage :: usage
  oc_status :: response_status

datatype agent_error = Superseded | AgentFailed string usage

datatype sink_verdict = Continue | Stop

fun should_stop :: "sink_verdict \<Rightarrow> bool" where
  "should_stop Continue = False"
| "should_stop Stop = True"

datatype sink_error = Transport string | SinkOther string

section \<open>The sink\<close>

fun event_log_error_to_string :: "event_log_error \<Rightarrow> string" where
  "event_log_error_to_string EUnknown = ''unknown response''"
| "event_log_error_to_string EExpired = ''cursor expired''"
| "event_log_error_to_string EStaleAttempt = ''stale attempt''"
| "event_log_error_to_string ECapacityExceeded = ''capacity exceeded''"
| "event_log_error_to_string (EStore e) = store_error_to_string e"

record event_sink =
  es_response_id :: response_id
  es_attempt :: attempt
  es_stopped :: bool
  es_output_index :: nat
  es_current_item_id :: "string option"
  es_current_content_index :: "nat option"
  es_reasoning :: string
  es_completed :: "response_item list"
  es_open_item :: "response_item option"
  es_open_text :: string

definition EventSink_new :: "response_id \<Rightarrow> attempt \<Rightarrow> event_sink" where
  "EventSink_new rid att = \<lparr>es_response_id = rid, es_attempt = att, es_stopped = False,
    es_output_index = 0, es_current_item_id = None, es_current_content_index = None,
    es_reasoning = [], es_completed = [], es_open_item = None, es_open_text = []\<rparr>"

definition partial_item :: "event_sink \<Rightarrow> response_item option" where
  "partial_item sk =
    (case es_open_item sk of
       Some (Message role _ iid _) \<Rightarrow>
         if es_open_text sk = [] then None
         else Some (Message role [OutputText (es_open_text sk)] iid (Some ItemIncomplete))
     | _ \<Rightarrow> None)"

definition current_output_index :: "event_sink \<Rightarrow> nat" where
  "current_output_index sk = es_output_index sk - 1"

definition current_item :: "event_sink \<Rightarrow> string" where
  "current_item sk = (case es_current_item_id sk of Some i \<Rightarrow> i | None \<Rightarrow> [])"

definition current_content_index :: "event_sink \<Rightarrow> nat" where
  "current_content_index sk = (case es_current_content_index sk of Some i \<Rightarrow> i | None \<Rightarrow> 0)"

type_synonym sink_result = "(sink_error + sink_verdict) \<times> event_sink \<times> world"

definition sink_push :: "append_event \<Rightarrow> event_sink \<Rightarrow> world \<Rightarrow> sink_result" where
  "sink_push e sk w =
    (if es_stopped sk then (Inr Stop, sk, w)
     else case log_append e w of
       (Inr _, w') \<Rightarrow> (Inr Continue, sk, w')
     | (Inl err, w') \<Rightarrow>
         if err = EStaleAttempt then (Inr Stop, sk\<lparr>es_stopped := True\<rparr>, w')
         else (Inl (Transport (event_log_error_to_string err)), sk, w'))"

definition sink_text_delta :: "string \<Rightarrow> event_sink \<Rightarrow> world \<Rightarrow> sink_result" where
  "sink_text_delta t sk w =
    (let sk' = sk\<lparr>es_open_text := es_open_text sk @ t\<rparr> in
     sink_push (text_delta (es_response_id sk') (es_attempt sk') (current_item sk')
       (current_output_index sk') (current_content_index sk') t) sk' w)"

definition sink_reasoning_text_delta :: "string \<Rightarrow> event_sink \<Rightarrow> world \<Rightarrow> sink_result" where
  "sink_reasoning_text_delta t sk w =
    (let sk' = sk\<lparr>es_reasoning := es_reasoning sk @ t\<rparr> in
     sink_push (reasoning_text_delta (es_response_id sk') (es_attempt sk') t) sk' w)"

text \<open>\<open>output_index += 1\<close> on a u32.\<close>

definition sink_output_item_added :: "response_item \<Rightarrow> event_sink \<Rightarrow> world \<Rightarrow> sink_result" where
  "sink_output_item_added item sk w =
    (let index = es_output_index sk;
         sk' = sk\<lparr>es_output_index := (index + 1) mod 2 ^ 32,
                  es_current_item_id := Some (stream_item_id item),
                  es_open_item := Some item, es_open_text := []\<rparr> in
     sink_push (item_event (es_response_id sk') (es_attempt sk') False index item) sk' w)"

definition sink_output_item_done :: "response_item \<Rightarrow> event_sink \<Rightarrow> world \<Rightarrow> sink_result" where
  "sink_output_item_done item sk w =
    (let sk' = sk\<lparr>es_completed := es_completed sk @ [item], es_open_item := None, es_open_text := []\<rparr> in
     sink_push (item_event (es_response_id sk') (es_attempt sk') True (current_output_index sk') item) sk' w)"

definition sink_function_call_arguments_delta :: "string \<Rightarrow> string \<Rightarrow> event_sink \<Rightarrow> world \<Rightarrow> sink_result" where
  "sink_function_call_arguments_delta iid delta sk w =
    sink_push (arguments_delta (es_response_id sk) (es_attempt sk) iid (current_output_index sk) delta) sk w"

definition sink_function_call_arguments_done :: "string \<Rightarrow> string \<Rightarrow> event_sink \<Rightarrow> world \<Rightarrow> sink_result" where
  "sink_function_call_arguments_done iid arguments sk w =
    sink_push (arguments_event (es_response_id sk) (es_attempt sk) (current_output_index sk) iid arguments) sk w"

definition sink_content_part_added :: "string \<Rightarrow> nat \<Rightarrow> event_sink \<Rightarrow> world \<Rightarrow> sink_result" where
  "sink_content_part_added iid content_index sk w =
    (let sk' = sk\<lparr>es_current_content_index := Some content_index\<rparr> in
     sink_push (content_part_event (es_response_id sk') (es_attempt sk') False iid
       (current_output_index sk') content_index (OutputText [])) sk' w)"

definition sink_output_text_done :: "string \<Rightarrow> event_sink \<Rightarrow> world \<Rightarrow> sink_result" where
  "sink_output_text_done t sk w =
    sink_push (output_text_done (es_response_id sk) (es_attempt sk) (current_item sk)
      (current_output_index sk) (current_content_index sk) t) sk w"

definition sink_content_part_done :: "string \<Rightarrow> nat \<Rightarrow> string \<Rightarrow> event_sink \<Rightarrow> world \<Rightarrow> sink_result" where
  "sink_content_part_done iid content_index t sk w =
    sink_push (content_part_event (es_response_id sk) (es_attempt sk) True iid
      (current_output_index sk) content_index (OutputText t)) sk w"

definition sink_tool_call :: "string \<Rightarrow> string \<Rightarrow> string \<Rightarrow> event_sink \<Rightarrow> world \<Rightarrow> sink_result" where
  "sink_tool_call call_id name arguments sk w =
    (let item = FunctionCall call_id name arguments None None in
     case sink_output_item_added item sk w of
       (Inl e, sk1, w1) \<Rightarrow> (Inl e, sk1, w1)
     | (Inr v, sk1, w1) \<Rightarrow> if should_stop v then (Inr Stop, sk1, w1) else sink_output_item_done item sk1 w1)"

text \<open>A call, as a value.\<close>

datatype sink_call =
    CallTextDelta string
  | CallReasoningTextDelta string
  | CallItemAdded response_item
  | CallItemDone response_item
  | CallArgumentsDelta string string
  | CallArgumentsDone string string
  | CallPartAdded string nat
  | CallTextDone string
  | CallPartDone string nat string

fun sink_step :: "sink_call \<Rightarrow> event_sink \<Rightarrow> world \<Rightarrow> sink_result" where
  "sink_step (CallTextDelta t) = sink_text_delta t"
| "sink_step (CallReasoningTextDelta t) = sink_reasoning_text_delta t"
| "sink_step (CallItemAdded i) = sink_output_item_added i"
| "sink_step (CallItemDone i) = sink_output_item_done i"
| "sink_step (CallArgumentsDelta i d) = sink_function_call_arguments_delta i d"
| "sink_step (CallArgumentsDone i a) = sink_function_call_arguments_done i a"
| "sink_step (CallPartAdded i n) = sink_content_part_added i n"
| "sink_step (CallTextDone t) = sink_output_text_done t"
| "sink_step (CallPartDone i n t) = sink_content_part_done i n t"

lemmas sink_defs = sink_text_delta_def sink_reasoning_text_delta_def sink_output_item_added_def
  sink_output_item_done_def sink_function_call_arguments_delta_def sink_function_call_arguments_done_def
  sink_content_part_added_def sink_output_text_done_def sink_content_part_done_def

section \<open>Every call is one push\<close>

text \<open>The account the sink keeps and the event it sends, for each call.\<close>

fun call_account :: "sink_call \<Rightarrow> event_sink \<Rightarrow> event_sink" where
  "call_account (CallTextDelta t) sk = sk\<lparr>es_open_text := es_open_text sk @ t\<rparr>"
| "call_account (CallReasoningTextDelta t) sk = sk\<lparr>es_reasoning := es_reasoning sk @ t\<rparr>"
| "call_account (CallItemAdded i) sk = sk\<lparr>es_output_index := (es_output_index sk + 1) mod 2 ^ 32,
    es_current_item_id := Some (stream_item_id i), es_open_item := Some i, es_open_text := []\<rparr>"
| "call_account (CallItemDone i) sk = sk\<lparr>es_completed := es_completed sk @ [i], es_open_item := None,
    es_open_text := []\<rparr>"
| "call_account (CallPartAdded i n) sk = sk\<lparr>es_current_content_index := Some n\<rparr>"
| "call_account _ sk = sk"

fun call_event :: "sink_call \<Rightarrow> event_sink \<Rightarrow> append_event" where
  "call_event (CallTextDelta t) sk = text_delta (es_response_id sk) (es_attempt sk) (current_item sk)
    (current_output_index sk) (current_content_index sk) t"
| "call_event (CallReasoningTextDelta t) sk = reasoning_text_delta (es_response_id sk) (es_attempt sk) t"
| "call_event (CallItemAdded i) sk = item_event (es_response_id sk) (es_attempt sk) False (es_output_index sk) i"
| "call_event (CallItemDone i) sk = item_event (es_response_id sk) (es_attempt sk) True (current_output_index sk) i"
| "call_event (CallArgumentsDelta i d) sk =
    arguments_delta (es_response_id sk) (es_attempt sk) i (current_output_index sk) d"
| "call_event (CallArgumentsDone i a) sk =
    arguments_event (es_response_id sk) (es_attempt sk) (current_output_index sk) i a"
| "call_event (CallPartAdded i n) sk =
    content_part_event (es_response_id sk) (es_attempt sk) False i (current_output_index sk) n (OutputText [])"
| "call_event (CallTextDone t) sk = output_text_done (es_response_id sk) (es_attempt sk) (current_item sk)
    (current_output_index sk) (current_content_index sk) t"
| "call_event (CallPartDone i n t) sk =
    content_part_event (es_response_id sk) (es_attempt sk) True i (current_output_index sk) n (OutputText t)"

lemma sink_step_push: "sink_step c sk w = sink_push (call_event c sk) (call_account c sk) w"
  by (cases c) (simp_all add: sink_defs Let_def current_item_def current_output_index_def current_content_index_def)

lemma call_account_fields [simp]:
  "es_response_id (call_account c sk) = es_response_id sk" "es_attempt (call_account c sk) = es_attempt sk"
  "es_stopped (call_account c sk) = es_stopped sk"
  by (cases c; simp)+

lemma call_event_fields [simp]:
  "ae_response_id (call_event c sk) = es_response_id sk \<and> ae_attempt (call_event c sk) = Some (es_attempt sk)"
  by (cases c) (simp_all add: event_constructors)

lemma call_event_ok [simp]: "event_ok (call_event c sk)"
  by (cases c) simp_all

lemma sink_push_continue:
  "sink_push e sk w = (Inr Continue, sk', w') \<Longrightarrow> sk' = sk \<and> \<not> es_stopped sk \<and> (\<exists>n. log_append e w = (Inr n, w'))"
  by (auto simp: sink_push_def split: if_splits prod.splits sum.splits)

text \<open>Once an append of the sink was refused as stale the sink is stopped for good: whatever is
  called afterwards, the answer is to stop and nothing reaches the log.\<close>

theorem sink_stop_is_final:
  assumes "sink_step c sk w = (Inr Stop, sk1, w1)"
  shows "w_log w1 = w_log w \<and> (\<forall>c2 w2. \<exists>sk3. sink_step c2 sk1 w2 = (Inr Stop, sk3, w2) \<and> es_stopped sk3)"
proof
  have st: "es_stopped sk1"
    using assms by (auto simp: sink_step_push sink_push_def split: if_splits prod.splits sum.splits)
  have same: "log_append e w = (Inl err, w1) \<Longrightarrow> w_log w1 = w_log w" for e err
    by (auto simp: log_append_def on_log_def event_append_def append_write_def Let_def
        split: sum.splits if_splits)
  show "w_log w1 = w_log w"
    using assms same by (auto simp: sink_step_push sink_push_def split: if_splits prod.splits sum.splits)
  show "\<forall>c2 w2. \<exists>sk3. sink_step c2 sk1 w2 = (Inr Stop, sk3, w2) \<and> es_stopped sk3"
    using st by (simp add: sink_step_push sink_push_def)
qed

section \<open>The log tells what the sink tells\<close>

text \<open>How many items were announced in a stream.\<close>

definition added_count :: "response_event list \<Rightarrow> nat" where
  "added_count es = length (filter (\<lambda>e. re_kind e = EvOutputItemAdded) es)"

text \<open>
  The account of the sink and the state of a replay of the same events: the same completed items,
  already in index order, the same open item and, while one is open, the same text.
\<close>

definition sink_matches :: "event_sink \<Rightarrow> response_event list \<Rightarrow> bool" where
  "sink_matches sk es \<longleftrightarrow>
    (let p = fold replay_event es replay_start in
     map snd (rp_items p) = es_completed sk \<and> sorted (map fst (rp_items p)) \<and>
     (\<forall>x \<in> set (rp_items p). fst x \<le> es_output_index sk - 1) \<and>
     es_output_index sk = added_count es \<and>
     (case es_open_item sk of
        None \<Rightarrow> rp_open p = None
      | Some item \<Rightarrow> rp_open p = Some (es_output_index sk - 1, item) \<and> rp_open_text p = es_open_text sk \<and>
          0 < es_output_index sk))"

lemmas matches_simps = sink_matches_def Let_def replay_event_def with_seq_def re_kind_def re_body_def
  event_constructors added_count_def current_output_index_def open_at_def sorted_append

lemma sink_matches_other:
  assumes m: "sink_matches sk es" and c: "\<forall>i. c \<noteq> CallItemAdded i"
  shows "sink_matches (call_account c sk) (es @ [with_seq (call_event c sk) k])"
  using m c by (cases c) (auto simp: matches_simps split: option.splits)

lemma sink_matches_event:
  assumes m: "sink_matches sk es" and n: "Suc (added_count es) < 2 ^ 32"
  shows "sink_matches (call_account c sk) (es @ [with_seq (call_event c sk) k])"
proof (cases "\<exists>i. c = CallItemAdded i")
  case True
  then show ?thesis using m n by (fastforce simp: matches_simps)
qed (use sink_matches_other[OF m] in blast)

lemma sink_matches_finish:
  assumes "sink_matches sk es"
  shows "replay_finish (fold replay_event es replay_start) =
    es_completed sk @ (case partial_item sk of Some i \<Rightarrow> [i] | None \<Rightarrow> [])"
proof -
  let ?p = "fold replay_event es replay_start"
  have s: "sorted (map fst (rp_items ?p))" "map snd (rp_items ?p) = es_completed sk"
    and le: "\<forall>x \<in> set (rp_items ?p). fst x \<le> es_output_index sk - 1"
    using assms by (auto simp: sink_matches_def Let_def)
  have id1: "sort_key fst (rp_items ?p) = rp_items ?p" using s(1) by (rule sort_key_sorted_id)
  have "sorted (map fst (rp_items ?p @ [(es_output_index sk - 1, i)]))" for i :: response_item
    using s(1) le by (auto simp: sorted_append)
  then have id2: "sort_key fst (rp_items ?p @ [(es_output_index sk - 1, i)])
      = rp_items ?p @ [(es_output_index sk - 1, i)]" for i :: response_item
    by (rule sort_key_sorted_id)
  show ?thesis
    using assms s id1 id2
    by (auto simp: sink_matches_def Let_def replay_finish_def partial_item_def split: option.splits response_item.splits)
qed

text \<open>What an accepted append does to the entry of its response, as long as nothing is evicted.\<close>

definition entry_of :: "response_id \<Rightarrow> event_log \<Rightarrow> response_log" where
  "entry_of rid g = (case map_of (el_logs g) rid of Some l \<Rightarrow> l | None \<Rightarrow> ResponseLog_new)"

lemma append_write_entry:
  assumes "append_write e g = (Inr n, g')"
  shows "map_of (el_logs g') (ae_response_id e) = Some (push_event (el_capacity_per_response g) e (entry_of (ae_response_id e) g))"
    and "k \<noteq> ae_response_id e \<Longrightarrow> map_of (el_logs g') k = map_of (el_logs g) k"
  using assms by (auto simp: append_write_def entry_of_def Let_def split: if_splits)

lemma push_event_ring:
  assumes "rl_evicted_before (push_event capacity e l) = 0"
  shows "rl_evicted_before l = 0 \<and> rl_ring (push_event capacity e l) = rl_ring l @ [with_seq e (rl_next_seq l)]"
  using assms by (simp add: push_event_def evict_eq)

text \<open>
  A session of a sink: calls that were answered with \<open>Continue\<close>, and in between anything else that
  happens to the system, as long as it leaves the stream of this response alone or adds a
  lifecycle event to it.
\<close>

definition lifecycle_event :: "append_event \<Rightarrow> bool" where
  "lifecycle_event e \<longleftrightarrow> event_ok e \<and> (\<exists>obj. ae_body e = BodyResponse obj)"

inductive sink_session :: "event_sink \<Rightarrow> world \<Rightarrow> event_sink \<Rightarrow> world \<Rightarrow> bool" for sk0 w0 where
  session_start: "sink_session sk0 w0 sk0 w0"
| session_call: "sink_session sk0 w0 sk w \<Longrightarrow> sink_step c sk w = (Inr Continue, sk', w') \<Longrightarrow>
    sink_session sk0 w0 sk' w'"
| session_lifecycle: "sink_session sk0 w0 sk w \<Longrightarrow> lifecycle_event e \<Longrightarrow>
    append_write e (w_log w) = (Inr n, w_log w') \<Longrightarrow> sink_session sk0 w0 sk w'"
| session_other: "sink_session sk0 w0 sk w \<Longrightarrow>
    map_of (el_logs (w_log w')) (es_response_id sk) = map_of (el_logs (w_log w)) (es_response_id sk) \<Longrightarrow>
    sink_session sk0 w0 sk w'"

definition session_ok :: "event_sink \<Rightarrow> response_log \<Rightarrow> bool" where
  "session_ok sk l \<longleftrightarrow>
    (rl_evicted_before l = 0 \<longrightarrow> added_count (rl_ring l) < 2 ^ 32 \<longrightarrow> sink_matches sk (rl_ring l))"

lemma added_count_snoc: "added_count es \<le> added_count (es @ [e])"
  by (simp add: added_count_def)

lemma session_ok_call:
  assumes ok: "session_ok sk l"
  shows "session_ok (call_account c sk) (push_event capacity (call_event c sk) l)"
  unfolding session_ok_def
proof (intro impI)
  let ?l = "push_event capacity (call_event c sk) l"
  assume e: "rl_evicted_before ?l = 0" and n: "added_count (rl_ring ?l) < 2 ^ 32"
  have r: "rl_evicted_before l = 0" "rl_ring ?l = rl_ring l @ [with_seq (call_event c sk) (rl_next_seq l)]"
    using push_event_ring[OF e] by auto
  have n0: "added_count (rl_ring l) < 2 ^ 32"
    using n r(2) added_count_snoc order_le_less_trans by metis
  then have m: "sink_matches sk (rl_ring l)" using ok r(1) by (simp add: session_ok_def)
  show "sink_matches (call_account c sk) (rl_ring ?l)"
  proof (cases "Suc (added_count (rl_ring l)) < 2 ^ 32")
    case True
    then show ?thesis unfolding r(2) by (rule sink_matches_event[OF m])
  next
    case False
    then have full: "added_count (rl_ring l) = 2 ^ 32 - 1" using n0 by simp
    then have "\<forall>i. c \<noteq> CallItemAdded i"
      using n r(2) by (auto simp: added_count_def with_seq_def re_kind_def event_constructors)
    then show ?thesis unfolding r(2) by (intro sink_matches_other[OF m])
  qed
qed

lemma session_ok_lifecycle:
  assumes ok: "session_ok sk l" and e: "lifecycle_event e"
  shows "session_ok sk (push_event capacity e l)"
proof -
  have k: "ae_kind e \<notin> {EvOutputItemAdded, EvOutputItemDone, EvOutputTextDelta}"
    using e by (auto simp: lifecycle_event_def event_ok_def)
  then have "replay_event (with_seq e n) p = p" "added_count (es @ [with_seq e n]) = added_count es" for n p es
    by (auto simp: replay_event_def with_seq_def re_kind_def added_count_def split: response_event_kind.split)
  then show ?thesis
    using ok push_event_ring[of capacity e l] by (auto simp: session_ok_def sink_matches_def Let_def)
qed

lemma sink_session_ok:
  assumes "sink_session sk0 w0 sk w" "session_ok sk0 (entry_of (es_response_id sk0) (w_log w0))"
  shows "session_ok sk (entry_of (es_response_id sk0) (w_log w)) \<and> es_response_id sk = es_response_id sk0"
  using assms
proof induction
  case (session_call sk w c sk' w')
  have push: "sink_push (call_event c sk) (call_account c sk) w = (Inr Continue, sk', w')"
    using session_call.hyps by (simp add: sink_step_push)
  obtain n where sk': "sk' = call_account c sk" and a: "append_write (call_event c sk) (w_log w) = (Inr n, w_log w')"
    using sink_push_continue[OF push]
    by (auto simp: log_append_def on_log_def event_append_def split: sum.splits prod.splits)
  from session_call.IH[OF session_call.prems] have rid: "es_response_id sk = es_response_id sk0" by simp
  then have "entry_of (es_response_id sk0) (w_log w') =
      push_event (el_capacity_per_response (w_log w)) (call_event c sk) (entry_of (es_response_id sk0) (w_log w))"
    using append_write_entry(1)[OF a] by (simp add: entry_of_def)
  then show ?case using session_call.IH[OF session_call.prems] sk' rid by (simp add: session_ok_call)
next
  case (session_lifecycle sk w e n w')
  show ?case
  proof (cases "ae_response_id e = es_response_id sk0")
    case True
    then have "entry_of (es_response_id sk0) (w_log w') =
        push_event (el_capacity_per_response (w_log w)) e (entry_of (es_response_id sk0) (w_log w))"
      using append_write_entry(1)[OF session_lifecycle.hyps(3)] by (simp add: entry_of_def)
    then show ?thesis
      using session_lifecycle.IH[OF session_lifecycle.prems] session_lifecycle.hyps(2) by (simp add: session_ok_lifecycle)
  next
    case False
    then have "entry_of (es_response_id sk0) (w_log w') = entry_of (es_response_id sk0) (w_log w)"
      using append_write_entry(2)[OF session_lifecycle.hyps(3), of "es_response_id sk0"] by (simp add: entry_of_def)
    then show ?thesis using session_lifecycle.IH[OF session_lifecycle.prems] by simp
  qed
next
  case (session_other sk w w')
  then show ?case by (simp add: entry_of_def)
qed simp

lemma sink_matches_new:
  assumes "list_all (\<lambda>e. lifecycle_event (re_event e)) es"
  shows "sink_matches (EventSink_new rid att) es"
proof -
  have k: "re_kind e \<notin> {EvOutputItemAdded, EvOutputItemDone, EvOutputTextDelta}" if "e \<in> set es" for e
    using assms that by (auto simp: list_all_iff lifecycle_event_def event_ok_def re_kind_def)
  then have "fold replay_event es replay_start = replay_start" "added_count es = 0"
    by (induction es) (auto simp: replay_event_def added_count_def split: response_event_kind.split)
  then show ?thesis by (simp add: sink_matches_def EventSink_new_def replay_start_def)
qed


section \<open>Examples\<close>

definition demo_world :: world where
  "demo_world = \<lparr>w_store = demo_running, w_log = EventLog_with_capacity 10 10, w_clock = (\<lambda>n. 5000 + n),
    w_readings = 0, w_metrics = []\<rparr>"

definition demo_message :: response_item where
  "demo_message = Message Assistant [] (Some ''m'') (Some ItemInProgress)"

theorem sink_stop_is_final_witness:
  "\<exists>sk1. sink_step (CallTextDelta ''a'') (EventSink_new demo_rid (Attempt 7)) demo_world = (Inr Stop, sk1, demo_world) \<and>
    (\<exists>sk3. sink_step (CallTextDelta ''b'') sk1 demo_world = (Inr Stop, sk3, demo_world) \<and> es_stopped sk3)"
proof -
  have "\<exists>sk1. sink_step (CallTextDelta ''a'') (EventSink_new demo_rid (Attempt 7)) demo_world = (Inr Stop, sk1, demo_world)"
    by (simp add: sink_step_push sink_push_def log_append_def on_log_def event_append_def append_fence_def
        check_attempt_def demo_world_def demo_running_fields demo_claimed_record_def EventSink_new_def text_delta_def
        del: sink_step.simps)
  then show ?thesis using sink_stop_is_final by blast
qed

definition demo_sink2 :: event_sink where
  "demo_sink2 = call_account (CallTextDelta ''hi'')
    (call_account (CallItemAdded demo_message) (EventSink_new demo_rid (Attempt 1)))"

definition demo_stream :: "response_event list" where
  "demo_stream =
    [with_seq (item_event demo_rid (Attempt 1) False 0 demo_message) 0,
     with_seq (text_delta demo_rid (Attempt 1) ''m'' 0 0 ''hi'') 1]"

definition demo_world2 :: world where
  "demo_world2 = demo_world\<lparr>w_log := (w_log demo_world)\<lparr>el_logs := [(demo_rid,
    ResponseLog_new\<lparr>rl_next_seq := 2, rl_ring := demo_stream\<rparr>)]\<rparr>\<rparr>"

lemma demo_session: "sink_session (EventSink_new demo_rid (Attempt 1)) demo_world demo_sink2 demo_world2"
proof -
  let ?s0 = "EventSink_new demo_rid (Attempt 1)" let ?s1 = "call_account (CallItemAdded demo_message) ?s0"
  let ?w1 = "demo_world\<lparr>w_log := (w_log demo_world)\<lparr>el_logs := [(demo_rid,
    ResponseLog_new\<lparr>rl_next_seq := 1, rl_ring := take 1 demo_stream\<rparr>)]\<rparr>\<rparr>"
  have "sink_step (CallItemAdded demo_message) ?s0 demo_world = (Inr Continue, ?s1, ?w1)"
    by (simp add: sink_step_push sink_push_def log_append_def on_log_def event_append_def append_fence_def
        check_attempt_def demo_world_def demo_running_fields demo_claimed_record_def EventSink_new_def item_event_def
        append_write_def EventLog_with_capacity_def ResponseLog_new_def push_event_def evict_eq demo_stream_def Let_def
        del: sink_step.simps)
  then have 1: "sink_session ?s0 demo_world ?s1 ?w1" by (rule session_call[OF session_start])
  have "sink_step (CallTextDelta ''hi'') ?s1 ?w1 = (Inr Continue, demo_sink2, demo_world2)"
    by (simp add: sink_step_push sink_push_def log_append_def on_log_def event_append_def append_fence_def
        check_attempt_def demo_world_def demo_running_fields demo_claimed_record_def EventSink_new_def item_event_def
        text_delta_def append_write_def EventLog_with_capacity_def ResponseLog_new_def push_event_def evict_eq
        demo_stream_def Let_def demo_sink2_def demo_world2_def current_item_def current_output_index_def
        current_content_index_def demo_message_def del: sink_step.simps)
  then show ?thesis by (rule session_call[OF 1])
qed


end
