(* ===== verification/Sweep.thy ===== *)
theory Sweep
  imports Service
begin

text \<open>
  The background sweeper (\<open>service/sweep.rs\<close>): one tick reaps the lost claims, settles each of
  them and releases expired streams.
\<close>

definition settle_claim :: "deps \<Rightarrow> nat \<Rightarrow> aborted_claim \<Rightarrow> world \<Rightarrow> world option" where
  "settle_claim dp now_ms claim w =
    (let rid = ab_response_id claim;
         w1 = close_response dp rid now_ms (ResponseObject_terminal_stub (service_uuid_fmt dp) rid Failed) w in
     case ab_conversation_id claim of
       None \<Rightarrow> Some (incr ''responses_reaped'' 1 w1)
     | Some cid \<Rightarrow>
       map_option (\<lambda>w2. incr ''responses_reaped'' 1
           (snd (on_store (release_active (ab_tenant_id claim) cid rid Failed now_ms) w2)))
         (if ab_store claim
          then archive_turn (ab_tenant_id claim) cid rid (ab_input_items claim) Failed w1
          else Some w1))"

fun settle_claims :: "deps \<Rightarrow> nat \<Rightarrow> aborted_claim list \<Rightarrow> world \<Rightarrow> world option" where
  "settle_claims dp now_ms [] w = Some w"
| "settle_claims dp now_ms (claim # rest) w =
    (case settle_claim dp now_ms claim w of
       None \<Rightarrow> None
     | Some w1 \<Rightarrow> settle_claims dp now_ms rest w1)"

definition tick :: "deps \<Rightarrow> world \<Rightarrow> world option" where
  "tick dp w =
    (case clock_now w of (now_ms, w0) \<Rightarrow>
      (case on_store (ledger_reap now_ms (cf_heartbeat_ttl_ms (dp_cfg dp))) w0 of
         (Inl e, w1) \<Rightarrow> Some w1
       | (Inr aborted, w1) \<Rightarrow>
         map_option (\<lambda>w2.
             case on_log (event_sweep_expired now_ms) w2 of
               (Inr n, w3) \<Rightarrow> if n = 0 then w3 else incr ''event_logs_swept'' n w3
             | (Inl e, w3) \<Rightarrow> w3)
           (settle_claims dp now_ms aborted w1)))"

section \<open>One claim\<close>

text \<open>
  What settling a claim does not do: it touches no row, and it never gives a marker to anyone.
  \<open>freed\<close> says that a response does not hold the marker of a conversation, or that its release was
  impossible: the stream is full, or the idempotency branch swallowed it.
\<close>

definition freed :: "conversation_id \<Rightarrow> response_id \<Rightarrow> mem_store \<Rightarrow> bool" where
  "freed cid rid s \<longleftrightarrow> conv_holder s cid \<noteq> Some rid \<or>
    st_max_events_per_conversation s \<le> cs_next_seq (stream_of s cid) \<or>
    (\<exists>q. cs_last_completed (stream_of s cid) = Some (rid, q))"

definition conv_same :: "mem_store \<Rightarrow> mem_store \<Rightarrow> bool" where
  "conv_same s s' \<longleftrightarrow> ledger_part s' = ledger_part s \<and> st_conversations s' = st_conversations s \<and>
    st_conversation_events s' = st_conversation_events s"

lemma conv_same_views:
  assumes "conv_same s s'"
  shows "owned s' = owned s" "stream_of s' = stream_of s" "conv_holder s' = conv_holder s" "freed cid rid s' = freed cid rid s"
    "ledger_part s' = ledger_part s"
proof -
  have *: "ledger_part s' = ledger_part s" using assms by (simp add: conv_same_def)
  show "owned s' = owned s" "stream_of s' = stream_of s" "conv_holder s' = conv_holder s" "freed cid rid s' = freed cid rid s"
    "ledger_part s' = ledger_part s"
    using assms ledger_part_D(11)[OF *] *
    by (simp_all add: conv_same_def owned_def stream_of_def conv_holder_def freed_def fun_eq_iff)
qed

lemma close_response_store [simp]: "w_store (close_response dp rid now obj w) = w_store w"
  by (simp add: close_response_def world_ops)

lemma close_response_wf: "world_wf w \<Longrightarrow> world_wf (close_response dp rid now obj w)"
  by (simp add: close_response_def world_ops world_wf_log event_append_wf event_close_wf world_wfD)

text \<open>The steps of settling: closing, maybe archiving, then the release on an otherwise unchanged store.\<close>

lemma settle_claim_steps:
  assumes ok: "settle_claim dp now c w = Some w'" and wf: "world_wf w"
  shows "world_wf w' \<and> ledger_part (w_store w') = ledger_part (w_store w) \<and>
    (case ab_conversation_id c of
       None \<Rightarrow> w_store w' = w_store w
     | Some cid \<Rightarrow> \<exists>s2. conv_wf s2 \<and> conv_same (w_store w) s2 \<and>
         w_store w' = snd (release_active (ab_tenant_id c) cid (ab_response_id c) Failed now s2))"
proof (cases "ab_conversation_id c")
  case None
  then show ?thesis using ok wf by (auto simp: settle_claim_def Let_def close_response_wf)
next
  case (Some cid)
  let ?w1 = "close_response dp (ab_response_id c) now
    (ResponseObject_terminal_stub (service_uuid_fmt dp) (ab_response_id c) Failed) w"
  have wf1: "world_wf ?w1" by (rule close_response_wf[OF wf])
  obtain w2 where w2: "(if ab_store c then archive_turn (ab_tenant_id c) cid (ab_response_id c) (ab_input_items c) Failed ?w1
        else Some ?w1) = Some w2"
    and w': "w' = incr ''responses_reaped'' 1 (snd (on_store (release_active (ab_tenant_id c) cid (ab_response_id c) Failed now) w2))"
    using ok Some by (auto simp: settle_claim_def Let_def)
  have fr: "snapshot_frame ?w1 w2" using w2 by (auto dest: archive_turn_frame split: if_splits)
  then have "world_wf w2" "conv_same (w_store w) (w_store w2)"
    using wf1 by (auto simp: snapshot_frame_def conv_same_def)
  then show ?thesis
    using Some conv_same_views(5)[of "w_store w" "w_store w2"] world_wfD(2)[of w2]
    by (auto simp: w' on_store_eq world_wf_conv release_active_wf intro!: exI[of _ "w_store w2"])
qed

lemma release_freed:
  assumes wf: "conv_wf s" and g: "conv_guard_writable s = Inr ()" and c: "owned s t cid = Some c"
  shows "freed cid rid (snd (release_active t cid rid st now s))"
proof (cases "cv_active_response_id c = Some rid \<and> (\<forall>q. cs_last_completed (stream_of s cid) \<noteq> Some (rid, q))")
  case True
  let ?w = "\<lparr>w_store = s, w_log = EventLog_new, w_clock = (\<lambda>_. now), w_readings = 0, w_metrics = []\<rparr>"
  show ?thesis
    using release_taken_turn[of ?w t cid c rid st] wf g c True by (auto simp: freed_def world_ops)
next
  case False
  then have "snd (release_active t cid rid st now s) = s"
    using g c by (auto simp: release_active_def split: option.splits)
  then show ?thesis using False c by (auto simp: freed_def conv_holder_def owned_Some_iff)
qed

text \<open>What a release does to the rest: nothing, or the marker of one conversation is cleared.\<close>

lemma release_active_cases:
  assumes wf: "conv_wf s"
  shows "snd (release_active t cid rid st now s) = s \<or>
    (conv_holder (snd (release_active t cid rid st now s)) cid = None \<and>
     (\<forall>k. k \<noteq> cid \<longrightarrow> conv_holder (snd (release_active t cid rid st now s)) k = conv_holder s k \<and>
       stream_of (snd (release_active t cid rid st now s)) k = stream_of s k) \<and>
     (\<forall>t' k c. owned s t' k = Some c \<longrightarrow> (\<exists>c'. owned (snd (release_active t cid rid st now s)) t' k = Some c')))"
proof (cases "\<exists>c. owned s t cid = Some c \<and> cv_active_response_id c = Some rid")
  case False
  then show ?thesis by (auto simp: release_active_def split: sum.split option.split)
next
  case True
  then obtain c where c: "map_of (st_conversations s) cid = Some c" "cv_id c = cid" "cv_active_response_id c = Some rid"
      "owned s t cid = Some c" "cv_tenant_id c = t"
    using conversations_wf_id[OF conv_wfD(1)[OF wf]] by (auto simp: owned_Some_iff)
  let ?m = "snd (release_marker cid c rid st now s)"
  have "?m = s \<or> (conv_holder ?m cid = None \<and> (\<forall>k. k \<noteq> cid \<longrightarrow> conv_holder ?m k = conv_holder s k \<and>
      stream_of ?m k = stream_of s k) \<and> (\<forall>t' k c. owned s t' k = Some c \<longrightarrow> (\<exists>c'. owned ?m t' k = Some c')))"
    using release_marker_holder[OF c(1-3), of st now] c
    by (auto simp: release_marker_def push_conversation_event_eq stream_of_def put_stream_def owned_def
        insert_conversation_def split: sum.splits option.splits if_splits)
  then show ?thesis using c by (auto simp: release_active_def split: sum.split option.split)
qed

lemma release_keeps_freed:
  assumes "conv_wf s" "freed k r s"
  shows "freed k r (snd (release_active t cid rid st now s))"
proof -
  have "st_max_events_per_conversation (snd (release_active t cid rid st now s)) = st_max_events_per_conversation s"
    by (rule ledger_part_D(11)) simp
  then show ?thesis
    using release_active_cases[OF assms(1), of t cid rid st now] assms(2) by (cases "k = cid") (auto simp: freed_def)
qed

lemma settle_claim_effect:
  assumes ok: "settle_claim dp now c w = Some w'" and wf: "world_wf w" and g: "conv_guard_writable (w_store w) = Inr ()"
  shows "world_wf w' \<and> ledger_part (w_store w') = ledger_part (w_store w) \<and>
    (\<forall>k r. freed k r (w_store w) \<longrightarrow> freed k r (w_store w')) \<and>
    (\<forall>t k c. owned (w_store w) t k = Some c \<longrightarrow> (\<exists>c'. owned (w_store w') t k = Some c')) \<and>
    (\<forall>cid cv. ab_conversation_id c = Some cid \<and> owned (w_store w) (ab_tenant_id c) cid = Some cv \<longrightarrow>
      freed cid (ab_response_id c) (w_store w'))"
proof (cases "ab_conversation_id c")
  case None
  then show ?thesis using settle_claim_steps[OF ok wf] by auto
next
  case (Some cid)
  then obtain s2 where s2: "conv_wf s2" "conv_same (w_store w) s2"
      "w_store w' = snd (release_active (ab_tenant_id c) cid (ab_response_id c) Failed now s2)"
    using settle_claim_steps[OF ok wf] by auto
  note V = conv_same_views[OF s2(2)]
  have g2: "conv_guard_writable s2 = Inr ()" using g ledger_part_D(6,7)[OF V(5)] by (simp add: conv_writable_iff)
  have "\<forall>k r. freed k r (w_store w) \<longrightarrow> freed k r (w_store w')"
    using release_keeps_freed[OF s2(1)] V(4) s2(3) by simp
  moreover have "\<forall>t k c. owned (w_store w) t k = Some c \<longrightarrow> (\<exists>c'. owned (w_store w') t k = Some c')"
    using release_active_cases[OF s2(1), of "ab_tenant_id c" cid "ab_response_id c" Failed now] V(1) s2(3) by auto
  moreover have "freed cid (ab_response_id c) (w_store w')" if "owned (w_store w) (ab_tenant_id c) cid = Some cv" for cv
    using release_freed[OF s2(1) g2, of "ab_tenant_id c" cid cv] that V(1) s2(3) by simp
  ultimately show ?thesis using settle_claim_steps[OF ok wf] Some by auto
qed

section \<open>A tick\<close>

lemma settle_claims_effect:
  assumes "settle_claims dp now cs w = Some w'" "world_wf w" "conv_guard_writable (w_store w) = Inr ()"
  shows "world_wf w' \<and> ledger_part (w_store w') = ledger_part (w_store w) \<and>
    (\<forall>k r. freed k r (w_store w) \<longrightarrow> freed k r (w_store w')) \<and>
    (\<forall>c \<in> set cs. \<forall>cid cv. ab_conversation_id c = Some cid \<and> owned (w_store w) (ab_tenant_id c) cid = Some cv \<longrightarrow>
      freed cid (ab_response_id c) (w_store w'))"
  using assms
proof (induction cs arbitrary: w)
  case (Cons c cs)
  obtain w1 where w1: "settle_claim dp now c w = Some w1" "settle_claims dp now cs w1 = Some w'"
    using Cons.prems(1) by (auto split: option.splits)
  note E = settle_claim_effect[OF w1(1) Cons.prems(2,3)]
  have g1: "conv_guard_writable (w_store w1) = Inr ()"
    using E Cons.prems(3) ledger_part_D(6,7)[of "w_store w1" "w_store w"] by (simp add: conv_writable_iff)
  note IH = Cons.IH[OF w1(2) conjunct1[OF E] g1]
  show ?case using E IH by (simp only: list.set ball_simps) (metis (no_types, lifting))
qed auto

text \<open>Settling returns: each claim is settled once, on a log with room for its terminal event.\<close>

definition log_room :: "response_id \<Rightarrow> event_log \<Rightarrow> bool" where
  "log_room rid g \<longleftrightarrow> (\<forall>l. map_of (el_logs g) rid = Some l \<longrightarrow> rl_next_seq l + 1 < u64_max)"

lemma close_response_short:
  assumes "log_room rid (w_log w)"
  shows "log_short rid (w_log (close_response dp rid now obj w))"
  using assms
  by (auto simp: log_room_def log_short_def close_response_def world_ops event_append_def append_write_def Let_def
      event_close_def lifecycle_def push_event_def evict_eq ResponseLog_new_def u64_max_def
      split: sum.splits option.splits if_splits)

lemma close_response_other:
  "k \<noteq> rid \<Longrightarrow> map_of (el_logs (w_log (close_response dp rid now obj w))) k = map_of (el_logs (w_log w)) k"
  by (auto simp: close_response_def world_ops event_append_def append_write_def Let_def event_close_def lifecycle_def
      split: sum.splits option.splits if_splits)

lemma settle_claim_log:
  assumes "settle_claim dp now c w = Some w'" "k \<noteq> ab_response_id c"
  shows "map_of (el_logs (w_log w')) k = map_of (el_logs (w_log w)) k"
proof (cases "ab_conversation_id c")
  case None
  then show ?thesis using assms by (auto simp: settle_claim_def Let_def close_response_other)
next
  case (Some cid)
  then show ?thesis
    using assms close_response_other[OF assms(2)]
    by (auto simp: settle_claim_def Let_def on_store_eq snapshot_frame_def dest!: archive_turn_frame split: if_splits)
qed

lemma settle_claims_return:
  assumes "world_wf w" "conv_guard_writable (w_store w) = Inr ()" "distinct (map ab_response_id cs)"
    "\<forall>c \<in> set cs. log_room (ab_response_id c) (w_log w)"
  shows "\<exists>w'. settle_claims dp now cs w = Some w'"
  using assms
proof (induction cs arbitrary: w)
  case (Cons c cs)
  let ?w1 = "close_response dp (ab_response_id c) now
    (ResponseObject_terminal_stub (service_uuid_fmt dp) (ab_response_id c) Failed) w"
  have "event_log_wf (w_log ?w1)" "log_short (ab_response_id c) (w_log ?w1)"
    using world_wfD(3)[OF close_response_wf[OF Cons.prems(1)]] close_response_short Cons.prems(4) by auto
  note arch = archive_turn_returns[OF this]
  have "settle_claim dp now c w \<noteq> None"
    using arch by (cases "ab_conversation_id c") (auto simp: settle_claim_def Let_def)
  then obtain w2 where w2: "settle_claim dp now c w = Some w2" by blast
  note E = settle_claim_effect[OF w2 Cons.prems(1,2)]
  have g2: "conv_guard_writable (w_store w2) = Inr ()"
    using E Cons.prems(2) ledger_part_D(6,7)[of "w_store w2" "w_store w"] by (simp add: conv_writable_iff)
  have "\<forall>d \<in> set cs. log_room (ab_response_id d) (w_log w2)"
  proof
    fix d assume d: "d \<in> set cs"
    then have "ab_response_id d \<in> ab_response_id ` set cs" by (rule imageI)
    then have "ab_response_id d \<noteq> ab_response_id c" using Cons.prems(3) by (metis distinct.simps(2) list.set_map list.simps(9))
    from settle_claim_log[OF w2 this] show "log_room (ab_response_id d) (w_log w2)"
      using Cons.prems(4) d by (simp add: log_room_def)
  qed
  from Cons.IH[OF conjunct1[OF E] g2 _ this] show ?case using Cons.prems(3) w2 by simp
qed simp

lemma reap_each_fields:
  "c \<in> set (fst (reap_each now ids s)) \<Longrightarrow> \<exists>r. map_of (st_records s) (ab_response_id c) = Some r \<and>
    ab_tenant_id c = rr_tenant_id r \<and> ab_conversation_id c = rr_conversation_id r"
proof (induction now ids s rule: reap_each.induct)
  case (2 now rid rest s)
  show ?case
  proof (cases "map_of (st_records s) rid")
    case None
    then show ?thesis using 2 by simp
  next
    case (Some r)
    then show ?thesis using 2(2)[OF Some] 2(3) by (auto simp: case_prod_unfold rr_conversation_id_def split: if_splits)
  qed
qed simp

text \<open>C22: A tick of the sweeper returns, fails exactly the claims whose holder is lost and no other row,
  and leaves none of them with the marker of its conversation, unless the release was
  impossible.  The next tick therefore finds nothing left of them to do.\<close>

theorem tick_settles_lost_claims:
  assumes wf: "world_wf w" and g: "conv_guard_writable (w_store w) = Inr ()"
    and room: "\<forall>rid. log_room rid (w_log w)"
    and now: "now = w_clock w (w_readings w)" and ttl: "ttl = cf_heartbeat_ttl_ms (dp_cfg dp)"
  shows "\<exists>w'. tick dp w = Some w' \<and> world_wf w' \<and>
    (\<forall>rid. map_of (st_records (w_store w')) rid =
      (case map_of (st_records (w_store w)) rid of
         None \<Rightarrow> None
       | Some r \<Rightarrow> Some (if rr_status r = InProgress \<and> claim_lost now ttl (w_store w) r then reaped now r else r))) \<and>
    (\<forall>rid r cid cv. map_of (st_records (w_store w)) rid = Some r \<and> rr_status r = InProgress \<and>
        claim_lost now ttl (w_store w) r \<and> rr_conversation_id r = Some cid \<and>
        owned (w_store w) (rr_tenant_id r) cid = Some cv \<longrightarrow> freed cid rid (w_store w'))"
proof -
  let ?s = "w_store w"
  note rwf = ledger_wfD(1)[OF world_wfD(1)[OF wf]]
  obtain cs s1 where re: "reap_each now (reap_victims now ttl ?s) ?s = (cs, s1)" by fastforce
  then have reap: "ledger_reap now ttl ?s = (Inr cs, s1)" by (simp add: ledger_reap_def)
  let ?w1 = "w\<lparr>w_readings := w_readings w + 1, w_store := s1\<rparr>"
  have ids: "map ab_response_id cs = reap_victims now ttl ?s"
    using reap_each_claims[OF reap_victims_distinct[OF rwf, of now ttl], of ?s now] re
      reap_victims_iff[OF rwf, of _ now ttl] by fastforce
  have cp: "conv_part s1 = conv_part ?s" using ledger_ops_conv_part(6)[of now ttl ?s] reap by simp
  have wf1: "world_wf ?w1"
    using world_wf_ledger[OF wf cp] ledger_reap_wf[OF world_wfD(1)[OF wf], of now ttl] reap
    by (simp add: world_wf_def)
  have g1: "conv_guard_writable (w_store ?w1) = Inr ()" using g conv_part_D(5,6)[OF cp] by (simp add: conv_writable_iff)
  obtain w2 where w2: "settle_claims dp now cs ?w1 = Some w2"
    using settle_claims_return[OF wf1 g1, of cs dp now] reap_victims_distinct[OF rwf, of now ttl] ids room by auto
  note E = settle_claims_effect[OF w2 wf1 g1]
  obtain n g' where sw: "event_sweep_expired now (w_log w2) = (Inr n, g')"
    by (simp add: event_sweep_expired_def case_prod_unfold)
  let ?w' = "if n = 0 then w2\<lparr>w_log := g'\<rparr> else incr ''event_logs_swept'' n (w2\<lparr>w_log := g'\<rparr>)"
  have t: "tick dp w = Some ?w'"
    using reap w2 sw by (simp add: tick_def clock_now_def on_store_def on_log_def now ttl)
  have "world_wf ?w'"
    using world_wf_log[OF conjunct1[OF E], of g'] event_sweep_expired_wf[OF world_wfD(3)[OF conjunct1[OF E]], of now] sw
    by simp
  moreover have recs: "st_records (w_store ?w') = st_records s1"
    using ledger_part_D(2)[of "w_store w2" s1] E by simp
  moreover have "freed cid rid (w_store ?w')"
    if r: "map_of (st_records ?s) rid = Some r" "rr_status r = InProgress" "claim_lost now ttl ?s r"
      and cid: "rr_conversation_id r = Some cid" and own: "owned ?s (rr_tenant_id r) cid = Some cv" for rid r cid cv
  proof -
    have "rid \<in> set (map ab_response_id cs)" using ids r reap_victims_iff[OF rwf] by auto
    then obtain c where c: "c \<in> set cs" "ab_response_id c = rid" by auto
    then have "ab_tenant_id c = rr_tenant_id r" "ab_conversation_id c = Some cid"
      using reap_each_fields[of c now "reap_victims now ttl ?s" ?s] re r(1) cid by auto
    then have "freed cid rid (w_store w2)" using E c own conv_part_views(1)[OF cp] by auto
    then show ?thesis by simp
  qed
  ultimately show ?thesis
    using t ledger_reap_records[OF rwf, of now ttl] reap by (intro exI[of _ ?w']) auto
qed

theorem tick_settles_lost_claims_witness:
  "\<exists>w' r. tick demo_deps ((world_at demo_running demo_log1)\<lparr>w_clock := \<lambda>_. 100000\<rparr>) = Some w' \<and>
    map_of (st_records (w_store w')) demo_rid = Some r \<and> rr_status r = Failed"
proof -
  let ?w = "(world_at demo_running demo_log1)\<lparr>w_clock := \<lambda>_. 100000\<rparr>"
  have wf: "world_wf ?w" using demo_running_world(2) by (simp add: world_wf_def)
  have g: "conv_guard_writable (w_store ?w) = Inr ()"
    by (simp add: conv_writable_iff demo_running_eq demo_queued_eq insert_record_def MemStore_new_def)
  have room: "\<forall>rid. log_room rid (w_log ?w)"
    by (auto simp: log_room_def demo_log1_def demo_log_def EventLog_with_capacity_def append_write_def
      demo_delta_def text_delta_def ResponseLog_new_def push_event_def evict_eq u64_max_def Let_def)
  have "claim_lost 100000 (cf_heartbeat_ttl_ms (dp_cfg demo_deps)) demo_running demo_claimed_record"
      "rr_status demo_claimed_record = InProgress"
    by (simp_all add: claim_lost_def demo_claimed_record_def demo_running_fields demo_deps_def Config_for_node_def)
  then show ?thesis
    using tick_settles_lost_claims[OF wf g room refl refl, of demo_deps]
    by (auto simp: demo_running_fields reaped_def)
qed

end
