(* ===== verification/Runtime.thy ===== *)
theory Runtime
  imports Sink Sweep
begin

text \<open>
  The executor (\<open>agent-runtime/src/runtime.rs\<close>): claim a response, assemble its task, run it and
  commit the result through one of two terminal funnels.

  The runner is the trait \<open>AgentRunner\<close>; here it is a function from the task, the sink and the
  world to its result, the sink and the world it leaves.  What happens to the system while it
  runs, a cancellation for instance, is part of the world it leaves.  The background heartbeat
  task is the ledger's own operation and appears there.
\<close>

section \<open>Configuration and results\<close>

definition EVENT_REPLAY_PAGE :: nat where
  "EVENT_REPLAY_PAGE = 256"

datatype snapshot_unavailable = SuChainBroken response_id | SuConversation conversation_error

record terminal_output =
  to_produced :: "response_item list"
  to_reasoning :: string
  to_usage :: usage
  to_status :: response_status

record runtime_config =
  ar_exec_ttl :: nat
  ar_retain_after_terminal :: nat
  ar_max_tool_rounds :: nat
  ar_heartbeat_interval :: nat
  ar_cancel_poll_interval :: nat

definition RuntimeConfig_default :: runtime_config where
  "RuntimeConfig_default = \<lparr>ar_exec_ttl = 300000, ar_retain_after_terminal = 60000, ar_max_tool_rounds = 20,
    ar_heartbeat_interval = 30000, ar_cancel_poll_interval = 250\<rparr>"

text \<open>Whether a conversation port is mounted, and the text form of ids.\<close>

record runtime_deps =
  rd_cfg :: runtime_config
  rd_conversations :: bool
  rd_uuid_fmt :: "uuid \<Rightarrow> string"

datatype executed = ExIdle | ExCompleted | ExSuperseded | ExFailed

type_synonym runner = "agent_task \<Rightarrow> event_sink \<Rightarrow> world \<Rightarrow> (agent_error + agent_outcome) \<times> event_sink \<times> world"

section \<open>Context\<close>

definition rt_read_snapshot ::
  "runtime_deps \<Rightarrow> tenant_id \<Rightarrow> conversation_id \<Rightarrow> world \<Rightarrow> conversation_error + resolved_context" where
  "rt_read_snapshot rd tenant cid w =
    (if rd_conversations rd then read_snapshot tenant cid (w_store w) else Inl (CStore Unavailable))"

definition absorb_output :: "response_event \<Rightarrow> response_item list \<Rightarrow> response_item list" where
  "absorb_output e items = (case re_response_object e of Some obj \<Rightarrow> items @ ro_output obj | None \<Rightarrow> items)"

definition rt_reconstruct_bare ::
  "response_record \<Rightarrow> world \<Rightarrow> (snapshot_unavailable + resolved_context) option" where
  "rt_reconstruct_bare r w =
    map_option (\<lambda>x. case x of
        Inl _ \<Rightarrow> Inl (SuChainBroken (rr_response_id r))
      | Inr items \<Rightarrow> Inr (rc_from_items items 1))
      (page_loop (\<lambda>c. event_read_after (rr_response_id r) c EVENT_REPLAY_PAGE (w_log w)) re_sequence_number
        (\<lambda>e. kind_is_terminal (re_kind e)) absorb_output None (ts_input_items (rr_spec r)))"

definition rt_snapshot_result ::
  "conversation_error + resolved_context \<Rightarrow> snapshot_unavailable + resolved_context" where
  "rt_snapshot_result x = (case x of Inl e \<Rightarrow> Inl (SuConversation e) | Inr c \<Rightarrow> Inr c)"

definition rt_resolve_snapshot ::
  "runtime_deps \<Rightarrow> response_record \<Rightarrow> world \<Rightarrow> (snapshot_unavailable + resolved_context) option" where
  "rt_resolve_snapshot rd r w =
    (case ts_anchor (rr_spec r) of
       Root \<Rightarrow> Some (Inr ResolvedContext_default)
     | AnchorConversation cid \<Rightarrow> Some (rt_snapshot_result (rt_read_snapshot rd (rr_tenant_id r) cid w))
     | Previous pid \<Rightarrow>
       (case ledger_get pid (w_store w) of
          Inr (Some prev) \<Rightarrow>
            (case ts_anchor (rr_spec prev) of
               AnchorConversation cid \<Rightarrow> Some (rt_snapshot_result (rt_read_snapshot rd (rr_tenant_id r) cid w))
             | Root \<Rightarrow> rt_reconstruct_bare prev w
             | Previous _ \<Rightarrow> Some (Inl (SuChainBroken pid)))
        | _ \<Rightarrow> Some (Inl (SuChainBroken pid))))"

section \<open>Terminal funnels\<close>

definition rt_append_turn ::
  "runtime_deps \<Rightarrow> response_record \<Rightarrow> response_item list \<Rightarrow> string option \<Rightarrow> usage \<Rightarrow> response_status \<Rightarrow> world
    \<Rightarrow> bool \<times> world" where
  "rt_append_turn rd r produced reasoning usage status w =
    (case rr_conversation_id r of
       None \<Rightarrow> (False, w)
     | Some cid \<Rightarrow>
       if \<not> rd_conversations rd then (False, w)
       else (case on_store (append_turn (rr_tenant_id r) cid (rr_response_id r)
               \<lparr>tc_input_items = ts_input_items (rr_spec r), tc_output_items = produced, tc_reasoning = reasoning,
                tc_usage = usage, tc_status = status\<rparr>) w of
           (Inr _, w') \<Rightarrow> (True, w')
         | (Inl _, w') \<Rightarrow> (False, w')))"

definition rt_settle :: "runtime_deps \<Rightarrow> response_record \<Rightarrow> response_status \<Rightarrow> bool \<Rightarrow> nat \<Rightarrow> world \<Rightarrow> world" where
  "rt_settle rd r status advance_tail now_ms w =
    (case rr_conversation_id r of
       None \<Rightarrow> w
     | Some cid \<Rightarrow>
       if \<not> rd_conversations rd then w
       else
         (let w1 = (if advance_tail then snd (on_store (conv_advance (rr_tenant_id r) cid (rr_response_id r)) w) else w) in
          snd (on_store (release_active (rr_tenant_id r) cid (rr_response_id r) status now_ms) w1)))"

definition rt_close_stream ::
  "runtime_deps \<Rightarrow> response_id \<Rightarrow> response_event_kind \<Rightarrow> response_object \<Rightarrow> nat \<Rightarrow> world \<Rightarrow> world" where
  "rt_close_stream rd rid kind obj now_ms w =
    snd (on_log (event_close rid now_ms (ar_retain_after_terminal (rd_cfg rd)))
      (snd (log_append (lifecycle rid kind obj) w)))"

definition reread :: "response_record \<Rightarrow> world \<Rightarrow> response_record" where
  "reread r w = (case ledger_get (rr_response_id r) (w_store w) of Inr (Some r') \<Rightarrow> r' | _ \<Rightarrow> r)"

definition store_output :: "runtime_deps \<Rightarrow> response_record \<Rightarrow> terminal_output \<Rightarrow> world \<Rightarrow> bool \<times> world" where
  "store_output rd r out w =
    (if \<not> is_stored r then (False, w)
     else case rr_conversation_id r of
       None \<Rightarrow> (True, w)
     | Some _ \<Rightarrow> rt_append_turn rd r (to_produced out)
         (if to_reasoning out \<noteq> [] then Some (to_reasoning out) else None) (to_usage out) (to_status out) w)"

definition rt_complete ::
  "runtime_deps \<Rightarrow> response_record \<Rightarrow> attempt \<Rightarrow> terminal_output \<Rightarrow> nat \<Rightarrow> world \<Rightarrow> executed \<times> world" where
  "rt_complete rd r att out now_ms w =
    (case on_store (ledger_complete (rr_response_id r) att (to_status out) (to_usage out) now_ms) w of
       (Inl _, w1) \<Rightarrow> (ExFailed, w1)
     | (Inr _, w1) \<Rightarrow>
       (case store_output rd r out w1 of (output_stored, w2) \<Rightarrow>
         (let w3 = rt_settle rd r (to_status out) output_stored now_ms w2 in
          if is_stored r \<and> \<not> output_stored then (ExFailed, w3)
          else
            (let kind = (if to_status out = Incomplete then EvIncomplete else EvCompleted) in
             (ExCompleted, rt_close_stream rd (rr_response_id r) kind
               (ResponseObject_new (rd_uuid_fmt rd) (reread r w3) (to_produced out)) now_ms w3)))))"

definition rt_fail ::
  "runtime_deps \<Rightarrow> response_record \<Rightarrow> attempt \<Rightarrow> usage \<Rightarrow> response_item list \<Rightarrow> nat \<Rightarrow> world \<Rightarrow> executed \<times> world" where
  "rt_fail rd r att usage produced now_ms w =
    (case on_store (ledger_complete (rr_response_id r) att Failed usage now_ms) w of
       (Inl _, w1) \<Rightarrow> (ExFailed, w1)
     | (Inr _, w1) \<Rightarrow>
       (let w2 = (if is_stored r \<and> rr_conversation_id r \<noteq> None
                  then snd (rt_append_turn rd r produced None usage Failed w1) else w1);
            w3 = rt_settle rd r Failed False now_ms w2 in
        (ExFailed, rt_close_stream rd (rr_response_id r) EvFailed
          (ResponseObject_without_output (rd_uuid_fmt rd) (reread r w3)) now_ms w3)))"

section \<open>Serving a claim\<close>

definition serve_run ::
  "runtime_deps \<Rightarrow> runner \<Rightarrow> response_record \<Rightarrow> agent_task \<Rightarrow> nat \<Rightarrow> world \<Rightarrow> executed \<times> world" where
  "serve_run rd run r task now_ms w =
    (case run task (EventSink_new (rr_response_id r) (rr_attempt r)) w of
       (Inl Superseded, sk, w1) \<Rightarrow> (ExSuperseded, w1)
     | (Inl (AgentFailed _ usage), sk, w1) \<Rightarrow>
         rt_fail rd r (rr_attempt r) usage
           (es_completed sk @ (case partial_item sk of Some i \<Rightarrow> [i] | None \<Rightarrow> [])) now_ms w1
     | (Inr oc, sk, w1) \<Rightarrow>
         if es_stopped sk then (ExSuperseded, w1)
         else rt_complete rd r (rr_attempt r)
           \<lparr>to_produced = oc_items oc, to_reasoning = es_reasoning sk, to_usage = oc_usage oc,
            to_status = oc_status oc\<rparr> now_ms w1)"

definition serve ::
  "runtime_deps \<Rightarrow> runner \<Rightarrow> claimed_response \<Rightarrow> nat \<Rightarrow> world \<Rightarrow> (executed \<times> world) option" where
  "serve rd run claimed now_ms w =
    (let r = cl_record claimed;
         w1 = snd (log_append (lifecycle_with_attempt (rr_response_id r) EvInProgress (rr_attempt r)
                (ResponseObject_without_output (rd_uuid_fmt rd) r)) w) in
     map_option (\<lambda>ctx. case ctx of
         Inl _ \<Rightarrow> rt_fail rd r (rr_attempt r) Usage_default [] now_ms w1
       | Inr snapshot \<Rightarrow>
           serve_run rd run r
             \<lparr>tk_params = ts_params (rr_spec r), tk_items = rc_items snapshot @ ts_input_items (rr_spec r),
              tk_provenance = claim_provenance claimed, tk_max_tool_rounds = ar_max_tool_rounds (rd_cfg rd)\<rparr>
             now_ms w1)
       (rt_resolve_snapshot rd r w1))"

definition run_once ::
  "runtime_deps \<Rightarrow> runner \<Rightarrow> agent_id \<Rightarrow> nat \<Rightarrow> world \<Rightarrow> (executed \<times> world) option" where
  "run_once rd run agent now_ms w =
    (case on_store (ledger_claim agent now_ms (ar_exec_ttl (rd_cfg rd))) w of
       (Inr (Some claimed), w1) \<Rightarrow> serve rd run claimed now_ms w1
     | (_, w1) \<Rightarrow> Some (ExIdle, w1))"

text \<open>Each round draws a fresh agent id.\<close>

fun drain ::
  "runtime_deps \<Rightarrow> runner \<Rightarrow> (nat \<Rightarrow> agent_id) \<Rightarrow> nat \<Rightarrow> nat \<Rightarrow> world \<Rightarrow> (executed list \<times> world) option" where
  "drain rd run agents now_ms 0 w = Some ([], w)"
| "drain rd run agents now_ms (Suc n) w =
    (case run_once rd run (agents n) now_ms w of
       None \<Rightarrow> None
     | Some (r, w1) \<Rightarrow>
       if r = ExIdle then Some ([r], w1)
       else map_option (\<lambda>(rs, w2). (r # rs, w2)) (drain rd run agents now_ms n w1))"

section \<open>The cancellation probe\<close>

text \<open>The stores found at each poll; the probe resolves at the first one that refuses the attempt.\<close>

fun cancelled :: "response_id \<Rightarrow> attempt \<Rightarrow> mem_store list \<Rightarrow> bool" where
  "cancelled rid att [] = False"
| "cancelled rid att (s # ss) = (check_attempt rid att s = Inl LStaleAttempt \<or> cancelled rid att ss)"

section \<open>The fence\<close>

lemma ledger_complete_stale:
  assumes "map_of (st_records s) rid = Some row" "rr_attempt row \<noteq> att \<or> rr_status row \<noteq> InProgress"
  shows "\<exists>e. ledger_complete rid att st u now s = (Inl e, s)"
  using assms by (auto simp: ledger_complete_def guard_writable_def)

text \<open>An executor whose attempt was superseded, by a cancel or by the reaper, can finish its work in
  either way without any effect: neither the ledger nor a conversation nor the stream changes.\<close>

theorem late_executor_is_inert:
  assumes "map_of (st_records (w_store w)) (rr_response_id r) = Some row"
    and "rr_attempt row \<noteq> att \<or> rr_status row \<noteq> InProgress"
  shows "rt_complete rd r att out now w = (ExFailed, w) \<and> rt_fail rd r att usage produced now w = (ExFailed, w)"
proof
  obtain e where "ledger_complete (rr_response_id r) att (to_status out) (to_usage out) now (w_store w) = (Inl e, w_store w)"
    using ledger_complete_stale[OF assms] by blast
  then show "rt_complete rd r att out now w = (ExFailed, w)" by (simp add: rt_complete_def on_store_def)
  obtain e where "ledger_complete (rr_response_id r) att Failed usage now (w_store w) = (Inl e, w_store w)"
    using ledger_complete_stale[OF assms] by blast
  then show "rt_fail rd r att usage produced now w = (ExFailed, w)" by (simp add: rt_fail_def on_store_def)
qed

text \<open>The probe a runner races its blocking work against resolves at the first poll after a cancel
  or a reap, whichever attempt it watches.\<close>

theorem probe_sees_the_cancel:
  assumes "ledger_cancel tenant rid now s = (Inr (), s')"
  shows "cancelled rid att (before @ s' # later)"
proof -
  have "check_attempt rid att s' = Inl LStaleAttempt"
    using ledger_cancel_done[OF assms] conv_part_D(5)[of s' s] by (auto simp: check_attempt_def)
  then show ?thesis by (induction before) simp_all
qed

section \<open>Completion\<close>

lemma rt_close_stream_entry:
  assumes wf: "event_log_wf (w_log w)" and ro: "\<not> st_read_only (w_store w)"
    and l: "map_of (el_logs (w_log w)) rid = Some l" "\<not> rl_swept l"
  shows "\<exists>l'. map_of (el_logs (w_log (rt_close_stream rd rid kind obj now w))) rid = Some l' \<and>
    last (rl_ring l') = with_seq (lifecycle rid kind obj) (rl_next_seq l) \<and> rl_terminal_at_ms l' = Some now"
proof -
  have cap: "1 \<le> el_capacity_per_response (w_log w)" using wf by (simp add: event_log_wf_def)
  have last: "last (drop (Suc (length (rl_ring l)) - el_capacity_per_response (w_log w)) (rl_ring l @ [x])) = x" for x
    using cap by simp
  show ?thesis
    using l ro last by (simp add: rt_close_stream_def world_ops event_append_def append_fence_def lifecycle_def
        append_write_def Let_def event_close_def push_event_def evict_eq)
qed

lemma rt_close_stream_store [simp]: "w_store (rt_close_stream rd rid kind obj now w) = w_store w"
  by (simp add: rt_close_stream_def world_ops)

lemma conv_advance_effect:
  assumes "conv_wf s" "conv_guard_writable s = Inr ()" "owned s t cid = Some c"
  shows "snd (conv_advance t cid rid s) = insert_conversation (c\<lparr>cv_last_response_id := Some rid\<rparr>) s"
    "owned (snd (conv_advance t cid rid s)) t cid = Some (c\<lparr>cv_last_response_id := Some rid\<rparr>)"
proof -
  have id: "cv_id c = cid" "cv_tenant_id c = t"
    using assms(3) conversations_wf_id[OF conv_wfD(1)[OF assms(1)]] by (auto simp: owned_Some_iff)
  show eq: "snd (conv_advance t cid rid s) = insert_conversation (c\<lparr>cv_last_response_id := Some rid\<rparr>) s"
    using assms(2,3) by (simp add: conv_advance_def)
  show "owned (snd (conv_advance t cid rid s)) t cid = Some (c\<lparr>cv_last_response_id := Some rid\<rparr>)"
    using id by (simp add: eq owned_Some_iff)
qed

lemma release_active_tail:
  assumes "conv_wf s" "owned s t cid = Some c"
  shows "\<exists>c'. owned (snd (release_active t cid rid st now s)) t cid = Some c' \<and>
    cv_last_response_id c' = cv_last_response_id c"
proof -
  have id: "cv_id c = cid" "cv_tenant_id c = t"
    using assms conversations_wf_id[OF conv_wfD(1)[OF assms(1)]] by (auto simp: owned_Some_iff)
  show ?thesis
    using assms(2) id
    by (auto simp: release_active_def release_marker_def push_conversation_event_eq owned_Some_iff
        split: sum.split option.split)
qed

text \<open>Settling a conversation turn with the tail advanced.\<close>

lemma rt_settle_advance:
  assumes wf: "conv_wf (w_store w)" and g: "conv_guard_writable (w_store w) = Inr ()"
    and own: "owned (w_store w) (rr_tenant_id r) cid = Some c"
    and conv: "rr_conversation_id r = Some cid" "rd_conversations rd"
  shows "w_log (rt_settle rd r st True now w) = w_log w \<and>
    ledger_part (w_store (rt_settle rd r st True now w)) = ledger_part (w_store w) \<and>
    snapshot_of (w_store (rt_settle rd r st True now w)) = snapshot_of (w_store w) \<and>
    (\<exists>c'. owned (w_store (rt_settle rd r st True now w)) (rr_tenant_id r) cid = Some c' \<and>
      cv_last_response_id c' = Some (rr_response_id r)) \<and>
    freed cid (rr_response_id r) (w_store (rt_settle rd r st True now w))"
proof -
  let ?t = "rr_tenant_id r" let ?rid = "rr_response_id r"
  let ?s1 = "snd (conv_advance ?t cid ?rid (w_store w))"
  have wf1: "conv_wf ?s1" by (rule conv_advance_wf[OF wf])
  have lp: "ledger_part ?s1 = ledger_part (w_store w)" by simp
  have g1: "conv_guard_writable ?s1 = Inr ()" using g ledger_part_D(6,7)[OF lp] by (simp add: conv_writable_iff)
  note own1 = conv_advance_effect(2)[OF wf g own, of ?rid]
  have sn: "snapshot_of ?s1 = snapshot_of (w_store w)" using conv_advance_effect(1)[OF wf g own, of ?rid] by simp
  have w': "w_store (rt_settle rd r st True now w) = snd (release_active ?t cid ?rid st now ?s1)"
    "w_log (rt_settle rd r st True now w) = w_log w"
    using conv by (simp_all add: rt_settle_def on_store_eq)
  show ?thesis
    using release_active_tail[OF wf1 own1, of ?rid st now] release_freed[OF wf1 g1 own1, of ?rid st now] lp sn
    by (auto simp: w')
qed

lemma ledger_complete_done:
  assumes "map_of (st_records s) rid = Some row" "rr_attempt row = att" "rr_status row = InProgress"
    and "is_terminal st" "\<not> st_read_only s"
  shows "ledger_complete rid att st u now s = (Inr (), s\<lparr>st_records := AList.update rid
    (row\<lparr>rr_status := st, rr_owner := None, rr_usage := u, rr_completed_at_ms := Some now\<rparr>) (st_records s)\<rparr>)"
  using assms by (simp add: ledger_complete_def guard_writable_def)

lemma rt_append_turn_stored:
  assumes "conv_guard_writable (w_store w) = Inr ()" "owned (w_store w) (rr_tenant_id r) cid = Some c"
    and "rr_conversation_id r = Some cid" "rd_conversations rd"
  shows "\<exists>w'. rt_append_turn rd r produced reasoning usage st w = (True, w') \<and> snapshot_frame w w' \<and>
    map_of (sn_appended (snapshot_of (w_store w') cid)) (rr_response_id r) \<noteq> None"
proof -
  let ?c = "\<lparr>tc_input_items = ts_input_items (rr_spec r), tc_output_items = produced, tc_reasoning = reasoning,
    tc_usage = usage, tc_status = st\<rparr>"
  have "\<exists>n s'. append_turn (rr_tenant_id r) cid (rr_response_id r) ?c (w_store w) = (Inr n, s')"
    using assms(1,2) by (auto simp: append_turn_def Let_def split: option.split)
  then obtain n s' where a: "append_turn (rr_tenant_id r) cid (rr_response_id r) ?c (w_store w) = (Inr n, s')" by blast
  then show ?thesis
    using append_turn_frame[of w "rr_tenant_id r" cid "rr_response_id r" ?c]
      append_turn_remembers[OF assms(1,2), of "rr_response_id r" ?c] assms(3,4)
    by (simp add: rt_append_turn_def on_store_def)
qed

text \<open>C23: Completing a conversation turn whose attempt still holds settles it as one.  The row becomes
  terminal with the status and usage of the run and without owner, the turn is in the snapshot,
  the conversation's tail is this response, the marker is free (unless the release was
  impossible), and the stream ends with the terminal event carrying the final row and the whole
  output.\<close>

theorem completion_settles:
  assumes wf: "world_wf w" and g: "conv_guard_writable (w_store w) = Inr ()"
    and row: "map_of (st_records (w_store w)) (rr_response_id r) = Some row" "rr_attempt row = att" "rr_status row = InProgress"
    and out: "is_terminal (to_status out)"
    and conv: "rr_conversation_id r = Some cid" "is_stored r" "rd_conversations rd"
      "owned (w_store w) (rr_tenant_id r) cid = Some c"
    and l: "map_of (el_logs (w_log w)) (rr_response_id r) = Some l" "\<not> rl_swept l"
    and eq: "rt_complete rd r att out now w = (ex, w')"
  shows "ex = ExCompleted \<and>
    (\<exists>row'. map_of (st_records (w_store w')) (rr_response_id r) = Some row' \<and> rr_status row' = to_status out \<and>
       rr_usage row' = to_usage out \<and> rr_owner row' = None \<and>
       (\<exists>l'. map_of (el_logs (w_log w')) (rr_response_id r) = Some l' \<and> rl_terminal_at_ms l' = Some now \<and>
          last (rl_ring l') = with_seq (lifecycle (rr_response_id r)
            (if to_status out = Incomplete then EvIncomplete else EvCompleted)
            (ResponseObject_new (rd_uuid_fmt rd) row' (to_produced out))) (rl_next_seq l))) \<and>
    map_of (sn_appended (snapshot_of (w_store w') cid)) (rr_response_id r) \<noteq> None \<and>
    (\<exists>c'. owned (w_store w') (rr_tenant_id r) cid = Some c' \<and> cv_last_response_id c' = Some (rr_response_id r)) \<and>
    freed cid (rr_response_id r) (w_store w')"
proof -
  let ?rid = "rr_response_id r" let ?t = "rr_tenant_id r"
  let ?row = "row\<lparr>rr_status := to_status out, rr_owner := None, rr_usage := to_usage out, rr_completed_at_ms := Some now\<rparr>"
  let ?s1 = "(w_store w)\<lparr>st_records := AList.update ?rid ?row (st_records (w_store w))\<rparr>"
  let ?w1 = "w\<lparr>w_store := ?s1\<rparr>"
  have ro: "\<not> st_read_only (w_store w)" using g by (simp add: conv_writable_iff)
  note cd = ledger_complete_done[OF row out ro, of "to_usage out" now]
  have cp: "conv_part ?s1 = conv_part (w_store w)" by simp
  have c1: "conv_guard_writable (w_store ?w1) = Inr ()" "owned (w_store ?w1) ?t cid = Some c" "conv_wf (w_store ?w1)"
    using g conv(4) conv_part_views(1)[OF cp] world_wfD(2)[OF wf] by (simp_all add: conv_writable_iff)
  have wf1: "world_wf ?w1"
    using world_wf_ledger[OF wf cp] ledger_complete_wf[OF world_wfD(1)[OF wf], of ?rid att "to_status out" "to_usage out" now] cd
    by simp
  obtain w2 where a: "rt_append_turn rd r (to_produced out)
        (if to_reasoning out \<noteq> [] then Some (to_reasoning out) else None) (to_usage out) (to_status out) ?w1 = (True, w2)"
    and F: "snapshot_frame ?w1 w2" and sn: "map_of (sn_appended (snapshot_of (w_store w2) cid)) ?rid \<noteq> None"
    using rt_append_turn_stored[OF c1(1,2) conv(1,3)] by blast
  have w2: "conv_wf (w_store w2)" "conv_guard_writable (w_store w2) = Inr ()" "owned (w_store w2) ?t cid = Some c"
      "w_log w2 = w_log w" "st_records (w_store w2) = st_records ?s1"
    using F wf1 c1 ledger_part_D(2,6,7)[of "w_store w2" ?s1]
    by (auto simp: snapshot_frame_def world_wf_def owned_def conv_writable_iff)
  let ?w3 = "rt_settle rd r (to_status out) True now w2"
  note S = rt_settle_advance[OF w2(1-3) conv(1,3), of "to_status out" now]
  have rec: "st_records (w_store ?w3) = st_records ?s1" "\<not> st_read_only (w_store ?w3)"
    using S w2(2,5) ledger_part_D(2,6)[of "w_store ?w3" "w_store w2"] by (simp_all add: conv_writable_iff)
  have rr: "reread r ?w3 = ?row" by (simp add: reread_def ledger_get_def rec(1))
  have res: "ex = ExCompleted" "w' = rt_close_stream rd ?rid (if to_status out = Incomplete then EvIncomplete else EvCompleted)
      (ResponseObject_new (rd_uuid_fmt rd) ?row (to_produced out)) now ?w3"
    using eq a cd conv(1,2) rr by (auto simp: rt_complete_def on_store_def store_output_def Let_def)
  have cl: "\<exists>l'. map_of (el_logs (w_log w')) ?rid = Some l' \<and> rl_terminal_at_ms l' = Some now \<and>
      last (rl_ring l') = with_seq (lifecycle ?rid (if to_status out = Incomplete then EvIncomplete else EvCompleted)
        (ResponseObject_new (rd_uuid_fmt rd) ?row (to_produced out))) (rl_next_seq l)"
    using rt_close_stream_entry[of ?w3 ?rid l rd "if to_status out = Incomplete then EvIncomplete else EvCompleted"
        "ResponseObject_new (rd_uuid_fmt rd) ?row (to_produced out)" now] S w2(4) l rec(2) world_wfD(3)[OF wf] res(2)
    by auto
  have st: "w_store w' = w_store ?w3" using res(2) by simp
  show ?thesis
  proof (intro conjI)
    show "\<exists>row'. map_of (st_records (w_store w')) ?rid = Some row' \<and> rr_status row' = to_status out \<and>
       rr_usage row' = to_usage out \<and> rr_owner row' = None \<and>
       (\<exists>l'. map_of (el_logs (w_log w')) ?rid = Some l' \<and> rl_terminal_at_ms l' = Some now \<and>
          last (rl_ring l') = with_seq (lifecycle ?rid (if to_status out = Incomplete then EvIncomplete else EvCompleted)
            (ResponseObject_new (rd_uuid_fmt rd) row' (to_produced out))) (rl_next_seq l))"
      by (rule exI[of _ ?row]) (simp add: st rec(1) cl)
    show "map_of (sn_appended (snapshot_of (w_store w') cid)) ?rid \<noteq> None" using S sn st by simp
    show "freed cid ?rid (w_store w')" using S st by simp
    show "\<exists>c'. owned (w_store w') ?t cid = Some c' \<and> cv_last_response_id c' = Some ?rid" using S st by simp
  qed (rule res(1))
qed

section \<open>Where the code is weaker than it means to be\<close>

text \<open>C33: When the conversation of a stored turn is gone at its end, the completed row keeps an open
  stream: the run is reported as failed, no terminal event is written and the stream is never
  closed, so that no retention starts and no subscriber sees an end.\<close>

theorem lost_turn_leaves_stream_open:
  assumes ro: "\<not> st_read_only (w_store w)" "\<not> st_unavailable (w_store w)"
    and row: "map_of (st_records (w_store w)) (rr_response_id r) = Some row" "rr_attempt row = att" "rr_status row = InProgress"
    and out: "is_terminal (to_status out)"
    and conv: "rr_conversation_id r = Some cid" "is_stored r" "owned (w_store w) (rr_tenant_id r) cid = None"
  shows "\<exists>w' row'. rt_complete rd r att out now w = (ExFailed, w') \<and> w_log w' = w_log w \<and>
    map_of (st_records (w_store w')) (rr_response_id r) = Some row' \<and> is_terminal (rr_status row')"
proof -
  let ?row = "row\<lparr>rr_status := to_status out, rr_owner := None, rr_usage := to_usage out, rr_completed_at_ms := Some now\<rparr>"
  let ?s1 = "(w_store w)\<lparr>st_records := AList.update (rr_response_id r) ?row (st_records (w_store w))\<rparr>"
  let ?w1 = "w\<lparr>w_store := ?s1\<rparr>"
  note cd = ledger_complete_done[OF row out ro(1), of "to_usage out" now]
  have none: "owned ?s1 (rr_tenant_id r) cid = None" using conv(3) by (simp add: owned_def)
  have g: "conv_guard_writable ?s1 = Inr ()" using ro by (simp add: conv_writable_iff)
  have "rt_append_turn rd r p re u st ?w1 = (False, ?w1)" for p re u st
    using conv(1) none g by (simp add: rt_append_turn_def on_store_def append_turn_def)
  moreover have "rt_settle rd r st False now ?w1 = ?w1" for st
    using conv(1) none g by (simp add: rt_settle_def on_store_def release_active_def)
  ultimately have "rt_complete rd r att out now w = (ExFailed, ?w1)"
    using cd conv(1,2) by (simp add: rt_complete_def on_store_def store_output_def Let_def)
  then show ?thesis using out by simp
qed

text \<open>C34: Admission and execution disagree about a chain whose stream has expired.  Admission accepts
  it with the previous input alone, the previous output being silently dropped from the bound
  check, while the executor declares the same chain broken and fails the turn.\<close>

theorem expired_chain_divergence:
  assumes wf: "world_wf w" and p: "map_of (st_records (w_store w)) pid = Some p" "is_referencable_by p tenant"
      "ts_anchor (rr_spec p) = Root"
    and short: "log_short pid (w_log w)" and cfg: "config_validate (dp_cfg dp) = Inr ()"
    and view: "log_view pid (w_log w) = Inl e"
    and lim: "within_limits (cf_chain (dp_cfg dp)) (rc_from_items (ts_input_items (rr_spec p)) 1)
      = Inr (rc_from_items (ts_input_items (rr_spec p)) 1)"
    and r: "ts_anchor (rr_spec r) = Previous pid"
  shows "resolve_context dp tenant (Previous pid) w = Some (Inr (rc_from_items (ts_input_items (rr_spec p)) 1)) \<and>
    rt_resolve_snapshot rd r w = Some (Inl (SuChainBroken pid))"
proof
  have id: "rr_response_id p = pid" by (rule records_wf_id[OF ledger_wfD(1)[OF world_wfD(1)[OF wf]] p(1)])
  have page: "0 < cf_event_page (dp_cfg dp)" using cfg by (simp add: config_validate_ok_iff)
  have latest: "latest_response_object (cf_event_page (dp_cfg dp)) pid (w_log w) = Some (Inr None)"
    using latest_response_object_eq[OF world_wfD(3)[OF wf] short page] view by simp
  then show "resolve_context dp tenant (Previous pid) w = Some (Inr (rc_from_items (ts_input_items (rr_spec p)) 1))"
    using p id lim by (simp add: resolve_context_def previous_context_def ledger_get_def reconstruct_bare_def service_latest_def)
  have "event_read_after pid None EVENT_REPLAY_PAGE (w_log w) = Inl e" by (rule read_view_error[OF view])
  then show "rt_resolve_snapshot rd r w = Some (Inl (SuChainBroken pid))"
    using r p id by (simp add: rt_resolve_snapshot_def ledger_get_def rt_reconstruct_bare_def page_loop_error)
qed

section \<open>Examples\<close>

definition demo_rd :: runtime_deps where
  "demo_rd = \<lparr>rd_cfg = RuntimeConfig_default, rd_conversations = True, rd_uuid_fmt = (\<lambda>_. ''u'')\<rparr>"

definition demo_output :: terminal_output where
  "demo_output = \<lparr>to_produced = [assistant_text ''hello''], to_reasoning = [], to_usage = Usage_new 3 4, to_status = Completed\<rparr>"

text \<open>A running response that is a turn of the busy conversation.\<close>

definition demo_turn_record :: response_record where
  "demo_turn_record = demo_claimed_record\<lparr>rr_spec := demo_turn_spec\<rparr>"

definition demo_turn_store :: mem_store where
  "demo_turn_store = demo_running\<lparr>st_records := AList.update demo_rid demo_turn_record (st_records demo_running),
    st_conversations := st_conversations demo_busy,
    st_conversations_by_tenant := st_conversations_by_tenant demo_busy,
    st_conversation_events := st_conversation_events demo_busy, st_snapshots := st_snapshots demo_busy\<rparr>"

lemma demo_turn_record_fields [simp]:
  "rr_response_id demo_turn_record = demo_rid" "rr_tenant_id demo_turn_record = demo_tenant"
  "rr_attempt demo_turn_record = Attempt 1" "rr_status demo_turn_record = InProgress"
  "rr_conversation_id demo_turn_record = Some demo_cid" "is_stored demo_turn_record"
  by (simp_all add: demo_turn_record_def demo_claimed_record_def rr_conversation_id_def is_stored_def demo_turn_spec_def demo_spec_def)

lemma demo_turn_store_fields:
  "map_of (st_records demo_turn_store) demo_rid = Some demo_turn_record"
  "conv_guard_writable demo_turn_store = Inr ()" "owned demo_turn_store demo_tenant demo_cid = Some demo_turn"
  using demo_busy_fields(3)
  by (simp_all add: demo_turn_store_def conv_writable_iff owned_def demo_running_eq demo_queued_eq insert_record_def
      MemStore_new_def)

lemma demo_turn_world: "world_wf (world_at demo_turn_store demo_log1)"
proof -
  have "record_ok demo_turn_record"
    using ledger_wf_record_ok[OF demo_running_wf, of demo_rid demo_claimed_record]
    by (simp add: demo_running_fields demo_turn_record_def record_ok_def demo_claimed_record_def)
  then have "ledger_wf (demo_running\<lparr>st_records := AList.update demo_rid demo_turn_record (st_records demo_running)\<rparr>)"
    by (intro ledger_wf_change[OF demo_running_wf, of demo_rid demo_claimed_record demo_turn_record])
      (simp_all add: demo_running_fields, simp_all add: demo_turn_record_def demo_claimed_record_def)
  then have l: "ledger_wf demo_turn_store" by (simp add: demo_turn_store_def)
  have "conv_wf demo_turn_store = conv_wf demo_busy"
    by (rule conv_wf_cong) (simp_all add: demo_turn_store_def)
  with l demo_busy_wf demo_log_wf show ?thesis by (simp add: world_at_wf)
qed

theorem completion_settles_witness:
  "\<exists>w'. rt_complete demo_rd demo_turn_record (Attempt 1) demo_output 9 (world_at demo_turn_store demo_log1) = (ExCompleted, w') \<and>
    (\<exists>c'. owned (w_store w') demo_tenant demo_cid = Some c' \<and> cv_last_response_id c' = Some demo_rid)"
proof -
  obtain ex w' where eq: "rt_complete demo_rd demo_turn_record (Attempt 1) demo_output 9 (world_at demo_turn_store demo_log1) = (ex, w')"
    by fastforce
  have out: "is_terminal (to_status demo_output)" "rd_conversations demo_rd"
    by (simp_all add: demo_output_def demo_rd_def)
  show ?thesis
    using completion_settles[OF demo_turn_world _ _ _ _ out(1) _ _ out(2) _ _ _ eq, of demo_turn_record demo_cid demo_turn
        "push_event 2 demo_delta ResponseLog_new"] eq demo_turn_store_fields demo_log1_entry
    by (simp add: push_event_def evict_eq ResponseLog_new_def)
qed

theorem late_executor_is_inert_witness:
  "rt_complete demo_rd demo_turn_record (Attempt 7) demo_output 9 (world_at demo_turn_store demo_log1)
    = (ExFailed, world_at demo_turn_store demo_log1)"
  using late_executor_is_inert[of "world_at demo_turn_store demo_log1" demo_turn_record demo_turn_record "Attempt 7"]
  by (simp add: demo_turn_store_fields)

theorem probe_sees_the_cancel_witness:
  "\<exists>s'. ledger_cancel demo_tenant demo_rid 3000 demo_running = (Inr (), s') \<and>
    cancelled demo_rid (Attempt 1) [demo_running, s', s']"
proof -
  obtain s' where c: "ledger_cancel demo_tenant demo_rid 3000 demo_running = (Inr (), s')"
    by (simp add: ledger_cancel_def demo_running_fields demo_claimed_record_def)
  show ?thesis using probe_sees_the_cancel[OF c, of "Attempt 1" "[demo_running]" "[s']"] c by auto
qed

theorem lost_turn_leaves_stream_open_witness:
  "\<exists>w'. rt_complete demo_rd demo_turn_record (Attempt 1) demo_output 9
      (world_at (demo_turn_store\<lparr>st_conversations := []\<rparr>) demo_log1) = (ExFailed, w') \<and> w_log w' = demo_log1"
proof -
  have out: "is_terminal (to_status demo_output)" by (simp add: demo_output_def)
  show ?thesis
    using lost_turn_leaves_stream_open[of "world_at (demo_turn_store\<lparr>st_conversations := []\<rparr>) demo_log1" demo_turn_record
        demo_turn_record "Attempt 1" demo_output demo_cid demo_rd 9] demo_turn_store_fields out
    by (auto simp: owned_def conv_writable_iff)
qed

theorem expired_chain_divergence_witness:
  "resolve_context demo_deps demo_tenant (Previous demo_rid) (world_at demo_running demo_log)
      = Some (Inr (rc_from_items [user_text ''hi''] 1)) \<and>
    rt_resolve_snapshot demo_rd (demo_record\<lparr>rr_spec := demo_spec\<lparr>ts_anchor := Previous demo_rid\<rparr>\<rparr>)
      (world_at demo_running demo_log) = Some (Inl (SuChainBroken demo_rid))"
proof -
  let ?w = "world_at demo_running demo_log"
  have p: "map_of (st_records (w_store ?w)) demo_rid = Some demo_claimed_record"
      "is_referencable_by demo_claimed_record demo_tenant" "ts_anchor (rr_spec demo_claimed_record) = Root"
      "ts_input_items (rr_spec demo_claimed_record) = [user_text ''hi'']"
    by (simp_all add: demo_running_fields demo_claimed_record_def is_referencable_by_def is_stored_def demo_record_def
        ResponseRecord_queued_def demo_spec_def)
  have v: "log_view demo_rid (w_log ?w) = Inl EUnknown"
    by (simp add: log_view_def demo_log_def EventLog_with_capacity_def)
  have lim: "within_limits (cf_chain (dp_cfg demo_deps)) (rc_from_items (ts_input_items (rr_spec demo_claimed_record)) 1)
      = Inr (rc_from_items (ts_input_items (rr_spec demo_claimed_record)) 1)"
    by (simp add: p(4) within_limits_def demo_deps_def Config_for_node_def ChainLimits_default_def rc_from_items_def
        ResolvedContext_new_def rc_item_count_def rc_bytes_def ContextEntry_new_def user_text_def sat_add_def u64_max_def)
  show ?thesis
    using expired_chain_divergence[OF demo_running_world(1) p(1-3) _ demo_deps_valid v lim,
        of "demo_record\<lparr>rr_spec := demo_spec\<lparr>ts_anchor := Previous demo_rid\<rparr>\<rparr>" demo_rd] demo_logs_short p(4)
    by (simp add: logs_shortD)
qed

end
