(* ===== verification/System.thy ===== *)
theory System
  imports Runtime
begin

text \<open>
  The whole back end as a transition system.  A transition is one port call; any number of
  gateways, executors and sweepers run concurrently and their port calls interleave freely,
  which is what the mutexes of the store and of the log allow.  The append of an event is two
  transitions, because the fence and the write are two critical sections.

  The state carries, beside the world, the set of response ids ever minted: ids are random
  UUIDs and never come back, so a create only uses a new one.

  The use cases of \<open>Service\<close>, \<open>Sweep\<close> and \<open>Runtime\<close> are runs of this system, so what holds in every
  reachable state holds between any two of their steps.
\<close>

section \<open>Port calls\<close>

datatype port_call =
    PCreate codec "integrity option" response_record idempotency_key
  | PClaim agent_id nat nat
  | PHeartbeat agent_id nat
  | PComplete response_id attempt response_status usage nat
  | PCancel tenant_id response_id nat
  | PReap nat nat
  | PPartialUsage response_id attempt usage
  | PDelete response_id
  | PDeleteTenant tenant_id
  | PConvCreate conversation
  | PConvMetadata tenant_id conversation_id metadata
  | PConvDelete tenant_id conversation_id
  | PConvDeleteTenant tenant_id
  | PAppendTurn tenant_id conversation_id response_id turn_commit
  | PAdvance tenant_id conversation_id response_id
  | PAcquire tenant_id conversation_id response_id nat
  | PRelease tenant_id conversation_id response_id response_status nat
  | PReleaseStale tenant_id conversation_id response_id
  | PConvEvent tenant_id conversation_id conversation_event_kind nat
  | PWrite append_event
  | PClose response_id nat nat
  | PRemove response_id
  | PSweep nat
  | PReadOnly bool
  | PUnavailable bool
  | PClock
  | PIncr string nat

definition in_store :: "(mem_store \<Rightarrow> 'a \<times> mem_store) \<Rightarrow> world \<Rightarrow> world" where
  "in_store f w = snd (on_store f w)"

definition in_log :: "(event_log \<Rightarrow> 'a \<times> event_log) \<Rightarrow> world \<Rightarrow> world" where
  "in_log f w = snd (on_log f w)"

fun port_exec :: "port_call \<Rightarrow> world \<Rightarrow> world" where
  "port_exec (PCreate cx ig r key) = in_store (ledger_create cx ig r key)"
| "port_exec (PClaim a now ttl) = in_store (ledger_claim a now ttl)"
| "port_exec (PHeartbeat a now) = in_store (ledger_heartbeat a now)"
| "port_exec (PComplete rid att st u now) = in_store (ledger_complete rid att st u now)"
| "port_exec (PCancel t rid now) = in_store (ledger_cancel t rid now)"
| "port_exec (PReap now ttl) = in_store (ledger_reap now ttl)"
| "port_exec (PPartialUsage rid att u) = in_store (ledger_record_partial_usage rid att u)"
| "port_exec (PDelete rid) = in_store (ledger_delete rid)"
| "port_exec (PDeleteTenant t) = in_store (ledger_delete_by_tenant t)"
| "port_exec (PConvCreate c) = in_store (conv_create c)"
| "port_exec (PConvMetadata t cid m) = in_store (conv_update_metadata t cid m)"
| "port_exec (PConvDelete t cid) = in_store (conv_delete t cid)"
| "port_exec (PConvDeleteTenant t) = in_store (conv_delete_by_tenant t)"
| "port_exec (PAppendTurn t cid rid c) = in_store (append_turn t cid rid c)"
| "port_exec (PAdvance t cid rid) = in_store (conv_advance t cid rid)"
| "port_exec (PAcquire t cid rid now) = in_store (acquire_active t cid rid now)"
| "port_exec (PRelease t cid rid st now) = in_store (release_active t cid rid st now)"
| "port_exec (PReleaseStale t cid rid) = in_store (release_stale_active t cid rid)"
| "port_exec (PConvEvent t cid k now) = in_store (conv_append_event t cid k now)"
| "port_exec (PWrite e) = in_log (append_write e)"
| "port_exec (PClose rid now retain) = in_log (event_close rid now retain)"
| "port_exec (PRemove rid) = in_log (event_remove rid)"
| "port_exec (PSweep now) = in_log (event_sweep_expired now)"
| "port_exec (PReadOnly b) = (\<lambda>w. w\<lparr>w_store := set_read_only b (w_store w)\<rparr>)"
| "port_exec (PUnavailable b) = (\<lambda>w. w\<lparr>w_store := set_unavailable b (w_store w)\<rparr>)"
| "port_exec PClock = (\<lambda>w. w\<lparr>w_readings := w_readings w + 1\<rparr>)"
| "port_exec (PIncr a n) = incr a n"

text \<open>
  What callers keep to: a created row is a fresh queued one, a created conversation is new and
  idle, and the only events the capability layer appends to a conversation directly are business
  events and deletions, never turn boundaries.
\<close>

fun boundary :: "conversation_event_kind \<Rightarrow> bool" where
  "boundary (TurnStarted _) = True"
| "boundary (TurnCompleted _ _) = True"
| "boundary _ = False"

fun port_guard :: "port_call \<Rightarrow> world \<Rightarrow> response_id set \<Rightarrow> bool" where
  "port_guard (PCreate cx ig r key) w used = (record_ok r \<and> rr_status r = Queued \<and> rr_response_id r \<notin> used)"
| "port_guard (PConvCreate c) w used =
    (map_of (st_conversations (w_store w)) (cv_id c) = None \<and> cv_active_response_id c = None)"
| "port_guard (PConvEvent t cid k now) w used = (\<not> boundary k)"
| "port_guard _ w used = True"

fun mints :: "port_call \<Rightarrow> response_id set" where
  "mints (PCreate cx ig r key) = {rr_response_id r}"
| "mints _ = {}"

inductive port_step :: "world \<times> response_id set \<Rightarrow> world \<times> response_id set \<Rightarrow> bool" where
  port_step: "port_guard c w used \<Longrightarrow> port_step (w, used) (port_exec c w, used \<union> mints c)"

inductive_cases port_stepE: "port_step (w, used) x"

abbreviation port_run :: "world \<times> response_id set \<Rightarrow> world \<times> response_id set \<Rightarrow> bool" where
  "port_run \<equiv> port_step\<^sup>*\<^sup>*"

section \<open>Invariants of transition systems\<close>

locale transition_system =
  fixes step :: "'s \<Rightarrow> 's \<Rightarrow> bool"
    and init :: "'s \<Rightarrow> bool"
    and inv :: "'s \<Rightarrow> bool"
  assumes init_inv: "init s \<Longrightarrow> inv s"
    and step_inv: "inv s \<Longrightarrow> step s s' \<Longrightarrow> inv s'"
begin

lemma run_inv: "step\<^sup>*\<^sup>* s s' \<Longrightarrow> inv s \<Longrightarrow> inv s'"
  by (induction rule: rtranclp_induct) (auto intro: step_inv)

lemma reachable_inv: "init s \<Longrightarrow> step\<^sup>*\<^sup>* s s' \<Longrightarrow> inv s'"
  by (blast intro: run_inv init_inv)

text \<open>A relation between the ends of a run, from what one step gives.\<close>

lemma run_rel:
  assumes "step\<^sup>*\<^sup>* s s'" "inv s" "\<And>x. rel x x" "\<And>x y z. rel x y \<Longrightarrow> rel y z \<Longrightarrow> rel x z"
    and "\<And>x y. inv x \<Longrightarrow> step x y \<Longrightarrow> rel x y"
  shows "rel s s'"
  using assms(1)
proof (induction rule: rtranclp_induct)
  case (step y z)
  then show ?case using assms run_inv by blast
qed (rule assms(3))

end

definition sys_init :: "world \<times> response_id set \<Rightarrow> bool" where
  "sys_init x \<longleftrightarrow> (\<exists>n m. w_store (fst x) = MemStore_new \<and> w_log (fst x) = EventLog_with_capacity n m)"

definition sys_inv :: "world \<times> response_id set \<Rightarrow> bool" where
  "sys_inv x \<longleftrightarrow> world_wf (fst x) \<and> dom (map_of (st_records (w_store (fst x)))) \<subseteq> snd x"

section \<open>Every call keeps the world well formed\<close>

lemma in_store_fields [simp]:
  "w_store (in_store f w) = snd (f (w_store w))" "w_log (in_store f w) = w_log w"
  "w_log (in_log g w) = snd (g (w_log w))" "w_store (in_log g w) = w_store w"
  by (simp_all add: in_store_def in_log_def on_store_eq on_log_eq)

lemma in_store_wf:
  "world_wf w \<Longrightarrow> ledger_wf (snd (f (w_store w))) \<Longrightarrow> conv_wf (snd (f (w_store w))) \<Longrightarrow> world_wf (in_store f w)"
  "world_wf w \<Longrightarrow> event_log_wf (snd (g (w_log w))) \<Longrightarrow> world_wf (in_log g w)"
  by (simp_all add: world_wf_def)

lemma in_store_conv:
  assumes "world_wf w" "ledger_part (snd (f (w_store w))) = ledger_part (w_store w)" "conv_wf (snd (f (w_store w)))"
  shows "world_wf (in_store f w)"
  using assms ledger_part_D(1)[OF assms(2)] by (simp add: world_wf_def)

lemma in_store_ledger:
  assumes "world_wf w" "conv_part (snd (f (w_store w))) = conv_part (w_store w)" "ledger_wf (snd (f (w_store w)))"
  shows "world_wf (in_store f w)"
  using assms conv_part_D(1)[OF assms(2)] by (simp add: world_wf_def)

lemma port_exec_wf:
  assumes wf: "world_wf w" and g: "port_guard c w used" and u: "dom (map_of (st_records (w_store w))) \<subseteq> used"
  shows "world_wf (port_exec c w)"
proof -
  note L = world_wfD(1)[OF wf] and C = world_wfD(2)[OF wf] and E = world_wfD(3)[OF wf]
  show ?thesis
  proof (cases c)
    case (PCreate cx ig r key)
    then have "map_of (st_records (w_store w)) (rr_response_id r) = None" "record_ok r" using g u by auto
    then show ?thesis using PCreate by (simp add: in_store_ledger[OF wf] ledger_create_wf[OF L])
  next
    case (PConvEvent t cid k now)
    then have "conv_wf (snd (conv_append_event t cid k now (w_store w)))"
      using g by (intro conv_append_event_wf[OF C]) auto
    then show ?thesis using PConvEvent by (simp add: in_store_conv[OF wf])
  next
    case (PConvCreate c)
    then show ?thesis using g by (simp add: in_store_conv[OF wf] conv_create_wf[OF C])
  next
    case (PReadOnly b)
    then show ?thesis using wf by (simp add: set_read_only_def world_wf_def wf_intro)
  next
    case (PUnavailable b)
    then show ?thesis using wf by (simp add: set_unavailable_def world_wf_def wf_intro)
  next
    case PClock
    then show ?thesis using wf by (simp add: world_wf_def)
  next
    case (PIncr a n)
    then show ?thesis using wf by (simp add: world_wf_def)
  qed (use L C E in \<open>simp_all add: in_store_ledger[OF wf] in_store_conv[OF wf] in_store_wf(2)[OF wf] wf_intro append_write_wf\<close>)
qed


section \<open>What one call does to the rows\<close>

text \<open>
  Between two states of a run: no id is forgotten, and a row under an id that was known before has
  a row it comes from.  So a deleted row never comes back.
\<close>

definition sys_evolves :: "world \<times> response_id set \<Rightarrow> world \<times> response_id set \<Rightarrow> bool" where
  "sys_evolves x y \<longleftrightarrow> snd x \<subseteq> snd y \<and>
    (\<forall>rid\<in>snd x. \<forall>r'. map_of (st_records (w_store (fst y))) rid = Some r' \<longrightarrow>
      (\<exists>r. map_of (st_records (w_store (fst x))) rid = Some r \<and> record_evolves r r'))"

lemma sys_evolves_refl: "sys_evolves x x"
  by (auto simp: sys_evolves_def)

lemma sys_evolves_trans: "sys_evolves x y \<Longrightarrow> sys_evolves y z \<Longrightarrow> sys_evolves x z"
  unfolding sys_evolves_def by (meson record_evolves_trans subset_iff)

lemma sys_evolves_store:
  "store_evolves (w_store w) (w_store w') \<Longrightarrow> used \<subseteq> used' \<Longrightarrow> sys_evolves (w, used) (w', used')"
  by (auto simp: sys_evolves_def store_evolves_def)

lemma sys_evolvesD:
  assumes "sys_evolves (w, used) (w', used')" "rid \<in> used" "map_of (st_records (w_store w')) rid = Some r'"
  obtains r where "map_of (st_records (w_store w)) rid = Some r" "record_evolves r r'"
  using assms unfolding sys_evolves_def by fastforce

lemma ledger_create_other_rows:
  "rid \<noteq> rr_response_id r \<Longrightarrow>
    map_of (st_records (snd (ledger_create cx ig r key s))) rid = map_of (st_records s) rid"
  by (auto simp: ledger_create_def insert_record_def Let_def sign_same split: sum.split option.split)

lemma conv_call_evolves:
  assumes "ledger_part s' = ledger_part s"
  shows "store_evolves s s'"
  using ledger_part_D(2)[OF assms] by (rule store_evolves_same)

lemma port_exec_store_evolves:
  assumes "world_wf w" "mints c = {}"
  shows "store_evolves (w_store w) (w_store (port_exec c w))"
  using world_wfD(1)[OF assms(1)] assms(2)
  by (cases c) (simp_all add: conv_call_evolves store_evolves_same ledger_claim_evolves ledger_heartbeat_evolves
      ledger_complete_evolves ledger_cancel_evolves ledger_reap_evolves ledger_record_partial_usage_evolves
      ledger_delete_evolves ledger_delete_by_tenant_evolves set_read_only_def set_unavailable_def)

text \<open>A call leaves a row only under the id it mints or where an older row was.\<close>

lemma port_exec_rows:
  assumes "world_wf w" "map_of (st_records (w_store (port_exec c w))) rid = Some r'" "rid \<notin> mints c"
  shows "\<exists>r. map_of (st_records (w_store w)) rid = Some r \<and> record_evolves r r'"
proof (cases "mints c = {}")
  case True
  then show ?thesis using port_exec_store_evolves[OF assms(1)] assms(2) unfolding store_evolves_def by blast
next
  case False
  then obtain cx ig r key where c: "c = PCreate cx ig r key" by (cases c) auto
  then show ?thesis using assms(2,3) ledger_create_other_rows[of rid r cx ig key "w_store w"] by (auto intro: exI[of _ r'])
qed

lemma port_exec_evolves:
  assumes "world_wf w" "mints c \<inter> used = {}"
  shows "sys_evolves (w, used) (port_exec c w, used \<union> mints c)"
  using port_exec_rows[OF assms(1), of c] assms(2) by (fastforce simp: sys_evolves_def)

lemma port_guard_mints: "port_guard c w used \<Longrightarrow> mints c \<inter> used = {}"
  by (cases c) auto

section \<open>Reachable states\<close>

lemma sys_inv_step:
  assumes "sys_inv x" "port_step x y"
  shows "sys_inv y"
proof -
  obtain w used where x: "x = (w, used)" by (cases x)
  then obtain c where g: "port_guard c w used" and y: "y = (port_exec c w, used \<union> mints c)"
    using assms(2) by (auto elim: port_stepE)
  have inv: "world_wf w" "dom (map_of (st_records (w_store w))) \<subseteq> used"
    using assms(1) by (simp_all add: x sys_inv_def)
  have "rid \<in> used \<union> mints c" if "map_of (st_records (w_store (port_exec c w))) rid = Some r" for rid r
    using port_exec_rows[OF inv(1) that] inv(2) by auto
  then show ?thesis using port_exec_wf[OF inv(1) g inv(2)] by (auto simp: y sys_inv_def)
qed

lemma sys_inv_init: "sys_init x \<Longrightarrow> sys_inv x"
  by (auto simp: sys_init_def sys_inv_def world_wf_def event_log_wf_new) (simp add: MemStore_new_def)

interpretation sys: transition_system port_step sys_init sys_inv
  by unfold_locales (auto intro: sys_inv_init sys_inv_step)

lemma port_run_evolves: "port_run x y \<Longrightarrow> sys_inv x \<Longrightarrow> sys_evolves x y"
proof (rule sys.run_rel)
  fix x y assume "sys_inv x" "port_step x y"
  then show "sys_evolves x y"
    using port_exec_evolves port_guard_mints by (cases x) (auto simp: sys_inv_def elim!: port_stepE)
qed (auto intro: sys_evolves_refl sys_evolves_trans)

text \<open>C3: Whatever gateways, executors and sweepers do, and however their calls interleave, the store, its
  indexes, the conversations and the streams stay well formed.\<close>

theorem reachable_world_wf:
  assumes "sys_init x" "port_run x (w, used)"
  shows "world_wf w"
  using sys.reachable_inv[OF assms] by (simp add: sys_inv_def)

lemma record_evolves_fixed:
  "record_evolves r r' \<Longrightarrow> rr_response_id r' = rr_response_id r \<and> rr_tenant_id r' = rr_tenant_id r \<and>
    rr_spec r' = rr_spec r \<and> rr_attempt r \<le> rr_attempt r'"
  by (auto simp: record_evolves_def)

text \<open>C1: However port calls interleave, a response only moves forward.  Its owner, its turn and its
  identity are fixed, its attempt never decreases, a terminal row never changes again, and a deleted response
  never comes back.\<close>

theorem rows_only_move_forward:
  assumes "port_run (w, used) (w', used')" "sys_inv (w, used)" "rid \<in> used"
    and "map_of (st_records (w_store w')) rid = Some r'"
  shows "\<exists>r. map_of (st_records (w_store w)) rid = Some r \<and>
    rr_response_id r' = rr_response_id r \<and> rr_tenant_id r' = rr_tenant_id r \<and> rr_spec r' = rr_spec r \<and>
    rr_attempt r \<le> rr_attempt r' \<and> (is_terminal (rr_status r) \<longrightarrow> r' = r) \<and> (rr_status r' = Queued \<longrightarrow> r' = r)"
proof -
  obtain r where "map_of (st_records (w_store w)) rid = Some r" "record_evolves r r'"
    by (rule sys_evolvesD[OF port_run_evolves[OF assms(1,2)] assms(3,4)])
  then show ?thesis
    using record_evolves_terminal[of r r'] record_evolves_queued[of r r'] record_evolves_fixed[of r r'] by blast
qed

text \<open>C2: A fenced attempt stays fenced.  Once a response is terminal, or its attempt has moved past the one an
  executor holds, no later state of the system lets that executor append, complete or book usage again.\<close>

theorem fenced_forever:
  assumes "port_run (w, used) (w', used')" "sys_inv (w, used)"
    and "map_of (st_records (w_store w)) rid = Some r" "is_terminal (rr_status r) \<or> att < rr_attempt r"
  shows "check_attempt rid att (w_store w') \<noteq> Inr ()"
proof (cases "map_of (st_records (w_store w')) rid")
  case (Some r')
  have "rid \<in> used" using assms(2,3) by (auto simp: sys_inv_def)
  then obtain r0 where "map_of (st_records (w_store w)) rid = Some r0" "record_evolves r0 r'"
    by (rule sys_evolvesD[OF port_run_evolves[OF assms(1,2)] _ Some])
  then have "record_evolves r r'" using assms(3) by simp
  then show ?thesis
    using assms(4) record_evolves_terminal[of r r'] record_evolves_attempt[of r r'] Some
    by (cases "is_terminal (rr_status r)") (auto simp: check_attempt_def)
qed (simp add: check_attempt_def)


section \<open>The use cases are runs\<close>

definition runs_to :: "world \<Rightarrow> world \<Rightarrow> bool" where
  "runs_to w w' \<longleftrightarrow> (\<forall>used. port_run (w, used) (w', used))"

lemma runs_to_refl [simp, intro]: "runs_to w w"
  by (simp add: runs_to_def)

lemma runs_to_trans: "runs_to a b \<Longrightarrow> runs_to b c \<Longrightarrow> runs_to a c"
  unfolding runs_to_def by (meson rtranclp_trans)

lemma runs_to_call: "mints c = {} \<Longrightarrow> (\<And>used. port_guard c w used) \<Longrightarrow> runs_to w (port_exec c w)"
  using port_step.intros[of c w] by (auto simp: runs_to_def)

text \<open>A use case that does one more call.\<close>

lemma runs_to_store:
  "runs_to v w \<Longrightarrow> runs_to v (snd (on_store (ledger_cancel t rid now) w))"
  "runs_to v w \<Longrightarrow> runs_to v (snd (on_store (ledger_complete rid att st u now) w))"
  "runs_to v w \<Longrightarrow> runs_to v (snd (on_store (ledger_reap now ttl) w))"
  "runs_to v w \<Longrightarrow> runs_to v (snd (on_store (ledger_claim agent now ttl) w))"
  "runs_to v w \<Longrightarrow> runs_to v (snd (on_store (ledger_delete rid) w))"
  "runs_to v w \<Longrightarrow> runs_to v (snd (on_store (append_turn t cid rid tc) w))"
  "runs_to v w \<Longrightarrow> runs_to v (snd (on_store (conv_advance t cid rid) w))"
  "runs_to v w \<Longrightarrow> runs_to v (snd (on_store (acquire_active t cid rid now) w))"
  "runs_to v w \<Longrightarrow> runs_to v (snd (on_store (release_active t cid rid st now) w))"
  "runs_to v w \<Longrightarrow> runs_to v (snd (on_store (release_stale_active t cid rid) w))"
  "runs_to v w \<Longrightarrow> \<not> boundary k \<Longrightarrow> runs_to v (snd (on_store (conv_append_event t cid k now) w))"
  using runs_to_call[of "PCancel t rid now"] runs_to_call[of "PComplete rid att st u now"] runs_to_call[of "PReap now ttl"]
    runs_to_call[of "PClaim agent now ttl"] runs_to_call[of "PDelete rid"] runs_to_call[of "PAppendTurn t cid rid tc"]
    runs_to_call[of "PAdvance t cid rid"] runs_to_call[of "PAcquire t cid rid now"]
    runs_to_call[of "PRelease t cid rid st now"] runs_to_call[of "PReleaseStale t cid rid"]
    runs_to_call[of "PConvEvent t cid k now"]
  by (auto simp: in_store_def intro: runs_to_trans)

lemma runs_to_log:
  "runs_to v w \<Longrightarrow> runs_to v (snd (on_log (append_write e) w))"
  "runs_to v w \<Longrightarrow> runs_to v (snd (on_log (event_close rid now retain) w))"
  "runs_to v w \<Longrightarrow> runs_to v (snd (on_log (event_remove rid) w))"
  "runs_to v w \<Longrightarrow> runs_to v (snd (on_log (event_sweep_expired now) w))"
  "runs_to v w \<Longrightarrow> runs_to v (incr a n w)"
  "runs_to v w \<Longrightarrow> runs_to v (snd (clock_now w))"
  using runs_to_call[of "PWrite e"] runs_to_call[of "PClose rid now retain"] runs_to_call[of "PRemove rid"]
    runs_to_call[of "PSweep now"] runs_to_call[of "PIncr a n"] runs_to_call[of PClock]
  by (auto simp: in_log_def clock_now_def intro: runs_to_trans)

lemma runs_to_append: "runs_to v w \<Longrightarrow> runs_to v (snd (log_append e w))"
  using runs_to_log(1)[of v w e]
  by (cases "append_fence e (w_store w)") (simp_all add: log_append_def event_append_def on_log_eq)

lemma runs_to_conv:
  "runs_to v w \<Longrightarrow> runs_to v (snd (cs_release_active t cid rid st w))"
  "runs_to v w \<Longrightarrow> runs_to v (snd (cs_acquire_active t cid rid w))"
  "runs_to v w \<Longrightarrow> \<not> boundary k \<Longrightarrow> runs_to v (snd (cs_append_event t cid k w))"
  "runs_to v w \<Longrightarrow> runs_to v (snd (cs_release_stale_active t cid rid w))"
  by (simp_all add: cs_release_active_def cs_acquire_active_def cs_append_event_def cs_release_stale_active_def
      case_prod_unfold runs_to_store runs_to_log)

lemmas runs_to_intros = runs_to_store runs_to_log runs_to_append runs_to_conv

lemma runs_to_close_response: "runs_to v w \<Longrightarrow> runs_to v (close_response dp rid now obj w)"
  by (simp add: close_response_def runs_to_intros)

lemma runs_to_archive_turn:
  "archive_turn t cid rid input st w = Some w' \<Longrightarrow> runs_to v w \<Longrightarrow> runs_to v w'"
  by (cases "replay_completed_items rid (w_log w)" rule: option.exhaust[case_names None Some])
    (auto simp: archive_turn_def runs_to_intros split: sum.split_asm)

lemma runs_to_settle_claim: "settle_claim dp now claim w = Some w' \<Longrightarrow> runs_to v w \<Longrightarrow> runs_to v w'"
  using runs_to_archive_turn[of "ab_tenant_id claim" _ "ab_response_id claim" "ab_input_items claim" Failed _ _ v]
  by (auto simp: settle_claim_def Let_def runs_to_intros runs_to_close_response split: option.splits if_splits)

lemma runs_to_settle_claims: "settle_claims dp now claims w = Some w' \<Longrightarrow> runs_to v w \<Longrightarrow> runs_to v w'"
  by (induction dp now claims w rule: settle_claims.induct) (auto intro: runs_to_settle_claim split: option.splits)


lemma runs_to_tick:
  assumes "tick dp w = Some w'"
  shows "runs_to w w'"
proof -
  let ?now = "fst (clock_now w)"
  let ?r = "on_store (ledger_reap ?now (cf_heartbeat_ttl_ms (dp_cfg dp))) (snd (clock_now w))"
  have r: "runs_to w (snd ?r)" by (simp add: runs_to_intros)
  show ?thesis
  proof (cases "fst ?r")
    case (Inl e)
    then show ?thesis using assms r by (simp add: tick_def case_prod_unfold)
  next
    case (Inr aborted)
    then obtain w2 where w2: "settle_claims dp ?now aborted (snd ?r) = Some w2"
      and w': "w' = (case on_log (event_sweep_expired ?now) w2 of
               (Inr n, w3) \<Rightarrow> if n = 0 then w3 else incr ''event_logs_swept'' n w3
             | (Inl e, w3) \<Rightarrow> w3)"
      using assms by (auto simp: tick_def case_prod_unfold)
    have "runs_to w (snd (on_log (event_sweep_expired ?now) w2))"
      using runs_to_settle_claims[OF w2 r] by (simp add: runs_to_intros)
    then show ?thesis by (auto simp: w' case_prod_unfold runs_to_intros split: sum.split)
  qed
qed

lemma runs_to_cancel:
  assumes "service_cancel dp t rid w = Some (res, w')"
  shows "runs_to w w'"
proof -
  let ?c = "on_store (ledger_cancel t rid (fst (clock_now w))) (snd (clock_now w))"
  have c: "runs_to w (snd ?c)" by (simp add: runs_to_intros)
  show ?thesis
  proof (cases "fst ?c")
    case (Inl e)
    then show ?thesis using assms c by (simp add: service_cancel_def case_prod_unfold)
  next
    case (Inr u)
    then obtain rec obj w2 where w2: "archive_cancelled t rid rec (snd ?c) = Some w2"
      and w': "w' = incr ''responses_cancelled'' 1
        (close_response dp rid (fst (clock_now w)) obj (release_cancelled t rid rec w2))"
      using assms by (auto simp: service_cancel_def case_prod_unfold Let_def)
    have "runs_to w w2"
      using w2 c by (auto simp: archive_cancelled_def split: option.splits if_splits intro: runs_to_archive_turn)
    then show ?thesis
      by (simp add: w' release_cancelled_def runs_to_intros runs_to_close_response split: option.split)
  qed
qed

lemma runs_to_delete: "runs_to w (snd (service_delete t rid w))"
  by (auto simp: service_delete_def Let_def case_prod_unfold runs_to_intros split: sum.split option.split)

lemma runs_to_rt:
  "runs_to v w \<Longrightarrow> runs_to v (snd (rt_append_turn rd r produced reasoning u st w))"
  "runs_to v w \<Longrightarrow> runs_to v (rt_settle rd r st adv now w)"
  "runs_to v w \<Longrightarrow> runs_to v (rt_close_stream rd rid kind obj now w)"
  by (auto simp: rt_append_turn_def rt_settle_def rt_close_stream_def Let_def case_prod_unfold runs_to_intros
      split: sum.split option.split)

lemma runs_to_complete: "runs_to v w \<Longrightarrow> runs_to v (snd (rt_complete rd r att out now w))"
  by (auto simp: rt_complete_def store_output_def Let_def case_prod_unfold runs_to_intros runs_to_rt
      split: sum.split option.split)

lemma runs_to_fail: "runs_to v w \<Longrightarrow> runs_to v (snd (rt_fail rd r att u produced now w))"
  by (auto simp: rt_fail_def Let_def case_prod_unfold runs_to_intros runs_to_rt split: sum.split)


text \<open>A runner that reaches the world only through the ports, in particular through its sink.\<close>

definition port_runner :: "runner \<Rightarrow> bool" where
  "port_runner run \<longleftrightarrow> (\<forall>task sk w. runs_to w (snd (snd (run task sk w))))"

lemma runs_to_sink: "runs_to v w \<Longrightarrow> runs_to v (snd (snd (sink_step c sk w)))"
  using runs_to_append[of v w "call_event c sk"]
  by (cases "log_append (call_event c sk) w") (auto simp: sink_step_push sink_push_def simp del: sink_step.simps split: sum.split)

lemma runs_to_serve:
  assumes run: "port_runner run"
    and "serve rd run claimed now w = Some (ex, w')"
  shows "runs_to w w'"
proof -
  let ?r = "cl_record claimed"
  let ?w1 = "snd (log_append (lifecycle_with_attempt (rr_response_id ?r) EvInProgress (rr_attempt ?r)
                (ResponseObject_without_output (rd_uuid_fmt rd) ?r)) w)"
  have w1: "runs_to w ?w1" by (simp add: runs_to_intros)
  have run_w1: "runs_to w (snd (serve_run rd run ?r task now ?w1))" for task
    using run runs_to_trans[OF w1]
    by (auto simp: serve_run_def port_runner_def case_prod_unfold runs_to_fail runs_to_complete split: sum.split agent_error.split)
  have "runs_to w (snd (rt_fail rd ?r (rr_attempt ?r) Usage_default [] now ?w1))"
    using w1 by (rule runs_to_fail)
  note fail_w1 = this
  show ?thesis
  proof (cases "rt_resolve_snapshot rd ?r ?w1")
    case (Some ctx)
    then have "w' = snd (rt_fail rd ?r (rr_attempt ?r) Usage_default [] now ?w1) \<or>
        (\<exists>task. w' = snd (serve_run rd run ?r task now ?w1))"
      using assms(2) by (cases ctx) (auto simp: serve_def Let_def intro: exI[of _ _] dest!: arg_cong[of _ _ snd])
    then show ?thesis using fail_w1 run_w1 by blast
  qed (use assms(2) in \<open>simp add: serve_def Let_def\<close>)
qed

lemma runs_to_run_once:
  assumes run: "port_runner run"
    and "run_once rd run agent now w = Some (ex, w')"
  shows "runs_to w w'"
proof -
  let ?c = "on_store (ledger_claim agent now (ar_exec_ttl (rd_cfg rd))) w"
  have c: "runs_to w (snd ?c)" by (simp add: runs_to_intros)
  then show ?thesis
    using assms(2) runs_to_serve[OF run, where rd = rd and now = now and w = "snd ?c" and ex = ex and w' = w']
    by (auto simp: run_once_def case_prod_unfold intro: runs_to_trans split: sum.splits option.splits)
qed

lemma runs_to_acquire_turn: "runs_to v w \<Longrightarrow> runs_to v (snd (acquire_turn t cid rid w))"
  by (auto simp: acquire_turn_def case_prod_unfold runs_to_intros split: sum.split conversation_error.split)

text \<open>A create with a fresh id is a run too; it mints at most that id.\<close>

lemma admit_run:
  assumes "record_ok r" "rr_status r = Queued" "rr_response_id r \<notin> used"
  shows "port_run (w, used) (snd (admit dp r key w), insert (rr_response_id r) used)"
proof -
  let ?c = "on_store (ledger_create (dp_codec dp) (dp_integrity dp) r key) w"
  have "port_step (w, used) (snd ?c, insert (rr_response_id r) used)"
    using port_step.intros[of "PCreate (dp_codec dp) (dp_integrity dp) r key" w used] assms by (simp add: in_store_def)
  moreover have "runs_to (snd ?c) (snd (admit dp r key w))"
    by (auto simp: admit_def case_prod_unfold runs_to_intros split: sum.split create_outcome.split)
  ultimately show ?thesis unfolding runs_to_def by (meson converse_rtranclp_into_rtranclp)
qed


lemma admit_turn_run:
  assumes "rid \<notin> used"
  shows "port_run (w, used) (snd (admit_turn dp rid t spec key now w), insert rid used)"
proof -
  let ?key = "case key of Some k \<Rightarrow> k | None \<Rightarrow> IdempotencyKey_for_response (service_uuid_fmt dp) rid"
  let ?r = "ResponseRecord_queued rid t spec ?key now (cf_content_retention_ms (dp_cfg dp))"
  have r: "rr_response_id ?r = rid" "rr_status ?r = Queued" by (simp_all add: ResponseRecord_queued_def)
  have "port_run (w, used) (snd (admit dp ?r ?key w), insert rid used)"
    using admit_run[of ?r used w dp ?key] assms r by simp
  moreover have "runs_to (snd (admit dp ?r ?key w)) (snd (admit_turn dp rid t spec key now w))"
    by (auto simp: admit_turn_def Let_def case_prod_unfold release_after_failed_admission_def runs_to_intros split: option.split)
  ultimately show ?thesis unfolding runs_to_def by (meson rtranclp_trans)
qed

lemma create_run:
  assumes "ResponseId (cf_node_tag (dp_cfg dp)) fresh \<notin> used" "service_create dp fresh t spec key w = Some (res, w')"
  shows "\<exists>used'. port_run (w, used) (w', used')"
proof -
  let ?rid = "ResponseId (cf_node_tag (dp_cfg dp)) fresh"
  let ?w0 = "snd (clock_now w)" let ?now = "fst (clock_now w)"
  let ?w1 = "if ts_anchor spec = Root then ?w0 else incr ''chain_resolved'' 1 ?w0"
  have admitted: "\<exists>used'. port_run (w, used) (snd (admit_turn dp ?rid t spec key ?now v), used')" if "runs_to w v" for v
    using that admit_turn_run[OF assms(1)] unfolding runs_to_def by (meson rtranclp_trans)
  have reached: "\<exists>used'. port_run (w, used) (v, used')" if "runs_to w v" for v
    using that by (auto simp: runs_to_def)
  have w01: "runs_to w ?w0" "runs_to w ?w1" by (simp_all add: runs_to_intros)
  obtain ctx where ctx: "resolve_context dp t (ts_anchor spec) ?w0 = Some ctx"
    using assms(2) by (auto simp: service_create_def case_prod_unfold split: option.splits)
  show ?thesis
  proof (cases ctx)
    case (Inl e)
    then show ?thesis using assms(2) ctx reached[OF w01(1)] by (simp add: service_create_def case_prod_unfold)
  next
    case (Inr c)
    note eq = assms(2)[unfolded service_create_def case_prod_unfold ctx Inr Let_def, simplified]
    show ?thesis
    proof (cases "anchor_conversation_id (ts_anchor spec)")
      case None
      then show ?thesis using eq admitted[OF w01(2)] by (auto dest: arg_cong[of _ _ snd])
    next
      case (Some cid)
      then have "w' = snd (acquire_turn t cid ?rid ?w1) \<or>
          w' = snd (admit_turn dp ?rid t spec key ?now (snd (acquire_turn t cid ?rid ?w1)))"
        using eq by (cases "fst (acquire_turn t cid ?rid ?w1)") (auto dest: arg_cong[of _ _ snd])
      then show ?thesis using admitted reached runs_to_acquire_turn[OF w01(2)] by blast
    qed
  qed
qed


section \<open>Witnesses\<close>

lemma demo_init: "sys_init (world_at MemStore_new demo_log, {})"
  by (auto simp: sys_init_def world_at_def demo_log_def)

lemma world_at_store [simp]: "w_store_update (\<lambda>_. s') (world_at s g) = world_at s' g"
  by (simp add: world_at_def)

lemma demo_record_ok: "record_ok demo_record"
  by (simp add: demo_record_def)

lemma demo_born: "port_run (world_at MemStore_new demo_log, {}) (world_at demo_queued demo_log, {demo_rid})"
  using port_step.intros[of "PCreate demo_codec None demo_record demo_key" "world_at MemStore_new demo_log" "{}"]
  by (simp add: in_store_def on_store_eq demo_queued_def[symmetric] r_into_rtranclp demo_record_ok)

lemma demo_queued_inv: "sys_inv (world_at demo_queued demo_log, {demo_rid})"
  using demo_init demo_born by (rule sys.reachable_inv)

theorem reachable_world_wf_witness: "world_wf (world_at demo_queued demo_log)"
  using demo_init demo_born by (rule reachable_world_wf)

lemma demo_claim_run: "port_run (world_at demo_queued demo_log, {demo_rid}) (world_at demo_running demo_log, {demo_rid})"
  using port_step.intros[of "PClaim demo_agent 2000 30000" "world_at demo_queued demo_log" "{demo_rid}"]
  by (auto simp: in_store_def on_store_eq demo_running_def[symmetric])

theorem rows_only_move_forward_witness:
  "map_of (st_records demo_running) demo_rid = Some demo_claimed_record \<and> rr_attempt demo_record \<le> rr_attempt demo_claimed_record \<and>
    rr_spec demo_claimed_record = rr_spec demo_record"
  using rows_only_move_forward[OF demo_claim_run demo_queued_inv, of demo_rid demo_claimed_record]
  by (simp add: demo_running_fields demo_queued_fields)

theorem fenced_forever_witness:
  "check_attempt demo_rid UNCLAIMED (snd (ledger_cancel demo_tenant demo_rid 3000 demo_running)) \<noteq> Inr ()"
proof -
  have "port_run (world_at demo_running demo_log, {demo_rid})
      (world_at (snd (ledger_cancel demo_tenant demo_rid 3000 demo_running)) demo_log, {demo_rid})"
    using port_step.intros[of "PCancel demo_tenant demo_rid 3000" "world_at demo_running demo_log" "{demo_rid}"]
    by (auto simp: in_store_def on_store_eq)
  moreover have "sys_inv (world_at demo_running demo_log, {demo_rid})"
    using demo_claim_run demo_queued_inv by (rule sys.run_inv)
  moreover have "map_of (st_records (w_store (world_at demo_running demo_log))) demo_rid = Some demo_claimed_record"
    "UNCLAIMED < rr_attempt demo_claimed_record"
    by (simp_all add: demo_running_fields demo_claimed_record_def UNCLAIMED_def less_attempt_def)
  ultimately show ?thesis using fenced_forever[OF _ _ _ disjI2] by fastforce
qed

definition demo_runner :: runner where
  "demo_runner task sk w =
    (case sink_step (CallTextDelta ''hi'') sk w of (_, sk', w') \<Rightarrow>
      (Inr \<lparr>oc_items = [], oc_usage = Usage_default, oc_status = Completed\<rparr>, sk', w'))"


end
