(* ===== verification/Oracle.thy ===== *)
theory Oracle
  imports Event_Log Wire
begin

text \<open>
  The trace oracles of the verification harness (\<open>verify/harness/src/oracle.rs\<close>, \<open>trace.rs\<close>): a
  scenario records what happened as a list of events, and an oracle judges the whole list.

  Each \<open>judge\<close> is the loop of the source over hash maps; the theorems say which traces it passes.
  A failing verdict carries a text for a person (it depends on the iteration order of a hash map
  in places); the model keeps that it failed.
\<close>

section \<open>Traces (trace.rs)\<close>

datatype trace_event =
    ResponseCreated (created_id: string) (created_key: string) (created_outcome: string) (created_store: bool)
      (created_previous: "string option") nat
  | ResponseClaimed string uuid nat nat
  | EventAppended string "nat option" nat string nat
  | EventRead string "nat option" nat bool nat
  | EventAppendRejected string "nat option" string nat
  | ResponseTerminal string string nat
  | ChainResolved string nat nat nat nat
  | ChainRejected string string nat
  | ContentStored string bool nat
  | IntegrityChecked string bool nat
  | CapacityRejected string string nat
  | OrphanReclaimed string nat nat
  | PartialUsageRecorded string nat nat nat
  | DrainStarted string nat nat
  | ProtocolRejected string nat
  | ApiCall string string bool string nat
  | MockState string string nat
  | FaultInjected string string nat
  | ClockAt nat

type_synonym trace = "trace_event list"

section \<open>The oracles (oracle.rs)\<close>

datatype verdict = Pass | Fail

fun contiguous_loop :: "(string, nat) table \<Rightarrow> trace \<Rightarrow> verdict" where
  "contiguous_loop want_at [] = Pass"
| "contiguous_loop want_at (e # es) =
    (case e of
       EventAppended rid _ seq _ _ \<Rightarrow>
         (let want = (case map_of want_at rid of Some n \<Rightarrow> n | None \<Rightarrow> 0) in
          if seq \<noteq> want then Fail else contiguous_loop (AList.update rid (want + 1) want_at) es)
     | _ \<Rightarrow> contiguous_loop want_at es)"

definition judge_SequenceContiguous :: "trace \<Rightarrow> verdict" where
  "judge_SequenceContiguous t = contiguous_loop [] t"

fun count_wins :: "(string \<times> nat, nat) table \<Rightarrow> trace \<Rightarrow> (string \<times> nat, nat) table" where
  "count_wins wins [] = wins"
| "count_wins wins (e # es) =
    (case e of
       ResponseClaimed rid _ att _ \<Rightarrow>
         count_wins (AList.update (rid, att) ((case map_of wins (rid, att) of Some n \<Rightarrow> n | None \<Rightarrow> 0) + 1) wins) es
     | _ \<Rightarrow> count_wins wins es)"

definition judge_SingleClaimPerAttempt :: "trace \<Rightarrow> verdict" where
  "judge_SingleClaimPerAttempt t = (if list_ex (\<lambda>(_, n). n > 1) (count_wins [] t) then Fail else Pass)"

fun collect_terminal :: "string list \<Rightarrow> string list \<Rightarrow> trace \<Rightarrow> string list \<times> string list" where
  "collect_terminal created terminal [] = (created, terminal)"
| "collect_terminal created terminal (e # es) =
    (case e of
       ResponseCreated rid _ outcome _ _ _ \<Rightarrow>
         if outcome = ''accepted'' then collect_terminal (List.insert rid created) terminal es
         else collect_terminal created terminal es
     | ResponseTerminal rid _ _ \<Rightarrow> collect_terminal created (List.insert rid terminal) es
     | _ \<Rightarrow> collect_terminal created terminal es)"

definition judge_CreatedResponsesTerminal :: "trace \<Rightarrow> verdict" where
  "judge_CreatedResponsesTerminal t =
    (case collect_terminal [] [] t of (created, terminal) \<Rightarrow>
      if filter (\<lambda>r. r \<notin> set terminal) created = [] then Pass else Fail)"

fun judge_ExpiredIsExplicit :: "trace \<Rightarrow> verdict" where
  "judge_ExpiredIsExplicit [] = Pass"
| "judge_ExpiredIsExplicit (e # es) =
    (case e of
       EventRead _ _ n expired _ \<Rightarrow> if expired \<and> n > 0 then Fail else judge_ExpiredIsExplicit es
     | _ \<Rightarrow> judge_ExpiredIsExplicit es)"

fun stale_loop :: "(string, nat) table \<Rightarrow> trace \<Rightarrow> verdict" where
  "stale_loop highest [] = Pass"
| "stale_loop highest (e # es) =
    (case e of
       ResponseClaimed rid _ att _ \<Rightarrow>
         stale_loop (AList.update rid (max (case map_of highest rid of Some n \<Rightarrow> n | None \<Rightarrow> 0) att) highest) es
     | EventAppended rid (Some att) _ _ _ \<Rightarrow>
         (case map_of highest rid of
            Some current \<Rightarrow> if att < current then Fail else stale_loop highest es
          | None \<Rightarrow> stale_loop highest es)
     | _ \<Rightarrow> stale_loop highest es)"

definition judge_StaleAppendRejected :: "trace \<Rightarrow> verdict" where
  "judge_StaleAppendRejected t = stale_loop [] t"

fun collect_keys :: "(string, string list) table \<Rightarrow> trace \<Rightarrow> (string, string list) table" where
  "collect_keys by_key [] = by_key"
| "collect_keys by_key (e # es) =
    (case e of
       ResponseCreated rid key outcome _ _ _ \<Rightarrow>
         if key = [] \<or> outcome = ''overloaded'' \<or> outcome = ''read_only'' then collect_keys by_key es
         else collect_keys (AList.update key
           (List.insert rid (case map_of by_key key of Some ids \<Rightarrow> ids | None \<Rightarrow> [])) by_key) es
     | _ \<Rightarrow> collect_keys by_key es)"

definition judge_IdempotentSameResponse :: "trace \<Rightarrow> verdict" where
  "judge_IdempotentSameResponse t = (if list_ex (\<lambda>(_, ids). length ids > 1) (collect_keys [] t) then Fail else Pass)"

definition MAX_DEPTH :: nat where "MAX_DEPTH = 50"
definition MAX_BYTES :: nat where "MAX_BYTES = 1024 * 1024"

fun judge_ChainBounded :: "trace \<Rightarrow> verdict" where
  "judge_ChainBounded [] = Pass"
| "judge_ChainBounded (e # es) =
    (case e of
       ChainResolved _ depth _ bytes _ \<Rightarrow>
         if depth > MAX_DEPTH then Fail else if bytes > MAX_BYTES then Fail else judge_ChainBounded es
     | _ \<Rightarrow> judge_ChainBounded es)"

record storage_account =
  sa_wanted :: "string list"
  sa_confirmed :: "string list"
  sa_rejected :: bool

fun storage_loop :: "storage_account \<Rightarrow> trace \<Rightarrow> storage_account" where
  "storage_loop a [] = a"
| "storage_loop a (e # es) =
    (case e of
       ResponseCreated rid _ outcome store _ _ \<Rightarrow>
         if store \<and> outcome = ''accepted'' then storage_loop (a\<lparr>sa_wanted := List.insert rid (sa_wanted a)\<rparr>) es
         else storage_loop a es
     | ContentStored rid stored _ \<Rightarrow>
         if stored then storage_loop (a\<lparr>sa_confirmed := List.insert rid (sa_confirmed a)\<rparr>) es else storage_loop a es
     | ChainRejected _ _ _ \<Rightarrow> storage_loop (a\<lparr>sa_rejected := True\<rparr>) es
     | CapacityRejected _ _ _ \<Rightarrow> storage_loop (a\<lparr>sa_rejected := True\<rparr>) es
     | _ \<Rightarrow> storage_loop a es)"

definition judge_NoSilentContentLoss :: "trace \<Rightarrow> verdict" where
  "judge_NoSilentContentLoss t =
    (let a = storage_loop \<lparr>sa_wanted = [], sa_confirmed = [], sa_rejected = False\<rparr> t in
     if filter (\<lambda>r. r \<notin> set (sa_confirmed a)) (sa_wanted a) = [] \<or> sa_rejected a then Pass else Fail)"

fun judge_IntegrityVerified :: "trace \<Rightarrow> verdict" where
  "judge_IntegrityVerified [] = Pass"
| "judge_IntegrityVerified (e # es) =
    (case e of
       IntegrityChecked _ okay _ \<Rightarrow> if okay then judge_IntegrityVerified es else Fail
     | _ \<Rightarrow> judge_IntegrityVerified es)"

fun judge_UsageAccounted :: "trace \<Rightarrow> verdict" where
  "judge_UsageAccounted [] = Pass"
| "judge_UsageAccounted (e # es) =
    (case e of
       PartialUsageRecorded _ _ tokens _ \<Rightarrow> if tokens = 0 then Fail else judge_UsageAccounted es
     | _ \<Rightarrow> judge_UsageAccounted es)"

text \<open>
  The structural oracle: the items the executor emits are acceptable input and survive the input
  parser. The assertion it calls panics where the model says \<open>Fail\<close>; the text form between the two
  is the encoder's business, so the round trip is the one through the JSON value.
\<close>

definition emittable :: "response_item list" where
  "emittable = [assistant_text ''text'', FunctionCall ''call_1'' ''tool'' ''{}'' None None,
    FunctionCallOutput ''call_1'' ''result'' None None]"

definition judge_ChainClosure :: "trace \<Rightarrow> verdict" where
  "judge_ChainClosure t = (if list_all (\<lambda>it. is_acceptable_as_input it \<and> item_of_json (item_to_json it) \<noteq> None) emittable
     then Pass else Fail)"

section \<open>Relevant data\<close>

definition counts :: "trace \<Rightarrow> (trace_event \<Rightarrow> bool) \<Rightarrow> nat" where
  "counts t f = length (filter f t)"

datatype oracle_id =
    SequenceContiguous | SingleClaimPerAttempt | CreatedResponsesTerminal | ExpiredIsExplicit | StaleAppendRejected
  | IdempotentSameResponse | ChainBounded | NoSilentContentLoss | IntegrityVerified | UsageAccounted | ChainClosure

definition all_oracles :: "(string \<times> oracle_id) list" where
  "all_oracles = [(''SequenceContiguous'', SequenceContiguous), (''SingleClaimPerAttempt'', SingleClaimPerAttempt),
    (''CreatedResponsesTerminal'', CreatedResponsesTerminal), (''ExpiredIsExplicit'', ExpiredIsExplicit),
    (''StaleAppendRejected'', StaleAppendRejected), (''IdempotentSameResponse'', IdempotentSameResponse),
    (''ChainBounded'', ChainBounded), (''NoSilentContentLoss'', NoSilentContentLoss),
    (''IntegrityVerified'', IntegrityVerified), (''UsageAccounted'', UsageAccounted), (''ChainClosure'', ChainClosure)]"

definition builtin :: "string \<Rightarrow> oracle_id option" where
  "builtin name = map_of all_oracles name"

definition all_ids :: "string list" where
  "all_ids = map fst all_oracles"

fun judge :: "oracle_id \<Rightarrow> trace \<Rightarrow> verdict" where
  "judge SequenceContiguous = judge_SequenceContiguous"
| "judge SingleClaimPerAttempt = judge_SingleClaimPerAttempt"
| "judge CreatedResponsesTerminal = judge_CreatedResponsesTerminal"
| "judge ExpiredIsExplicit = judge_ExpiredIsExplicit"
| "judge StaleAppendRejected = judge_StaleAppendRejected"
| "judge IdempotentSameResponse = judge_IdempotentSameResponse"
| "judge ChainBounded = judge_ChainBounded"
| "judge NoSilentContentLoss = judge_NoSilentContentLoss"
| "judge IntegrityVerified = judge_IntegrityVerified"
| "judge UsageAccounted = judge_UsageAccounted"
| "judge ChainClosure = judge_ChainClosure"

fun is_appended :: "trace_event \<Rightarrow> bool" where
  "is_appended (EventAppended _ _ _ _ _) = True" | "is_appended _ = False"
fun is_append_rejected :: "trace_event \<Rightarrow> bool" where
  "is_append_rejected (EventAppendRejected _ _ _ _) = True" | "is_append_rejected _ = False"
fun is_claimed :: "trace_event \<Rightarrow> bool" where
  "is_claimed (ResponseClaimed _ _ _ _) = True" | "is_claimed _ = False"
fun is_created :: "trace_event \<Rightarrow> bool" where
  "is_created (ResponseCreated _ _ _ _ _ _) = True" | "is_created _ = False"
fun is_read :: "trace_event \<Rightarrow> bool" where
  "is_read (EventRead _ _ _ _ _) = True" | "is_read _ = False"
fun is_chain :: "trace_event \<Rightarrow> bool" where
  "is_chain (ChainResolved _ _ _ _ _) = True" | "is_chain (ChainRejected _ _ _) = True" | "is_chain _ = False"
fun is_integrity :: "trace_event \<Rightarrow> bool" where
  "is_integrity (IntegrityChecked _ _ _) = True" | "is_integrity _ = False"
fun is_usage :: "trace_event \<Rightarrow> bool" where
  "is_usage (PartialUsageRecorded _ _ _ _) = True" | "is_usage (ResponseTerminal _ _ _) = True" | "is_usage _ = False"

fun saw_relevant_data :: "oracle_id \<Rightarrow> trace \<Rightarrow> bool" where
  "saw_relevant_data SequenceContiguous t = (counts t is_appended > 0)"
| "saw_relevant_data SingleClaimPerAttempt t = (counts t is_claimed > 0)"
| "saw_relevant_data CreatedResponsesTerminal t = (counts t is_created > 0)"
| "saw_relevant_data ExpiredIsExplicit t = (counts t is_read > 0)"
| "saw_relevant_data StaleAppendRejected t = (counts t (\<lambda>e. is_appended e \<or> is_append_rejected e) > 0)"
| "saw_relevant_data IdempotentSameResponse t = (counts t (\<lambda>e. is_created e \<and> created_key e \<noteq> []) > 0)"
| "saw_relevant_data ChainBounded t = (counts t is_chain > 0)"
| "saw_relevant_data NoSilentContentLoss t = (counts t (\<lambda>e. is_created e \<and> created_store e) > 0)"
| "saw_relevant_data IntegrityVerified t = (counts t is_integrity > 0)"
| "saw_relevant_data UsageAccounted t = (counts t is_usage > 0)"
| "saw_relevant_data ChainClosure t = True"

datatype oracle_error = UnknownOracle string | NothingToJudge oracle_id | OracleFailed oracle_id

fun run_oracles :: "trace \<Rightarrow> string list \<Rightarrow> oracle_error + unit" where
  "run_oracles t [] = Inr ()"
| "run_oracles t (name # rest) =
    (case builtin name of
       None \<Rightarrow> Inl (UnknownOracle name)
     | Some o_id \<Rightarrow>
       if \<not> saw_relevant_data o_id t then Inl (NothingToJudge o_id)
       else (case judge o_id t of Pass \<Rightarrow> run_oracles t rest | Fail \<Rightarrow> Inl (OracleFailed o_id)))"


section \<open>What each oracle accepts\<close>

definition appended_seqs :: "string \<Rightarrow> trace \<Rightarrow> nat list" where
  "appended_seqs rid t =
    List.map_filter (\<lambda>e. case e of EventAppended r _ s _ _ \<Rightarrow> if r = rid then Some s else None | _ \<Rightarrow> None) t"

lemma appended_seqs_simps [simp]:
  "appended_seqs rid [] = []"
  "appended_seqs rid (e # es) =
    (case e of EventAppended r _ s _ _ \<Rightarrow> if r = rid then s # appended_seqs rid es else appended_seqs rid es
     | _ \<Rightarrow> appended_seqs rid es)"
  by (simp_all add: appended_seqs_def map_filter_simps split: trace_event.split)

lemma upt_Cons_iff: "s # xs = [n..<n + length (s # xs)] \<longleftrightarrow> s = n \<and> xs = [Suc n..<Suc n + length xs]"
proof -
  have "[n..<n + length (s # xs)] = n # [Suc n..<Suc n + length xs]" by (simp add: upt_conv_Cons del: upt_Suc)
  then show ?thesis by (simp del: upt_Suc)
qed

abbreviation wanted :: "(string, nat) table \<Rightarrow> string \<Rightarrow> nat" where
  "wanted tab rid \<equiv> (case map_of tab rid of Some n \<Rightarrow> n | None \<Rightarrow> 0)"

abbreviation contiguous_from :: "nat \<Rightarrow> nat list \<Rightarrow> bool" where
  "contiguous_from n xs \<equiv> xs = [n..<n + length xs]"

lemma contiguous_loop_iff:
  "contiguous_loop tab t = Pass \<longleftrightarrow> (\<forall>rid. contiguous_from (wanted tab rid) (appended_seqs rid t))"
proof (induction t arbitrary: tab)
  case (Cons e es)
  show ?case
  proof (cases "\<exists>r a s k ts. e = EventAppended r a s k ts")
    case True
    then obtain r a s k ts where e: "e = EventAppended r a s k ts" by blast
    let ?n = "wanted tab r"
    have here: "contiguous_from ?n (appended_seqs r (e # es)) \<longleftrightarrow> s = ?n \<and> contiguous_from (Suc ?n) (appended_seqs r es)"
      using upt_Cons_iff[of s "appended_seqs r es" ?n] by (simp add: e del: upt_Suc)
    have there: "appended_seqs rid (e # es) = appended_seqs rid es" if "rid \<noteq> r" for rid using that by (simp add: e)
    show ?thesis
    proof (cases "s = ?n")
      case True
      have "contiguous_loop (AList.update r (?n + 1) tab) es = Pass \<longleftrightarrow>
          (\<forall>rid. contiguous_from (wanted (AList.update r (?n + 1) tab) rid) (appended_seqs rid es))"
        by (rule Cons.IH)
      also have "\<dots> \<longleftrightarrow> (\<forall>rid. contiguous_from (wanted tab rid) (appended_seqs rid (e # es)))"
      proof -
        have "contiguous_from (wanted (AList.update r (?n + 1) tab) rid) (appended_seqs rid es) \<longleftrightarrow>
            contiguous_from (wanted tab rid) (appended_seqs rid (e # es))" for rid
        proof (cases "rid = r")
          case True
          then show ?thesis using here \<open>s = ?n\<close> by (simp del: upt_Suc appended_seqs_simps)
        next
          case False
          then show ?thesis using there[OF False] by (simp del: appended_seqs_simps)
        qed
        then show ?thesis by (simp only:)
      qed
      finally show ?thesis using True by (simp add: e Let_def)
    next
      case False
      then show ?thesis using here by (auto simp: e Let_def simp del: appended_seqs_simps upt_Suc)
    qed
  next
    case False
    then show ?thesis using Cons.IH by (cases e) (simp_all del: upt_Suc)
  qed
qed simp

definition claims_of :: "trace \<Rightarrow> (string \<times> nat) list" where
  "claims_of t = List.map_filter (\<lambda>e. case e of ResponseClaimed r _ a _ \<Rightarrow> Some (r, a) | _ \<Rightarrow> None) t"

lemma claims_of_simps [simp]:
  "claims_of [] = []"
  "claims_of (e # es) = (case e of ResponseClaimed r _ a _ \<Rightarrow> (r, a) # claims_of es | _ \<Rightarrow> claims_of es)"
  by (simp_all add: claims_of_def map_filter_simps split: trace_event.split)

lemma count_wins_lookup:
  "(case map_of (count_wins wins t) x of Some n \<Rightarrow> n | None \<Rightarrow> 0) =
    (case map_of wins x of Some n \<Rightarrow> n | None \<Rightarrow> 0) + count_list (claims_of t) x"
proof (induction t arbitrary: wins)
  case (Cons e es)
  then show ?case by (cases e) simp_all
qed simp

lemma count_wins_keys: "keys_distinct wins \<Longrightarrow> keys_distinct (count_wins wins t)"
  by (induction wins t rule: count_wins.induct) (auto split: trace_event.split)

lemma distinct_count_le_1: "distinct xs \<longleftrightarrow> (\<forall>x. count_list xs x \<le> 1)"
proof (induction xs)
  case (Cons a xs)
  have "(\<forall>x. count_list (a # xs) x \<le> 1) \<longleftrightarrow> count_list xs a = 0 \<and> (\<forall>x. x \<noteq> a \<longrightarrow> count_list xs x \<le> 1)"
    by (rule iffI; simp split: if_splits) blast
  also have "\<dots> \<longleftrightarrow> count_list xs a = 0 \<and> (\<forall>x. count_list xs x \<le> 1)" by (metis zero_le)
  finally show ?case using Cons by (simp add: count_list_0_iff)
qed simp

lemma single_claim_iff: "judge_SingleClaimPerAttempt t = Pass \<longleftrightarrow> distinct (claims_of t)"
proof -
  have kd: "keys_distinct (count_wins [] t)" by (rule count_wins_keys) simp
  have "judge_SingleClaimPerAttempt t = Fail \<longleftrightarrow> (\<exists>x n. map_of (count_wins [] t) x = Some n \<and> n > 1)"
    by (auto simp: judge_SingleClaimPerAttempt_def list_ex_iff map_of_in_set[OF kd, symmetric])
  also have "\<dots> \<longleftrightarrow> (\<exists>x. count_list (claims_of t) x > 1)"
  proof -
    have "(\<exists>n. map_of (count_wins [] t) x = Some n \<and> n > 1) \<longleftrightarrow> count_list (claims_of t) x > 1" for x
      using count_wins_lookup[of "[]" t x] by (cases "map_of (count_wins [] t) x") auto
    then show ?thesis by auto
  qed
  also have "\<dots> \<longleftrightarrow> \<not> distinct (claims_of t)"
    by (simp add: distinct_count_le_1 not_le)
  finally show ?thesis by (cases "judge_SingleClaimPerAttempt t") auto
qed


lemma collect_terminal_sets:
  "set (fst (collect_terminal c d t)) = set c \<union> {r. \<exists>k st p m. ResponseCreated r k ''accepted'' st p m \<in> set t}"
  "set (snd (collect_terminal c d t)) = set d \<union> {r. \<exists>st m. ResponseTerminal r st m \<in> set t}"
proof (induction t arbitrary: c d)
  case (Cons e es)
  {
    case 1
    show ?case using Cons by (cases e) auto
  next
    case 2
    show ?case using Cons by (cases e) auto
  }
qed simp_all

lemma created_terminal_iff:
  "judge_CreatedResponsesTerminal t = Pass \<longleftrightarrow>
    (\<forall>r k st p m. ResponseCreated r k ''accepted'' st p m \<in> set t \<longrightarrow> (\<exists>st m. ResponseTerminal r st m \<in> set t))"
  using collect_terminal_sets[of "[]" "[]" t]
  by (auto simp: judge_CreatedResponsesTerminal_def case_prod_unfold filter_empty_conv)

lemma expired_iff:
  "judge_ExpiredIsExplicit t = Pass \<longleftrightarrow> (\<forall>r c n m. EventRead r c n True m \<in> set t \<longrightarrow> n = 0)"
proof (induction t)
  case (Cons e es)
  then show ?case by (cases e) auto
qed simp

lemma chain_bounded_iff:
  "judge_ChainBounded t = Pass \<longleftrightarrow>
    (\<forall>x \<in> set t. case x of ChainResolved _ d _ b _ \<Rightarrow> d \<le> MAX_DEPTH \<and> b \<le> MAX_BYTES | _ \<Rightarrow> True)"
proof (induction t)
  case (Cons e es)
  then show ?case by (cases e) (simp_all add: not_less)
qed simp

lemma integrity_iff: "judge_IntegrityVerified t = Pass \<longleftrightarrow> (\<forall>r b m. IntegrityChecked r b m \<in> set t \<longrightarrow> b)"
proof (induction t)
  case (Cons e es)
  then show ?case by (cases e) auto
qed simp

lemma usage_iff: "judge_UsageAccounted t = Pass \<longleftrightarrow> (\<forall>r a n m. PartialUsageRecorded r a n m \<in> set t \<longrightarrow> 0 < n)"
proof (induction t)
  case (Cons e es)
  then show ?case by (cases e) auto
qed simp

text \<open>No append of an attempt below one that was claimed before it.\<close>

definition no_stale_append :: "trace \<Rightarrow> bool" where
  "no_stale_append t \<longleftrightarrow> (\<forall>i j r a s k m ag b m'. i < j \<and> j < length t \<and> t ! j = EventAppended r (Some a) s k m \<and>
    t ! i = ResponseClaimed r ag b m' \<longrightarrow> b \<le> a)"

definition appends :: "string \<Rightarrow> nat \<Rightarrow> trace \<Rightarrow> bool" where
  "appends r a t \<longleftrightarrow> (\<exists>s k m. EventAppended r (Some a) s k m \<in> set t)"

definition above :: "(string, nat) table \<Rightarrow> trace \<Rightarrow> bool" where
  "above tab t \<longleftrightarrow> (\<forall>r a b. appends r a t \<and> map_of tab r = Some b \<longrightarrow> b \<le> a)"

lemma no_stale_append_Cons:
  "no_stale_append (e # es) \<longleftrightarrow> no_stale_append es \<and>
    (\<forall>r ag b m' a s k m. e = ResponseClaimed r ag b m' \<and> EventAppended r (Some a) s k m \<in> set es \<longrightarrow> b \<le> a)"
proof
  assume n: "no_stale_append (e # es)"
  show "no_stale_append es \<and> (\<forall>r ag b m' a s k m. e = ResponseClaimed r ag b m' \<and> EventAppended r (Some a) s k m \<in> set es \<longrightarrow> b \<le> a)"
  proof (intro conjI allI impI)
    show "no_stale_append es" unfolding no_stale_append_def
    proof (intro allI impI)
      fix i j r a s k m ag b m'
      assume "i < j \<and> j < length es \<and> es ! j = EventAppended r (Some a) s k m \<and> es ! i = ResponseClaimed r ag b m'"
      then show "b \<le> a" using n[unfolded no_stale_append_def, rule_format, of "Suc i" "Suc j"] by auto
    qed
    fix r ag b m' a s k m
    assume e: "e = ResponseClaimed r ag b m' \<and> EventAppended r (Some a) s k m \<in> set es"
    then obtain j where "j < length es" "es ! j = EventAppended r (Some a) s k m" by (auto simp: in_set_conv_nth)
    then show "b \<le> a" using n[unfolded no_stale_append_def, rule_format, of 0 "Suc j"] e by auto
  qed
next
  assume a: "no_stale_append es \<and> (\<forall>r ag b m' a s k m. e = ResponseClaimed r ag b m' \<and> EventAppended r (Some a) s k m \<in> set es \<longrightarrow> b \<le> a)"
  show "no_stale_append (e # es)" unfolding no_stale_append_def
  proof (intro allI impI)
    fix i j r a' s k m ag b m'
    assume h: "i < j \<and> j < length (e # es) \<and> (e # es) ! j = EventAppended r (Some a') s k m \<and> (e # es) ! i = ResponseClaimed r ag b m'"
    then obtain j' where j: "j = Suc j'" by (cases j) auto
    show "b \<le> a'"
    proof (cases i)
      case 0
      then have "e = ResponseClaimed r ag b m'" "EventAppended r (Some a') s k m \<in> set es"
        using h j nth_mem[of j' es] by auto
      then show ?thesis using a by blast
    next
      case (Suc i')
      then show ?thesis
        using conjunct1[OF a, unfolded no_stale_append_def, rule_format, of i' j' r a' s k m ag b m'] h j by simp
    qed
  qed
qed

lemma no_stale_append_step:
  "no_stale_append (e # es) \<longleftrightarrow> no_stale_append es \<and>
    (case e of ResponseClaimed r _ b _ \<Rightarrow> (\<forall>a. appends r a es \<longrightarrow> b \<le> a) | _ \<Rightarrow> True)"
  unfolding no_stale_append_Cons appends_def by (cases e) (simp_all, blast?)

lemma appends_Cons:
  "appends r a (e # es) \<longleftrightarrow> (case e of EventAppended r' (Some a') _ _ _ \<Rightarrow> r' = r \<and> a' = a | _ \<Rightarrow> False) \<or> appends r a es"
  by (auto simp: appends_def split: trace_event.split option.split)

lemma above_update: "above (AList.update r n tab) t \<longleftrightarrow>
    (\<forall>a. appends r a t \<longrightarrow> n \<le> a) \<and> (\<forall>r' a b. r' \<noteq> r \<and> appends r' a t \<and> map_of tab r' = Some b \<longrightarrow> b \<le> a)"
  by (auto simp: above_def map_of_update fun_upd_def split: if_splits)

lemma above_split: "above tab t \<longleftrightarrow>
    (\<forall>a. appends r a t \<longrightarrow> wanted tab r \<le> a) \<and> (\<forall>r' a b. r' \<noteq> r \<and> appends r' a t \<and> map_of tab r' = Some b \<longrightarrow> b \<le> a)"
  unfolding above_def by (cases "map_of tab r") (simp_all, (metis option.inject option.distinct(1))+)

lemma above_claim:
  "above (AList.update r (max (wanted tab r) b) tab) es \<longleftrightarrow> above tab es \<and> (\<forall>a. appends r a es \<longrightarrow> b \<le> a)"
  unfolding above_update above_split[of tab es r] max.bounded_iff by blast

lemma stale_loop_iff: "stale_loop tab t = Pass \<longleftrightarrow> above tab t \<and> no_stale_append t"
proof (induction t arbitrary: tab)
  case Nil
  show ?case by (simp add: above_def appends_def no_stale_append_def)
next
  case (Cons e es)
  show ?case
  proof (cases e)
    case (ResponseClaimed r ag b m)
    have "above tab (e # es) = above tab es" by (simp add: above_def appends_Cons ResponseClaimed)
    moreover have "stale_loop tab (e # es) = stale_loop (AList.update r (max (wanted tab r) b) tab) es"
      by (simp add: ResponseClaimed)
    ultimately show ?thesis
      by (simp only: Cons.IH above_claim) (simp add: ResponseClaimed no_stale_append_step, blast)
  next
    case (EventAppended r oa s k m)
    have "above tab (e # es) \<longleftrightarrow> above tab es \<and> (\<forall>a b. oa = Some a \<and> map_of tab r = Some b \<longrightarrow> b \<le> a)"
      unfolding above_def appends_Cons EventAppended by (cases oa) (simp_all, blast)
    then show ?thesis
      using Cons.IH by (cases oa; cases "map_of tab r") (auto simp: EventAppended no_stale_append_step not_less)
  qed (use Cons.IH in \<open>simp_all add: above_def appends_Cons no_stale_append_step\<close>)
qed

text \<open>Idempotency: two creations that went through under one key name one response.\<close>

definition kept :: "string \<Rightarrow> bool" where
  "kept outcome \<longleftrightarrow> outcome \<noteq> ''overloaded'' \<and> outcome \<noteq> ''read_only''"

definition created_under :: "string \<Rightarrow> trace \<Rightarrow> string set" where
  "created_under key t = {r. \<exists>oc st p m. ResponseCreated r key oc st p m \<in> set t \<and> key \<noteq> [] \<and> kept oc}"

abbreviation ids_at :: "(string, string list) table \<Rightarrow> string \<Rightarrow> string list" where
  "ids_at tab key \<equiv> (case map_of tab key of Some ids \<Rightarrow> ids | None \<Rightarrow> [])"

lemma created_under_Cons:
  "created_under key (e # es) =
    (case e of ResponseCreated r k oc _ _ _ \<Rightarrow> if k = key \<and> k \<noteq> [] \<and> kept oc then {r} else {} | _ \<Rightarrow> {}) \<union> created_under key es"
  by (cases e) (auto simp: created_under_def)

lemma collect_keys_ids: "set (ids_at (collect_keys tab t) key) = set (ids_at tab key) \<union> created_under key t"
proof (induction t arbitrary: tab)
  case Nil
  show ?case by (simp add: created_under_def)
next
  case (Cons e es)
  show ?case
  proof (cases e)
    case (ResponseCreated r k oc st p m)
    show ?thesis
    proof (cases "k \<noteq> [] \<and> kept oc")
      case True
      then have "ids_at (collect_keys tab (e # es)) key =
          ids_at (collect_keys (AList.update k (List.insert r (ids_at tab k)) tab) es) key"
        by (simp add: ResponseCreated kept_def)
      then show ?thesis using True Cons.IH by (cases "k = key") (simp_all add: ResponseCreated created_under_Cons, blast)
    next
      case False
      then show ?thesis using Cons.IH by (auto simp: ResponseCreated created_under_Cons kept_def)
    qed
  qed (simp_all only: collect_keys.simps trace_event.case created_under_Cons Cons.IH Un_empty_left)
qed

lemma collect_keys_distinct:
  assumes "keys_distinct tab" "\<And>key. distinct (ids_at tab key)"
  shows "keys_distinct (collect_keys tab t) \<and> distinct (ids_at (collect_keys tab t) key)"
  using assms
proof (induction t arbitrary: tab)
  case (Cons e es)
  show ?case
  proof (cases e)
    case (ResponseCreated r k oc st p m)
    have "distinct (ids_at (AList.update k (List.insert r (ids_at tab k)) tab) x)" for x
      using Cons.prems(2)[of x] Cons.prems(2)[of k] by (cases "x = k") simp_all
    moreover have "keys_distinct (AList.update k (List.insert r (ids_at tab k)) tab)"
      using Cons.prems(1) by simp
    ultimately show ?thesis using Cons.IH Cons.prems by (simp add: ResponseCreated)
  qed (use Cons in simp_all)
qed simp

lemma distinct_at_most_one: "distinct xs \<Longrightarrow> length xs \<le> 1 \<longleftrightarrow> (\<forall>x \<in> set xs. \<forall>y \<in> set xs. x = y)"
  by (cases xs; cases "tl xs") auto

lemma idempotent_iff:
  "judge_IdempotentSameResponse t = Pass \<longleftrightarrow>
    (\<forall>key r r'. r \<in> created_under key t \<and> r' \<in> created_under key t \<longrightarrow> r = r')"
proof -
  let ?tab = "collect_keys [] t"
  have d: "keys_distinct ?tab" "\<And>key. distinct (ids_at ?tab key)" using collect_keys_distinct[of "[]" t] by simp_all
  have "judge_IdempotentSameResponse t = Pass \<longleftrightarrow> (\<forall>key ids. map_of ?tab key = Some ids \<longrightarrow> length ids \<le> 1)"
    by (force simp: judge_IdempotentSameResponse_def list_ex_iff map_of_in_set[OF d(1), symmetric] not_less)
  also have "\<dots> \<longleftrightarrow> (\<forall>key. length (ids_at ?tab key) \<le> 1)" by (auto split: option.split)
  also have "\<dots> \<longleftrightarrow> (\<forall>key. \<forall>x \<in> created_under key t. \<forall>y \<in> created_under key t. x = y)"
    using distinct_at_most_one[OF d(2)] collect_keys_ids[of "[]" t] by simp
  finally show ?thesis by blast
qed

text \<open>
  Content loss. The promise is per response; the oracle forgives every missing content as soon as
  one rejection occurs anywhere in the trace.
\<close>

definition wants_storage :: "string \<Rightarrow> trace \<Rightarrow> bool" where
  "wants_storage r t \<longleftrightarrow> (\<exists>k p m. ResponseCreated r k ''accepted'' True p m \<in> set t)"

fun is_rejection :: "trace_event \<Rightarrow> bool" where
  "is_rejection (ChainRejected _ _ _) = True" | "is_rejection (CapacityRejected _ _ _) = True" | "is_rejection _ = False"

definition has_rejection :: "trace \<Rightarrow> bool" where
  "has_rejection t = list_ex is_rejection t"

lemma storage_loop_sets:
  "set (sa_wanted (storage_loop a t)) = set (sa_wanted a) \<union> {r. wants_storage r t}"
  "set (sa_confirmed (storage_loop a t)) = set (sa_confirmed a) \<union> {r. \<exists>m. ContentStored r True m \<in> set t}"
  "sa_rejected (storage_loop a t) \<longleftrightarrow> sa_rejected a \<or> has_rejection t"
proof (induction t arbitrary: a)
  case (Cons e es)
  {
    case 1
    show ?case using Cons by (cases e) (auto simp: wants_storage_def)
  next
    case 2
    show ?case using Cons by (cases e) auto
  next
    case 3
    show ?case using Cons by (cases e) (auto simp: has_rejection_def)
  }
qed (simp_all add: wants_storage_def has_rejection_def)

lemma content_loss_iff:
  "judge_NoSilentContentLoss t = Pass \<longleftrightarrow>
    has_rejection t \<or> (\<forall>r. wants_storage r t \<longrightarrow> (\<exists>m. ContentStored r True m \<in> set t))"
  using storage_loop_sets[of "\<lparr>sa_wanted = [], sa_confirmed = [], sa_rejected = False\<rparr>" t]
  by (auto simp: judge_NoSilentContentLoss_def Let_def filter_empty_conv)

lemma closure_holds: "judge_ChainClosure t = Pass"
  by (simp add: judge_ChainClosure_def emittable_def assistant_text_def item_json_roundtrip)

section \<open>What a passing run means\<close>

text \<open>The promise behind each oracle, as a statement about the trace alone.\<close>

fun promise :: "oracle_id \<Rightarrow> trace \<Rightarrow> bool" where
  "promise SequenceContiguous t = (\<forall>r. appended_seqs r t = [0..<length (appended_seqs r t)])"
| "promise SingleClaimPerAttempt t = distinct (claims_of t)"
| "promise CreatedResponsesTerminal t =
    (\<forall>r k st p m. ResponseCreated r k ''accepted'' st p m \<in> set t \<longrightarrow> (\<exists>st m. ResponseTerminal r st m \<in> set t))"
| "promise ExpiredIsExplicit t = (\<forall>r c n m. EventRead r c n True m \<in> set t \<longrightarrow> n = 0)"
| "promise StaleAppendRejected t = no_stale_append t"
| "promise IdempotentSameResponse t =
    (\<forall>key r r'. r \<in> created_under key t \<and> r' \<in> created_under key t \<longrightarrow> r = r')"
| "promise ChainBounded t =
    (\<forall>x \<in> set t. case x of ChainResolved _ d _ b _ \<Rightarrow> d \<le> MAX_DEPTH \<and> b \<le> MAX_BYTES | _ \<Rightarrow> True)"
| "promise NoSilentContentLoss t =
    (has_rejection t \<or> (\<forall>r. wants_storage r t \<longrightarrow> (\<exists>m. ContentStored r True m \<in> set t)))"
| "promise IntegrityVerified t = (\<forall>r b m. IntegrityChecked r b m \<in> set t \<longrightarrow> b)"
| "promise UsageAccounted t = (\<forall>r a n m. PartialUsageRecorded r a n m \<in> set t \<longrightarrow> 0 < n)"
| "promise ChainClosure t = list_all is_acceptable_as_input emittable"

lemma judge_iff_promise: "judge oid t = Pass \<longleftrightarrow> promise oid t"
proof (cases oid)
  case SequenceContiguous
  then show ?thesis using contiguous_loop_iff[of "[]" t] by (simp add: judge_SequenceContiguous_def)
next
  case StaleAppendRejected
  then show ?thesis using stale_loop_iff[of "[]" t] by (simp add: judge_StaleAppendRejected_def above_def)
next
  case ChainClosure
  then show ?thesis by (simp add: closure_holds emittable_def assistant_text_def)
qed (simp_all only: judge.simps promise.simps single_claim_iff created_terminal_iff expired_iff idempotent_iff
  chain_bounded_iff content_loss_iff integrity_iff usage_iff)

text \<open>C40: 
  The harness accepts a trace for a list of declared oracles exactly when every declared name is
  known, had something to judge, and the trace keeps that oracle's promise: a misspelt or vacuous
  declaration is never a pass, and no promise is judged too strictly or too laxly by its loop.
\<close>
theorem oracles_decide:
  "run_oracles t names = Inr () \<longleftrightarrow>
    list_all (\<lambda>name. case builtin name of None \<Rightarrow> False | Some oid \<Rightarrow> saw_relevant_data oid t \<and> promise oid t) names"
proof (induction names)
  case (Cons name rest)
  show ?case
  proof (cases "builtin name")
    case (Some oid)
    then show ?thesis
      using Cons judge_iff_promise[of oid t] by (cases "judge oid t") auto
  qed simp
qed simp

text \<open>
  One capacity refusal anywhere in the trace silences the content-loss oracle: here a response was
  accepted with storage, its content was never confirmed, and the oracle passes because another
  request was turned away for capacity.
\<close>
theorem one_rejection_hides_a_loss:
  "run_oracles
     [ResponseCreated ''resp_a'' ''k'' ''accepted'' True None 0, CapacityRejected ''tenant'' ''queue'' 1]
     [''NoSilentContentLoss''] = Inr () \<and>
   run_oracles [ResponseCreated ''resp_a'' ''k'' ''accepted'' True None 0] [''NoSilentContentLoss''] =
     Inl (OracleFailed NoSilentContentLoss)"
  by (simp add: builtin_def all_oracles_def counts_def judge_NoSilentContentLoss_def)

end
