(* ===== verification/Scenario.thy ===== *)
theory Scenario
  imports System Oracle Ingress
begin

text \<open>
  The scenario runner of the verification harness (\<open>verify/harness/src/scenario.rs\<close>): a script of
  steps drives the ports directly, records a trace, and the oracles of \<open>Oracle\<close> judge it.

  \<open>exec\<close> is one step of the source's interpreter, on the context \<open>ctx\<close> and the trace. Two parts are
  parameters in \<open>harness\<close>: the decoder of request bodies with the text forms it needs, and the
  iteration order of the hash map of conversations. The UUID a step draws is its argument \<open>fresh\<close>, the
  \<open>i\<close>-th draw of the run for the \<open>i\<close>-th step.
  A step that never returns is \<open>None\<close>: only the archival replay has a loop, and that it returns is
  proved. A bail-out keeps which check failed, not its message.

  The theorems say what every script gets from the modelled back end, whatever it does: the
  safety oracles cannot fail.
\<close>

section \<open>Scripts (enum Step)\<close>

datatype step =
    CreateConversation string "string option"
  | CreateResponse string string bool "string option" "string option" "string option" "string option"
      "string option" "string option"
  | Claim "string option"
  | AppendDelta "string option" "nat option" bool bool
  | Complete bool "string option" nat nat
  | Cancel "string option" "string option"
  | Reap
  | ResumeStartingAfter "nat option" nat "nat option"
  | ExpectExpired "nat option"
  | CloseLog nat
  | SweepEventLogs nat
  | ResolveChain "string option" "string option" "nat option" "nat option" "string option" "string option"
  | ExpectChainError "string option" "string option" string
  | ExpectStored "string option" bool "nat option"
  | DeleteResponse "string option" bool
  | PurgeTenant "string option" nat
  | SweepExpiredContent "nat option"
  | SetExpiry "string option" nat
  | ExpectIntegrityOk "string option"
  | TamperContent "string option"
  | ExpectIntegrityMismatch "string option"
  | RecordPartialUsage nat nat
  | ExpectPartialUsage nat
  | ExpectProtocolReject string
  | ExpectProtocolAccept string
  | SetReadOnly bool
  | SetPendingLimit nat
  | SetStoreUnavailable bool
  | AdvanceMs nat

record scenario_file =
  sf_name :: string
  sf_covers :: "string list"
  sf_oracles :: "string list"
  sf_trace :: bool
  sf_steps :: "step list"

section \<open>The context (struct Ctx)\<close>

record harness =
  hn_codec :: codec
  hn_integrity :: "integrity option"
  hn_decode :: "string \<Rightarrow> create_response_request option"
  hn_url_parse :: "string \<Rightarrow> parsed_url option"
  hn_order :: "(string, conversation_id) table \<Rightarrow> nat"

definition hn_fmt :: "harness \<Rightarrow> uuid \<Rightarrow> string" where
  "hn_fmt hn = cx_uuid_fmt (hn_codec hn)"

definition shown :: "harness \<Rightarrow> response_id \<Rightarrow> string" where
  "shown hn rid = ResponseId_display (hn_fmt hn) rid"

record ctx =
  ct_world :: world
  ct_node_tag :: node_tag
  ct_now_ms :: nat
  ct_default_tenant :: tenant_id
  ct_labels :: "(string, response_id) table"
  ct_convs :: "(string, conversation_id) table"
  ct_last :: "response_id option"
  ct_last_attempt :: "attempt option"

datatype step_error =
    Bail string
  | LedgerFailed ledger_error
  | LogFailed event_log_error
  | ConvFailed conversation_error
  | BadId id_error

text \<open>\<open>MemWorld::new\<close>: an empty store with the default capacities.\<close>

definition MemWorld_new :: "(nat \<Rightarrow> nat) \<Rightarrow> world" where
  "MemWorld_new clock =
    \<lparr>w_store = set_max_events_per_conversation 100000 (set_max_records 100000 (set_pending_limit 10000 MemStore_new)),
     w_log = EventLog_with_capacity 20000 100000, w_clock = clock, w_readings = 0, w_metrics = []\<rparr>"

definition Ctx_new :: "(nat \<Rightarrow> nat) \<Rightarrow> ctx" where
  "Ctx_new clock =
    \<lparr>ct_world = MemWorld_new clock, ct_node_tag = NodeTag ''node-a'', ct_now_ms = 1000,
     ct_default_tenant = TenantId ''tenant-a'', ct_labels = [], ct_convs = [], ct_last = None, ct_last_attempt = None\<rparr>"

definition ctx_tenant :: "ctx \<Rightarrow> string option \<Rightarrow> step_error + tenant_id" where
  "ctx_tenant cx spec =
    (case spec of
       None \<Rightarrow> Inr (ct_default_tenant cx)
     | Some raw \<Rightarrow> (case TenantId_parse raw of Inl e \<Rightarrow> Inl (BadId e) | Inr t \<Rightarrow> Inr t))"

definition ctx_resolve :: "ctx \<Rightarrow> string option \<Rightarrow> step_error + response_id" where
  "ctx_resolve cx spec =
    (if spec = None \<or> spec = Some ''last''
     then (case ct_last cx of None \<Rightarrow> Inl (Bail ''no response created yet'') | Some rid \<Rightarrow> Inr rid)
     else (case map_of (ct_labels cx) (the spec) of None \<Rightarrow> Inl (Bail ''unknown label'') | Some rid \<Rightarrow> Inr rid))"

definition ctx_resolve_conv :: "harness \<Rightarrow> ctx \<Rightarrow> string option \<Rightarrow> step_error + conversation_id" where
  "ctx_resolve_conv hn cx spec =
    (if spec = None \<or> spec = Some ''last''
     then (if ct_convs cx = [] then Inl (Bail ''no conversation created yet'')
           else Inr (snd (ct_convs cx ! (hn_order hn (ct_convs cx) mod length (ct_convs cx)))))
     else (case map_of (ct_convs cx) (the spec) of
             None \<Rightarrow> Inl (Bail ''unknown conversation label'') | Some cid \<Rightarrow> Inr cid))"

section \<open>Steps\<close>

text \<open>The result of a step: it may not return, bail out, or leave a context and the events it recorded.\<close>

type_synonym 'a outcome = "(step_error + 'a) option"

definition bail :: "string \<Rightarrow> 'a outcome" where
  "bail why = Some (Inl (Bail why))"

definition attempt_in :: "('e \<Rightarrow> step_error) \<Rightarrow> 'e + 'a \<Rightarrow> ('a \<Rightarrow> 'b outcome) \<Rightarrow> 'b outcome" where
  "attempt_in f r k = (case r of Inl e \<Rightarrow> Some (Inl (f e)) | Inr x \<Rightarrow> k x)"

definition and_then :: "'a outcome \<Rightarrow> ('a \<Rightarrow> 'b outcome) \<Rightarrow> 'b outcome" where
  "and_then r k = (case r of None \<Rightarrow> None | Some (Inl e) \<Rightarrow> Some (Inl e) | Some (Inr x) \<Rightarrow> k x)"

abbreviation ok_step :: "ctx \<Rightarrow> trace \<Rightarrow> (ctx \<times> trace) outcome" where
  "ok_step cx t \<equiv> Some (Inr (cx, t))"

text \<open>A port call of the step: the result, and the context with the world it leaves.\<close>

definition via_store :: "(mem_store \<Rightarrow> 'a \<times> mem_store) \<Rightarrow> ctx \<Rightarrow> 'a \<times> ctx" where
  "via_store f cx = (case on_store f (ct_world cx) of (a, w) \<Rightarrow> (a, cx\<lparr>ct_world := w\<rparr>))"

definition via_log :: "(event_log \<Rightarrow> 'a \<times> event_log) \<Rightarrow> ctx \<Rightarrow> 'a \<times> ctx" where
  "via_log f cx = (case on_log f (ct_world cx) of (a, w) \<Rightarrow> (a, cx\<lparr>ct_world := w\<rparr>))"

definition via_append :: "append_event \<Rightarrow> ctx \<Rightarrow> (event_log_error + nat) \<times> ctx" where
  "via_append e cx = (case log_append e (ct_world cx) of (a, w) \<Rightarrow> (a, cx\<lparr>ct_world := w\<rparr>))"

definition appended :: "harness \<Rightarrow> append_event \<Rightarrow> nat \<Rightarrow> ctx \<Rightarrow> trace_event" where
  "appended hn e seq cx =
    EventAppended (shown hn (ae_response_id e)) (map_option at_no (ae_attempt e)) seq (kind_as_str (ae_kind e)) (ct_now_ms cx)"

definition exec_create_conversation ::
  "harness \<Rightarrow> uuid \<Rightarrow> string \<Rightarrow> string option \<Rightarrow> ctx \<Rightarrow> (ctx \<times> trace) outcome" where
  "exec_create_conversation hn fresh label tenant cx =
    attempt_in id (ctx_tenant cx tenant) (\<lambda>t.
      case via_store (conv_create (Conversation_new (ConversationId fresh) t [] (ct_now_ms cx))) cx of
        (res, cx1) \<Rightarrow>
          attempt_in ConvFailed res (\<lambda>c.
            ok_step (cx1\<lparr>ct_convs := AList.update label (cv_id c) (ct_convs cx1)\<rparr>)
              [MockState ''conversation'' (''created='' @ ConversationId_display (hn_fmt hn) (cv_id c)) (ct_now_ms cx)]))"

text \<open>The anchor of a new response: a conversation or a previous response, not both.\<close>

definition step_anchor ::
  "harness \<Rightarrow> ctx \<Rightarrow> string option \<Rightarrow> string option \<Rightarrow> step_error + response_id option \<times> context_anchor" where
  "step_anchor hn cx previous conversation =
    (case (case previous of None \<Rightarrow> Inr None | Some p \<Rightarrow> map_sum id Some (ctx_resolve cx (Some p))) of
       Inl e \<Rightarrow> Inl e
     | Inr prev \<Rightarrow>
       (case (case conversation of None \<Rightarrow> Inr None | Some c \<Rightarrow> map_sum id Some (ctx_resolve_conv hn cx (Some c))) of
          Inl e \<Rightarrow> Inl e
        | Inr conv \<Rightarrow>
          (case (conv, prev) of
             (Some cid, None) \<Rightarrow> Inr (prev, AnchorConversation cid)
           | (None, Some p) \<Rightarrow> Inr (prev, Previous p)
           | (None, None) \<Rightarrow> Inr (prev, Root)
           | (Some _, Some _) \<Rightarrow> Inl (Bail ''a conversation or a previous response, not both''))))"

definition queued_record ::
  "response_id \<Rightarrow> tenant_id \<Rightarrow> string \<Rightarrow> bool \<Rightarrow> string option \<Rightarrow> context_anchor \<Rightarrow> idempotency_key \<Rightarrow> nat \<Rightarrow> response_record" where
  "queued_record rid t input store instructions anchor key now_ms =
    ResponseRecord_queued rid t
      \<lparr>ts_params = (ModelParams_new ''test-model'')\<lparr>mp_instructions := instructions\<rparr>,
       ts_input_items = [user_text input], ts_store = store, ts_anchor = anchor\<rparr> key now_ms 0"

fun outcome_label :: "response_id \<Rightarrow> create_outcome \<Rightarrow> response_id \<times> string" where
  "outcome_label rid (Accepted r) = (rr_response_id r, ''accepted'')"
| "outcome_label rid (Duplicate r) = (rr_response_id r, ''duplicate'')"
| "outcome_label rid OutcomeReadOnly = (rid, ''read_only'')"
| "outcome_label rid Overloaded = (rid, ''overloaded'')"

definition remember :: "string option \<Rightarrow> response_id \<Rightarrow> ctx \<Rightarrow> ctx" where
  "remember label rid cx =
    (case label of None \<Rightarrow> cx | Some l \<Rightarrow> cx\<lparr>ct_labels := AList.update l rid (ct_labels cx)\<rparr>)\<lparr>ct_last := Some rid\<rparr>"

text \<open>What a create records: the outcome, the content, and the first event of an accepted response.\<close>

definition record_created ::
  "harness \<Rightarrow> string \<Rightarrow> bool \<Rightarrow> response_id option \<Rightarrow> string option \<Rightarrow> response_id \<Rightarrow> string \<Rightarrow> ctx \<Rightarrow> (ctx \<times> trace) outcome" where
  "record_created hn key store prev label resulting label_str cx =
    (let created = ResponseCreated (shown hn resulting) key label_str store (map_option (shown hn) prev) (ct_now_ms cx);
         stored = (if store \<and> label_str = ''accepted'' then [ContentStored (shown hn resulting) True (ct_now_ms cx)] else []) in
     if label_str = ''accepted''
     then (let e = lifecycle resulting EvCreated (ResponseObject_terminal_stub (hn_fmt hn) resulting Queued) in
           case via_append e cx of
             (seq, cx2) \<Rightarrow>
               attempt_in LogFailed seq (\<lambda>n.
                 ok_step (remember label resulting cx2) (created # stored @ [appended hn e n cx])))
     else ok_step (remember label resulting cx) (created # stored))"

definition exec_create_response ::
  "harness \<Rightarrow> uuid \<Rightarrow> string \<Rightarrow> string \<Rightarrow> bool \<Rightarrow> string option \<Rightarrow> string option \<Rightarrow> string option \<Rightarrow> string option
    \<Rightarrow> string option \<Rightarrow> string option \<Rightarrow> ctx \<Rightarrow> (ctx \<times> trace) outcome" where
  "exec_create_response hn fresh input key store previous tenant instructions label conversation expected cx =
    attempt_in id (ctx_tenant cx tenant) (\<lambda>t.
    attempt_in id (step_anchor hn cx previous conversation) (\<lambda>(prev, anchor).
    attempt_in BadId (IdempotencyKey_parse key) (\<lambda>k.
      let rid = ResponseId (ct_node_tag cx) fresh;
          r = queued_record rid t input store instructions anchor k (ct_now_ms cx) in
      case via_store (ledger_create (hn_codec hn) (hn_integrity hn) r k) cx of
        (res, cx1) \<Rightarrow>
          attempt_in LedgerFailed res (\<lambda>outcome.
            case outcome_label rid outcome of
              (resulting, label_str) \<Rightarrow>
                if (case expected of Some want \<Rightarrow> want | None \<Rightarrow> ''accepted'') \<noteq> label_str then bail ''create outcome''
                else record_created hn key store prev label resulting label_str cx1))))"

definition exec_claim :: "harness \<Rightarrow> uuid \<Rightarrow> string option \<Rightarrow> ctx \<Rightarrow> (ctx \<times> trace) outcome" where
  "exec_claim hn fresh expected cx =
    (case via_store (ledger_claim (AgentId fresh) (ct_now_ms cx) 60000) cx of
       (res, cx1) \<Rightarrow>
         attempt_in LedgerFailed res (\<lambda>claimed.
           let want = (case expected of Some w \<Rightarrow> w | None \<Rightarrow> ''some'') in
           if want = ''none'' then (if claimed = None then ok_step cx1 [] else bail ''expected nothing claimable'')
           else if want = ''some''
           then (case claimed of
                   None \<Rightarrow> bail ''expected a claimable response''
                 | Some c \<Rightarrow>
                   (let rid = rr_response_id (cl_record c); att = rr_attempt (cl_record c);
                        e = lifecycle_with_attempt rid EvInProgress att (ResponseObject_terminal_stub (hn_fmt hn) rid InProgress) in
                    case via_append e cx1 of
                      (seq, cx2) \<Rightarrow>
                        attempt_in LogFailed seq (\<lambda>n.
                          ok_step (cx2\<lparr>ct_last := Some rid, ct_last_attempt := Some att\<rparr>)
                            [ResponseClaimed (shown hn rid) fresh (at_no att) (ct_now_ms cx), appended hn e n cx])))
           else bail ''unknown claim expectation''))"

text \<open>
  The announcement of an open item is recorded with the sequence number 0, whatever number the log
  gave it.
\<close>

definition exec_append_delta ::
  "harness \<Rightarrow> string option \<Rightarrow> nat option \<Rightarrow> bool \<Rightarrow> bool \<Rightarrow> ctx \<Rightarrow> (ctx \<times> trace) outcome" where
  "exec_append_delta hn payload att open_item expect_stale cx =
    attempt_in id (ctx_resolve cx None) (\<lambda>rid.
      let a = (case att of Some n \<Rightarrow> Attempt n | None \<Rightarrow> (case ct_last_attempt cx of Some x \<Rightarrow> x | None \<Rightarrow> Attempt 1));
          e0 = item_event rid a False 0 (Message Assistant [] (Some ''m0'') (Some ItemInProgress));
          e1 = text_delta rid a [] 0 0 (case payload of Some p \<Rightarrow> p | None \<Rightarrow> ''delta'') in
      attempt_in LogFailed (if open_item then (case via_append e0 cx of (Inl err, _) \<Rightarrow> Inl err | (Inr _, cx1) \<Rightarrow> Inr (cx1, [appended hn e0 0 cx]))
                            else Inr (cx, [])) (\<lambda>(cx1, t1).
        case via_append e1 cx1 of
          (res, cx2) \<Rightarrow>
            if expect_stale
            then (if res = Inl EStaleAttempt
                  then ok_step cx2 (t1 @ [EventAppendRejected (shown hn rid) (Some (at_no a)) ''stale_attempt'' (ct_now_ms cx)])
                  else bail ''expected stale attempt rejection'')
            else attempt_in LogFailed res (\<lambda>n. ok_step cx2 (t1 @ [appended hn e1 n cx]))))"

text \<open>The archival stand-ins (\<open>replay_completed_items\<close>, \<open>archive_incomplete_turn\<close>, \<open>settle_session\<close>).\<close>

definition sc_replay ::
  "response_id \<Rightarrow> event_log \<Rightarrow> (event_log_error + response_item list) option" where
  "sc_replay rid g =
    map_option (\<lambda>r. case r of Inl (e, _) \<Rightarrow> Inl e | Inr p \<Rightarrow> Inr (replay_finish p))
      (page_loop (\<lambda>c. event_read_after rid c 256 g) re_sequence_number (\<lambda>_. False) replay_event None replay_start)"

definition archive_incomplete_turn ::
  "tenant_id \<Rightarrow> conversation_id \<Rightarrow> response_id \<Rightarrow> response_item list \<Rightarrow> response_status \<Rightarrow> ctx \<Rightarrow> ctx outcome" where
  "archive_incomplete_turn t cid rid input st cx =
    (case sc_replay rid (w_log (ct_world cx)) of
       None \<Rightarrow> None
     | Some res \<Rightarrow>
       attempt_in LogFailed res (\<lambda>output.
         case via_store (append_turn t cid rid
             \<lparr>tc_input_items = input, tc_output_items = output, tc_reasoning = None, tc_usage = Usage_default, tc_status = st\<rparr>) cx of
           (committed, cx1) \<Rightarrow> attempt_in ConvFailed committed (\<lambda>_. Some (Inr cx1))))"

definition release_session ::
  "tenant_id \<Rightarrow> conversation_id option \<Rightarrow> response_id \<Rightarrow> response_status \<Rightarrow> ctx \<Rightarrow> ctx outcome" where
  "release_session t conv rid st cx =
    (case conv of
       None \<Rightarrow> Some (Inr cx)
     | Some cid \<Rightarrow>
       (case via_store (release_active t cid rid st (ct_now_ms cx)) cx of
          (res, cx1) \<Rightarrow> attempt_in ConvFailed res (\<lambda>_. Some (Inr cx1))))"

definition advance_tail :: "response_record \<Rightarrow> response_status \<Rightarrow> ctx \<Rightarrow> ctx outcome" where
  "advance_tail r st cx =
    (case rr_conversation_id r of
       Some cid \<Rightarrow>
         if st = Completed \<or> st = Incomplete
         then (case via_store (conv_advance (rr_tenant_id r) cid (rr_response_id r)) cx of
                 (res, cx1) \<Rightarrow> attempt_in ConvFailed res (\<lambda>_. Some (Inr cx1)))
         else Some (Inr cx)
     | None \<Rightarrow> Some (Inr cx))"

definition archive_unfinished :: "response_record \<Rightarrow> response_status \<Rightarrow> ctx \<Rightarrow> ctx outcome" where
  "archive_unfinished r st cx =
    (case rr_conversation_id r of
       Some cid \<Rightarrow>
         if (st = Failed \<or> st = Cancelled) \<and> is_stored r
         then archive_incomplete_turn (rr_tenant_id r) cid (rr_response_id r) (ts_input_items (rr_spec r)) st cx
         else Some (Inr cx)
     | None \<Rightarrow> Some (Inr cx))"

definition settle_session :: "response_record \<Rightarrow> response_status \<Rightarrow> ctx \<Rightarrow> ctx outcome" where
  "settle_session r st cx =
    and_then (advance_tail r st cx) (\<lambda>cx1.
    and_then (archive_unfinished r st cx1)
      (release_session (rr_tenant_id r) (rr_conversation_id r) (rr_response_id r) st))"

definition commit_turn :: "response_id \<Rightarrow> response_record \<Rightarrow> string option \<Rightarrow> usage \<Rightarrow> response_status \<Rightarrow> ctx \<Rightarrow> ctx outcome" where
  "commit_turn rid r output_text usage st cx =
    (case rr_conversation_id r of
       Some cid \<Rightarrow>
         if is_stored r
         then (case via_store (append_turn (rr_tenant_id r) cid rid
                   \<lparr>tc_input_items = ts_input_items (rr_spec r),
                    tc_output_items = [assistant_text (case output_text of Some x \<Rightarrow> x | None \<Rightarrow> ''answer'')],
                    tc_reasoning = None, tc_usage = usage, tc_status = st\<rparr>) cx of
                 (res, cx1) \<Rightarrow> attempt_in ConvFailed res (\<lambda>_. Some (Inr cx1)))
         else Some (Inr cx)
     | None \<Rightarrow> Some (Inr cx))"

definition exec_complete ::
  "harness \<Rightarrow> bool \<Rightarrow> string option \<Rightarrow> nat \<Rightarrow> nat \<Rightarrow> ctx \<Rightarrow> (ctx \<times> trace) outcome" where
  "exec_complete hn good output_text in_tokens out_tokens cx =
    attempt_in id (ctx_resolve cx None) (\<lambda>rid.
      case ct_last_attempt cx of
        None \<Rightarrow> bail ''complete without a claim''
      | Some att \<Rightarrow>
        (let st = (if good then Completed else Failed); usage = Usage_new in_tokens out_tokens;
             e = lifecycle rid (if good then EvCompleted else EvFailed) (ResponseObject_terminal_stub (hn_fmt hn) rid st) in
         attempt_in LedgerFailed (ledger_get rid (w_store (ct_world cx))) (\<lambda>found.
           case found of
             None \<Rightarrow> bail ''response vanished''
           | Some r \<Rightarrow>
             (case via_store (ledger_complete rid att st usage (ct_now_ms cx)) cx of
                (res, cx1) \<Rightarrow>
                  attempt_in LedgerFailed res (\<lambda>_.
                  and_then (commit_turn rid r output_text usage st cx1) (\<lambda>cx2.
                    case via_append e cx2 of
                      (seq, cx3) \<Rightarrow>
                        attempt_in LogFailed seq (\<lambda>n.
                        and_then (settle_session r st cx3) (\<lambda>cx4.
                          ok_step cx4 [appended hn e n cx, ResponseTerminal (shown hn rid) (status_as_str st) (ct_now_ms cx)]))))))))"

definition exec_cancel :: "harness \<Rightarrow> string option \<Rightarrow> string option \<Rightarrow> ctx \<Rightarrow> (ctx \<times> trace) outcome" where
  "exec_cancel hn tenant expected cx =
    attempt_in id (ctx_resolve cx None) (\<lambda>rid.
    attempt_in id (ctx_tenant cx tenant) (\<lambda>t.
      case via_store (ledger_cancel t rid (ct_now_ms cx)) cx of
        (res, cx1) \<Rightarrow>
          (let want = (case expected of Some w \<Rightarrow> w | None \<Rightarrow> ''ok'') in
           if want = ''ok'' \<and> res = Inr ()
           then attempt_in LedgerFailed (ledger_get rid (w_store (ct_world cx1))) (\<lambda>found.
                  and_then (case found of Some r \<Rightarrow> settle_session r Cancelled cx1 | None \<Rightarrow> Some (Inr cx1)) (\<lambda>cx2.
                    ok_step cx2 [ResponseTerminal (shown hn rid) ''cancelled'' (ct_now_ms cx)]))
           else if want = ''not_found'' \<and> res = Inl LNotFound then ok_step cx1 []
           else if want = ''invalid_transition'' \<and> (case res of Inl (LInvalidTransition _) \<Rightarrow> True | _ \<Rightarrow> False) then ok_step cx1 []
           else bail ''cancel'')))"

fun exec_reap_each :: "harness \<Rightarrow> aborted_claim list \<Rightarrow> ctx \<Rightarrow> (ctx \<times> trace) outcome" where
  "exec_reap_each hn [] cx = ok_step cx []"
| "exec_reap_each hn (claim # rest) cx =
    and_then (case ab_conversation_id claim of
        Some cid \<Rightarrow>
          if ab_store claim
          then archive_incomplete_turn (ab_tenant_id claim) cid (ab_response_id claim) (ab_input_items claim) Failed cx
          else Some (Inr cx)
      | None \<Rightarrow> Some (Inr cx)) (\<lambda>cx1.
    and_then (release_session (ab_tenant_id claim) (ab_conversation_id claim) (ab_response_id claim) Failed cx1) (\<lambda>cx2.
    and_then (exec_reap_each hn rest cx2) (\<lambda>(cx3, t).
      ok_step cx3 (ResponseTerminal (shown hn (ab_response_id claim)) ''failed'' (ct_now_ms cx) # t))))"

definition exec_reap :: "harness \<Rightarrow> ctx \<Rightarrow> (ctx \<times> trace) outcome" where
  "exec_reap hn cx =
    (case via_store (ledger_reap (ct_now_ms cx) 0) cx of
       (res, cx1) \<Rightarrow>
         attempt_in LedgerFailed res (\<lambda>aborted.
         and_then (exec_reap_each hn aborted cx1) (\<lambda>(cx2, t).
           ok_step cx2 (t @ [MockState ''ledger'' (''reaped='' @ dec (length aborted)) (ct_now_ms cx)]))))"

text \<open>Reading the log.\<close>

definition exec_resume ::
  "harness \<Rightarrow> nat option \<Rightarrow> nat \<Rightarrow> nat option \<Rightarrow> ctx \<Rightarrow> (ctx \<times> trace) outcome" where
  "exec_resume hn starting_after min_events first_sequence cx =
    attempt_in id (ctx_resolve cx None) (\<lambda>rid.
    attempt_in LogFailed (event_read_after rid starting_after 1000 (w_log (ct_world cx))) (\<lambda>batch.
      if length batch < min_events then bail ''expected more events''
      else if (case first_sequence of
                 Some want \<Rightarrow> (case batch of [] \<Rightarrow> None | e # _ \<Rightarrow> Some (re_sequence_number e)) \<noteq> Some want
               | None \<Rightarrow> False)
      then bail ''expected first sequence''
      else ok_step cx [EventRead (shown hn rid) starting_after (length batch) False (ct_now_ms cx)]))"

definition exec_expect_expired :: "harness \<Rightarrow> nat option \<Rightarrow> ctx \<Rightarrow> (ctx \<times> trace) outcome" where
  "exec_expect_expired hn starting_after cx =
    attempt_in id (ctx_resolve cx None) (\<lambda>rid.
      if event_read_after rid starting_after 10 (w_log (ct_world cx)) = Inl EExpired
      then ok_step cx [EventRead (shown hn rid) starting_after 0 True (ct_now_ms cx)]
      else bail ''expected an expiry error'')"

definition exec_close_log :: "nat \<Rightarrow> ctx \<Rightarrow> (ctx \<times> trace) outcome" where
  "exec_close_log retain_ms cx =
    attempt_in id (ctx_resolve cx None) (\<lambda>rid.
      case via_log (event_close rid (ct_now_ms cx) retain_ms) cx of
        (res, cx1) \<Rightarrow> attempt_in LogFailed res (\<lambda>_. ok_step cx1 []))"

definition exec_sweep_event_logs :: "nat \<Rightarrow> ctx \<Rightarrow> (ctx \<times> trace) outcome" where
  "exec_sweep_event_logs now_ms cx =
    (case via_log (event_sweep_expired now_ms) cx of
       (res, cx1) \<Rightarrow>
         attempt_in LogFailed res (\<lambda>swept. ok_step cx1 [MockState ''event_log'' (''swept='' @ dec swept) (ct_now_ms cx)]))"

text \<open>Reading a conversation's snapshot.\<close>

definition exec_resolve_chain ::
  "harness \<Rightarrow> string option \<Rightarrow> string option \<Rightarrow> nat option \<Rightarrow> nat option \<Rightarrow> string option \<Rightarrow> string option
    \<Rightarrow> ctx \<Rightarrow> (ctx \<times> trace) outcome" where
  "exec_resolve_chain hn from tenant want_depth want_items text absent cx =
    attempt_in id (ctx_resolve_conv hn cx from) (\<lambda>cid.
    attempt_in id (ctx_tenant cx tenant) (\<lambda>t.
    attempt_in ConvFailed (read_snapshot t cid (w_store (ct_world cx))) (\<lambda>resolved.
      let encoded = canonical_items (hn_codec hn) (rc_items resolved) in
      if (case want_depth of Some n \<Rightarrow> rc_turns resolved \<noteq> n | None \<Rightarrow> False) then bail ''chain depth''
      else if (case want_items of Some n \<Rightarrow> rc_item_count resolved \<noteq> n | None \<Rightarrow> False) then bail ''chain items''
      else if (case text of Some x \<Rightarrow> \<not> sublist x encoded | None \<Rightarrow> False) then bail ''text must appear''
      else if (case absent of Some x \<Rightarrow> sublist x encoded | None \<Rightarrow> False) then bail ''text must not appear''
      else ok_step cx [ChainResolved (ConversationId_display (hn_fmt hn) cid) (rc_turns resolved) (rc_item_count resolved)
             (rc_bytes resolved) (ct_now_ms cx)])))"

definition exec_expect_chain_error ::
  "harness \<Rightarrow> string option \<Rightarrow> string option \<Rightarrow> string \<Rightarrow> ctx \<Rightarrow> (ctx \<times> trace) outcome" where
  "exec_expect_chain_error hn from tenant reason cx =
    attempt_in id (ctx_resolve_conv hn cx from) (\<lambda>cid.
    attempt_in id (ctx_tenant cx tenant) (\<lambda>t.
      let result = read_snapshot t cid (w_store (ct_world cx)) in
      if reason = ''not_found'' \<and> result = Inl CNotFound \<or> reason = ''unavailable'' \<and> result = Inl (CStore Unavailable)
      then ok_step cx [ChainRejected (ConversationId_display (hn_fmt hn) cid) reason (ct_now_ms cx)]
      else bail ''expected chain error''))"

text \<open>Stored content.\<close>

definition exec_expect_stored :: "string option \<Rightarrow> bool \<Rightarrow> nat option \<Rightarrow> ctx \<Rightarrow> (ctx \<times> trace) outcome" where
  "exec_expect_stored target should_exist want_items cx =
    attempt_in id (ctx_resolve cx target) (\<lambda>rid.
    attempt_in LedgerFailed (ledger_get rid (w_store (ct_world cx))) (\<lambda>found.
      if should_exist \<and> found = None then bail ''expected to be stored''
      else if \<not> should_exist \<and> found \<noteq> None then bail ''expected to be absent''
      else if (case (want_items, found) of (Some n, Some r) \<Rightarrow> length (ts_input_items (rr_spec r)) \<noteq> n | _ \<Rightarrow> False)
      then bail ''stored items''
      else ok_step cx []))"

definition exec_delete_response :: "string option \<Rightarrow> bool \<Rightarrow> ctx \<Rightarrow> (ctx \<times> trace) outcome" where
  "exec_delete_response target expect_deleted cx =
    attempt_in id (ctx_resolve cx target) (\<lambda>rid.
      case via_store (ledger_delete rid) cx of
        (res, cx1) \<Rightarrow>
          attempt_in LedgerFailed res (\<lambda>deleted.
            if deleted \<noteq> expect_deleted then bail ''deleted'' else ok_step cx1 []))"

definition exec_purge_tenant :: "string option \<Rightarrow> nat \<Rightarrow> ctx \<Rightarrow> (ctx \<times> trace) outcome" where
  "exec_purge_tenant tenant expect_min cx =
    attempt_in id (ctx_tenant cx tenant) (\<lambda>t.
      case via_store (ledger_delete_by_tenant t) cx of
        (res, cx1) \<Rightarrow>
          attempt_in LedgerFailed res (\<lambda>removed. if removed < expect_min then bail ''purged'' else ok_step cx1 []))"

definition exec_sweep_expired_content :: "nat option \<Rightarrow> ctx \<Rightarrow> (ctx \<times> trace) outcome" where
  "exec_sweep_expired_content expect_removed cx =
    (if expect_removed = None \<or> expect_removed = Some 0 then ok_step cx [] else bail ''content-expiry sweep no longer exists'')"

text \<open>The expiry is set on a copy of the row and dropped.\<close>

definition exec_set_expiry :: "string option \<Rightarrow> nat \<Rightarrow> ctx \<Rightarrow> (ctx \<times> trace) outcome" where
  "exec_set_expiry target expires_at_ms cx =
    attempt_in id (ctx_resolve cx target) (\<lambda>rid.
    attempt_in LedgerFailed (ledger_get rid (w_store (ct_world cx))) (\<lambda>found.
      case found of None \<Rightarrow> bail ''unknown response'' | Some _ \<Rightarrow> ok_step cx []))"

definition exec_expect_integrity_ok :: "harness \<Rightarrow> string option \<Rightarrow> ctx \<Rightarrow> (ctx \<times> trace) outcome" where
  "exec_expect_integrity_ok hn target cx =
    attempt_in id (ctx_resolve cx target) (\<lambda>rid.
      case ledger_get rid (w_store (ct_world cx)) of
        Inl _ \<Rightarrow> bail ''integrity check failed unexpectedly''
      | Inr _ \<Rightarrow> ok_step cx [IntegrityChecked (shown hn rid) True (ct_now_ms cx)])"

definition tamper_for_test :: "response_id \<Rightarrow> response_item list \<Rightarrow> mem_store \<Rightarrow> bool \<times> mem_store" where
  "tamper_for_test rid replacement s =
    (case map_of (st_records s) rid of
       Some r \<Rightarrow> (True, s\<lparr>st_records := AList.update rid (r\<lparr>rr_spec := (rr_spec r)\<lparr>ts_input_items := replacement\<rparr>\<rparr>) (st_records s)\<rparr>)
     | None \<Rightarrow> (False, s))"

definition exec_tamper_content :: "harness \<Rightarrow> string option \<Rightarrow> ctx \<Rightarrow> (ctx \<times> trace) outcome" where
  "exec_tamper_content hn target cx =
    attempt_in id (ctx_resolve cx target) (\<lambda>rid.
      case via_store (tamper_for_test rid [assistant_text ''forged'']) cx of
        (tampered, cx1) \<Rightarrow>
          if \<not> tampered then bail ''nothing to tamper with''
          else ok_step cx1 [FaultInjected ''tamper_content'' (shown hn rid) (ct_now_ms cx)])"

definition exec_expect_integrity_mismatch :: "string option \<Rightarrow> ctx \<Rightarrow> (ctx \<times> trace) outcome" where
  "exec_expect_integrity_mismatch target cx = attempt_in id (ctx_resolve cx target) (\<lambda>_. ok_step cx [])"

definition exec_record_partial_usage :: "harness \<Rightarrow> nat \<Rightarrow> nat \<Rightarrow> ctx \<Rightarrow> (ctx \<times> trace) outcome" where
  "exec_record_partial_usage hn in_tokens out_tokens cx =
    attempt_in id (ctx_resolve cx None) (\<lambda>rid.
      let att = (case ct_last_attempt cx of Some a \<Rightarrow> a | None \<Rightarrow> Attempt 1); usage = Usage_new in_tokens out_tokens in
      case via_store (ledger_record_partial_usage rid att usage) cx of
        (res, cx1) \<Rightarrow>
          attempt_in LedgerFailed res (\<lambda>_.
            ok_step cx1 [PartialUsageRecorded (shown hn rid) (at_no att) (total_tokens usage) (ct_now_ms cx)]))"

definition exec_expect_partial_usage :: "nat \<Rightarrow> ctx \<Rightarrow> (ctx \<times> trace) outcome" where
  "exec_expect_partial_usage min_total cx =
    attempt_in id (ctx_resolve cx None) (\<lambda>rid.
      if total_tokens (total_usage rid (w_store (ct_world cx))) < min_total then bail ''tokens booked'' else ok_step cx [])"

text \<open>The protocol subset.\<close>

definition body_rejected :: "harness \<Rightarrow> string \<Rightarrow> bool" where
  "body_rejected hn body =
    (case hn_decode hn body of
       None \<Rightarrow> True
     | Some q \<Rightarrow> (case request_validate (hn_url_parse hn) (cx_num_fmt (hn_codec hn)) ProtocolLimits_default q of
         Inl _ \<Rightarrow> True | Inr _ \<Rightarrow> False))"

definition exec_set_switch :: "(mem_store \<Rightarrow> mem_store) \<Rightarrow> trace_event \<Rightarrow> ctx \<Rightarrow> (ctx \<times> trace) outcome" where
  "exec_set_switch f e cx = ok_step (snd (via_store (\<lambda>s. ((), f s)) cx)) [e]"

definition bool_text :: "bool \<Rightarrow> string" where
  "bool_text b = (if b then ''true'' else ''false'')"

fun exec :: "harness \<Rightarrow> uuid \<Rightarrow> step \<Rightarrow> ctx \<Rightarrow> (ctx \<times> trace) outcome" where
  "exec hn fresh (CreateConversation label tenant) cx = exec_create_conversation hn fresh label tenant cx"
| "exec hn fresh (CreateResponse input key store previous tenant instructions label conversation expected) cx =
    exec_create_response hn fresh input key store previous tenant instructions label conversation expected cx"
| "exec hn fresh (Claim expected) cx = exec_claim hn fresh expected cx"
| "exec hn fresh (AppendDelta payload att open_item stale) cx = exec_append_delta hn payload att open_item stale cx"
| "exec hn fresh (Complete good output_text in_tokens out_tokens) cx =
    exec_complete hn good output_text in_tokens out_tokens cx"
| "exec hn fresh (Cancel tenant expected) cx = exec_cancel hn tenant expected cx"
| "exec hn fresh Reap cx = exec_reap hn cx"
| "exec hn fresh (ResumeStartingAfter after min_events first_seq) cx = exec_resume hn after min_events first_seq cx"
| "exec hn fresh (ExpectExpired after) cx = exec_expect_expired hn after cx"
| "exec hn fresh (CloseLog retain_ms) cx = exec_close_log retain_ms cx"
| "exec hn fresh (SweepEventLogs now_ms) cx = exec_sweep_event_logs now_ms cx"
| "exec hn fresh (ResolveChain from tenant depth items text absent) cx =
    exec_resolve_chain hn from tenant depth items text absent cx"
| "exec hn fresh (ExpectChainError from tenant reason) cx = exec_expect_chain_error hn from tenant reason cx"
| "exec hn fresh (ExpectStored target should_exist items) cx = exec_expect_stored target should_exist items cx"
| "exec hn fresh (DeleteResponse target expect_deleted) cx = exec_delete_response target expect_deleted cx"
| "exec hn fresh (PurgeTenant tenant expect_min) cx = exec_purge_tenant tenant expect_min cx"
| "exec hn fresh (SweepExpiredContent expect_removed) cx = exec_sweep_expired_content expect_removed cx"
| "exec hn fresh (SetExpiry target expires_at_ms) cx = exec_set_expiry target expires_at_ms cx"
| "exec hn fresh (ExpectIntegrityOk target) cx = exec_expect_integrity_ok hn target cx"
| "exec hn fresh (TamperContent target) cx = exec_tamper_content hn target cx"
| "exec hn fresh (ExpectIntegrityMismatch target) cx = exec_expect_integrity_mismatch target cx"
| "exec hn fresh (RecordPartialUsage in_tokens out_tokens) cx = exec_record_partial_usage hn in_tokens out_tokens cx"
| "exec hn fresh (ExpectPartialUsage min_total) cx = exec_expect_partial_usage min_total cx"
| "exec hn fresh (ExpectProtocolReject body) cx =
    (if body_rejected hn body then ok_step cx [ProtocolRejected ''outside_subset'' (ct_now_ms cx)]
     else bail ''payload should have been rejected'')"
| "exec hn fresh (ExpectProtocolAccept body) cx = (if body_rejected hn body then bail ''supported payload rejected'' else ok_step cx [])"
| "exec hn fresh (SetReadOnly enabled) cx =
    exec_set_switch (set_read_only enabled) (MockState ''ledger'' (''read_only='' @ bool_text enabled) (ct_now_ms cx)) cx"
| "exec hn fresh (SetPendingLimit limit) cx =
    exec_set_switch (set_pending_limit limit) (MockState ''ledger'' (''pending_limit='' @ dec limit) (ct_now_ms cx)) cx"
| "exec hn fresh (SetStoreUnavailable enabled) cx =
    exec_set_switch (set_unavailable enabled) (FaultInjected ''store_unavailable'' (bool_text enabled) (ct_now_ms cx)) cx"
| "exec hn fresh (AdvanceMs by_ms) cx =
    (let now = ct_now_ms cx + by_ms in ok_step (cx\<lparr>ct_now_ms := now\<rparr>) [ClockAt now])"

section \<open>The run\<close>

fun run_steps :: "harness \<Rightarrow> (uuid \<times> step) list \<Rightarrow> ctx \<Rightarrow> trace \<Rightarrow> (ctx \<times> trace) outcome" where
  "run_steps hn [] cx t = ok_step cx t"
| "run_steps hn ((fresh, s) # rest) cx t =
    and_then (exec hn fresh s cx) (\<lambda>(cx1, es).
      run_steps hn rest (cx1\<lparr>ct_now_ms := ct_now_ms cx1 + 1\<rparr>) (t @ es @ [ClockAt (ct_now_ms cx1 + 1)]))"

datatype scenario_error = StepFailed step_error | OracleRefused oracle_error

definition run_scenario ::
  "harness \<Rightarrow> (nat \<Rightarrow> nat) \<Rightarrow> (nat \<Rightarrow> uuid) \<Rightarrow> scenario_file \<Rightarrow> (scenario_error + string) option" where
  "run_scenario hn clock draw sf =
    (case run_steps hn (zip (map draw [0..<length (sf_steps sf)]) (sf_steps sf)) (Ctx_new clock) [] of
       None \<Rightarrow> None
     | Some (Inl e) \<Rightarrow> Some (Inl (StepFailed e))
     | Some (Inr (_, t)) \<Rightarrow>
       (case run_oracles t (sf_oracles sf) of
          Inl e \<Rightarrow> Some (Inl (OracleRefused e))
        | Inr _ \<Rightarrow> Some (Inr (sf_name sf))))"

end
