(* ===== verification/Scenario_Safety.thy ===== *)
theory Scenario_Safety
  imports Scenario
begin

text \<open>
  What every scenario script gets from the modelled back end. A step is a sequence of port calls
  and recorded events; \<open>calm\<close> collects what a call keeps that is neither a create, a claim nor an
  append, and the invariants below tie the trace to the store and the log: claims to attempts, creations to
  the idempotency table, appends to the next sequence number of their stream.
\<close>

section \<open>Frames of the port calls\<close>

definition next_seq_of :: "event_log \<Rightarrow> response_id \<Rightarrow> nat" where
  "next_seq_of g rid = (case map_of (el_logs g) rid of Some l \<Rightarrow> rl_next_seq l | None \<Rightarrow> 0)"

lemma reap_each_idem [simp]: "st_idem (snd (reap_each now vs s)) = st_idem s"
  by (induction now vs s rule: reap_each.induct) (auto simp: case_prod_unfold book_partial_def split: option.split)

lemma remove_records_idem [simp]: "st_idem (snd (remove_records ids s)) = st_idem s"
  by (induction ids s rule: remove_records.induct) (auto simp: case_prod_unfold remove_record_def split: option.split)

lemma claim_loop_idem [simp]: "st_idem (snd (claim_loop a now ttl q s)) = st_idem s"
  by (induction a now ttl q s rule: claim_loop.induct) (auto simp: Let_def split: option.split)

lemma ledger_idem [simp]:
  "st_idem (snd (ledger_claim a now ttl s)) = st_idem s"
  "st_idem (snd (ledger_complete rid att st u now s)) = st_idem s"
  "st_idem (snd (ledger_cancel t rid now s)) = st_idem s"
  "st_idem (snd (ledger_reap now ttl s)) = st_idem s"
  "st_idem (snd (ledger_record_partial_usage rid att u s)) = st_idem s"
  "st_idem (snd (ledger_delete rid s)) = st_idem s"
  "st_idem (snd (ledger_delete_by_tenant t s)) = st_idem s"
  by (auto simp: ledger_claim_def ledger_complete_def ledger_cancel_def ledger_reap_def ledger_record_partial_usage_def
      ledger_delete_def ledger_delete_by_tenant_def guard_writable_def case_prod_unfold Let_def book_partial_def remove_record_def
      split: option.split)

text \<open>No call but a create of a conversation adds one.\<close>

lemma owned_map: "owned s t cid = Some c \<Longrightarrow> map_of (st_conversations s) cid = Some c"
  by (auto simp: owned_def split: option.splits if_splits)

lemma conv_doms:
  assumes "conv_wf s"
  shows "dom (map_of (st_conversations (snd (append_turn t cid rid c s)))) \<subseteq> dom (map_of (st_conversations s))"
    "dom (map_of (st_conversations (snd (conv_advance t cid rid s)))) \<subseteq> dom (map_of (st_conversations s))"
    "dom (map_of (st_conversations (snd (release_active t cid rid st now s)))) \<subseteq> dom (map_of (st_conversations s))"
proof -
  have id: "cv_id c = cid" if "map_of (st_conversations s) cid = Some c" for c cid
    using assms that unfolding conv_wf_def conversations_wf_def by blast
  show "dom (map_of (st_conversations (snd (append_turn t cid rid c s)))) \<subseteq> dom (map_of (st_conversations s))"
    by (auto simp: append_turn_def conv_guard_writable_def conv_guard_available_def Let_def split: option.split)
  show "dom (map_of (st_conversations (snd (conv_advance t cid rid s)))) \<subseteq> dom (map_of (st_conversations s))"
    by (auto simp: conv_advance_def conv_guard_writable_def conv_guard_available_def insert_conversation_def id
        dest!: owned_map split: option.split)
  show "dom (map_of (st_conversations (snd (release_active t cid rid st now s)))) \<subseteq> dom (map_of (st_conversations s))"
    by (auto simp: release_active_def release_marker_def conv_guard_writable_def conv_guard_available_def
        insert_conversation_def push_conversation_event_def put_stream_def Let_def case_prod_unfold id
        dest!: owned_map split: option.splits sum.splits if_splits)
qed

text \<open>What a call keeps for the trace: rows only move forward, keys stay, streams do not restart.\<close>

definition rows_advance :: "mem_store \<Rightarrow> mem_store \<Rightarrow> bool" where
  "rows_advance s s' \<longleftrightarrow> (\<forall>rid r'. map_of (st_records s') rid = Some r' \<longrightarrow>
    (\<exists>r. map_of (st_records s) rid = Some r \<and> rr_attempt r \<le> rr_attempt r'))"

lemma rows_advance_refl: "rows_advance s s"
  by (simp add: rows_advance_def)

lemma rows_advance_trans: "rows_advance a b \<Longrightarrow> rows_advance b c \<Longrightarrow> rows_advance a c"
  unfolding rows_advance_def by (meson order_trans)

lemma rows_advance_evolves: "store_evolves s s' \<Longrightarrow> rows_advance s s'"
  unfolding rows_advance_def store_evolves_def by (meson record_evolves_attempt)

definition calm :: "ctx \<Rightarrow> ctx \<Rightarrow> bool" where
  "calm x y \<longleftrightarrow> ct_node_tag y = ct_node_tag x \<and> ct_labels y = ct_labels x \<and> ct_last y = ct_last x \<and> ct_now_ms y = ct_now_ms x \<and>
    (world_wf (ct_world x) \<longrightarrow> world_wf (ct_world y) \<and> rows_advance (w_store (ct_world x)) (w_store (ct_world y)) \<and>
      st_idem (w_store (ct_world y)) = st_idem (w_store (ct_world x)) \<and>
      dom (map_of (st_conversations (w_store (ct_world y)))) \<subseteq> dom (map_of (st_conversations (w_store (ct_world x)))) \<and>
      next_seq_of (w_log (ct_world y)) = next_seq_of (w_log (ct_world x)))"

lemma calm_refl: "calm x x"
  by (simp add: calm_def rows_advance_refl)

lemma calm_trans: "calm x y \<Longrightarrow> calm y z \<Longrightarrow> calm x z"
  unfolding calm_def using rows_advance_trans by (simp, blast)

lemma calm_wf: "calm x y \<Longrightarrow> world_wf (ct_world x) \<Longrightarrow> world_wf (ct_world y)"
  by (simp add: calm_def)

lemma via_store_eq: "via_store f x = (fst (f (w_store (ct_world x))),
    x\<lparr>ct_world := (ct_world x)\<lparr>w_store := snd (f (w_store (ct_world x)))\<rparr>\<rparr>)"
  by (simp add: via_store_def on_store_eq)

lemma via_log_eq: "via_log f x = (fst (f (w_log (ct_world x))),
    x\<lparr>ct_world := (ct_world x)\<lparr>w_log := snd (f (w_log (ct_world x)))\<rparr>\<rparr>)"
  by (simp add: via_log_def on_log_eq)

text \<open>A call on one half of the store.\<close>

lemma calm_ledger:
  assumes "\<And>s. ledger_wf s \<Longrightarrow> ledger_wf (snd (f s)) \<and> rows_advance s (snd (f s))"
    and "\<And>s. conv_part (snd (f s)) = conv_part s" "\<And>s. st_idem (snd (f s)) = st_idem s"
  shows "calm x (snd (via_store f x))"
  using assms(1)[of "w_store (ct_world x)"] assms(3)[of "w_store (ct_world x)"]
    conv_part_D(2)[OF assms(2)[of "w_store (ct_world x)"]]
    world_wf_ledger[OF _ assms(2), of "ct_world x"]
  by (auto simp: calm_def via_store_eq world_wfD)

lemma calm_conv:
  assumes "\<And>s. conv_wf s \<Longrightarrow> conv_wf (snd (f s)) \<and>
      dom (map_of (st_conversations (snd (f s)))) \<subseteq> dom (map_of (st_conversations s))"
    and "\<And>s. ledger_part (snd (f s)) = ledger_part s"
  shows "calm x (snd (via_store f x))"
  using assms(1)[of "w_store (ct_world x)"] ledger_part_D[OF assms(2)[of "w_store (ct_world x)"]]
    world_wf_conv[OF _ assms(2), of "ct_world x"]
  by (auto simp: calm_def via_store_eq world_wfD rows_advance_def)

lemma calm_calls:
  "calm x (snd (via_store (ledger_claim a now ttl) x))"
  "calm x (snd (via_store (ledger_complete rid att st u now) x))"
  "calm x (snd (via_store (ledger_cancel t rid now) x))"
  "calm x (snd (via_store (ledger_reap now ttl) x))"
  "calm x (snd (via_store (ledger_record_partial_usage rid att u) x))"
  "calm x (snd (via_store (ledger_delete rid) x))"
  "calm x (snd (via_store (ledger_delete_by_tenant t) x))"
  "calm x (snd (via_store (append_turn t cid rid c) x))"
  "calm x (snd (via_store (conv_advance t cid rid) x))"
  "calm x (snd (via_store (release_active t cid rid st now) x))"
  by (intro calm_ledger calm_conv; simp add: wf_intro rows_advance_evolves conv_doms ledger_claim_evolves ledger_complete_evolves
      ledger_cancel_evolves ledger_reap_evolves ledger_record_partial_usage_evolves ledger_delete_evolves
      ledger_delete_by_tenant_evolves)+

text \<open>The sub-steps that return leave a calm context.\<close>

lemma attempt_in_Inr: "attempt_in f r k = Some (Inr y) \<longleftrightarrow> (\<exists>x. r = Inr x \<and> k x = Some (Inr y))"
  by (cases r) (auto simp: attempt_in_def)

lemma attempt_in_ok: "attempt_in f (Inr a) k = k a"
  by (simp add: attempt_in_def)

lemma and_then_Inr: "and_then r k = Some (Inr y) \<longleftrightarrow> (\<exists>x. r = Some (Inr x) \<and> k x = Some (Inr y))"
  by (auto simp: and_then_def split: option.split sum.split)

lemma bail_Inr [simp]: "bail why \<noteq> Some (Inr y)"
  by (simp add: bail_def)

lemma if_bail: "(if c then bail why else r) = Some (Inr y) \<longleftrightarrow> \<not> c \<and> r = Some (Inr y)"
  "(if c then r else bail why) = Some (Inr y) \<longleftrightarrow> c \<and> r = Some (Inr y)"
  by simp_all

lemmas outcome_iffs = attempt_in_Inr and_then_Inr

lemma archive_calm: "archive_incomplete_turn t cid rid input st x = Some (Inr y) \<Longrightarrow> calm x y"
  using calm_calls(8)
  by (auto simp: archive_incomplete_turn_def case_prod_unfold outcome_iffs split: option.splits)

lemma release_calm: "release_session t conv rid st x = Some (Inr y) \<Longrightarrow> calm x y"
  using calm_calls(10) by (auto simp: release_session_def case_prod_unfold outcome_iffs calm_refl split: option.splits)

lemma advance_calm: "advance_tail r st x = Some (Inr y) \<Longrightarrow> calm x y"
  using calm_calls(9) by (auto simp: advance_tail_def case_prod_unfold outcome_iffs calm_refl split: option.splits if_splits)

lemma unfinished_calm: "archive_unfinished r st x = Some (Inr y) \<Longrightarrow> calm x y"
  by (auto simp: archive_unfinished_def calm_refl dest: archive_calm split: option.splits if_splits)

lemma settle_calm: "settle_session r st x = Some (Inr y) \<Longrightarrow> calm x y"
  by (auto simp: settle_session_def outcome_iffs dest!: advance_calm unfinished_calm release_calm intro: calm_trans)

lemma commit_calm: "commit_turn rid r out u st x = Some (Inr y) \<Longrightarrow> calm x y"
  using calm_calls(8) by (auto simp: commit_turn_def case_prod_unfold outcome_iffs calm_refl split: option.splits if_splits)

section \<open>The trace, event by event\<close>

fun neutral :: "trace_event \<Rightarrow> bool" where
  "neutral (ResponseCreated _ _ _ _ _ _) = False"
| "neutral (ResponseClaimed _ _ _ _) = False"
| "neutral (EventAppended _ _ _ _ _) = False"
| "neutral (EventRead _ _ n expired _) = (expired \<longrightarrow> n = 0)"
| "neutral (IntegrityChecked _ passed _) = passed"
| "neutral _ = True"

lemma claims_of_append [simp]: "claims_of (t @ es) = claims_of t @ claims_of es"
  by (induction t) (simp_all split: trace_event.split)

lemma appended_seqs_append [simp]: "appended_seqs r (t @ es) = appended_seqs r t @ appended_seqs r es"
  by (induction t) (simp_all split: trace_event.split)

lemma created_under_append [simp]: "created_under key (t @ es) = created_under key t \<union> created_under key es"
  by (rule set_eqI) (simp add: created_under_def, blast)

lemma no_stale_append_snoc:
  "no_stale_append (t @ [e]) \<longleftrightarrow> no_stale_append t \<and>
    (case e of EventAppended r (Some a) _ _ _ \<Rightarrow> (\<forall>b. (r, b) \<in> set (claims_of t) \<longrightarrow> b \<le> a) | _ \<Rightarrow> True)"
proof (induction t)
  case Nil
  show ?case by (cases e) (auto simp: no_stale_append_step appends_def no_stale_append_def split: option.split)
next
  case (Cons x t)
  have "appends r a (t @ [e]) \<longleftrightarrow> appends r a t \<or> (\<exists>s k m. e = EventAppended r (Some a) s k m)" for r a
    by (auto simp: appends_def)
  then show ?case using Cons by (cases x; cases e) (auto simp: no_stale_append_step split: option.splits)
qed

lemma neutral_simps:
  assumes "neutral e"
  shows "claims_of [e] = []" "appended_seqs r [e] = []" "created_under key [e] = {}"
    "no_stale_append (t @ [e]) = no_stale_append t"
  using assms by (cases e; simp add: created_under_def no_stale_append_snoc)+

section \<open>The invariant\<close>

definition ids_inv :: "uuid set \<Rightarrow> ctx \<Rightarrow> bool" where
  "ids_inv drawn x \<longleftrightarrow> world_wf (ct_world x) \<and>
    (\<forall>rid r. map_of (st_records (w_store (ct_world x))) rid = Some r \<longrightarrow> rid_node rid = ct_node_tag x \<and> rid_uuid rid \<in> drawn) \<and>
    (\<forall>cid \<in> dom (map_of (st_conversations (w_store (ct_world x)))). cid_uuid cid \<in> drawn) \<and>
    (\<forall>rid. ct_last x = Some rid \<longrightarrow> rid_node rid = ct_node_tag x) \<and>
    (\<forall>l rid. map_of (ct_labels x) l = Some rid \<longrightarrow> rid_node rid = ct_node_tag x)"

definition claims_inv :: "harness \<Rightarrow> uuid set \<Rightarrow> ctx \<Rightarrow> trace \<Rightarrow> bool" where
  "claims_inv hn drawn x t \<longleftrightarrow> distinct (claims_of t) \<and> no_stale_append t \<and>
    (\<forall>rid b. rid_node rid = ct_node_tag x \<and> (shown hn rid, b) \<in> set (claims_of t) \<longrightarrow> rid_uuid rid \<in> drawn \<and>
      (\<forall>r. map_of (st_records (w_store (ct_world x))) rid = Some r \<longrightarrow> b \<le> at_no (rr_attempt r)))"

definition keys_inv :: "harness \<Rightarrow> ctx \<Rightarrow> trace \<Rightarrow> bool" where
  "keys_inv hn x t \<longleftrightarrow> (\<forall>key r. r \<in> created_under key t \<longrightarrow>
    (\<exists>rid. r = shown hn rid \<and> map_of (st_idem (w_store (ct_world x))) (IdempotencyKey key) = Some rid))"

definition seqs_inv :: "harness \<Rightarrow> ctx \<Rightarrow> trace \<Rightarrow> bool" where
  "seqs_inv hn x t \<longleftrightarrow> (\<forall>s. contiguous_from 0 (appended_seqs s t)) \<and>
    (\<forall>rid. rid_node rid = ct_node_tag x \<longrightarrow> length (appended_seqs (shown hn rid) t) = next_seq_of (w_log (ct_world x)) rid)"

lemma calm_keeps:
  assumes "calm x y" "world_wf (ct_world x)"
  shows "ids_inv d x \<Longrightarrow> ids_inv d y" "claims_inv hn d x t \<Longrightarrow> claims_inv hn d y t"
    "keys_inv hn x t \<Longrightarrow> keys_inv hn y t" "seqs_inv hn x t \<Longrightarrow> seqs_inv hn y t"
proof -
  note c = assms(1)[unfolded calm_def, simplified assms(2) simp_thms]
  have old: "\<exists>r. map_of (st_records (w_store (ct_world x))) rid = Some r \<and> at_no (rr_attempt r) \<le> at_no (rr_attempt r')"
    if "map_of (st_records (w_store (ct_world y))) rid = Some r'" for rid r'
    using c that unfolding rows_advance_def less_eq_attempt_def by blast
  have eqs: "ct_node_tag y = ct_node_tag x" "ct_labels y = ct_labels x" "ct_last y = ct_last x"
      "st_idem (w_store (ct_world y)) = st_idem (w_store (ct_world x))"
      "next_seq_of (w_log (ct_world y)) = next_seq_of (w_log (ct_world x))"
    and wf: "world_wf (ct_world y)"
    and sub: "dom (map_of (st_conversations (w_store (ct_world y)))) \<subseteq> dom (map_of (st_conversations (w_store (ct_world x))))"
    using c by blast+
  show "ids_inv d x \<Longrightarrow> ids_inv d y"
    using old wf sub unfolding ids_inv_def eqs by blast
  show "claims_inv hn d y t" if i: "claims_inv hn d x t"
    unfolding claims_inv_def eqs
  proof (intro conjI allI impI)
    fix rid b r'
    assume a: "rid_node rid = ct_node_tag x \<and> (shown hn rid, b) \<in> set (claims_of t)"
      and r': "map_of (st_records (w_store (ct_world y))) rid = Some r'"
    obtain r where "map_of (st_records (w_store (ct_world x))) rid = Some r" "at_no (rr_attempt r) \<le> at_no (rr_attempt r')"
      using old[OF r'] by blast
    then show "b \<le> at_no (rr_attempt r')" using i a unfolding claims_inv_def by (blast intro: order_trans)
  qed (use i in \<open>unfold claims_inv_def, blast+\<close>)
  show "keys_inv hn x t \<Longrightarrow> keys_inv hn y t" "seqs_inv hn x t \<Longrightarrow> seqs_inv hn y t"
    unfolding keys_inv_def seqs_inv_def eqs by blast+
qed

lemma neutral_keeps:
  assumes "list_all neutral es"
  shows "claims_inv hn d x t \<Longrightarrow> claims_inv hn d x (t @ es)" "keys_inv hn x t \<Longrightarrow> keys_inv hn x (t @ es)"
    "seqs_inv hn x t \<Longrightarrow> seqs_inv hn x (t @ es)"
proof -
  have "claims_of es = [] \<and> (\<forall>r. appended_seqs r es = []) \<and> (\<forall>key. created_under key es = {}) \<and>
      no_stale_append (t @ es) = no_stale_append t"
    using assms
  proof (induction es rule: rev_induct)
    case (snoc e es)
    then show ?case using neutral_simps(1-3)[of e] neutral_simps(4)[of e "t @ es"] by (simp del: claims_of_simps appended_seqs_simps)
  qed (simp add: created_under_def)
  then have eqs: "claims_of (t @ es) = claims_of t" "\<And>r. appended_seqs r (t @ es) = appended_seqs r t"
      "\<And>key. created_under key (t @ es) = created_under key t" "no_stale_append (t @ es) = no_stale_append t"
    by simp_all
  show "claims_inv hn d x t \<Longrightarrow> claims_inv hn d x (t @ es)" "keys_inv hn x t \<Longrightarrow> keys_inv hn x (t @ es)"
    "seqs_inv hn x t \<Longrightarrow> seqs_inv hn x (t @ es)"
    unfolding claims_inv_def keys_inv_def seqs_inv_def eqs by blast+
qed

lemma shown_inj: "inj (hn_fmt hn) \<Longrightarrow> rid_node a = rid_node b \<Longrightarrow> shown hn a = shown hn b \<Longrightarrow> a = b"
  by (cases a; cases b) (auto simp: shown_def ResponseId_display_def dest: injD)

text \<open>An accepted append: the row carries the attempt, and the stream moves on by one.\<close>

lemma via_append_fails: "via_append e x = (Inl err, y) \<Longrightarrow> y = x"
  by (auto simp: via_append_def log_append_def on_log_eq event_append_def append_write_def Let_def
      split: sum.splits if_splits)

lemma append_write_next:
  assumes "append_write e g = (Inr n, g')"
  shows "n = next_seq_of g (ae_response_id e)" "next_seq_of g' = (next_seq_of g)(ae_response_id e := Suc n)"
proof -
  have keep: "rl_next_seq (evict c l) = rl_next_seq l" for c l
    by (induction c l rule: evict.induct) (simp add: evict.simps)
  show "n = next_seq_of g (ae_response_id e)" "next_seq_of g' = (next_seq_of g)(ae_response_id e := Suc n)"
    using assms
    by (auto simp: append_write_def next_seq_of_def Let_def push_event_def fun_eq_iff ResponseLog_new_def keep
        split: if_splits option.splits)
qed

lemma via_append_ok:
  assumes "via_append e x = (Inr n, y)"
  shows "y = x\<lparr>ct_world := (ct_world x)\<lparr>w_log := w_log (ct_world y)\<rparr>\<rparr>" "n = next_seq_of (w_log (ct_world x)) (ae_response_id e)"
    "next_seq_of (w_log (ct_world y)) = (next_seq_of (w_log (ct_world x)))(ae_response_id e := Suc n)"
    "world_wf (ct_world x) \<Longrightarrow> world_wf (ct_world y)"
    "ae_attempt e = Some a \<Longrightarrow> \<exists>r. map_of (st_records (w_store (ct_world x))) (ae_response_id e) = Some r \<and> rr_attempt r = a"
proof -
  have f: "append_fence e (w_store (ct_world x)) = Inr ()" and w: "append_write e (w_log (ct_world x)) = (Inr n, w_log (ct_world y))"
    and y: "y = x\<lparr>ct_world := (ct_world x)\<lparr>w_log := w_log (ct_world y)\<rparr>\<rparr>"
    using assms by (auto simp: via_append_def log_append_def on_log_eq event_append_def case_prod_unfold split: sum.splits)
      (metis prod.collapse)
  show "y = x\<lparr>ct_world := (ct_world x)\<lparr>w_log := w_log (ct_world y)\<rparr>\<rparr>" by (rule y)
  show "n = next_seq_of (w_log (ct_world x)) (ae_response_id e)"
    "next_seq_of (w_log (ct_world y)) = (next_seq_of (w_log (ct_world x)))(ae_response_id e := Suc n)"
    using append_write_next[OF w] by simp_all
  show "world_wf (ct_world x) \<Longrightarrow> world_wf (ct_world y)"
    using log_append_wf[of "ct_world x" e] assms by (auto simp: via_append_def case_prod_unfold)
  show "ae_attempt e = Some a \<Longrightarrow> \<exists>r. map_of (st_records (w_store (ct_world x))) (ae_response_id e) = Some r \<and> rr_attempt r = a"
    using f by (auto simp: append_fence_def check_attempt_def split: if_splits sum.splits option.splits)
qed

lemma append_keeps:
  assumes fmt: "inj (hn_fmt hn)" and e: "via_append e x = (Inr n, y)" "rid_node (ae_response_id e) = ct_node_tag x"
  shows "ids_inv d x \<Longrightarrow> ids_inv d y"
    "keys_inv hn x t \<Longrightarrow> keys_inv hn y (t @ [appended hn e m z])"
    "claims_inv hn d x t \<Longrightarrow> claims_inv hn d y (t @ [appended hn e m z])"
    "seqs_inv hn x t \<Longrightarrow> seqs_inv hn y (t @ [appended hn e n z])"
proof -
  note y = via_append_ok[OF e(1)]
  have s: "w_store (ct_world y) = w_store (ct_world x)" "ct_node_tag y = ct_node_tag x" "ct_last y = ct_last x" "ct_labels y = ct_labels x"
    by (subst y(1), simp)+
  show "ids_inv d x \<Longrightarrow> ids_inv d y" using y(4) by (simp add: ids_inv_def s)
  show "keys_inv hn x t \<Longrightarrow> keys_inv hn y (t @ [appended hn e m z])"
    by (simp add: keys_inv_def s appended_def created_under_def)
  show "claims_inv hn d x t \<Longrightarrow> claims_inv hn d y (t @ [appended hn e m z])"
    using y(5) e(2) by (auto simp: claims_inv_def s appended_def no_stale_append_snoc split: option.splits)
  show "seqs_inv hn x t \<Longrightarrow> seqs_inv hn y (t @ [appended hn e n z])"
  proof -
    assume i: "seqs_inv hn x t"
    let ?r = "ae_response_id e"
    have len: "length (appended_seqs (shown hn ?r) t) = n" using i e(2) y(2) by (simp add: seqs_inv_def)
    have here: "contiguous_from 0 (appended_seqs (shown hn ?r) t)" using i by (simp add: seqs_inv_def)
    have "contiguous_from 0 (appended_seqs q (t @ [appended hn e n z]))" for q
      using i here len by (auto simp: seqs_inv_def appended_def)
    moreover have "length (appended_seqs (shown hn rid) (t @ [appended hn e n z])) = next_seq_of (w_log (ct_world y)) rid"
      if "rid_node rid = ct_node_tag y" for rid
      using i that len y(3) shown_inj[OF fmt, of ?r rid] e(2) by (auto simp: seqs_inv_def appended_def s)
    ultimately show ?thesis by (simp add: seqs_inv_def)
  qed
qed

section \<open>Safe contexts\<close>

text \<open>\<open>q\<close> says whether the appends recorded so far carry the numbers the log gave them.\<close>

definition safe :: "harness \<Rightarrow> uuid set \<Rightarrow> bool \<Rightarrow> ctx \<Rightarrow> trace \<Rightarrow> bool" where
  "safe hn d q x t \<longleftrightarrow> ids_inv d x \<and> claims_inv hn d x t \<and> keys_inv hn x t \<and> (q \<longrightarrow> seqs_inv hn x t)"

lemma safe_wf: "safe hn d q x t \<Longrightarrow> world_wf (ct_world x)"
  by (simp add: safe_def ids_inv_def)

lemma safe_node: "safe hn d q x t \<Longrightarrow> ct_last x = Some rid \<Longrightarrow> rid_node rid = ct_node_tag x"
  by (simp add: safe_def ids_inv_def)

lemma safe_calm: "safe hn d q x t \<Longrightarrow> calm x y \<Longrightarrow> safe hn d q y t"
  using calm_keeps[of x y] safe_wf[of hn d q x t] unfolding safe_def by blast

lemma safe_neutral: "safe hn d q x t \<Longrightarrow> list_all neutral es \<Longrightarrow> safe hn d q x (t @ es)"
  using neutral_keeps[of es] unfolding safe_def by blast

lemma safe_append:
  assumes "safe hn d q x t" "inj (hn_fmt hn)" "via_append e x = (Inr n, y)" "rid_node (ae_response_id e) = ct_node_tag x" "q \<Longrightarrow> m = n"
  shows "safe hn d q y (t @ [appended hn e m z])"
  using assms append_keeps[OF assms(2-4)] unfolding safe_def by blast

lemma safe_draw: "safe hn d q x t \<Longrightarrow> safe hn (insert u d) q x t"
  unfolding safe_def ids_inv_def claims_inv_def by blast

lemma safe_weaken: "safe hn d q x t \<Longrightarrow> (q' \<Longrightarrow> q) \<Longrightarrow> safe hn d q' x t"
  by (simp add: safe_def)

lemma claim_result:
  assumes "ledger_wf s" "ledger_claim a now ttl s = (Inr (Some c), s')"
  obtains r where "map_of (st_records s) (rr_response_id (cl_record c)) = Some r" "rr_attempt r = UNCLAIMED"
    "map_of (st_records s') (rr_response_id (cl_record c)) = Some (cl_record c)" "rr_attempt (cl_record c) = Attempt 1"
proof -
  have "claim_loop a now ttl (st_queued s) s = (Some c, s')"
    using assms(2) by (cases "claim_loop a now ttl (st_queued s) s") (auto simp: ledger_claim_def guard_writable_def split: if_splits)
  from claim_loop_cases[OF this] obtain rid r rest where r: "map_of (st_records s) rid = Some r" "rr_status r = Queued"
    and c: "cl_record c = r\<lparr>rr_attempt := attempt_next (rr_attempt r), rr_status := InProgress, rr_owner := Some a\<rparr>"
    and s': "s' = s\<lparr>st_queued := rest, st_records := AList.update rid (cl_record c) (st_records s),
             st_heartbeats := AList.update a now (st_heartbeats s)\<rparr>"
    by auto
  have "rr_attempt r = UNCLAIMED" using ledger_wf_record_ok[OF assms(1) r(1)] r(2) by (simp add: record_ok_def)
  moreover have "rr_response_id (cl_record c) = rid" using records_wf_id[OF ledger_wfD(1)[OF assms(1)] r(1)] by (simp add: c)
  ultimately show thesis
    using r that by (simp add: s' c UNCLAIMED_def attempt_next_def sat_add_def u64_max_def)
qed

lemma safe_claim:
  assumes s: "safe hn d q x t" and fmt: "inj (hn_fmt hn)"
    and c: "via_store (ledger_claim a now ttl) x = (Inr (Some c), y)"
  shows "safe hn d q y (t @ [ResponseClaimed (shown hn (rr_response_id (cl_record c))) f (at_no (rr_attempt (cl_record c))) m])"
    "rid_node (rr_response_id (cl_record c)) = ct_node_tag y"
proof -
  let ?rid = "rr_response_id (cl_record c)"
  have y: "safe hn d q y t" using safe_calm[OF s calm_calls(1)[of x a now ttl]] c by simp
  have lc: "ledger_claim a now ttl (w_store (ct_world x)) = (Inr (Some c), w_store (ct_world y))"
    using c by (auto simp: via_store_eq prod_eq_iff)
  obtain r where r: "map_of (st_records (w_store (ct_world x))) ?rid = Some r" "rr_attempt r = UNCLAIMED"
    "map_of (st_records (w_store (ct_world y))) ?rid = Some (cl_record c)" "rr_attempt (cl_record c) = Attempt 1"
    using claim_result[OF world_wfD(1)[OF safe_wf[OF s]] lc] by blast
  have id: "rid_node ?rid = ct_node_tag y" "rid_uuid ?rid \<in> d" using y r(3) by (auto simp: safe_def ids_inv_def)
  show "rid_node ?rid = ct_node_tag y" by (rule id(1))
  have tag: "ct_node_tag y = ct_node_tag x" using calm_calls(1)[of x a now ttl] c by (simp add: calm_def)
  have "b = 0" if "(shown hn ?rid, b) \<in> set (claims_of t)" for b
  proof -
    have "claims_inv hn d x t" using s by (simp add: safe_def)
    then have "b \<le> at_no (rr_attempt r)" using that id(1) r(1) tag unfolding claims_inv_def by simp
    then show ?thesis using r(2) by (simp add: UNCLAIMED_def)
  qed
  then have new: "(shown hn ?rid, 1) \<notin> set (claims_of t)" by auto
  have same: "rid = ?rid" if "rid_node rid = ct_node_tag y" "shown hn rid = shown hn ?rid" for rid
    using shown_inj[OF fmt] that id(1) by simp
  have cl: "claims_inv hn d y t" using y by (simp add: safe_def)
  have "claims_inv hn d y (t @ [ResponseClaimed (shown hn ?rid) f (at_no (rr_attempt (cl_record c))) m])"
    unfolding claims_inv_def
  proof (intro conjI allI impI)
    fix rid b
    assume a: "rid_node rid = ct_node_tag y \<and>
      (shown hn rid, b) \<in> set (claims_of (t @ [ResponseClaimed (shown hn ?rid) f (at_no (rr_attempt (cl_record c))) m]))"
    then have or: "(shown hn rid, b) \<in> set (claims_of t) \<or> (rid = ?rid \<and> b = 1)" using same r(4) by auto
    then show "rid_uuid rid \<in> d" using cl a id(2) unfolding claims_inv_def by blast
    fix row assume "map_of (st_records (w_store (ct_world y))) rid = Some row"
    then show "b \<le> at_no (rr_attempt row)"
      using cl a r(3,4) or unfolding claims_inv_def by auto
  qed (use cl new r(4) in \<open>simp_all add: claims_inv_def no_stale_append_snoc\<close>)
  moreover have "keys_inv hn y (t @ [ResponseClaimed (shown hn ?rid) f (at_no (rr_attempt (cl_record c))) m])"
    "q \<longrightarrow> seqs_inv hn y (t @ [ResponseClaimed (shown hn ?rid) f (at_no (rr_attempt (cl_record c))) m])"
    using y by (auto simp: safe_def keys_inv_def seqs_inv_def created_under_def)
  ultimately show "safe hn d q y (t @ [ResponseClaimed (shown hn ?rid) f (at_no (rr_attempt (cl_record c))) m])"
    using y by (simp add: safe_def)
qed

text \<open>A create: either a new row under the fresh id, or nothing changed.\<close>

lemma create_result:
  assumes "ledger_create cx ig r0 key s = (Inr oc, s')" "ledger_wf s"
  shows "(\<exists>r. oc = Accepted r \<and> rr_response_id r = rr_response_id r0 \<and> map_of (st_idem s) key = None \<and>
        map_of (st_records s') = (map_of (st_records s))(rr_response_id r0 \<mapsto> r) \<and>
        map_of (st_idem s') = (map_of (st_idem s))(key \<mapsto> rr_response_id r0)) \<or>
      (\<exists>r. oc = Duplicate r \<and> s' = s \<and> map_of (st_idem s) key = Some (rr_response_id r) \<and>
        map_of (st_records s) (rr_response_id r) = Some r) \<or>
      (oc = OutcomeReadOnly \<or> oc = Overloaded) \<and> s' = s"
  using assms(1) records_wf_id[OF ledger_wfD(1)[OF assms(2)]]
  by (auto simp: ledger_create_def insert_record_def Let_def sign_same split: sum.splits option.splits if_splits)

lemma create_safe_frame:
  assumes s: "safe hn d q x t" and fresh: "u \<notin> d" and r: "rr_response_id r = ResponseId (ct_node_tag x) u" "record_ok r"
    and y: "via_store (ledger_create cx ig r k) x = (Inr oc, y)"
  shows "ids_inv (insert u d) y" "claims_inv hn (insert u d) y t" "q \<longrightarrow> seqs_inv hn y t"
    "ct_node_tag y = ct_node_tag x"
proof -
  let ?rid = "ResponseId (ct_node_tag x) u"
  have lc: "ledger_create cx ig r k (w_store (ct_world x)) = (Inr oc, w_store (ct_world y))"
    and yx: "y = x\<lparr>ct_world := (ct_world x)\<lparr>w_store := w_store (ct_world y)\<rparr>\<rparr>"
    using y by (auto simp: via_store_eq prod_eq_iff)
  have same: "ct_node_tag y = ct_node_tag x" "ct_last y = ct_last x" "ct_labels y = ct_labels x" "w_log (ct_world y) = w_log (ct_world x)"
    by (subst yx, simp)+
  have none: "map_of (st_records (w_store (ct_world x))) ?rid = None"
    using s fresh unfolding safe_def ids_inv_def by (cases "map_of (st_records (w_store (ct_world x))) ?rid") fastforce+
  have rows: "map_of (st_records (w_store (ct_world y))) rid = map_of (st_records (w_store (ct_world x))) rid" if "rid \<noteq> ?rid" for rid
    using ledger_create_other_rows[of rid r cx ig k "w_store (ct_world x)"] that lc r(1) by simp
  have conv: "st_conversations (w_store (ct_world y)) = st_conversations (w_store (ct_world x))"
    using conv_part_D(2)[of "w_store (ct_world y)" "w_store (ct_world x)"] ledger_ops_conv_part(1)[of cx ig r k "w_store (ct_world x)"] lc by simp
  have "world_wf ((ct_world x)\<lparr>w_store := w_store (ct_world y)\<rparr>)"
    using ledger_create_wf[OF world_wfD(1)[OF safe_wf[OF s]] r(2), of cx ig k] none r(1) lc
      world_wf_ledger[OF safe_wf[OF s], of "w_store (ct_world y)"] ledger_ops_conv_part(1)[of cx ig r k "w_store (ct_world x)"] by simp
  then have wf: "world_wf (ct_world y)" by (subst yx) simp
  have "rid_node rid = ct_node_tag y \<and> rid_uuid rid \<in> insert u d" if "map_of (st_records (w_store (ct_world y))) rid = Some r'" for rid r'
    using that rows[of rid] s same(1) unfolding safe_def ids_inv_def by (cases "rid = ?rid") auto
  then show "ids_inv (insert u d) y" using wf s same conv unfolding safe_def ids_inv_def by auto
  have c: "claims_inv hn d x t" using s by (simp add: safe_def)
  show "claims_inv hn (insert u d) y t"
    unfolding claims_inv_def
  proof (intro conjI allI impI)
    fix rid b assume a: "rid_node rid = ct_node_tag y \<and> (shown hn rid, b) \<in> set (claims_of t)"
    then have m: "rid_uuid rid \<in> d" using c unfolding claims_inv_def same(1) by blast
    then show "rid_uuid rid \<in> insert u d" by simp
    have "rid \<noteq> ?rid" using m fresh by auto
    fix row assume "map_of (st_records (w_store (ct_world y))) rid = Some row"
    then show "b \<le> at_no (rr_attempt row)" using a c rows[OF \<open>rid \<noteq> ?rid\<close>] unfolding claims_inv_def same(1) by simp
  qed (use c in \<open>simp_all add: claims_inv_def\<close>)
  show "q \<longrightarrow> seqs_inv hn y t" using s same by (simp add: safe_def seqs_inv_def)
  show "ct_node_tag y = ct_node_tag x" by (rule same(1))
qed

lemma safe_create:
  assumes s: "safe hn d q x t" and fresh: "u \<notin> d" and r: "rr_response_id r = ResponseId (ct_node_tag x) u" "record_ok r"
    and y: "via_store (ledger_create cx ig r (IdempotencyKey key)) x = (Inr oc, y)"
    and oc: "outcome_label (ResponseId (ct_node_tag x) u) oc = (rid, lab)"
  shows "safe hn (insert u d) q y (t @ [ResponseCreated (shown hn rid) key lab st p m])" "rid_node rid = ct_node_tag y"
proof -
  note fr = create_safe_frame[OF s fresh r y]
  have lc: "ledger_create cx ig r (IdempotencyKey key) (w_store (ct_world x)) = (Inr oc, w_store (ct_world y))"
    using y by (auto simp: via_store_eq prod_eq_iff)
  note res = create_result[OF lc world_wfD(1)[OF safe_wf[OF s]]]
  have "rid_node rid' = ct_node_tag x" if "map_of (st_records (w_store (ct_world x))) rid' = Some r'" for rid' r'
    using s that unfolding safe_def ids_inv_def by blast
  moreover have "rid_node (rr_response_id r) = ct_node_tag x" by (simp add: r(1))
  ultimately show "rid_node rid = ct_node_tag y" using res oc fr(4) by auto
  let ?e = "ResponseCreated (shown hn rid) key lab st p m"
  have k: "keys_inv hn x t" using s by (simp add: safe_def)
  have "keys_inv hn y (t @ [?e])"
    unfolding keys_inv_def
  proof (intro allI impI)
    fix key' r' assume "r' \<in> created_under key' (t @ [?e])"
    then consider "r' \<in> created_under key' t" | "key' = key" "r' = shown hn rid" "kept lab" by (auto simp: created_under_def)
    then show "\<exists>rid. r' = shown hn rid \<and> map_of (st_idem (w_store (ct_world y))) (IdempotencyKey key') = Some rid"
    proof cases
      case 1
      then show ?thesis using k res unfolding keys_inv_def by fastforce
    next
      case 2
      then show ?thesis using res oc by (auto simp: kept_def r(1))
    qed
  qed
  moreover have eqs: "claims_of (t @ [?e]) = claims_of t" "no_stale_append (t @ [?e]) = no_stale_append t"
      "\<And>q. appended_seqs q (t @ [?e]) = appended_seqs q t"
    by (simp_all add: no_stale_append_snoc)
  moreover have "claims_inv hn (insert u d) y (t @ [?e])" "q \<longrightarrow> seqs_inv hn y (t @ [?e])"
    using fr(2,3) unfolding claims_inv_def seqs_inv_def eqs by blast+
  ultimately show "safe hn (insert u d) q y (t @ [?e])" using fr(1) by (simp add: safe_def)
qed

text \<open>The remaining calls.\<close>

lemma conv_create_result:
  "conv_create c s = (Inr c', s') \<Longrightarrow>
    c' = c \<and> map_of (st_conversations s') = (map_of (st_conversations s))(cv_id c \<mapsto> c)"
  by (auto simp: conv_create_def insert_conversation_def split: sum.splits if_splits)

lemma conv_create_safe:
  assumes s: "safe hn d q x t" and fresh: "u \<notin> d"
    and y: "via_store (conv_create (Conversation_new (ConversationId u) tn m now)) x = (Inr c, y)"
  shows "safe hn (insert u d) q y t" "cv_id c = ConversationId u"
proof -
  let ?c = "Conversation_new (ConversationId u) tn m now"
  have lc: "conv_create ?c (w_store (ct_world x)) = (Inr c, w_store (ct_world y))"
    and yx: "y = x\<lparr>ct_world := (ct_world x)\<lparr>w_store := w_store (ct_world y)\<rparr>\<rparr>"
    using y by (auto simp: via_store_eq prod_eq_iff)
  have same: "ct_node_tag y = ct_node_tag x" "ct_last y = ct_last x" "ct_labels y = ct_labels x" "w_log (ct_world y) = w_log (ct_world x)"
    by (subst yx, simp)+
  have drawn: "cid_uuid cid \<in> d" if "map_of (st_conversations (w_store (ct_world x))) cid = Some c'" for cid c'
    using s that unfolding safe_def ids_inv_def by blast
  have none: "map_of (st_conversations (w_store (ct_world x))) (ConversationId u) = None"
    using drawn[of "ConversationId u"] fresh by (cases "map_of (st_conversations (w_store (ct_world x))) (ConversationId u)") simp_all
  have part: "ledger_part (w_store (ct_world y)) = ledger_part (w_store (ct_world x))"
    using lc conv_ops_ledger_part(1)[of ?c "w_store (ct_world x)"] by simp
  note fields = ledger_part_D(2,4)[OF part]
  have "conv_wf (w_store (ct_world y))"
    using conv_create_wf[OF world_wfD(2)[OF safe_wf[OF s]], of ?c] none lc by (simp add: Conversation_new_def)
  then have "world_wf ((ct_world x)\<lparr>w_store := w_store (ct_world y)\<rparr>)" by (rule world_wf_conv[OF safe_wf[OF s] part])
  then have wf: "world_wf (ct_world y)" by (subst yx) simp
  have "cid_uuid cid \<in> insert u d" if "cid \<in> dom (map_of (st_conversations (w_store (ct_world y))))" for cid
    using that conv_create_result[OF lc] drawn by (auto simp: Conversation_new_def split: if_splits)
  then have "ids_inv (insert u d) y" using s wf unfolding safe_def ids_inv_def same fields by blast
  moreover have "claims_inv hn (insert u d) y t" "keys_inv hn y t" "q \<longrightarrow> seqs_inv hn y t"
    using s unfolding safe_def claims_inv_def keys_inv_def seqs_inv_def same fields by blast+
  ultimately show "safe hn (insert u d) q y t" by (simp add: safe_def)
  show "cv_id c = ConversationId u"
    using conv_create_result[OF lc] by (simp add: Conversation_new_def)
qed

lemma calm_switch:
  "calm x (snd (via_store (\<lambda>s. ((), set_read_only b s)) x))"
  "calm x (snd (via_store (\<lambda>s. ((), set_unavailable b s)) x))"
  "calm x (snd (via_store (\<lambda>s. ((), set_pending_limit n s)) x))"
  by (simp_all add: calm_def via_store_eq set_read_only_def set_unavailable_def set_pending_limit_def world_wf_def rows_advance_def)

lemma tamper_wf:
  assumes "ledger_wf s"
  shows "ledger_wf (snd (tamper_for_test rid items s))"
proof (cases "map_of (st_records s) rid")
  case (Some r)
  let ?r = "r\<lparr>rr_spec := (rr_spec r)\<lparr>ts_input_items := items\<rparr>\<rparr>"
  let ?s = "s\<lparr>st_records := AList.update rid ?r (st_records s)\<rparr>"
  note w = ledger_wfD[OF assms]
  have "records_wf ?s" using w Some by (auto intro: records_wf_update)
  moreover have "record_ok ?r"
    using ledger_wf_record_ok[OF assms Some] by (cases "rr_status r") (simp_all add: record_ok_def UNCLAIMED_def)
  then have "records_all record_ok ?s" using w(2) by (simp add: records_all_update)
  moreover have "queue_ok ?s" using w(3) Some by (auto simp: queue_ok_def)
  moreover have "partial_ok ?s" using w(4) by (auto simp: partial_ok_def)
  moreover have "expiry_ok ?s" using w(5) Some by (auto simp: expiry_ok_def)
  ultimately show ?thesis using Some by (simp add: tamper_for_test_def ledger_wf_def)
qed (use assms in \<open>simp add: tamper_for_test_def\<close>)

lemma calm_tamper: "calm x (snd (via_store (tamper_for_test rid items) x))"
proof (rule calm_ledger)
  fix s
  show "ledger_wf s \<Longrightarrow> ledger_wf (snd (tamper_for_test rid items s)) \<and> rows_advance s (snd (tamper_for_test rid items s))"
    by (cases "map_of (st_records s) rid") (simp_all add: tamper_wf, simp_all add: tamper_for_test_def rows_advance_def)
  show "conv_part (snd (tamper_for_test rid items s)) = conv_part s" "st_idem (snd (tamper_for_test rid items s)) = st_idem s"
    by (simp_all add: tamper_for_test_def conv_part_def split: option.split)
qed

lemma calm_close: "calm x (snd (via_log (event_close rid now retain) x))"
proof -
  have "next_seq_of (snd (event_close rid now retain g)) = next_seq_of g" for g
    by (auto simp: event_close_def next_seq_of_def fun_eq_iff split: option.split)
  then show ?thesis by (simp add: calm_def via_log_eq world_wf_log wf_intro world_wfD rows_advance_refl)
qed

lemma sweep_safe:
  assumes "safe hn d q x t"
  shows "safe hn d False (snd (via_log (event_sweep_expired now) x)) t"
proof -
  let ?y = "snd (via_log (event_sweep_expired now) x)"
  have "world_wf (ct_world ?y)" using safe_wf[OF assms] by (simp add: via_log_eq world_wf_log wf_intro world_wfD)
  moreover have same: "w_store (ct_world ?y) = w_store (ct_world x)" "ct_node_tag ?y = ct_node_tag x" "ct_last ?y = ct_last x"
    "ct_labels ?y = ct_labels x" by (simp_all add: via_log_eq)
  ultimately show ?thesis using assms unfolding safe_def ids_inv_def claims_inv_def keys_inv_def same by blast
qed

section \<open>Every step keeps a context safe\<close>

text \<open>
  The steps after which the recorded sequence numbers may no longer be those of one stream: an
  announced item is recorded under number 0, and a sweep may drop a stream that then starts again.
\<close>

fun plain :: "step \<Rightarrow> bool" where
  "plain (AppendDelta _ _ open_item _) = (\<not> open_item)"
| "plain (SweepEventLogs _) = False"
| "plain _ = True"

lemma safe_frame:
  assumes "safe hn d q x t" "ct_world y = ct_world x" "ct_node_tag y = ct_node_tag x"
    and "\<forall>rid. ct_last y = Some rid \<longrightarrow> rid_node rid = ct_node_tag x"
    and "\<forall>l rid. map_of (ct_labels y) l = Some rid \<longrightarrow> rid_node rid = ct_node_tag x"
  shows "safe hn d q y t"
  using assms unfolding safe_def ids_inv_def claims_inv_def keys_inv_def seqs_inv_def assms(2,3) by blast

lemma safe_names:
  assumes "safe hn d q x t"
  shows "\<forall>rid. ct_last x = Some rid \<longrightarrow> rid_node rid = ct_node_tag x"
    "\<forall>l rid. map_of (ct_labels x) l = Some rid \<longrightarrow> rid_node rid = ct_node_tag x"
  using assms unfolding safe_def ids_inv_def by blast+

lemma safe_remember:
  assumes "safe hn d q x t" "rid_node rid = ct_node_tag x"
  shows "safe hn d q (remember label rid x) t"
  using safe_names[OF assms(1)] assms(2)
  by (intro safe_frame[OF assms(1)]) (auto simp: remember_def split: option.splits if_splits)

lemma safe_last:
  assumes "safe hn d q x t" "rid_node rid = ct_node_tag x"
  shows "safe hn d q (x\<lparr>ct_last := Some rid, ct_last_attempt := att\<rparr>) t"
  by (rule safe_frame[OF assms(1)]) (use safe_names[OF assms(1)] assms(2) in simp_all)

lemma safe_clock:
  assumes "safe hn d q x t"
  shows "safe hn d q (x\<lparr>ct_now_ms := now\<rparr>) t"
  by (rule safe_frame[OF assms]) (use safe_names[OF assms] in simp_all)

lemma safe_resolve: "safe hn d q x t \<Longrightarrow> ctx_resolve x spec = Inr rid \<Longrightarrow> rid_node rid = ct_node_tag x"
  using safe_names[of hn d q x t] by (auto simp: ctx_resolve_def split: if_splits option.splits)

lemma via_append_tag: "via_append e x = (Inr n, y) \<Longrightarrow> ct_node_tag y = ct_node_tag x"
  by (subst via_append_ok(1), assumption) simp

lemma record_created_safe:
  assumes fmt: "inj (hn_fmt hn)" and x: "rid_node rid = ct_node_tag x"
    "safe hn d q x (t @ [ResponseCreated (shown hn rid) key lab store (map_option (shown hn) prev) (ct_now_ms x)])"
    and e: "record_created hn key store prev label rid lab x = Some (Inr (y, es))"
  shows "safe hn d q y (t @ es)"
proof -
  let ?c = "ResponseCreated (shown hn rid) key lab store (map_option (shown hn) prev) (ct_now_ms x)"
  let ?s = "if store \<and> lab = ''accepted'' then [ContentStored (shown hn rid) True (ct_now_ms x)] else []"
  let ?e = "lifecycle rid EvCreated (ResponseObject_terminal_stub (hn_fmt hn) rid Queued)"
  have xs: "safe hn d q x (t @ ?c # ?s)" using safe_neutral[OF x(2), of ?s] by simp
  show ?thesis
  proof (cases "lab = ''accepted''")
    case True
    obtain n x2 where ap: "via_append ?e x = (Inr n, x2)" and y: "y = remember label rid x2" "es = ?c # ?s @ [appended hn ?e n x]"
      using e True by (auto simp: record_created_def Let_def attempt_in_Inr split: prod.splits)
    have "safe hn d q x2 ((t @ ?c # ?s) @ [appended hn ?e n x])"
      using safe_append[OF xs fmt ap] x(1) by (simp add: lifecycle_def)
    then have "safe hn d q (remember label rid x2) ((t @ ?c # ?s) @ [appended hn ?e n x])"
      using x(1) via_append_tag[OF ap] by (intro safe_remember) simp_all
    then show ?thesis by (simp add: y)
  next
    case False
    then show ?thesis using e xs safe_remember[OF xs x(1)] by (auto simp: record_created_def Let_def)
  qed
qed

lemma key_parse: "IdempotencyKey_parse key = Inr k \<Longrightarrow> k = IdempotencyKey key"
  by (simp add: IdempotencyKey_parse_def split: if_splits)

lemma via_store_now: "ct_now_ms (snd (via_store f x)) = ct_now_ms x"
  by (simp add: via_store_eq)

lemma create_response_safe:
  assumes fmt: "inj (hn_fmt hn)" and s: "safe hn d q x t" and fresh: "u \<notin> d"
    and e: "exec_create_response hn u input key store previous tenant instructions label conversation expected x = Some (Inr (y, es))"
  shows "safe hn (insert u d) q y (t @ es)"
proof -
  let ?rid = "ResponseId (ct_node_tag x) u"
  obtain tn prev anchor oc where st: "fst (via_store (ledger_create (hn_codec hn) (hn_integrity hn)
      (queued_record ?rid tn input store instructions anchor (IdempotencyKey key) (ct_now_ms x)) (IdempotencyKey key)) x) = Inr oc"
    and rest: "record_created hn key store prev label (fst (outcome_label ?rid oc)) (snd (outcome_label ?rid oc))
      (snd (via_store (ledger_create (hn_codec hn) (hn_integrity hn)
        (queued_record ?rid tn input store instructions anchor (IdempotencyKey key) (ct_now_ms x)) (IdempotencyKey key)) x)) =
      Some (Inr (y, es))"
    using e unfolding exec_create_response_def attempt_in_Inr Let_def case_prod_unfold if_bail
    by (elim exE conjE) (drule key_parse, hypsubst, rule that, assumption+)
  let ?r = "queued_record ?rid tn input store instructions anchor (IdempotencyKey key) (ct_now_ms x)"
  let ?v = "via_store (ledger_create (hn_codec hn) (hn_integrity hn) ?r (IdempotencyKey key)) x"
  have r: "rr_response_id ?r = ?rid" "record_ok ?r"
    by (simp add: queued_record_def ResponseRecord_queued_def, simp add: queued_record_def)
  have v: "?v = (Inr oc, snd ?v)" using st by (simp add: prod_eq_iff)
  have l: "outcome_label ?rid oc = (fst (outcome_label ?rid oc), snd (outcome_label ?rid oc))" by simp
  from record_created_safe[OF fmt _ _ rest] safe_create[OF s fresh r v l]
  show ?thesis by (simp add: via_store_now)
qed

lemma claim_safe:
  assumes fmt: "inj (hn_fmt hn)" and s: "safe hn d q x t" and e: "exec_claim hn u expected x = Some (Inr (y, es))"
  shows "safe hn d q y (t @ es)"
proof -
  let ?v = "via_store (ledger_claim (AgentId u) (ct_now_ms x) 60000) x"
  have calm: "safe hn d q (snd ?v) t" by (rule safe_calm[OF s calm_calls(1)])
  obtain claimed where cl: "fst ?v = Inr claimed"
    using e unfolding exec_claim_def case_prod_unfold attempt_in_Inr by blast
  show ?thesis
  proof (cases claimed)
    case None
    then show ?thesis using e cl calm
      by (auto simp: exec_claim_def case_prod_unfold attempt_in_Inr Let_def if_bail split: if_splits)
  next
    case (Some c)
    let ?rid = "rr_response_id (cl_record c)" let ?att = "rr_attempt (cl_record c)"
    let ?e = "lifecycle_with_attempt ?rid EvInProgress ?att (ResponseObject_terminal_stub (hn_fmt hn) ?rid InProgress)"
    let ?c = "ResponseClaimed (shown hn ?rid) u (at_no ?att) (ct_now_ms x)"
    obtain n where n: "fst (via_append ?e (snd ?v)) = Inr n"
      and y: "y = snd (via_append ?e (snd ?v))\<lparr>ct_last := Some ?rid, ct_last_attempt := Some ?att\<rparr>"
      and es: "es = [?c, appended hn ?e n x]"
      using e cl Some by (auto simp: exec_claim_def case_prod_unfold attempt_in_Inr Let_def if_bail split: if_splits)
    have "?v = (Inr (Some c), snd ?v)" using cl Some by (simp add: prod_eq_iff)
    note claimed = safe_claim(1)[OF s fmt this, where f = u and m = "ct_now_ms x"] safe_claim(2)[OF s fmt this]
    have ap: "via_append ?e (snd ?v) = (Inr n, snd (via_append ?e (snd ?v)))" using n by (simp add: prod_eq_iff)
    have "safe hn d q (snd (via_append ?e (snd ?v))) ((t @ [?c]) @ [appended hn ?e n x])"
      using safe_append[OF claimed(1) fmt ap] claimed(2) by (simp add: lifecycle_with_attempt_def)
    then have "safe hn d q y ((t @ [?c]) @ [appended hn ?e n x])"
      unfolding y using claimed(2) via_append_tag[OF ap] by (intro safe_last) simp_all
    then show ?thesis by (simp add: es)
  qed
qed

lemma append_delta_safe:
  assumes fmt: "inj (hn_fmt hn)" and s: "safe hn d q x t"
    and e: "exec_append_delta hn payload att open_item stale x = Some (Inr (y, es))"
  shows "safe hn d (q \<and> \<not> open_item) y (t @ es)"
proof -
  obtain rid where rid: "ctx_resolve x None = Inr rid"
    using e unfolding exec_append_delta_def attempt_in_Inr by blast
  note node = safe_resolve[OF s rid]
  let ?a = "case att of Some n \<Rightarrow> Attempt n | None \<Rightarrow> (case ct_last_attempt x of Some z \<Rightarrow> z | None \<Rightarrow> Attempt 1)"
  let ?e0 = "item_event rid ?a False 0 (Message Assistant [] (Some ''m0'') (Some ItemInProgress))"
  let ?e1 = "text_delta rid ?a [] 0 0 (case payload of Some p \<Rightarrow> p | None \<Rightarrow> ''delta'')"
  have ids: "ae_response_id ?e0 = rid" "ae_response_id ?e1 = rid" by (simp_all add: item_event_def text_delta_def)
  obtain p where o': "(if open_item then (case via_append ?e0 x of (Inl err, _) \<Rightarrow> Inl err | (Inr _, x1) \<Rightarrow> Inr (x1, [appended hn ?e0 0 x]))
      else Inr (x, [])) = Inr p"
    and k': "(case p of (x1, t1) \<Rightarrow> case via_append ?e1 x1 of (res, x2) \<Rightarrow>
        if stale
        then (if res = Inl EStaleAttempt
              then ok_step x2 (t1 @ [EventAppendRejected (shown hn rid) (Some (at_no ?a)) ''stale_attempt'' (ct_now_ms x)])
              else bail ''expected stale attempt rejection'')
        else attempt_in LogFailed res (\<lambda>n. ok_step x2 (t1 @ [appended hn ?e1 n x]))) = Some (Inr (y, es))"
    using e unfolding exec_append_delta_def rid attempt_in_ok Let_def unfolding attempt_in_Inr by blast
  obtain x1 t1 where p: "p = (x1, t1)" by fastforce
  note o = o'[unfolded p] and k = k'[unfolded p prod.case]
  have "safe hn d (q \<and> \<not> open_item) x1 (t @ t1) \<and> ct_node_tag x1 = ct_node_tag x"
  proof (cases open_item)
    case True
    then obtain n where ap: "via_append ?e0 x = (Inr n, x1)" "t1 = [appended hn ?e0 0 x]"
      using o by (auto split: prod.splits sum.splits)
    have "safe hn d False x t" using s by (simp add: safe_def)
    then show ?thesis
      using safe_append[OF _ fmt ap(1), where q = False] node ids via_append_tag[OF ap(1)] True ap(2) by simp_all
  qed (use o s in simp)
  note x1 = conjunct1[OF this] conjunct2[OF this]
  show ?thesis
  proof (cases "fst (via_append ?e1 x1)")
    case (Inl err)
    then have "snd (via_append ?e1 x1) = x1" using via_append_fails[of ?e1 x1 err] by (simp add: prod_eq_iff)
    then show ?thesis using k Inl x1(1) safe_neutral[OF x1(1), of "[EventAppendRejected (shown hn rid) (Some (at_no ?a)) ''stale_attempt'' (ct_now_ms x)]"]
      by (auto simp: case_prod_unfold attempt_in_Inr if_bail split: if_splits)
  next
    case (Inr n)
    then have ap: "via_append ?e1 x1 = (Inr n, snd (via_append ?e1 x1))" by (simp add: prod_eq_iff)
    have "y = snd (via_append ?e1 x1)" "es = t1 @ [appended hn ?e1 n x]"
      using k Inr by (auto simp: case_prod_unfold attempt_in_Inr split: if_splits)
    then show ?thesis using safe_append[OF x1(1) fmt ap] node ids x1(2) by simp
  qed
qed

lemma complete_safe:
  assumes fmt: "inj (hn_fmt hn)" and s: "safe hn d q x t"
    and e: "exec_complete hn good out i o' x = Some (Inr (y, es))"
  shows "safe hn d q y (t @ es)"
proof -
  obtain rid where rid: "ctx_resolve x None = Inr rid"
    using e unfolding exec_complete_def attempt_in_Inr by blast
  obtain att where att: "ct_last_attempt x = Some att"
    using e unfolding exec_complete_def rid attempt_in_ok by (cases "ct_last_attempt x") simp_all
  let ?st = "if good then Completed else Failed"
  let ?e = "lifecycle rid (if good then EvCompleted else EvFailed) (ResponseObject_terminal_stub (hn_fmt hn) rid ?st)"
  let ?v = "via_store (ledger_complete rid att ?st (Usage_new i o') (ct_now_ms x)) x"
  obtain r where r: "ledger_get rid (w_store (ct_world x)) = Inr (Some r)"
    using e unfolding exec_complete_def rid att attempt_in_ok Let_def option.case
    by (cases "ledger_get rid (w_store (ct_world x))") (auto simp: attempt_in_def split: option.splits)
  obtain x2 n x4 where c: "commit_turn rid r out (Usage_new i o') ?st (snd ?v) = Some (Inr x2)"
    and ap: "fst (via_append ?e x2) = Inr n"
    and st: "settle_session r ?st (snd (via_append ?e x2)) = Some (Inr x4)"
    and y: "y = x4" and es: "es = [appended hn ?e n x, ResponseTerminal (shown hn rid) (status_as_str ?st) (ct_now_ms x)]"
    using e unfolding exec_complete_def rid att r attempt_in_ok Let_def option.case case_prod_unfold attempt_in_Inr and_then_Inr
    by auto
  have x2: "safe hn d q x2 t" "ct_node_tag x2 = ct_node_tag x"
    using safe_calm[OF safe_calm[OF s calm_calls(2)] commit_calm[OF c]] commit_calm[OF c]
      calm_calls(2)[of x rid att ?st "Usage_new i o'" "ct_now_ms x"] by (simp_all add: calm_def)
  have ap': "via_append ?e x2 = (Inr n, snd (via_append ?e x2))" using ap by (simp add: prod_eq_iff)
  have "safe hn d q (snd (via_append ?e x2)) (t @ [appended hn ?e n x])"
    using safe_append[OF x2(1) fmt ap'] safe_resolve[OF s rid] x2(2) by (simp add: lifecycle_def)
  then have "safe hn d q x4 (t @ [appended hn ?e n x])" by (rule safe_calm[OF _ settle_calm[OF st]])
  from safe_neutral[OF this, of "[ResponseTerminal (shown hn rid) (status_as_str ?st) (ct_now_ms x)]"]
  show ?thesis by (simp add: y es)
qed

text \<open>All other steps only make calm calls and record neutral events.\<close>

lemma calm_neutral_safe: "safe hn d q x t \<Longrightarrow> calm x y \<Longrightarrow> list_all neutral es \<Longrightarrow> safe hn d q y (t @ es)"
  by (rule safe_neutral[OF safe_calm])

lemma cancel_calm:
  assumes "exec_cancel hn tn expected x = Some (Inr (y, es))"
  shows "calm x y \<and> list_all neutral es"
proof -
  obtain rid t where rid: "ctx_resolve x None = Inr rid" and t: "ctx_tenant x tn = Inr t"
    using assms unfolding exec_cancel_def attempt_in_Inr by blast
  let ?v = "via_store (ledger_cancel t rid (ct_now_ms x)) x"
  have v: "calm x (snd ?v)" by (rule calm_calls)
  let ?ok = "(case expected of Some w \<Rightarrow> w | None \<Rightarrow> ''ok'') = ''ok'' \<and> fst ?v = Inr ()"
  show ?thesis
  proof (cases ?ok)
    case True
    obtain found where "and_then (case found of Some r \<Rightarrow> settle_session r Cancelled (snd ?v) | None \<Rightarrow> Some (Inr (snd ?v)))
        (\<lambda>x2. ok_step x2 [ResponseTerminal (shown hn rid) ''cancelled'' (ct_now_ms x)]) = Some (Inr (y, es))"
      using assms True unfolding exec_cancel_def rid t attempt_in_ok Let_def case_prod_unfold by (auto simp: attempt_in_Inr)
    then have "(case found of Some r \<Rightarrow> settle_session r Cancelled (snd ?v) | None \<Rightarrow> Some (Inr (snd ?v))) = Some (Inr y)"
      "es = [ResponseTerminal (shown hn rid) ''cancelled'' (ct_now_ms x)]"
      by (auto simp: and_then_Inr)
    then show ?thesis using v by (cases found) (auto intro: calm_trans dest: settle_calm)
  next
    case False
    then show ?thesis using assms v unfolding exec_cancel_def rid t attempt_in_ok Let_def case_prod_unfold
      by (auto simp: if_bail split: if_splits)
  qed
qed

lemma reap_each_calm:
  "exec_reap_each hn claims x = Some (Inr (y, es)) \<Longrightarrow> calm x y \<and> list_all neutral es"
proof (induction claims arbitrary: x y es)
  case Nil
  then show ?case by (simp add: calm_refl)
next
  case (Cons c claims)
  obtain x1 x2 t where x1: "(case ab_conversation_id c of
        Some cid \<Rightarrow> if ab_store c then archive_incomplete_turn (ab_tenant_id c) cid (ab_response_id c) (ab_input_items c) Failed x
          else Some (Inr x)
      | None \<Rightarrow> Some (Inr x)) = Some (Inr x1)"
    and x2: "release_session (ab_tenant_id c) (ab_conversation_id c) (ab_response_id c) Failed x1 = Some (Inr x2)"
    and rest: "exec_reap_each hn claims x2 = Some (Inr (y, t))"
    and es: "es = ResponseTerminal (shown hn (ab_response_id c)) ''failed'' (ct_now_ms x) # t"
    using Cons.prems by (auto simp: and_then_Inr)
  have "calm x x1" using x1 by (auto simp: calm_refl dest: archive_calm split: option.splits if_splits)
  then show ?case using Cons.IH[OF rest] release_calm[OF x2] es by (auto intro: calm_trans)
qed

lemma reap_calm:
  assumes "exec_reap hn x = Some (Inr (y, es))"
  shows "calm x y \<and> list_all neutral es"
proof -
  let ?v = "via_store (ledger_reap (ct_now_ms x) 0) x"
  obtain aborted t where r: "exec_reap_each hn aborted (snd ?v) = Some (Inr (y, t))"
    and es: "es = t @ [MockState ''ledger'' (''reaped='' @ dec (length aborted)) (ct_now_ms x)]"
    using assms unfolding exec_reap_def case_prod_unfold attempt_in_Inr and_then_Inr by auto
  show ?thesis using reap_each_calm[OF r] calm_trans[OF calm_calls(4)] es by auto
qed

lemma simple_step_calm:
  assumes "exec hn u st x = Some (Inr (y, es))"
    and "case st of CreateConversation _ _ \<Rightarrow> False | CreateResponse _ _ _ _ _ _ _ _ _ \<Rightarrow> False | Claim _ \<Rightarrow> False
      | AppendDelta _ _ _ _ \<Rightarrow> False | Complete _ _ _ _ \<Rightarrow> False | SweepEventLogs _ \<Rightarrow> False | AdvanceMs _ \<Rightarrow> False | _ \<Rightarrow> True"
  shows "calm x y \<and> list_all neutral es"
proof (cases st)
  case (Cancel tn expected)
  then show ?thesis using assms cancel_calm by simp
next
  case Reap
  then show ?thesis using assms reap_calm by simp
next
  case (CloseLog r)
  then show ?thesis using assms(1) calm_close by (auto simp: exec_close_log_def case_prod_unfold attempt_in_Inr)
next
  case (TamperContent tg)
  then show ?thesis using assms(1) calm_tamper by (auto simp: exec_tamper_content_def case_prod_unfold attempt_in_Inr if_bail)
next
  case (DeleteResponse tg e)
  then show ?thesis using assms(1) calm_calls(6) by (auto simp: exec_delete_response_def case_prod_unfold attempt_in_Inr if_bail)
next
  case (PurgeTenant tn m)
  then show ?thesis using assms(1) calm_calls(7) by (auto simp: exec_purge_tenant_def case_prod_unfold attempt_in_Inr if_bail)
next
  case (RecordPartialUsage i o')
  then show ?thesis using assms(1) calm_calls(5)
    by (auto simp: exec_record_partial_usage_def Let_def case_prod_unfold attempt_in_Inr)
next
  case (ExpectIntegrityOk tg)
  then show ?thesis using assms(1)
    by (auto simp: exec_expect_integrity_ok_def attempt_in_Inr calm_refl ledger_get_def)
next
  case (SetExpiry tg e)
  then show ?thesis using assms(1) by (auto simp: exec_set_expiry_def attempt_in_Inr calm_refl split: option.splits)
next
  case (ResolveChain a b c d e f)
  then show ?thesis using assms(1)
    unfolding ResolveChain exec.simps exec_resolve_chain_def attempt_in_Inr Let_def if_bail by (auto simp: calm_refl)
next
  case (ResumeStartingAfter a b c)
  then show ?thesis using assms(1) unfolding ResumeStartingAfter exec.simps exec_resume_def attempt_in_Inr if_bail by (auto simp: calm_refl)
next
  case (ExpectStored a b c)
  then show ?thesis using assms(1) unfolding ExpectStored exec.simps exec_expect_stored_def attempt_in_Inr if_bail by (auto simp: calm_refl)
qed (use assms calm_switch in \<open>auto simp: exec_expect_expired_def exec_expect_chain_error_def exec_sweep_expired_content_def
    exec_expect_integrity_mismatch_def exec_expect_partial_usage_def exec_set_switch_def Let_def attempt_in_Inr if_bail calm_refl
    split: if_splits\<close>)

lemma exec_safe:
  assumes fmt: "inj (hn_fmt hn)" and s: "safe hn d q x t" and fresh: "u \<notin> d" and e: "exec hn u st x = Some (Inr (y, es))"
  shows "safe hn (insert u d) (q \<and> plain st) y (t @ es)"
proof -
  have simple: "safe hn (insert u d) (q \<and> plain st) y (t @ es)"
    if "case st of CreateConversation _ _ \<Rightarrow> False | CreateResponse _ _ _ _ _ _ _ _ _ \<Rightarrow> False | Claim _ \<Rightarrow> False
      | AppendDelta _ _ _ _ \<Rightarrow> False | Complete _ _ _ _ \<Rightarrow> False | SweepEventLogs _ \<Rightarrow> False | AdvanceMs _ \<Rightarrow> False | _ \<Rightarrow> True"
    using simple_step_calm[OF e that] calm_neutral_safe[OF safe_draw[OF s, of u], of y es] by (auto intro: safe_weaken)
  show ?thesis
  proof (cases st)
    case (CreateConversation label tn)
    obtain tid c where c: "via_store (conv_create (Conversation_new (ConversationId u) tid [] (ct_now_ms x))) x =
        (Inr c, snd (via_store (conv_create (Conversation_new (ConversationId u) tid [] (ct_now_ms x))) x))"
      and y: "y = snd (via_store (conv_create (Conversation_new (ConversationId u) tid [] (ct_now_ms x))) x)
        \<lparr>ct_convs := AList.update label (cv_id c) (ct_convs (snd (via_store (conv_create (Conversation_new (ConversationId u) tid [] (ct_now_ms x))) x)))\<rparr>"
      and es: "es = [MockState ''conversation'' (''created='' @ ConversationId_display (hn_fmt hn) (cv_id c)) (ct_now_ms x)]"
      using e CreateConversation by (auto simp: exec_create_conversation_def case_prod_unfold attempt_in_Inr prod_eq_iff)
    note s1 = conv_create_safe(1)[OF s fresh c]
    have "safe hn (insert u d) q y t"
      unfolding y by (rule safe_frame[OF s1]) (use safe_names[OF s1] in simp_all)
    from safe_neutral[OF this, of es] show ?thesis by (simp add: es CreateConversation)
  next
    case (CreateResponse a b c d' e' f g h i)
    then show ?thesis using create_response_safe[OF fmt s fresh] e by simp
  next
    case (Claim ex)
    then show ?thesis using claim_safe[OF fmt s] e by (simp add: safe_draw)
  next
    case (AppendDelta a b c d')
    then show ?thesis using append_delta_safe[OF fmt s] e by (simp add: safe_draw)
  next
    case (Complete a b c d')
    then show ?thesis using complete_safe[OF fmt s] e by (simp add: safe_draw)
  next
    case (SweepEventLogs now)
    then have "y = snd (via_log (event_sweep_expired now) x)" "list_all neutral es"
      using e by (auto simp: exec_sweep_event_logs_def case_prod_unfold attempt_in_Inr)
    then show ?thesis using safe_neutral[OF sweep_safe[OF s], of es now] SweepEventLogs by (simp add: safe_draw)
  next
    case (AdvanceMs n)
    then have "y = x\<lparr>ct_now_ms := ct_now_ms x + n\<rparr>" "list_all neutral es" using e by (auto simp: Let_def)
    then show ?thesis using safe_neutral[OF safe_clock[OF s], of es] AdvanceMs by (simp add: safe_draw)
  qed (use simple in simp_all)
qed

section \<open>What the recorded events promise on their own\<close>

fun honest :: "trace_event \<Rightarrow> bool" where
  "honest (EventRead _ _ n expired _) = (expired \<longrightarrow> n = 0)"
| "honest (IntegrityChecked _ passed _) = passed"
| "honest _ = True"

definition fair :: "trace \<Rightarrow> bool" where
  "fair t \<longleftrightarrow> list_all honest t \<and> (\<forall>r. wants_storage r t \<longrightarrow> (\<exists>m. ContentStored r True m \<in> set t))"

lemma fair_append: "fair t \<Longrightarrow> fair es \<Longrightarrow> fair (t @ es)"
  unfolding fair_def wants_storage_def by (simp, blast)

lemma fair_events:
  "list_all (\<lambda>e. honest e \<and> \<not> is_created e) es \<Longrightarrow> fair es"
  by (fastforce simp: fair_def wants_storage_def list_all_iff)

lemma neutral_fair: "list_all neutral es \<Longrightarrow> fair es"
proof (rule fair_events)
  have "neutral e \<Longrightarrow> honest e \<and> \<not> is_created e" for e by (cases e) simp_all
  then show "list_all neutral es \<Longrightarrow> list_all (\<lambda>e. honest e \<and> \<not> is_created e) es" by (simp add: list_all_iff)
qed

lemma record_created_fair:
  assumes "record_created hn key store prev label rid lab x = Some (Inr (y, es))"
  shows "fair es"
  using assms
  by (auto simp: record_created_def Let_def attempt_in_Inr fair_def wants_storage_def appended_def split: if_splits prod.splits)

lemma exec_fair:
  assumes "exec hn u st x = Some (Inr (y, es))"
  shows "fair es"
proof -
  have simple: "fair es"
    if "case st of CreateConversation _ _ \<Rightarrow> False | CreateResponse _ _ _ _ _ _ _ _ _ \<Rightarrow> False | Claim _ \<Rightarrow> False
      | AppendDelta _ _ _ _ \<Rightarrow> False | Complete _ _ _ _ \<Rightarrow> False | SweepEventLogs _ \<Rightarrow> False | AdvanceMs _ \<Rightarrow> False | _ \<Rightarrow> True"
    using simple_step_calm[OF assms that] neutral_fair by blast
  show ?thesis
  proof (cases st)
    case (CreateResponse a b c d e f g h i)
    then obtain prev tn anchor k oc where
      "record_created hn b c prev g (fst (outcome_label (ResponseId (ct_node_tag x) u) oc)) (snd (outcome_label (ResponseId (ct_node_tag x) u) oc))
        (snd (via_store (ledger_create (hn_codec hn) (hn_integrity hn)
          (queued_record (ResponseId (ct_node_tag x) u) tn a c f anchor k (ct_now_ms x)) k) x)) = Some (Inr (y, es))"
      using assms unfolding CreateResponse exec.simps exec_create_response_def attempt_in_Inr Let_def case_prod_unfold if_bail by blast
    then show ?thesis by (rule record_created_fair)
  next
    case (Claim ex)
    then show ?thesis using assms
      by (auto simp: exec_claim_def case_prod_unfold attempt_in_Inr Let_def if_bail appended_def intro!: fair_events split: if_splits option.splits)
  next
    case (AppendDelta a b c d)
    then show ?thesis using assms
      by (auto simp: exec_append_delta_def attempt_in_def case_prod_unfold Let_def appended_def bail_def
          intro!: fair_events split: if_splits sum.splits)
  next
    case (Complete a b c d)
    then show ?thesis using assms
      by (auto simp: exec_complete_def case_prod_unfold attempt_in_Inr and_then_Inr Let_def appended_def intro!: fair_events split: option.splits)
  qed (use assms simple in \<open>auto simp: exec_create_conversation_def exec_sweep_event_logs_def case_prod_unfold attempt_in_Inr Let_def
      intro!: fair_events\<close>)
qed

section \<open>Whole scripts\<close>

lemma run_steps_safe:
  assumes "inj (hn_fmt hn)" "safe hn d q x t" "fair t" "distinct (map fst script)" "set (map fst script) \<inter> d = {}"
    and "run_steps hn script x t = Some (Inr (y, t'))"
  shows "\<exists>d'. safe hn d' (q \<and> list_all (plain \<circ> snd) script) y t' \<and> fair t'"
  using assms(2-)
proof (induction script arbitrary: d q x t)
  case Nil
  then show ?case by auto
next
  case (Cons p script)
  obtain u st where p: "p = (u, st)" by fastforce
  obtain x1 es where e: "exec hn u st x = Some (Inr (x1, es))"
    and r: "run_steps hn script (x1\<lparr>ct_now_ms := ct_now_ms x1 + 1\<rparr>) (t @ es @ [ClockAt (ct_now_ms x1 + 1)]) = Some (Inr (y, t'))"
    using Cons.prems(5) by (auto simp: p and_then_Inr)
  have "safe hn (insert u d) (q \<and> plain st) x1 (t @ es)"
    using exec_safe[OF assms(1) Cons.prems(1) _ e] Cons.prems(4) by (simp add: p)
  from safe_neutral[OF safe_clock[OF this], of "[ClockAt (ct_now_ms x1 + 1)]"]
  have s1: "safe hn (insert u d) (q \<and> plain st) (x1\<lparr>ct_now_ms := ct_now_ms x1 + 1\<rparr>) (t @ es @ [ClockAt (ct_now_ms x1 + 1)])"
    by simp
  have "fair (t @ es @ [ClockAt (ct_now_ms x1 + 1)])"
    using fair_append[OF Cons.prems(2) fair_append[OF exec_fair[OF e] neutral_fair[of "[ClockAt (ct_now_ms x1 + 1)]"]]] by simp
  from Cons.IH[OF s1 this _ _ r] Cons.prems(3,4) show ?case by (auto simp: p conj_assoc)
qed

lemma safe_start: "safe hn {} True (Ctx_new clock) []"
proof -
  have "event_log_wf (EventLog_with_capacity 20000 100000)" by (rule event_log_wf_new)
  moreover have "ledger_wf (w_store (MemWorld_new clock))" "conv_wf (w_store (MemWorld_new clock))"
    by (simp_all add: MemWorld_new_def set_max_events_per_conversation_def set_max_records_def set_pending_limit_def)
  ultimately show ?thesis
    by (simp add: safe_def ids_inv_def claims_inv_def keys_inv_def seqs_inv_def Ctx_new_def world_wf_def)
      (simp add: MemWorld_new_def set_max_events_per_conversation_def set_max_records_def set_pending_limit_def MemStore_new_def
        created_under_def no_stale_append_def next_seq_of_def EventLog_with_capacity_def)
qed

lemma safe_promises:
  assumes "safe hn d q x t" "fair t"
  shows "promise SingleClaimPerAttempt t" "promise StaleAppendRejected t" "promise IdempotentSameResponse t"
    "promise NoSilentContentLoss t" "promise ExpiredIsExplicit t" "promise IntegrityVerified t" "q \<Longrightarrow> promise SequenceContiguous t"
proof -
  show "promise SingleClaimPerAttempt t" "promise StaleAppendRejected t"
    using assms(1) by (simp_all add: safe_def claims_inv_def)
  show "promise IdempotentSameResponse t"
    using assms(1) unfolding safe_def keys_inv_def by (simp, metis option.inject)
  show "promise NoSilentContentLoss t" using assms(2) by (simp add: fair_def)
  show "promise ExpiredIsExplicit t" "promise IntegrityVerified t"
    using assms(2) by (fastforce simp: fair_def list_all_iff)+
  show "q \<Longrightarrow> promise SequenceContiguous t" using assms(1) by (simp add: safe_def seqs_inv_def)
qed

lemma promises_pass:
  assumes "run_oracles t names = Inl (OracleFailed oid)"
  shows "judge oid t = Fail"
  using assms by (induction names) (auto split: option.splits if_splits verdict.splits)

text \<open>C35: 
  A scenario run against the modelled back end can be refused by three oracles only, whatever the
  script does: that a response never ended, that a chain was too long, or that a booked usage was
  zero -- all three are up to the script. The contiguity oracle can fail only for a script that
  announces an item or sweeps the streams. The other oracles, the safety promises of the back end,
  never fail: that ids are drawn without repetition and print differently is all it takes.
\<close>
theorem only_these_oracles_can_fail:
  assumes "inj (hn_fmt hn)" "inj_on draw {..<length (sf_steps sf)}"
    and "run_scenario hn clock draw sf = Some (Inl (OracleRefused (OracleFailed oid)))"
  shows "oid = CreatedResponsesTerminal \<or> oid = ChainBounded \<or> oid = UsageAccounted \<or>
    oid = SequenceContiguous \<and> \<not> list_all plain (sf_steps sf)"
proof -
  let ?script = "zip (map draw [0..<length (sf_steps sf)]) (sf_steps sf)"
  obtain x t where r: "run_steps hn ?script (Ctx_new clock) [] = Some (Inr (x, t))" and o: "run_oracles t (sf_oracles sf) = Inl (OracleFailed oid)"
    using assms(3) by (auto simp: run_scenario_def split: option.splits sum.splits)
  have "distinct (map fst ?script)" using assms(2) by (simp add: distinct_map atLeast0LessThan)
  moreover have "fair []" by (simp add: fair_def wants_storage_def)
  ultimately obtain d where s: "safe hn d (list_all (plain \<circ> snd) ?script) x t" "fair t"
    using run_steps_safe[OF assms(1) safe_start _ _ _ r] by auto
  have "list_all (plain \<circ> snd) ?script = list_all plain (map snd ?script)" by (simp only: list.pred_map)
  then have plain: "list_all (plain \<circ> snd) ?script = list_all plain (sf_steps sf)" by simp
  have "\<not> promise oid t" using promises_pass[OF o] judge_iff_promise[of oid t] by simp
  then show ?thesis
    using safe_promises[OF s] plain judge_iff_promise[of ChainClosure t] closure_holds[of t]
    by (cases oid) (simp_all del: promise.simps, blast)
qed

section \<open>A script that fails\<close>

definition demo_harness :: harness where
  "demo_harness = \<lparr>hn_codec = demo_codec\<lparr>cx_uuid_fmt := (\<lambda>u. replicate (unat u) CHR ''x'')\<rparr>, hn_integrity = None,
    hn_decode = (\<lambda>_. None), hn_url_parse = (\<lambda>_. None), hn_order = (\<lambda>_. 0)\<rparr>"

definition open_item_scenario :: scenario_file where
  "open_item_scenario = \<lparr>sf_name = ''open item'', sf_covers = [], sf_oracles = [''SequenceContiguous''], sf_trace = False,
    sf_steps = [CreateResponse ''hi'' ''k1'' False None None None None None None, Claim None, AppendDelta None None True False]\<rparr>"

lemma demo_fmt_inj: "inj (hn_fmt demo_harness)"
  by (rule injI) (simp add: hn_fmt_def demo_harness_def unsigned_word_eqI)

definition demo_draw :: "nat \<Rightarrow> uuid" where
  "demo_draw n = of_nat n"

lemmas script_eval = and_then_def attempt_in_def case_prod_unfold via_store_def via_append_def on_store_eq log_append_def on_log_eq
  event_append_def append_fence_def append_write_def check_attempt_def push_event_def evict.simps Let_def ctx_tenant_def ctx_resolve_def
  step_anchor_def IdempotencyKey_parse_def IdempotencyKey_MAX_LEN_def byte_in_def exec_create_response_def exec_claim_def
  exec_append_delta_def record_created_def remember_def queued_record_def ResponseRecord_queued_def lifecycle_def
  lifecycle_with_attempt_def item_event_def text_delta_def appended_def ledger_create_def sign_def insert_record_def in_flight_count_def
  ledger_claim_def guard_writable_def UNCLAIMED_def attempt_next_def sat_add_def u64_max_def index_insert_def index_get_def
  ResponseLog_new_def with_seq_def
lemmas start_eval = Ctx_new_def MemWorld_new_def MemStore_new_def set_max_events_per_conversation_def set_max_records_def
  set_pending_limit_def EventLog_with_capacity_def demo_harness_def demo_draw_def open_item_scenario_def

lemmas oracle_eval = builtin_def all_oracles_def counts_def judge_SequenceContiguous_def

lemma demo_run:
  "run_scenario demo_harness (\<lambda>_. 0) demo_draw open_item_scenario = Some (Inl (OracleRefused (OracleFailed SequenceContiguous)))"
  by (simp add: run_scenario_def upt_rec script_eval start_eval oracle_eval)

lemma demo_draw_inj: "inj_on demo_draw {..<length (sf_steps open_item_scenario)}"
proof (rule inj_onI)
  fix i j :: nat
  assume "i \<in> {..<length (sf_steps open_item_scenario)}" "j \<in> {..<length (sf_steps open_item_scenario)}" "demo_draw i = demo_draw j"
  then show "i = j" by (auto simp: open_item_scenario_def demo_draw_def less_Suc_eq numeral_3_eq_3)
qed

theorem only_these_oracles_can_fail_witness:
  "run_scenario demo_harness (\<lambda>_. 0) demo_draw open_item_scenario = Some (Inl (OracleRefused (OracleFailed SequenceContiguous))) \<and>
    \<not> list_all plain (sf_steps open_item_scenario)"
  using only_these_oracles_can_fail[OF demo_fmt_inj demo_draw_inj demo_run] demo_run by simp

end
