(* ===== verification/Ports.thy ===== *)
theory Ports
  imports World
begin

text \<open>
  The storage ports as interfaces (\<open>crates/responses/src/ports/\<close>): a port is a record of operations on a
  state of its own type \<open>'s\<close>, so that code which takes trait objects is a function of the record.  A trait
  with a supertrait is a record extension; \<open>ConversationStore\<close>, the composition of four traits, is a
  record of four records.  Every operation returns the state after it.

  The second half mounts the in-memory adapters of \<open>verify/mock/server\<close> behind the ports, with the
  \<open>world\<close> as their state.  Durations are milliseconds.  A waiting read is taken while no other call runs,
  so it sees one state of the log.
\<close>

section \<open>Admission and ledger (ports/admission.rs, ports/ledger.rs)\<close>

record 's admission_control =
  ac_set_read_only :: "bool \<Rightarrow> 's \<Rightarrow> 's"
  ac_is_read_only :: "'s \<Rightarrow> bool"
  ac_set_pending_limit :: "nat \<Rightarrow> 's \<Rightarrow> 's"
  ac_pending_limit :: "'s \<Rightarrow> nat"

record 's response_ledger = "'s admission_control" +
  lg_create :: "response_record \<Rightarrow> idempotency_key \<Rightarrow> nat \<Rightarrow> 's \<Rightarrow> (ledger_error + create_outcome) \<times> 's"
  lg_claim :: "agent_id \<Rightarrow> nat \<Rightarrow> nat \<Rightarrow> 's \<Rightarrow> (ledger_error + claimed_response option) \<times> 's"
  lg_heartbeat :: "agent_id \<Rightarrow> nat \<Rightarrow> 's \<Rightarrow> (ledger_error + unit) \<times> 's"
  lg_complete :: "response_id \<Rightarrow> attempt \<Rightarrow> response_status \<Rightarrow> usage \<Rightarrow> nat \<Rightarrow> 's \<Rightarrow> (ledger_error + unit) \<times> 's"
  lg_cancel :: "tenant_id \<Rightarrow> response_id \<Rightarrow> nat \<Rightarrow> 's \<Rightarrow> (ledger_error + unit) \<times> 's"
  lg_reap :: "nat \<Rightarrow> nat \<Rightarrow> 's \<Rightarrow> (ledger_error + aborted_claim list) \<times> 's"
  lg_record_partial_usage :: "response_id \<Rightarrow> attempt \<Rightarrow> usage \<Rightarrow> 's \<Rightarrow> (ledger_error + unit) \<times> 's"
  lg_get :: "response_id \<Rightarrow> 's \<Rightarrow> (ledger_error + response_record option) \<times> 's"
  lg_delete :: "response_id \<Rightarrow> 's \<Rightarrow> (ledger_error + bool) \<times> 's"
  lg_delete_by_tenant :: "tenant_id \<Rightarrow> 's \<Rightarrow> (ledger_error + nat) \<times> 's"
  lg_check_attempt :: "response_id \<Rightarrow> attempt \<Rightarrow> 's \<Rightarrow> (ledger_error + unit) \<times> 's"
  lg_in_flight :: "'s \<Rightarrow> (ledger_error + nat) \<times> 's"

section \<open>Event log (ports/event_log.rs)\<close>

record 's response_event_log =
  lo_append :: "append_event \<Rightarrow> 's \<Rightarrow> (event_log_error + nat) \<times> 's"
  lo_read_after :: "response_id \<Rightarrow> nat option \<Rightarrow> nat \<Rightarrow> nat \<Rightarrow> 's \<Rightarrow> (event_log_error + response_event list) \<times> 's"
  lo_close :: "response_id \<Rightarrow> nat \<Rightarrow> nat \<Rightarrow> 's \<Rightarrow> (event_log_error + unit) \<times> 's"
  lo_sweep_expired :: "nat \<Rightarrow> 's \<Rightarrow> (event_log_error + nat) \<times> 's"
  lo_remove :: "response_id \<Rightarrow> 's \<Rightarrow> (event_log_error + unit) \<times> 's"

section \<open>Conversations (ports/conversation.rs)\<close>

record 's conversation_repo =
  cr_create :: "conversation \<Rightarrow> 's \<Rightarrow> (conversation_error + conversation) \<times> 's"
  cr_get :: "tenant_id \<Rightarrow> conversation_id \<Rightarrow> 's \<Rightarrow> (conversation_error + conversation option) \<times> 's"
  cr_update_metadata :: "tenant_id \<Rightarrow> conversation_id \<Rightarrow> metadata \<Rightarrow> 's \<Rightarrow> (conversation_error + conversation) \<times> 's"
  cr_delete :: "tenant_id \<Rightarrow> conversation_id \<Rightarrow> 's \<Rightarrow> (conversation_error + bool) \<times> 's"
  cr_delete_by_tenant :: "tenant_id \<Rightarrow> 's \<Rightarrow> (conversation_error + nat) \<times> 's"
  cr_list :: "tenant_id \<Rightarrow> 's \<Rightarrow> (conversation_error + conversation list) \<times> 's"
  cr_health :: "'s \<Rightarrow> (conversation_error + unit) \<times> 's"

record 's conversation_snapshots =
  cn_read_snapshot :: "tenant_id \<Rightarrow> conversation_id \<Rightarrow> 's \<Rightarrow> (conversation_error + resolved_context) \<times> 's"
  cn_append_turn :: "tenant_id \<Rightarrow> conversation_id \<Rightarrow> response_id \<Rightarrow> turn_commit \<Rightarrow> nat \<Rightarrow> 's
    \<Rightarrow> (conversation_error + nat) \<times> 's"
  cn_advance :: "tenant_id \<Rightarrow> conversation_id \<Rightarrow> response_id \<Rightarrow> 's \<Rightarrow> (conversation_error + unit) \<times> 's"

record 's turn_lock =
  tl_acquire_active :: "tenant_id \<Rightarrow> conversation_id \<Rightarrow> response_id \<Rightarrow> nat \<Rightarrow> 's \<Rightarrow> (conversation_error + nat) \<times> 's"
  tl_release_active :: "tenant_id \<Rightarrow> conversation_id \<Rightarrow> response_id \<Rightarrow> response_status \<Rightarrow> nat \<Rightarrow> 's
    \<Rightarrow> (conversation_error + nat) \<times> 's"
  tl_release_stale_active :: "tenant_id \<Rightarrow> conversation_id \<Rightarrow> response_id \<Rightarrow> 's \<Rightarrow> (conversation_error + bool) \<times> 's"

record 's conversation_events =
  ce_append_event :: "tenant_id \<Rightarrow> conversation_id \<Rightarrow> conversation_event_kind \<Rightarrow> nat \<Rightarrow> 's
    \<Rightarrow> (conversation_error + nat) \<times> 's"
  ce_read_after :: "tenant_id \<Rightarrow> conversation_id \<Rightarrow> nat option \<Rightarrow> nat \<Rightarrow> nat \<Rightarrow> 's
    \<Rightarrow> (conversation_error + conversation_event list) \<times> 's"
  ce_set_max_events :: "nat \<Rightarrow> 's \<Rightarrow> 's"

record 's conversation_store =
  cst_repo :: "'s conversation_repo"
  cst_snapshots :: "'s conversation_snapshots"
  cst_lock :: "'s turn_lock"
  cst_events :: "'s conversation_events"

section \<open>The in-memory adapters\<close>

definition reads :: "(world \<Rightarrow> 'a) \<Rightarrow> world \<Rightarrow> 'a \<times> world" where
  "reads f w = (f w, w)"

definition mem_ledger :: "codec \<Rightarrow> integrity option \<Rightarrow> world response_ledger" where
  "mem_ledger cx ig = \<lparr>
    ac_set_read_only = (\<lambda>b w. w\<lparr>w_store := set_read_only b (w_store w)\<rparr>),
    ac_is_read_only = (\<lambda>w. st_read_only (w_store w)),
    ac_set_pending_limit = (\<lambda>n w. w\<lparr>w_store := set_pending_limit n (w_store w)\<rparr>),
    ac_pending_limit = (\<lambda>w. st_pending_limit (w_store w)),
    lg_create = (\<lambda>r key now_ms. on_store (ledger_create cx ig r key)),
    lg_claim = (\<lambda>agent now_ms exec_ttl. on_store (ledger_claim agent now_ms exec_ttl)),
    lg_heartbeat = (\<lambda>agent now_ms. on_store (ledger_heartbeat agent now_ms)),
    lg_complete = (\<lambda>rid att st u now_ms. on_store (ledger_complete rid att st u now_ms)),
    lg_cancel = (\<lambda>tenant rid now_ms. on_store (ledger_cancel tenant rid now_ms)),
    lg_reap = (\<lambda>now_ms ttl. on_store (ledger_reap now_ms ttl)),
    lg_record_partial_usage = (\<lambda>rid att u. on_store (ledger_record_partial_usage rid att u)),
    lg_get = (\<lambda>rid. reads (\<lambda>w. ledger_get rid (w_store w))),
    lg_delete = (\<lambda>rid. on_store (ledger_delete rid)),
    lg_delete_by_tenant = (\<lambda>tenant. on_store (ledger_delete_by_tenant tenant)),
    lg_check_attempt = (\<lambda>rid att. reads (\<lambda>w. check_attempt rid att (w_store w))),
    lg_in_flight = reads (\<lambda>w. ledger_in_flight (w_store w))\<rparr>"

definition mem_event_log :: "world response_event_log" where
  "mem_event_log = \<lparr>
    lo_append = log_append,
    lo_read_after = (\<lambda>rid after limit wait. reads (\<lambda>w. event_read_waiting rid after limit [w_log w])),
    lo_close = (\<lambda>rid now_ms retain. on_log (event_close rid now_ms retain)),
    lo_sweep_expired = (\<lambda>now_ms. on_log (event_sweep_expired now_ms)),
    lo_remove = (\<lambda>rid. on_log (event_remove rid))\<rparr>"

definition mem_conversation :: "world conversation_store" where
  "mem_conversation = \<lparr>
    cst_repo = \<lparr>
      cr_create = (\<lambda>c. on_store (conv_create c)),
      cr_get = (\<lambda>tenant cid. reads (\<lambda>w. conv_get tenant cid (w_store w))),
      cr_update_metadata = (\<lambda>tenant cid m. on_store (conv_update_metadata tenant cid m)),
      cr_delete = (\<lambda>tenant cid. on_store (conv_delete tenant cid)),
      cr_delete_by_tenant = (\<lambda>tenant. on_store (conv_delete_by_tenant tenant)),
      cr_list = (\<lambda>tenant. reads (\<lambda>w. conv_list tenant (w_store w))),
      cr_health = reads (\<lambda>w. conv_health (w_store w))\<rparr>,
    cst_snapshots = \<lparr>
      cn_read_snapshot = (\<lambda>tenant cid. reads (\<lambda>w. read_snapshot tenant cid (w_store w))),
      cn_append_turn = (\<lambda>tenant cid rid commit now_ms. on_store (append_turn tenant cid rid commit)),
      cn_advance = (\<lambda>tenant cid rid. on_store (conv_advance tenant cid rid))\<rparr>,
    cst_lock = \<lparr>
      tl_acquire_active = (\<lambda>tenant cid rid now_ms. on_store (acquire_active tenant cid rid now_ms)),
      tl_release_active = (\<lambda>tenant cid rid st now_ms. on_store (release_active tenant cid rid st now_ms)),
      tl_release_stale_active = (\<lambda>tenant cid holder. on_store (release_stale_active tenant cid holder))\<rparr>,
    cst_events = \<lparr>
      ce_append_event = (\<lambda>tenant cid kind now_ms. on_store (conv_append_event tenant cid kind now_ms)),
      ce_read_after = (\<lambda>tenant cid after limit wait. reads (\<lambda>w. conv_read_waiting tenant cid after limit [w_store w])),
      ce_set_max_events = (\<lambda>n w. w\<lparr>w_store := set_max_events_per_conversation n (w_store w)\<rparr>)\<rparr>\<rparr>"

end
