(* ===== verification/Envelope.thy ===== *)
theory Envelope
  imports Wire "HOL-Library.Monad_Syntax"
begin

text \<open>
  The JSON form of the create request (\<open>protocol/request.rs\<close>, \<open>protocol/tool.rs\<close>,
  \<open>protocol/metadata.rs\<close>) as the serde attributes of its structs fix it: unknown and repeated fields
  are refused, an optional field may be absent or null, \<open>store\<close> defaults to true, \<open>input\<close> and
  \<open>conversation\<close> dispatch on the JSON kind.

  A document is read from its JSON value; the text parser of serde_json is not modelled, and neither is
  the positional form, in which serde reads a struct from an array.  \<open>None\<close> is a refused document.
  Two conversions belong to serde_json and are parameters: \<open>to_f64\<close> reads a JSON number as a double,
  \<open>of_f64\<close> prints one.
\<close>

section \<open>Readers\<close>

definition read_str :: "json \<Rightarrow> string option" where
  "read_str v = (case v of JStr s \<Rightarrow> Some s | _ \<Rightarrow> None)"

definition read_bool :: "json \<Rightarrow> bool option" where
  "read_bool v = (case v of JBool b \<Rightarrow> Some b | _ \<Rightarrow> None)"

definition read_u32 :: "json \<Rightarrow> nat option" where
  "read_u32 v = (case v of JNum (PosInt n) \<Rightarrow> if n \<le> u32_max then Some n else None | _ \<Rightarrow> None)"

definition read_f64 :: "(json_number \<Rightarrow> f64) \<Rightarrow> json \<Rightarrow> f64 option" where
  "read_f64 to_f64 v = (case v of JNum n \<Rightarrow> Some (to_f64 n) | _ \<Rightarrow> None)"

definition the_ok :: "'e + 'a \<Rightarrow> 'a option" where
  "the_ok r = (case r of Inl _ \<Rightarrow> None | Inr x \<Rightarrow> Some x)"

text \<open>An optional field: absent, null, or a value of its type.\<close>

definition read_opt :: "(string \<times> json) list \<Rightarrow> string \<Rightarrow> (json \<Rightarrow> 'a option) \<Rightarrow> 'a option option" where
  "read_opt m k read =
    (case map_of m k of
       None \<Rightarrow> Some None
     | Some v \<Rightarrow> if v = JNull then Some None else map_option Some (read v))"

text \<open>A boolean field with a default.\<close>

definition read_flag :: "(string \<times> json) list \<Rightarrow> string \<Rightarrow> bool \<Rightarrow> bool option" where
  "read_flag m k absent = (case map_of m k of None \<Rightarrow> Some absent | Some v \<Rightarrow> read_bool v)"

fun read_all :: "('a \<Rightarrow> 'b option) \<Rightarrow> 'a list \<Rightarrow> 'b list option" where
  "read_all read [] = Some []"
| "read_all read (x # xs) = do { y \<leftarrow> read x; ys \<leftarrow> read_all read xs; Some (y # ys) }"

lemma read_all_map: "(\<And>x. x \<in> set xs \<Longrightarrow> read (f x) = Some x) \<Longrightarrow> read_all read (map f xs) = Some xs"
  by (induction xs) auto

section \<open>Metadata\<close>

definition default_true :: bool where
  "default_true = True"

fun metadata_value_to_json :: "metadata_value \<Rightarrow> json" where
  "metadata_value_to_json (MetaString s) = JStr s"
| "metadata_value_to_json (MetaNumber n) = JNum n"
| "metadata_value_to_json (MetaBool b) = JBool b"

fun metadata_value_of_json :: "json \<Rightarrow> metadata_value option" where
  "metadata_value_of_json (JStr s) = Some (MetaString s)"
| "metadata_value_of_json (JNum n) = Some (MetaNumber n)"
| "metadata_value_of_json (JBool b) = Some (MetaBool b)"
| "metadata_value_of_json _ = None"

text \<open>Inserting entries one by one into a \<open>BTreeMap\<close>: the last of a repeated key wins.\<close>

definition btree_of_entries :: "(string \<times> 'a) list \<Rightarrow> (string \<times> 'a) list" where
  "btree_of_entries m = sort_key fst (AList.clearjunk (rev m))"

definition metadata_to_json :: "metadata \<Rightarrow> json" where
  "metadata_to_json m = JObj (map (\<lambda>p. (fst p, metadata_value_to_json (snd p))) m)"

definition metadata_of_json :: "json \<Rightarrow> metadata option" where
  "metadata_of_json v =
    (case v of
       JObj m \<Rightarrow> map_option btree_of_entries
         (read_all (\<lambda>p. map_option (Pair (fst p)) (metadata_value_of_json (snd p))) m)
     | _ \<Rightarrow> None)"

definition metadata_wf :: "metadata \<Rightarrow> bool" where
  "metadata_wf m \<longleftrightarrow> sorted (map fst m) \<and> distinct (map fst m)"

lemma btree_of_entries_id: "sorted (map fst m) \<Longrightarrow> distinct (map fst m) \<Longrightarrow> btree_of_entries m = m"
proof -
  assume s: "sorted (map fst m)" and d: "distinct (map fst m)"
  have "AList.clearjunk (rev m) = rev m" using d by (simp add: distinct_clearjunk_id rev_map[symmetric])
  moreover have "sort_key fst (rev m) = sort_key fst m"
    by (rule sort_key_inj_key_eq) (use d in \<open>auto simp: distinct_map\<close>)
  ultimately show ?thesis using s by (simp add: btree_of_entries_def sort_key_sorted_id)
qed

lemma metadata_value_roundtrip [simp]: "metadata_value_of_json (metadata_value_to_json v) = Some v"
  by (cases v) simp_all

lemma metadata_roundtrip: "metadata_wf m \<Longrightarrow> metadata_of_json (metadata_to_json m) = Some m"
proof -
  assume wf: "metadata_wf m"
  have "read_all (\<lambda>p. map_option (Pair (fst p)) (metadata_value_of_json (snd p)))
      (map (\<lambda>p. (fst p, metadata_value_to_json (snd p))) m) = Some m"
    by (rule read_all_map) simp
  then show ?thesis
    using wf by (simp add: metadata_to_json_def metadata_of_json_def metadata_wf_def btree_of_entries_id)
qed

section \<open>Tools\<close>

definition opt_json :: "string \<Rightarrow> ('a \<Rightarrow> json) \<Rightarrow> 'a option \<Rightarrow> (string \<times> json) list" where
  "opt_json k f v = (case v of Some x \<Rightarrow> [(k, f x)] | None \<Rightarrow> [])"

definition tool_to_json :: "tool \<Rightarrow> json" where
  "tool_to_json t = JObj ([(''type'', JStr ''function''), (''name'', JStr (tool_name t))] @
    opt_json ''description'' JStr (tool_description t) @ [(''parameters'', tool_parameters t)] @
    opt_json ''strict'' JBool (tool_strict t))"

definition tool_of_json :: "json \<Rightarrow> tool option" where
  "tool_of_json v =
    (case v of
       JObj m \<Rightarrow>
         if get_str m ''type'' = Some ''function''
           \<and> fields_known [''type'', ''name'', ''description'', ''parameters'', ''strict''] m
         then do {
           name \<leftarrow> get_str m ''name'';
           description \<leftarrow> read_opt m ''description'' read_str;
           parameters \<leftarrow> map_of m ''parameters'';
           strict \<leftarrow> read_opt m ''strict'' read_bool;
           Some (ToolFunction name description parameters strict) }
         else None
     | _ \<Rightarrow> None)"

lemma tool_roundtrip [simp]: "tool_of_json (tool_to_json t) = Some t"
proof (cases t)
  case (ToolFunction name description parameters strict)
  then show ?thesis
    by (cases description; cases strict)
      (simp_all add: tool_of_json_def tool_to_json_def opt_json_def get_str_def read_opt_def read_str_def
        read_bool_def fields_known_def)
qed

section \<open>The request\<close>

fun input_to_json :: "response_input \<Rightarrow> json" where
  "input_to_json (InputString text) = JStr text"
| "input_to_json (InputItems items) = JArr (map item_to_json items)"

fun input_of_json :: "json \<Rightarrow> response_input option" where
  "input_of_json (JStr text) = Some (InputString text)"
| "input_of_json (JArr vs) = map_option InputItems (read_all item_of_json vs)"
| "input_of_json _ = None"

lemma input_roundtrip [simp]: "input_of_json (input_to_json i) = Some i"
  by (cases i) (simp_all add: read_all_map item_json_roundtrip)

definition REQUEST_FIELDS :: "string list" where
  "REQUEST_FIELDS = [''model'', ''input'', ''instructions'', ''store'', ''stream'', ''background'',
    ''previous_response_id'', ''conversation'', ''max_output_tokens'', ''metadata'', ''tools'',
    ''tool_choice'', ''temperature'', ''top_p'']"

definition request_to_json :: "(f64 \<Rightarrow> json) \<Rightarrow> create_response_request \<Rightarrow> json" where
  "request_to_json of_f64 q = JObj (
    [(''model'', JStr (crq_model q)), (''input'', input_to_json (crq_input q))] @
    opt_json ''instructions'' JStr (crq_instructions q) @
    [(''store'', JBool (crq_store q)), (''stream'', JBool (crq_stream q)),
     (''background'', JBool (crq_background q))] @
    opt_json ''previous_response_id'' JStr (crq_previous_response_id q) @
    opt_json ''conversation'' ref_serialize (crq_conversation q) @
    opt_json ''max_output_tokens'' (\<lambda>n. JNum (PosInt n)) (crq_max_output_tokens q) @
    opt_json ''metadata'' metadata_to_json (crq_metadata q) @
    opt_json ''tools'' (\<lambda>ts. JArr (map tool_to_json ts)) (crq_tools q) @
    opt_json ''tool_choice'' tool_choice_serialize (crq_tool_choice q) @
    opt_json ''temperature'' of_f64 (crq_temperature q) @
    opt_json ''top_p'' of_f64 (crq_top_p q))"

definition read_tools :: "json \<Rightarrow> tool list option" where
  "read_tools v = (case v of JArr vs \<Rightarrow> read_all tool_of_json vs | _ \<Rightarrow> None)"

definition request_of_json :: "(json_number \<Rightarrow> f64) \<Rightarrow> json \<Rightarrow> create_response_request option" where
  "request_of_json to_f64 v =
    (case v of
       JObj m \<Rightarrow>
         if fields_known REQUEST_FIELDS m
         then do {
           model \<leftarrow> get_str m ''model'';
           raw_input \<leftarrow> map_of m ''input'';
           input \<leftarrow> input_of_json raw_input;
           instructions \<leftarrow> read_opt m ''instructions'' read_str;
           store \<leftarrow> read_flag m ''store'' default_true;
           stream \<leftarrow> read_flag m ''stream'' False;
           background \<leftarrow> read_flag m ''background'' False;
           previous \<leftarrow> read_opt m ''previous_response_id'' read_str;
           conv \<leftarrow> read_opt m ''conversation'' (\<lambda>v. the_ok (ref_deserialize v));
           tokens \<leftarrow> read_opt m ''max_output_tokens'' read_u32;
           meta \<leftarrow> read_opt m ''metadata'' metadata_of_json;
           tools \<leftarrow> read_opt m ''tools'' read_tools;
           choice \<leftarrow> read_opt m ''tool_choice'' (\<lambda>v. the_ok (tool_choice_deserialize v));
           temperature \<leftarrow> read_opt m ''temperature'' (read_f64 to_f64);
           top_p \<leftarrow> read_opt m ''top_p'' (read_f64 to_f64);
           Some \<lparr>crq_model = model, crq_input = input, crq_instructions = instructions, crq_store = store,
             crq_stream = stream, crq_background = background, crq_previous_response_id = previous,
             crq_conversation = conv, crq_max_output_tokens = tokens, crq_metadata = meta,
             crq_tools = tools, crq_tool_choice = choice, crq_temperature = temperature,
             crq_top_p = top_p\<rparr> }
         else None
     | _ \<Rightarrow> None)"

section \<open>Round trip\<close>

lemma map_of_opt_json [simp]:
  "map_of (opt_json k f v @ m) k' = (if k' = k \<and> v \<noteq> None then Some (f (the v)) else map_of m k')"
  by (simp add: opt_json_def split: option.split)

lemma map_of_opt_json_last [simp]:
  "map_of (opt_json k f v) k' = (if k' = k \<and> v \<noteq> None then Some (f (the v)) else None)"
  using map_of_opt_json[of k f v "[]" k'] by simp

lemma subseq_opt_json:
  "subseq (map fst m) ks \<Longrightarrow> subseq (map fst (opt_json k f v @ m)) (k # ks)"
  by (cases v) (auto simp: opt_json_def)

lemma subseq_opt_json_last: "subseq (map fst (opt_json k f v)) [k]"
  by (simp add: opt_json_def split: option.split)

lemma subseq_field: "subseq (map fst m) ks \<Longrightarrow> subseq (map fst ((k, v) # m)) (k # ks)"
  by simp

lemma fields_known_subseq:
  assumes "subseq (map fst m) ks" "distinct ks"
  shows "fields_known ks m"
proof -
  obtain N where N: "map fst m = nths ks N" using assms(1) by (auto simp: subseq_conv_nths)
  have "distinct (map fst m)" using assms(2) by (simp add: N distinct_nthsI)
  moreover have "set (map fst m) \<subseteq> set ks" unfolding N by (rule set_nths_subset)
  ultimately show ?thesis by (auto simp: fields_known_def)
qed

lemma read_opt_back:
  assumes "map_of m k = (if v \<noteq> None then Some (f (the v)) else None)"
    and "\<And>x. v = Some x \<Longrightarrow> f x \<noteq> JNull \<and> read (f x) = Some x"
  shows "read_opt m k read = Some v"
  using assms by (cases v) (simp_all add: read_opt_def)

text \<open>What a request that came from the API satisfies: its map is a \<open>BTreeMap\<close>, its token bound a \<open>u32\<close>, and
  its two numbers print as numbers that read back.\<close>

definition request_wf :: "(json_number \<Rightarrow> f64) \<Rightarrow> (f64 \<Rightarrow> json) \<Rightarrow> create_response_request \<Rightarrow> bool" where
  "request_wf to_f64 of_f64 q \<longleftrightarrow>
    (\<forall>m. crq_metadata q = Some m \<longrightarrow> metadata_wf m) \<and>
    (\<forall>n. crq_max_output_tokens q = Some n \<longrightarrow> n \<le> u32_max) \<and>
    (\<forall>x. crq_temperature q = Some x \<or> crq_top_p q = Some x \<longrightarrow> read_f64 to_f64 (of_f64 x) = Some x)"

lemma ref_roundtrip [simp]: "ref_deserialize (ref_serialize r) = Inr r"
  by (cases r) (simp_all add: de_string_def)

lemma choice_roundtrip [simp]: "tool_choice_deserialize (tool_choice_serialize c) = Inr c"
proof (cases c)
  case (ChoiceMode m)
  then show ?thesis by (cases m) (simp_all add: choice_visit_str_def)
qed (simp add: de_string_def)

lemma serialized_not_null [simp]:
  "ref_serialize r \<noteq> JNull" "tool_choice_serialize c \<noteq> JNull" "metadata_to_json m \<noteq> JNull"
  subgoal by (cases r) simp_all
  subgoal by (cases c) simp_all
  subgoal by (simp add: metadata_to_json_def)
  done

definition request_entries :: "(f64 \<Rightarrow> json) \<Rightarrow> create_response_request \<Rightarrow> (string \<times> json) list" where
  "request_entries of_f64 q = (case request_to_json of_f64 q of JObj m \<Rightarrow> m | _ \<Rightarrow> [])"

lemma request_entries_eq: "request_to_json of_f64 q = JObj (request_entries of_f64 q)"
  by (simp add: request_entries_def request_to_json_def)

lemma request_fields_known: "fields_known REQUEST_FIELDS (request_entries of_f64 q)"
proof (rule fields_known_subseq)
  show "subseq (map fst (request_entries of_f64 q)) REQUEST_FIELDS"
    unfolding request_entries_def request_to_json_def REQUEST_FIELDS_def json.case append_Cons append_Nil
    by (intro subseq_field subseq_opt_json subseq_opt_json_last)
qed (simp add: REQUEST_FIELDS_def)

lemma request_lookup:
  shows "map_of (request_entries of_f64 q) ''model'' = Some (JStr (crq_model q))"
  and "map_of (request_entries of_f64 q) ''input'' = Some (input_to_json (crq_input q))"
  and "map_of (request_entries of_f64 q) ''store'' = Some (JBool (crq_store q))"
  and "map_of (request_entries of_f64 q) ''stream'' = Some (JBool (crq_stream q))"
  and "map_of (request_entries of_f64 q) ''background'' = Some (JBool (crq_background q))"
  by (simp_all add: request_entries_def request_to_json_def del: map_of_append)

lemma request_lookup_opt:
  shows "read_opt (request_entries of_f64 q) ''instructions'' read_str = Some (crq_instructions q)"
  and "read_opt (request_entries of_f64 q) ''previous_response_id'' read_str = Some (crq_previous_response_id q)"
  and "read_opt (request_entries of_f64 q) ''conversation'' (\<lambda>v. the_ok (ref_deserialize v)) = Some (crq_conversation q)"
  and "read_opt (request_entries of_f64 q) ''tools'' read_tools = Some (crq_tools q)"
  and "read_opt (request_entries of_f64 q) ''tool_choice'' (\<lambda>v. the_ok (tool_choice_deserialize v)) = Some (crq_tool_choice q)"
proof -
  note defs = request_entries_def request_to_json_def
  show "read_opt (request_entries of_f64 q) ''instructions'' read_str = Some (crq_instructions q)"
    by (rule read_opt_back[where f = JStr]) (simp_all add: defs read_str_def del: map_of_append)
  show "read_opt (request_entries of_f64 q) ''previous_response_id'' read_str = Some (crq_previous_response_id q)"
    by (rule read_opt_back[where f = JStr]) (simp_all add: defs read_str_def del: map_of_append)
  show "read_opt (request_entries of_f64 q) ''conversation'' (\<lambda>v. the_ok (ref_deserialize v)) = Some (crq_conversation q)"
    by (rule read_opt_back[where f = ref_serialize]) (simp_all add: defs the_ok_def del: map_of_append)
  show "read_opt (request_entries of_f64 q) ''tools'' read_tools = Some (crq_tools q)"
    by (rule read_opt_back[where f = "\<lambda>ts. JArr (map tool_to_json ts)"]) (simp_all add: defs read_tools_def read_all_map del: map_of_append)
  show "read_opt (request_entries of_f64 q) ''tool_choice'' (\<lambda>v. the_ok (tool_choice_deserialize v)) = Some (crq_tool_choice q)"
    by (rule read_opt_back[where f = tool_choice_serialize]) (simp_all add: defs the_ok_def del: map_of_append)
qed

lemma request_lookup_bounded:
  assumes "request_wf to_f64 of_f64 q"
  shows "read_opt (request_entries of_f64 q) ''max_output_tokens'' read_u32 = Some (crq_max_output_tokens q)"
  and "read_opt (request_entries of_f64 q) ''metadata'' metadata_of_json = Some (crq_metadata q)"
  and "read_opt (request_entries of_f64 q) ''temperature'' (read_f64 to_f64) = Some (crq_temperature q)"
  and "read_opt (request_entries of_f64 q) ''top_p'' (read_f64 to_f64) = Some (crq_top_p q)"
proof -
  note defs = request_entries_def request_to_json_def
  have num: "read_f64 to_f64 JNull = None" by (simp add: read_f64_def)
  show "read_opt (request_entries of_f64 q) ''max_output_tokens'' read_u32 = Some (crq_max_output_tokens q)"
    by (rule read_opt_back[where f = "\<lambda>n. JNum (PosInt n)"])
      (use assms in \<open>simp_all add: defs read_u32_def request_wf_def del: map_of_append\<close>)
  show "read_opt (request_entries of_f64 q) ''metadata'' metadata_of_json = Some (crq_metadata q)"
    by (rule read_opt_back[where f = metadata_to_json])
      (use assms in \<open>simp_all add: defs metadata_roundtrip request_wf_def del: map_of_append\<close>)
  show "read_opt (request_entries of_f64 q) ''temperature'' (read_f64 to_f64) = Some (crq_temperature q)"
    by (rule read_opt_back[where f = of_f64])
      (use assms num in \<open>auto simp: defs request_wf_def simp del: map_of_append\<close>)
  show "read_opt (request_entries of_f64 q) ''top_p'' (read_f64 to_f64) = Some (crq_top_p q)"
    by (rule read_opt_back[where f = of_f64])
      (use assms num in \<open>auto simp: defs request_wf_def simp del: map_of_append\<close>)
qed

lemma request_reads_back:
  assumes "request_wf to_f64 of_f64 q"
  shows "request_of_json to_f64 (request_to_json of_f64 q) = Some q"
  using request_fields_known[of of_f64 q] request_lookup[of of_f64 q] request_lookup_opt[of of_f64 q]
    request_lookup_bounded[OF assms]
  by (simp add: request_of_json_def request_entries_eq get_str_def read_flag_def read_bool_def)

text \<open>The request envelope round-trips: the document a request is written as is accepted, and reads back
  as the very same request, for every shape of its union fields, its items, tools and options.\<close>

theorem request_json_roundtrip:
  assumes "request_wf to_f64 of_f64 q"
  shows "request_of_json to_f64 (request_to_json of_f64 q) = Some q"
  by (rule request_reads_back[OF assms])

definition demo_full_request :: create_response_request where
  "demo_full_request = \<lparr>crq_model = ''m'', crq_input = InputItems [user_text ''hi'', assistant_text ''yo''],
    crq_instructions = None, crq_store = False, crq_stream = True, crq_background = False,
    crq_previous_response_id = None, crq_conversation = Some (RefObject ''conv_1''),
    crq_max_output_tokens = Some 64, crq_metadata = Some [(''a'', MetaBool True), (''b'', MetaString ''x'')],
    crq_tools = Some [ToolFunction ''f'' None (JObj []) (Some True)],
    crq_tool_choice = Some (ChoiceFunction ''f''), crq_temperature = Some (Fin 1), crq_top_p = None\<rparr>"

theorem request_json_roundtrip_witness:
  "request_of_json (\<lambda>_. Fin 1) (request_to_json (\<lambda>_. JNum (PosInt 1)) demo_full_request) = Some demo_full_request"
  by (rule request_json_roundtrip)
    (simp add: request_wf_def demo_full_request_def metadata_wf_def u32_max_def read_f64_def)

section \<open>What decoding guarantees\<close>

lemma btree_of_entries_wf: "metadata_wf (btree_of_entries m)"
proof -
  have "distinct (map fst (AList.clearjunk (rev m)))" by (rule distinct_clearjunk)
  moreover have "mset (map fst (btree_of_entries m)) = mset (map fst (AList.clearjunk (rev m)))"
    by (simp add: btree_of_entries_def)
  ultimately have "distinct (map fst (btree_of_entries m))" using mset_eq_imp_distinct_iff by blast
  then show ?thesis by (simp add: metadata_wf_def btree_of_entries_def)
qed

lemma metadata_of_json_wf: "metadata_of_json v = Some x \<Longrightarrow> metadata_wf x"
  by (auto simp: metadata_of_json_def btree_of_entries_wf split: json.splits)

lemma read_opt_some: "read_opt m k read = Some (Some x) \<Longrightarrow> \<exists>v. read v = Some x"
  by (auto simp: read_opt_def split: option.splits if_splits)

lemma read_u32_bound: "read_u32 v = Some n \<Longrightarrow> n \<le> u32_max"
  by (auto simp: read_u32_def split: json.splits json_number.splits if_splits)

lemma read_f64_range: "read_f64 to_f64 v = Some x \<Longrightarrow> \<exists>n. x = to_f64 n"
  by (auto simp: read_f64_def split: json.splits)

lemma request_of_json_parts:
  assumes "request_of_json to_f64 v = Some q"
  obtains m where "v = JObj m" "fields_known REQUEST_FIELDS m" "get_str m ''model'' = Some (crq_model q)"
    "read_opt m ''max_output_tokens'' read_u32 = Some (crq_max_output_tokens q)"
    "read_opt m ''metadata'' metadata_of_json = Some (crq_metadata q)"
    "read_opt m ''temperature'' (read_f64 to_f64) = Some (crq_temperature q)"
    "read_opt m ''top_p'' (read_f64 to_f64) = Some (crq_top_p q)"
proof (cases v)
  case (JObj m)
  show thesis
    by (rule that[OF JObj])
      (use assms JObj in \<open>auto simp: request_of_json_def bind_eq_Some_conv split: if_splits\<close>)
qed (use assms in \<open>simp_all add: request_of_json_def\<close>)

text \<open>C38: A document is read only when it is an object over the closed set of fields, none twice; the request it
  yields then has ordered metadata without repeated keys, a token bound within \<open>u32\<close> and numbers that print
  and read back, and writing it and reading it again yields the same request -- decoding a second time is
  stable whatever spelling, order of fields or explicit nulls the document had.\<close>

theorem decoded_requests_are_wf:
  assumes decoded: "request_of_json to_f64 v = Some q"
    and numbers: "\<And>n. read_f64 to_f64 (of_f64 (to_f64 n)) = Some (to_f64 n)"
  shows "(\<exists>m. v = JObj m \<and> distinct (map fst m) \<and> set (map fst m) \<subseteq> set REQUEST_FIELDS) \<and>
    request_wf to_f64 of_f64 q \<and> request_of_json to_f64 (request_to_json of_f64 q) = Some q"
proof -
  obtain m where m: "v = JObj m" "fields_known REQUEST_FIELDS m" "get_str m ''model'' = Some (crq_model q)"
    "read_opt m ''max_output_tokens'' read_u32 = Some (crq_max_output_tokens q)"
    "read_opt m ''metadata'' metadata_of_json = Some (crq_metadata q)"
    "read_opt m ''temperature'' (read_f64 to_f64) = Some (crq_temperature q)"
    "read_opt m ''top_p'' (read_f64 to_f64) = Some (crq_top_p q)"
    by (rule request_of_json_parts[OF decoded])
  have floats: "read_f64 to_f64 (of_f64 x) = Some x"
    if "crq_temperature q = Some x \<or> crq_top_p q = Some x" for x
    using that m(6,7) read_opt_some[of m _ "read_f64 to_f64" x] read_f64_range[of to_f64 _ x] numbers by metis
  have wf: "request_wf to_f64 of_f64 q"
    unfolding request_wf_def
  proof (intro conjI allI impI)
    fix x
    assume "crq_metadata q = Some x"
    then show "metadata_wf x" using read_opt_some[of m _ metadata_of_json x] m(5) metadata_of_json_wf by metis
  next
    fix k
    assume "crq_max_output_tokens q = Some k"
    then show "k \<le> u32_max" using read_opt_some[of m _ read_u32 k] m(4) read_u32_bound by metis
  qed (rule floats)
  show ?thesis
    using m(1,2) wf request_reads_back[OF wf] by (auto simp: fields_known_def)
qed

theorem decoded_requests_are_wf_witness:
  "request_wf (\<lambda>_. Fin 1) (\<lambda>_. JNum (PosInt 1))
    \<lparr>crq_model = ''m'', crq_input = InputString ''hi'', crq_instructions = None, crq_store = True, crq_stream = False,
      crq_background = False, crq_previous_response_id = None, crq_conversation = None,
      crq_max_output_tokens = Some 5, crq_metadata = None, crq_tools = None, crq_tool_choice = None,
      crq_temperature = None, crq_top_p = Some (Fin 1)\<rparr>"
  using decoded_requests_are_wf[of "\<lambda>_. Fin 1" "JObj [(''top_p'', JNum (PosInt 7)), (''input'', JStr ''hi''),
      (''max_output_tokens'', JNum (PosInt 5)), (''metadata'', JNull), (''model'', JStr ''m'')]" _ "\<lambda>_. JNum (PosInt 1)"]
  by (simp add: request_of_json_def fields_known_def REQUEST_FIELDS_def get_str_def read_opt_def read_u32_def
      read_flag_def read_f64_def default_true_def u32_max_def)

text \<open>Nothing outside the closed set of fields is ever accepted, and none twice.\<close>

lemma request_of_json_closed:
  "request_of_json to_f64 (JObj m) \<noteq> None \<Longrightarrow> distinct (map fst m) \<and> set (map fst m) \<subseteq> set REQUEST_FIELDS"
  by (auto simp: request_of_json_def fields_known_def split: if_splits)

end
