(* ===== verification/Event_Wire.thy ===== *)
theory Event_Wire
  imports Envelope Events
begin

text \<open>
  The JSON form of what is streamed: the rendered response (\<open>protocol/response_object.rs\<close>), the body of
  a stream event and its flattened wire form (\<open>events.rs\<close>), and the conversation events
  (\<open>conversation.rs\<close>).  A body is read back by trying its variants in the order of the enum, which is
  what serde's \<open>untagged\<close> does; a struct reader refuses repeated fields and ignores unknown ones.
\<close>

section \<open>Small values\<close>

definition read_u64 :: "json \<Rightarrow> nat option" where
  "read_u64 v = (case v of JNum (PosInt n) \<Rightarrow> if n \<le> u64_max then Some n else None | _ \<Rightarrow> None)"

definition statuses :: "response_status list" where
  "statuses = [Queued, InProgress, Completed, Failed, Incomplete, Cancelled]"

definition status_to_json :: "response_status \<Rightarrow> json" where
  "status_to_json st = JStr (status_as_str st)"

definition status_of_json :: "json \<Rightarrow> response_status option" where
  "status_of_json v = Option.bind (read_str v) (\<lambda>s. find (\<lambda>st. status_as_str st = s) statuses)"

lemma status_roundtrip [simp]: "status_of_json (status_to_json st) = Some st"
  by (cases st) (simp_all add: status_of_json_def status_to_json_def statuses_def read_str_def)

definition field :: "(string \<times> json) list \<Rightarrow> string \<Rightarrow> (json \<Rightarrow> 'a option) \<Rightarrow> 'a option" where
  "field m k read = Option.bind (map_of m k) read"

text \<open>A field with \<open>#[serde(default)]\<close>: absent is the default, null is not.\<close>

definition field_or :: "(string \<times> json) list \<Rightarrow> string \<Rightarrow> 'a \<Rightarrow> (json \<Rightarrow> 'a option) \<Rightarrow> 'a option" where
  "field_or m k absent read = (case map_of m k of None \<Rightarrow> Some absent | Some v \<Rightarrow> read v)"

definition usage_to_json :: "usage \<Rightarrow> json" where
  "usage_to_json u = (let w = usage_to_wire u in
    JObj [(''input_tokens'', JNum (PosInt (uw_input_tokens w))), (''output_tokens'', JNum (PosInt (uw_output_tokens w))),
      (''total_tokens'', JNum (PosInt (uw_total_tokens w)))])"

definition usage_of_json :: "json \<Rightarrow> usage option" where
  "usage_of_json v =
    (case v of
       JObj m \<Rightarrow>
         if distinct (map fst m)
         then do {
           i \<leftarrow> field m ''input_tokens'' read_u64;
           out \<leftarrow> field m ''output_tokens'' read_u64;
           Some (usage_of_wire \<lparr>uw_input_tokens = i, uw_output_tokens = out, uw_total_tokens = 0\<rparr>) }
         else None
     | _ \<Rightarrow> None)"

definition usage_small :: "usage \<Rightarrow> bool" where
  "usage_small u \<longleftrightarrow> input_tokens u \<le> u64_max \<and> output_tokens u \<le> u64_max"

lemma usage_json_roundtrip: "usage_small u \<Longrightarrow> usage_of_json (usage_to_json u) = Some u"
  by (simp add: usage_small_def usage_of_json_def usage_to_json_def usage_of_wire_def usage_to_wire_def
      Usage_new_def field_def read_u64_def Let_def)

section \<open>Items in lists\<close>

definition items_to_json :: "response_item list \<Rightarrow> json" where
  "items_to_json items = JArr (map item_to_json items)"

definition items_of_json :: "json \<Rightarrow> response_item list option" where
  "items_of_json v = (case v of JArr vs \<Rightarrow> read_all item_of_json vs | _ \<Rightarrow> None)"

lemma items_roundtrip [simp]: "items_of_json (items_to_json items) = Some items"
  by (simp add: items_of_json_def items_to_json_def read_all_map item_json_roundtrip)

section \<open>The rendered response\<close>

definition unless_empty :: "string \<Rightarrow> ('a list \<Rightarrow> json) \<Rightarrow> 'a list \<Rightarrow> (string \<times> json) list" where
  "unless_empty k f xs = (if xs = [] then [] else [(k, f xs)])"

definition tools_to_json :: "tool list \<Rightarrow> json" where
  "tools_to_json ts = JArr (map tool_to_json ts)"

definition object_kind_of_json :: "json \<Rightarrow> unit option" where
  "object_kind_of_json v = (if v = JStr ''response'' then Some () else None)"

definition instructions_to_json :: "string option \<Rightarrow> json" where
  "instructions_to_json i = (case i of Some s \<Rightarrow> JStr s | None \<Rightarrow> JNull)"

definition object_entries :: "response_object \<Rightarrow> (string \<times> json) list" where
  "object_entries ob = 
    [(''id'', JStr (ro_id ob)), (''object'', JStr ''response''), (''created_at'', JNum (PosInt (ro_created_at ob))),
     (''status'', status_to_json (ro_status ob)), (''model'', JStr (ro_model ob))] @
    opt_json ''previous_response_id'' JStr (ro_previous_response_id ob) @
    opt_json ''conversation'' ref_serialize (ro_conversation ob) @
    [(''instructions'', instructions_to_json (ro_instructions ob)), (''store'', JBool (ro_store ob)),
     (''input'', items_to_json (ro_input ob)), (''output'', items_to_json (ro_output ob))] @
    opt_json ''reasoning'' JStr (ro_reasoning ob) @
    unless_empty ''tools'' tools_to_json (ro_tools ob) @
    opt_json ''tool_choice'' tool_choice_serialize (ro_tool_choice ob) @
    unless_empty ''metadata'' metadata_to_json (ro_metadata ob) @
    [(''usage'', usage_to_json (ro_usage ob))]"

definition object_to_json :: "response_object \<Rightarrow> json" where
  "object_to_json ob = JObj (object_entries ob)"

definition object_of_json :: "json \<Rightarrow> response_object option" where
  "object_of_json v =
    (case v of
       JObj m \<Rightarrow>
         if distinct (map fst m)
         then do {
           i \<leftarrow> field m ''id'' read_str;
           kind \<leftarrow> field_or m ''object'' () object_kind_of_json;
           created \<leftarrow> field m ''created_at'' read_u64;
           status \<leftarrow> field m ''status'' status_of_json;
           model \<leftarrow> field m ''model'' read_str;
           previous \<leftarrow> read_opt m ''previous_response_id'' read_str;
           conv \<leftarrow> read_opt m ''conversation'' (\<lambda>v. the_ok (ref_deserialize v));
           instructions \<leftarrow> read_opt m ''instructions'' read_str;
           store \<leftarrow> field m ''store'' read_bool;
           input \<leftarrow> field_or m ''input'' [] items_of_json;
           output \<leftarrow> field_or m ''output'' [] items_of_json;
           reasoning \<leftarrow> read_opt m ''reasoning'' read_str;
           tools \<leftarrow> field_or m ''tools'' [] read_tools;
           choice \<leftarrow> read_opt m ''tool_choice'' (\<lambda>v. the_ok (tool_choice_deserialize v));
           meta \<leftarrow> field_or m ''metadata'' [] metadata_of_json;
           usage \<leftarrow> field_or m ''usage'' Usage_default usage_of_json;
           Some \<lparr>ro_id = i, ro_created_at = created, ro_status = status, ro_model = model,
             ro_previous_response_id = previous, ro_conversation = conv, ro_instructions = instructions,
             ro_store = store, ro_input = input, ro_output = output, ro_reasoning = reasoning, ro_tools = tools,
             ro_tool_choice = choice, ro_metadata = meta, ro_usage = usage\<rparr> }
         else None
     | _ \<Rightarrow> None)"

definition object_wf :: "response_object \<Rightarrow> bool" where
  "object_wf ob \<longleftrightarrow> ro_created_at ob \<le> u64_max \<and> metadata_wf (ro_metadata ob) \<and> usage_small (ro_usage ob)"

lemma subseq_unless_empty: "subseq (map fst m) ks \<Longrightarrow> subseq (map fst (unless_empty k f v @ m)) (k # ks)"
  by (auto simp: unless_empty_def)

lemma map_of_unless_empty [simp]:
  "map_of (unless_empty k f xs @ m) k' = (if k' = k \<and> xs \<noteq> [] then Some (f xs) else map_of m k')"
  by (simp add: unless_empty_def)

lemma object_fields_distinct: "distinct (map fst (object_entries ob))"
proof -
  let ?ks = "[''id'', ''object'', ''created_at'', ''status'', ''model'', ''previous_response_id'', ''conversation'',
    ''instructions'', ''store'', ''input'', ''output'', ''reasoning'', ''tools'', ''tool_choice'', ''metadata'', ''usage'']"
  have "subseq (map fst (object_entries ob)) ?ks"
    unfolding object_entries_def append_Cons append_Nil
    by (intro subseq_field subseq_opt_json subseq_unless_empty) simp
  then have "fields_known ?ks (object_entries ob)" by (rule fields_known_subseq) simp
  then show ?thesis by (simp add: fields_known_def)
qed

lemma field_or_back:
  assumes "map_of m k = (if xs \<noteq> [] then Some (f xs) else None)" "xs \<noteq> [] \<Longrightarrow> read (f xs) = Some xs"
  shows "field_or m k [] read = Some xs"
  using assms by (cases "xs = []") (simp_all add: field_or_def)

lemma object_lookup:
  assumes "object_wf ob"
  shows "field (object_entries ob) ''id'' read_str = Some (ro_id ob)"
  and "field_or (object_entries ob) ''object'' () object_kind_of_json = Some ()"
  and "field (object_entries ob) ''created_at'' read_u64 = Some (ro_created_at ob)"
  and "field (object_entries ob) ''status'' status_of_json = Some (ro_status ob)"
  and "field (object_entries ob) ''model'' read_str = Some (ro_model ob)"
  and "field (object_entries ob) ''store'' read_bool = Some (ro_store ob)"
  and "field_or (object_entries ob) ''input'' [] items_of_json = Some (ro_input ob)"
  and "field_or (object_entries ob) ''output'' [] items_of_json = Some (ro_output ob)"
  and "field_or (object_entries ob) ''usage'' Usage_default usage_of_json = Some (ro_usage ob)"
  and "read_opt (object_entries ob) ''instructions'' read_str = Some (ro_instructions ob)"
  using assms
  by (simp_all add: object_entries_def field_def field_or_def object_wf_def usage_json_roundtrip read_u64_def
      read_str_def read_bool_def object_kind_of_json_def read_opt_def instructions_to_json_def
      del: map_of_append split: option.split)

lemma object_lookup_opt:
  assumes "object_wf ob"
  shows "read_opt (object_entries ob) ''previous_response_id'' read_str = Some (ro_previous_response_id ob)"
  and "read_opt (object_entries ob) ''conversation'' (\<lambda>v. the_ok (ref_deserialize v)) = Some (ro_conversation ob)"
  and "read_opt (object_entries ob) ''reasoning'' read_str = Some (ro_reasoning ob)"
  and "read_opt (object_entries ob) ''tool_choice'' (\<lambda>v. the_ok (tool_choice_deserialize v)) = Some (ro_tool_choice ob)"
  and "field_or (object_entries ob) ''tools'' [] read_tools = Some (ro_tools ob)"
  and "field_or (object_entries ob) ''metadata'' [] metadata_of_json = Some (ro_metadata ob)"
proof -
  note defs = object_entries_def
  show "read_opt (object_entries ob) ''previous_response_id'' read_str = Some (ro_previous_response_id ob)"
    by (rule read_opt_back[where f = JStr]) (simp_all add: defs read_str_def del: map_of_append)
  show "read_opt (object_entries ob) ''conversation'' (\<lambda>v. the_ok (ref_deserialize v)) = Some (ro_conversation ob)"
    by (rule read_opt_back[where f = ref_serialize]) (simp_all add: defs the_ok_def del: map_of_append)
  show "read_opt (object_entries ob) ''reasoning'' read_str = Some (ro_reasoning ob)"
    by (rule read_opt_back[where f = JStr]) (simp_all add: defs read_str_def del: map_of_append)
  show "read_opt (object_entries ob) ''tool_choice'' (\<lambda>v. the_ok (tool_choice_deserialize v)) = Some (ro_tool_choice ob)"
    by (rule read_opt_back[where f = tool_choice_serialize]) (simp_all add: defs the_ok_def del: map_of_append)
  show "field_or (object_entries ob) ''tools'' [] read_tools = Some (ro_tools ob)"
    by (rule field_or_back[where f = tools_to_json])
      (simp_all add: defs read_tools_def tools_to_json_def read_all_map del: map_of_append)
  show "field_or (object_entries ob) ''metadata'' [] metadata_of_json = Some (ro_metadata ob)"
    by (rule field_or_back[where f = metadata_to_json])
      (use assms in \<open>simp_all add: defs object_wf_def metadata_roundtrip del: map_of_append\<close>)
qed

lemma object_json_roundtrip: "object_wf ob \<Longrightarrow> object_of_json (object_to_json ob) = Some ob"
  using object_fields_distinct[of ob] object_lookup[of ob] object_lookup_opt[of ob]
  by (simp add: object_of_json_def object_to_json_def)

section \<open>Bodies (enum EventBody)\<close>

fun body_entries :: "event_body \<Rightarrow> (string \<times> json) list" where
  "body_entries (Delta i oi ci d) = [(''item_id'', JStr i), (''output_index'', JNum (PosInt oi))] @
    opt_json ''content_index'' (\<lambda>n. JNum (PosInt n)) ci @ [(''delta'', JStr d)]"
| "body_entries (Item oi it) = [(''output_index'', JNum (PosInt oi)), (''item'', item_to_json it)]"
| "body_entries (Arguments oi i a) =
    [(''output_index'', JNum (PosInt oi)), (''item_id'', JStr i), (''arguments'', JStr a)]"
| "body_entries (Text i oi ci t) = [(''item_id'', JStr i), (''output_index'', JNum (PosInt oi)),
    (''content_index'', JNum (PosInt ci)), (''text'', JStr t)]"
| "body_entries (Part i oi ci p) = [(''item_id'', JStr i), (''output_index'', JNum (PosInt oi)),
    (''content_index'', JNum (PosInt ci)), (''part'', part_to_json p)]"
| "body_entries (BodyResponse ob) = [(''response'', object_to_json ob)]"

definition body_readers :: "((string \<times> json) list \<Rightarrow> event_body option) list" where
  "body_readers = [
    (\<lambda>m. do { i \<leftarrow> field m ''item_id'' read_str; oi \<leftarrow> field m ''output_index'' read_u32;
      ci \<leftarrow> read_opt m ''content_index'' read_u32; d \<leftarrow> field m ''delta'' read_str; Some (Delta i oi ci d) }),
    (\<lambda>m. do { oi \<leftarrow> field m ''output_index'' read_u32; it \<leftarrow> field m ''item'' item_of_json; Some (Item oi it) }),
    (\<lambda>m. do { oi \<leftarrow> field m ''output_index'' read_u32; i \<leftarrow> field m ''item_id'' read_str;
      a \<leftarrow> field m ''arguments'' read_str; Some (Arguments oi i a) }),
    (\<lambda>m. do { i \<leftarrow> field m ''item_id'' read_str; oi \<leftarrow> field m ''output_index'' read_u32;
      ci \<leftarrow> field m ''content_index'' read_u32; t \<leftarrow> field m ''text'' read_str; Some (Text i oi ci t) }),
    (\<lambda>m. do { i \<leftarrow> field m ''item_id'' read_str; oi \<leftarrow> field m ''output_index'' read_u32;
      ci \<leftarrow> field m ''content_index'' read_u32; p \<leftarrow> field m ''part'' part_of_json; Some (Part i oi ci p) }),
    (\<lambda>m. do { ob \<leftarrow> field m ''response'' object_of_json; Some (BodyResponse ob) })]"

fun first_read :: "('a \<Rightarrow> 'b option) list \<Rightarrow> 'a \<Rightarrow> 'b option" where
  "first_read [] m = None"
| "first_read (read # reads) m = (case read m of Some b \<Rightarrow> Some b | None \<Rightarrow> first_read reads m)"

definition body_of_json :: "json \<Rightarrow> event_body option" where
  "body_of_json v =
    (case v of JObj m \<Rightarrow> if distinct (map fst m) then first_read body_readers m else None | _ \<Rightarrow> None)"

fun body_wf :: "event_body \<Rightarrow> bool" where
  "body_wf (Delta _ oi ci _) \<longleftrightarrow> oi \<le> u32_max \<and> (\<forall>n. ci = Some n \<longrightarrow> n \<le> u32_max)"
| "body_wf (Item oi _) \<longleftrightarrow> oi \<le> u32_max"
| "body_wf (Arguments oi _ _) \<longleftrightarrow> oi \<le> u32_max"
| "body_wf (Text _ oi ci _) \<longleftrightarrow> oi \<le> u32_max \<and> ci \<le> u32_max"
| "body_wf (Part _ oi ci _) \<longleftrightarrow> oi \<le> u32_max \<and> ci \<le> u32_max"
| "body_wf (BodyResponse ob) \<longleftrightarrow> object_wf ob"

section \<open>Stream events on the wire (struct EventWire)\<close>

definition event_entries :: "response_event \<Rightarrow> (string \<times> json) list" where
  "event_entries e = [(''type'', JStr (kind_as_str (re_kind e))),
    (''sequence_number'', JNum (PosInt (re_sequence_number e)))] @ body_entries (re_body e)"

definition event_to_json :: "response_event \<Rightarrow> json" where
  "event_to_json e = JObj (event_entries e)"

text \<open>What a subscriber reads: the kind, the cursor and the body of one event.\<close>

definition event_of_json :: "json \<Rightarrow> (response_event_kind \<times> nat \<times> event_body) option" where
  "event_of_json v =
    (case v of
       JObj m \<Rightarrow> do {
         name \<leftarrow> field m ''type'' read_str;
         kind \<leftarrow> kind_from_str name;
         n \<leftarrow> field m ''sequence_number'' read_u64;
         b \<leftarrow> body_of_json v;
         Some (kind, n, b) }
     | _ \<Rightarrow> None)"

section \<open>Conversation events\<close>

definition conversation_event_kind_to_json :: "(uuid \<Rightarrow> string) \<Rightarrow> conversation_event_kind \<Rightarrow> json" where
  "conversation_event_kind_to_json fmt k = JObj ((''type'', JStr (conversation_event_as_str k)) #
    (case k of
       TurnStarted r \<Rightarrow> [(''response_id'', JStr (ResponseId_display fmt r))]
     | TurnCompleted r st \<Rightarrow> [(''response_id'', JStr (ResponseId_display fmt r)), (''status'', status_to_json st)]
     | ResponseDeleted r \<Rightarrow> [(''response_id'', JStr (ResponseId_display fmt r))]
     | Business name payload \<Rightarrow> [(''kind'', JStr name), (''payload'', payload)]))"

definition conversation_event_to_json :: "(uuid \<Rightarrow> string) \<Rightarrow> conversation_event \<Rightarrow> json" where
  "conversation_event_to_json fmt e = JObj [
    (''conversation_id'', JStr (ConversationId_display fmt (cev_conversation_id e))),
    (''seq'', JNum (PosInt (cev_seq e))),
    (''kind'', conversation_event_kind_to_json fmt (cev_kind e)), (''ts_ms'', JNum (PosInt (cev_ts_ms e)))]"

section \<open>A subscriber reads back what was sent\<close>

lemmas body_read = field_def read_str_def read_u32_def read_opt_def opt_json_def

lemma event_fields_distinct: "distinct (map fst (event_entries e))"
proof (cases "re_body e")
  case (Delta i oi ci d)
  then show ?thesis by (cases ci) (simp_all add: event_entries_def opt_json_def)
qed (simp_all add: event_entries_def)

lemma body_reads_back:
  assumes "body_wf (re_body e)"
  shows "first_read body_readers (event_entries e) = Some (re_body e)"
proof (cases "re_body e")
  case (Delta i oi ci d)
  then show ?thesis using assms by (cases ci) (simp_all add: event_entries_def body_readers_def body_read)
qed (use assms in \<open>simp_all add: event_entries_def body_readers_def body_read item_json_roundtrip
      object_json_roundtrip\<close>)



end
