(* ===== verification/Conformance.thy ===== *)
theory Conformance
  imports Ports Event_Wire Scenario "HOL-Library.Monad_Syntax"
begin

text \<open>
  The port contract (\<open>verify/conformance/src/lib.rs\<close>): the assertions that run against every back end, as
  programs over the port records of \<open>Ports\<close>.

  A case is a function of the ports and of a state; \<open>None\<close> is a panic -- a failed \<open>expect\<close> or
  assertion -- and \<open>Some\<close> the state it leaves.  What the code draws at random comes from \<open>draws\<close>: the
  uuids of each kind the case asks for, and for its groups of spawned tasks the order in which the
  scheduler runs their calls.  A spawned task is one port call, which the contract takes to be atomic; a
  call of the in-memory back end holds one mutex for its whole length.
\<close>

section \<open>Panics\<close>

text \<open>\<open>expect\<close> and \<open>assert!\<close>.\<close>

definition expecting :: "('e + 'a) \<times> 's \<Rightarrow> ('a \<times> 's) option" where
  "expecting r = (case r of (Inl _, _) \<Rightarrow> None | (Inr x, s) \<Rightarrow> Some (x, s))"

definition ensure :: "bool \<Rightarrow> unit option" where
  "ensure b = (if b then Some () else None)"

lemma expecting_simps [simp]: "expecting (Inr x, s) = Some (x, s)" "expecting (Inl e, s) = None"
  by (simp_all add: expecting_def)

lemma ensure_simps [simp]: "ensure True = Some ()" "ensure False = None"
  by (simp_all add: ensure_def)

section \<open>The ports under test and the draws of a case\<close>

record 's port_set =
  ps_ledger :: "'s response_ledger"
  ps_event_log :: "'s response_event_log"
  ps_conversation :: "'s conversation_store"
  ps_integrity :: "integrity option"
  ps_node_tag :: node_tag

text \<open>
  The first three fields are code of other crates (the codec of the JSON and uuid crates, the double a
  JSON number denotes, \<open>Url::parse\<close>), the others are the draws; \<open>dr_simple\<close> is the uuid crate's form without hyphens; the hyphenated form is the one of the codec.
\<close>

record draws =
  dr_codec :: codec
  dr_to_f64 :: "json_number \<Rightarrow> f64"
  dr_url_parse :: "string \<Rightarrow> parsed_url option"
  dr_simple :: "uuid \<Rightarrow> string"
  dr_response :: "nat \<Rightarrow> uuid"
  dr_conversation :: "nat \<Rightarrow> uuid"
  dr_key :: "nat \<Rightarrow> uuid"
  dr_tenant :: "nat \<Rightarrow> uuid"
  dr_agent :: "nat \<Rightarrow> uuid"
  dr_order :: "nat \<Rightarrow> nat list"

definition agent :: "draws \<Rightarrow> nat \<Rightarrow> agent_id" where
  "agent d i = AgentId (dr_agent d i)"

definition new_id :: "'s port_set \<Rightarrow> draws \<Rightarrow> nat \<Rightarrow> response_id" where
  "new_id ports d i = ResponseId (ps_node_tag ports) (dr_response d i)"

definition new_conversation_id :: "draws \<Rightarrow> nat \<Rightarrow> conversation_id" where
  "new_conversation_id d i = ConversationId (dr_conversation d i)"

definition fresh_conversation :: "'s port_set \<Rightarrow> draws \<Rightarrow> nat \<Rightarrow> tenant_id \<Rightarrow> 's \<Rightarrow> (conversation \<times> 's) option" where
  "fresh_conversation ports d i tenant s =
    expecting (cr_create (cst_repo (ps_conversation ports))
      (Conversation_new (new_conversation_id d i) tenant [] 1000) s)"

definition fresh_tenant :: "draws \<Rightarrow> nat \<Rightarrow> string \<Rightarrow> tenant_id option" where
  "fresh_tenant d i label = the_ok (TenantId_parse (label @ ''-'' @ take 12 (dr_simple d (dr_tenant d i))))"

definition fresh_key :: "draws \<Rightarrow> nat \<Rightarrow> idempotency_key option" where
  "fresh_key d i = the_ok (IdempotencyKey_parse (cx_uuid_fmt (dr_codec d) (dr_key d i)))"

text \<open>
  \<open>record\<close> builds a queued record, overwrites its status and drops its key; the key drawn for
  \<open>ResponseRecord::queued\<close> is dropped with it, so it is not an argument here.
\<close>

definition test_record ::
  "draws \<Rightarrow> response_id \<Rightarrow> response_id option \<Rightarrow> tenant_id \<Rightarrow> bool \<Rightarrow> response_status \<Rightarrow> response_record" where
  "test_record d rid previous tenant stored status =
    (ResponseRecord_queued rid tenant
      \<lparr>ts_params = (ModelParams_new ''test-model'')\<lparr>mp_instructions := Some ''INSTRUCTIONS-MARKER''\<rparr>,
       ts_input_items = [user_text (''in-'' @ cx_uuid_fmt (dr_codec d) (rid_uuid rid))],
       ts_store = stored,
       ts_anchor = (case previous of Some p \<Rightarrow> Previous p | None \<Rightarrow> Root)\<rparr>
      (IdempotencyKey []) 1000 0)\<lparr>rr_status := status, rr_idempotency_key := None\<rparr>"

definition fenced_event :: "response_id \<Rightarrow> response_event_kind \<Rightarrow> attempt option \<Rightarrow> string \<Rightarrow> append_event" where
  "fenced_event rid kind att payload = AppendEvent_from_parts rid kind att (Delta [] 0 None payload)"

definition test_event :: "response_id \<Rightarrow> response_event_kind \<Rightarrow> string \<Rightarrow> append_event" where
  "test_event rid kind payload = fenced_event rid kind None payload"

text \<open>\<open>str::contains\<close>, and what a racing group of spawned tasks returns once every handle is awaited.\<close>

definition contains :: "string \<Rightarrow> string \<Rightarrow> bool" where
  "contains hay needle \<longleftrightarrow> sublist needle hay"

fun race :: "('s \<Rightarrow> 'a \<times> 's) list \<Rightarrow> nat list \<Rightarrow> 's \<Rightarrow> (nat \<times> 'a) list \<times> 's" where
  "race calls [] s = ([], s)"
| "race calls (i # order) s =
    (case (calls ! i) s of (a, s1) \<Rightarrow> (case race calls order s1 of (rs, s2) \<Rightarrow> ((i, a) # rs, s2)))"

text \<open>Awaiting the handles in the order they were spawned; a task that never ran is never joined.\<close>

definition join_all :: "nat \<Rightarrow> (nat \<times> 'a) list \<Rightarrow> 'a list option" where
  "join_all n rs = those (map (map_of rs) [0..<n])"

definition racers :: "('s \<Rightarrow> 'a \<times> 's) list \<Rightarrow> nat list \<Rightarrow> 's \<Rightarrow> ('a list \<times> 's) option" where
  "racers calls order s =
    (case race calls order s of (rs, s1) \<Rightarrow>
      do { xs \<leftarrow> join_all (length calls) rs; Some (xs, s1) })"

text \<open>\<open>expect\<close> on every joined call.\<close>

fun all_ok :: "('e + 'a) list \<Rightarrow> 'a list option" where
  "all_ok [] = Some []"
| "all_ok (r # rs) = do { x \<leftarrow> the_ok r; xs \<leftarrow> all_ok rs; Some (x # xs) }"

section \<open>Event log\<close>

fun append_each :: "'s response_event_log \<Rightarrow> response_id \<Rightarrow> nat list \<Rightarrow> 's \<Rightarrow> 's option" where
  "append_each lo rid [] s = Some s"
| "append_each lo rid (expected # rest) s = do {
    (n, s) \<leftarrow> expecting (lo_append lo (test_event rid EvOutputTextDelta ''x'') s);
    ensure (n = expected);
    append_each lo rid rest s }"

definition assert_event_log_conformance :: "'s port_set \<Rightarrow> draws \<Rightarrow> 's \<Rightarrow> 's option" where
  "assert_event_log_conformance ports d s = (let lo = ps_event_log ports; rid = new_id ports d 0 in do {
    (first, s) \<leftarrow> expecting (lo_append lo (test_event rid EvCreated []) s);
    ensure (first = 0);
    s \<leftarrow> append_each lo rid [1, 2, 3, 4] s;
    (all, s) \<leftarrow> expecting (lo_read_after lo rid None 100 0 s);
    ensure (map re_sequence_number all = [0, 1, 2, 3, 4]);
    (after_zero, s) \<leftarrow> expecting (lo_read_after lo rid (Some 0) 100 0 s);
    ensure (map re_sequence_number (take 1 after_zero) = [1]);
    (from_start, s) \<leftarrow> expecting (lo_read_after lo rid None 100 0 s);
    ensure (map re_sequence_number (take 1 from_start) = [0]);
    (future, s) \<leftarrow> expecting (lo_read_after lo rid (Some 999) 10 0 s);
    ensure (future = []);
    let (r, s) = lo_read_after lo (new_id ports d 1) None 10 0 s;
    ensure (r = Inl EUnknown);
    (_, s) \<leftarrow> expecting (lo_close lo rid 10000 1000 s);
    (_, s) \<leftarrow> expecting (lo_sweep_expired lo 11001 s);
    let (r, s) = lo_read_after lo rid None 10 0 s;
    ensure (r = Inl EExpired);
    let (r, s) = lo_read_after lo rid (Some 2) 10 0 s;
    ensure (r = Inl EExpired);
    Some s })"

section \<open>Ledger\<close>

definition is_invalid_transition :: "(ledger_error + 'a) \<Rightarrow> bool" where
  "is_invalid_transition r = (case r of Inl (LInvalidTransition _) \<Rightarrow> True | _ \<Rightarrow> False)"

definition assert_ledger_conformance :: "'s port_set \<Rightarrow> draws \<Rightarrow> 's \<Rightarrow> 's option" where
  "assert_ledger_conformance ports d s = (let lg = ps_ledger ports; rid = new_id ports d 0 in do {
    tenant \<leftarrow> fresh_tenant d 0 ''ledger'';
    key \<leftarrow> fresh_key d 0;
    (outcome, s) \<leftarrow> expecting (lg_create lg (test_record d rid None tenant True Queued) key 1000 s);
    ensure (map_option rr_response_id (outcome_record outcome) = Some rid);
    (replay, s) \<leftarrow> expecting (lg_create lg (test_record d (new_id ports d 1) None tenant True Queued) key u64_max s);
    ensure (map_option rr_response_id (outcome_record replay) = Some rid);
    (claimed, s) \<leftarrow> expecting (lg_claim lg (agent d 0) 2000 60000 s);
    c \<leftarrow> claimed;
    ensure (rr_attempt (cl_record c) = Attempt 1);
    let claimed_id = rr_response_id (cl_record c);
    (_, s) \<leftarrow> expecting (lg_check_attempt lg claimed_id (rr_attempt (cl_record c)) s);
    let (r, s) = lg_check_attempt lg claimed_id (Attempt (at_no (rr_attempt (cl_record c)) + 1)) s;
    ensure (r = Inl LStaleAttempt);
    (_, s) \<leftarrow> expecting (lg_complete lg claimed_id (rr_attempt (cl_record c)) Completed (Usage_new 3 4) 3000 s);
    let (r, s) = lg_complete lg claimed_id (rr_attempt (cl_record c)) Completed Usage_default 3100 s;
    ensure (the_ok r = None);
    let (r, s) = lg_complete lg claimed_id (rr_attempt (cl_record c)) InProgress Usage_default 3200 s;
    ensure (is_invalid_transition r);
    (fetched, s) \<leftarrow> expecting (lg_get lg claimed_id s);
    f \<leftarrow> fetched;
    ensure (rr_status f = Completed);
    ensure (total_tokens (rr_usage f) = 7);
    Some s })"

definition assert_cancel_conformance :: "'s port_set \<Rightarrow> draws \<Rightarrow> 's \<Rightarrow> 's option" where
  "assert_cancel_conformance ports d s = (let lg = ps_ledger ports; rid = new_id ports d 0 in do {
    tenant \<leftarrow> fresh_tenant d 0 ''cancel'';
    key \<leftarrow> fresh_key d 0;
    (_, s) \<leftarrow> expecting (lg_create lg (test_record d rid None tenant True Queued) key 1000 s);
    intruder \<leftarrow> fresh_tenant d 1 ''intruder'';
    let (r, s) = lg_cancel lg intruder rid 1500 s;
    ensure (r = Inl LNotFound);
    (_, s) \<leftarrow> expecting (lg_record_partial_usage lg rid (Attempt 1) (Usage_new 9 1) s);
    let (r, s) = lg_record_partial_usage lg (new_id ports d 1) (Attempt 1) (Usage_new 1 1) s;
    ensure (r = Inl LNotFound);
    (_, s) \<leftarrow> expecting (lg_cancel lg tenant rid 2000 s);
    (got, s) \<leftarrow> expecting (lg_get lg rid s);
    after \<leftarrow> got;
    ensure (rr_status after = Cancelled);
    ensure (is_terminal (rr_status after));
    let (r, s) = lg_check_attempt lg rid UNCLAIMED s;
    ensure (r = Inl LStaleAttempt);
    let (r, s) = lg_cancel lg tenant rid 2100 s;
    ensure (is_invalid_transition r);
    Some s })"

section \<open>Context and snapshots\<close>

definition commit :: "response_item list \<Rightarrow> response_item list \<Rightarrow> usage \<Rightarrow> response_status \<Rightarrow> turn_commit" where
  "commit input output u status = \<lparr>tc_input_items = input, tc_output_items = output, tc_reasoning = None,
    tc_usage = u, tc_status = status\<rparr>"

fun append_turns ::
  "'s conversation_snapshots \<Rightarrow> tenant_id \<Rightarrow> conversation_id \<Rightarrow> (response_id \<times> string) list \<Rightarrow> 's \<Rightarrow> 's option" where
  "append_turns cn tenant cid [] s = Some s"
| "append_turns cn tenant cid ((rid, text) # rest) s = do {
    (_, s) \<leftarrow> expecting (cn_append_turn cn tenant cid rid
      (commit [user_text text] [assistant_text ''answer''] (Usage_new 1 2) Completed) 2000 s);
    append_turns cn tenant cid rest s }"

definition assert_context_conformance :: "'s port_set \<Rightarrow> draws \<Rightarrow> 's \<Rightarrow> 's option" where
  "assert_context_conformance ports d s = (
    let lg = ps_ledger ports; repo = cst_repo (ps_conversation ports); cn = cst_snapshots (ps_conversation ports);
        canonical = canonical_items (dr_codec d) in do {
    tenant \<leftarrow> fresh_tenant d 0 ''ctx'';
    (conv, s) \<leftarrow> fresh_conversation ports d 0 tenant s;
    s \<leftarrow> append_turns cn tenant (cv_id conv)
      [(new_id ports d 0, ''in-0''), (new_id ports d 1, ''in-1''), (new_id ports d 2, ''in-2'')] s;
    (resolved, s) \<leftarrow> expecting (cn_read_snapshot cn tenant (cv_id conv) s);
    ensure (rc_turns resolved = 3);
    ensure (rc_bytes resolved > 0);
    ensure (rc_item_count resolved = 6);
    ensure (contains (canonical (take 1 (rc_items resolved))) ''in-0'');
    ensure (\<not> contains (canonical (rc_items resolved)) ''INSTRUCTIONS-MARKER'');
    other \<leftarrow> fresh_tenant d 1 ''other'';
    let (r, s) = cn_read_snapshot cn other (cv_id conv) s;
    ensure (r = Inl CNotFound);
    let (r, s) = cn_read_snapshot cn tenant (new_conversation_id d 1) s;
    ensure (r = Inl CNotFound);
    (_, s) \<leftarrow> expecting (lg_delete lg (new_id ports d 0) s);
    (after_delete, s) \<leftarrow> expecting (cn_read_snapshot cn tenant (cv_id conv) s);
    ensure (rc_turns after_delete = 3);
    ensure (rc_item_count after_delete = 6);
    (duplicate, s) \<leftarrow> expecting (cn_append_turn cn tenant (cv_id conv) (new_id ports d 0)
      (commit [user_text ''in-0''] [assistant_text ''answer''] (Usage_new 1 2) Completed) 2000 s);
    ensure (duplicate = 0);
    (after_duplicate, s) \<leftarrow> expecting (cn_read_snapshot cn tenant (cv_id conv) s);
    ensure (rc_turns after_duplicate = 3);
    ensure (rc_item_count after_duplicate = 6);
    (_, s) \<leftarrow> expecting (cn_append_turn cn tenant (cv_id conv) (new_id ports d 3)
      (commit [user_text ''unanswered''] [] Usage_default Failed) 2000 s);
    (after_input_only, s) \<leftarrow> expecting (cn_read_snapshot cn tenant (cv_id conv) s);
    ensure (rc_turns after_input_only = 4);
    ensure (rc_item_count after_input_only = 7);
    ensure (contains (canonical (rc_items after_input_only)) ''unanswered'');
    foreign \<leftarrow> fresh_tenant d 2 ''foreign'';
    (foreign_conv, s) \<leftarrow> expecting (cr_create repo (Conversation_new (new_conversation_id d 2) foreign [] 1000) s);
    (_, s) \<leftarrow> expecting (cn_append_turn cn foreign (cv_id foreign_conv) (new_id ports d 4)
      (commit [user_text ''theirs''] [assistant_text ''answer''] (Usage_new 1 2) Completed) 2000 s);
    (purged, s) \<leftarrow> expecting (cr_delete_by_tenant repo tenant s);
    ensure (purged \<ge> 1);
    (theirs, s) \<leftarrow> expecting (cn_read_snapshot cn foreign (cv_id foreign_conv) s);
    ensure (rc_turns theirs = 1);
    (_, s) \<leftarrow> expecting (cr_health repo s);
    Some s })"

section \<open>Integrity\<close>

definition assert_integrity_conformance :: "integrity \<Rightarrow> draws \<Rightarrow> unit option" where
  "assert_integrity_conformance ig d = (let canonical = canonical_items (dr_codec d) in do {
    tag \<leftarrow> the_ok (in_sign ig (canonical [user_text ''hello'']));
    _ \<leftarrow> the_ok (in_verify ig (canonical [user_text ''hello'']) tag);
    ensure (the_ok (in_verify ig (canonical [user_text ''hell0'']) tag) = None);
    ensure (the_ok (in_verify ig (canonical [user_text ''hello'']) ''deadbeef'') = None);
    ensure (in_alg ig \<noteq> []);
    ensure (canonical [user_text (''caf'' @ [CHR 0xC3, CHR 0xA9])]
      = canonical [user_text (''cafe'' @ [CHR 0xCC, CHR 0x81])]) })"

section \<open>Protocol\<close>

definition accepts :: "draws \<Rightarrow> json \<Rightarrow> create_response_request option" where
  "accepts d body = request_of_json (dr_to_f64 d) body"

definition validates :: "draws \<Rightarrow> create_response_request \<Rightarrow> bool" where
  "validates d q = (the_ok (request_validate (dr_url_parse d) (cx_num_fmt (dr_codec d)) ProtocolLimits_default q) \<noteq> None)"

definition assert_output_items_are_valid_input :: "draws \<Rightarrow> unit option" where
  "assert_output_items_are_valid_input d =
    ensure (list_all (\<lambda>item. is_acceptable_as_input item \<and>
      accepts d (JObj [(''model'', JStr ''m''), (''input'', JArr [item_to_json item])]) \<noteq> None) emittable)"

definition ask :: "json \<Rightarrow> (string \<times> json) list \<Rightarrow> json" where
  "ask input extra = JObj ([(''model'', JStr ''m''), (''input'', input)] @ extra)"

definition user_message :: "json list \<Rightarrow> (string \<times> json) list \<Rightarrow> json" where
  "user_message content extra = JObj ([(''type'', JStr ''message''), (''role'', JStr ''user''),
    (''content'', JArr content)] @ extra)"

definition refused_bodies :: "json list" where
  "refused_bodies = [
    ask (JStr ''hi'') [(''truncation'', JStr ''auto'')],
    ask (JArr [JObj [(''type'', JStr ''item_reference''), (''id'', JStr ''msg_1'')]]) [],
    ask (JArr [JObj [(''type'', JStr ''reasoning''), (''summary'', JArr [])]]) [],
    ask (JStr ''hi'') [(''tools'', JArr [JObj [(''type'', JStr ''web_search'')]])],
    ask (JArr [user_message [JObj [(''type'', JStr ''input_audio''), (''data'', JStr ''AA'')]] []]) [],
    ask (JArr [user_message [] [(''extra'', JNum (PosInt 1))]]) []]"

definition image_body :: "string \<Rightarrow> json" where
  "image_body url = ask (JArr [user_message
    [JObj [(''type'', JStr ''input_image''), (''image_url'', JStr url)]] []]) []"

definition half :: json_number where
  "half = Float 0x3FE0000000000000"

definition assert_protocol_subset_rejects :: "draws \<Rightarrow> unit option" where
  "assert_protocol_subset_rejects d = do {
    ensure (list_all (\<lambda>body. accepts d body = None) refused_bodies);
    inline \<leftarrow> accepts d (image_body ''data:image/png;base64,AAAA'');
    ensure (\<not> validates d inline);
    internal \<leftarrow> accepts d (image_body ''https://169.254.169.254/x'');
    ensure (\<not> validates d internal);
    good \<leftarrow> accepts d (ask (JStr ''hi'') [(''store'', JBool True), (''temperature'', JNum half)]);
    ensure (validates d good);
    ensure (crq_store good) }"

definition assert_event_coalescing :: "unit option" where
  "assert_event_coalescing = do {
    ensure (coalescible EvOutputTextDelta);
    ensure (list_all (\<lambda>k. \<not> coalescible k) [EvCreated, EvInProgress, EvCompleted, EvFailed, EvIncomplete]);
    ensure (kind_is_terminal EvCompleted);
    ensure (\<not> kind_is_terminal EvOutputTextDelta) }"

section \<open>Claims and admission under pressure\<close>

text \<open>Claim and complete until nothing is queued: \<open>None\<close> also when the loop never ends.\<close>

partial_function (option) drain_claims :: "'s response_ledger \<Rightarrow> (nat \<Rightarrow> agent_id) \<Rightarrow> nat \<Rightarrow> 's \<Rightarrow> 's option" where
  "drain_claims lg agents i s = do {
    (c, s) \<leftarrow> expecting (lg_claim lg (agents i) 1000 30000 s);
    (case c of
       None \<Rightarrow> Some s
     | Some c \<Rightarrow> do {
         (_, s) \<leftarrow> expecting (lg_complete lg (rr_response_id (cl_record c)) (rr_attempt (cl_record c))
           Completed Usage_default 1000 s);
         drain_claims lg agents (Suc i) s }) }"

definition assert_global_claim :: "'s port_set \<Rightarrow> draws \<Rightarrow> 's \<Rightarrow> 's option" where
  "assert_global_claim ports d s = (let lg = ps_ledger ports in do {
    tenant \<leftarrow> fresh_tenant d 0 ''global-claim'';
    s \<leftarrow> drain_claims lg (agent d) 2 s;
    other_node \<leftarrow> the_ok (NodeTag_parse ''node-zz'');
    let foreign_id = ResponseId other_node (dr_response d 0);
    key \<leftarrow> fresh_key d 0;
    (_, s) \<leftarrow> expecting (lg_create lg (test_record d foreign_id None tenant True Queued) key 1000 s);
    let mine = new_id ports d 1;
    key \<leftarrow> fresh_key d 1;
    (_, s) \<leftarrow> expecting (lg_create lg (test_record d mine None tenant True Queued) key 1100 s);
    (claimed, s) \<leftarrow> expecting (lg_claim lg (agent d 0) 2000 30000 s);
    first \<leftarrow> claimed;
    (claimed, s) \<leftarrow> expecting (lg_claim lg (agent d 1) 2100 30000 s);
    second \<leftarrow> claimed;
    ensure (sort [rr_response_id (cl_record first), rr_response_id (cl_record second)] = sort [foreign_id, mine]);
    ensure (rr_attempt (cl_record first) = Attempt 1);
    ensure (rr_attempt (cl_record second) = Attempt 1);
    (_, s) \<leftarrow> expecting (lg_complete lg (rr_response_id (cl_record first)) (rr_attempt (cl_record first))
      Completed Usage_default 2200 s);
    (_, s) \<leftarrow> expecting (lg_complete lg (rr_response_id (cl_record second)) (rr_attempt (cl_record second))
      Completed Usage_default 2200 s);
    Some s })"

text \<open>The verdicts of racing creates: the ids accepted, the ids of duplicates, the number refused.\<close>

fun accepted_ids :: "create_outcome list \<Rightarrow> response_id list" where
  "accepted_ids [] = []"
| "accepted_ids (Accepted r # os) = rr_response_id r # accepted_ids os"
| "accepted_ids (_ # os) = accepted_ids os"

fun duplicate_ids :: "create_outcome list \<Rightarrow> response_id list" where
  "duplicate_ids [] = []"
| "duplicate_ids (Duplicate r # os) = rr_response_id r # duplicate_ids os"
| "duplicate_ids (_ # os) = duplicate_ids os"

definition accepted_outcome :: "create_outcome \<Rightarrow> bool" where
  "accepted_outcome oc = (case oc of Accepted _ \<Rightarrow> True | _ \<Rightarrow> False)"

definition duplicate_outcome :: "create_outcome \<Rightarrow> bool" where
  "duplicate_outcome oc = (case oc of Duplicate _ \<Rightarrow> True | _ \<Rightarrow> False)"

definition claimed_ids :: "draws \<Rightarrow> claimed_response option list \<Rightarrow> string list" where
  "claimed_ids d cs = map (\<lambda>c. ResponseId_display (cx_uuid_fmt (dr_codec d)) (rr_response_id (cl_record c)))
    (List.map_filter id cs)"

fun all_readable :: "'s response_ledger \<Rightarrow> response_id list \<Rightarrow> 's \<Rightarrow> 's option" where
  "all_readable lg [] s = Some s"
| "all_readable lg (rid # rest) s = do {
    (r, s) \<leftarrow> expecting (lg_get lg rid s);
    ensure (r \<noteq> None);
    all_readable lg rest s }"

definition racing_creates ::
  "'s port_set \<Rightarrow> draws \<Rightarrow> tenant_id \<Rightarrow> (nat \<Rightarrow> nat) \<Rightarrow> (nat \<Rightarrow> idempotency_key) \<Rightarrow> nat \<Rightarrow> nat list \<Rightarrow> 's
    \<Rightarrow> (create_outcome list \<times> 's) option" where
  "racing_creates ports d tenant ids keys n order s = do {
    (rs, s) \<leftarrow> racers (map (\<lambda>i. lg_create (ps_ledger ports)
      (test_record d (new_id ports d (ids i)) None tenant True Queued) (keys i) 2000) [0..<n]) order s;
    os \<leftarrow> all_ok rs;
    Some (os, s) }"

definition racing_claims ::
  "'s port_set \<Rightarrow> draws \<Rightarrow> nat \<Rightarrow> nat \<Rightarrow> nat list \<Rightarrow> 's \<Rightarrow> (claimed_response option list \<times> 's) option" where
  "racing_claims ports d now_ms n order s = do {
    (rs, s) \<leftarrow> racers (map (\<lambda>i. lg_claim (ps_ledger ports) (agent d i) now_ms 30000) [0..<n]) order s;
    cs \<leftarrow> all_ok rs;
    Some (cs, s) }"

definition racing_appends ::
  "'s port_set \<Rightarrow> response_id \<Rightarrow> char \<Rightarrow> nat \<Rightarrow> nat list \<Rightarrow> 's \<Rightarrow> (nat list \<times> 's) option" where
  "racing_appends ports rid c n order s = do {
    (rs, s) \<leftarrow> racers (map (\<lambda>i. lo_append (ps_event_log ports)
      (test_event rid EvOutputTextDelta (c # dec i))) [0..<n]) order s;
    ns \<leftarrow> all_ok rs;
    Some (ns, s) }"

definition assert_overload_integrity :: "'s port_set \<Rightarrow> draws \<Rightarrow> 's \<Rightarrow> 's option" where
  "assert_overload_integrity ports d s = (let lg = ps_ledger ports; restore = ac_pending_limit lg s in do {
    tenant \<leftarrow> fresh_tenant d 0 ''overload'';
    s \<leftarrow> drain_claims lg (agent d) 24 s;
    let s = ac_set_pending_limit lg 3 s;
    keys \<leftarrow> those (map (fresh_key d) [0..<24]);
    (os, s) \<leftarrow> racing_creates ports d tenant id (\<lambda>i. keys ! i) 24 (dr_order d 0) s;
    ensure (list_all (\<lambda>oc. accepted_outcome oc \<or> oc = Overloaded) os);
    let accepted = accepted_ids os;
    ensure (length accepted = 3);
    ensure (length accepted + length (filter (\<lambda>oc. oc = Overloaded) os) = 24);
    s \<leftarrow> all_readable lg accepted s;
    (cs, s) \<leftarrow> racing_claims ports d 2100 24 (dr_order d 1) s;
    let claimed = claimed_ids d cs;
    ensure (length (remdups claimed) = length claimed);
    ensure (length (remdups claimed) = 3);
    s \<leftarrow> (case accepted of
       [] \<Rightarrow> Some s
     | first # _ \<Rightarrow> do {
         (ns, s) \<leftarrow> racing_appends ports first (CHR ''p'') 8 (dr_order d 2) s;
         ensure (sort ns = [0..<8]);
         Some s });
    Some (ac_set_pending_limit lg restore s) })"

section \<open>Output provenance\<close>

fun append_chunks :: "'s response_event_log \<Rightarrow> response_id \<Rightarrow> string list \<Rightarrow> 's \<Rightarrow> 's option" where
  "append_chunks lo rid [] s = Some s"
| "append_chunks lo rid (chunk # rest) s = do {
    (_, s) \<leftarrow> expecting (lo_append lo (test_event rid EvOutputTextDelta chunk) s);
    append_chunks lo rid rest s }"

definition assert_output_provenance :: "'s port_set \<Rightarrow> draws \<Rightarrow> 's \<Rightarrow> 's option" where
  "assert_output_provenance ports d s = (
    let lg = ps_ledger ports; lo = ps_event_log ports; cn = cst_snapshots (ps_conversation ports);
        rid = new_id ports d 0 in do {
    tenant \<leftarrow> fresh_tenant d 0 ''provenance'';
    (conv, s) \<leftarrow> fresh_conversation ports d 0 tenant s;
    s \<leftarrow> append_chunks lo rid [''Sta'', ''ble '', ''answer''] s;
    (_, s) \<leftarrow> expecting (cn_append_turn cn tenant (cv_id conv) rid
      (commit [user_text ''question''] [assistant_text ''Stable answer''] (Usage_new 3 4) Completed) 2000 s);
    (_, s) \<leftarrow> expecting (lo_close lo rid 3000 1000 s);
    (_, s) \<leftarrow> expecting (lo_sweep_expired lo 4001 s);
    let (r, s) = lo_read_after lo rid None 64 0 s;
    ensure (r = Inl EExpired);
    (snapshot, s) \<leftarrow> expecting (cn_read_snapshot cn tenant (cv_id conv) s);
    ensure (contains (canonical_items (dr_codec d) (rc_items snapshot)) ''Stable answer'');
    key \<leftarrow> fresh_key d 0;
    (_, s) \<leftarrow> expecting (lg_create lg (test_record d (new_id ports d 1) None tenant True Queued) key 1000 s);
    (claimed, s) \<leftarrow> expecting (lg_claim lg (agent d 0) 1100 30000 s);
    c \<leftarrow> claimed;
    let live = rr_attempt (cl_record c);
    (_, s) \<leftarrow> expecting (lo_append lo
      (fenced_event (rr_response_id (cl_record c)) EvOutputTextDelta (Some live) ''live'') s);
    let stale = Attempt (at_no live - 1);
    let (r, s) = lo_append lo
      (fenced_event (rr_response_id (cl_record c)) EvOutputTextDelta (Some stale) ''from a reaped holder'') s;
    ensure (r = Inl EStaleAttempt);
    Some s })"

section \<open>Durability order\<close>

definition assert_durability_order :: "'s port_set \<Rightarrow> draws \<Rightarrow> 's \<Rightarrow> 's option" where
  "assert_durability_order ports d s = (let lg = ps_ledger ports; rid = new_id ports d 0 in do {
    tenant \<leftarrow> fresh_tenant d 0 ''durability'';
    let r0 = test_record d rid None tenant True Queued;
    let r = r0\<lparr>rr_spec := (rr_spec r0)\<lparr>ts_input_items := [user_text ''durable-marker'']\<rparr>\<rparr>;
    key \<leftarrow> fresh_key d 0;
    (outcome, s) \<leftarrow> expecting (lg_create lg r key 1000 s);
    ensure (accepted_outcome outcome);
    (got, s) \<leftarrow> expecting (lg_get lg rid s);
    seen \<leftarrow> got;
    ensure (rr_response_id seen = rid);
    ensure (is_stored seen);
    ensure (contains (canonical_items (dr_codec d) (ts_input_items (rr_spec seen))) ''durable-marker'');
    let ghost = test_record d (new_id ports d 1) None tenant True Queued;
    key \<leftarrow> fresh_key d 1;
    (_, s) \<leftarrow> expecting (lg_create lg ghost key 1000 s);
    (replay, s) \<leftarrow> expecting (lg_create lg ghost key 1000 s);
    ensure (duplicate_outcome replay);
    Some s })"

section \<open>Concurrency\<close>

definition assert_concurrency_conformance :: "'s port_set \<Rightarrow> draws \<Rightarrow> 's \<Rightarrow> 's option" where
  "assert_concurrency_conformance ports d s = (
    let lg = ps_ledger ports; lo = ps_event_log ports; rid = new_id ports d 0 in do {
    tenant \<leftarrow> fresh_tenant d 0 ''conc-claim'';
    key \<leftarrow> fresh_key d 0;
    (created, s) \<leftarrow> expecting (lg_create lg (test_record d rid None tenant True Queued) key 1000 s);
    ensure (accepted_outcome created);
    (cs, s) \<leftarrow> racing_claims ports d 1100 12 (dr_order d 0) s;
    let claimed = claimed_ids d cs;
    ensure (length (remdups claimed) = length claimed);
    ensure (length (filter (\<lambda>c. c = ResponseId_display (cx_uuid_fmt (dr_codec d)) rid) claimed) = 1);
    ensure (list_all (\<lambda>c. rr_attempt (cl_record c) = Attempt 1) (List.map_filter id cs));
    tenant \<leftarrow> fresh_tenant d 1 ''conc-idem'';
    key \<leftarrow> fresh_key d 1;
    (os, s) \<leftarrow> racing_creates ports d tenant Suc (\<lambda>_. key) 12 (dr_order d 1) s;
    ensure (list_all (\<lambda>oc. accepted_outcome oc \<or> duplicate_outcome oc) os);
    ensure (length (accepted_ids os) = 1);
    ensure (length (duplicate_ids os) = 11);
    ensure (list_all (\<lambda>dup. dup = hd (accepted_ids os)) (duplicate_ids os));
    (assigned, s) \<leftarrow> racing_appends ports (new_id ports d 13) (CHR ''d'') 12 (dr_order d 2) s;
    ensure (length (remdups assigned) = length assigned);
    ensure (sort assigned = [0..<12]);
    (read, s) \<leftarrow> expecting (lo_read_after lo (new_id ports d 13) None 128 0 s);
    ensure (length read = 12);
    ensure (map re_sequence_number read = [0..<12]);
    Some s })"

section \<open>Conversations\<close>

definition position :: "'a list \<Rightarrow> 'a \<Rightarrow> nat option" where
  "position xs x = find (\<lambda>i. xs ! i = x) [0..<length xs]"

definition assert_conversation_conformance :: "'s port_set \<Rightarrow> draws \<Rightarrow> 's \<Rightarrow> 's option" where
  "assert_conversation_conformance ports d s = (
    let repo = cst_repo (ps_conversation ports); cn = cst_snapshots (ps_conversation ports) in do {
    tenant \<leftarrow> fresh_tenant d 0 ''conv'';
    other \<leftarrow> fresh_tenant d 1 ''conv-other'';
    (created, s) \<leftarrow> fresh_conversation ports d 0 tenant s;
    ensure (cv_last_response_id created = None);
    (got, s) \<leftarrow> expecting (cr_get repo tenant (cv_id created) s);
    fetched \<leftarrow> got;
    ensure (fetched = created);
    (foreign, s) \<leftarrow> expecting (cr_get repo other (cv_id created) s);
    ensure (foreign = None);
    let (r, s) = cr_update_metadata repo other (cv_id created) [] s;
    ensure (r = Inl CNotFound);
    let (r, s) = cr_delete repo other (cv_id created) s;
    ensure (r = Inr False);
    (updated, s) \<leftarrow> expecting (cr_update_metadata repo tenant (cv_id created)
      [(''stale'', MetaString ''x''), (''topic'', MetaString ''demo'')] s);
    ensure (length (cv_metadata updated) = 2);
    (updated, s) \<leftarrow> expecting (cr_update_metadata repo tenant (cv_id created) [(''topic'', MetaString ''demo'')] s);
    ensure (length (cv_metadata updated) = 1);
    ensure (cv_created_at_ms updated = cv_created_at_ms created);
    let first = new_id ports d 0;
    (_, s) \<leftarrow> expecting (cn_advance cn tenant (cv_id created) first s);
    (got, s) \<leftarrow> expecting (cr_get repo tenant (cv_id created) s);
    after \<leftarrow> got;
    ensure (cv_last_response_id after = Some first);
    let second = new_id ports d 1;
    (_, s) \<leftarrow> expecting (cn_advance cn tenant (cv_id created) second s);
    (got, s) \<leftarrow> expecting (cr_get repo tenant (cv_id created) s);
    again \<leftarrow> got;
    ensure (cv_last_response_id again = Some second);
    let (r, s) = cn_advance cn tenant (new_conversation_id d 1) second s;
    ensure (r = Inl CNotFound);
    let (r, s) = cn_advance cn other (cv_id created) second s;
    ensure (r = Inl CNotFound);
    let (r, s) = cr_delete repo tenant (cv_id created) s;
    ensure (r = Inr True);
    (gone, s) \<leftarrow> expecting (cr_get repo tenant (cv_id created) s);
    ensure (gone = None);
    let (r, s) = cr_delete repo tenant (cv_id created) s;
    ensure (r = Inr False);
    (a, s) \<leftarrow> expecting (cr_create repo (Conversation_new (new_conversation_id d 2) tenant [] 1000) s);
    (b, s) \<leftarrow> expecting (cr_create repo (Conversation_new (new_conversation_id d 3) tenant [] 2000) s);
    (untouched, s) \<leftarrow> fresh_conversation ports d 4 other s;
    (listed, s) \<leftarrow> expecting (cr_list repo tenant s);
    let ids = map cv_id listed;
    ensure (cv_id a \<in> set ids);
    ensure (cv_id b \<in> set ids);
    ensure (cv_id untouched \<notin> set ids);
    pos_b \<leftarrow> position ids (cv_id b);
    pos_a \<leftarrow> position ids (cv_id a);
    ensure (pos_b < pos_a);
    (removed, s) \<leftarrow> expecting (cr_delete_by_tenant repo tenant s);
    ensure (removed \<ge> 2);
    (gone, s) \<leftarrow> expecting (cr_get repo tenant (cv_id a) s);
    ensure (gone = None);
    (gone, s) \<leftarrow> expecting (cr_get repo tenant (cv_id b) s);
    ensure (gone = None);
    (theirs, s) \<leftarrow> expecting (cr_get repo other (cv_id untouched) s);
    ensure (theirs \<noteq> None);
    Some s })"

section \<open>Conversation events and the turn lock\<close>

definition is_turn_started :: "conversation_event_kind \<Rightarrow> bool" where
  "is_turn_started k = (case k of TurnStarted _ \<Rightarrow> True | _ \<Rightarrow> False)"

definition is_turn_completed :: "conversation_event_kind \<Rightarrow> bool" where
  "is_turn_completed k = (case k of TurnCompleted _ _ \<Rightarrow> True | _ \<Rightarrow> False)"

definition is_business :: "conversation_event_kind \<Rightarrow> bool" where
  "is_business k = (case k of Business _ _ \<Rightarrow> True | _ \<Rightarrow> False)"

text \<open>Exactly one event, with this number and of this kind.\<close>

definition single_event :: "conversation_event list \<Rightarrow> nat \<Rightarrow> (conversation_event_kind \<Rightarrow> bool) \<Rightarrow> bool" where
  "single_event es n p \<longleftrightarrow> length es = 1 \<and> cev_seq (es ! 0) = n \<and> p (cev_kind (es ! 0))"

definition content_free :: "(uuid \<Rightarrow> string) \<Rightarrow> conversation_event_kind \<Rightarrow> bool" where
  "content_free fmt k =
    (case conversation_event_kind_to_json fmt k of
       JObj m \<Rightarrow> map_of m ''items'' = None \<and> map_of m ''content'' = None
     | _ \<Rightarrow> False)"

fun append_business ::
  "'s conversation_events \<Rightarrow> tenant_id \<Rightarrow> conversation_id \<Rightarrow> nat list \<Rightarrow> 's \<Rightarrow> 's option" where
  "append_business ce tenant cid [] s = Some s"
| "append_business ce tenant cid (now_ms # rest) s = do {
    (_, s) \<leftarrow> expecting (ce_append_event ce tenant cid (Business ''b'' (JObj [])) now_ms s);
    append_business ce tenant cid rest s }"

definition assert_turn_lock :: "'s port_set \<Rightarrow> draws \<Rightarrow> tenant_id \<Rightarrow> conversation_id \<Rightarrow> 's \<Rightarrow> (nat \<times> nat \<times> 's) option" where
  "assert_turn_lock ports d tenant cid s = (
    let repo = cst_repo (ps_conversation ports); tl = cst_lock (ps_conversation ports);
        ce = cst_events (ps_conversation ports); r1 = new_id ports d 0 in do {
    (start_seq, s) \<leftarrow> expecting (tl_acquire_active tl tenant cid r1 1000 s);
    (got, s) \<leftarrow> expecting (cr_get repo tenant cid s);
    held \<leftarrow> got;
    ensure (cv_active_response_id held = Some r1);
    (events, s) \<leftarrow> expecting (ce_read_after ce tenant cid None 10 0 s);
    ensure (single_event events start_seq is_turn_started);
    let (r, s) = tl_acquire_active tl tenant cid (new_id ports d 1) 1100 s;
    ensure (r = Inl (CBusy r1));
    (events, s) \<leftarrow> expecting (ce_read_after ce tenant cid None 10 0 s);
    ensure (length events = 1);
    (again, s) \<leftarrow> expecting (tl_acquire_active tl tenant cid r1 1200 s);
    ensure (again = start_seq);
    (events, s) \<leftarrow> expecting (ce_read_after ce tenant cid None 10 0 s);
    ensure (length events = 1);
    (done_seq, s) \<leftarrow> expecting (tl_release_active tl tenant cid r1 Completed 1300 s);
    (got, s) \<leftarrow> expecting (cr_get repo tenant cid s);
    released \<leftarrow> got;
    ensure (cv_active_response_id released = None);
    (events, s) \<leftarrow> expecting (ce_read_after ce tenant cid (Some start_seq) 10 0 s);
    ensure (single_event events done_seq is_turn_completed);
    (_, s) \<leftarrow> expecting (tl_release_active tl tenant cid r1 Completed 1400 s);
    (events, s) \<leftarrow> expecting (ce_read_after ce tenant cid (Some done_seq) 10 0 s);
    ensure (events = []);
    Some (start_seq, done_seq, s) })"

definition assert_conversation_events_conformance :: "'s port_set \<Rightarrow> draws \<Rightarrow> 's \<Rightarrow> 's option" where
  "assert_conversation_events_conformance ports d s = (
    let repo = cst_repo (ps_conversation ports); tl = cst_lock (ps_conversation ports);
        ce = cst_events (ps_conversation ports); r1 = new_id ports d 0 in do {
    tenant \<leftarrow> fresh_tenant d 0 ''conv-ev'';
    other \<leftarrow> fresh_tenant d 1 ''conv-ev-other'';
    (conv, s) \<leftarrow> fresh_conversation ports d 0 tenant s;
    let cid = cv_id conv;
    (start_seq, done_seq, s) \<leftarrow> assert_turn_lock ports d tenant cid s;
    (biz_seq, s) \<leftarrow> expecting (ce_append_event ce tenant cid
      (Business ''note'' (JObj [(''k'', JStr ''v'')])) 1500 s);
    ensure (biz_seq > done_seq);
    (events, s) \<leftarrow> expecting (ce_read_after ce tenant cid (Some done_seq) 10 0 s);
    ensure (single_event events biz_seq is_business);
    (all, s) \<leftarrow> expecting (ce_read_after ce tenant cid None 100 0 s);
    ensure (map cev_seq all = [start_seq, done_seq, biz_seq]);
    let r3 = new_id ports d 2;
    (_, s) \<leftarrow> expecting (tl_acquire_active tl tenant cid r3 1600 s);
    (cleared, s) \<leftarrow> expecting (tl_release_stale_active tl tenant cid r3 s);
    ensure cleared;
    (got, s) \<leftarrow> expecting (cr_get repo tenant cid s);
    held \<leftarrow> got;
    ensure (cv_active_response_id held = None);
    let (r, s) = tl_acquire_active tl other cid (new_id ports d 3) 1700 s;
    ensure (r = Inl CNotFound);
    (capped, s) \<leftarrow> fresh_conversation ports d 1 tenant s;
    let s = ce_set_max_events ce 2 s;
    s \<leftarrow> append_business ce tenant (cv_id capped) [2000, 2001] s;
    let (r, s) = ce_append_event ce tenant (cv_id capped) (Business ''b'' (JObj [])) 2100 s;
    ensure (r = Inl CCapacityExceeded);
    let s = ce_set_max_events ce 100000 s;
    ensure (list_all (content_free (cx_uuid_fmt (dr_codec d)))
      [TurnStarted r1, TurnCompleted r1 Completed, ResponseDeleted r1,
       Business ''k'' (JObj [(''x'', JNum (PosInt 1))])]);
    Some s })"

section \<open>The table of cases and the runner\<close>

datatype case_scope = Backend | Protocol | OptionalPort

record contract_case =
  cc_name :: string
  cc_covers :: "string list"
  cc_scope :: case_scope
  cc_asserts :: string

definition contract_cases :: "contract_case list" where
  "contract_cases = [
    \<lparr>cc_name = ''event-log'', cc_covers = [''FR-10'', ''FR-12'', ''CR-4'', ''CR-5'', ''INV-11'', ''INV-40''],
      cc_scope = Backend, cc_asserts = ''assert_event_log_conformance''\<rparr>,
    \<lparr>cc_name = ''ledger'', cc_covers = [''FR-3'', ''FR-4'', ''FR-6'', ''FR-8'', ''CR-1'', ''CR-2'', ''INV-1'', ''INV-2'', ''INV-5''],
      cc_scope = Backend, cc_asserts = ''assert_ledger_conformance''\<rparr>,
    \<lparr>cc_name = ''cancel'', cc_covers = [''FR-7'', ''INV-51'', ''INV-60'', ''SEC-2''],
      cc_scope = Backend, cc_asserts = ''assert_cancel_conformance''\<rparr>,
    \<lparr>cc_name = ''context-chain'', cc_covers = [''FR-16'', ''FR-19'', ''FR-21'', ''CR-9'', ''INV-42'', ''INV-49'', ''INV-61'', ''SEC-2'', ''SEC-3''],
      cc_scope = Backend, cc_asserts = ''assert_context_conformance''\<rparr>,
    \<lparr>cc_name = ''integrity'', cc_covers = [''FR-39'', ''CR-13'', ''INV-44''],
      cc_scope = OptionalPort, cc_asserts = ''assert_integrity_conformance''\<rparr>,
    \<lparr>cc_name = ''global-claim'', cc_covers = [''FR-4'', ''CR-1''],
      cc_scope = Backend, cc_asserts = ''assert_global_claim''\<rparr>,
    \<lparr>cc_name = ''overload-integrity'', cc_covers = [''CR-8'', ''FR-33'', ''INV-29''],
      cc_scope = Backend, cc_asserts = ''assert_overload_integrity''\<rparr>,
    \<lparr>cc_name = ''output-provenance'', cc_covers = [''FR-20'', ''CR-3'', ''CR-7'', ''INV-6'', ''INV-48''],
      cc_scope = Backend, cc_asserts = ''assert_output_provenance''\<rparr>,
    \<lparr>cc_name = ''durability-order'', cc_covers = [''CR-6'', ''INV-34'', ''INV-46''],
      cc_scope = Backend, cc_asserts = ''assert_durability_order''\<rparr>,
    \<lparr>cc_name = ''concurrency'', cc_covers = [''CR-1'', ''CR-2'', ''CR-5'', ''INV-1'', ''INV-2'', ''INV-11''],
      cc_scope = Backend, cc_asserts = ''assert_concurrency_conformance''\<rparr>,
    \<lparr>cc_name = ''chain-closure'', cc_covers = [''FR-28'', ''CR-12'', ''INV-47''],
      cc_scope = Protocol, cc_asserts = ''assert_output_items_are_valid_input''\<rparr>,
    \<lparr>cc_name = ''protocol-subset'', cc_covers = [''FR-24'', ''FR-25'', ''FR-26'', ''INV-50'', ''INV-52'', ''SEC-6'', ''SEC-7''],
      cc_scope = Protocol, cc_asserts = ''assert_protocol_subset_rejects''\<rparr>,
    \<lparr>cc_name = ''event-coalesce'', cc_covers = [''INV-16''],
      cc_scope = Protocol, cc_asserts = ''assert_event_coalescing''\<rparr>,
    \<lparr>cc_name = ''conversation'', cc_covers = [''FR-40'', ''FR-42'', ''FR-21'', ''INV-54'', ''INV-55'', ''SEC-2''],
      cc_scope = Backend, cc_asserts = ''assert_conversation_conformance''\<rparr>,
    \<lparr>cc_name = ''conversation-events'', cc_covers = [''FR-43'', ''FR-44'', ''CR-14'', ''CR-15'', ''CR-16'', ''INV-56'', ''INV-57'', ''INV-58'', ''INV-59'', ''SEC-2''],
      cc_scope = Backend, cc_asserts = ''assert_conversation_events_conformance''\<rparr>]"

datatype case_outcome = Passed | Skipped string

record suite_report =
  sr_label :: string
  sr_passed :: "string list"
  sr_skipped :: "(string \<times> string) list"

text \<open>Sorting and removing adjacent repeats.\<close>

fun dedup :: "'a list \<Rightarrow> 'a list" where
  "dedup (x # y # xs) = (if x = y then dedup (y # xs) else x # dedup (y # xs))"
| "dedup xs = xs"

definition report_covered :: "suite_report \<Rightarrow> string list" where
  "report_covered r = dedup (sort (concat (map cc_covers
    (filter (\<lambda>c. cc_name c \<in> set (sr_passed r)) contract_cases))))"

text \<open>One case by name; an unknown name panics.\<close>

definition run_case :: "'s port_set \<Rightarrow> draws \<Rightarrow> contract_case \<Rightarrow> 's \<Rightarrow> (case_outcome \<times> 's) option" where
  "run_case ports d c s = (
    let backend = (\<lambda>r. do { s \<leftarrow> r; Some (Passed, s) }); protocol = (\<lambda>r. do { r; Some (Passed, s) }); name = cc_name c in
    if name = ''event-log'' then backend (assert_event_log_conformance ports d s)
    else if name = ''ledger'' then backend (assert_ledger_conformance ports d s)
    else if name = ''cancel'' then backend (assert_cancel_conformance ports d s)
    else if name = ''context-chain'' then backend (assert_context_conformance ports d s)
    else if name = ''integrity'' then
      (case ps_integrity ports of
         Some ig \<Rightarrow> protocol (assert_integrity_conformance ig d)
       | None \<Rightarrow> Some (Skipped ''backend supplies no ContentIntegrity port'', s))
    else if name = ''global-claim'' then backend (assert_global_claim ports d s)
    else if name = ''overload-integrity'' then backend (assert_overload_integrity ports d s)
    else if name = ''output-provenance'' then backend (assert_output_provenance ports d s)
    else if name = ''durability-order'' then backend (assert_durability_order ports d s)
    else if name = ''concurrency'' then backend (assert_concurrency_conformance ports d s)
    else if name = ''chain-closure'' then protocol (assert_output_items_are_valid_input d)
    else if name = ''protocol-subset'' then protocol (assert_protocol_subset_rejects d)
    else if name = ''event-coalesce'' then protocol assert_event_coalescing
    else if name = ''conversation'' then backend (assert_conversation_conformance ports d s)
    else if name = ''conversation-events'' then backend (assert_conversation_events_conformance ports d s)
    else None)"

text \<open>The cases in the order of the table, each with its own draws.\<close>

fun run_cases :: "'s port_set \<Rightarrow> (nat \<Rightarrow> draws) \<Rightarrow> nat \<Rightarrow> contract_case list \<Rightarrow> suite_report \<Rightarrow> 's \<Rightarrow> (suite_report \<times> 's) option" where
  "run_cases ports ds k [] report s = Some (report, s)"
| "run_cases ports ds k (c # cs) report s = do {
    (outcome, s) \<leftarrow> run_case ports (ds k) c s;
    run_cases ports ds (Suc k) cs
      (case outcome of
         Passed \<Rightarrow> report\<lparr>sr_passed := sr_passed report @ [cc_name c]\<rparr>
       | Skipped reason \<Rightarrow> report\<lparr>sr_skipped := sr_skipped report @ [(cc_name c, reason)]\<rparr>) s }"

definition run_suite_inner :: "'s port_set \<Rightarrow> (nat \<Rightarrow> draws) \<Rightarrow> string \<Rightarrow> 's \<Rightarrow> (suite_report \<times> 's) option" where
  "run_suite_inner ports ds label s =
    run_cases ports ds 0 contract_cases \<lparr>sr_label = label, sr_passed = [], sr_skipped = []\<rparr> s"

definition run_suite :: "'s port_set \<Rightarrow> (nat \<Rightarrow> draws) \<Rightarrow> 's \<Rightarrow> (suite_report \<times> 's) option" where
  "run_suite ports ds s = run_suite_inner ports ds ''unlabelled'' s"

definition run_suite_reported :: "'s port_set \<Rightarrow> (nat \<Rightarrow> draws) \<Rightarrow> string \<Rightarrow> 's \<Rightarrow> (suite_report \<times> 's) option" where
  "run_suite_reported ports ds label s = run_suite_inner ports ds label s"

text \<open>\<open>mem_ports\<close>: the adapters of \<open>MemWorld::new\<close>, which signs with a fixed test key.\<close>

definition mem_integrity :: "(string \<Rightarrow> string \<Rightarrow> string) \<Rightarrow> integrity option" where
  "mem_integrity hmac = the_ok (hmac_from_key hmac ''mem-adapter-test-key-0123456789'')"

definition mem_ports :: "codec \<Rightarrow> (string \<Rightarrow> string \<Rightarrow> string) \<Rightarrow> world port_set" where
  "mem_ports cx hmac = \<lparr>ps_ledger = mem_ledger cx (mem_integrity hmac), ps_event_log = mem_event_log,
    ps_conversation = mem_conversation, ps_integrity = mem_integrity hmac, ps_node_tag = NodeTag ''node-a''\<rparr>"

definition run_mem_suite ::
  "codec \<Rightarrow> (string \<Rightarrow> string \<Rightarrow> string) \<Rightarrow> (nat \<Rightarrow> draws) \<Rightarrow> (nat \<Rightarrow> nat) \<Rightarrow> (suite_report \<times> world) option" where
  "run_mem_suite cx hmac ds clock = run_suite (mem_ports cx hmac) ds (MemWorld_new clock)"

end
