(* ===== verification/Port_Laws.thy ===== *)
theory Port_Laws
  imports Ports
begin

text \<open>
  What the in-memory ports answer, as exact results: the laws from which the contract cases of
  \<open>Conformance\<close> follow.  The ledger is viewed as the list of its queued rows in claim order and the
  number of its running rows, a response log as the history of its events, a conversation as its record,
  stream and snapshot.
\<close>

section \<open>The queue of a ledger\<close>

definition is_queued :: "mem_store \<Rightarrow> response_id \<Rightarrow> bool" where
  "is_queued s rid \<longleftrightarrow> (case map_of (st_records s) rid of Some r \<Rightarrow> rr_status r = Queued | None \<Rightarrow> False)"

definition queued_rows :: "mem_store \<Rightarrow> response_id list" where
  "queued_rows s = filter (is_queued s) (st_queued s)"

definition rows_in :: "response_status \<Rightarrow> mem_store \<Rightarrow> nat" where
  "rows_in st s = length (filter (\<lambda>p. rr_status (snd p) = st) (st_records s))"

definition ledger_at :: "response_id list \<Rightarrow> nat \<Rightarrow> mem_store \<Rightarrow> bool" where
  "ledger_at q p s \<longleftrightarrow> ledger_wf s \<and> \<not> st_read_only s \<and> distinct (st_queued s) \<and>
    queued_rows s = q \<and> rows_in InProgress s = p"

lemma ledger_atD:
  assumes "ledger_at q p s"
  shows "ledger_wf s" "\<not> st_read_only s" "distinct (st_queued s)" "queued_rows s = q" "rows_in InProgress s = p"
  using assms by (simp_all add: ledger_at_def)

lemma rows_keys_distinct: "ledger_wf s \<Longrightarrow> keys_distinct (st_records s)"
  unfolding ledger_wf_def records_wf_def by blast

lemma rows_in_card:
  assumes "keys_distinct t"
  shows "length (filter (\<lambda>p. P (snd p)) t) = card {k. \<exists>v. map_of t k = Some v \<and> P v}"
proof -
  have d: "distinct (map fst (filter (\<lambda>p. P (snd p)) t))"
    using assms by (simp add: keys_distinct_def distinct_map_filter)
  have s: "set (map fst (filter (\<lambda>p. P (snd p)) t)) = {k. \<exists>v. map_of t k = Some v \<and> P v}"
    using map_of_in_set[OF assms] by (fastforce simp: image_iff)
  show ?thesis unfolding s[symmetric] distinct_card[OF d] by simp
qed

lemma queued_rows_set:
  assumes "ledger_wf s"
  shows "set (queued_rows s) = {k. \<exists>v. map_of (st_records s) k = Some v \<and> rr_status v = Queued}"
  using ledger_wfD(3)[OF assms] by (auto simp: queued_rows_def is_queued_def queue_ok_def split: option.splits)

lemma in_flight_split: "in_flight_count s = rows_in Queued s + rows_in InProgress s"
proof -
  have "length (filter (\<lambda>p. \<not> is_terminal (rr_status (snd p))) t) =
      length (filter (\<lambda>p. rr_status (snd p) = Queued) t) + length (filter (\<lambda>p. rr_status (snd p) = InProgress) t)"
    for t :: "(response_id \<times> response_record) list"
  proof (induction t)
    case (Cons p t)
    then show ?case by (cases "rr_status (snd p)") simp_all
  qed simp
  then show ?thesis by (simp add: in_flight_count_def rows_in_def)
qed

lemma in_flight_at: "ledger_at q p s \<Longrightarrow> in_flight_count s = length q + p"
proof -
  assume a: "ledger_at q p s"
  have d: "distinct (queued_rows s)" using ledger_atD(3)[OF a] by (simp add: queued_rows_def)
  have "rows_in Queued s = card (set (queued_rows s))"
    unfolding queued_rows_set[OF ledger_atD(1)[OF a]] rows_in_def
    by (rule rows_in_card[OF rows_keys_distinct[OF ledger_atD(1)[OF a]]])
  then show ?thesis using distinct_card[OF d] ledger_atD[OF a] by (simp add: in_flight_split)
qed

text \<open>Changing one row.\<close>

lemma filter_update_count:
  assumes "keys_distinct t" "map_of t k = Some v0"
  shows "length (filter (\<lambda>p. P (snd p)) (AList.update k v t)) + (if P v0 then 1 else 0) =
    length (filter (\<lambda>p. P (snd p)) t) + (if P v then 1 else 0)"
  using assms
proof (induction t)
  case (Cons p t)
  show ?case
  proof (cases "fst p = k")
    case False
    then have "map_of t k = Some v0" "keys_distinct t" using Cons.prems by (cases p; simp add: keys_distinct_def)+
    then show ?thesis using Cons.IH False by (cases p) auto
  qed (use Cons.prems in \<open>cases p; auto\<close>)
qed simp

lemma rows_in_update:
  assumes "ledger_wf s" "map_of (st_records s) rid = Some r0"
  shows "rows_in st (s\<lparr>st_records := AList.update rid r (st_records s)\<rparr>) + (if rr_status r0 = st then 1 else 0) =
    rows_in st s + (if rr_status r = st then 1 else 0)"
  using filter_update_count[OF rows_keys_distinct[OF assms(1)] assms(2), of "\<lambda>r. rr_status r = st" r]
  by (simp add: rows_in_def)

lemma update_new: "map_of t k = None \<Longrightarrow> AList.update k v t = t @ [(k, v)]"
  by (induction t) auto

lemma rows_in_insert:
  assumes "map_of (st_records s) (rr_response_id r) = None"
  shows "rows_in st (insert_record r s) = rows_in st s + (if rr_status r = st then 1 else 0)"
  using assms by (simp add: rows_in_def insert_record_def Let_def update_new)

lemma queued_rows_other:
  assumes "\<And>k. k \<in> set qs \<Longrightarrow> map_of (st_records s') k = map_of (st_records s) k"
  shows "filter (is_queued s') qs = filter (is_queued s) qs"
  using assms by (auto simp: is_queued_def cong: filter_cong)


lemma ledger_at_frame:
  "ledger_at q p (s\<lparr>st_idem := i\<rparr>) = ledger_at q p s"
  "ledger_at q p (s\<lparr>st_heartbeats := h\<rparr>) = ledger_at q p s"
  "ledger_at q p (s\<lparr>st_pending_limit := n\<rparr>) = ledger_at q p s"
  by (simp_all add: ledger_at_def queued_rows_def rows_in_def is_queued_def[abs_def] cong: filter_cong)

lemma ledger_at_conv:
  assumes "ledger_part s' = ledger_part s"
  shows "ledger_at q p s' = ledger_at q p s"
  using ledger_part_D[OF assms]
  by (simp add: ledger_at_def queued_rows_def rows_in_def is_queued_def[abs_def] cong: filter_cong)

section \<open>Creating\<close>

text \<open>The store after an accepted create.\<close>

definition enlist :: "response_record \<Rightarrow> idempotency_key \<Rightarrow> mem_store \<Rightarrow> mem_store" where
  "enlist r key s = insert_record r
    (s\<lparr>st_queued := st_queued s @ [rr_response_id r], st_idem := AList.update key (rr_response_id r) (st_idem s)\<rparr>)"

lemma enlist_fields [simp]:
  "map_of (st_records (enlist r key s)) = (map_of (st_records s))(rr_response_id r \<mapsto> r)"
  "st_queued (enlist r key s) = st_queued s @ [rr_response_id r]"
  "map_of (st_idem (enlist r key s)) = (map_of (st_idem s))(key \<mapsto> rr_response_id r)"
  "st_pending_limit (enlist r key s) = st_pending_limit s" "st_max_records (enlist r key s) = st_max_records s"
  "st_read_only (enlist r key s) = st_read_only s" "conv_part (enlist r key s) = conv_part s"
  by (simp_all add: enlist_def) (simp_all add: insert_record_def Let_def conv_part_def)

lemma enlist_length:
  "map_of (st_records s) (rr_response_id r) = None \<Longrightarrow>
    length (st_records (enlist r key s)) = Suc (length (st_records s))"
  by (simp add: enlist_def insert_record_def Let_def length_update_le)

lemma create_accepts:
  assumes at: "ledger_at q p s" and sg: "sign cx ig r0 = Inr r"
    and new: "map_of (st_idem s) key = None" and room: "length q + p < st_pending_limit s"
      "length (st_records s) < st_max_records s"
  shows "ledger_create cx ig r0 key s = (Inr (Accepted r), enlist r key s)"
  using in_flight_at[OF at] ledger_atD[OF at] sg new room by (simp add: ledger_create_def enlist_def)

lemma create_overloaded:
  assumes at: "ledger_at q p s" and sg: "sign cx ig r0 = Inr r"
    and new: "map_of (st_idem s) key = None" and full: "st_pending_limit s \<le> length q + p"
  shows "ledger_create cx ig r0 key s = (Inr Overloaded, s)"
  using in_flight_at[OF at] ledger_atD[OF at] sg new full by (simp add: ledger_create_def)

lemma create_duplicate:
  assumes sg: "sign cx ig r0 = Inr r" and old: "map_of (st_idem s) key = Some rid" "map_of (st_records s) rid = Some er"
  shows "ledger_create cx ig r0 key s = (Inr (Duplicate er), s)"
  using sg old by (simp add: ledger_create_def)

lemma enlist_at:
  assumes at: "ledger_at q p s" and ok: "record_ok r" "rr_status r = Queued"
    and new: "map_of (st_records s) (rr_response_id r) = None" "rr_response_id r \<notin> set (st_queued s)"
  shows "ledger_at (q @ [rr_response_id r]) p (enlist r key s)"
  unfolding ledger_at_def
proof (intro conjI)
  note D = ledger_atD[OF at]
  have wf: "ledger_wf (s\<lparr>st_queued := st_queued s @ [rr_response_id r],
      st_idem := AList.update key (rr_response_id r) (st_idem s)\<rparr>)"
    using ledger_wf_enqueue[OF D(1), of "[rr_response_id r]"] by simp
  show "ledger_wf (enlist r key s)"
    unfolding enlist_def by (rule ledger_wf_insert[OF wf]) (use ok new in simp_all)
  show "\<not> st_read_only (enlist r key s)" "distinct (st_queued (enlist r key s))" using D new by simp_all
  have "filter (is_queued (enlist r key s)) (st_queued s) = filter (is_queued s) (st_queued s)"
    by (rule queued_rows_other) (use new in auto)
  then show "queued_rows (enlist r key s) = q @ [rr_response_id r]"
    using D(4) ok(2) by (simp add: queued_rows_def is_queued_def)
  show "rows_in InProgress (enlist r key s) = p"
    using new(1) ok(2) D(5) unfolding enlist_def by (subst rows_in_insert) (simp_all add: rows_in_def)
qed

section \<open>Claiming\<close>

lemma claim_loop_skips:
  assumes "\<forall>k \<in> set pre. \<not> is_queued s k"
  shows "claim_loop a now ttl (pre @ qs) s = claim_loop a now ttl qs s"
  using assms by (induction pre) (auto simp: is_queued_def split: option.splits)

definition claimed_row :: "agent_id \<Rightarrow> response_record \<Rightarrow> response_record" where
  "claimed_row a r = r\<lparr>rr_attempt := attempt_next (rr_attempt r), rr_status := InProgress, rr_owner := Some a\<rparr>"

lemma claim_first:
  assumes at: "ledger_at (x # q) p s"
  obtains r s' where "map_of (st_records s) x = Some r" "rr_status r = Queued" "rr_response_id r = x"
    "ledger_claim a now ttl s =
      (Inr (Some \<lparr>cl_record = claimed_row a r, cl_exec_deadline_ms = sat_add now ttl\<rparr>), s')"
    "rr_attempt (claimed_row a r) = Attempt 1" "ledger_at q (Suc p) s'"
    "map_of (st_records s') = (map_of (st_records s))(x \<mapsto> claimed_row a r)"
    "st_idem s' = st_idem s" "st_pending_limit s' = st_pending_limit s" "st_max_records s' = st_max_records s"
    "length (st_records s') = length (st_records s)" "set (st_queued s') \<subseteq> set (st_queued s)"
proof -
  note D = ledger_atD[OF at]
  obtain pre rest where q: "st_queued s = pre @ x # rest" and pre: "\<forall>k \<in> set pre. \<not> is_queued s k"
    and x: "is_queued s x" and rest: "q = filter (is_queued s) rest"
    using D(4) unfolding queued_rows_def filter_eq_Cons_iff by blast
  obtain r where r: "map_of (st_records s) x = Some r" "rr_status r = Queued"
    using x by (auto simp: is_queued_def split: option.splits)
  define s' where "s' = s\<lparr>st_queued := rest, st_records := AList.update x (claimed_row a r) (st_records s),
      st_heartbeats := AList.update a now (st_heartbeats s)\<rparr>"
  have eq: "ledger_claim a now ttl s = (Inr (Some \<lparr>cl_record = claimed_row a r, cl_exec_deadline_ms = sat_add now ttl\<rparr>), s')"
    using D(2) r by (simp add: ledger_claim_def q claim_loop_skips[OF pre] s'_def claimed_row_def Let_def)
  have "ledger_wf s'" using ledger_claim_wf[OF D(1), of a now ttl] eq by simp
  moreover have "filter (is_queued s') rest = filter (is_queued s) rest"
    by (rule queued_rows_other) (use D(3) q in \<open>auto simp: s'_def\<close>)
  moreover have "rows_in InProgress s' = Suc p"
  proof -
    have "rows_in InProgress s' = rows_in InProgress (s\<lparr>st_records := AList.update x (claimed_row a r) (st_records s)\<rparr>)"
      by (simp add: rows_in_def s'_def)
    then show ?thesis using rows_in_update[OF D(1) r(1), of InProgress "claimed_row a r"] r(2) D(5)
      by (simp add: claimed_row_def)
  qed
  ultimately have at': "ledger_at q (Suc p) s'"
    using D(2,3) rest q by (simp add: ledger_at_def queued_rows_def s'_def)
  have one: "rr_attempt (claimed_row a r) = Attempt 1"
    using ledger_wf_record_ok[OF D(1) r(1)] r(2)
    by (simp add: record_ok_def claimed_row_def attempt_next_def UNCLAIMED_def sat_add_def u64_max_def)
  show thesis
    by (rule that[OF r(1,2) _ eq one at'])
      (use r q records_wf_id[OF ledger_wfD(1)[OF D(1)] r(1)] in \<open>auto simp: s'_def length_update_le\<close>)
qed

lemma claim_nothing:
  assumes at: "ledger_at [] p s"
  shows "ledger_claim a now ttl s = (Inr None, s\<lparr>st_queued := []\<rparr>)" "ledger_at [] p (s\<lparr>st_queued := []\<rparr>)"
proof -
  note D = ledger_atD[OF at]
  have "\<forall>k \<in> set (st_queued s). \<not> is_queued s k"
    using D(4) by (auto simp: queued_rows_def filter_empty_conv)
  from claim_loop_skips[OF this, of a now ttl "[]"]
  show eq: "ledger_claim a now ttl s = (Inr None, s\<lparr>st_queued := []\<rparr>)"
    using D(2) by (simp add: ledger_claim_def)
  show "ledger_at [] p (s\<lparr>st_queued := []\<rparr>)"
    using ledger_claim_wf[OF D(1), of a now ttl] D eq by (simp add: ledger_at_def queued_rows_def rows_in_def)
qed

section \<open>Ending a row\<close>

lemma complete_running:
  assumes at: "ledger_at q p s" and r: "map_of (st_records s) rid = Some r" "rr_status r = InProgress"
    and st: "is_terminal st"
  obtains s' where "ledger_complete rid (rr_attempt r) st u now s = (Inr (), s')" "ledger_at q (p - 1) s'"
    "map_of (st_records s') = (map_of (st_records s))(rid \<mapsto> r\<lparr>rr_status := st, rr_owner := None, rr_usage := u,
      rr_completed_at_ms := Some now\<rparr>)"
    "st_idem s' = st_idem s" "st_queued s' = st_queued s" "st_pending_limit s' = st_pending_limit s"
    "st_max_records s' = st_max_records s" "length (st_records s') = length (st_records s)" "0 < p"
proof -
  note D = ledger_atD[OF at]
  let ?r = "r\<lparr>rr_status := st, rr_owner := None, rr_usage := u, rr_completed_at_ms := Some now\<rparr>"
  define s' where "s' = s\<lparr>st_records := AList.update rid ?r (st_records s)\<rparr>"
  have eq: "ledger_complete rid (rr_attempt r) st u now s = (Inr (), s')"
    using D(2) r st by (simp add: ledger_complete_def s'_def)
  have "ledger_wf s'" using ledger_complete_wf[OF D(1), of rid "rr_attempt r" st u now] eq by simp
  moreover have "queued_rows s' = q"
  proof -
    have "is_queued s' = is_queued s"
      using r st by (cases st) (auto simp: is_queued_def s'_def fun_eq_iff)
    then show ?thesis using D(4) by (simp add: queued_rows_def) (simp add: s'_def)
  qed
  moreover have "rows_in InProgress s' + 1 = p"
    using rows_in_update[OF D(1) r(1), of InProgress ?r] r(2) st D(5) by (auto simp: s'_def is_terminal_iff)
  ultimately have at': "ledger_at q (p - 1) s'" "0 < p" using D(2,3) by (auto simp: ledger_at_def s'_def)
  show thesis
    by (rule that[OF eq at'(1)]) (use r at'(2) in \<open>auto simp: s'_def length_update_le\<close>)
qed

lemma complete_again:
  assumes "\<not> st_read_only s" "map_of (st_records s) rid = Some r" "is_terminal (rr_status r)"
  shows "is_terminal st \<Longrightarrow> ledger_complete rid att st u now s = (Inl LStaleAttempt, s)"
    "\<not> is_terminal st \<Longrightarrow> \<exists>m. ledger_complete rid att st u now s = (Inl (LInvalidTransition m), s)"
  using assms by (auto simp: ledger_complete_def)

lemma cancel_queued:
  assumes at: "ledger_at q p s" and r: "map_of (st_records s) rid = Some r" "rr_status r = Queued"
      "rr_tenant_id r = tenant"
  obtains s' where "ledger_cancel tenant rid now s = (Inr (), s')" "ledger_at (remove1 rid q) p s'"
    "map_of (st_records s') = (map_of (st_records s))(rid \<mapsto> r\<lparr>rr_attempt := Attempt 1, rr_status := Cancelled,
      rr_owner := None, rr_completed_at_ms := Some now\<rparr>)"
    "st_idem s' = st_idem s" "st_queued s' = st_queued s" "st_pending_limit s' = st_pending_limit s"
    "st_max_records s' = st_max_records s" "length (st_records s') = length (st_records s)"
proof -
  note D = ledger_atD[OF at]
  have ok: "rr_attempt r = Attempt 0" "usage_is_zero (rr_usage r)"
    using ledger_wf_record_ok[OF D(1) r(1)] r(2)
    by (simp_all add: record_ok_def UNCLAIMED_def usage_is_zero_def Usage_default_def Usage_new_def)
  let ?r = "r\<lparr>rr_attempt := Attempt 1, rr_status := Cancelled, rr_owner := None, rr_completed_at_ms := Some now\<rparr>"
  define s' where "s' = s\<lparr>st_records := AList.update rid ?r (st_records s)\<rparr>"
  have eq: "ledger_cancel tenant rid now s = (Inr (), s')"
    using D(2) r ok by (simp add: ledger_cancel_def book_partial_def s'_def attempt_next_def sat_add_def u64_max_def)
  have "ledger_wf s'" using ledger_cancel_wf[OF D(1), of tenant rid now] eq by simp
  moreover have "queued_rows s' = remove1 rid q"
  proof -
    have "is_queued s' = (\<lambda>k. is_queued s k \<and> k \<noteq> rid)" by (auto simp: is_queued_def s'_def fun_eq_iff)
    then have "queued_rows s' = filter (\<lambda>k. is_queued s k \<and> k \<noteq> rid) (st_queued s)"
      by (simp add: queued_rows_def) (simp add: s'_def)
    also have "\<dots> = filter (\<lambda>k. k \<noteq> rid) q" using D(4) by (auto simp: queued_rows_def conj_commute)
    also have "\<dots> = filter (\<lambda>k. rid \<noteq> k) q" by (rule filter_cong) auto
    also have "\<dots> = remove1 rid q" using D(3,4) by (auto simp: distinct_remove1_removeAll removeAll_filter_not_eq queued_rows_def)
    finally show ?thesis .
  qed
  moreover have "rows_in InProgress s' = p"
    using rows_in_update[OF D(1) r(1), of InProgress ?r] r(2) D(5) by (auto simp: s'_def)
  ultimately have at': "ledger_at (remove1 rid q) p s'" using D(2,3) by (auto simp: ledger_at_def s'_def)
  show thesis by (rule that[OF eq at']) (use r in \<open>auto simp: s'_def length_update_le\<close>)
qed

lemma partial_usage_at:
  assumes at: "ledger_at q p s" and r: "map_of (st_records s) rid \<noteq> None"
  obtains s' where "ledger_record_partial_usage rid att u s = (Inr (), s')" "ledger_at q p s'"
    "st_records s' = st_records s" "st_idem s' = st_idem s" "st_queued s' = st_queued s"
    "st_pending_limit s' = st_pending_limit s" "st_max_records s' = st_max_records s"
proof -
  note D = ledger_atD[OF at]
  obtain s' where eq: "ledger_record_partial_usage rid att u s = (Inr (), s')"
    and s': "\<exists>v. s' = s\<lparr>st_partial_usage := v\<rparr>"
    using r by (auto simp: ledger_record_partial_usage_def Let_def)
  have "ledger_wf s'" using ledger_record_partial_usage_wf[OF D(1), of rid att u] eq by simp
  then have "ledger_at q p s'"
    using D s' by (auto simp: ledger_at_def queued_rows_def rows_in_def is_queued_def[abs_def] cong: filter_cong)
  then show thesis using that[OF eq] s' by auto
qed

lemma delete_absent:
  assumes "\<not> st_read_only s" "map_of (st_records s) rid = None"
  shows "ledger_delete rid s = (Inr False, s)"
  using assms by (simp add: ledger_delete_def remove_record_def)

section \<open>The event log\<close>

text \<open>An open log with the given history; the empty history is a log that was never written.\<close>

definition log_at :: "event_log \<Rightarrow> response_id \<Rightarrow> append_event list \<Rightarrow> bool" where
  "log_at g rid h \<longleftrightarrow>
    (case map_of (el_logs g) rid of
       None \<Rightarrow> h = []
     | Some l \<Rightarrow> log_refines (el_capacity_per_response g) h l \<and> \<not> rl_swept l)"

lemma append_at:
  assumes at: "log_at g (ae_response_id e) h" and room: "length (el_logs g) < el_max_logs g"
    and fence: "append_fence e s = Inr ()"
  obtains g' where "event_append e s g = (Inr (length h), g')" "log_at g' (ae_response_id e) (h @ [e])"
    "map_of (el_logs g') (ae_response_id e) \<noteq> None"
    "\<forall>rid. rid \<noteq> ae_response_id e \<longrightarrow> map_of (el_logs g') rid = map_of (el_logs g) rid"
    "el_capacity_per_response g' = el_capacity_per_response g" "el_max_logs g' = el_max_logs g"
    "length (el_logs g') = length (el_logs g) + (if map_of (el_logs g) (ae_response_id e) = None then 1 else 0)"
proof -
  let ?l = "case map_of (el_logs g) (ae_response_id e) of Some l \<Rightarrow> l | None \<Rightarrow> ResponseLog_new"
  let ?c = "el_capacity_per_response g"
  have l: "log_refines ?c h ?l" "\<not> rl_swept ?l"
    using at by (auto simp: log_at_def ResponseLog_new_def[THEN arg_cong[where f = rl_swept]] split: option.splits)
  have n: "rl_next_seq ?l = length h" using l(1) by (simp add: log_refines_def)
  have p: "log_refines ?c (h @ [e]) (push_event ?c e ?l)" by (rule push_event_refines[OF l])
  have ns: "\<not> rl_swept (push_event ?c e ?l)" using l(2) by (simp add: push_event_def evict_eq)
  show thesis
    by (rule that[of "g\<lparr>el_logs := AList.update (ae_response_id e) (push_event ?c e ?l) (el_logs g)\<rparr>"])
      (use fence room l(2) n p ns in \<open>simp_all add: event_append_def append_write_def Let_def log_at_def length_update_le\<close>)
qed

lemma open_fence:
  assumes "\<not> st_read_only s" "ae_attempt e = None"
  shows "append_fence e s = Inr ()"
  using assms by (simp add: append_fence_def)

lemma held_fence:
  assumes "\<not> st_read_only s" "ae_attempt e = Some att" "map_of (st_records s) (ae_response_id e) = Some r"
    "rr_status r = InProgress"
  shows "att = rr_attempt r \<Longrightarrow> append_fence e s = Inr ()"
    "att \<noteq> rr_attempt r \<Longrightarrow> append_fence e s = Inl EStaleAttempt"
  using assms by (auto simp: append_fence_def check_attempt_def)

lemma read_at:
  assumes "log_at g rid h" "map_of (el_logs g) rid \<noteq> None" "length h \<le> el_capacity_per_response g"
  shows "event_read_waiting rid after limit [g] = Inr (take limit (drop (read_target after) (numbered h)))"
proof -
  have "event_read_after rid after limit g = Inr (take limit (drop (read_target after) (numbered h)))"
    using assms by (auto simp: log_at_def event_read_after_def log_read_refines split: option.splits)
  then show ?thesis by simp
qed

lemma read_unknown: "map_of (el_logs g) rid = None \<Longrightarrow> event_read_waiting rid after limit [g] = Inl EUnknown"
  by (simp add: event_read_after_def)

lemma numbered_seqs: "map re_sequence_number (numbered h) = [0..<length h]"
  by (rule nth_equalityI) (simp_all add: with_seq_def)

text \<open>Closing a log and sweeping past its retention, but not past its tombstone.\<close>

lemma close_and_sweep:
  assumes l: "map_of (el_logs g) rid = Some l" and wf: "event_log_wf g"
    and t: "now + retain \<le> now'" "now' < now + retain * TOMBSTONE_FACTOR" "now + retain * TOMBSTONE_FACTOR \<le> u64_max"
  obtains g1 n g2 where "event_close rid now retain g = (Inr (), g1)" "event_sweep_expired now' g1 = (Inr n, g2)"
    "\<forall>after limit. event_read_waiting rid after limit [g2] = Inl EExpired"
    "event_log_wf g2" "el_capacity_per_response g2 = el_capacity_per_response g" "el_max_logs g2 = el_max_logs g"
    "length (el_logs g2) \<le> length (el_logs g)" "dom (map_of (el_logs g2)) \<subseteq> dom (map_of (el_logs g))"
proof -
  let ?l = "l\<lparr>rl_retain_ms := retain, rl_terminal_at_ms := Some now\<rparr>"
  define g1 where "g1 = g\<lparr>el_logs := AList.update rid ?l (el_logs g)\<rparr>"
  have c: "event_close rid now retain g = (Inr (), g1)" using l by (simp add: event_close_def g1_def)
  have wf1: "event_log_wf g1" using event_close_wf[OF wf, of rid now retain] c by simp
  then have kd: "keys_distinct (el_logs g1)" by (auto simp: event_log_wf_def log_refines_all_def)
  define g2 where "g2 = snd (event_sweep_expired now' g1)"
  have sw: "event_sweep_expired now' g1 = (Inr (fst (sweep_entries now' (el_logs g1))), g2)"
    by (simp add: g2_def event_sweep_expired_def case_prod_unfold)
  have ex: "retain \<le> u64_max" "retain * TOMBSTONE_FACTOR \<le> u64_max" "now + retain \<le> u64_max"
    using t(3) by (auto simp: TOMBSTONE_FACTOR_def)
  have act: "sweep_action_of now' ?l \<in> {Keep, Sweep} \<and> (rl_swept ?l \<or> sweep_action_of now' ?l = Sweep)"
    using t ex
    by (auto simp: sweep_action_of_def deadline_passed_def tombstone_deadline_def retention_deadline_def
        sat_mul_def sat_add_exact)
  have m: "map_of (el_logs g2) k = Option.bind (map_of (el_logs g1) k) (sweep_result now')" for k
    using sweep_entries_spec[OF kd, of now' k] by (simp add: g2_def event_sweep_expired_def case_prod_unfold)
  have "\<exists>l'. map_of (el_logs g2) rid = Some l' \<and> rl_swept l'"
    using act m[of rid] by (auto simp: g1_def sweep_result_def swept_log_def)
  then have ex': "\<forall>after limit. event_read_waiting rid after limit [g2] = Inl EExpired"
    by (auto simp: event_read_after_def log_read_def)
  have "length (el_logs g2) \<le> length (el_logs g)"
    using sweep_entries_spec[OF kd, of now'] l
    by (auto simp: g2_def g1_def event_sweep_expired_def case_prod_unfold length_update_le)
  moreover have "dom (map_of (el_logs g2)) \<subseteq> dom (map_of (el_logs g))"
    using m l by (auto simp: g1_def dom_def Option.bind_eq_Some_conv split: if_splits)
  ultimately show thesis
    by (intro that[OF c sw ex']) (use event_sweep_expired_wf[OF wf1, of now'] in
      \<open>simp_all add: g2_def[symmetric] g2_def event_sweep_expired_def case_prod_unfold g1_def\<close>)
qed

section \<open>Conversations\<close>

definition conv_open :: "mem_store \<Rightarrow> bool" where
  "conv_open s \<longleftrightarrow> conv_wf s \<and> \<not> st_read_only s \<and> \<not> st_unavailable s"

definition conv_at :: "mem_store \<Rightarrow> conversation \<Rightarrow> conversation_event_stream \<Rightarrow> snapshot \<Rightarrow> bool" where
  "conv_at s c st sn \<longleftrightarrow> conv_open s \<and> map_of (st_conversations s) (cv_id c) = Some c \<and>
    stream_of s (cv_id c) = st \<and> snapshot_of s (cv_id c) = sn"

text \<open>Everything about the other conversations, and how many there are.\<close>

definition conv_rest :: "conversation_id set \<Rightarrow> mem_store \<Rightarrow> mem_store \<Rightarrow> bool" where
  "conv_rest ids s s' \<longleftrightarrow> ledger_part s' = ledger_part s \<and> st_max_conversations s' = st_max_conversations s \<and>
    (\<forall>k. k \<notin> ids \<longrightarrow> map_of (st_conversations s') k = map_of (st_conversations s) k \<and>
      stream_of s' k = stream_of s k \<and> snapshot_of s' k = snapshot_of s k)"

lemma conv_guard_open [simp]:
  "conv_open s \<Longrightarrow> conv_guard_writable s = Inr ()" "conv_open s \<Longrightarrow> conv_guard_available s = Inr ()"
  by (simp_all add: conv_open_def conv_guard_writable_def conv_guard_available_def)

lemma conv_open_ledger_part:
  "ledger_part s' = ledger_part s \<Longrightarrow> conv_wf s' \<Longrightarrow> conv_open s \<Longrightarrow> conv_open s'"
  using ledger_part_D[of s' s] by (simp add: conv_open_def)

lemma conv_atD:
  assumes "conv_at s c st sn"
  shows "conv_open s" "map_of (st_conversations s) (cv_id c) = Some c" "stream_of s (cv_id c) = st"
    "snapshot_of s (cv_id c) = sn" "owned s (cv_tenant_id c) (cv_id c) = Some c"
    "tenant \<noteq> cv_tenant_id c \<Longrightarrow> owned s tenant (cv_id c) = None"
  using assms by (auto simp: conv_at_def owned_def)

lemma absent_owned: "map_of (st_conversations s) cid = None \<Longrightarrow> owned s tenant cid = None"
  by (simp add: owned_def)

lemma absent_parts:
  assumes "conv_wf s" "map_of (st_conversations s) cid = None"
  shows "stream_of s cid = Stream_default" "snapshot_of s cid = Snapshot_default"
  using conv_wfD(2)[OF assms(1), of cid] assms(2) by (simp_all add: conv_ok_def stream_of_def snapshot_of_def)

lemma conv_create_at:
  assumes op: "conv_open s" and new: "map_of (st_conversations s) (cv_id c) = None" "cv_active_response_id c = None"
    and room: "length (st_conversations s) < st_max_conversations s"
  obtains s' where "conv_create c s = (Inr c, s')" "conv_at s' c Stream_default Snapshot_default"
    "conv_rest {cv_id c} s s'" "length (st_conversations s') = Suc (length (st_conversations s))"
    "dom (map_of (st_conversations s')) = insert (cv_id c) (dom (map_of (st_conversations s)))"
proof -
  have wf: "conv_wf s" using op by (simp add: conv_open_def)
  have eq: "conv_create c s = (Inr c, insert_conversation c s)" using op room by (simp add: conv_create_def)
  have "conv_wf (insert_conversation c s)" using conv_create_wf[OF wf new] eq by simp
  then have op': "conv_open (insert_conversation c s)" by (rule conv_open_ledger_part[rotated]) (use op in simp_all)
  show thesis
    by (rule that[OF eq])
      (use op' new absent_parts[OF wf new(1)] in \<open>auto simp: conv_at_def conv_rest_def\<close>,
        auto simp: insert_conversation_def length_update_le new)
qed

text \<open>Replacing the record of a conversation.\<close>

lemma insert_at:
  assumes at: "conv_at s c st sn" and c': "cv_id c' = cv_id c"
    and wf: "conv_wf (insert_conversation c' s)"
  shows "conv_at (insert_conversation c' s) c' st sn" "conv_rest {cv_id c} s (insert_conversation c' s)"
    "length (st_conversations (insert_conversation c' s)) = length (st_conversations s)"
    "dom (map_of (st_conversations (insert_conversation c' s))) = dom (map_of (st_conversations s))"
proof -
  have op: "conv_open (insert_conversation c' s)"
    by (rule conv_open_ledger_part[OF _ wf conv_atD(1)[OF at]]) simp
  show "conv_at (insert_conversation c' s) c' st sn" "conv_rest {cv_id c} s (insert_conversation c' s)"
    "length (st_conversations (insert_conversation c' s)) = length (st_conversations s)"
    "dom (map_of (st_conversations (insert_conversation c' s))) = dom (map_of (st_conversations s))"
    using op at c' by (auto simp: conv_at_def conv_rest_def) (auto simp: insert_conversation_def length_update_le)
qed

lemma metadata_at:
  assumes at: "conv_at s c st sn"
  obtains s' where "conv_update_metadata (cv_tenant_id c) (cv_id c) m s = (Inr (c\<lparr>cv_metadata := m\<rparr>), s')"
    "conv_at s' (c\<lparr>cv_metadata := m\<rparr>) st sn" "conv_rest {cv_id c} s s'"
    "length (st_conversations s') = length (st_conversations s)"
    "dom (map_of (st_conversations s')) = dom (map_of (st_conversations s))"
proof -
  note D = conv_atD[OF at]
  have eq: "conv_update_metadata (cv_tenant_id c) (cv_id c) m s = (Inr (c\<lparr>cv_metadata := m\<rparr>), insert_conversation (c\<lparr>cv_metadata := m\<rparr>) s)"
    using D by (simp add: conv_update_metadata_def Let_def)
  have wf: "conv_wf (insert_conversation (c\<lparr>cv_metadata := m\<rparr>) s)"
    using conv_update_metadata_wf[of s "cv_tenant_id c" "cv_id c" m] D(1) eq by (simp add: conv_open_def)
  show thesis by (rule that[OF eq insert_at[OF at _ wf]]) simp_all
qed

lemma advance_at:
  assumes at: "conv_at s c st sn"
  obtains s' where "conv_advance (cv_tenant_id c) (cv_id c) rid s = (Inr (), s')"
    "conv_at s' (c\<lparr>cv_last_response_id := Some rid\<rparr>) st sn" "conv_rest {cv_id c} s s'"
    "length (st_conversations s') = length (st_conversations s)"
    "dom (map_of (st_conversations s')) = dom (map_of (st_conversations s))"
proof -
  note D = conv_atD[OF at]
  have eq: "conv_advance (cv_tenant_id c) (cv_id c) rid s = (Inr (), insert_conversation (c\<lparr>cv_last_response_id := Some rid\<rparr>) s)"
    using D by (simp add: conv_advance_def)
  have wf: "conv_wf (insert_conversation (c\<lparr>cv_last_response_id := Some rid\<rparr>) s)"
    using conv_advance_wf[of s "cv_tenant_id c" "cv_id c" rid] D(1) eq by (simp add: conv_open_def)
  show thesis by (rule that[OF eq insert_at[OF at _ wf]]) simp_all
qed


text \<open>Any operation on one conversation that says what it left of it.\<close>

lemma conv_atI:
  assumes at: "conv_at s c st sn" and wf: "conv_wf s'" and part: "ledger_part s' = ledger_part s"
    and c': "cv_id c' = cv_id c"
    and views: "map_of (st_conversations s') = (map_of (st_conversations s))(cv_id c \<mapsto> c')"
      "stream_of s' = (stream_of s)(cv_id c := st')" "snapshot_of s' = (snapshot_of s)(cv_id c := sn')"
    and size: "length (st_conversations s') = length (st_conversations s)" "st_max_conversations s' = st_max_conversations s"
  shows "conv_at s' c' st' sn' \<and> conv_rest {cv_id c} s s' \<and>
    length (st_conversations s') = length (st_conversations s) \<and>
    dom (map_of (st_conversations s')) = dom (map_of (st_conversations s))"
proof -
  have "conv_open s'" by (rule conv_open_ledger_part[OF part wf conv_atD(1)[OF at]])
  then show ?thesis using at c' views size part by (auto simp: conv_at_def conv_rest_def)
qed

lemma put_stream_views:
  "stream_of (put_stream cid st s) = (stream_of s)(cid := st)"
  "st_max_conversations (put_stream cid st s) = st_max_conversations s"
  by (auto simp: put_stream_def stream_of_def)

lemma insert_conversation_sizes:
  "map_of (st_conversations s) (cv_id c) \<noteq> None \<Longrightarrow>
    length (st_conversations (insert_conversation c s)) = length (st_conversations s)"
  "st_max_conversations (insert_conversation c s) = st_max_conversations s"
  "st_max_events_per_conversation (insert_conversation c s) = st_max_events_per_conversation s"
  "ensure_event_capacity (insert_conversation c s) = ensure_event_capacity s"
  by (auto simp: insert_conversation_def length_update_le ensure_event_capacity_def fun_eq_iff)

lemma capacity_at:
  assumes "conv_at s c st sn"
  shows "ensure_event_capacity s (cv_id c) =
    (if st_max_events_per_conversation s \<le> cs_next_seq st then Inl CCapacityExceeded else Inr ())"
  using assms by (auto simp: ensure_event_capacity_def conv_at_def stream_of_def Stream_default_def split: option.splits)

lemma turn_known:
  assumes at: "conv_at s c st sn" and k: "map_of (sn_appended sn) rid = Some i"
  obtains s' where "append_turn (cv_tenant_id c) (cv_id c) rid tc s = (Inr i, s')" "conv_at s' c st sn"
    "conv_rest {cv_id c} s s'" "length (st_conversations s') = length (st_conversations s)"
    "dom (map_of (st_conversations s')) = dom (map_of (st_conversations s))"
proof -
  note D = conv_atD[OF at]
  define s' where "s' = s\<lparr>st_snapshots := AList.update (cv_id c) sn (st_snapshots s)\<rparr>"
  have eq: "append_turn (cv_tenant_id c) (cv_id c) rid tc s = (Inr i, s')"
    using D k by (simp add: append_turn_def Let_def s'_def)
  have "conv_wf s'" using append_turn_wf[of s "cv_tenant_id c" "cv_id c" rid tc] D(1) eq by (simp add: conv_open_def)
  then have "conv_at s' c st sn \<and> conv_rest {cv_id c} s s' \<and> length (st_conversations s') = length (st_conversations s) \<and>
    dom (map_of (st_conversations s')) = dom (map_of (st_conversations s))"
    using D by (intro conv_atI[OF at]) (auto simp: s'_def ledger_part_def stream_of_def snapshot_of_def)
  then show thesis using that[OF eq] by blast
qed

definition turn_added :: "response_id \<Rightarrow> turn_commit \<Rightarrow> snapshot \<Rightarrow> snapshot" where
  "turn_added rid tc sn = sn\<lparr>sn_entries := sn_entries sn @ turn_entries tc, sn_turn_count := sn_turn_count sn + 1,
    sn_appended := AList.update rid (sn_turn_count sn) (sn_appended sn)\<rparr>"

lemma turn_new:
  assumes at: "conv_at s c st sn" and k: "map_of (sn_appended sn) rid = None"
  obtains s' where "append_turn (cv_tenant_id c) (cv_id c) rid tc s = (Inr (sn_turn_count sn), s')"
    "conv_at s' c st (turn_added rid tc sn)"
    "conv_rest {cv_id c} s s'" "length (st_conversations s') = length (st_conversations s)"
    "dom (map_of (st_conversations s')) = dom (map_of (st_conversations s))"
proof -
  note D = conv_atD[OF at]
  define s' where "s' = s\<lparr>st_snapshots := AList.update (cv_id c) (turn_added rid tc sn) (st_snapshots s)\<rparr>"
  have eq: "append_turn (cv_tenant_id c) (cv_id c) rid tc s = (Inr (sn_turn_count sn), s')"
    using D k by (simp add: append_turn_def Let_def s'_def turn_added_def)
  have "conv_wf s'" using append_turn_wf[of s "cv_tenant_id c" "cv_id c" rid tc] D(1) eq by (simp add: conv_open_def)
  then have "conv_at s' c st (turn_added rid tc sn) \<and> conv_rest {cv_id c} s s' \<and>
    length (st_conversations s') = length (st_conversations s) \<and>
    dom (map_of (st_conversations s')) = dom (map_of (st_conversations s))"
    using D by (intro conv_atI[OF at]) (auto simp: s'_def ledger_part_def stream_of_def snapshot_of_def)
  then show thesis using that[OF eq] by blast
qed

lemma snapshot_at: "conv_at s c st sn \<Longrightarrow>
    read_snapshot (cv_tenant_id c) (cv_id c) s = Inr (ResolvedContext_new (sn_entries sn) (sn_turn_count sn))"
  by (simp add: read_snapshot_def conv_atD)

lemma snapshot_absent: "conv_open s \<Longrightarrow> owned s tenant cid = None \<Longrightarrow> read_snapshot tenant cid s = Inl CNotFound"
  by (simp add: read_snapshot_def)

lemma acquire_at:
  assumes at: "conv_at s c st sn" and free: "cv_active_response_id c = None"
    and room: "cs_next_seq st < st_max_events_per_conversation s"
  obtains s' where "acquire_active (cv_tenant_id c) (cv_id c) rid now s = (Inr (cs_next_seq st), s')"
    "conv_at s' (c\<lparr>cv_active_response_id := Some rid\<rparr>)
      ((stream_push (cv_id c) (TurnStarted rid) now st)\<lparr>cs_lock_seq := Some (cs_next_seq st)\<rparr>) sn"
    "conv_rest {cv_id c} s s'" "length (st_conversations s') = length (st_conversations s)"
    "dom (map_of (st_conversations s')) = dom (map_of (st_conversations s))"
proof -
  note D = conv_atD[OF at]
  let ?c = "c\<lparr>cv_active_response_id := Some rid\<rparr>"
  let ?st = "(stream_push (cv_id c) (TurnStarted rid) now st)\<lparr>cs_lock_seq := Some (cs_next_seq st)\<rparr>"
  obtain s' where s': "s' = snd (acquire_active (cv_tenant_id c) (cv_id c) rid now s)" by blast
  have eq: "acquire_active (cv_tenant_id c) (cv_id c) rid now s = (Inr (cs_next_seq st), s')"
    using D free room capacity_at[OF at] by (simp add: s' acquire_active_def push_conversation_event_eq)
  have views: "map_of (st_conversations s') = (map_of (st_conversations s))(cv_id c \<mapsto> ?c)"
      "stream_of s' = (stream_of s)(cv_id c := ?st)" "snapshot_of s' = (snapshot_of s)(cv_id c := sn)"
      "length (st_conversations s') = length (st_conversations s)" "st_max_conversations s' = st_max_conversations s"
    using D free room capacity_at[OF at]
    by (auto simp: s' acquire_active_def push_conversation_event_eq put_stream_views insert_conversation_sizes)
  have "conv_wf s'" using acquire_active_wf[of s "cv_tenant_id c" "cv_id c" rid now] D(1) by (simp add: conv_open_def s')
  from conv_atI[OF at this _ _ views, of] show thesis using that[OF eq] by (simp add: s')
qed

lemma acquire_held:
  assumes "conv_at s c st sn" "cv_active_response_id c = Some rid" "cs_lock_seq st = Some i"
  shows "acquire_active (cv_tenant_id c) (cv_id c) rid now s = (Inr i, s)"
  using conv_atD[OF assms(1)] assms(2,3) by (simp add: acquire_active_def)

lemma acquire_busy:
  assumes "conv_at s c st sn" "cv_active_response_id c = Some holder" "holder \<noteq> rid"
  shows "acquire_active (cv_tenant_id c) (cv_id c) rid now s = (Inl (CBusy holder), s)"
  using conv_atD[OF assms(1)] assms(2,3) by (simp add: acquire_active_def)

lemma acquire_foreign: "conv_open s \<Longrightarrow> owned s tenant cid = None \<Longrightarrow> acquire_active tenant cid rid now s = (Inl CNotFound, s)"
  by (simp add: acquire_active_def)

lemma release_at:
  assumes at: "conv_at s c st sn" and held: "cv_active_response_id c = Some rid"
    and once: "\<And>i. cs_last_completed st \<noteq> Some (rid, i)"
    and room: "cs_next_seq st < st_max_events_per_conversation s"
  obtains s' where "release_active (cv_tenant_id c) (cv_id c) rid status now s = (Inr (cs_next_seq st), s')"
    "conv_at s' (c\<lparr>cv_active_response_id := None\<rparr>)
      ((stream_push (cv_id c) (TurnCompleted rid status) now st)\<lparr>cs_last_completed := Some (rid, cs_next_seq st)\<rparr>) sn"
    "conv_rest {cv_id c} s s'" "length (st_conversations s') = length (st_conversations s)"
    "dom (map_of (st_conversations s')) = dom (map_of (st_conversations s))"
proof -
  note D = conv_atD[OF at]
  let ?c = "c\<lparr>cv_active_response_id := None\<rparr>"
  let ?st = "(stream_push (cv_id c) (TurnCompleted rid status) now st)\<lparr>cs_last_completed := Some (rid, cs_next_seq st)\<rparr>"
  have rel: "release_active (cv_tenant_id c) (cv_id c) rid status now s = release_marker (cv_id c) c rid status now s"
    using D held once by (auto simp: release_active_def split: option.split)
  obtain s' where s': "s' = snd (release_marker (cv_id c) c rid status now s)" by blast
  have eq: "release_active (cv_tenant_id c) (cv_id c) rid status now s = (Inr (cs_next_seq st), s')"
    using D room capacity_at[OF at] by (simp add: rel s' release_marker_def push_conversation_event_eq)
  have views: "map_of (st_conversations s') = (map_of (st_conversations s))(cv_id c \<mapsto> ?c)"
      "stream_of s' = (stream_of s)(cv_id c := ?st)" "snapshot_of s' = (snapshot_of s)(cv_id c := sn)"
      "length (st_conversations s') = length (st_conversations s)" "st_max_conversations s' = st_max_conversations s"
    using D room capacity_at[OF at]
    by (auto simp: s' release_marker_def push_conversation_event_eq put_stream_views insert_conversation_sizes)
  have "conv_wf s'" "ledger_part s' = ledger_part s"
    using release_active_wf[of s "cv_tenant_id c" "cv_id c" rid status now] D(1) eq
      conv_ops_ledger_part(7)[of "cv_tenant_id c" "cv_id c" rid status now s]
    by (simp_all add: conv_open_def)
  from conv_atI[OF at this _ views] show thesis using that[OF eq] by simp
qed

lemma release_idle:
  assumes "conv_at s c st sn" "cv_active_response_id c \<noteq> Some rid"
  shows "release_active (cv_tenant_id c) (cv_id c) rid status now s = (Inr 0, s)"
  using conv_atD[OF assms(1)] assms(2) by (simp add: release_active_def)

lemma stale_at:
  assumes at: "conv_at s c st sn" and held: "cv_active_response_id c = Some rid"
  obtains s' where "release_stale_active (cv_tenant_id c) (cv_id c) rid s = (Inr True, s')"
    "conv_at s' (c\<lparr>cv_active_response_id := None\<rparr>) st sn" "conv_rest {cv_id c} s s'"
    "length (st_conversations s') = length (st_conversations s)"
    "dom (map_of (st_conversations s')) = dom (map_of (st_conversations s))"
proof -
  note D = conv_atD[OF at]
  let ?s = "insert_conversation (c\<lparr>cv_active_response_id := None\<rparr>) s"
  have eq: "release_stale_active (cv_tenant_id c) (cv_id c) rid s = (Inr True, ?s)"
    using D held by (simp add: release_stale_active_def)
  have wf: "conv_wf ?s"
    using release_stale_active_wf[of s "cv_tenant_id c" "cv_id c" rid] D(1) eq by (simp add: conv_open_def)
  show thesis by (rule that[OF eq insert_at[OF at _ wf]]) simp_all
qed

lemma event_at:
  assumes at: "conv_at s c st sn" and k: "\<And>r. kind \<noteq> TurnStarted r" "\<And>r x. kind \<noteq> TurnCompleted r x"
    and room: "cs_next_seq st < st_max_events_per_conversation s"
  obtains s' where "conv_append_event (cv_tenant_id c) (cv_id c) kind now s = (Inr (cs_next_seq st), s')"
    "conv_at s' c (stream_push (cv_id c) kind now st) sn" "conv_rest {cv_id c} s s'"
    "length (st_conversations s') = length (st_conversations s)"
    "dom (map_of (st_conversations s')) = dom (map_of (st_conversations s))"
proof -
  note D = conv_atD[OF at]
  let ?s = "put_stream (cv_id c) (stream_push (cv_id c) kind now st) s"
  have eq: "conv_append_event (cv_tenant_id c) (cv_id c) kind now s = (Inr (cs_next_seq st), ?s)"
    using D room capacity_at[OF at] by (simp add: conv_append_event_def push_conversation_event_eq)
  have "conv_wf ?s"
    using conv_append_event_wf[of s kind "cv_tenant_id c" "cv_id c" now] D(1) k eq by (simp add: conv_open_def)
  then have "conv_at ?s c (stream_push (cv_id c) kind now st) sn \<and> conv_rest {cv_id c} s ?s \<and>
    length (st_conversations ?s) = length (st_conversations s) \<and>
    dom (map_of (st_conversations ?s)) = dom (map_of (st_conversations s))"
    using D by (intro conv_atI[OF at]) (auto simp: put_stream_views map_upd_triv)
  then show thesis using that[OF eq] by blast
qed

lemma event_capped:
  assumes "conv_at s c st sn" "st_max_events_per_conversation s \<le> cs_next_seq st"
  shows "conv_append_event (cv_tenant_id c) (cv_id c) kind now s = (Inl CCapacityExceeded, s)"
  using conv_atD[OF assms(1)] capacity_at[OF assms(1)] assms(2) by (simp add: conv_append_event_def)

lemma conv_get_at: "conv_at s c st sn \<Longrightarrow> conv_get tenant (cv_id c) s = Inr (if cv_tenant_id c = tenant then Some c else None)"
  by (auto simp: conv_get_def conv_atD)

lemma conv_get_absent: "conv_open s \<Longrightarrow> map_of (st_conversations s) cid = None \<Longrightarrow> conv_get tenant cid s = Inr None"
  by (simp add: conv_get_def absent_owned)

lemma conv_read_at:
  assumes at: "conv_at s c st sn"
  shows "conv_read_waiting (cv_tenant_id c) (cv_id c) after limit [s] = Inr (stream_read st after limit)"
proof -
  note D = conv_atD[OF at]
  have "(case map_of (st_conversation_events s) (cv_id c) of None \<Rightarrow> [] | Some t \<Rightarrow> stream_read t after limit) =
      stream_read st after limit"
    using D(3) by (auto simp: stream_of_def Stream_default_def stream_read_def split: option.splits)
  then show ?thesis using D by (simp add: conv_read_waiting_def Let_def)
qed

section \<open>Deleting conversations\<close>

lemma remove_conversation_views:
  "map_of (st_conversations (snd (remove_conversation cid s))) = (map_of (st_conversations s))(cid := None)"
  "map_of (st_conversations s) cid \<noteq> None \<Longrightarrow> fst (remove_conversation cid s) \<noteq> None"
  "k \<noteq> cid \<Longrightarrow> stream_of (snd (remove_conversation cid s)) k = stream_of s k"
  "k \<noteq> cid \<Longrightarrow> snapshot_of (snd (remove_conversation cid s)) k = snapshot_of s k"
  "length (st_conversations (snd (remove_conversation cid s))) \<le> length (st_conversations s)"
  "st_max_conversations (snd (remove_conversation cid s)) = st_max_conversations s"
  by (auto simp: remove_conversation_def stream_of_def snapshot_of_def length_delete_le split: option.split)

lemma remove_conversations_views:
  "map_of (st_conversations (snd (remove_conversations ids s))) =
    (\<lambda>k. if k \<in> set ids then None else map_of (st_conversations s) k) \<and>
   (\<forall>k. k \<notin> set ids \<longrightarrow> stream_of (snd (remove_conversations ids s)) k = stream_of s k \<and>
     snapshot_of (snd (remove_conversations ids s)) k = snapshot_of s k) \<and>
   length (st_conversations (snd (remove_conversations ids s))) \<le> length (st_conversations s) \<and>
   st_max_conversations (snd (remove_conversations ids s)) = st_max_conversations s"
proof (induction ids arbitrary: s)
  case (Cons cid ids)
  show ?case
    using Cons.IH[of "snd (remove_conversation cid s)"] remove_conversation_views[where cid = cid and s = s]
    by (auto simp: case_prod_unfold fun_eq_iff intro: order_trans)
qed auto

lemma remove_conversations_count:
  assumes "distinct ids" "\<forall>k \<in> set ids. map_of (st_conversations s) k \<noteq> None"
  shows "fst (remove_conversations ids s) = length ids"
  using assms
proof (induction ids arbitrary: s)
  case (Cons cid ids)
  then have "\<forall>k \<in> set ids. map_of (st_conversations (snd (remove_conversation cid s))) k \<noteq> None"
    by (auto simp: remove_conversation_views)
  then show ?case
    using Cons.IH[of "snd (remove_conversation cid s)"] Cons.prems remove_conversation_views(2)[of s cid]
    by (simp add: case_prod_unfold)
qed simp

lemma tenant_conversations:
  assumes "conv_wf s"
  shows "cid \<in> set (index_get (st_conversations_by_tenant s) t) \<longleftrightarrow>
      (\<exists>c. map_of (st_conversations s) cid = Some c \<and> cv_tenant_id c = t)"
    "distinct (index_get (st_conversations_by_tenant s) t)"
  using conv_wfD(1)[OF assms] index_wf_get[of "st_conversations_by_tenant s" t]
  by (auto simp: conversations_wf_def agrees_def)

lemma conv_delete_at:
  assumes at: "conv_at s c st sn"
  obtains s' where "conv_delete (cv_tenant_id c) (cv_id c) s = (Inr True, s')" "conv_open s'" "conv_rest {cv_id c} s s'"
    "map_of (st_conversations s') (cv_id c) = None" "length (st_conversations s') \<le> length (st_conversations s)"
    "dom (map_of (st_conversations s')) \<subseteq> dom (map_of (st_conversations s))"
proof -
  note D = conv_atD[OF at]
  define s' where "s' = snd (remove_conversation (cv_id c) s)"
  have eq: "conv_delete (cv_tenant_id c) (cv_id c) s = (Inr True, s')"
    using D remove_conversation_views(2)[of s "cv_id c"] by (simp add: conv_delete_def case_prod_unfold s'_def)
  have "conv_open s'"
    by (rule conv_open_ledger_part[OF _ _ D(1)])
      (use remove_conversation_wf[of s "cv_id c"] D(1) in \<open>simp_all add: s'_def conv_open_def\<close>)
  then show thesis
    by (rule that[OF eq]) (auto simp: s'_def conv_rest_def remove_conversation_views split: if_splits)
qed

lemma conv_delete_absent: "conv_open s \<Longrightarrow> owned s tenant cid = None \<Longrightarrow> conv_delete tenant cid s = (Inr False, s)"
  by (simp add: conv_delete_def)

lemma conv_purge:
  assumes op: "conv_open s"
  obtains n s' where "conv_delete_by_tenant tenant s = (Inr n, s')" "conv_open s'"
    "n = card {k. \<exists>c. map_of (st_conversations s) k = Some c \<and> cv_tenant_id c = tenant}"
    "conv_rest {k. \<exists>c. map_of (st_conversations s) k = Some c \<and> cv_tenant_id c = tenant} s s'"
    "\<forall>k c. map_of (st_conversations s) k = Some c \<longrightarrow> cv_tenant_id c = tenant \<longrightarrow> map_of (st_conversations s') k = None"
    "length (st_conversations s') \<le> length (st_conversations s)"
    "dom (map_of (st_conversations s')) \<subseteq> dom (map_of (st_conversations s))"
proof -
  let ?ids = "index_get (st_conversations_by_tenant s) tenant"
  have wf: "conv_wf s" using op by (simp add: conv_open_def)
  define s' where "s' = snd (remove_conversations ?ids s)"
  have ids: "set ?ids = {k. \<exists>c. map_of (st_conversations s) k = Some c \<and> cv_tenant_id c = tenant}"
    using tenant_conversations(1)[OF wf] by auto
  have "fst (remove_conversations ?ids s) = length ?ids"
    by (rule remove_conversations_count) (use tenant_conversations[OF wf] ids in auto)
  then have n: "fst (remove_conversations ?ids s) = card {k. \<exists>c. map_of (st_conversations s) k = Some c \<and> cv_tenant_id c = tenant}"
    using distinct_card[OF tenant_conversations(2)[OF wf, of tenant]] ids by simp
  have eq: "conv_delete_by_tenant tenant s = (Inr (fst (remove_conversations ?ids s)), s')"
    using op by (simp add: conv_delete_by_tenant_def case_prod_unfold s'_def)
  have "conv_open s'"
    by (rule conv_open_ledger_part[OF _ _ op]) (use remove_conversations_wf[OF wf] in \<open>simp_all add: s'_def\<close>)
  then show thesis
    using remove_conversations_views[of ?ids s]
    by (intro that[OF eq]) (auto simp: s'_def conv_rest_def ids n split: if_splits)
qed

section \<open>Listing\<close>

lemma conv_list_at:
  assumes op: "conv_open s"
  obtains cs where "conv_list tenant s = Inr cs" "sorted (map (\<lambda>c. - int (cv_created_at_ms c)) cs)"
    "set cs = {c. \<exists>k. map_of (st_conversations s) k = Some c \<and> cv_tenant_id c = tenant}"
proof -
  let ?cs = "List.map_filter (\<lambda>cid. map_of (st_conversations s) cid) (index_get (st_conversations_by_tenant s) tenant)"
  have wf: "conv_wf s" using op by (simp add: conv_open_def)
  have "set ?cs = {c. \<exists>k. map_of (st_conversations s) k = Some c \<and> cv_tenant_id c = tenant}"
    using tenant_conversations(1)[OF wf] by (force simp: List.map_filter_def image_iff)
  then show thesis
    using op by (intro that[of "sort_key (\<lambda>c. - int (cv_created_at_ms c)) ?cs"]) (simp_all add: conv_list_def)
qed

end
