(* ===== verification/Contract.thy ===== *)
theory Contract
  imports Conformance Port_Laws
begin

text \<open>
  The in-memory back end meets the port contract: every case of \<open>Conformance\<close> passes on it, whatever the
  uuids drawn, in every order in which the scheduler may run the racing calls, and from every world that
  is \<open>ready\<close> -- well formed, writable and with room left.  So the whole suite passes.
\<close>

section \<open>What the other crates are documented to do\<close>

text \<open>Printable ASCII that JSON does not escape.\<close>

definition plain :: "char \<Rightarrow> bool" where
  "plain c \<longleftrightarrow> byte_in 0x20 0x7e c \<and> c \<noteq> CHR 0x22 \<and> c \<noteq> CHR 0x5C"

text \<open>
  The uuid crate prints 36 visible ASCII characters, differently for different uuids; serde_json
  prints plain text between quotes; Unicode composition leaves plain text alone and identifies
  \<open>e\<close> with a combining acute accent and its precomposed form.
\<close>

definition codec_documented :: "codec \<Rightarrow> bool" where
  "codec_documented cx \<longleftrightarrow>
    inj (cx_uuid_fmt cx) \<and>
    (\<forall>u. length (cx_uuid_fmt cx u) = 36 \<and> list_all (\<lambda>c. byte_in 0x21 0x7e c \<and> plain c) (cx_uuid_fmt cx u)) \<and>
    (\<forall>s. list_all plain s \<longrightarrow> cx_nfc cx s = s \<and> cx_esc cx s = CHR 0x22 # s @ [CHR 0x22]) \<and>
    cx_nfc cx (''caf'' @ [CHR 0xC3, CHR 0xA9]) = cx_nfc cx (''cafe'' @ [CHR 0xCC, CHR 0x81])"

text \<open>
  What a case draws: of the at most 24 uuids for one purpose no two are equal; the form without hyphens is 32 letters and digits; the
  JSON number 0.5 is one half; the two URLs parse as the URL standard says.
\<close>

definition draw_bound :: nat where
  "draw_bound = 24"

definition draws_ok :: "codec \<Rightarrow> draws \<Rightarrow> bool" where
  "draws_ok cx d \<longleftrightarrow> dr_codec d = cx \<and> inj_on (dr_response d) {..<draw_bound} \<and>
    inj_on (dr_conversation d) {..<draw_bound} \<and> inj_on (dr_key d) {..<draw_bound} \<and>
    (\<forall>u. length (dr_simple d u) = 32 \<and> list_all is_ascii_alphanumeric (dr_simple d u)) \<and>
    dr_to_f64 d half = Fin (1 / 2) \<and>
    (\<exists>u. dr_url_parse d ''data:image/png;base64,AAAA'' = Some u \<and> url_scheme u = ''data'') \<and>
    (\<exists>u. dr_url_parse d ''https://169.254.169.254/x'' = Some u \<and> url_scheme u = ''https'' \<and>
      url_username u = [] \<and> url_password u = None \<and> url_host u = Some (HostIpv4 (Ipv4Addr 169 254 169 254)))"

text \<open>The scheduler runs every spawned task once, in some order.\<close>

definition schedule :: "nat \<Rightarrow> nat list \<Rightarrow> bool" where
  "schedule n order \<longleftrightarrow> distinct order \<and> set order = {..<n}"

section \<open>Worlds with room\<close>

definition ready :: "nat \<Rightarrow> response_id list \<Rightarrow> nat \<Rightarrow> world \<Rightarrow> bool" where
  "ready n q p w \<longleftrightarrow> ledger_at q p (w_store w) \<and> length q + p + n \<le> st_pending_limit (w_store w) \<and>
    length (st_records (w_store w)) + n \<le> st_max_records (w_store w) \<and> conv_open (w_store w) \<and>
    length (st_conversations (w_store w)) + n \<le> st_max_conversations (w_store w) \<and>
    8 \<le> st_max_events_per_conversation (w_store w) \<and> event_log_wf (w_log w) \<and>
    length (el_logs (w_log w)) + n \<le> el_max_logs (w_log w) \<and> 12 \<le> el_capacity_per_response (w_log w)"

lemma readyD:
  assumes "ready n q p w"
  shows "ledger_at q p (w_store w)" "length q + p + n \<le> st_pending_limit (w_store w)"
    "length (st_records (w_store w)) + n \<le> st_max_records (w_store w)" "conv_open (w_store w)"
    "length (st_conversations (w_store w)) + n \<le> st_max_conversations (w_store w)"
    "8 \<le> st_max_events_per_conversation (w_store w)" "event_log_wf (w_log w)"
    "length (el_logs (w_log w)) + n \<le> el_max_logs (w_log w)" "12 \<le> el_capacity_per_response (w_log w)"
    "\<not> st_read_only (w_store w)"
  using assms ledger_atD(2) by (auto simp: ready_def)

lemma conv_part_limits:
  assumes "conv_part s' = conv_part s"
  shows "st_pending_limit s' = st_pending_limit s" "st_max_records s' = st_max_records s"
    "st_max_conversations s' = st_max_conversations s"
proof -
  have c: "st_pending_limit (conv_part x) = st_pending_limit x" "st_max_records (conv_part x) = st_max_records x"
    "st_max_conversations (conv_part x) = st_max_conversations x" for x
    by (simp_all add: conv_part_def)
  show "st_pending_limit s' = st_pending_limit s" "st_max_records s' = st_max_records s"
    "st_max_conversations s' = st_max_conversations s"
    using assms c by metis+
qed

lemma conv_open_conv_part: "conv_part s' = conv_part s \<Longrightarrow> conv_open s' = conv_open s"
  using conv_part_D[of s' s] by (simp add: conv_open_def)

lemma conv_at_conv_part: "conv_part s' = conv_part s \<Longrightarrow> conv_at s' = conv_at s"
  using conv_part_D[of s' s] conv_part_views[of s' s] conv_open_conv_part[of s' s]
  by (simp add: conv_at_def fun_eq_iff)

lemma ready_ledger:
  assumes r: "ready m q p w" and at: "ledger_at q' p' s'" and part: "conv_part s' = conv_part (w_store w)"
    and n: "length q' + p' + n \<le> length q + p + m" "length (st_records s') + n \<le> length (st_records (w_store w)) + m" "n \<le> m"
  shows "ready n q' p' (w\<lparr>w_store := s'\<rparr>)"
  using readyD[OF r] at n conv_part_limits[OF part] conv_part_D[OF part] conv_open_conv_part[OF part]
  by (simp add: ready_def)

lemma ready_conv:
  assumes r: "ready m q p w" and op: "conv_open s'" and part: "ledger_part s' = ledger_part (w_store w)"
    and max: "st_max_conversations s' = st_max_conversations (w_store w)"
    and n: "length (st_conversations s') + n \<le> length (st_conversations (w_store w)) + m" "n \<le> m"
  shows "ready n q p (w\<lparr>w_store := s'\<rparr>)"
  using readyD[OF r] op n max ledger_part_D[OF part] ledger_at_conv[OF part]
  by (simp add: ready_def)

lemma ready_log:
  assumes r: "ready m q p w" and wf: "event_log_wf g" "el_max_logs g = el_max_logs (w_log w)"
      "el_capacity_per_response g = el_capacity_per_response (w_log w)"
    and n: "length (el_logs g) + n \<le> length (el_logs (w_log w)) + m" "n \<le> m"
  shows "ready n q p (w\<lparr>w_log := g\<rparr>)"
  using readyD[OF r] wf n by (simp add: ready_def)

section \<open>Names in use\<close>

definition used_ids :: "world \<Rightarrow> uuid set" where
  "used_ids w = rid_uuid ` (dom (map_of (st_records (w_store w))) \<union> set (st_queued (w_store w)) \<union>
    dom (map_of (el_logs (w_log w))))"

definition used_keys :: "world \<Rightarrow> idempotency_key set" where
  "used_keys w = dom (map_of (st_idem (w_store w)))"

definition used_conversations :: "world \<Rightarrow> uuid set" where
  "used_conversations w = cid_uuid ` dom (map_of (st_conversations (w_store w)))"

definition key_of :: "draws \<Rightarrow> nat \<Rightarrow> idempotency_key" where
  "key_of d i = IdempotencyKey (cx_uuid_fmt (dr_codec d) (dr_key d i))"

definition drawn_responses :: "draws \<Rightarrow> uuid set" where
  "drawn_responses d = dr_response d ` {..<draw_bound}"

definition drawn_keys :: "draws \<Rightarrow> idempotency_key set" where
  "drawn_keys d = key_of d ` {..<draw_bound}"

definition drawn_conversations :: "draws \<Rightarrow> uuid set" where
  "drawn_conversations d = dr_conversation d ` {..<draw_bound}"

lemma drawn_in:
  "i < 24 \<Longrightarrow> dr_response d i \<in> drawn_responses d" "i < 24 \<Longrightarrow> key_of d i \<in> drawn_keys d"
  "i < 24 \<Longrightarrow> dr_conversation d i \<in> drawn_conversations d"
  by (auto simp: drawn_responses_def drawn_keys_def drawn_conversations_def draw_bound_def)

definition unused :: "draws \<Rightarrow> world \<Rightarrow> bool" where
  "unused d w \<longleftrightarrow> drawn_responses d \<inter> used_ids w = {} \<and> drawn_keys d \<inter> used_keys w = {} \<and>
    drawn_conversations d \<inter> used_conversations w = {}"

text \<open>A case uses up no names but its own.\<close>

definition grows :: "draws \<Rightarrow> world \<Rightarrow> world \<Rightarrow> bool" where
  "grows d w w' \<longleftrightarrow> used_ids w' \<subseteq> used_ids w \<union> drawn_responses d \<and>
    used_keys w' \<subseteq> used_keys w \<union> drawn_keys d \<and>
    used_conversations w' \<subseteq> used_conversations w \<union> drawn_conversations d"

lemma unusedD:
  assumes "unused d w" "i < 24"
  shows "map_of (st_records (w_store w)) (ResponseId tag (dr_response d i)) = None"
    "ResponseId tag (dr_response d i) \<notin> set (st_queued (w_store w))"
    "map_of (el_logs (w_log w)) (ResponseId tag (dr_response d i)) = None"
    "map_of (st_idem (w_store w)) (key_of d i) = None"
    "map_of (st_conversations (w_store w)) (ConversationId (dr_conversation d i)) = None"
proof -
  have i: "rid_uuid k \<noteq> dr_response d i"
    if "k \<in> dom (map_of (st_records (w_store w))) \<union> set (st_queued (w_store w)) \<union> dom (map_of (el_logs (w_log w)))" for k
  proof
    assume k: "rid_uuid k = dr_response d i"
    have "dr_response d i \<in> used_ids w" unfolding used_ids_def by (rule imageI[OF that, of rid_uuid, unfolded k])
    then show False using assms(1) drawn_in(1)[OF assms(2), of d] unfolding unused_def by blast
  qed
  show "map_of (st_records (w_store w)) (ResponseId tag (dr_response d i)) = None"
    "ResponseId tag (dr_response d i) \<notin> set (st_queued (w_store w))"
    "map_of (el_logs (w_log w)) (ResponseId tag (dr_response d i)) = None"
    using i[of "ResponseId tag (dr_response d i)"] by auto
  show "map_of (st_idem (w_store w)) (key_of d i) = None"
    using assms(1) drawn_in(2)[OF assms(2), of d] by (auto simp: unused_def used_keys_def)
  have "cid_uuid k \<noteq> dr_conversation d i" if "k \<in> dom (map_of (st_conversations (w_store w)))" for k
  proof
    assume k: "cid_uuid k = dr_conversation d i"
    have "dr_conversation d i \<in> used_conversations w"
      unfolding used_conversations_def by (rule imageI[OF that, of cid_uuid, unfolded k])
    then show False using assms(1) drawn_in(3)[OF assms(2), of d] unfolding unused_def by blast
  qed
  from this[of "ConversationId (dr_conversation d i)"]
  show "map_of (st_conversations (w_store w)) (ConversationId (dr_conversation d i)) = None" by auto
qed

text \<open>Growth from what the three tables gained.\<close>

lemma image_gain: "A \<subseteq> B \<union> C \<Longrightarrow> f ` C \<subseteq> D \<Longrightarrow> f ` A \<subseteq> f ` B \<union> D"
  by auto

lemma growsI:
  assumes ids: "dom (map_of (st_records (w_store w'))) \<union> set (st_queued (w_store w')) \<union> dom (map_of (el_logs (w_log w'))) \<subseteq>
      dom (map_of (st_records (w_store w))) \<union> set (st_queued (w_store w)) \<union> dom (map_of (el_logs (w_log w))) \<union> ids"
      "rid_uuid ` ids \<subseteq> drawn_responses d"
    and keys: "dom (map_of (st_idem (w_store w'))) \<subseteq> dom (map_of (st_idem (w_store w))) \<union> drawn_keys d"
    and cids: "dom (map_of (st_conversations (w_store w'))) \<subseteq> dom (map_of (st_conversations (w_store w))) \<union> cids"
      "cid_uuid ` cids \<subseteq> drawn_conversations d"
  shows "grows d w w'"
  using image_gain[OF ids] keys image_gain[OF cids]
  unfolding grows_def used_ids_def used_keys_def used_conversations_def by (intro conjI) assumption+

lemma grows_trans: "grows d w w1 \<Longrightarrow> grows d w1 w2 \<Longrightarrow> grows d w w2"
  unfolding grows_def by blast

section \<open>Drawn names\<close>

lemma codecD:
  assumes "codec_documented cx"
  shows "inj (cx_uuid_fmt cx)" "length (cx_uuid_fmt cx u) = 36" "list_all (byte_in 0x21 0x7e) (cx_uuid_fmt cx u)"
    "list_all plain (cx_uuid_fmt cx u)" "list_all plain s \<Longrightarrow> cx_nfc cx s = s"
    "list_all plain s \<Longrightarrow> cx_esc cx s = CHR 0x22 # s @ [CHR 0x22]"
  using assms by (auto simp: codec_documented_def list_all_iff)

lemma fresh_key_eq:
  assumes "codec_documented cx" "draws_ok cx d"
  shows "fresh_key d i = Some (key_of d i)"
  using codecD(2,3)[OF assms(1), of "dr_key d i"] assms(2)
  by (auto simp: fresh_key_def IdempotencyKey_parse_def key_of_def the_ok_def draws_ok_def IdempotencyKey_MAX_LEN_def
      simp flip: length_0_conv)

lemma key_of_inj:
  assumes "codec_documented cx" "draws_ok cx d" "i < 24" "j < 24"
  shows "key_of d i = key_of d j \<longleftrightarrow> i = j"
  using assms codecD(1)[OF assms(1)] by (auto simp: key_of_def draws_ok_def draw_bound_def inj_def inj_on_def)

definition tenant_of :: "draws \<Rightarrow> nat \<Rightarrow> string \<Rightarrow> tenant_id" where
  "tenant_of d i label = TenantId (label @ ''-'' @ take 12 (dr_simple d (dr_tenant d i)))"

definition label_ok :: "string \<Rightarrow> bool" where
  "label_ok label \<longleftrightarrow> length label \<le> 40 \<and>
    list_all (\<lambda>b. is_ascii_alphanumeric b \<or> b \<in> {CHR ''.'', CHR ''_'', CHR ''-''}) label"

lemma fresh_tenant_eq:
  assumes "draws_ok cx d" "label_ok label"
  shows "fresh_tenant d i label = Some (tenant_of d i label)"
proof -
  have "length (dr_simple d u) = 32" "list_all is_ascii_alphanumeric (dr_simple d u)" for u
    using assms(1) by (auto simp: draws_ok_def)
  then have "list_all is_ascii_alphanumeric (take 12 (dr_simple d u))" "length (take 12 (dr_simple d u)) = 12" for u
    by (auto simp: list_all_iff dest: in_set_takeD)
  then show ?thesis
    using assms(2) by (auto simp: fresh_tenant_def TenantId_parse_def tenant_of_def the_ok_def label_ok_def
        TenantId_MAX_LEN_def list_all_iff)
qed

text \<open>Labels of which neither continues the other with a hyphen give different tenants.\<close>

lemma tenant_of_neq:
  assumes "draws_ok cx d" "length l \<noteq> length l' \<or> l \<noteq> l'"
  shows "tenant_of d i l \<noteq> tenant_of d j l'"
proof -
  have "length (take 12 (dr_simple d u)) = 12" for u using assms(1) by (simp add: draws_ok_def)
  then show ?thesis using assms(2) by (auto simp: tenant_of_def append_eq_append_conv)
qed

section \<open>Canonical text\<close>

lemma contains_trans: "contains b t \<Longrightarrow> contains (a @ b @ c) t"
  unfolding contains_def sublist_def by (metis append_assoc)

lemma contains_join: "x \<in> set xs \<Longrightarrow> contains x t \<Longrightarrow> contains (join_commas xs) t"
proof (induction xs rule: join_commas.induct)
  case (3 x' y ys)
  then show ?case
    using contains_trans[of x' t "[]" "'','' @ join_commas (y # ys)"]
      contains_trans[of "join_commas (y # ys)" t "x' @ '',''" "[]"] by auto
qed auto

lemma contains_arr:
  "v \<in> set vs \<Longrightarrow> contains (canonical_json n e f v) t \<Longrightarrow> contains (canonical_json n e f (JArr vs)) t"
  using contains_trans[of "join_commas (map (canonical_json n e f) vs)" t "''[''" "'']''"]
    contains_join[of "canonical_json n e f v" "map (canonical_json n e f) vs" t]
  by simp

lemma contains_obj:
  assumes "(k, v) \<in> set m" "contains (canonical_json n e f v) t"
  shows "contains (canonical_json n e f (JObj m)) t"
proof -
  let ?g = "\<lambda>p. e (n (fst p)) @ '':'' @ canonical_json n e f (snd p)"
  have "contains (?g (k, v)) t"
    using contains_trans[OF assms(2), of "e (n k) @ '':''" "[]"] by simp
  then have "contains (join_commas (map ?g (sorted_entries m))) t"
    using assms(1) by (intro contains_join[of "?g (k, v)"]) (force simp: image_iff)+
  from contains_trans[OF this, of "''{''" "''}''"] show ?thesis by simp
qed

text \<open>The text of a message shows in the canonical encoding.\<close>

lemma canonical_shows:
  assumes "codec_documented cx" "list_all plain t" "Message r ps i st \<in> set items" "InputText t \<in> set ps \<or> OutputText t \<in> set ps"
  shows "contains (canonical_items cx items) t"
proof -
  let ?c = "canonical_json (cx_nfc cx) (cx_esc cx) (cx_num_fmt cx)"
  have q: "contains (?c (JStr t)) t"
    using codecD(5,6)[OF assms(1,2)] contains_trans[of t t "[CHR 0x22]" "[CHR 0x22]"] by (simp add: contains_def)
  have "contains (?c (part_to_json (InputText t))) t" "contains (?c (part_to_json (OutputText t))) t"
    unfolding part_to_json.simps by (rule contains_obj[OF _ q, of "''text''"]; simp)+
  then obtain p where p: "p \<in> set ps" "contains (?c (part_to_json p)) t" using assms(4) by blast
  have "contains (?c (JArr (map part_to_json ps))) t" by (rule contains_arr[OF _ p(2)]) (use p in simp)
  then have "contains (?c (item_to_json (Message r ps i st))) t"
    unfolding item_to_json.simps by (rule contains_obj[rotated, where k = "''content''"]) simp
  then show ?thesis unfolding canonical_items_def by (rule contains_arr[rotated]) (use assms(3) in force)
qed

text \<open>A character that no string of a document has is not in its encoding either.\<close>

fun lacks :: "char \<Rightarrow> json \<Rightarrow> bool" where
  "lacks c (JArr vs) \<longleftrightarrow> list_all (lacks c) vs"
| "lacks c (JObj m) \<longleftrightarrow> list_all (\<lambda>(k, v). list_all plain k \<and> c \<notin> set k \<and> lacks c v) m"
| "lacks c (JStr s) \<longleftrightarrow> list_all plain s \<and> c \<notin> set s"
| "lacks c _ \<longleftrightarrow> False"

lemma join_commas_lacks: "c \<noteq> CHR '','' \<Longrightarrow> \<forall>x \<in> set xs. c \<notin> set x \<Longrightarrow> c \<notin> set (join_commas xs)"
  by (induction xs rule: join_commas.induct) auto

lemma canonical_lacks:
  assumes doc: "codec_documented cx" and c: "c \<notin> set '',[]{}:'' \<union> {CHR 0x22}" and v: "lacks c v"
  shows "c \<notin> set (canonical_json (cx_nfc cx) (cx_esc cx) (cx_num_fmt cx) v)"
  using v c
proof (induction c v rule: lacks.induct)
  case (1 c vs)
  have "c \<notin> set (join_commas (map (canonical_json (cx_nfc cx) (cx_esc cx) (cx_num_fmt cx)) vs))"
    by (rule join_commas_lacks) (use 1 in \<open>auto simp: list_all_iff\<close>)
  then show ?case using 1 by simp
next
  case (2 c m)
  let ?g = "\<lambda>p. cx_esc cx (cx_nfc cx (fst p)) @ '':'' @ canonical_json (cx_nfc cx) (cx_esc cx) (cx_num_fmt cx) (snd p)"
  have "c \<notin> set (?g p)" if "p \<in> set m" for p
    using 2 that codecD(5,6)[OF doc, of "fst p"] by (cases p) (force simp: list_all_iff)
  then have "c \<notin> set (join_commas (map ?g (sorted_entries m)))"
    by (intro join_commas_lacks) (use 2 in auto)
  then show ?case using 2 by simp
qed (use codecD(5,6)[OF doc] in auto)

lemma canonical_omits:
  assumes "codec_documented cx" "list_all (\<lambda>it. lacks (CHR ''I'') (item_to_json it)) items"
  shows "\<not> contains (canonical_items cx items) (CHR ''I'' # t)"
proof -
  have "CHR ''I'' \<notin> set (canonical_items cx items)"
    unfolding canonical_items_def
    by (rule canonical_lacks[OF assms(1)]) (use assms(2) in \<open>simp_all add: list_all_iff\<close>)
  then show ?thesis unfolding contains_def sublist_def by auto
qed

section \<open>Ports and worlds\<close>

lemma mem_ports_fields [simp]:
  "ps_ledger (mem_ports cx hmac) = mem_ledger cx (mem_integrity hmac)"
  "ps_event_log (mem_ports cx hmac) = mem_event_log" "ps_conversation (mem_ports cx hmac) = mem_conversation"
  "ps_integrity (mem_ports cx hmac) = mem_integrity hmac"
  by (simp_all add: mem_ports_def)

lemma mem_ledger_ops:
  "ac_pending_limit (mem_ledger cx ig) w = st_pending_limit (w_store w)"
  "ac_set_pending_limit (mem_ledger cx ig) n w = w\<lparr>w_store := set_pending_limit n (w_store w)\<rparr>"
  "lg_create (mem_ledger cx ig) r key t w = on_store (ledger_create cx ig r key) w"
  "lg_claim (mem_ledger cx ig) a t ttl w = on_store (ledger_claim a t ttl) w"
  "lg_complete (mem_ledger cx ig) rid att st u t w = on_store (ledger_complete rid att st u t) w"
  "lg_cancel (mem_ledger cx ig) tenant rid t w = on_store (ledger_cancel tenant rid t) w"
  "lg_record_partial_usage (mem_ledger cx ig) rid att u w = on_store (ledger_record_partial_usage rid att u) w"
  "lg_get (mem_ledger cx ig) rid w = (ledger_get rid (w_store w), w)"
  "lg_delete (mem_ledger cx ig) rid w = on_store (ledger_delete rid) w"
  "lg_check_attempt (mem_ledger cx ig) rid att w = (check_attempt rid att (w_store w), w)"
  by (simp_all add: mem_ledger_def reads_def)

lemma mem_event_log_ops:
  "lo_append mem_event_log e w = on_log (event_append e (w_store w)) w"
  "lo_read_after mem_event_log rid after limit wait w = (event_read_waiting rid after limit [w_log w], w)"
  "lo_close mem_event_log rid t retain w = on_log (event_close rid t retain) w"
  "lo_sweep_expired mem_event_log t w = on_log (event_sweep_expired t) w"
  by (simp_all add: mem_event_log_def reads_def log_append_def del: event_read_waiting.simps)

lemma mem_conversation_ops:
  "cr_create (cst_repo mem_conversation) c w = on_store (conv_create c) w"
  "cr_get (cst_repo mem_conversation) tenant cid w = (conv_get tenant cid (w_store w), w)"
  "cr_update_metadata (cst_repo mem_conversation) tenant cid m w = on_store (conv_update_metadata tenant cid m) w"
  "cr_delete (cst_repo mem_conversation) tenant cid w = on_store (conv_delete tenant cid) w"
  "cr_delete_by_tenant (cst_repo mem_conversation) tenant w = on_store (conv_delete_by_tenant tenant) w"
  "cr_list (cst_repo mem_conversation) tenant w = (conv_list tenant (w_store w), w)"
  "cr_health (cst_repo mem_conversation) w = (conv_health (w_store w), w)"
  "cn_read_snapshot (cst_snapshots mem_conversation) tenant cid w = (read_snapshot tenant cid (w_store w), w)"
  "cn_append_turn (cst_snapshots mem_conversation) tenant cid rid tc t w = on_store (append_turn tenant cid rid tc) w"
  "cn_advance (cst_snapshots mem_conversation) tenant cid rid w = on_store (conv_advance tenant cid rid) w"
  "tl_acquire_active (cst_lock mem_conversation) tenant cid rid t w = on_store (acquire_active tenant cid rid t) w"
  "tl_release_active (cst_lock mem_conversation) tenant cid rid st t w = on_store (release_active tenant cid rid st t) w"
  "tl_release_stale_active (cst_lock mem_conversation) tenant cid rid w = on_store (release_stale_active tenant cid rid) w"
  "ce_append_event (cst_events mem_conversation) tenant cid kind t w = on_store (conv_append_event tenant cid kind t) w"
  "ce_read_after (cst_events mem_conversation) tenant cid after limit wait w =
    (conv_read_waiting tenant cid after limit [w_store w], w)"
  "ce_set_max_events (cst_events mem_conversation) n w = w\<lparr>w_store := set_max_events_per_conversation n (w_store w)\<rparr>"
  by (simp_all add: mem_conversation_def reads_def)

lemmas mem_port_simps = mem_ledger_ops mem_event_log_ops mem_conversation_ops on_store_eq on_log_eq Let_def

definition signed_row :: "codec \<Rightarrow> (string \<Rightarrow> string \<Rightarrow> string) \<Rightarrow> response_record \<Rightarrow> response_record" where
  "signed_row cx hmac r = r\<lparr>rr_integrity := Some \<lparr>it_alg = ALG,
    it_tag = hmac ''mem-adapter-test-key-0123456789'' (canonical_items cx (ts_input_items (rr_spec r)))\<rparr>\<rparr>"

lemma sign_mem: "sign cx (mem_integrity hmac) r = Inr (signed_row cx hmac r)"
  by (simp add: sign_def mem_integrity_def hmac_from_key_def the_ok_def signed_row_def)

lemma test_record_fields [simp]:
  "rr_response_id (test_record d rid prev t b st) = rid" "rr_tenant_id (test_record d rid prev t b st) = t"
  "rr_status (test_record d rid prev t b st) = st" "record_ok (test_record d rid prev t b Queued)"
  by (simp_all add: test_record_def ResponseRecord_queued_def record_ok_def UNCLAIMED_def)

lemma signed_row_fields [simp]:
  "rr_response_id (signed_row cx hmac r) = rr_response_id r" "rr_tenant_id (signed_row cx hmac r) = rr_tenant_id r"
  "rr_status (signed_row cx hmac r) = rr_status r" "rr_attempt (signed_row cx hmac r) = rr_attempt r"
  "record_ok (signed_row cx hmac r) = record_ok r" "rr_spec (signed_row cx hmac r) = rr_spec r"
  by (simp_all add: signed_row_def record_ok_def cong: response_status.case_cong)

lemma test_event_fields [simp]:
  "ae_response_id (test_event rid k x) = rid" "ae_attempt (test_event rid k x) = None"
  "ae_response_id (fenced_event rid k att x) = rid" "ae_attempt (fenced_event rid k att x) = att"
  by (simp_all add: test_event_def fenced_event_def AppendEvent_from_parts_def)

lemma new_id_mem: "new_id (mem_ports cx hmac) d i = ResponseId (NodeTag ''node-a'') (dr_response d i)"
  by (simp add: new_id_def mem_ports_def)

lemma new_id_uuid [simp]: "rid_uuid (new_id ports d i) = dr_response d i"
  by (simp add: new_id_def)

lemma new_id_eq_iff [simp]:
  "draws_ok cx d \<Longrightarrow> i < 24 \<Longrightarrow> j < 24 \<Longrightarrow> new_id ports d i = new_id ports d j \<longleftrightarrow> i = j"
  "draws_ok cx d \<Longrightarrow> i < 24 \<Longrightarrow> j < 24 \<Longrightarrow> new_conversation_id d i = new_conversation_id d j \<longleftrightarrow> i = j"
  by (auto simp: new_id_def new_conversation_id_def draws_ok_def draw_bound_def inj_on_def)

text \<open>What a case establishes.\<close>

definition case_passes :: "draws \<Rightarrow> nat \<Rightarrow> response_id list \<Rightarrow> nat \<Rightarrow> world \<Rightarrow> world option \<Rightarrow> bool" where
  "case_passes d n q p w r \<longleftrightarrow> (\<exists>w'. r = Some w' \<and> ready n q p w' \<and> grows d w w')"

lemma case_passesI: "r = Some w' \<Longrightarrow> ready n q p w' \<Longrightarrow> grows d w w' \<Longrightarrow> case_passes d n q p w r"
  by (simp add: case_passes_def)

section \<open>The event log\<close>

text \<open>What an append to one log leaves of the others.\<close>

definition log_rest :: "response_id \<Rightarrow> event_log \<Rightarrow> event_log \<Rightarrow> bool" where
  "log_rest rid g g' \<longleftrightarrow> (\<forall>k. k \<noteq> rid \<longrightarrow> map_of (el_logs g') k = map_of (el_logs g) k) \<and>
    map_of (el_logs g') rid \<noteq> None \<and> el_capacity_per_response g' = el_capacity_per_response g \<and>
    el_max_logs g' = el_max_logs g \<and> (event_log_wf g \<longrightarrow> event_log_wf g') \<and>
    length (el_logs g') = length (el_logs g) + (if map_of (el_logs g) rid = None then 1 else 0)"

lemma log_restD:
  assumes "log_rest rid g g'"
  shows "k \<noteq> rid \<Longrightarrow> map_of (el_logs g') k = map_of (el_logs g) k" "map_of (el_logs g') rid \<noteq> None"
    "el_capacity_per_response g' = el_capacity_per_response g" "el_max_logs g' = el_max_logs g"
    "event_log_wf g \<Longrightarrow> event_log_wf g'" "length (el_logs g') \<le> Suc (length (el_logs g))"
    "map_of (el_logs g) rid \<noteq> None \<Longrightarrow> length (el_logs g') = length (el_logs g)"
    "dom (map_of (el_logs g')) = insert rid (dom (map_of (el_logs g)))"
proof -
  show "dom (map_of (el_logs g')) = insert rid (dom (map_of (el_logs g)))"
  proof (rule set_eqI)
    fix k
    show "k \<in> dom (map_of (el_logs g')) \<longleftrightarrow> k \<in> insert rid (dom (map_of (el_logs g)))"
      using assms by (cases "k = rid") (simp_all add: log_rest_def domIff)
  qed
qed (use assms in \<open>simp_all add: log_rest_def\<close>)

lemma log_rest_trans: "log_rest rid g g1 \<Longrightarrow> log_rest rid g1 g2 \<Longrightarrow> log_rest rid g g2"
  by (simp add: log_rest_def)

lemma append_open:
  assumes "log_at g rid h" "length (el_logs g) < el_max_logs g" "append_fence e s = Inr ()" "ae_response_id e = rid"
  obtains g' where "event_append e s g = (Inr (length h), g')" "log_at g' rid (h @ [e])" "log_rest rid g g'"
proof -
  have at: "log_at g (ae_response_id e) h" using assms by simp
  show thesis
    by (rule append_at[OF at assms(2,3)])
      (rule that, use assms(4) event_append_wf[of g e s] in \<open>auto simp: log_rest_def\<close>)
qed

lemma append_each_mem:
  assumes "log_at (w_log w) rid h" "length (el_logs (w_log w)) < el_max_logs (w_log w)" "\<not> st_read_only (w_store w)"
    "map_of (el_logs (w_log w)) rid \<noteq> None"
  obtains g where "append_each mem_event_log rid [length h..<length h + n] w = Some (w\<lparr>w_log := g\<rparr>)"
    "log_at g rid (h @ replicate n (test_event rid EvOutputTextDelta ''x''))" "log_rest rid (w_log w) g"
  using assms
proof (induction n arbitrary: h w thesis)
  case 0
  then show ?case by (intro 0(1)[of "w_log w"]) (simp_all add: log_rest_def)
next
  case (Suc n)
  let ?e = "test_event rid EvOutputTextDelta ''x''"
  obtain g1 where g1: "event_append ?e (w_store w) (w_log w) = (Inr (length h), g1)" "log_at g1 rid (h @ [?e])"
      "log_rest rid (w_log w) g1"
    using append_open[of "w_log w" rid h ?e "w_store w"] Suc.prems by (auto simp: open_fence)
  show ?case
  proof (rule Suc.IH[of "h @ [?e]" "w\<lparr>w_log := g1\<rparr>"])
    fix g
    assume "append_each mem_event_log rid [length (h @ [?e])..<length (h @ [?e]) + n] (w\<lparr>w_log := g1\<rparr>) =
        Some (w\<lparr>w_log := g1, w_log := g\<rparr>)"
      and rest: "log_at g rid ((h @ [?e]) @ replicate n ?e)" "log_rest rid (w_log (w\<lparr>w_log := g1\<rparr>)) g"
    then have "append_each mem_event_log rid [length h..<length h + Suc n] w = Some (w\<lparr>w_log := g\<rparr>)"
      using g1(1) by (simp add: upt_conv_Cons[of "length h"] mem_port_simps del: upt_Suc)
    then show thesis by (rule Suc.prems(1)) (use rest log_rest_trans[OF g1(3)] in simp_all)
  qed (use g1(2) log_restD(2-4,7)[OF g1(3)] Suc.prems in simp_all)
qed

lemmas read_seqs = take_map[symmetric] drop_map[symmetric] numbered_seqs read_target_def

text \<open>A log written by the case, whatever was swept.\<close>

lemma grows_log:
  assumes "dom (map_of (el_logs g)) \<subseteq> insert rid (dom (map_of (el_logs (w_log w))))" "rid_uuid rid \<in> drawn_responses d"
  shows "grows d w (w\<lparr>w_log := g\<rparr>)"
  by (rule growsI[where ids = "{rid}" and cids = "{}"]) (use assms in auto)

lemma event_log_case:
  assumes d: "draws_ok cx d" and r: "ready (n + 60) q p w" and u: "unused d w"
  shows "case_passes d n q p w (assert_event_log_conformance (mem_ports cx hmac) d w)"
proof -
  note R = readyD[OF r]
  let ?rid = "new_id (mem_ports cx hmac) d 0"
  let ?e = "test_event ?rid EvCreated []" and ?x = "test_event ?rid EvOutputTextDelta ''x''"
  have new: "map_of (el_logs (w_log w)) (new_id (mem_ports cx hmac) d i) = None" if "i < 24" for i
    using unusedD(3)[OF u that, of "NodeTag ''node-a''"] by (simp add: new_id_mem)
  obtain g1 where g1: "event_append ?e (w_store w) (w_log w) = (Inr 0, g1)" "log_at g1 ?rid [?e]" "log_rest ?rid (w_log w) g1"
    using append_open[of "w_log w" ?rid "[]" ?e "w_store w"] R new[of 0] by (auto simp: open_fence log_at_def)
  note G1 = log_restD[OF g1(3)]
  obtain g2 where g2: "append_each mem_event_log ?rid [length [?e]..<length [?e] + 4] (w\<lparr>w_log := g1\<rparr>) = Some (w\<lparr>w_log := g1, w_log := g2\<rparr>)"
      "log_at g2 ?rid ([?e] @ replicate 4 ?x)" "log_rest ?rid (w_log (w\<lparr>w_log := g1\<rparr>)) g2"
    by (rule append_each_mem[of "w\<lparr>w_log := g1\<rparr>" ?rid "[?e]" 4]) (use g1(2) G1(2,4,6) R in simp_all)
  have rest: "log_rest ?rid (w_log w) g2" using log_rest_trans[OF g1(3)] g2(3) by simp
  note G2 = log_restD[OF rest]
  have read: "event_read_waiting ?rid after limit [g2] =
      Inr (take limit (drop (read_target after) (numbered (?e # replicate 4 ?x))))" for after limit
    using read_at[OF g2(2) G2(2)] G2(3) R by simp
  have unknown: "event_read_waiting (new_id (mem_ports cx hmac) d 1) None 10 [g2] = Inl EUnknown"
    by (rule read_unknown) (use G2(1) new d in simp)
  obtain l where "map_of (el_logs g2) ?rid = Some l" using G2(2) by blast
  then obtain g3 k g4 where g3: "event_close ?rid 10000 1000 g2 = (Inr (), g3)"
      "event_sweep_expired 11001 g3 = (Inr k, g4)"
    "\<forall>after limit. event_read_waiting ?rid after limit [g4] = Inl EExpired"
    "event_log_wf g4" "el_capacity_per_response g4 = el_capacity_per_response g2" "el_max_logs g4 = el_max_logs g2"
    "length (el_logs g4) \<le> length (el_logs g2)" "dom (map_of (el_logs g4)) \<subseteq> dom (map_of (el_logs g2))"
    by (rule close_and_sweep[of g2 ?rid l 10000 1000 11001]) (use G2(5) R in \<open>simp_all add: TOMBSTONE_FACTOR_def u64_max_def\<close>)
  have steps: "[1, 2, 3, 4] = [length [?e]..<length [?e] + 4]" by (simp add: upt_rec)
  show ?thesis
  proof (rule case_passesI)
    show "assert_event_log_conformance (mem_ports cx hmac) d w = Some (w\<lparr>w_log := g4\<rparr>)"
      using g1(1) g2(1)[folded steps] g3(1-3) read unknown
      by (simp add: assert_event_log_conformance_def mem_port_simps read_seqs upt_rec sat_add_def u64_max_def
          del: event_read_waiting.simps append_each.simps)
    show "ready n q p (w\<lparr>w_log := g4\<rparr>)" by (rule ready_log[OF r]) (use g3 G2 in simp_all)
    show "grows d w (w\<lparr>w_log := g4\<rparr>)"
      by (rule grows_log[of _ ?rid]) (use g3 G2(8) drawn_in(1)[of 0 d] in auto)
  qed
qed

section \<open>The ledger\<close>

text \<open>What a ledger call leaves: nothing of the conversations, and new rows and keys only under drawn names.\<close>

definition row_ids :: "mem_store \<Rightarrow> uuid set" where
  "row_ids s = rid_uuid ` (dom (map_of (st_records s)) \<union> set (st_queued s))"

definition row_keys :: "mem_store \<Rightarrow> idempotency_key set" where
  "row_keys s = dom (map_of (st_idem s))"

definition ledger_rest :: "draws \<Rightarrow> nat \<Rightarrow> mem_store \<Rightarrow> mem_store \<Rightarrow> bool" where
  "ledger_rest d k s s' \<longleftrightarrow> conv_part s' = conv_part s \<and> length (st_records s') \<le> length (st_records s) + k \<and>
    row_ids s' \<subseteq> row_ids s \<union> drawn_responses d \<and> row_keys s' \<subseteq> row_keys s \<union> drawn_keys d"

lemma ledger_rest_refl: "ledger_rest d 0 s s"
  by (simp add: ledger_rest_def)

lemma ledger_rest_trans:
  assumes "ledger_rest d k s s1" "ledger_rest d m s1 s2"
  shows "ledger_rest d (k + m) s s2"
  unfolding ledger_rest_def
proof (intro conjI)
  show "row_ids s2 \<subseteq> row_ids s \<union> drawn_responses d" "row_keys s2 \<subseteq> row_keys s \<union> drawn_keys d"
    using assms unfolding ledger_rest_def by blast+
qed (use assms in \<open>auto simp: ledger_rest_def\<close>)

lemma ledger_restI:
  assumes "conv_part s' = conv_part s" "length (st_records s') \<le> length (st_records s) + k"
    "dom (map_of (st_records s')) \<subseteq> dom (map_of (st_records s)) \<union> ids" "set (st_queued s') \<subseteq> set (st_queued s) \<union> ids"
    "rid_uuid ` ids \<subseteq> drawn_responses d" "dom (map_of (st_idem s')) \<subseteq> dom (map_of (st_idem s)) \<union> drawn_keys d"
  shows "ledger_rest d k s s'"
proof -
  have "dom (map_of (st_records s')) \<union> set (st_queued s') \<subseteq> dom (map_of (st_records s)) \<union> set (st_queued s) \<union> ids"
    using assms(3,4) by blast
  from image_gain[OF this assms(5)] show ?thesis
    using assms(1,2,6) by (simp add: ledger_rest_def row_ids_def row_keys_def)
qed

lemma ledger_rest_limits:
  assumes "ledger_rest d k s s'"
  shows "st_pending_limit s' = st_pending_limit s" "st_max_records s' = st_max_records s"
    "st_read_only s' = st_read_only s" "length (st_records s') \<le> length (st_records s) + k"
  using assms conv_part_limits[of s' s] conv_part_D(5)[of s' s] by (auto simp: ledger_rest_def)

lemma used_ids_split: "used_ids w = row_ids (w_store w) \<union> rid_uuid ` dom (map_of (el_logs (w_log w)))"
  by (simp add: used_ids_def row_ids_def image_Un)

lemma ledger_case:
  assumes r: "ready m q p w" and rest: "ledger_rest d k (w_store w) s'" and at: "ledger_at q' p' s'"
    and n: "length q' + p' + n \<le> length q + p + m" "n + k \<le> m"
  shows "ready n q' p' (w\<lparr>w_store := s'\<rparr>)" "grows d w (w\<lparr>w_store := s'\<rparr>)"
proof -
  have part: "conv_part s' = conv_part (w_store w)" using rest by (simp add: ledger_rest_def)
  show "ready n q' p' (w\<lparr>w_store := s'\<rparr>)"
    by (rule ready_ledger[OF r at part n(1)]) (use ledger_rest_limits(4)[OF rest] n in linarith)+
  have "used_conversations (w\<lparr>w_store := s'\<rparr>) = used_conversations w"
    using conv_part_D(2)[OF part] by (simp add: used_conversations_def)
  then show "grows d w (w\<lparr>w_store := s'\<rparr>)"
    using rest unfolding grows_def used_ids_split used_keys_def row_keys_def[symmetric] ledger_rest_def
    by (simp del: Un_insert_right) blast
qed

text \<open>A create under a drawn id and key.\<close>

lemma new_row:
  assumes at: "ledger_at q p s" and ok: "record_ok r" "rr_status r = Queued" and rid: "rr_response_id r = rid"
    and new: "map_of (st_idem s) (key_of d i) = None" "map_of (st_records s) rid = None"
      "rid \<notin> set (st_queued s)" "rid_uuid rid \<in> drawn_responses d" "i < 24"
    and room: "length q + p < st_pending_limit s" "length (st_records s) < st_max_records s"
  obtains s' where "ledger_create cx (mem_integrity hmac) r (key_of d i) s = (Inr (Accepted (signed_row cx hmac r)), s')"
    "ledger_at (q @ [rid]) p s'" "ledger_rest d 1 s s'"
    "map_of (st_records s') = (map_of (st_records s))(rid \<mapsto> signed_row cx hmac r)"
    "map_of (st_idem s') = (map_of (st_idem s))(key_of d i \<mapsto> rid)" "st_queued s' = st_queued s @ [rid]"
proof -
  let ?s = "enlist (signed_row cx hmac r) (key_of d i) s"
  have "ledger_create cx (mem_integrity hmac) r (key_of d i) s = (Inr (Accepted (signed_row cx hmac r)), ?s)"
    by (rule create_accepts[OF at sign_mem new(1) room])
  moreover have "ledger_at (q @ [rid]) p ?s"
    using enlist_at[OF at, of "signed_row cx hmac r" "key_of d i"] ok new rid by simp
  moreover have "ledger_rest d 1 s ?s"
    by (rule ledger_restI[where ids = "{rid}"]) (use new(1-4) rid drawn_in(2)[OF new(5), of d] in \<open>auto simp: enlist_length\<close>)
  ultimately show thesis using rid by (intro that[of ?s]) simp_all
qed

lemma replayed_row:
  assumes "map_of (st_idem s) key = Some rid" "map_of (st_records s) rid = Some er"
  shows "ledger_create cx (mem_integrity hmac) r key s = (Inr (Duplicate er), s)"
  by (rule create_duplicate[OF sign_mem assms])

lemma first_row_claimed:
  assumes at: "ledger_at (x # q) p s"
  obtains r s' where "map_of (st_records s) x = Some r" "rr_status r = Queued" "rr_response_id r = x"
    "ledger_claim a now ttl s =
      (Inr (Some \<lparr>cl_record = claimed_row a r, cl_exec_deadline_ms = sat_add now ttl\<rparr>), s')"
    "rr_attempt (claimed_row a r) = Attempt 1" "rr_response_id (claimed_row a r) = x" "rr_status (claimed_row a r) = InProgress"
    "ledger_at q (Suc p) s'" "ledger_rest d 0 s s'"
    "map_of (st_records s') = (map_of (st_records s))(x \<mapsto> claimed_row a r)"
    "st_idem s' = st_idem s" "set (st_queued s') \<subseteq> set (st_queued s)"
proof (rule claim_first[OF at, of a now ttl])
  fix r s'
  assume c: "map_of (st_records s) x = Some r" "rr_status r = Queued" "rr_response_id r = x"
    "ledger_claim a now ttl s = (Inr (Some \<lparr>cl_record = claimed_row a r, cl_exec_deadline_ms = sat_add now ttl\<rparr>), s')"
    "rr_attempt (claimed_row a r) = Attempt 1" "ledger_at q (Suc p) s'"
    "map_of (st_records s') = (map_of (st_records s))(x \<mapsto> claimed_row a r)"
    "st_idem s' = st_idem s" "length (st_records s') = length (st_records s)" "set (st_queued s') \<subseteq> set (st_queued s)"
  have "ledger_rest d 0 s s'"
    by (rule ledger_restI[where ids = "{}"]) (use ledger_ops_conv_part(2)[of a now ttl s] c in auto)
  from that[OF c(1-5) _ _ c(6) this c(7,8) c(10)] show thesis using c(3) by (simp add: claimed_row_def)
qed

lemma running_row_completed:
  assumes at: "ledger_at q p s" and r: "map_of (st_records s) rid = Some r" "rr_status r = InProgress"
    and st: "is_terminal st"
  obtains s' where "ledger_complete rid (rr_attempt r) st u now s = (Inr (), s')" "ledger_at q (p - 1) s'"
    "map_of (st_records s') = (map_of (st_records s))(rid \<mapsto> r\<lparr>rr_status := st, rr_owner := None, rr_usage := u,
      rr_completed_at_ms := Some now\<rparr>)"
    "ledger_rest d 0 s s'" "st_idem s' = st_idem s" "st_queued s' = st_queued s" "0 < p"
proof (rule complete_running[OF at r st, of u now])
  fix s'
  assume c: "ledger_complete rid (rr_attempt r) st u now s = (Inr (), s')" "ledger_at q (p - 1) s'"
    "map_of (st_records s') = (map_of (st_records s))(rid \<mapsto> r\<lparr>rr_status := st, rr_owner := None, rr_usage := u,
      rr_completed_at_ms := Some now\<rparr>)"
    "st_idem s' = st_idem s" "st_queued s' = st_queued s" "length (st_records s') = length (st_records s)" "0 < p"
  have "ledger_rest d 0 s s'"
    by (rule ledger_restI[where ids = "{}"])
      (use ledger_ops_conv_part(4)[of rid "rr_attempt r" st u now s] c r in auto)
  from that[OF c(1-3) this c(4,5,7)] show thesis .
qed

end
