(* ===== verification/Contract_Cases.thy ===== *)
theory Contract_Cases
  imports Contract
begin

text \<open>
  The contract cases without spawned tasks pass on the in-memory ports: event log, ledger, cancel,
  durability, context, conversations and their events, integrity and the protocol cases.
\<close>

section \<open>Ledger cases\<close>

lemma plain_texts:
  "list_all plain ''durable-marker''" "list_all plain ''in-0''" "list_all plain ''unanswered''" "list_all plain ''Stable answer''"
  by (simp_all add: plain_def byte_in_def)

text \<open>The names a case draws are not in use when it starts.\<close>

lemma drawn_new:
  fixes ports :: "world port_set"
  assumes "unused d w"
  shows "i < 24 \<Longrightarrow> map_of (st_records (w_store w)) (new_id ports d i) = None"
    "i < 24 \<Longrightarrow> new_id ports d i \<notin> set (st_queued (w_store w))"
    "i < 24 \<Longrightarrow> map_of (el_logs (w_log w)) (new_id ports d i) = None"
    "i < 24 \<Longrightarrow> map_of (st_idem (w_store w)) (key_of d i) = None"
    "i < 24 \<Longrightarrow> map_of (st_conversations (w_store w)) (new_conversation_id d i) = None"
    "i < 24 \<Longrightarrow> rid_uuid (new_id ports d i) \<in> drawn_responses d"
    "i < 24 \<Longrightarrow> cid_uuid (new_conversation_id d i) \<in> drawn_conversations d"
  using unusedD[OF assms] drawn_in[of i d] by (simp_all add: new_id_def new_conversation_id_def)

lemma label_okI:
  assumes "length l \<le> 40" "set l \<subseteq> set ''-abcdefghijklmnopqrstuvwxyz''"
  shows "label_ok l"
proof -
  have "\<forall>b \<in> set ''-abcdefghijklmnopqrstuvwxyz''. is_ascii_alphanumeric b \<or> b = CHR ''-''"
    by (simp add: byte_class_defs)
  then show ?thesis using assms unfolding label_ok_def list_all_iff by blast
qed

lemma durability_case:
  assumes doc: "codec_documented cx" "draws_ok cx d" and r: "ready (n + 60) q p w" and u: "unused d w"
  shows "case_passes d n (q @ [new_id (mem_ports cx hmac) d 0, new_id (mem_ports cx hmac) d 1]) p w
    (assert_durability_order (mem_ports cx hmac) d w)"
proof -
  note R = readyD[OF r] and new = drawn_new[OF u] and key = fresh_key_eq[OF doc]
  define id where "id = new_id (mem_ports cx hmac) d"
  define t where "t = tenant_of d 0 ''durability''"
  define r where "r = (let r0 = test_record d (id 0) None t True Queued in
    r0\<lparr>rr_spec := (rr_spec r0)\<lparr>ts_input_items := [user_text ''durable-marker'']\<rparr>\<rparr>)"
  define g where "g = test_record d (id 1) None t True Queued"
  have cx: "dr_codec d = cx" using doc(2) by (simp add: draws_ok_def)
  have ids: "id 0 \<noteq> id 1" using doc(2) by (simp add: id_def)
  have r: "record_ok r" "rr_status r = Queued" "rr_response_id r = id 0" "is_stored (signed_row cx hmac r)"
      "ts_input_items (rr_spec r) = [user_text ''durable-marker'']"
    by (simp_all add: r_def Let_def test_record_def ResponseRecord_queued_def record_ok_def UNCLAIMED_def is_stored_def)
  have g: "record_ok g" "rr_status g = Queued" "rr_response_id g = id 1" by (simp_all add: g_def)
  have marker: "contains (canonical_items cx [user_text ''durable-marker'']) ''durable-marker''"
    by (rule canonical_shows[OF doc(1) plain_texts(1)]) (auto simp: user_text_def)
  obtain s1 where s1: "ledger_create cx (mem_integrity hmac) r (key_of d 0) (w_store w) = (Inr (Accepted (signed_row cx hmac r)), s1)"
      "ledger_at (q @ [id 0]) p s1" "ledger_rest d 1 (w_store w) s1"
      "map_of (st_records s1) = (map_of (st_records (w_store w)))(id 0 \<mapsto> signed_row cx hmac r)"
      "map_of (st_idem s1) = (map_of (st_idem (w_store w)))(key_of d 0 \<mapsto> id 0)"
      "st_queued s1 = st_queued (w_store w) @ [id 0]"
    by (rule new_row[OF R(1) r(1-3), of d 0 cx hmac]) (use new R in \<open>simp_all add: id_def\<close>)
  note L1 = ledger_rest_limits[OF s1(3)]
  obtain s2 where s2: "ledger_create cx (mem_integrity hmac) g (key_of d 1) s1 = (Inr (Accepted (signed_row cx hmac g)), s2)"
      "ledger_at ((q @ [id 0]) @ [id 1]) p s2" "ledger_rest d 1 s1 s2"
      "map_of (st_records s2) = (map_of (st_records s1))(id 1 \<mapsto> signed_row cx hmac g)"
      "map_of (st_idem s2) = (map_of (st_idem s1))(key_of d 1 \<mapsto> id 1)"
    by (rule new_row[OF s1(2) g, of d 1 cx hmac])
      (use new R L1 s1(4-6) ids key_of_inj[OF doc] in \<open>simp_all add: id_def\<close>)
  have again: "ledger_create cx (mem_integrity hmac) g (key_of d 1) s2 = (Inr (Duplicate (signed_row cx hmac g)), s2)"
    by (rule replayed_row[of _ _ "id 1"]) (simp_all add: s2)
  show ?thesis unfolding id_def[symmetric]
  proof (rule case_passesI)
    show "assert_durability_order (mem_ports cx hmac) d w = Some (w\<lparr>w_store := s2\<rparr>)"
      using s1(1,4) s2(1,4) again marker ids r(3-5)
      by (simp add: assert_durability_order_def mem_port_simps accepted_outcome_def duplicate_outcome_def ledger_get_def cx key
          fresh_tenant_eq[OF doc(2) label_okI] id_def[symmetric] t_def[symmetric] r_def[unfolded Let_def, symmetric] g_def[symmetric] del: One_nat_def)
    show "ready n (q @ [id 0, id 1]) p (w\<lparr>w_store := s2\<rparr>)" "grows d w (w\<lparr>w_store := s2\<rparr>)"
      using ledger_case[OF assms(3) ledger_rest_trans[OF s1(3) s2(3)] s2(2), of n] by simp_all
  qed
qed

lemma check_running:
  assumes "\<not> st_read_only s" "map_of (st_records s) rid = Some r" "rr_status r = InProgress"
  shows "check_attempt rid att s = (if rr_attempt r = att then Inr () else Inl LStaleAttempt)"
  using assms by (simp add: check_attempt_def)

lemma ledger_case_passes:
  assumes doc: "codec_documented cx" "draws_ok cx d" and r: "ready (n + 60) q p w" and u: "unused d w"
  shows "case_passes d n (tl (q @ [new_id (mem_ports cx hmac) d 0])) p w (assert_ledger_conformance (mem_ports cx hmac) d w)"
proof -
  note R = readyD[OF r] and new = drawn_new[OF u] and key = fresh_key_eq[OF doc]
  define id where "id = new_id (mem_ports cx hmac) d"
  define t where "t = tenant_of d 0 ''ledger''"
  define r0 where "r0 = test_record d (id 0) None t True Queued"
  have r0: "record_ok r0" "rr_status r0 = Queued" "rr_response_id r0 = id 0" by (simp_all add: r0_def)
  obtain s1 where s1: "ledger_create cx (mem_integrity hmac) r0 (key_of d 0) (w_store w) = (Inr (Accepted (signed_row cx hmac r0)), s1)"
      "ledger_at (q @ [id 0]) p s1" "ledger_rest d 1 (w_store w) s1"
      "map_of (st_records s1) = (map_of (st_records (w_store w)))(id 0 \<mapsto> signed_row cx hmac r0)"
      "map_of (st_idem s1) = (map_of (st_idem (w_store w)))(key_of d 0 \<mapsto> id 0)"
    by (rule new_row[OF R(1) r0, of d 0 cx hmac]) (use new R in \<open>simp_all add: id_def\<close>)
  have again: "ledger_create cx (mem_integrity hmac) r' (key_of d 0) s1 = (Inr (Duplicate (signed_row cx hmac r0)), s1)" for r'
    by (rule replayed_row[of _ _ "id 0"]) (simp_all add: s1)
  obtain y q' where q: "q @ [id 0] = y # q'" by (cases "q @ [id 0]") auto
  have len: "length q' = length q" using arg_cong[OF q, of length] by simp
  obtain r1 s2 where s2: "ledger_claim (agent d 0) 2000 60000 s1 =
        (Inr (Some \<lparr>cl_record = claimed_row (agent d 0) r1, cl_exec_deadline_ms = sat_add 2000 60000\<rparr>), s2)"
      "rr_attempt (claimed_row (agent d 0) r1) = Attempt 1" "rr_response_id (claimed_row (agent d 0) r1) = y"
      "rr_status (claimed_row (agent d 0) r1) = InProgress" "ledger_at q' (Suc p) s2" "ledger_rest d 0 s1 s2"
      "map_of (st_records s2) = (map_of (st_records s1))(y \<mapsto> claimed_row (agent d 0) r1)"
    by (rule first_row_claimed[OF s1(2)[unfolded q], of "agent d 0" 2000 60000])
  define c where "c = claimed_row (agent d 0) r1"
  have row: "map_of (st_records s2) y = Some c" "rr_status c = InProgress" "rr_attempt c = Attempt 1" "rr_response_id c = y"
    using s2 by (simp_all add: c_def)
  obtain s3 where s3: "ledger_complete y (Attempt 1) Completed (Usage_new 3 4) 3000 s2 = (Inr (), s3)" "ledger_at q' p s3"
      "map_of (st_records s3) = (map_of (st_records s2))(y \<mapsto> c\<lparr>rr_status := Completed, rr_owner := None,
        rr_usage := Usage_new 3 4, rr_completed_at_ms := Some 3000\<rparr>)" "ledger_rest d 0 s2 s3"
    by (rule running_row_completed[OF s2(5) row(1,2), where st = Completed and u = "Usage_new 3 4" and now = 3000 and d = d]) (simp_all add: row)
  have ended: "ledger_complete y (Attempt 1) Completed Usage_default 3100 s3 = (Inl LStaleAttempt, s3)"
      "\<exists>m. ledger_complete y (Attempt 1) InProgress Usage_default 3200 s3 = (Inl (LInvalidTransition m), s3)"
    using complete_again[OF ledger_atD(2)[OF s3(2)], of y] by (simp_all add: s3(3))
  then obtain m where ended': "ledger_complete y (Attempt 1) InProgress Usage_default 3200 s3 = (Inl (LInvalidTransition m), s3)" by blast
  note ro = ledger_atD(2)[OF s2(5)]
  show ?thesis unfolding id_def[symmetric]
  proof (rule case_passesI)
    show "assert_ledger_conformance (mem_ports cx hmac) d w = Some (w\<lparr>w_store := s3\<rparr>)"
      using s1(1) s2(1) s3(1,3) ended(1) ended' row r0(3) check_running[OF ro row(1,2)]
      by (simp add: assert_ledger_conformance_def mem_port_simps ledger_get_def key the_ok_def is_invalid_transition_def
          fresh_tenant_eq[OF doc(2) label_okI] id_def[symmetric] t_def[symmetric] r0_def[symmetric] again
          c_def[symmetric] total_tokens_def Usage_new_def sat_add_def u64_max_def)
    show "ready n (tl (q @ [id 0])) p (w\<lparr>w_store := s3\<rparr>)" "grows d w (w\<lparr>w_store := s3\<rparr>)"
      using ledger_case[OF r ledger_rest_trans[OF ledger_rest_trans[OF s1(3) s2(6)] s3(4)] s3(2), of n]
        len by (simp_all add: q)
  qed
qed

lemma cancel_case:
  assumes doc: "codec_documented cx" "draws_ok cx d" and r: "ready (n + 60) q p w" and u: "unused d w"
  shows "case_passes d n q p w (assert_cancel_conformance (mem_ports cx hmac) d w)"
proof -
  note R = readyD[OF r] and new = drawn_new[OF u] and key = fresh_key_eq[OF doc]
  define id where "id = new_id (mem_ports cx hmac) d"
  define t where "t = tenant_of d 0 ''cancel''"
  define r0 where "r0 = test_record d (id 0) None t True Queued"
  have r0: "record_ok r0" "rr_status r0 = Queued" "rr_response_id r0 = id 0" "rr_tenant_id r0 = t" by (simp_all add: r0_def)
  have other: "tenant_of d 1 ''intruder'' \<noteq> t" unfolding t_def by (rule tenant_of_neq[OF doc(2)]) simp
  have ids: "id 1 \<noteq> id 0" "id 0 \<notin> set q"
    using doc(2) new(2)[of 0 "mem_ports cx hmac"] ledger_atD(4)[OF R(1)] by (auto simp: id_def queued_rows_def)
  obtain s1 where s1: "ledger_create cx (mem_integrity hmac) r0 (key_of d 0) (w_store w) = (Inr (Accepted (signed_row cx hmac r0)), s1)"
      "ledger_at (q @ [id 0]) p s1" "ledger_rest d 1 (w_store w) s1"
      "map_of (st_records s1) = (map_of (st_records (w_store w)))(id 0 \<mapsto> signed_row cx hmac r0)"
    by (rule new_row[OF R(1) r0(1-3), of d 0 cx hmac]) (use new R in \<open>simp_all add: id_def\<close>)
  have intruder: "ledger_cancel (tenant_of d 1 ''intruder'') (id 0) 1500 s1 = (Inl LNotFound, s1)"
    using ledger_atD(2)[OF s1(2)] other by (simp add: ledger_cancel_def s1(4) r0)
  obtain s2 where s2: "ledger_record_partial_usage (id 0) (Attempt 1) (Usage_new 9 1) s1 = (Inr (), s2)"
      "ledger_at (q @ [id 0]) p s2" "st_records s2 = st_records s1" "st_idem s2 = st_idem s1" "st_queued s2 = st_queued s1"
    by (rule partial_usage_at[OF s1(2), of "id 0" "Attempt 1" "Usage_new 9 1"]) (simp_all add: s1(4))
  have unknown: "ledger_record_partial_usage (id 1) (Attempt 1) (Usage_new 1 1) s2 = (Inl LNotFound, s2)"
    using new(1)[of 1 "mem_ports cx hmac"] ids by (simp add: ledger_record_partial_usage_def s2(3) s1(4) id_def)
  let ?c = "signed_row cx hmac r0\<lparr>rr_attempt := Attempt 1, rr_status := Cancelled, rr_owner := None, rr_completed_at_ms := Some 2000\<rparr>"
  obtain s3 where s3: "ledger_cancel t (id 0) 2000 s2 = (Inr (), s3)" "ledger_at (remove1 (id 0) (q @ [id 0])) p s3"
      "map_of (st_records s3) = (map_of (st_records s2))(id 0 \<mapsto> ?c)" "st_idem s3 = st_idem s2" "st_queued s3 = st_queued s2"
      "length (st_records s3) = length (st_records s2)"
    by (rule cancel_queued[OF s2(2), of "id 0" "signed_row cx hmac r0" t 2000]) (simp_all add: s1(4) s2(3) r0)
  have "conv_part s2 = conv_part s1" "conv_part s3 = conv_part s2"
    using ledger_ops_conv_part(7)[of "id 0" "Attempt 1" "Usage_new 9 1" s1] ledger_ops_conv_part(5)[of t "id 0" 2000 s2]
    unfolding s2(1) s3(1) snd_conv .
  then have rest: "ledger_rest d 0 s1 s3"
    by (intro ledger_restI[where ids = "{id 0}"]) (use s2 s3 new in \<open>auto simp: id_def\<close>)
  have after: "map_of (st_records s3) (id 0) = Some ?c" by (simp add: s3)
  have ended: "check_attempt (id 0) UNCLAIMED s3 = Inl LStaleAttempt"
      "ledger_cancel t (id 0) 2100 s3 = (Inl (LInvalidTransition (''already '' @ status_as_str Cancelled)), s3)"
    using ledger_atD(2)[OF s3(2)] by (simp_all add: check_attempt_def UNCLAIMED_def ledger_cancel_def after r0)
  have q: "remove1 (id 0) (q @ [id 0]) = q" using ids by (simp add: remove1_append)
  show ?thesis
  proof (rule case_passesI)
    show "assert_cancel_conformance (mem_ports cx hmac) d w = Some (w\<lparr>w_store := s3\<rparr>)"
      using s1(1) s2(1) s3(1) intruder unknown ended after
      by (simp add: assert_cancel_conformance_def mem_port_simps ledger_get_def key is_invalid_transition_def
          fresh_tenant_eq[OF doc(2) label_okI] id_def[symmetric] t_def[symmetric] r0_def[symmetric] del: One_nat_def)
    show "ready n q p (w\<lparr>w_store := s3\<rparr>)" "grows d w (w\<lparr>w_store := s3\<rparr>)"
      using ledger_case[OF r ledger_rest_trans[OF s1(3) rest] s3(2)[unfolded q], of n] by simp_all
  qed
qed

section \<open>Conversation cases\<close>

text \<open>Another conversation is untouched, and what a case leaves of the world.\<close>

lemma conv_at_frame:
  assumes "conv_at s c st sn" "conv_open s'" "conv_rest ids s s'" "cv_id c \<notin> ids"
  shows "conv_at s' c st sn"
  using assms by (simp add: conv_at_def conv_rest_def)

lemma conv_case:
  assumes r: "ready m q p w" and op: "conv_open s'" and part: "ledger_part s' = ledger_part (w_store w)"
    and max: "st_max_conversations s' = st_max_conversations (w_store w)"
    and n: "length (st_conversations s') + n \<le> length (st_conversations (w_store w)) + m" "n \<le> m"
    and dom: "dom (map_of (st_conversations s')) \<subseteq> dom (map_of (st_conversations (w_store w))) \<union> cids"
      "cid_uuid ` cids \<subseteq> drawn_conversations d"
  shows "ready n q p (w\<lparr>w_store := s'\<rparr>)" "grows d w (w\<lparr>w_store := s'\<rparr>)"
proof -
  show "ready n q p (w\<lparr>w_store := s'\<rparr>)" by (rule ready_conv[OF r op part max n])
  show "grows d w (w\<lparr>w_store := s'\<rparr>)"
    by (rule growsI[where ids = "{}" and cids = cids]) (use ledger_part_D[OF part] dom in auto)
qed

lemma message_lacks:
  "lacks (CHR ''I'') (item_to_json (user_text t)) \<longleftrightarrow> list_all plain t \<and> CHR ''I'' \<notin> set t"
  "lacks (CHR ''I'') (item_to_json (assistant_text t)) \<longleftrightarrow> list_all plain t \<and> CHR ''I'' \<notin> set t"
  by (simp_all add: user_text_def assistant_text_def opt_field_def plain_def byte_in_def)

lemma conv_rest_trans: "conv_rest ids s s1 \<Longrightarrow> conv_rest ids' s1 s2 \<Longrightarrow> conv_rest (ids \<union> ids') s s2"
  by (simp add: conv_rest_def)

definition answered :: "string \<Rightarrow> turn_commit" where
  "answered text = commit [user_text text] [assistant_text ''answer''] (Usage_new 1 2) Completed"

lemma answered_fold: "commit [user_text x] [assistant_text ''answer''] (Usage_new (Suc 0) 2) Completed = answered x"
  by (simp add: answered_def)

lemma append_turns_at:
  assumes "conv_at (w_store w) c st sn" "distinct (map fst turns)" "\<forall>p \<in> set turns. map_of (sn_appended sn) (fst p) = None"
  obtains s' where "append_turns (cst_snapshots mem_conversation) (cv_tenant_id c) (cv_id c) turns w = Some (w\<lparr>w_store := s'\<rparr>)"
    "conv_at s' c st (fold (\<lambda>(rid, x). turn_added rid (answered x)) turns sn)" "conv_rest {cv_id c} (w_store w) s'"
    "length (st_conversations s') = length (st_conversations (w_store w))"
    "dom (map_of (st_conversations s')) = dom (map_of (st_conversations (w_store w)))"
  using assms
proof (induction turns arbitrary: w sn thesis)
  case Nil
  then show ?case by (intro Nil(1)[of "w_store w"]) (simp_all add: conv_rest_def)
next
  case (Cons p turns)
  obtain rid x where p: "p = (rid, x)" by (cases p)
  obtain s1 where s1: "append_turn (cv_tenant_id c) (cv_id c) rid (answered x) (w_store w) = (Inr (sn_turn_count sn), s1)"
      "conv_at s1 c st (turn_added rid (answered x) sn)" "conv_rest {cv_id c} (w_store w) s1"
      "length (st_conversations s1) = length (st_conversations (w_store w))"
      "dom (map_of (st_conversations s1)) = dom (map_of (st_conversations (w_store w)))"
    by (rule turn_new[OF Cons.prems(2), of rid "answered x"]) (use Cons.prems p in simp_all)
  show ?case
  proof (rule Cons.IH[of "w\<lparr>w_store := s1\<rparr>" "turn_added rid (answered x) sn"])
    fix s'
    assume A: "append_turns (cst_snapshots mem_conversation) (cv_tenant_id c) (cv_id c) turns (w\<lparr>w_store := s1\<rparr>) =
        Some (w\<lparr>w_store := s1, w_store := s'\<rparr>)"
      "conv_at s' c st (fold (\<lambda>(rid, x). turn_added rid (answered x)) turns (turn_added rid (answered x) sn))"
      "conv_rest {cv_id c} (w_store (w\<lparr>w_store := s1\<rparr>)) s'"
      "length (st_conversations s') = length (st_conversations (w_store (w\<lparr>w_store := s1\<rparr>)))"
      "dom (map_of (st_conversations s')) = dom (map_of (st_conversations (w_store (w\<lparr>w_store := s1\<rparr>))))"
    have "append_turns (cst_snapshots mem_conversation) (cv_tenant_id c) (cv_id c) (p # turns) w = Some (w\<lparr>w_store := s'\<rparr>)"
      using A(1) s1(1) by (simp add: p mem_port_simps answered_fold)
    then show thesis
      by (rule Cons.prems(1)) (use A s1 p conv_rest_trans[OF s1(3), of "{cv_id c}" s'] in simp_all)
  qed (use s1(2) Cons.prems p in \<open>auto simp: turn_added_def\<close>)
qed

text \<open>A purge takes every conversation of one tenant and none of another.\<close>

lemma purge_at:
  assumes at: "conv_at s c st sn" and other: "conv_at s c' st' sn'" "cv_tenant_id c' \<noteq> cv_tenant_id c"
  obtains m s' where "conv_delete_by_tenant (cv_tenant_id c) s = (Inr m, s')" "conv_at s' c' st' sn'"
    "card {k. \<exists>e. map_of (st_conversations s) k = Some e \<and> cv_tenant_id e = cv_tenant_id c} = m" "1 \<le> m"
    "ledger_part s' = ledger_part s" "st_max_conversations s' = st_max_conversations s"
    "length (st_conversations s') \<le> length (st_conversations s)"
    "dom (map_of (st_conversations s')) \<subseteq> dom (map_of (st_conversations s))"
    "\<forall>k e. map_of (st_conversations s) k = Some e \<longrightarrow> cv_tenant_id e = cv_tenant_id c \<longrightarrow> map_of (st_conversations s') k = None"
proof (rule conv_purge[OF conv_atD(1)[OF at], of "cv_tenant_id c"])
  let ?S = "{k. \<exists>e. map_of (st_conversations s) k = Some e \<and> cv_tenant_id e = cv_tenant_id c}"
  fix m s'
  assume P: "conv_delete_by_tenant (cv_tenant_id c) s = (Inr m, s')" "conv_open s'" "m = card ?S" "conv_rest ?S s s'"
    "\<forall>k e. map_of (st_conversations s) k = Some e \<longrightarrow> cv_tenant_id e = cv_tenant_id c \<longrightarrow> map_of (st_conversations s') k = None"
    "length (st_conversations s') \<le> length (st_conversations s)"
    "dom (map_of (st_conversations s')) \<subseteq> dom (map_of (st_conversations s))"
  have "finite ?S" by (rule finite_subset[OF _ finite_dom_map_of[of "st_conversations s"]]) auto
  moreover have "cv_id c \<in> ?S" using conv_atD(2)[OF at] by simp
  ultimately have m: "1 \<le> m" using P(3) card_gt_0_iff[of ?S] by (auto simp: Suc_le_eq)
  have "conv_at s' c' st' sn'"
    by (rule conv_at_frame[OF other(1) P(2,4)]) (use conv_atD(2)[OF other(1)] other(2) in simp)
  moreover have "ledger_part s' = ledger_part s" "st_max_conversations s' = st_max_conversations s"
    using P(4) by (simp_all add: conv_rest_def)
  ultimately show thesis by (rule that[OF P(1) _ P(3)[symmetric] m _ _ P(6,7,5)])
qed

lemma context_case:
  assumes doc: "codec_documented cx" "draws_ok cx d" and r: "ready (n + 60) q p w" and u: "unused d w"
  shows "case_passes d n q p w (assert_context_conformance (mem_ports cx hmac) d w)"
proof -
  note R = readyD[OF r] and new = drawn_new[OF u]
  have cx: "dr_codec d = cx" using doc(2) by (simp add: draws_ok_def)
  define id where "id = new_id (mem_ports cx hmac) d"
  define t where "t = tenant_of d 0 ''ctx''"
  define f where "f = tenant_of d 2 ''foreign''"
  define c where "c = Conversation_new (new_conversation_id d 0) t [] 1000"
  define c' where "c' = Conversation_new (new_conversation_id d 2) f [] 1000"
  have c: "cv_id c = new_conversation_id d 0" "cv_tenant_id c = t" "cv_active_response_id c = None"
    "cv_id c' = new_conversation_id d 2" "cv_tenant_id c' = f" "cv_active_response_id c' = None"
    by (simp_all add: c_def c'_def Conversation_new_def)
  have ids: "id i = id j \<longleftrightarrow> i = j" "new_conversation_id d i = new_conversation_id d j \<longleftrightarrow> i = j"
    if "i < 24" "j < 24" for i j
    using doc(2) that by (simp_all add: id_def)
  have tenants: "tenant_of d 1 ''other'' \<noteq> t" "f \<noteq> t" unfolding t_def f_def by (rule tenant_of_neq[OF doc(2)]; simp)+
  obtain s1 where s1: "conv_create c (w_store w) = (Inr c, s1)" "conv_at s1 c Stream_default Snapshot_default"
      "conv_rest {cv_id c} (w_store w) s1" "length (st_conversations s1) = Suc (length (st_conversations (w_store w)))"
      "dom (map_of (st_conversations s1)) = insert (cv_id c) (dom (map_of (st_conversations (w_store w))))"
    by (rule conv_create_at[OF R(4), of c]) (use new R c in simp_all)
  let ?turns = "[(id 0, ''in-0''), (id 1, ''in-1''), (id 2, ''in-2'')]"
  define sn where "sn = fold (\<lambda>(rid, x). turn_added rid (answered x)) ?turns Snapshot_default"
  have sn: "sn_turn_count sn = 3" "map_of (sn_appended sn) (id 0) = Some 0" "map_of (sn_appended sn) (id 3) = None"
    "map ce_item (sn_entries sn) = [user_text ''in-0'', assistant_text ''answer'', user_text ''in-1'', assistant_text ''answer'',
      user_text ''in-2'', assistant_text ''answer'']" "length (sn_entries sn) = 6"
    by (simp_all add: sn_def turn_added_def Snapshot_default_def ids turn_entries_def answered_def commit_def
        ContextEntry_new_def ContextEntry_with_reasoning_def)
  obtain s4 where s4: "append_turns (cst_snapshots mem_conversation) t (cv_id c) ?turns (w\<lparr>w_store := s1\<rparr>) = Some (w\<lparr>w_store := s4\<rparr>)"
      "conv_at s4 c Stream_default sn" "conv_rest {cv_id c} s1 s4" "length (st_conversations s4) = length (st_conversations s1)"
      "dom (map_of (st_conversations s4)) = dom (map_of (st_conversations s1))"
    by (rule append_turns_at[of "w\<lparr>w_store := s1\<rparr>" c Stream_default Snapshot_default ?turns])
      (use s1(2) c ids in \<open>simp_all add: Snapshot_default_def sn_def\<close>)
  define rc where "rc = ResolvedContext_new (sn_entries sn) (sn_turn_count sn)"
  have items: "rc_items rc = [user_text ''in-0'', assistant_text ''answer'', user_text ''in-1'', assistant_text ''answer'',
      user_text ''in-2'', assistant_text ''answer'']"
    using sn(4) by (simp add: rc_def rc_items_def ResolvedContext_new_def)
  have rc: "rc_turns rc = 3" "rc_item_count rc = 6" "0 < rc_bytes rc"
      "contains (canonical_items cx (take 1 (rc_items rc))) ''in-0''"
      "\<not> contains (canonical_items cx (rc_items rc)) ''INSTRUCTIONS-MARKER''"
  proof -
    show "contains (canonical_items cx (take 1 (rc_items rc))) ''in-0''"
      by (rule canonical_shows[OF doc(1) plain_texts(2)]) (auto simp: items user_text_def)
    show "\<not> contains (canonical_items cx (rc_items rc)) ''INSTRUCTIONS-MARKER''"
      by (rule canonical_omits[OF doc(1)]) (simp add: items message_lacks plain_def byte_in_def)
    have "sum_list (map (\<lambda>e. item_byte_len (ce_item e)) (rc_entries rc)) = sum_list (map item_byte_len (rc_items rc))"
      by (simp add: rc_items_def comp_def)
    then show "0 < rc_bytes rc"
      by (simp add: rc_bytes_def fold_sat_add items user_text_def assistant_text_def u64_max_def)
  qed (use sn(1-3,5) in \<open>simp_all add: rc_def ResolvedContext_new_def rc_item_count_def\<close>)
  have op: "conv_open s4" "map_of (st_conversations s4) (new_conversation_id d 1) = None"
    using conv_atD(1)[OF s4(2)] s4(5) s1(5) new(5)[of 1] ids(2)[of 1 0] c by (auto simp flip: domIff)
  have read4: "read_snapshot t (cv_id c) s4 = Inr rc" "read_snapshot (tenant_of d 1 ''other'') (cv_id c) s4 = Inl CNotFound"
      "read_snapshot t (new_conversation_id d 1) s4 = Inl CNotFound"
    using snapshot_at[OF s4(2)] snapshot_absent[OF op(1) conv_atD(6)[OF s4(2)]] snapshot_absent[OF op(1) absent_owned[OF op(2)]]
      tenants c by (simp_all add: rc_def)
  have parts: "ledger_part s4 = ledger_part (w_store w)" using s1(3) s4(3) by (simp add: conv_rest_def)
  have gone: "ledger_delete (id 0) s4 = (Inr False, s4)"
    by (rule delete_absent) (use ledger_part_D[OF parts] R(10) new(1) in \<open>simp_all add: id_def\<close>)
  obtain s5 where s5: "append_turn t (cv_id c) (id 0) (answered ''in-0'') s4 = (Inr 0, s5)" "conv_at s5 c Stream_default sn"
      "conv_rest {cv_id c} s4 s5" "length (st_conversations s5) = length (st_conversations s4)"
      "dom (map_of (st_conversations s5)) = dom (map_of (st_conversations s4))"
    using turn_known[OF s4(2) sn(2), of "answered ''in-0''"] c by auto
  define failed where "failed = commit [user_text ''unanswered''] [] Usage_default Failed"
  define sn' where "sn' = turn_added (id 3) failed sn"
  obtain s6 where s6: "append_turn t (cv_id c) (id 3) failed s5 = (Inr 3, s6)"
      "conv_at s6 c Stream_default sn'" "conv_rest {cv_id c} s5 s6" "length (st_conversations s6) = length (st_conversations s5)"
      "dom (map_of (st_conversations s6)) = dom (map_of (st_conversations s5))"
    using turn_new[OF s5(2) sn(3), of failed] c sn(1) by (auto simp: sn'_def)
  define rc' where "rc' = ResolvedContext_new (sn_entries sn') (sn_turn_count sn')"
  have rc': "rc_turns rc' = 4" "rc_item_count rc' = 7" "contains (canonical_items cx (rc_items rc')) ''unanswered''"
  proof -
    show "contains (canonical_items cx (rc_items rc')) ''unanswered''"
      by (rule canonical_shows[OF doc(1) plain_texts(3)])
        (auto simp: rc'_def sn'_def turn_added_def failed_def commit_def rc_items_def ResolvedContext_new_def turn_entries_def
          user_text_def ContextEntry_new_def)
  qed (use sn(1-3,5) in \<open>simp_all add: rc'_def sn'_def turn_added_def failed_def commit_def
      ResolvedContext_new_def rc_item_count_def turn_entries_def\<close>)
  have read56: "read_snapshot t (cv_id c) s5 = Inr rc" "read_snapshot t (cv_id c) s6 = Inr rc'"
    using snapshot_at[OF s5(2)] snapshot_at[OF s6(2)] c by (simp_all add: rc_def rc'_def)
  have lim: "st_max_conversations s6 = st_max_conversations (w_store w)"
      "map_of (st_conversations s6) (cv_id c') = None" "cv_id c' \<noteq> cv_id c"
    using s1(3) s4(3) s5(3) s6(3) new(5)[of 2] ids(2) by (simp_all add: conv_rest_def c)
  obtain s7 where s7: "conv_create c' s6 = (Inr c', s7)" "conv_at s7 c' Stream_default Snapshot_default"
      "conv_rest {cv_id c'} s6 s7" "length (st_conversations s7) = Suc (length (st_conversations s6))"
      "dom (map_of (st_conversations s7)) = insert (cv_id c') (dom (map_of (st_conversations s6)))"
    by (rule conv_create_at[OF conv_atD(1)[OF s6(2)], of c']) (use lim c s4(4) s5(4) s6(4) s1(4) R(5) in simp_all)
  have c7: "conv_at s7 c Stream_default sn'"
    by (rule conv_at_frame[OF s6(2) conv_atD(1)[OF s7(2)] s7(3)]) (use lim in simp)
  obtain s8 where s8: "append_turn f (cv_id c') (id 4) (answered ''theirs'') s7 = (Inr 0, s8)"
      "conv_at s8 c' Stream_default (turn_added (id 4) (answered ''theirs'') Snapshot_default)"
      "conv_rest {cv_id c'} s7 s8" "length (st_conversations s8) = length (st_conversations s7)"
      "dom (map_of (st_conversations s8)) = dom (map_of (st_conversations s7))"
    using turn_new[OF s7(2), of "id 4" "answered ''theirs''"] c by (auto simp: Snapshot_default_def)
  have c8: "conv_at s8 c Stream_default sn'"
    by (rule conv_at_frame[OF c7 conv_atD(1)[OF s8(2)] s8(3)]) (use lim in simp)
  obtain m s9 where s9: "conv_delete_by_tenant t s8 = (Inr m, s9)" "1 \<le> m"
      "conv_at s9 c' Stream_default (turn_added (id 4) (answered ''theirs'') Snapshot_default)"
      "ledger_part s9 = ledger_part s8" "st_max_conversations s9 = st_max_conversations s8"
      "length (st_conversations s9) \<le> length (st_conversations s8)"
      "dom (map_of (st_conversations s9)) \<subseteq> dom (map_of (st_conversations s8))"
    by (rule purge_at[OF c8 s8(2)]) (use tenants c in simp_all)
  have theirs: "read_snapshot f (cv_id c') s9 = Inr (ResolvedContext_new
      (sn_entries (turn_added (id 4) (answered ''theirs'') Snapshot_default)) 1)"
    using snapshot_at[OF s9(3)] c by (simp add: turn_added_def Snapshot_default_def)
  have health: "conv_health s9 = Inr ()" using conv_atD(1)[OF s9(3)] by (simp add: conv_health_def)
  have rests: "ledger_part s9 = ledger_part (w_store w)" "st_max_conversations s9 = st_max_conversations (w_store w)"
    using s9(4,5) s8(3) s7(3) s6(3) s5(3) s4(3) s1(3) by (simp_all add: conv_rest_def)
  show ?thesis
  proof (rule case_passesI)
    show "assert_context_conformance (mem_ports cx hmac) d w = Some (w\<lparr>w_store := s9\<rparr>)"
      using s1(1) s4(1) rc read4 gone s5(1) s6(1) read56 rc'(1,2,3) s7(1) s8(1) s9(1,2) theirs health c
      by (simp add: assert_context_conformance_def fresh_conversation_def mem_port_simps cx answered_def[symmetric]
          fresh_tenant_eq[OF doc(2) label_okI] id_def[symmetric] t_def[symmetric] f_def[symmetric] c_def[symmetric]
          c'_def[symmetric] failed_def[symmetric] ResolvedContext_new_def del: One_nat_def append_turns.simps)
    show "ready n q p (w\<lparr>w_store := s9\<rparr>)" "grows d w (w\<lparr>w_store := s9\<rparr>)"
      using conv_case[OF r conv_atD(1)[OF s9(3)] rests, of n "{cv_id c, cv_id c'}" d] s9(6,7) s8(4,5) s7(4,5) s6(4,5) s5(4,5) s4(4,5) s1(4,5)
        new(7) by (auto simp: c)
  qed
qed

end
