(* ===== verification/Contract_Protocol.thy ===== *)
theory Contract_Protocol
  imports Contract_Cases
begin

text \<open>
  The contract cases that touch no back end: emitted items are accepted as input, bodies outside the
  subset are refused, the classes of events, and the integrity port.
\<close>

section \<open>Bodies\<close>

lemmas request_eval = accepts_def request_of_json_def fields_known_def REQUEST_FIELDS_def get_str_def read_opt_def
  read_flag_def default_true_def ask_def

lemma emitted_items_are_input: "assert_output_items_are_valid_input d = Some ()"
proof -
  have "accepts d (JObj [(''model'', JStr ''m''), (''input'', JArr [item_to_json it])]) \<noteq> None" for it
    by (simp add: request_eval item_json_roundtrip)
  then show ?thesis
    by (simp add: assert_output_items_are_valid_input_def emittable_def assistant_text_def)
qed

lemma bodies_refused: "list_all (\<lambda>body. accepts d body = None) refused_bodies"
  by (simp add: refused_bodies_def request_eval user_message_def item_of_json_def item_of_fields_def get_opt_def
      content_of_fields_def part_of_json_def part_of_fields_def read_tools_def tool_of_json_def split: option.split)

lemma image_accepted:
  obtains r where "accepts d (image_body url) = Some r"
    "crq_input r = InputItems [Message User [InputImage (Some url) None None] None None]"
  by (simp add: image_body_def request_eval user_message_def item_of_json_def item_of_fields_def get_opt_def
      content_of_fields_def part_of_json_def part_of_fields_def role_of_wire_def)

lemma item_refused: "crq_input r = InputItems [it] \<Longrightarrow>
    item_validate (dr_url_parse d) ProtocolLimits_default it = Inl e \<Longrightarrow> \<not> validates d r"
  by (simp add: validates_def request_validate_def the_ok_def Let_def split: option.split sum.split)

lemma images_refused:
  assumes d: "draws_ok cx d"
  obtains r1 r2 where "accepts d (image_body ''data:image/png;base64,AAAA'') = Some r1" "\<not> validates d r1"
    "accepts d (image_body ''https://169.254.169.254/x'') = Some r2" "\<not> validates d r2"
proof -
  obtain u1 u2 where u: "dr_url_parse d ''data:image/png;base64,AAAA'' = Some u1" "url_scheme u1 = ''data''"
      "dr_url_parse d ''https://169.254.169.254/x'' = Some u2" "url_scheme u2 = ''https''"
      "url_username u2 = []" "url_password u2 = None" "url_host u2 = Some (HostIpv4 (Ipv4Addr 169 254 169 254))"
    using d by (auto simp: draws_ok_def)
  have guard: "ensure_public_https (dr_url_parse d) ''data:image/png;base64,AAAA'' 2048 = Inl (SchemeNotAllowed ''data'')"
    "ensure_public_https (dr_url_parse d) ''https://169.254.169.254/x'' 2048 = Inl PrivateAddress"
    using u by (simp_all add: ensure_public_https_def)
  obtain r1 where r1: "accepts d (image_body ''data:image/png;base64,AAAA'') = Some r1"
      "crq_input r1 = InputItems [Message User [InputImage (Some ''data:image/png;base64,AAAA'') None None] None None]"
    by (rule image_accepted)
  obtain r2 where r2: "accepts d (image_body ''https://169.254.169.254/x'') = Some r2"
      "crq_input r2 = InputItems [Message User [InputImage (Some ''https://169.254.169.254/x'') None None] None None]"
    by (rule image_accepted)
  show thesis
    by (rule that[OF r1(1) item_refused[OF r1(2)] r2(1) item_refused[OF r2(2)]])
      (simp_all add: check_reference_def guard ProtocolLimits_default_def)
qed

lemma good_body:
  assumes d: "draws_ok cx d"
  obtains r where "accepts d (ask (JStr ''hi'') [(''store'', JBool True), (''temperature'', JNum half)]) = Some r"
    "validates d r" "crq_store r"
proof -
  have h: "dr_to_f64 d half = Fin (1 / 2)" using d by (simp add: draws_ok_def)
  show thesis
  proof (rule that)
    show "accepts d (ask (JStr ''hi'') [(''store'', JBool True), (''temperature'', JNum half)]) =
      Some \<lparr>crq_model = ''m'', crq_input = InputString ''hi'', crq_instructions = None, crq_store = True,
        crq_stream = False, crq_background = False, crq_previous_response_id = None, crq_conversation = None,
        crq_max_output_tokens = None, crq_metadata = None, crq_tools = None, crq_tool_choice = None,
        crq_temperature = Some (Fin (1 / 2)), crq_top_p = None\<rparr>"
      by (simp add: h request_eval read_bool_def read_f64_def)
  qed (simp_all add: validates_def request_validate_def scalar_violation_def trim_is_empty.simps[of "''m''"] ws_len_def
      ProtocolLimits_default_def validate_items_def sat_add_def u64_max_def user_text_def the_ok_def)
qed

lemma protocol_subset_case: "draws_ok cx d \<Longrightarrow> assert_protocol_subset_rejects d = Some ()"
  by (rule images_refused, assumption, rule good_body, assumption)
    (simp add: assert_protocol_subset_rejects_def bodies_refused)

lemma coalescing_case: "assert_event_coalescing = Some ()"
  by (simp add: assert_event_coalescing_def)

section \<open>Integrity\<close>

text \<open>
  The hmac crate prints 64 hexadecimal digits (HMAC-SHA256), and the two texts the case compares do not
  collide under the test key.
\<close>

definition hmac_documented :: "codec \<Rightarrow> (string \<Rightarrow> string \<Rightarrow> string) \<Rightarrow> bool" where
  "hmac_documented cx hmac \<longleftrightarrow> (\<forall>k s. length (hmac k s) = 64) \<and>
    hmac ''mem-adapter-test-key-0123456789'' (canonical_items cx [user_text ''hello''])
      \<noteq> hmac ''mem-adapter-test-key-0123456789'' (canonical_items cx [user_text ''hell0''])"

lemma canonical_obj_cong:
  assumes "list_all2 (\<lambda>p q. fst p = fst q \<and> canonical_json nfc esc nf (snd p) = canonical_json nfc esc nf (snd q)) m m'"
  shows "canonical_json nfc esc nf (JObj m) = canonical_json nfc esc nf (JObj m')"
proof -
  let ?R = "\<lambda>p q. fst p = fst q \<and> canonical_json nfc esc nf (snd p) = canonical_json nfc esc nf (snd q)"
  have "list_all2 ?R (sorted_entries m) (sorted_entries m')"
    unfolding sorted_entries_def by (rule list_all2_sort_key[OF assms]) auto
  then have "map (\<lambda>p. esc (nfc (fst p)) @ '':'' @ canonical_json nfc esc nf (snd p)) (sorted_entries m)
      = map (\<lambda>p. esc (nfc (fst p)) @ '':'' @ canonical_json nfc esc nf (snd p)) (sorted_entries m')"
    by (intro list_all2_map_eq) (auto elim: list_all2_mono)
  then show ?thesis by simp
qed

text \<open>Texts with the same composed form are signed alike.\<close>

lemma canonical_user_text:
  assumes "cx_nfc cx t = cx_nfc cx t'"
  shows "canonical_items cx [user_text t] = canonical_items cx [user_text t']"
proof -
  let ?c = "canonical_json (cx_nfc cx) (cx_esc cx) (cx_num_fmt cx)"
  have part: "?c (part_to_json (InputText t)) = ?c (part_to_json (InputText t'))"
    unfolding part_to_json.simps by (rule canonical_obj_cong) (use assms in simp)
  have "?c (item_to_json (user_text t)) = ?c (item_to_json (user_text t'))"
    unfolding user_text_def item_to_json.simps
    by (rule canonical_obj_cong) (use part in \<open>simp add: opt_field_def del: part_to_json.simps\<close>)
  then show ?thesis by (simp add: canonical_items_def)
qed

lemma integrity_case:
  assumes "codec_documented cx" "draws_ok cx d" "hmac_documented cx hmac"
  obtains ig where "mem_integrity hmac = Some ig" "assert_integrity_conformance ig d = Some ()"
proof (rule that)
  let ?K = "''mem-adapter-test-key-0123456789''"
  let ?ig = "\<lparr>in_alg = ALG, in_sign = (\<lambda>canonical. Inr (hmac ?K canonical)),
    in_verify = (\<lambda>canonical expected. if hmac ?K canonical = expected then Inr () else Inl Mismatch)\<rparr>"
  show "mem_integrity hmac = Some ?ig" by (simp add: mem_integrity_def hmac_from_key_def the_ok_def)
  have len: "length (hmac ?K s) = 64" for s using assms(3) by (simp add: hmac_documented_def)
  have "hmac ?K s \<noteq> ''deadbeef''" for s using len[of s] by auto
  moreover have "hmac ?K (canonical_items cx [user_text ''hell0'']) \<noteq> hmac ?K (canonical_items cx [user_text ''hello''])"
    using assms(3) unfolding hmac_documented_def by metis
  moreover have "canonical_items cx [user_text (''caf'' @ [CHR 0xC3, CHR 0xA9])] =
      canonical_items cx [user_text (''cafe'' @ [CHR 0xCC, CHR 0x81])]"
    by (rule canonical_user_text) (use assms(1) in \<open>simp add: codec_documented_def\<close>)
  moreover have "dr_codec d = cx" using assms(2) by (simp add: draws_ok_def)
  ultimately show "assert_integrity_conformance ?ig d = Some ()"
    by (simp add: assert_integrity_conformance_def the_ok_def ALG_def)
qed

end
