(* ===== verification/Contract_Races.thy ===== *)
theory Contract_Races
  imports Contract_Protocol
begin

text \<open>
  Racing calls: what a group of spawned calls returns, in every order in which the scheduler may run
  them, and the contract cases that race creates, claims and appends.
\<close>

section \<open>Any order of the calls\<close>

fun in_turn :: "('s \<Rightarrow> 'a \<times> 's) list \<Rightarrow> 's \<Rightarrow> 'a list \<times> 's" where
  "in_turn [] s = ([], s)"
| "in_turn (f # fs) s = (case f s of (a, s1) \<Rightarrow> (case in_turn fs s1 of (as, s2) \<Rightarrow> (a # as, s2)))"

lemma in_turn_length: "length (fst (in_turn fs s)) = length fs"
  by (induction fs arbitrary: s) (auto simp: case_prod_unfold)

lemma race_in_turn:
  "race calls order s = (zip order (fst (in_turn (map ((!) calls) order) s)), snd (in_turn (map ((!) calls) order) s))"
  by (induction order arbitrary: s) (simp_all add: case_prod_unfold)

lemma those_map_Some: "those (map Some xs) = Some xs"
  by (induction xs) auto

lemma joined:
  assumes order: "schedule n order" and len: "length as = n"
  obtains xs where "join_all n (zip order as) = Some xs" "mset xs = mset as"
proof -
  let ?m = "map_of (zip order as)"
  have d: "distinct order" "set order = {..<n}" using order by (simp_all add: schedule_def)
  have l: "length order = length as" using distinct_card[OF d(1)] d(2) len by simp
  have known: "?m i \<noteq> None" if "i < n" for i
    using that d(2) l by (simp add: map_of_zip_is_None)
  have "map ?m [0..<n] = map Some (map (the \<circ> ?m) [0..<n])" using known by auto
  then have j: "join_all n (zip order as) = Some (map (the \<circ> ?m) [0..<n])"
    unfolding join_all_def by (simp add: those_map_Some del: map_map)
  have "map (the \<circ> ?m) order = as"
    by (rule nth_equalityI) (use l d(1) in \<open>auto simp: map_of_zip_nth\<close>)
  moreover have "mset order = mset [0..<n]"
    using set_eq_iff_mset_eq_distinct[OF d(1) distinct_upt[of 0 n]] d(2) by (metis set_upt atLeast0LessThan)
  ultimately have "mset (map (the \<circ> ?m) [0..<n]) = mset as" by (metis mset_map)
  with j show thesis by (rule that)
qed

lemma all_ok_Inr: "all_ok (map Inr zs) = Some zs"
  by (induction zs) (auto simp: the_ok_def)

text \<open>When every call succeeds, the group returns the results in some order.\<close>

lemma racers_ok:
  fixes calls :: "('s \<Rightarrow> ('e + 'a) \<times> 's) list"
  assumes order: "schedule n order" and len: "length calls = n"
    and run: "in_turn (map ((!) calls) order) s = (map Inr ys, s')"
  obtains zs where "racers calls order s = Some (map Inr zs, s')" "all_ok (map Inr zs) = Some zs" "mset zs = mset ys"
proof -
  have "length ys = n"
    using in_turn_length[of "map ((!) calls) order" s] order distinct_card[of order] by (simp add: run schedule_def)
  then obtain xs :: "('e + 'a) list" where
      xs: "join_all n (zip order (map Inr ys)) = Some xs" "mset xs = mset (map Inr ys)"
    using joined[OF order, of "map Inr ys"] by auto
  have "set xs \<subseteq> range Inr" using xs(2) by (metis image_subset_iff list.set_map rangeI set_mset_mset)
  then obtain zs where zs: "xs = map Inr zs" by (metis ex_map_conv image_iff subsetD)
  have "mset zs = mset ys"
    using arg_cong[OF xs(2), of "image_mset projr"] unfolding zs mset_map multiset.map_comp comp_def sum.sel by simp
  then show thesis
    using xs(1) zs by (intro that[of zs]) (simp_all add: racers_def race_in_turn run len all_ok_Inr)
qed

lemma schedule_calls: "schedule n order \<Longrightarrow> map ((!) (map f [0..<n])) order = map f order"
  by (auto simp: schedule_def)

text \<open>Calls on the store, and appends, which leave the store alone.\<close>

lemma in_turn_on_store:
  "in_turn (map (\<lambda>i. on_store (f i)) is) w =
    (fst (in_turn (map f is) (w_store w)), w\<lparr>w_store := snd (in_turn (map f is) (w_store w))\<rparr>)"
  by (induction "is" arbitrary: w) (simp_all add: case_prod_unfold on_store_eq)

lemma in_turn_appends:
  "in_turn (map (\<lambda>i w. on_log (event_append (f i) (w_store w)) w) is) w =
    (fst (in_turn (map (\<lambda>i. event_append (f i) (w_store w)) is) (w_log w)),
     w\<lparr>w_log := snd (in_turn (map (\<lambda>i. event_append (f i) (w_store w)) is) (w_log w))\<rparr>)"
  by (induction "is" arbitrary: w) (simp_all add: case_prod_unfold on_log_eq)

section \<open>Racing creates\<close>

definition refusals :: "nat \<Rightarrow> create_outcome list" where
  "refusals n = replicate n Overloaded"

lemma refused_in_turn:
  assumes at: "ledger_at q p s" and full: "st_pending_limit s \<le> length q + p"
    and new: "\<forall>i \<in> set order. map_of (st_idem s) (key_of d i) = None"
  shows "in_turn (map (\<lambda>i. ledger_create cx (mem_integrity hmac) (r i) (key_of d i)) order) s =
    (map Inr (refusals (length order)), s)"
  using new
proof (induction order)
  case (Cons i js)
  then show ?case
    using create_overloaded[OF at sign_mem, of "key_of d i" cx hmac "r i"] full by (simp add: refusals_def)
qed (simp add: refusals_def)

text \<open>
  Under distinct new ids and keys the creates that come first fill the admission limit and the others are
  refused.
\<close>

lemma creates_in_turn:
  assumes at: "ledger_at q p s"
    and rows: "\<forall>i \<in> set order. record_ok (r i) \<and> rr_status (r i) = Queued \<and> rr_response_id (r i) = rid i \<and>
      rid_uuid (rid i) \<in> drawn_responses d \<and> i < 24"
    and new: "\<forall>i \<in> set order. map_of (st_idem s) (key_of d i) = None \<and> map_of (st_records s) (rid i) = None \<and>
      rid i \<notin> set (st_queued s)"
    and inj: "distinct order" "inj_on (key_of d) (set order)" "inj_on rid (set order)"
    and room: "length (st_records s) + length order \<le> st_max_records s"
  obtains k s' where "k = min (length order) (st_pending_limit s - (length q + p))"
    "in_turn (map (\<lambda>i. ledger_create cx (mem_integrity hmac) (r i) (key_of d i)) order) s =
      (map Inr (map (\<lambda>i. Accepted (signed_row cx hmac (r i))) (take k order) @ refusals (length order - k)), s')"
    "ledger_at (q @ map rid (take k order)) p s'" "ledger_rest d k s s'"
    "\<forall>i \<in> set (take k order). map_of (st_records s') (rid i) \<noteq> None"
    "dom (map_of (st_records s)) \<subseteq> dom (map_of (st_records s'))"
  using assms
proof (induction order arbitrary: q s thesis)
  case Nil
  then show ?case by (intro Nil(1)[of 0 s]) (simp_all add: refusals_def ledger_rest_refl)
next
  case (Cons i js)
  note prems = Cons.prems
  show ?case
  proof (cases "length q + p < st_pending_limit s")
    case False
    then show thesis
      using refused_in_turn[OF prems(2), of "i # js" d cx hmac r] prems(4)
      by (intro prems(1)[of 0 s]) (simp_all add: ledger_rest_refl prems(2))
  next
    case True
    obtain s1 where s1: "ledger_create cx (mem_integrity hmac) (r i) (key_of d i) s = (Inr (Accepted (signed_row cx hmac (r i))), s1)"
      "ledger_at (q @ [rid i]) p s1" "ledger_rest d 1 s s1"
      "map_of (st_records s1) = (map_of (st_records s))(rid i \<mapsto> signed_row cx hmac (r i))"
      "map_of (st_idem s1) = (map_of (st_idem s))(key_of d i \<mapsto> rid i)" "st_queued s1 = st_queued s @ [rid i]"
      by (rule new_row[OF prems(2), of "r i" "rid i" d i cx hmac]) (use prems(3,4,8) True in simp_all)
    note L = ledger_rest_limits[OF s1(3)]
    have js: "rid j \<noteq> rid i" "key_of d j \<noteq> key_of d i" if "j \<in> set js" for j
      using that prems(5-7) by (auto simp: inj_on_def)
    show thesis
    proof (rule Cons.IH[OF _ s1(2)])
      fix k s'
      assume IH: "k = min (length js) (st_pending_limit s1 - (length (q @ [rid i]) + p))"
        "in_turn (map (\<lambda>i. ledger_create cx (mem_integrity hmac) (r i) (key_of d i)) js) s1 =
          (map Inr (map (\<lambda>i. Accepted (signed_row cx hmac (r i))) (take k js) @ refusals (length js - k)), s')"
        "ledger_at ((q @ [rid i]) @ map rid (take k js)) p s'" "ledger_rest d k s1 s'"
        "\<forall>i \<in> set (take k js). map_of (st_records s') (rid i) \<noteq> None"
        "dom (map_of (st_records s1)) \<subseteq> dom (map_of (st_records s'))"
      have "rid i \<in> dom (map_of (st_records s'))" "dom (map_of (st_records s)) \<subseteq> dom (map_of (st_records s'))"
        using IH(6) s1(4) by auto
      then show thesis
        using IH(1-5) s1(1) True ledger_rest_trans[OF s1(3) IH(4)] L(1) by (intro prems(1)[of "Suc k" s']) auto
    qed (use prems js s1(4-6) L in \<open>auto simp: inj_on_def\<close>)
  qed
qed

text \<open>Under one new key the first create is accepted and the others find its row.\<close>

lemma same_key_in_turn:
  assumes at: "ledger_at q p s"
    and row: "record_ok (r i)" "rr_status (r i) = Queued" "rr_response_id (r i) = x" "rid_uuid x \<in> drawn_responses d" "k < 24"
    and new: "map_of (st_idem s) (key_of d k) = None" "map_of (st_records s) x = None" "x \<notin> set (st_queued s)"
    and room: "length q + p < st_pending_limit s" "length (st_records s) < st_max_records s"
  obtains s' where "in_turn (map (\<lambda>i. ledger_create cx (mem_integrity hmac) (r i) (key_of d k)) (i # order)) s =
      (map Inr (Accepted (signed_row cx hmac (r i)) # replicate (length order) (Duplicate (signed_row cx hmac (r i)))), s')"
    "ledger_at (q @ [x]) p s'" "ledger_rest d 1 s s'"
proof -
  obtain s1 where s1: "ledger_create cx (mem_integrity hmac) (r i) (key_of d k) s = (Inr (Accepted (signed_row cx hmac (r i))), s1)"
      "ledger_at (q @ [x]) p s1" "ledger_rest d 1 s s1"
      "map_of (st_records s1) = (map_of (st_records s))(x \<mapsto> signed_row cx hmac (r i))"
      "map_of (st_idem s1) = (map_of (st_idem s))(key_of d k \<mapsto> x)"
    by (rule new_row[OF at row(1-3), of d k cx hmac]) (use assms in simp_all)
  have again: "ledger_create cx (mem_integrity hmac) r' (key_of d k) s1 = (Inr (Duplicate (signed_row cx hmac (r i))), s1)" for r'
    by (rule replayed_row[of _ _ x]) (simp_all add: s1)
  have "in_turn (map (\<lambda>i. ledger_create cx (mem_integrity hmac) (r i) (key_of d k)) order) s1 =
      (map Inr (replicate (length order) (Duplicate (signed_row cx hmac (r i)))), s1)"
    by (induction order) (simp_all add: again)
  then show thesis using s1(1-3) by (intro that[of s1]) simp_all
qed

section \<open>Racing claims and appends\<close>

lemma claimed_simps:
  "List.map_filter id [] = []" "List.map_filter id (None # cs) = List.map_filter id cs"
  "List.map_filter id (Some c # cs) = c # List.map_filter id cs"
  "List.map_filter (\<lambda>x. x) [] = []" "List.map_filter (\<lambda>x. x) (None # cs') = List.map_filter (\<lambda>x. x) cs'"
  "List.map_filter (\<lambda>x. x) (Some c' # cs') = c' # List.map_filter (\<lambda>x. x) cs'"
  by (simp_all add: List.map_filter_simps)

lemma claims_in_turn:
  assumes "ledger_at q p s"
  obtains cs s' where "in_turn (map (\<lambda>i. ledger_claim (a i) now ttl) order) s = (map Inr cs, s')"
    "map (\<lambda>c. rr_response_id (cl_record c)) (List.map_filter id cs) = take (length order) q"
    "list_all (\<lambda>c. rr_attempt (cl_record c) = Attempt 1) (List.map_filter id cs)"
    "ledger_at (drop (length order) q) (p + min (length order) (length q)) s'" "ledger_rest d 0 s s'"
    "dom (map_of (st_records s')) = dom (map_of (st_records s))" "st_idem s' = st_idem s" "set (st_queued s') \<subseteq> set (st_queued s)"
  using assms
proof (induction order arbitrary: q p s thesis)
  case Nil
  then show ?case by (intro Nil(1)[of "[]" s]) (simp_all add: ledger_rest_refl claimed_simps del: List.map_filter_simps)
next
  case (Cons i js)
  show ?case
  proof (cases q)
    case Nil
    have none: "ledger_claim (a i) now ttl s = (Inr None, s\<lparr>st_queued := []\<rparr>)" "ledger_at [] p (s\<lparr>st_queued := []\<rparr>)"
      using claim_nothing[of p s] Cons.prems(2) Nil by simp_all
    have rest: "ledger_rest d 0 s (s\<lparr>st_queued := []\<rparr>)"
      by (rule ledger_restI[where ids = "{}"]) (simp_all add: conv_part_def)
    obtain cs s' where IH: "in_turn (map (\<lambda>i. ledger_claim (a i) now ttl) js) (s\<lparr>st_queued := []\<rparr>) = (map Inr cs, s')"
      "map (\<lambda>c. rr_response_id (cl_record c)) (List.map_filter id cs) = take (length js) []"
      "list_all (\<lambda>c. rr_attempt (cl_record c) = Attempt 1) (List.map_filter id cs)"
      "ledger_at (drop (length js) []) (p + min (length js) (length ([] :: response_id list))) s'" "ledger_rest d 0 (s\<lparr>st_queued := []\<rparr>) s'"
      "dom (map_of (st_records s')) = dom (map_of (st_records (s\<lparr>st_queued := []\<rparr>)))"
      "st_idem s' = st_idem (s\<lparr>st_queued := []\<rparr>)" "set (st_queued s') \<subseteq> set (st_queued (s\<lparr>st_queued := []\<rparr>))"
      by (rule Cons.IH[OF _ none(2)]) (rule that)
    show thesis
      by (rule Cons.prems(1)[of "None # cs" s'])
        (use IH[unfolded id_def] none(1) Nil ledger_rest_trans[OF rest IH(5)] in \<open>simp_all add: claimed_simps del: List.map_filter_simps\<close>)
  next
    case (Cons x q')
    obtain r1 s1 where s1: "ledger_claim (a i) now ttl s =
          (Inr (Some \<lparr>cl_record = claimed_row (a i) r1, cl_exec_deadline_ms = sat_add now ttl\<rparr>), s1)"
        "rr_attempt (claimed_row (a i) r1) = Attempt 1" "rr_response_id (claimed_row (a i) r1) = x"
        "ledger_at q' (Suc p) s1" "ledger_rest d 0 s s1" "map_of (st_records s) x = Some r1"
        "map_of (st_records s1) = (map_of (st_records s))(x \<mapsto> claimed_row (a i) r1)"
        "st_idem s1 = st_idem s" "set (st_queued s1) \<subseteq> set (st_queued s)"
      by (rule first_row_claimed[of x q' p s "a i" now ttl d]) (use Cons.prems(2) Cons in auto)
    have dom: "dom (map_of (st_records s1)) = dom (map_of (st_records s))" using s1(6,7) by auto
    obtain cs s' where IH: "in_turn (map (\<lambda>i. ledger_claim (a i) now ttl) js) s1 = (map Inr cs, s')"
      "map (\<lambda>c. rr_response_id (cl_record c)) (List.map_filter id cs) = take (length js) q'"
      "list_all (\<lambda>c. rr_attempt (cl_record c) = Attempt 1) (List.map_filter id cs)"
      "ledger_at (drop (length js) q') (Suc p + min (length js) (length q')) s'" "ledger_rest d 0 s1 s'"
      "dom (map_of (st_records s')) = dom (map_of (st_records s1))" "st_idem s' = st_idem s1" "set (st_queued s') \<subseteq> set (st_queued s1)"
      by (rule Cons.IH[OF _ s1(4)]) (rule that)
    show thesis
      by (rule Cons.prems(1)[of "Some \<lparr>cl_record = claimed_row (a i) r1, cl_exec_deadline_ms = sat_add now ttl\<rparr> # cs" s'])
        (use IH[unfolded id_def] s1 dom Cons ledger_rest_trans[OF s1(5) IH(5)] in \<open>(simp_all add: claimed_simps del: List.map_filter_simps)?, (blast)?\<close>)
  qed
qed

lemma appends_in_turn:
  assumes "log_at g rid h" "length (el_logs g) + (if map_of (el_logs g) rid = None then 1 else 0) < el_max_logs g"
    and "\<forall>i \<in> set order. append_fence (e i) s = Inr () \<and> ae_response_id (e i) = rid" "order \<noteq> []"
  obtains g' where "in_turn (map (\<lambda>i. event_append (e i) s) order) g =
      (map Inr [length h..<length h + length order], g')" "log_at g' rid (h @ map e order)" "log_rest rid g g'"
  using assms
proof (induction order arbitrary: g h thesis)
  case (Cons i js)
  obtain g1 where g1: "event_append (e i) s g = (Inr (length h), g1)" "log_at g1 rid (h @ [e i])" "log_rest rid g g1"
    by (rule append_open[of g rid h "e i" s]) (use Cons.prems in simp_all)
  show ?case
  proof (cases "js = []")
    case True
    then show thesis using g1 by (intro Cons.prems(1)[of g1]) simp_all
  next
    case False
    have room: "length (el_logs g1) = length (el_logs g) + (if map_of (el_logs g) rid = None then 1 else 0)"
      using g1(3) by (simp add: log_rest_def)
    have known: "map_of (el_logs g1) rid \<noteq> None" "el_max_logs g1 = el_max_logs g" using log_restD(2,4)[OF g1(3)] by simp_all
    have room1: "length (el_logs g1) + (if map_of (el_logs g1) rid = None then 1 else 0) < el_max_logs g1"
      using room known Cons.prems(3) by auto
    obtain g' where IH: "in_turn (map (\<lambda>i. event_append (e i) s) js) g1 =
        (map Inr [length (h @ [e i])..<length (h @ [e i]) + length js], g')" "log_at g' rid ((h @ [e i]) @ map e js)" "log_rest rid g1 g'"
      by (rule Cons.IH[OF _ g1(2) room1], rule that) (use Cons.prems(4) False in simp_all)
    show thesis
      by (rule Cons.prems(1)[of g'])
        (use IH g1 log_rest_trans[OF g1(3) IH(3)] in \<open>simp_all add: upt_conv_Cons[of "length h"] del: upt_Suc\<close>)
  qed
qed simp

end
