(* ===== verification/Contract_Pressure.thy ===== *)
theory Contract_Pressure
  imports Contract_Races
begin

text \<open>
  The contract cases under pressure: the global claim, admission at its limit, output provenance and the
  concurrency case, for every order in which the scheduler runs the racing calls.
\<close>

section \<open>Draining the queue\<close>

lemma lg_claim_mem: "lg_claim (mem_ledger cx ig) a t ttl = on_store (ledger_claim a t ttl)"
  by (simp add: fun_eq_iff mem_ledger_ops)

lemma lg_create_mem: "lg_create (mem_ledger cx ig) r key t = on_store (ledger_create cx ig r key)"
  by (simp add: fun_eq_iff mem_ledger_ops)

lemma ledger_rest_same:
  assumes "ledger_rest d 0 s s1" "ledger_rest d 0 s1 s2"
  shows "ledger_rest d 0 s s2"
  using ledger_rest_trans[OF assms] by simp

text \<open>The loop ends: it completes every queued row and leaves an empty queue.\<close>

lemma drained:
  assumes "ledger_at q p (w_store w)"
  obtains s' where "drain_claims (mem_ledger cx ig) agents i w = Some (w\<lparr>w_store := s'\<rparr>)"
    "ledger_at [] p s'" "ledger_rest d 0 (w_store w) s'" "st_queued s' = []"
    "dom (map_of (st_records s')) = dom (map_of (st_records (w_store w)))" "st_idem s' = st_idem (w_store w)"
  using assms
proof (induction q arbitrary: w i thesis)
  case Nil
  let ?s = "w_store w\<lparr>st_queued := []\<rparr>"
  have none: "ledger_claim (agents i) 1000 30000 (w_store w) = (Inr None, ?s)" "ledger_at [] p ?s"
    by (rule claim_nothing[OF Nil(2)])+
  have "drain_claims (mem_ledger cx ig) agents i w = Some (w\<lparr>w_store := ?s\<rparr>)"
    using none(1) by (subst drain_claims.simps) (simp add: mem_port_simps)
  moreover have "ledger_rest d 0 (w_store w) ?s"
    by (rule ledger_restI[where ids = "{}"]) (simp_all add: conv_part_def)
  ultimately show ?case by (intro Nil(1)[of ?s]) (simp_all add: none(2))
next
  case (Cons x q)
  obtain r s1 where s1: "map_of (st_records (w_store w)) x = Some r"
      "ledger_claim (agents i) 1000 30000 (w_store w) =
        (Inr (Some \<lparr>cl_record = claimed_row (agents i) r, cl_exec_deadline_ms = sat_add 1000 30000\<rparr>), s1)"
      "rr_response_id (claimed_row (agents i) r) = x" "rr_status (claimed_row (agents i) r) = InProgress"
      "ledger_at q (Suc p) s1" "ledger_rest d 0 (w_store w) s1"
      "map_of (st_records s1) = (map_of (st_records (w_store w)))(x \<mapsto> claimed_row (agents i) r)"
      "st_idem s1 = st_idem (w_store w)"
    by (rule first_row_claimed[OF Cons.prems(2), of "agents i" 1000 30000 d])
  define c where "c = claimed_row (agents i) r"
  have row: "map_of (st_records s1) x = Some c" "rr_status c = InProgress" using s1(4,7) by (simp_all add: c_def)
  obtain s2 where s2: "ledger_complete x (rr_attempt c) Completed Usage_default 1000 s1 = (Inr (), s2)"
      "ledger_at q (Suc p - 1) s2"
      "map_of (st_records s2) = (map_of (st_records s1))(x \<mapsto> c\<lparr>rr_status := Completed, rr_owner := None,
        rr_usage := Usage_default, rr_completed_at_ms := Some 1000\<rparr>)"
      "ledger_rest d 0 s1 s2" "st_idem s2 = st_idem s1"
    by (rule running_row_completed[OF s1(5) row, where st = Completed and u = Usage_default and now = 1000 and d = d]) simp_all
  have at: "ledger_at q p (w_store (w\<lparr>w_store := s2\<rparr>))" using s2(2) by simp
  obtain s' where IH: "drain_claims (mem_ledger cx ig) agents (Suc i) (w\<lparr>w_store := s2\<rparr>) = Some (w\<lparr>w_store := s2, w_store := s'\<rparr>)"
      "ledger_at [] p s'" "ledger_rest d 0 (w_store (w\<lparr>w_store := s2\<rparr>)) s'" "st_queued s' = []"
      "dom (map_of (st_records s')) = dom (map_of (st_records (w_store (w\<lparr>w_store := s2\<rparr>))))"
      "st_idem s' = st_idem (w_store (w\<lparr>w_store := s2\<rparr>))"
    by (rule Cons.IH[OF _ at]) (rule that)
  have "drain_claims (mem_ledger cx ig) agents i w = Some (w\<lparr>w_store := s'\<rparr>)"
    using s1(2,3) s2(1) IH(1) by (subst drain_claims.simps) (simp add: mem_port_simps c_def)
  moreover have "ledger_rest d 0 (w_store w) s'"
    using ledger_rest_same[OF ledger_rest_same[OF s1(6) s2(4)]] IH(3) by simp
  moreover have "dom (map_of (st_records s')) = dom (map_of (st_records (w_store w)))"
    using IH(5) s1(1,7) s2(3) by auto
  ultimately show ?case using IH(2,4,6) s1(8) s2(5) by (intro Cons.prems(1)[of s']) simp_all
qed

section \<open>Global claim\<close>

lemma domain_none: "dom m = dom m' \<Longrightarrow> m x = None \<longleftrightarrow> m' x = None"
  by (metis domIff)

lemma global_claim_case:
  assumes doc: "codec_documented cx" "draws_ok cx d" and r: "ready (n + 60) q p w" and u: "unused d w"
  shows "case_passes d n [] p w (assert_global_claim (mem_ports cx hmac) d w)"
proof -
  note R = readyD[OF r] and new = drawn_new[OF u] and key = fresh_key_eq[OF doc]
  define mine where "mine = new_id (mem_ports cx hmac) d 1"
  define other where "other = ResponseId (NodeTag ''node-zz'') (dr_response d 0)"
  define t where "t = tenant_of d 0 ''global-claim''"
  define f where "f = test_record d other None t True Queued"
  define m where "m = test_record d mine None t True Queued"
  have f: "record_ok f" "rr_status f = Queued" "rr_response_id f = other" by (simp_all add: f_def)
  have m: "record_ok m" "rr_status m = Queued" "rr_response_id m = mine" by (simp_all add: m_def)
  have ids: "mine \<noteq> other" by (simp add: mine_def other_def new_id_mem)
  have other: "map_of (st_records (w_store w)) other = None" "rid_uuid other \<in> drawn_responses d"
    using unusedD(1)[OF u, of 0 "NodeTag ''node-zz''"] drawn_in(1)[of 0 d] by (simp_all add: other_def)
  have mine: "map_of (st_records (w_store w)) mine = None" "rid_uuid mine \<in> drawn_responses d"
    using new(1,6)[of 1 "mem_ports cx hmac"] by (simp_all add: mine_def)
  obtain s0 where s0: "drain_claims (mem_ledger cx (mem_integrity hmac)) (agent d) 2 w = Some (w\<lparr>w_store := s0\<rparr>)"
      "ledger_at [] p s0" "ledger_rest d 0 (w_store w) s0" "st_queued s0 = []"
      "dom (map_of (st_records s0)) = dom (map_of (st_records (w_store w)))" "st_idem s0 = st_idem (w_store w)"
    by (rule drained[OF R(1)])
  note L0 = ledger_rest_limits[OF s0(3)] and D0 = domain_none[OF s0(5)]
  obtain s1 where s1: "ledger_create cx (mem_integrity hmac) f (key_of d 0) s0 = (Inr (Accepted (signed_row cx hmac f)), s1)"
      "ledger_at ([] @ [other]) p s1" "ledger_rest d 1 s0 s1"
      "map_of (st_records s1) = (map_of (st_records s0))(other \<mapsto> signed_row cx hmac f)"
      "map_of (st_idem s1) = (map_of (st_idem s0))(key_of d 0 \<mapsto> other)" "st_queued s1 = st_queued s0 @ [other]"
    by (rule new_row[OF s0(2) f, of d 0 cx hmac]) (use new other D0 s0(4,6) L0 R in simp_all)
  note L1 = ledger_rest_limits[OF s1(3)]
  obtain s2 where s2: "ledger_create cx (mem_integrity hmac) m (key_of d 1) s1 = (Inr (Accepted (signed_row cx hmac m)), s2)"
      "ledger_at ([other] @ [mine]) p s2" "ledger_rest d 1 s1 s2"
    by (rule new_row[OF s1(2)[unfolded append_Nil] m, of d 1 cx hmac])
      (use new mine D0 s0(4,6) s1(4-6) L0 L1 R ids key_of_inj[OF doc] in simp_all)
  obtain r1 s3 where s3: "ledger_claim (agent d 0) 2000 30000 s2 =
        (Inr (Some \<lparr>cl_record = claimed_row (agent d 0) r1, cl_exec_deadline_ms = sat_add 2000 30000\<rparr>), s3)"
      "rr_attempt (claimed_row (agent d 0) r1) = Attempt 1" "rr_response_id (claimed_row (agent d 0) r1) = other"
      "rr_status (claimed_row (agent d 0) r1) = InProgress" "ledger_at [mine] (Suc p) s3" "ledger_rest d 0 s2 s3"
      "map_of (st_records s3) = (map_of (st_records s2))(other \<mapsto> claimed_row (agent d 0) r1)"
    by (rule first_row_claimed[OF s2(2)[unfolded append_Cons append_Nil], of "agent d 0" 2000 30000])
  define c1 where "c1 = claimed_row (agent d 0) r1"
  obtain r2 s4 where s4: "ledger_claim (agent d 1) 2100 30000 s3 =
        (Inr (Some \<lparr>cl_record = claimed_row (agent d 1) r2, cl_exec_deadline_ms = sat_add 2100 30000\<rparr>), s4)"
      "rr_attempt (claimed_row (agent d 1) r2) = Attempt 1" "rr_response_id (claimed_row (agent d 1) r2) = mine"
      "rr_status (claimed_row (agent d 1) r2) = InProgress" "ledger_at [] (Suc (Suc p)) s4" "ledger_rest d 0 s3 s4"
      "map_of (st_records s4) = (map_of (st_records s3))(mine \<mapsto> claimed_row (agent d 1) r2)"
    by (rule first_row_claimed[OF s3(5), of "agent d 1" 2100 30000])
  define c2 where "c2 = claimed_row (agent d 1) r2"
  have rows: "map_of (st_records s4) other = Some c1" "rr_status c1 = InProgress" "rr_attempt c1 = Attempt 1"
      "rr_response_id c1 = other" "rr_status c2 = InProgress" "rr_attempt c2 = Attempt 1" "rr_response_id c2 = mine"
    using s3 s4 ids by (simp_all add: c1_def c2_def)
  obtain s5 where s5: "ledger_complete other (Attempt 1) Completed Usage_default 2200 s4 = (Inr (), s5)" "ledger_at [] (Suc p) s5"
      "map_of (st_records s5) = (map_of (st_records s4))(other \<mapsto> c1\<lparr>rr_status := Completed, rr_owner := None,
        rr_usage := Usage_default, rr_completed_at_ms := Some 2200\<rparr>)" "ledger_rest d 0 s4 s5"
    by (rule running_row_completed[OF s4(5) rows(1,2), where st = Completed and u = Usage_default and now = 2200 and d = d])
      (simp_all add: rows)
  have row2: "map_of (st_records s5) mine = Some c2" using s4(7) s5(3) ids by (simp add: c2_def)
  obtain s6 where s6: "ledger_complete mine (Attempt 1) Completed Usage_default 2200 s5 = (Inr (), s6)" "ledger_at [] p s6"
      "ledger_rest d 0 s5 s6"
    by (rule running_row_completed[OF s5(2) row2 rows(5), where st = Completed and u = Usage_default and now = 2200 and d = d])
      (simp_all add: rows)
  have tag: "the_ok (NodeTag_parse ''node-zz'') = Some (NodeTag ''node-zz'')"
    by (simp add: NodeTag_parse_def the_ok_def NodeTag_MAX_LEN_def node_tag_char_def byte_class_defs)
  have rest: "ledger_rest d 2 (w_store w) s6"
    using ledger_rest_trans[OF ledger_rest_trans[OF ledger_rest_trans[OF ledger_rest_trans[OF ledger_rest_trans[OF
      ledger_rest_trans[OF s0(3) s1(3)] s2(3)] s3(6)] s4(6)] s5(4)] s6(3)] by (simp add: numeral_2_eq_2)
  show ?thesis
  proof (rule case_passesI)
    show "assert_global_claim (mem_ports cx hmac) d w = Some (w\<lparr>w_store := s6\<rparr>)"
      using s0(1) s1(1) s2(1) s3(1) s4(1) s5(1) s6(1) rows tag
      by (simp add: assert_global_claim_def mem_port_simps key fresh_tenant_eq[OF doc(2) label_okI] other_def[symmetric]
          mine_def[symmetric] t_def[symmetric] f_def[symmetric] m_def[symmetric] c1_def[symmetric] c2_def[symmetric]
          del: One_nat_def)
    show "ready n [] p (w\<lparr>w_store := s6\<rparr>)" "grows d w (w\<lparr>w_store := s6\<rparr>)"
      using ledger_case[OF r rest s6(2), of n] by simp_all
  qed
qed

section \<open>Groups of calls\<close>

text \<open>A group of creates, claims or appends that succeed one by one returns their results in some order.\<close>

lemma racing_creates_mem:
  assumes order: "schedule n order"
    and run: "in_turn (map (\<lambda>i. ledger_create cx ig (test_record d (new_id ports d (ids i)) None tenant True Queued) (keys i)) order)
      (w_store w) = (map Inr ys, s')"
    and ports: "ps_ledger ports = mem_ledger cx ig"
  obtains zs where "racing_creates ports d tenant ids keys n order w = Some (zs, w\<lparr>w_store := s'\<rparr>)" "mset zs = mset ys"
proof -
  let ?f = "\<lambda>i. lg_create (ps_ledger ports) (test_record d (new_id ports d (ids i)) None tenant True Queued) (keys i) 2000"
  have "in_turn (map ((!) (map ?f [0..<n])) order) w = (map Inr ys, w\<lparr>w_store := s'\<rparr>)"
    by (simp add: schedule_calls[OF order] ports lg_create_mem in_turn_on_store run)
  from racers_ok[OF order _ this] obtain zs where
    "racers (map ?f [0..<n]) order w = Some (map Inr zs, w\<lparr>w_store := s'\<rparr>)" "all_ok (map Inr zs :: (ledger_error + create_outcome) list) = Some zs"
    "mset zs = mset ys" by auto
  then show thesis by (intro that[of zs]) (simp_all add: racing_creates_def)
qed

lemma racing_claims_mem:
  assumes order: "schedule n order"
    and run: "in_turn (map (\<lambda>i. ledger_claim (agent d i) t 30000) order) (w_store w) = (map Inr ys, s')"
    and ports: "ps_ledger ports = mem_ledger cx ig"
  obtains zs where "racing_claims ports d t n order w = Some (zs, w\<lparr>w_store := s'\<rparr>)" "mset zs = mset ys"
proof -
  let ?f = "\<lambda>i. lg_claim (ps_ledger ports) (agent d i) t 30000"
  have "in_turn (map ((!) (map ?f [0..<n])) order) w = (map Inr ys, w\<lparr>w_store := s'\<rparr>)"
    by (simp add: schedule_calls[OF order] ports lg_claim_mem in_turn_on_store run)
  from racers_ok[OF order _ this] obtain zs where
    "racers (map ?f [0..<n]) order w = Some (map Inr zs, w\<lparr>w_store := s'\<rparr>)" "all_ok (map Inr zs :: (ledger_error + claimed_response option) list) = Some zs"
    "mset zs = mset ys" by auto
  then show thesis by (intro that[of zs]) (simp_all add: racing_claims_def)
qed

lemma lo_append_mem: "lo_append mem_event_log e = (\<lambda>w. on_log (event_append e (w_store w)) w)"
  by (simp add: fun_eq_iff mem_event_log_ops)

lemma racing_appends_mem:
  assumes order: "schedule n order" "0 < n" and log: "log_at (w_log w) rid []" "map_of (el_logs (w_log w)) rid = None"
    and room: "Suc (length (el_logs (w_log w))) < el_max_logs (w_log w)" "\<not> st_read_only (w_store w)"
    and ports: "ps_event_log ports = mem_event_log"
  obtains zs g h where "racing_appends ports rid c n order w = Some (zs, w\<lparr>w_log := g\<rparr>)" "mset zs = mset [0..<n]"
    "log_at g rid h" "length h = n" "log_rest rid (w_log w) g"
proof -
  let ?e = "\<lambda>i. test_event rid EvOutputTextDelta (c # dec i)"
  let ?f = "\<lambda>i. lo_append (ps_event_log ports) (?e i)"
  have n: "length order = n" using order distinct_card[of order] by (simp add: schedule_def)
  obtain g where g: "in_turn (map (\<lambda>i. event_append (?e i) (w_store w)) order) (w_log w) =
      (map Inr [length ([] :: append_event list)..<length ([] :: append_event list) + length order], g)"
    "log_at g rid ([] @ map ?e order)" "log_rest rid (w_log w) g"
    by (rule appends_in_turn[OF log(1), of order ?e "w_store w"])
      (use log room n order(2) in \<open>auto simp: open_fence\<close>)
  have "in_turn (map ((!) (map ?f [0..<n])) order) w = (map Inr [0..<n], w\<lparr>w_log := g\<rparr>)"
    by (simp add: schedule_calls[OF order(1)] ports lo_append_mem in_turn_appends g(1) n)
  from racers_ok[OF order(1) _ this] obtain zs where
    "racers (map ?f [0..<n]) order w = Some (map Inr zs, w\<lparr>w_log := g\<rparr>)" "all_ok (map Inr zs :: (event_log_error + nat) list) = Some zs"
    "mset zs = mset [0..<n]" by auto
  then show thesis using g(2,3) n by (intro that[of zs g "map ?e order"]) (simp_all add: racing_appends_def)
qed

text \<open>What the verdicts and claims say does not depend on the order of the results.\<close>

lemma accepted_ids_filter:
  "accepted_ids os = map (\<lambda>oc. rr_response_id (the (outcome_record oc))) (filter accepted_outcome os)"
  by (induction os rule: accepted_ids.induct) (simp_all add: accepted_outcome_def)

lemma duplicate_ids_filter:
  "duplicate_ids os = map (\<lambda>oc. rr_response_id (the (outcome_record oc))) (filter duplicate_outcome os)"
  by (induction os rule: duplicate_ids.induct) (simp_all add: duplicate_outcome_def)

lemma verdicts_mset:
  assumes "mset xs = mset ys"
  shows "mset (accepted_ids xs) = mset (accepted_ids ys)" "mset (duplicate_ids xs) = mset (duplicate_ids ys)"
    "length (filter P xs) = length (filter P ys)" "set xs = set ys"
  using assms mset_eq_setD[OF assms] by (simp_all add: accepted_ids_filter duplicate_ids_filter flip: size_mset)

lemma claims_filter: "List.map_filter id cs = map the (filter (\<lambda>c. c \<noteq> None) cs)"
  unfolding map_filter_def by simp

lemma claims_mset:
  assumes "mset xs = mset ys"
  shows "mset (List.map_filter id xs) = mset (List.map_filter id ys)"
  unfolding claims_filter using assms by simp

text \<open>Printed ids tell the rows apart, so the claims of a queue are distinct.\<close>

lemma display_inj:
  assumes "codec_documented cx"
  shows "ResponseId_display (cx_uuid_fmt cx) a = ResponseId_display (cx_uuid_fmt cx) b \<longleftrightarrow> a = b"
proof
  assume "ResponseId_display (cx_uuid_fmt cx) a = ResponseId_display (cx_uuid_fmt cx) b"
  then have "(nt_str (rid_node a) @ ''_'') @ cx_uuid_fmt cx (rid_uuid a) = (nt_str (rid_node b) @ ''_'') @ cx_uuid_fmt cx (rid_uuid b)"
    by (simp add: ResponseId_display_def)
  then have "nt_str (rid_node a) @ ''_'' = nt_str (rid_node b) @ ''_'' \<and> cx_uuid_fmt cx (rid_uuid a) = cx_uuid_fmt cx (rid_uuid b)"
    by (rule append_eq_append_conv[THEN iffD1, rotated]) (simp add: codecD(2)[OF assms])
  then show "a = b"
    using injD[OF codecD(1)[OF assms]] by (cases a; cases b) (simp add: node_tag.expand)
qed simp

lemma claimed_once:
  assumes doc: "codec_documented cx" "dr_codec d = cx" and cs: "mset cs = mset ys" and q: "distinct q"
    and ids: "map (\<lambda>c. rr_response_id (cl_record c)) (List.map_filter id ys) = q"
  shows "distinct (claimed_ids d cs)" "length (claimed_ids d cs) = length q"
    "rid \<in> set q \<Longrightarrow> length (filter (\<lambda>c. c = ResponseId_display (cx_uuid_fmt cx) rid) (claimed_ids d cs)) = 1"
proof -
  let ?show = "ResponseId_display (cx_uuid_fmt cx)"
  have "mset (claimed_ids d cs) = mset (map ?show (map (\<lambda>c. rr_response_id (cl_record c)) (List.map_filter id ys)))"
    unfolding claimed_ids_def doc(2) mset_map claims_mset[OF cs] by (simp add: multiset.map_comp comp_def)
  then have m: "mset (claimed_ids d cs) = mset (map ?show q)" unfolding ids .
  have "inj_on ?show (set q)" using display_inj[OF doc(1)] by (simp add: inj_on_def)
  then have dq: "distinct (map ?show q)" using q by (simp add: distinct_map)
  then show "distinct (claimed_ids d cs)" using mset_eq_imp_distinct_iff[OF m] by simp
  show "length (claimed_ids d cs) = length q" using mset_eq_length[OF m] by simp
  show "length (filter (\<lambda>c. c = ?show rid) (claimed_ids d cs)) = 1" if "rid \<in> set q"
  proof -
    have "length (filter (\<lambda>c. c = ?show rid) (claimed_ids d cs)) = count (mset (claimed_ids d cs)) (?show rid)"
      by (simp add: count_mset count_list_eq_length_filter) (metis (mono_tags, lifting))
    also have "\<dots> = 1" unfolding m using distinct_count_atmost_1[of "map ?show q"] dq that by auto
    finally show ?thesis .
  qed
qed

lemma all_readable_mem:
  assumes "\<forall>x \<in> set xs. map_of (st_records (w_store w)) x \<noteq> None"
  shows "all_readable (mem_ledger cx ig) xs w = Some w"
  using assms by (induction xs) (auto simp: mem_port_simps ledger_get_def)

section \<open>Admission under pressure\<close>

lemma ledger_rest_limit:
  assumes "ledger_rest d k (s\<lparr>st_pending_limit := a\<rparr>) s'"
  shows "ledger_rest d k s (s'\<lparr>st_pending_limit := st_pending_limit s\<rparr>)"
proof -
  have c: "conv_part (x\<lparr>st_pending_limit := b\<rparr>) = conv_part x\<lparr>st_pending_limit := b\<rparr>" for x :: mem_store and b
    by (simp add: conv_part_def)
  have "conv_part s' = conv_part s\<lparr>st_pending_limit := a\<rparr>" using assms by (simp add: ledger_rest_def c)
  then have "conv_part (s'\<lparr>st_pending_limit := st_pending_limit s\<rparr>) = conv_part s" unfolding c by (simp add: conv_part_def)
  then show ?thesis using assms by (simp add: ledger_rest_def row_ids_def row_keys_def)
qed

lemma drawn_keys_list:
  assumes "codec_documented cx" "draws_ok cx d"
  shows "those (map (fresh_key d) xs) = Some (map (key_of d) xs)"
proof -
  have "map (fresh_key d) xs = map Some (map (key_of d) xs)" using fresh_key_eq[OF assms] by simp
  then show ?thesis by (simp only: those_map_Some)
qed

text \<open>
  With \<open>p\<close> rows in progress the 24 racing creates fill what is left of the limit of three, whichever come
  first.
\<close>

lemma overload_admissions:
  fixes cx hmac
  defines "ports \<equiv> mem_ports cx hmac"
  assumes doc: "codec_documented cx" "draws_ok cx d" and r: "ready (n + 60) q p w" and u: "unused d w"
    and order: "schedule 24 (dr_order d 0)"
  obtains s0 os q2 s2 where
    "drain_claims (mem_ledger cx (mem_integrity hmac)) (agent d) 24 w = Some (w\<lparr>w_store := s0\<rparr>)"
    "ledger_rest d 0 (w_store w) s0"
    "racing_creates ports d t id ((!) (map (key_of d) [0..<24])) 24 (dr_order d 0)
      (w\<lparr>w_store := s0\<lparr>st_pending_limit := 3\<rparr>\<rparr>) = Some (os, w\<lparr>w_store := s2\<rparr>)"
    "list_all (\<lambda>oc. accepted_outcome oc \<or> oc = Overloaded) os" "length (accepted_ids os) = 3 - p"
    "length (filter (\<lambda>oc. oc = Overloaded) os) = 24 - (3 - p)" "ledger_at q2 p s2" "length q2 = 3 - p"
    "\<forall>x \<in> set (accepted_ids os). map_of (st_records s2) x \<noteq> None \<and> (\<exists>i < 24. x = new_id ports d i)"
    "ledger_rest d (3 - p) (s0\<lparr>st_pending_limit := 3\<rparr>) s2"
proof -
  note R = readyD[OF r] and new = drawn_new[OF u]
  define row where "row i = test_record d (new_id ports d i) None t True Queued" for i
  have o: "distinct (dr_order d 0)" "set (dr_order d 0) = {..<24}" using order by (simp_all add: schedule_def)
  have len: "length (dr_order d 0) = 24" using distinct_card[OF o(1)] o(2) by simp
  obtain s0 where s0: "drain_claims (mem_ledger cx (mem_integrity hmac)) (agent d) 24 w = Some (w\<lparr>w_store := s0\<rparr>)"
      "ledger_at [] p s0" "ledger_rest d 0 (w_store w) s0" "st_queued s0 = []"
      "dom (map_of (st_records s0)) = dom (map_of (st_records (w_store w)))" "st_idem s0 = st_idem (w_store w)"
    by (rule drained[OF R(1)])
  note L0 = ledger_rest_limits[OF s0(3)] and D0 = domain_none[OF s0(5)]
  define s1 where "s1 = s0\<lparr>st_pending_limit := 3\<rparr>"
  have s1: "ledger_at [] p s1" "st_pending_limit s1 = 3" "st_records s1 = st_records s0" "st_idem s1 = st_idem s0"
      "st_queued s1 = st_queued s0" "st_max_records s1 = st_max_records s0"
    using s0(2) by (simp_all add: s1_def ledger_at_frame)
  obtain k s2 where s2: "k = min (length (dr_order d 0)) (st_pending_limit s1 - (length ([] :: response_id list) + p))"
    "in_turn (map (\<lambda>i. ledger_create cx (mem_integrity hmac) (row i) (key_of d i)) (dr_order d 0)) s1 =
      (map Inr (map (\<lambda>i. Accepted (signed_row cx hmac (row i))) (take k (dr_order d 0)) @ refusals (length (dr_order d 0) - k)), s2)"
    "ledger_at ([] @ map (new_id ports d) (take k (dr_order d 0))) p s2" "ledger_rest d k s1 s2"
    "\<forall>i \<in> set (take k (dr_order d 0)). map_of (st_records s2) (new_id ports d i) \<noteq> None"
  proof (rule creates_in_turn[OF s1(1), of "dr_order d 0" row "new_id ports d" d cx hmac])
    show "\<forall>i \<in> set (dr_order d 0). record_ok (row i) \<and> rr_status (row i) = Queued \<and> rr_response_id (row i) = new_id ports d i \<and>
        rid_uuid (new_id ports d i) \<in> drawn_responses d \<and> i < 24"
      using new(6) o(2) by (simp add: row_def del: new_id_uuid)
    show "\<forall>i \<in> set (dr_order d 0). map_of (st_idem s1) (key_of d i) = None \<and> map_of (st_records s1) (new_id ports d i) = None \<and>
        new_id ports d i \<notin> set (st_queued s1)"
      using new(1,4) o(2) D0 s0(4,6) by (simp add: s1)
    show "inj_on (key_of d) (set (dr_order d 0))" using key_of_inj[OF doc] by (simp add: o(2) inj_on_def)
    show "inj_on (new_id ports d) (set (dr_order d 0))" using doc(2) by (simp add: o(2) inj_on_def)
    show "length (st_records s1) + length (dr_order d 0) \<le> st_max_records s1" using R L0 len by (simp add: s1)
  qed (use o that in auto)
  have k: "k = 3 - p" using s2(1) len by (simp add: s1)
  have calls: "map (\<lambda>i. ledger_create cx (mem_integrity hmac) (test_record d (new_id ports d (id i)) None t True Queued)
        (map (key_of d) [0..<24] ! i)) (dr_order d 0) =
      map (\<lambda>i. ledger_create cx (mem_integrity hmac) (row i) (key_of d i)) (dr_order d 0)"
    using o(2) by (simp add: row_def)
  let ?ys = "map (\<lambda>i. Accepted (signed_row cx hmac (row i))) (take k (dr_order d 0)) @ refusals (length (dr_order d 0) - k)"
  obtain os where os: "racing_creates ports d t id ((!) (map (key_of d) [0..<24])) 24 (dr_order d 0) (w\<lparr>w_store := s1\<rparr>) =
      Some (os, w\<lparr>w_store := s1, w_store := s2\<rparr>)" "mset os = mset ?ys"
  proof (rule racing_creates_mem[OF order])
    show "in_turn (map (\<lambda>i. ledger_create cx (mem_integrity hmac) (test_record d (new_id ports d (id i)) None t True Queued)
        (map (key_of d) [0..<24] ! i)) (dr_order d 0)) (w_store (w\<lparr>w_store := s1\<rparr>)) = (map Inr ?ys, s2)"
      unfolding calls using s2(2) by simp
    show "ps_ledger ports = mem_ledger cx (mem_integrity hmac)" by (simp add: ports_def)
  qed (rule that)
  note V = verdicts_mset[OF os(2)]
  have acc: "accepted_ids ?ys = map (new_id ports d) (take k (dr_order d 0))"
    by (simp add: accepted_ids_filter refusals_def accepted_outcome_def row_def comp_def)
  have a: "length (accepted_ids os) = 3 - p"
    using mset_eq_length[OF V(1), unfolded acc] len k by simp
  have ids: "set (accepted_ids os) = new_id ports d ` set (take k (dr_order d 0))"
    using mset_eq_setD[OF V(1), unfolded acc] by simp
  show thesis
  proof (rule that[OF s0(1,3) _ _ a])
    show "racing_creates ports d t id ((!) (map (key_of d) [0..<24])) 24 (dr_order d 0)
        (w\<lparr>w_store := s0\<lparr>st_pending_limit := 3\<rparr>\<rparr>) = Some (os, w\<lparr>w_store := s2\<rparr>)"
      using os(1) by (simp add: s1_def del: upt_rec_numeral)
    show "list_all (\<lambda>oc. accepted_outcome oc \<or> oc = Overloaded) os"
      unfolding list_all_iff V(4) by (auto simp: refusals_def accepted_outcome_def)
    show "length (filter (\<lambda>oc. oc = Overloaded) os) = 24 - (3 - p)"
      unfolding V(3) using len k by (simp add: refusals_def)
    show "ledger_at (map (new_id ports d) (take k (dr_order d 0))) p s2" using s2(3) by simp
    show "\<forall>x \<in> set (accepted_ids os). map_of (st_records s2) x \<noteq> None \<and> (\<exists>i < 24. x = new_id ports d i)"
      using s2(5) o(2) set_take_subset[of k "dr_order d 0"] by (auto simp: ids)
    show "ledger_rest d (3 - p) (s0\<lparr>st_pending_limit := 3\<rparr>) s2" using s2(4) by (simp add: k s1_def)
  qed (use len k in simp)
qed

lemma pending_limit_set: "set_pending_limit n s = s\<lparr>st_pending_limit := max n 1\<rparr>"
  by (simp add: set_pending_limit_def)

lemma overload_case:
  assumes doc: "codec_documented cx" "draws_ok cx d" and r: "ready (n + 60) q 0 w" and u: "unused d w"
    and order: "schedule 24 (dr_order d 0)" "schedule 24 (dr_order d 1)" "schedule 8 (dr_order d 2)"
  shows "case_passes d n [] 3 w (assert_overload_integrity (mem_ports cx hmac) d w)"
proof -
  define ports where "ports = mem_ports cx hmac"
  define t where "t = tenant_of d 0 ''overload''"
  note R = readyD[OF r] and new = drawn_new[OF u]
  have cx: "dr_codec d = cx" using doc(2) by (simp add: draws_ok_def)
  obtain s0 os q2 s2 where A:
      "drain_claims (mem_ledger cx (mem_integrity hmac)) (agent d) 24 w = Some (w\<lparr>w_store := s0\<rparr>)"
      "ledger_rest d 0 (w_store w) s0"
      "racing_creates ports d t id ((!) (map (key_of d) [0..<24])) 24 (dr_order d 0)
        (w\<lparr>w_store := s0\<lparr>st_pending_limit := 3\<rparr>\<rparr>) = Some (os, w\<lparr>w_store := s2\<rparr>)"
      "list_all (\<lambda>oc. accepted_outcome oc \<or> oc = Overloaded) os" "length (accepted_ids os) = 3 - 0"
      "length (filter (\<lambda>oc. oc = Overloaded) os) = 24 - (3 - 0)" "ledger_at q2 0 s2" "length q2 = 3 - 0"
      "\<forall>x \<in> set (accepted_ids os). map_of (st_records s2) x \<noteq> None \<and> (\<exists>i < 24. x = new_id ports d i)"
      "ledger_rest d (3 - 0) (s0\<lparr>st_pending_limit := 3\<rparr>) s2"
    unfolding ports_def by (rule overload_admissions[OF doc r u order(1)])
  obtain a as where acc: "accepted_ids os = a # as" "length as = 2" using A(5) by (cases "accepted_ids os") auto
  obtain i where a: "i < 24" "a = new_id ports d i" using A(9) acc(1) by auto
  have readable: "all_readable (mem_ledger cx (mem_integrity hmac)) (a # as) (w\<lparr>w_store := s2\<rparr>) = Some (w\<lparr>w_store := s2\<rparr>)"
    by (rule all_readable_mem) (use A(9) acc(1) in auto)
  have o1: "length (dr_order d 1) = 24" using order(2) distinct_card[of "dr_order d 1"] by (simp add: schedule_def)
  obtain cs s3 where C: "in_turn (map (\<lambda>i. ledger_claim (agent d i) 2100 30000) (dr_order d 1)) s2 = (map Inr cs, s3)"
      "map (\<lambda>c. rr_response_id (cl_record c)) (List.map_filter id cs) = take (length (dr_order d 1)) q2"
      "ledger_at (drop (length (dr_order d 1)) q2) (0 + min (length (dr_order d 1)) (length q2)) s3" "ledger_rest d 0 s2 s3"
    by (rule claims_in_turn[OF A(7), of "agent d" 2100 30000 "dr_order d 1" d])
  obtain zs where Z: "racing_claims ports d 2100 24 (dr_order d 1) (w\<lparr>w_store := s2\<rparr>) = Some (zs, w\<lparr>w_store := s2, w_store := s3\<rparr>)"
      "mset zs = mset cs"
    by (rule racing_claims_mem[OF order(2), of d 2100 "w\<lparr>w_store := s2\<rparr>" cs s3 ports cx "mem_integrity hmac"])
      (use C(1) in \<open>simp_all add: ports_def\<close>)
  have q2: "distinct q2" using ledger_atD(3,4)[OF A(7)] by (auto simp: queued_rows_def)
  have once: "distinct (claimed_ids d zs)" "length (claimed_ids d zs) = 3"
    using claimed_once[OF doc(1) cx Z(2) q2] C(2) o1 A(8) by simp_all
  have none: "map_of (el_logs (w_log w)) a = None" using new(3)[OF a(1), of ports] by (simp add: a(2))
  obtain ns g h where N: "racing_appends ports a (CHR ''p'') 8 (dr_order d 2) (w\<lparr>w_store := s3\<rparr>) =
        Some (ns, w\<lparr>w_store := s3, w_log := g\<rparr>)" "mset ns = mset [0..<8]" "log_at g a h" "length h = 8"
      "log_rest a (w_log (w\<lparr>w_store := s3\<rparr>)) g"
    by (rule racing_appends_mem[OF order(3), of "w\<lparr>w_store := s3\<rparr>" a ports "CHR ''p''"])
      (use none R ledger_atD(2)[OF C(3)] in \<open>simp_all add: log_at_def ports_def mem_ports_fields\<close>)
  have sorted: "sort ns = [0..<8]" using N(2) by (intro properties_for_sort) simp_all
  define s4 where "s4 = s3\<lparr>st_pending_limit := st_pending_limit (w_store w)\<rparr>"
  note L0 = ledger_rest_limits[OF A(2)]
  have "ledger_rest d 3 (s0\<lparr>st_pending_limit := 3\<rparr>) s3" using ledger_rest_trans[OF A(10) C(4)] by simp
  from ledger_rest_limit[OF this] have rest: "ledger_rest d 3 (w_store w) s4"
    using ledger_rest_trans[OF A(2), of 3 s4] L0 by (simp add: s4_def)
  have at: "ledger_at [] 3 s4" using C(3) o1 A(8) by (simp add: s4_def ledger_at_frame)
  note LC = ledger_case[OF r rest at, of "n + 1"]
  note G = log_restD[OF N(5)]
  show ?thesis
  proof (rule case_passesI)
    show "assert_overload_integrity (mem_ports cx hmac) d w = Some (w\<lparr>w_store := s4, w_log := g\<rparr>)"
      using A(1,3,4,6) readable Z(1) once N(1) sorted acc R(2)
      by (simp add: assert_overload_integrity_def mem_port_simps ports_def fresh_tenant_eq[OF doc(2) label_okI]
          t_def[symmetric] pending_limit_set drawn_keys_list[OF doc] distinct_remdups_id s4_def max_def
          del: upt_rec_numeral all_readable.simps)
    show "ready n [] 3 (w\<lparr>w_store := s4, w_log := g\<rparr>)"
      using ready_log[OF LC(1), of g n] G R by simp
    show "grows d w (w\<lparr>w_store := s4, w_log := g\<rparr>)"
      using grows_trans[OF LC(2) grows_log[of g a "w\<lparr>w_store := s4\<rparr>" d]] G(8) a drawn_in(1) by simp
  qed
qed

text \<open>
  The limit counts rows in progress, and the case drains only queued ones: on a back end where one row is
  still held the case cannot reach its three admissions.
\<close>

lemma overload_case_fails:
  assumes doc: "codec_documented cx" "draws_ok cx d" and r: "ready (n + 60) q p w" and u: "unused d w"
    and order: "schedule 24 (dr_order d 0)" and held: "0 < p"
  shows "assert_overload_integrity (mem_ports cx hmac) d w = None"
proof -
  define t where "t = tenant_of d 0 ''overload''"
  obtain s0 os q2 s2 where A:
      "drain_claims (mem_ledger cx (mem_integrity hmac)) (agent d) 24 w = Some (w\<lparr>w_store := s0\<rparr>)"
      "racing_creates (mem_ports cx hmac) d t id ((!) (map (key_of d) [0..<24])) 24 (dr_order d 0)
        (w\<lparr>w_store := s0\<lparr>st_pending_limit := 3\<rparr>\<rparr>) = Some (os, w\<lparr>w_store := s2\<rparr>)"
      "list_all (\<lambda>oc. accepted_outcome oc \<or> oc = Overloaded) os" "length (accepted_ids os) = 3 - p"
    by (rule overload_admissions[OF doc r u order])
  have "3 - p \<noteq> 3" using held by simp
  then show ?thesis
    using A
    by (simp add: assert_overload_integrity_def mem_port_simps fresh_tenant_eq[OF doc(2) label_okI]
        t_def[symmetric] pending_limit_set drawn_keys_list[OF doc] max_def del: upt_rec_numeral)
qed

section \<open>Provenance\<close>

lemma append_chunks_in_turn:
  assumes "in_turn (map (\<lambda>x. event_append (test_event rid EvOutputTextDelta x) (w_store w)) xs) (w_log w) = (map Inr ns, g)"
  shows "append_chunks mem_event_log rid xs w = Some (w\<lparr>w_log := g\<rparr>)"
  using assms
proof (induction xs arbitrary: w ns)
  case (Cons x xs)
  obtain k ms where k: "ns = k # ms" using Cons.prems by (cases ns) (auto split: prod.splits)
  obtain g1 where g1: "event_append (test_event rid EvOutputTextDelta x) (w_store w) (w_log w) = (Inr k, g1)"
      "in_turn (map (\<lambda>x. event_append (test_event rid EvOutputTextDelta x) (w_store w)) xs) g1 = (map Inr ms, g)"
    using Cons.prems by (auto simp: k split: prod.splits)
  then show ?case using Cons.IH[of "w\<lparr>w_log := g1\<rparr>" ms] by (simp add: mem_port_simps)
qed simp

lemma provenance_case:
  assumes doc: "codec_documented cx" "draws_ok cx d" and r: "ready (n + 60) [] p w" and u: "unused d w"
  shows "case_passes d n [] (Suc p) w (assert_output_provenance (mem_ports cx hmac) d w)"
proof -
  note R = readyD[OF r] and new = drawn_new[OF u] and key = fresh_key_eq[OF doc]
  have cx: "dr_codec d = cx" using doc(2) by (simp add: draws_ok_def)
  define id where "id = new_id (mem_ports cx hmac) d"
  define t where "t = tenant_of d 0 ''provenance''"
  define c where "c = Conversation_new (new_conversation_id d 0) t [] 1000"
  define tc where "tc = commit [user_text ''question''] [assistant_text ''Stable answer''] (Usage_new 3 4) Completed"
  define row where "row = test_record d (id 1) None t True Queued"
  have c: "cv_id c = new_conversation_id d 0" "cv_tenant_id c = t" "cv_active_response_id c = None"
    by (simp_all add: c_def Conversation_new_def)
  have ids: "id 0 \<noteq> id 1" using doc(2) by (simp add: id_def)
  have row: "record_ok row" "rr_status row = Queued" "rr_response_id row = id 1" by (simp_all add: row_def)
  obtain s1 where s1: "conv_create c (w_store w) = (Inr c, s1)" "conv_at s1 c Stream_default Snapshot_default"
      "conv_rest {cv_id c} (w_store w) s1" "length (st_conversations s1) = Suc (length (st_conversations (w_store w)))"
      "dom (map_of (st_conversations s1)) = insert (cv_id c) (dom (map_of (st_conversations (w_store w))))"
    by (rule conv_create_at[OF R(4), of c]) (use new R c in simp_all)
  have part1: "ledger_part s1 = ledger_part (w_store w)" using s1(3) by (simp add: conv_rest_def)
  let ?chunks = "[''Sta'', ''ble '', ''answer'']" and ?e = "test_event (id 0) EvOutputTextDelta"
  obtain g1 where g1: "in_turn (map (\<lambda>x. event_append (?e x) s1) ?chunks) (w_log w) =
        (map Inr [length ([] :: append_event list)..<length ([] :: append_event list) + length ?chunks], g1)"
      "log_at g1 (id 0) ([] @ map ?e ?chunks)" "log_rest (id 0) (w_log w) g1"
    by (rule appends_in_turn[of "w_log w" "id 0" "[]" ?chunks ?e s1])
      (use R new(3)[of 0 "mem_ports cx hmac"] ledger_part_D[OF part1] in \<open>simp_all add: log_at_def id_def open_fence\<close>)
  have chunks: "append_chunks mem_event_log (id 0) ?chunks (w\<lparr>w_store := s1\<rparr>) = Some (w\<lparr>w_store := s1, w_log := g1\<rparr>)"
    by (rule append_chunks_in_turn[where ns = "[length ([] :: append_event list)..<length ([] :: append_event list) + length ?chunks]"])
      (use g1(1) in \<open>simp del: in_turn.simps\<close>)
  note G1 = log_restD[OF g1(3)]
  obtain s2 where s2: "append_turn t (cv_id c) (id 0) tc s1 = (Inr 0, s2)" "conv_at s2 c Stream_default (turn_added (id 0) tc Snapshot_default)"
      "conv_rest {cv_id c} s1 s2" "length (st_conversations s2) = length (st_conversations s1)"
      "dom (map_of (st_conversations s2)) = dom (map_of (st_conversations s1))"
    using turn_new[OF s1(2), of "id 0" tc] c by (auto simp: Snapshot_default_def)
  obtain l where "map_of (el_logs g1) (id 0) = Some l" using G1(2) by blast
  then obtain g3 k g4 where g3: "event_close (id 0) 3000 1000 g1 = (Inr (), g3)" "event_sweep_expired 4001 g3 = (Inr k, g4)"
    "\<forall>after limit. event_read_waiting (id 0) after limit [g4] = Inl EExpired"
    "event_log_wf g4" "el_capacity_per_response g4 = el_capacity_per_response g1" "el_max_logs g4 = el_max_logs g1"
    "length (el_logs g4) \<le> length (el_logs g1)" "dom (map_of (el_logs g4)) \<subseteq> dom (map_of (el_logs g1))"
    by (rule close_and_sweep[of g1 "id 0" l 3000 1000 4001]) (use G1(5) R in \<open>simp_all add: TOMBSTONE_FACTOR_def u64_max_def\<close>)
  define rc where "rc = ResolvedContext_new (sn_entries (turn_added (id 0) tc Snapshot_default)) 1"
  have rc: "read_snapshot t (cv_id c) s2 = Inr rc" "contains (canonical_items cx (rc_items rc)) ''Stable answer''"
  proof -
    show "read_snapshot t (cv_id c) s2 = Inr rc"
      using snapshot_at[OF s2(2)] c by (simp add: rc_def turn_added_def Snapshot_default_def)
    show "contains (canonical_items cx (rc_items rc)) ''Stable answer''"
      by (rule canonical_shows[OF doc(1) plain_texts(4)])
        (auto simp: rc_def turn_added_def tc_def commit_def rc_items_def ResolvedContext_new_def turn_entries_def
          assistant_text_def ContextEntry_with_reasoning_def)
  qed
  define w2 where "w2 = w\<lparr>w_store := s2\<rparr>"
  have part2: "ledger_part s2 = ledger_part (w_store w)" "st_max_conversations s2 = st_max_conversations (w_store w)"
    using s1(3) s2(3) by (simp_all add: conv_rest_def)
  have w2: "ready (n + 40) [] p w2" "grows d w w2"
    using conv_case[OF r conv_atD(1)[OF s2(2)] part2, of "n + 40" "{cv_id c}" d] s2(4,5) s1(4,5) new(7) by (auto simp: w2_def c)
  note R2 = readyD[OF w2(1)] and P2 = ledger_part_D[OF part2(1)]
  obtain s3 where s3: "ledger_create cx (mem_integrity hmac) row (key_of d 0) s2 = (Inr (Accepted (signed_row cx hmac row)), s3)"
      "ledger_at ([] @ [id 1]) p s3" "ledger_rest d 1 s2 s3"
    by (rule new_row[of "[]" p s2 row "id 1" d 0 cx hmac]) (use R2 row new P2 in \<open>simp_all add: w2_def id_def\<close>)
  obtain r1 s4 where s4: "ledger_claim (agent d 0) 1100 30000 s3 =
        (Inr (Some \<lparr>cl_record = claimed_row (agent d 0) r1, cl_exec_deadline_ms = sat_add 1100 30000\<rparr>), s4)"
      "rr_attempt (claimed_row (agent d 0) r1) = Attempt 1" "rr_response_id (claimed_row (agent d 0) r1) = id 1"
      "rr_status (claimed_row (agent d 0) r1) = InProgress" "ledger_at [] (Suc p) s4" "ledger_rest d 0 s3 s4"
      "map_of (st_records s4) = (map_of (st_records s3))(id 1 \<mapsto> claimed_row (agent d 0) r1)"
    by (rule first_row_claimed[OF s3(2)[unfolded append_Nil], of "agent d 0" 1100 30000])
  define cl where "cl = claimed_row (agent d 0) r1"
  have cl: "rr_attempt cl = Attempt 1" "rr_response_id cl = id 1" "rr_status cl = InProgress" "map_of (st_records s4) (id 1) = Some cl"
    using s4 by (simp_all add: cl_def)
  define live where "live = fenced_event (id 1) EvOutputTextDelta (Some (Attempt 1)) ''live''"
  define late where "late = fenced_event (id 1) EvOutputTextDelta (Some (Attempt 0)) ''from a reaped holder''"
  have fence: "append_fence live s4 = Inr ()" "append_fence late s4 = Inl EStaleAttempt"
    using held_fence[OF ledger_atD(2)[OF s4(5)], of live "Attempt 1" cl] held_fence[OF ledger_atD(2)[OF s4(5)], of late "Attempt 0" cl] cl
    by (simp_all add: live_def late_def)
  have none: "map_of (el_logs g4) (id 1) = None"
    using g3(8) G1(8) ids new(3)[of 1 "mem_ports cx hmac"] by (auto simp: id_def simp flip: domIff)
  obtain g5 where g5: "event_append live s4 g4 = (Inr (length ([] :: append_event list)), g5)" "log_rest (id 1) g4 g5"
    by (rule append_open[of g4 "id 1" "[]" live s4])
      (use none fence g3 G1 R in \<open>simp_all add: log_at_def live_def\<close>)
  have stale: "event_append late s4 g5 = (Inl EStaleAttempt, g5)" using fence(2) by (simp add: event_append_def)
  note G5 = log_restD[OF g5(2)]
  have LC: "ready (n + 30) [] (Suc p) (w2\<lparr>w_store := s4\<rparr>)" "grows d w2 (w2\<lparr>w_store := s4\<rparr>)"
    using ledger_case[OF w2(1) _ s4(5), of d 1 "n + 30"] ledger_rest_trans[OF s3(3) s4(6)] by (simp_all add: w2_def)
  show ?thesis
  proof (rule case_passesI)
    show "assert_output_provenance (mem_ports cx hmac) d w = Some (w\<lparr>w_store := s4, w_log := g5\<rparr>)"
      using s1(1) chunks s2(1) g3(1-3) rc s3(1) s4(1) g5(1) stale cl c(1,2)
      by (simp add: assert_output_provenance_def fresh_conversation_def mem_port_simps key cx
          fresh_tenant_eq[OF doc(2) label_okI] id_def[symmetric] t_def[symmetric] c_def[symmetric] tc_def[symmetric] row_def[symmetric]
          cl_def[symmetric] live_def[symmetric] late_def[symmetric] sat_add_def u64_max_def
          del: One_nat_def append_chunks.simps event_read_waiting.simps)
    show "ready n [] (Suc p) (w\<lparr>w_store := s4, w_log := g5\<rparr>)"
      using ready_log[OF LC(1), of g5 n] G5 G1 g3 R by (simp add: w2_def)
    have "grows d (w2\<lparr>w_store := s4\<rparr>) (w2\<lparr>w_store := s4, w_log := g5\<rparr>)"
      by (rule growsI[where ids = "{id 0, id 1}" and cids = "{}"])
        (use G5(8) g3(8) G1(8) drawn_in(1)[of 0 d] drawn_in(1)[of 1 d] in \<open>auto simp: w2_def id_def\<close>)
    then show "grows d w (w\<lparr>w_store := s4, w_log := g5\<rparr>)"
      using grows_trans[OF grows_trans[OF w2(2) LC(2)]] by (simp add: w2_def)
  qed
qed

section \<open>Concurrency\<close>

text \<open>Twelve claims for one new row and what was queued before it.\<close>

lemma claim_race:
  assumes doc: "codec_documented cx" "draws_ok cx d" and at: "ledger_at (q @ [x]) p (w_store w)" and few: "length q < 12"
    and order: "schedule 12 (dr_order d 0)" and ports: "ps_ledger ports = mem_ledger cx ig"
  obtains cs s' where "racing_claims ports d 1100 12 (dr_order d 0) w = Some (cs, w\<lparr>w_store := s'\<rparr>)"
    "distinct (claimed_ids d cs)" "length (filter (\<lambda>c. c = ResponseId_display (cx_uuid_fmt cx) x) (claimed_ids d cs)) = 1"
    "list_all (\<lambda>c. rr_attempt (cl_record c) = Attempt 1) (List.map_filter id cs)"
    "ledger_at [] (p + Suc (length q)) s'" "ledger_rest d 0 (w_store w) s'"
    "dom (map_of (st_records s')) = dom (map_of (st_records (w_store w)))" "st_idem s' = st_idem (w_store w)"
    "set (st_queued s') \<subseteq> set (st_queued (w_store w))"
proof -
  have cx: "dr_codec d = cx" using doc(2) by (simp add: draws_ok_def)
  have len: "length (dr_order d 0) = 12" using order distinct_card[of "dr_order d 0"] by (simp add: schedule_def)
  obtain ys s' where C: "in_turn (map (\<lambda>i. ledger_claim (agent d i) 1100 30000) (dr_order d 0)) (w_store w) = (map Inr ys, s')"
    "map (\<lambda>c. rr_response_id (cl_record c)) (List.map_filter id ys) = take (length (dr_order d 0)) (q @ [x])"
    "list_all (\<lambda>c. rr_attempt (cl_record c) = Attempt 1) (List.map_filter id ys)"
    "ledger_at (drop (length (dr_order d 0)) (q @ [x])) (p + min (length (dr_order d 0)) (length (q @ [x]))) s'"
    "ledger_rest d 0 (w_store w) s'" "dom (map_of (st_records s')) = dom (map_of (st_records (w_store w)))"
    "st_idem s' = st_idem (w_store w)" "set (st_queued s') \<subseteq> set (st_queued (w_store w))"
    by (rule claims_in_turn[OF at, of "agent d" 1100 30000 "dr_order d 0" d])
  obtain cs where Z: "racing_claims ports d 1100 12 (dr_order d 0) w = Some (cs, w\<lparr>w_store := s'\<rparr>)" "mset cs = mset ys"
    by (rule racing_claims_mem[OF order C(1) ports])
  have q: "distinct (q @ [x])" using ledger_atD(3,4)[OF at] by (metis distinct_filter queued_rows_def)
  have all: "map (\<lambda>c. rr_response_id (cl_record c)) (List.map_filter id ys) = q @ [x]"
    using C(2) len few by simp
  note once = claimed_once[OF doc(1) cx Z(2) q all]
  have att: "list_all (\<lambda>c. rr_attempt (cl_record c) = Attempt 1) (List.map_filter id cs)"
    using C(3) unfolding list_all_iff mset_eq_setD[OF claims_mset[OF Z(2)]] .
  have "ledger_at [] (p + Suc (length q)) s'" using C(4) len few by (simp add: min_absorb2)
  then show thesis using that[OF Z(1) once(1) _ att _ C(5-8)] once(3)[of x] by simp
qed

text \<open>Twelve creates under one new key.\<close>

lemma same_key_race:
  fixes cx hmac
  defines "ports \<equiv> mem_ports cx hmac"
  assumes doc: "codec_documented cx" "draws_ok cx d" and at: "ledger_at q p (w_store w)"
    and order: "schedule 12 (dr_order d 1)"
    and new: "map_of (st_idem (w_store w)) (key_of d 1) = None"
      "\<forall>i < 12. map_of (st_records (w_store w)) (new_id ports d (Suc i)) = None \<and> new_id ports d (Suc i) \<notin> set (st_queued (w_store w))"
    and room: "length q + p < st_pending_limit (w_store w)" "length (st_records (w_store w)) < st_max_records (w_store w)"
  obtains os s' where "racing_creates ports d t Suc (\<lambda>_. key_of d 1) 12 (dr_order d 1) w = Some (os, w\<lparr>w_store := s'\<rparr>)"
    "list_all (\<lambda>oc. accepted_outcome oc \<or> duplicate_outcome oc) os"
    "accepted_ids os = [new_id ports d (Suc (hd (dr_order d 1)))]" "length (duplicate_ids os) = 11"
    "list_all (\<lambda>dup. dup = new_id ports d (Suc (hd (dr_order d 1)))) (duplicate_ids os)"
    "ledger_at (q @ [new_id ports d (Suc (hd (dr_order d 1)))]) p s'" "ledger_rest d 1 (w_store w) s'"
proof -
  define row where "row i = test_record d (new_id ports d (Suc i)) None t True Queued" for i
  have o: "distinct (dr_order d 1)" "set (dr_order d 1) = {..<12}" using order by (simp_all add: schedule_def)
  have len: "length (dr_order d 1) = 12" using distinct_card[OF o(1)] o(2) by simp
  obtain i js where i: "dr_order d 1 = i # js" using len by (cases "dr_order d 1") auto
  have lt: "i < 12" using o(2) i by auto
  define x where "x = new_id ports d (Suc i)"
  define R where "R = signed_row cx hmac (row i)"
  obtain s' where S: "in_turn (map (\<lambda>i. ledger_create cx (mem_integrity hmac) (row i) (key_of d 1)) (i # js)) (w_store w) =
      (map Inr (Accepted R # replicate (length js) (Duplicate R)), s')"
    "ledger_at (q @ [x]) p s'" "ledger_rest d 1 (w_store w) s'"
    by (rule same_key_in_turn[OF at, of row i x d 1 cx hmac js])
      (use new room lt drawn_in(1)[of "Suc i" d] in \<open>simp_all add: row_def x_def R_def\<close>)
  obtain os where Z: "racing_creates ports d t Suc (\<lambda>_. key_of d 1) 12 (dr_order d 1) w = Some (os, w\<lparr>w_store := s'\<rparr>)"
    "mset os = mset (Accepted R # replicate (length js) (Duplicate R))"
  proof (rule racing_creates_mem[OF order])
    show "in_turn (map (\<lambda>i. ledger_create cx (mem_integrity hmac) (test_record d (new_id ports d (Suc i)) None t True Queued) (key_of d 1))
        (dr_order d 1)) (w_store w) = (map Inr (Accepted R # replicate (length js) (Duplicate R)), s')"
      using S(1) unfolding row_def i .
    show "ps_ledger ports = mem_ledger cx (mem_integrity hmac)" by (simp add: ports_def)
  qed (rule that)
  note V = verdicts_mset[OF Z(2)]
  have R: "rr_response_id R = x" by (simp add: R_def row_def x_def)
  have rep: "accepted_ids (replicate n (Duplicate R)) = []" "duplicate_ids (replicate n (Duplicate R)) = replicate n x" for n
    by (induction n) (simp_all add: R)
  have a: "accepted_ids os = [x]" using V(1) by (simp add: rep R)
  have d: "length (duplicate_ids os) = 11" "set (duplicate_ids os) \<subseteq> {x}"
    using mset_eq_length[OF V(2)] mset_eq_setD[OF V(2)] len i by (auto simp: rep)
  have v: "list_all (\<lambda>oc. accepted_outcome oc \<or> duplicate_outcome oc) os"
    unfolding list_all_iff V(4) by (auto simp: accepted_outcome_def duplicate_outcome_def)
  show thesis
    by (rule that[OF Z(1) v _ d(1) _ _ S(3)]) (use a d(2) S(2) i in \<open>auto simp: x_def list_all_iff\<close>)
qed

lemma concurrency_case:
  assumes doc: "codec_documented cx" "draws_ok cx d" and r: "ready (n + 60) q p w" and u: "unused d w" and few: "length q < 12"
    and order: "schedule 12 (dr_order d 0)" "schedule 12 (dr_order d 1)" "schedule 12 (dr_order d 2)"
  shows "case_passes d n [new_id (mem_ports cx hmac) d (Suc (hd (dr_order d 1)))] (p + Suc (length q)) w
    (assert_concurrency_conformance (mem_ports cx hmac) d w)"
proof -
  define ports where "ports = mem_ports cx hmac"
  have cx: "dr_codec d = cx" using doc(2) by (simp add: draws_ok_def)
  note R = readyD[OF r] and new = drawn_new[OF u] and key = fresh_key_eq[OF doc]
  define id where "id = new_id ports d"
  define t where "t = tenant_of d 0 ''conc-claim''"
  define t' where "t' = tenant_of d 1 ''conc-idem''"
  define row where "row = test_record d (id 0) None t True Queued"
  have row: "record_ok row" "rr_status row = Queued" "rr_response_id row = id 0" by (simp_all add: row_def)
  have ids: "id i = id j \<longleftrightarrow> i = j" if "i < 24" "j < 24" for i j using doc(2) that by (simp add: id_def)
  obtain s1 where s1: "ledger_create cx (mem_integrity hmac) row (key_of d 0) (w_store w) = (Inr (Accepted (signed_row cx hmac row)), s1)"
      "ledger_at (q @ [id 0]) p s1" "ledger_rest d 1 (w_store w) s1"
      "map_of (st_records s1) = (map_of (st_records (w_store w)))(id 0 \<mapsto> signed_row cx hmac row)"
      "map_of (st_idem s1) = (map_of (st_idem (w_store w)))(key_of d 0 \<mapsto> id 0)" "st_queued s1 = st_queued (w_store w) @ [id 0]"
    by (rule new_row[OF R(1) row, of d 0 cx hmac]) (use new R in \<open>simp_all add: id_def\<close>)
  have at1: "ledger_at (q @ [id 0]) p (w_store (w\<lparr>w_store := s1\<rparr>))" using s1(2) by simp
  obtain cs s2 where C: "racing_claims ports d 1100 12 (dr_order d 0) (w\<lparr>w_store := s1\<rparr>) = Some (cs, w\<lparr>w_store := s1, w_store := s2\<rparr>)"
    "distinct (claimed_ids d cs)" "length (filter (\<lambda>c. c = ResponseId_display (cx_uuid_fmt cx) (id 0)) (claimed_ids d cs)) = 1"
    "list_all (\<lambda>c. rr_attempt (cl_record c) = Attempt 1) (List.map_filter (\<lambda>x. x) cs)"
    "ledger_at [] (p + Suc (length q)) s2" "ledger_rest d 0 s1 s2"
    "dom (map_of (st_records s2)) = dom (map_of (st_records s1))" "st_idem s2 = st_idem s1"
    "set (st_queued s2) \<subseteq> set (st_queued s1)"
  proof (rule claim_race[OF doc at1 few order(1), of ports "mem_integrity hmac"])
    show "ps_ledger ports = mem_ledger cx (mem_integrity hmac)" by (simp add: ports_def)
  qed (use that in \<open>simp add: Fun.id_def\<close>)
  note L1 = ledger_rest_limits[OF s1(3)] and L2 = ledger_rest_limits[OF C(6)] and D2 = domain_none[OF C(7)]
  have fresh: "map_of (st_records s2) (id (Suc i)) = None \<and> id (Suc i) \<notin> set (st_queued s2)" if "i < 12" for i
  proof -
    have "id (Suc i) \<noteq> id 0" using ids[of "Suc i" 0] that by simp
    then show ?thesis
      using new(1,2)[of "Suc i" ports] that C(9) D2[of "id (Suc i)"] by (auto simp: s1(4,6) id_def)
  qed
  obtain os s3 where O: "racing_creates ports d t' Suc (\<lambda>_. key_of d 1) 12 (dr_order d 1) (w\<lparr>w_store := s2\<rparr>) =
      Some (os, w\<lparr>w_store := s2, w_store := s3\<rparr>)"
    "list_all (\<lambda>oc. accepted_outcome oc \<or> duplicate_outcome oc) os"
    "accepted_ids os = [id (Suc (hd (dr_order d 1)))]" "length (duplicate_ids os) = 11"
    "list_all (\<lambda>dup. dup = id (Suc (hd (dr_order d 1)))) (duplicate_ids os)"
    "ledger_at ([] @ [id (Suc (hd (dr_order d 1)))]) (p + Suc (length q)) s3" "ledger_rest d 1 (w_store (w\<lparr>w_store := s2\<rparr>)) s3"
    unfolding id_def ports_def
  proof (rule same_key_race[OF doc _ order(2)])
    show "ledger_at [] (p + Suc (length q)) (w_store (w\<lparr>w_store := s2\<rparr>))" using C(5) by simp
    show "map_of (st_idem (w_store (w\<lparr>w_store := s2\<rparr>))) (key_of d 1) = None"
      using new(4)[of 1] key_of_inj[OF doc, of 1 0] by (simp add: C(8) s1(5))
    show "\<forall>i < 12. map_of (st_records (w_store (w\<lparr>w_store := s2\<rparr>))) (new_id (mem_ports cx hmac) d (Suc i)) = None \<and>
        new_id (mem_ports cx hmac) d (Suc i) \<notin> set (st_queued (w_store (w\<lparr>w_store := s2\<rparr>)))"
      using fresh by (simp add: id_def ports_def)
  qed (use L1 L2 R in simp_all)
  have none: "map_of (el_logs (w_log w)) (id 13) = None" using new(3)[of 13 ports] by (simp add: id_def)
  obtain ns g h where N: "racing_appends ports (id 13) (CHR ''d'') 12 (dr_order d 2) (w\<lparr>w_store := s3\<rparr>) =
        Some (ns, w\<lparr>w_store := s3, w_log := g\<rparr>)" "mset ns = mset [0..<12]" "log_at g (id 13) h" "length h = 12"
      "log_rest (id 13) (w_log (w\<lparr>w_store := s3\<rparr>)) g"
    by (rule racing_appends_mem[OF order(3), of "w\<lparr>w_store := s3\<rparr>" "id 13" ports "CHR ''d''"])
      (use none R ledger_atD(2)[OF O(6)] in \<open>simp_all add: log_at_def ports_def mem_ports_fields\<close>)
  note G = log_restD[OF N(5)]
  have ns: "sort ns = [0..<12]" "distinct ns"
    using N(2) mset_eq_imp_distinct_iff[OF N(2)] by (auto intro!: properties_for_sort simp del: upt_rec_numeral)
  have read: "event_read_waiting (id 13) None 128 [g] = Inr (numbered h)"
    using read_at[OF N(3) G(2)] G(3) R N(4) by (simp add: read_target_def)
  have seqs: "map re_sequence_number (numbered h) = [0..<12]" "length (numbered h) = 12" using N(4) by (simp_all add: numbered_seqs del: upt_rec_numeral)
  have rest: "ledger_rest d 2 (w_store w) s3"
    using ledger_rest_trans[OF ledger_rest_trans[OF s1(3) C(6)], of 1 s3] O(7) by (simp add: numeral_2_eq_2)
  have "length [id (Suc (hd (dr_order d 1)))] + (p + Suc (length q)) + (n + 1) \<le> length q + p + (n + 60)" by simp
  note LC = ledger_case[OF r rest O(6)[unfolded append_Nil] this]
  show ?thesis unfolding ports_def[symmetric] id_def[symmetric]
  proof (rule case_passesI)
    show "assert_concurrency_conformance ports d w = Some (w\<lparr>w_store := s3, w_log := g\<rparr>)"
      using s1(1) C(1-4) O(1-5) N(1) ns read seqs
      by (simp add: assert_concurrency_conformance_def mem_port_simps ports_def[symmetric] id_def[symmetric] key cx
          mem_ports_fields[of cx hmac, folded ports_def] fresh_tenant_eq[OF doc(2) label_okI] t_def[symmetric] t'_def[symmetric] row_def[symmetric]
          accepted_outcome_def[of "Accepted r" for r] distinct_remdups_id Fun.id_def
          del: upt_rec_numeral event_read_waiting.simps One_nat_def)
    show "ready n [id (Suc (hd (dr_order d 1)))] (p + Suc (length q)) (w\<lparr>w_store := s3, w_log := g\<rparr>)"
      using ready_log[OF LC(1), of g n] G R by simp
    show "grows d w (w\<lparr>w_store := s3, w_log := g\<rparr>)"
      using grows_trans[OF LC(2) grows_log[of g "id 13" "w\<lparr>w_store := s3\<rparr>" d]] G(8) drawn_in(1)[of 13 d] by (simp add: id_def)
  qed
qed

end
