(* ===== verification/Contract_Conversations.thy ===== *)
theory Contract_Conversations
  imports Contract_Cases
begin

text \<open>
  The two conversation cases of the contract on the in-memory ports: the records with their tenants,
  pointers, listing and deletion, and the event stream with the turn lock.
\<close>

section \<open>Records\<close>

lemma absent_ops:
  assumes "conv_open s" "owned s tenant cid = None"
  shows "conv_update_metadata tenant cid m s = (Inl CNotFound, s)" "conv_advance tenant cid rid s = (Inl CNotFound, s)"
  using assms by (simp_all add: conv_update_metadata_def conv_advance_def)

lemma position_found:
  assumes "x \<in> set xs"
  obtains i where "position xs x = Some i" "i < length xs" "xs ! i = x"
proof -
  obtain j where "j < length xs" "xs ! j = x" using assms by (auto simp: in_set_conv_nth)
  then have "position xs x \<noteq> None" by (auto simp: position_def find_None_iff)
  then obtain i where i: "position xs x = Some i" by blast
  then have "i < length xs" "xs ! i = x" by (auto simp: position_def find_Some_iff)
  with i show thesis by (rule that)
qed

text \<open>Newest first: of two conversations of one tenant the younger is listed before the older.\<close>

lemma listed_in_order:
  assumes a: "conv_at s a sta sna" and b: "conv_at s b stb snb" and t: "cv_tenant_id a = t" "cv_tenant_id b = t"
    and young: "cv_created_at_ms a < cv_created_at_ms b" and other: "conv_at s c stc snc" "cv_tenant_id c \<noteq> t"
  obtains cs i j where "conv_list t s = Inr cs" "cv_id a \<in> cv_id ` set cs" "cv_id b \<in> cv_id ` set cs"
    "cv_id c \<notin> cv_id ` set cs" "position (map cv_id cs) (cv_id b) = Some i"
    "position (map cv_id cs) (cv_id a) = Some j" "i < j"
proof (rule conv_list_at[OF conv_atD(1)[OF a], of t])
  fix cs
  assume cs: "conv_list t s = Inr cs" "sorted (map (\<lambda>c. - int (cv_created_at_ms c)) cs)"
    "set cs = {c. \<exists>k. map_of (st_conversations s) k = Some c \<and> cv_tenant_id c = t}"
  have wf: "conversations_wf s" using conv_atD(1)[OF a] conv_wfD(1) by (simp add: conv_open_def)
  have row: "e \<in> set cs \<Longrightarrow> map_of (st_conversations s) (cv_id e) = Some e \<and> cv_tenant_id e = t" for e
    using cs(3) conversations_wf_id[OF wf] by force
  have mem: "a \<in> set cs" "b \<in> set cs" using conv_atD(2)[OF a] conv_atD(2)[OF b] t cs(3) by blast+
  have out: "cv_id c \<notin> cv_id ` set cs"
  proof
    assume "cv_id c \<in> cv_id ` set cs"
    then obtain e where e: "e \<in> set cs" "cv_id e = cv_id c" by force
    have "map_of (st_conversations s) (cv_id c) = Some e" using row[OF e(1)] unfolding e(2) ..
    then have "e = c" using conv_atD(2)[OF other(1)] by simp
    then show False using row[OF e(1)] other(2) by simp
  qed
  have found: thesis if e: "e \<in> set cs" and k: "\<And>i. position (map cv_id cs) (cv_id e) = Some i \<Longrightarrow> i < length cs \<Longrightarrow> cs ! i = e \<Longrightarrow> thesis" for e thesis
  proof (rule position_found[of "cv_id e" "map cv_id cs"])
    show "cv_id e \<in> set (map cv_id cs)" using e by simp
  next
    fix i
    assume i: "position (map cv_id cs) (cv_id e) = Some i" "i < length (map cv_id cs)" "map cv_id cs ! i = cv_id e"
    then have at: "cs ! i \<in> set cs" "cv_id (cs ! i) = cv_id e" by simp_all
    have "map_of (st_conversations s) (cv_id e) = Some (cs ! i)" using row[OF at(1)] unfolding at(2) ..
    then have "cs ! i = e" using row[OF e] by simp
    then show thesis using k i by simp
  qed
  obtain i where i: "position (map cv_id cs) (cv_id b) = Some i" "i < length cs" "cs ! i = b" by (rule found[OF mem(2)])
  obtain j where j: "position (map cv_id cs) (cv_id a) = Some j" "j < length cs" "cs ! j = a" by (rule found[OF mem(1)])
  have "i < j"
  proof (rule ccontr)
    assume "\<not> i < j"
    then have "- int (cv_created_at_ms (cs ! j)) \<le> - int (cv_created_at_ms (cs ! i))"
      using sorted_nth_mono[OF cs(2), of j i] i j by simp
    then show False using i j young by simp
  qed
  then show thesis by (intro that[OF cs(1) _ _ out i(1) j(1)]) (use mem in auto)
qed

text \<open>
  The first half of the case, on one conversation: other tenants and unknown conversations are refused,
  metadata and pointer are replaced, and a deleted conversation is gone.
\<close>

definition labelled :: "conversation \<Rightarrow> metadata \<Rightarrow> conversation" where
  "labelled c m = c\<lparr>cv_metadata := m\<rparr>"

definition pointed :: "conversation \<Rightarrow> response_id \<Rightarrow> conversation" where
  "pointed c rid = c\<lparr>cv_last_response_id := Some rid\<rparr>"

lemma record_lifecycle:
  assumes at: "conv_at s c st sn" and other: "other \<noteq> cv_tenant_id c" and absent: "map_of (st_conversations s) k = None"
  obtains s2 s3 s4 s5 s6 where
    "conv_get (cv_tenant_id c) (cv_id c) s = Inr (Some c)" "conv_get other (cv_id c) s = Inr None"
    "conv_update_metadata other (cv_id c) m s = (Inl CNotFound, s)" "conv_delete other (cv_id c) s = (Inr False, s)"
    "conv_update_metadata (cv_tenant_id c) (cv_id c) m1 s = (Inr (labelled c m1), s2)"
    "conv_update_metadata (cv_tenant_id c) (cv_id c) m2 s2 = (Inr (labelled c m2), s3)"
    "conv_advance (cv_tenant_id c) (cv_id c) r1 s3 = (Inr (), s4)"
    "conv_get (cv_tenant_id c) (cv_id c) s4 = Inr (Some (pointed (labelled c m2) r1))"
    "conv_advance (cv_tenant_id c) (cv_id c) r2 s4 = (Inr (), s5)"
    "conv_get (cv_tenant_id c) (cv_id c) s5 = Inr (Some (pointed (labelled c m2) r2))"
    "conv_advance (cv_tenant_id c) k r2 s5 = (Inl CNotFound, s5)" "conv_advance other (cv_id c) r2 s5 = (Inl CNotFound, s5)"
    "conv_delete (cv_tenant_id c) (cv_id c) s5 = (Inr True, s6)" "conv_get (cv_tenant_id c) (cv_id c) s6 = Inr None"
    "conv_delete (cv_tenant_id c) (cv_id c) s6 = (Inr False, s6)" "conv_open s6" "conv_rest {cv_id c} s s6"
    "length (st_conversations s6) \<le> length (st_conversations s)"
    "dom (map_of (st_conversations s6)) \<subseteq> dom (map_of (st_conversations s))"
proof -
  note D = conv_atD[OF at]
  obtain s2 where s2: "conv_update_metadata (cv_tenant_id c) (cv_id c) m1 s = (Inr (labelled c m1), s2)"
    "conv_at s2 (labelled c m1) st sn" "conv_rest {cv_id c} s s2" "length (st_conversations s2) = length (st_conversations s)"
    "dom (map_of (st_conversations s2)) = dom (map_of (st_conversations s))"
    by (rule metadata_at[OF at, of m1]) (simp add: labelled_def)
  obtain s3 where s3: "conv_update_metadata (cv_tenant_id c) (cv_id c) m2 s2 = (Inr (labelled c m2), s3)"
    "conv_at s3 (labelled c m2) st sn" "conv_rest {cv_id c} s2 s3" "length (st_conversations s3) = length (st_conversations s2)"
    "dom (map_of (st_conversations s3)) = dom (map_of (st_conversations s2))"
    by (rule metadata_at[OF s2(2), of m2]) (simp add: labelled_def)
  obtain s4 where s4: "conv_advance (cv_tenant_id c) (cv_id c) r1 s3 = (Inr (), s4)"
    "conv_at s4 (pointed (labelled c m2) r1) st sn" "conv_rest {cv_id c} s3 s4"
    "length (st_conversations s4) = length (st_conversations s3)" "dom (map_of (st_conversations s4)) = dom (map_of (st_conversations s3))"
    by (rule advance_at[OF s3(2), of r1]) (simp add: labelled_def pointed_def)
  obtain s5 where s5: "conv_advance (cv_tenant_id c) (cv_id c) r2 s4 = (Inr (), s5)"
    "conv_at s5 (pointed (labelled c m2) r2) st sn" "conv_rest {cv_id c} s4 s5"
    "length (st_conversations s5) = length (st_conversations s4)" "dom (map_of (st_conversations s5)) = dom (map_of (st_conversations s4))"
    by (rule advance_at[OF s4(2), of r2]) (simp add: labelled_def pointed_def)
  obtain s6 where s6: "conv_delete (cv_tenant_id c) (cv_id c) s5 = (Inr True, s6)" "conv_open s6" "conv_rest {cv_id c} s5 s6"
    "map_of (st_conversations s6) (cv_id c) = None" "length (st_conversations s6) \<le> length (st_conversations s5)"
    "dom (map_of (st_conversations s6)) \<subseteq> dom (map_of (st_conversations s5))"
    by (rule conv_delete_at[OF s5(2)]) (simp add: labelled_def pointed_def)
  have dom: "dom (map_of (st_conversations s5)) = dom (map_of (st_conversations s))" using s5(5) s4(5) s3(5) s2(5) by simp
  have none: "owned s5 (cv_tenant_id c) k = None" by (rule absent_owned) (use absent dom domIff in metis)
  have away: "owned s other (cv_id c) = None" "owned s5 other (cv_id c) = None"
    using D(6)[OF other] conv_atD(6)[OF s5(2), of other] other by (simp_all add: labelled_def pointed_def)
  have got: "conv_get (cv_tenant_id c) (cv_id c) s = Inr (Some c)" "conv_get other (cv_id c) s = Inr None"
    "conv_get (cv_tenant_id c) (cv_id c) s4 = Inr (Some (pointed (labelled c m2) r1))"
    "conv_get (cv_tenant_id c) (cv_id c) s5 = Inr (Some (pointed (labelled c m2) r2))"
    "conv_get (cv_tenant_id c) (cv_id c) s6 = Inr None"
    using conv_get_at[OF at] conv_get_at[OF s4(2), of "cv_tenant_id c"] conv_get_at[OF s5(2), of "cv_tenant_id c"]
      conv_get_absent[OF s6(2,4)] other by (auto simp: labelled_def pointed_def)
  have rest: "conv_rest {cv_id c} s s6"
    using s2(3) s3(3) s4(3) s5(3) s6(3) by (simp add: conv_rest_def)
  note o5 = conv_atD(1)[OF s5(2)]
  show thesis
    by (rule that[OF got(1,2) absent_ops(1)[OF D(1) away(1)] conv_delete_absent[OF D(1) away(1)] s2(1) s3(1) s4(1) got(3)
          s5(1) got(4) absent_ops(2)[OF o5 none] absent_ops(2)[OF o5 away(2)] s6(1) got(5)
          conv_delete_absent[OF s6(2) absent_owned[OF s6(4)]] s6(2) rest])
      (use s6(5,6) s5(4,5) s4(4,5) s3(4,5) s2(4,5) in simp_all)
qed

text \<open>The second half: two conversations of one tenant and one of another are listed, and the first tenant purged.\<close>

lemma listing_and_purge:
  assumes op: "conv_open s" and room: "length (st_conversations s) + 3 \<le> st_max_conversations s"
    and fresh: "map_of (st_conversations s) (cv_id a) = None" "map_of (st_conversations s) (cv_id b) = None"
      "map_of (st_conversations s) (cv_id z) = None" "distinct [cv_id a, cv_id b, cv_id z]"
      "cv_active_response_id a = None" "cv_active_response_id b = None" "cv_active_response_id z = None"
    and t: "cv_tenant_id a = t" "cv_tenant_id b = t" "cv_tenant_id z \<noteq> t" and young: "cv_created_at_ms a < cv_created_at_ms b"
  obtains s1 s2 s3 cs i j m s4 where
    "conv_create a s = (Inr a, s1)" "conv_create b s1 = (Inr b, s2)" "conv_create z s2 = (Inr z, s3)"
    "conv_list t s3 = Inr cs" "cv_id a \<in> cv_id ` set cs" "cv_id b \<in> cv_id ` set cs" "cv_id z \<notin> cv_id ` set cs"
    "position (map cv_id cs) (cv_id b) = Some i" "position (map cv_id cs) (cv_id a) = Some j" "i < j"
    "conv_delete_by_tenant t s3 = (Inr m, s4)" "2 \<le> m" "conv_get t (cv_id a) s4 = Inr None" "conv_get t (cv_id b) s4 = Inr None"
    "conv_get (cv_tenant_id z) (cv_id z) s4 = Inr (Some z)" "conv_open s4" "ledger_part s4 = ledger_part s"
    "st_max_conversations s4 = st_max_conversations s" "length (st_conversations s4) \<le> length (st_conversations s) + 3"
    "dom (map_of (st_conversations s4)) \<subseteq> dom (map_of (st_conversations s)) \<union> {cv_id a, cv_id b, cv_id z}"
proof -
  obtain s1 where s1: "conv_create a s = (Inr a, s1)" "conv_at s1 a Stream_default Snapshot_default" "conv_rest {cv_id a} s s1"
      "length (st_conversations s1) = Suc (length (st_conversations s))"
      "dom (map_of (st_conversations s1)) = insert (cv_id a) (dom (map_of (st_conversations s)))"
    by (rule conv_create_at[OF op, of a]) (use fresh room in simp_all)
  have r1: "st_max_conversations s1 = st_max_conversations s" "map_of (st_conversations s1) (cv_id b) = None"
      "map_of (st_conversations s1) (cv_id z) = None"
    using s1(3) fresh by (auto simp: conv_rest_def)
  obtain s2 where s2: "conv_create b s1 = (Inr b, s2)" "conv_at s2 b Stream_default Snapshot_default" "conv_rest {cv_id b} s1 s2"
      "length (st_conversations s2) = Suc (length (st_conversations s1))"
      "dom (map_of (st_conversations s2)) = insert (cv_id b) (dom (map_of (st_conversations s1)))"
    by (rule conv_create_at[OF conv_atD(1)[OF s1(2)], of b]) (use fresh room r1 s1(4) in simp_all)
  have r2: "st_max_conversations s2 = st_max_conversations s" "map_of (st_conversations s2) (cv_id z) = None"
    using s2(3) r1 fresh by (auto simp: conv_rest_def)
  obtain s3 where s3: "conv_create z s2 = (Inr z, s3)" "conv_at s3 z Stream_default Snapshot_default" "conv_rest {cv_id z} s2 s3"
      "length (st_conversations s3) = Suc (length (st_conversations s2))"
      "dom (map_of (st_conversations s3)) = insert (cv_id z) (dom (map_of (st_conversations s2)))"
    by (rule conv_create_at[OF conv_atD(1)[OF s2(2)], of z]) (use fresh room r2 s1(4) s2(4) in simp_all)
  have b3: "conv_at s3 b Stream_default Snapshot_default"
    by (rule conv_at_frame[OF s2(2) conv_atD(1)[OF s3(2)] s3(3)]) (use fresh in auto)
  have a2: "conv_at s2 a Stream_default Snapshot_default"
    by (rule conv_at_frame[OF s1(2) conv_atD(1)[OF s2(2)] s2(3)]) (use fresh in auto)
  have a3: "conv_at s3 a Stream_default Snapshot_default"
    by (rule conv_at_frame[OF a2 conv_atD(1)[OF s3(2)] s3(3)]) (use fresh in auto)
  obtain cs i j where L: "conv_list t s3 = Inr cs" "cv_id a \<in> cv_id ` set cs" "cv_id b \<in> cv_id ` set cs" "cv_id z \<notin> cv_id ` set cs"
      "position (map cv_id cs) (cv_id b) = Some i" "position (map cv_id cs) (cv_id a) = Some j" "i < j"
    by (rule listed_in_order[OF a3 b3 t(1,2) young s3(2) t(3)])
  obtain m s4 where P: "conv_delete_by_tenant t s3 = (Inr m, s4)" "conv_at s4 z Stream_default Snapshot_default"
      "card {k. \<exists>e. map_of (st_conversations s3) k = Some e \<and> cv_tenant_id e = t} = m"
      "ledger_part s4 = ledger_part s3" "st_max_conversations s4 = st_max_conversations s3"
      "length (st_conversations s4) \<le> length (st_conversations s3)"
      "dom (map_of (st_conversations s4)) \<subseteq> dom (map_of (st_conversations s3))"
      "\<forall>k e. map_of (st_conversations s3) k = Some e \<longrightarrow> cv_tenant_id e = t \<longrightarrow> map_of (st_conversations s4) k = None"
    by (rule purge_at[OF a3 s3(2), unfolded t(1)]) (rule t(3), rule that)
  have "card {cv_id a, cv_id b} \<le> card {k. \<exists>e. map_of (st_conversations s3) k = Some e \<and> cv_tenant_id e = t}"
    by (rule card_mono[OF finite_subset[OF _ finite_dom_map_of[of "st_conversations s3"]]])
      (use conv_atD(2)[OF a3] conv_atD(2)[OF b3] t in auto)
  then have m: "2 \<le> m" using P(3) fresh by simp
  have gone: "map_of (st_conversations s4) (cv_id a) = None" "map_of (st_conversations s4) (cv_id b) = None"
    using P(8) conv_atD(2)[OF a3] conv_atD(2)[OF b3] t by blast+
  note op4 = conv_atD(1)[OF P(2)]
  show thesis
  proof (rule that[OF s1(1) s2(1) s3(1) L P(1) m conv_get_absent[OF op4 gone(1)] conv_get_absent[OF op4 gone(2)] _ op4])
    show "conv_get (cv_tenant_id z) (cv_id z) s4 = Inr (Some z)" using conv_get_at[OF P(2)] by simp
    show "ledger_part s4 = ledger_part s" "st_max_conversations s4 = st_max_conversations s"
      using P(4,5) s3(3) s2(3) s1(3) by (simp_all add: conv_rest_def)
    show "length (st_conversations s4) \<le> length (st_conversations s) + 3" using P(6) s3(4) s2(4) s1(4) by simp
    show "dom (map_of (st_conversations s4)) \<subseteq> dom (map_of (st_conversations s)) \<union> {cv_id a, cv_id b, cv_id z}"
      using P(7) unfolding s3(5) s2(5) s1(5) by blast
  qed
qed

lemma conversation_case:
  assumes doc: "codec_documented cx" "draws_ok cx d" and r: "ready (n + 60) q p w" and u: "unused d w"
  shows "case_passes d n q p w (assert_conversation_conformance (mem_ports cx hmac) d w)"
proof -
  note R = readyD[OF r] and new = drawn_new[OF u]
  define id where "id = new_id (mem_ports cx hmac) d"
  define cid where "cid = new_conversation_id d"
  define t where "t = tenant_of d 0 ''conv''"
  define other where "other = tenant_of d 1 ''conv-other''"
  define c0 where "c0 = Conversation_new (cid 0) t [] 1000"
  define a where "a = Conversation_new (cid 2) t [] 1000"
  define b where "b = Conversation_new (cid 3) t [] 2000"
  define z where "z = Conversation_new (cid 4) other [] 1000"
  note cs = c0_def a_def b_def z_def
  have f: "cv_id c0 = cid 0" "cv_tenant_id c0 = t" "cv_active_response_id c0 = None" "cv_last_response_id c0 = None"
      "cv_id a = cid 2" "cv_tenant_id a = t" "cv_active_response_id a = None" "cv_created_at_ms a = 1000"
      "cv_id b = cid 3" "cv_tenant_id b = t" "cv_active_response_id b = None" "cv_created_at_ms b = 2000"
      "cv_id z = cid 4" "cv_tenant_id z = other" "cv_active_response_id z = None"
    by (simp_all add: cs Conversation_new_def)
  have ids: "cid i = cid j \<longleftrightarrow> i = j" if "i < 24" "j < 24" for i j
    using doc(2) that by (simp add: cid_def)
  have ot: "other \<noteq> t" unfolding t_def other_def by (rule tenant_of_neq[OF doc(2)]) simp
  have absent: "map_of (st_conversations (w_store w)) (cid i) = None" if "i < 24" for i
    using new(5)[OF that] by (simp add: cid_def)
  obtain s1 where s1: "conv_create c0 (w_store w) = (Inr c0, s1)" "conv_at s1 c0 Stream_default Snapshot_default"
      "conv_rest {cv_id c0} (w_store w) s1" "length (st_conversations s1) = Suc (length (st_conversations (w_store w)))"
      "dom (map_of (st_conversations s1)) = insert (cv_id c0) (dom (map_of (st_conversations (w_store w))))"
    by (rule conv_create_at[OF R(4), of c0]) (use absent R f in simp_all)
  have absent1: "map_of (st_conversations s1) (cid i) = None" if "i \<noteq> 0" "i < 24" for i
    using s1(3) absent[of i] ids[of i 0] that f by (simp add: conv_rest_def)
  let ?m1 = "[(''stale'', MetaString ''x''), (''topic'', MetaString ''demo'')]" and ?m2 = "[(''topic'', MetaString ''demo'')]"
  obtain s2 s3 s4 s5 s6 where L:
    "conv_get t (cid 0) s1 = Inr (Some c0)" "conv_get other (cid 0) s1 = Inr None"
    "conv_update_metadata other (cid 0) [] s1 = (Inl CNotFound, s1)" "conv_delete other (cid 0) s1 = (Inr False, s1)"
    "conv_update_metadata t (cid 0) ?m1 s1 = (Inr (labelled c0 ?m1), s2)"
    "conv_update_metadata t (cid 0) ?m2 s2 = (Inr (labelled c0 ?m2), s3)"
    "conv_advance t (cid 0) (id 0) s3 = (Inr (), s4)" "conv_get t (cid 0) s4 = Inr (Some (pointed (labelled c0 ?m2) (id 0)))"
    "conv_advance t (cid 0) (id 1) s4 = (Inr (), s5)" "conv_get t (cid 0) s5 = Inr (Some (pointed (labelled c0 ?m2) (id 1)))"
    "conv_advance t (cid 1) (id 1) s5 = (Inl CNotFound, s5)" "conv_advance other (cid 0) (id 1) s5 = (Inl CNotFound, s5)"
    "conv_delete t (cid 0) s5 = (Inr True, s6)" "conv_get t (cid 0) s6 = Inr None" "conv_delete t (cid 0) s6 = (Inr False, s6)"
    and s6: "conv_open s6" "conv_rest {cid 0} s1 s6" "length (st_conversations s6) \<le> length (st_conversations s1)"
    "dom (map_of (st_conversations s6)) \<subseteq> dom (map_of (st_conversations s1))"
    by (rule record_lifecycle[OF s1(2), of other "cid 1" "[]" ?m1 ?m2 "id 0" "id 1"]) (use absent1[of 1] ot f in simp_all)
  have lim6: "st_max_conversations s6 = st_max_conversations (w_store w)" "ledger_part s6 = ledger_part (w_store w)"
      "i \<noteq> 0 \<Longrightarrow> i < 24 \<Longrightarrow> map_of (st_conversations s6) (cid i) = None" for i
    using s6(2) s1(3) absent1[of i] ids[of i 0] by (simp_all add: conv_rest_def)
  obtain s7 s8 s9 cs i j m s10 where M:
    "conv_create a s6 = (Inr a, s7)" "conv_create b s7 = (Inr b, s8)" "conv_create z s8 = (Inr z, s9)"
    "conv_list t s9 = Inr cs" "cid 2 \<in> cv_id ` set cs" "cid 3 \<in> cv_id ` set cs" "cid 4 \<notin> cv_id ` set cs"
    "position (map cv_id cs) (cid 3) = Some i" "position (map cv_id cs) (cid 2) = Some j" "i < j"
    "conv_delete_by_tenant t s9 = (Inr m, s10)" "2 \<le> m" "conv_get t (cid 2) s10 = Inr None" "conv_get t (cid 3) s10 = Inr None"
    "conv_get other (cid 4) s10 = Inr (Some z)"
    and s10: "conv_open s10" "ledger_part s10 = ledger_part s6"
    "st_max_conversations s10 = st_max_conversations s6" "length (st_conversations s10) \<le> length (st_conversations s6) + 3"
    "dom (map_of (st_conversations s10)) \<subseteq> dom (map_of (st_conversations s6)) \<union> {cid 2, cid 3, cid 4}"
    by (rule listing_and_purge[OF s6(1), of a b z t])
      (use lim6(1,3) ids ot f R(5) s6(3) s1(4) in simp_all)
  show ?thesis
  proof (rule case_passesI)
    show "assert_conversation_conformance (mem_ports cx hmac) d w = Some (w\<lparr>w_store := s10\<rparr>)"
      using s1(1) L M f
      by (simp add: assert_conversation_conformance_def fresh_conversation_def mem_port_simps
          fresh_tenant_eq[OF doc(2) label_okI] id_def[symmetric] cid_def[symmetric] t_def[symmetric] other_def[symmetric]
          c0_def[symmetric] a_def[symmetric] b_def[symmetric] z_def[symmetric] labelled_def pointed_def del: One_nat_def)
    have "dom (map_of (st_conversations s10)) \<subseteq> dom (map_of (st_conversations (w_store w))) \<union> {cid 0, cid 2, cid 3, cid 4}"
      using s10(5) s6(4) unfolding s1(5) f by blast
    then show "ready n q p (w\<lparr>w_store := s10\<rparr>)" "grows d w (w\<lparr>w_store := s10\<rparr>)"
      using conv_case[OF r s10(1), of n "{cid 0, cid 2, cid 3, cid 4}" d] s10(2-4) lim6(1,2) s6(3) s1(4) new(7)
      by (simp_all add: cid_def)
  qed
qed

section \<open>Events and the turn lock\<close>

text \<open>One turn: its marker when the lock is taken, a refusal for anybody else, its marker when it ends.\<close>

definition started_stream :: "conversation_id \<Rightarrow> response_id \<Rightarrow> conversation_event_stream" where
  "started_stream cid r1 = (stream_push cid (TurnStarted r1) 1000 Stream_default)\<lparr>cs_lock_seq := Some 0\<rparr>"

definition turn_stream :: "conversation_id \<Rightarrow> response_id \<Rightarrow> conversation_event_stream" where
  "turn_stream cid r1 = (stream_push cid (TurnCompleted r1 Completed) 1300 (started_stream cid r1))\<lparr>
    cs_last_completed := Some (r1, 1)\<rparr>"

definition held_by :: "conversation \<Rightarrow> response_id option \<Rightarrow> conversation" where
  "held_by c r = c\<lparr>cv_active_response_id := r\<rparr>"

lemma held_by_fields [simp]:
  "cv_id (held_by c r) = cv_id c" "cv_tenant_id (held_by c r) = cv_tenant_id c" "cv_active_response_id (held_by c r) = r"
  "held_by (held_by c r) r' = held_by c r'" "cv_active_response_id c = r \<Longrightarrow> held_by c r = c"
  by (simp_all add: held_by_def)

lemma turn_lock_steps:
  assumes at: "conv_at (w_store w) c Stream_default sn" and free: "cv_active_response_id c = None"
    and room: "8 \<le> st_max_events_per_conversation (w_store w)" and ids: "new_id ports d 1 \<noteq> new_id ports d 0"
    and mem: "ps_conversation ports = mem_conversation"
  obtains s where "assert_turn_lock ports d (cv_tenant_id c) (cv_id c) w = Some (0, 1, w\<lparr>w_store := s\<rparr>)"
    "conv_at s c (turn_stream (cv_id c) (new_id ports d 0)) sn" "conv_rest {cv_id c} (w_store w) s"
    "length (st_conversations s) = length (st_conversations (w_store w))"
    "dom (map_of (st_conversations s)) = dom (map_of (st_conversations (w_store w)))"
proof -
  let ?t = "cv_tenant_id c" and ?c = "cv_id c"
  define r1 where "r1 = new_id ports d 0"
  obtain s1 where s1: "acquire_active ?t ?c r1 1000 (w_store w) = (Inr 0, s1)"
      "conv_at s1 (held_by c (Some r1)) (started_stream ?c r1) sn" "conv_rest {?c} (w_store w) s1"
      "length (st_conversations s1) = length (st_conversations (w_store w))"
      "dom (map_of (st_conversations s1)) = dom (map_of (st_conversations (w_store w)))"
    by (rule acquire_at[OF at free, of r1 1000]) (use room in \<open>simp_all add: Stream_default_def started_stream_def held_by_def\<close>)
  have max: "st_max_events_per_conversation s1 = st_max_events_per_conversation (w_store w)"
    using s1(3) ledger_part_D(11)[of s1 "w_store w"] by (simp add: conv_rest_def)
  have lock: "acquire_active ?t ?c (new_id ports d 1) 1100 s1 = (Inl (CBusy r1), s1)" "acquire_active ?t ?c r1 1200 s1 = (Inr 0, s1)"
    using acquire_busy[OF s1(2), of r1 "new_id ports d 1"] acquire_held[OF s1(2), of r1 0] ids
    by (simp_all add: r1_def started_stream_def)
  obtain s2 where s2: "release_active ?t ?c r1 Completed 1300 s1 = (Inr 1, s2)"
      "conv_at s2 c (turn_stream ?c r1) sn" "conv_rest {?c} s1 s2"
      "length (st_conversations s2) = length (st_conversations s1)" "dom (map_of (st_conversations s2)) = dom (map_of (st_conversations s1))"
    by (rule release_at[OF s1(2), of r1 Completed 1300])
      (use room max free in \<open>simp_all add: started_stream_def turn_stream_def Stream_default_def stream_push_def flip: held_by_def\<close>)
  have idle: "release_active ?t ?c r1 Completed 1400 s2 = (Inr 0, s2)" by (rule release_idle[OF s2(2)]) (simp add: free)
  have reads: "conv_read_waiting ?t ?c after limit [s1] = Inr (stream_read (started_stream ?c r1) after limit)"
      "conv_read_waiting ?t ?c after limit [s2] = Inr (stream_read (turn_stream ?c r1) after limit)" for after limit
    using conv_read_at[OF s1(2)] conv_read_at[OF s2(2)] by simp_all
  show thesis
  proof (rule that[of s2])
    show "assert_turn_lock ports d (cv_tenant_id c) (cv_id c) w = Some (0, 1, w\<lparr>w_store := s2\<rparr>)"
      using s1(1) lock s2(1) idle reads conv_get_at[OF s1(2)] conv_get_at[OF s2(2)] free
      by (simp add: assert_turn_lock_def mem mem_port_simps r1_def[symmetric] started_stream_def turn_stream_def stream_read_def
          conv_read_start_def stream_push_def Stream_default_def single_event_def is_turn_started_def is_turn_completed_def)
  qed (use s2 s1 in \<open>simp_all add: r1_def conv_rest_def\<close>)
qed

text \<open>The event limit is read by no invariant, and the case puts it back above the events it leaves.\<close>

lemma limit_at:
  "conv_open (set_max_events_per_conversation n s) = conv_open s"
  "conv_at (set_max_events_per_conversation n s) = conv_at s"
  "ledger_part (set_max_events_per_conversation n s) = set_max_events_per_conversation n (ledger_part s)"
proof -
  have w: "conv_wf (set_max_events_per_conversation n s) = conv_wf s" by (simp add: set_max_events_per_conversation_def)
  then show op: "conv_open (set_max_events_per_conversation n s) = conv_open s"
    by (simp add: conv_open_def) (simp add: set_max_events_per_conversation_def)
  show "conv_at (set_max_events_per_conversation n s) = conv_at s"
    by (simp add: conv_at_def op fun_eq_iff stream_of_def snapshot_of_def) (simp add: set_max_events_per_conversation_def)
  show "ledger_part (set_max_events_per_conversation n s) = set_max_events_per_conversation n (ledger_part s)"
    by (simp add: ledger_part_def set_max_events_per_conversation_def)
qed

lemma ready_limit:
  assumes "ready n q p w" "8 \<le> k"
  shows "ready n q p (w\<lparr>w_store := set_max_events_per_conversation k (w_store w)\<rparr>)"
proof -
  have l: "ledger_at q p (set_max_events_per_conversation k s) = ledger_at q p s" for s
    by (simp add: ledger_at_def queued_rows_def rows_in_def is_queued_def[abs_def] set_max_events_per_conversation_def cong: filter_cong)
  show ?thesis
    using readyD[OF assms(1)] assms(2)
    by (simp add: ready_def l limit_at) (simp add: set_max_events_per_conversation_def)
qed

text \<open>After the turn: an event of the caller, a stale lock cleared, and a lock refused to another tenant.\<close>

lemma after_turn_steps:
  assumes at: "conv_at s c (turn_stream (cv_id c) r1) sn" and free: "cv_active_response_id c = None"
    and room: "8 \<le> st_max_events_per_conversation s" and other: "other \<noteq> cv_tenant_id c" and k: "is_business kind"
  obtains s1 s2 s3 e where "conv_append_event (cv_tenant_id c) (cv_id c) kind 1500 s = (Inr 2, s1)"
    "conv_read_waiting (cv_tenant_id c) (cv_id c) (Some 1) 10 [s1] = Inr [e]" "cev_seq e = 2" "cev_kind e = kind"
    "\<exists>es. conv_read_waiting (cv_tenant_id c) (cv_id c) None 100 [s1] = Inr es \<and> map cev_seq es = [0, 1, 2]"
    "acquire_active (cv_tenant_id c) (cv_id c) r3 1600 s1 = (Inr 3, s2)"
    "release_stale_active (cv_tenant_id c) (cv_id c) r3 s2 = (Inr True, s3)"
    "conv_get (cv_tenant_id c) (cv_id c) s3 = Inr (Some c)" "acquire_active other (cv_id c) r4 1700 s3 = (Inl CNotFound, s3)"
    "conv_open s3" "conv_rest {cv_id c} s s3" "length (st_conversations s3) = length (st_conversations s)"
    "dom (map_of (st_conversations s3)) = dom (map_of (st_conversations s))"
proof -
  let ?t = "cv_tenant_id c" and ?c = "cv_id c"
  let ?st = "stream_push ?c kind 1500 (turn_stream ?c r1)"
  note defs = turn_stream_def started_stream_def stream_push_def Stream_default_def
  obtain s1 where s1: "conv_append_event ?t ?c kind 1500 s = (Inr 2, s1)" "conv_at s1 c ?st sn" "conv_rest {?c} s s1"
      "length (st_conversations s1) = length (st_conversations s)" "dom (map_of (st_conversations s1)) = dom (map_of (st_conversations s))"
    by (rule event_at[OF at, of kind 1500]) (use k room in \<open>auto simp: is_business_def defs numeral_2_eq_2\<close>)
  have max: "st_max_events_per_conversation s1 = st_max_events_per_conversation s"
    using s1(3) ledger_part_D(11)[of s1 s] by (simp add: conv_rest_def)
  obtain s2 st2 where s2: "acquire_active ?t ?c r3 1600 s1 = (Inr 3, s2)" "conv_at s2 (held_by c (Some r3)) st2 sn"
      "conv_rest {?c} s1 s2" "length (st_conversations s2) = length (st_conversations s1)"
      "dom (map_of (st_conversations s2)) = dom (map_of (st_conversations s1))"
    by (rule acquire_at[OF s1(2) free, of r3 1600]) (use room max in \<open>simp_all add: defs held_by_def eval_nat_numeral\<close>)
  obtain s3 where s3: "release_stale_active ?t ?c r3 s2 = (Inr True, s3)" "conv_at s3 c st2 sn" "conv_rest {?c} s2 s3"
      "length (st_conversations s3) = length (st_conversations s2)" "dom (map_of (st_conversations s3)) = dom (map_of (st_conversations s2))"
    by (rule stale_at[OF s2(2), of r3]) (use free in \<open>simp_all flip: held_by_def\<close>)
  have foreign: "acquire_active other ?c r4 1700 s3 = (Inl CNotFound, s3)"
    by (rule acquire_foreign[OF conv_atD(1)[OF s3(2)] conv_atD(6)[OF s3(2) other]])
  have read: "conv_read_waiting ?t ?c after limit [s1] = Inr (stream_read ?st after limit)" for after limit
    by (rule conv_read_at[OF s1(2)])
  show thesis
    by (rule that[of s1 "last (cs_events ?st)" s2 s3])
      (use s1 s2 s3 foreign read conv_get_at[OF s3(2), of ?t] conv_atD(1)[OF s3(2)] in
        \<open>simp_all add: defs stream_read_def conv_read_start_def conv_rest_def\<close>)
qed

text \<open>A stream with room for two events takes two and refuses the third.\<close>

lemma capped_steps:
  assumes at: "conv_at s c Stream_default sn" and w: "w_store w = set_max_events_per_conversation 2 s"
  obtains s' where
    "append_business (cst_events mem_conversation) (cv_tenant_id c) (cv_id c) [2000, 2001] w = Some (w\<lparr>w_store := s'\<rparr>)"
    "conv_append_event (cv_tenant_id c) (cv_id c) (Business ''b'' (JObj [])) 2100 s' = (Inl CCapacityExceeded, s')"
    "conv_open s'" "conv_rest {cv_id c} (w_store w) s'" "length (st_conversations s') = length (st_conversations s)"
    "dom (map_of (st_conversations s')) = dom (map_of (st_conversations s))"
proof -
  let ?t = "cv_tenant_id c" and ?c = "cv_id c" and ?b = "Business ''b'' (JObj [])"
  let ?s = "set_max_events_per_conversation 2 s"
  have f: "st_max_events_per_conversation ?s = 2" "st_conversations ?s = st_conversations s"
    by (simp_all add: set_max_events_per_conversation_def)
  have at0: "conv_at ?s c Stream_default sn" using at by (simp add: limit_at)
  obtain s1 where s1: "conv_append_event ?t ?c ?b 2000 ?s = (Inr 0, s1)" "conv_at s1 c (stream_push ?c ?b 2000 Stream_default) sn"
      "conv_rest {?c} ?s s1" "length (st_conversations s1) = length (st_conversations ?s)"
      "dom (map_of (st_conversations s1)) = dom (map_of (st_conversations ?s))"
    by (rule event_at[OF at0, of ?b 2000]) (use f in \<open>simp_all add: Stream_default_def\<close>)
  have m1: "st_max_events_per_conversation s1 = 2" using s1(3) ledger_part_D(11)[of s1 ?s] f by (simp add: conv_rest_def)
  obtain s2 where s2: "conv_append_event ?t ?c ?b 2001 s1 = (Inr 1, s2)"
      "conv_at s2 c (stream_push ?c ?b 2001 (stream_push ?c ?b 2000 Stream_default)) sn"
      "conv_rest {?c} s1 s2" "length (st_conversations s2) = length (st_conversations s1)"
      "dom (map_of (st_conversations s2)) = dom (map_of (st_conversations s1))"
    by (rule event_at[OF s1(2), of ?b 2001]) (use m1 in \<open>simp_all add: Stream_default_def stream_push_def\<close>)
  have m2: "st_max_events_per_conversation s2 = 2" using s2(3) ledger_part_D(11)[of s2 s1] m1 by (simp add: conv_rest_def)
  have full: "conv_append_event ?t ?c ?b 2100 s2 = (Inl CCapacityExceeded, s2)"
    by (rule event_capped[OF s2(2)]) (simp add: m2 Stream_default_def stream_push_def)
  show thesis
    by (rule that[OF _ full conv_atD(1)[OF s2(2)]])
      (use s1 s2 f w in \<open>simp_all add: mem_port_simps conv_rest_def\<close>)
qed

lemma conversation_events_case:
  assumes doc: "codec_documented cx" "draws_ok cx d" and r: "ready (n + 60) q p w" and u: "unused d w"
  shows "case_passes d n q p w (assert_conversation_events_conformance (mem_ports cx hmac) d w)"
proof -
  note R = readyD[OF r] and new = drawn_new[OF u]
  define id where "id = new_id (mem_ports cx hmac) d"
  define cid where "cid = new_conversation_id d"
  define t where "t = tenant_of d 0 ''conv-ev''"
  define other where "other = tenant_of d 1 ''conv-ev-other''"
  define c where "c = Conversation_new (cid 0) t [] 1000"
  define c' where "c' = Conversation_new (cid 1) t [] 1000"
  define nt where "nt = Business ''note'' (JObj [(''k'', JStr ''v'')])"
  have nt: "is_business nt" by (simp add: nt_def is_business_def)
  have cx: "dr_codec d = cx" using doc(2) by (simp add: draws_ok_def)
  have f: "cv_id c = cid 0" "cv_tenant_id c = t" "cv_active_response_id c = None"
      "cv_id c' = cid 1" "cv_tenant_id c' = t" "cv_active_response_id c' = None"
    by (simp_all add: c_def c'_def Conversation_new_def)
  have ids: "cid i = cid j \<longleftrightarrow> i = j" "id i = id j \<longleftrightarrow> i = j" if "i < 24" "j < 24" for i j
    using doc(2) that by (simp_all add: cid_def id_def)
  have ot: "other \<noteq> t" unfolding t_def other_def by (rule tenant_of_neq[OF doc(2)]) simp
  obtain s1 where s1: "conv_create c (w_store w) = (Inr c, s1)" "conv_at s1 c Stream_default Snapshot_default"
      "conv_rest {cid 0} (w_store w) s1" "length (st_conversations s1) = Suc (length (st_conversations (w_store w)))"
      "dom (map_of (st_conversations s1)) = insert (cid 0) (dom (map_of (st_conversations (w_store w))))"
    by (rule conv_create_at[OF R(4), of c]) (use new R f in \<open>simp_all add: cid_def\<close>)
  have p1: "ledger_part s1 = ledger_part (w_store w)" using s1(3) by (simp add: conv_rest_def)
  obtain s2 where s2: "assert_turn_lock (mem_ports cx hmac) d t (cid 0) (w\<lparr>w_store := s1\<rparr>) = Some (0, 1, w\<lparr>w_store := s2\<rparr>)"
      "conv_at s2 c (turn_stream (cv_id c) (id 0)) Snapshot_default" "conv_rest {cid 0} s1 s2"
      "length (st_conversations s2) = length (st_conversations s1)" "dom (map_of (st_conversations s2)) = dom (map_of (st_conversations s1))"
    by (rule turn_lock_steps[of "w\<lparr>w_store := s1\<rparr>" c Snapshot_default "mem_ports cx hmac" d])
      (use s1(2) f R(6) ledger_part_D(11)[OF p1] ids(2)[of 1 0] in \<open>simp_all add: id_def\<close>)
  have p2: "ledger_part s2 = ledger_part (w_store w)" using s2(3) p1 by (simp add: conv_rest_def)
  obtain s3 s4 s5 e where E: "conv_append_event t (cid 0) nt 1500 s2 = (Inr 2, s3)"
    "conv_read_waiting t (cid 0) (Some 1) 10 [s3] = Inr [e]" "cev_seq e = 2" "cev_kind e = nt"
    "\<exists>es. conv_read_waiting t (cid 0) None 100 [s3] = Inr es \<and> map cev_seq es = [0, 1, 2]"
    "acquire_active t (cid 0) (id 2) 1600 s3 = (Inr 3, s4)" "release_stale_active t (cid 0) (id 2) s4 = (Inr True, s5)"
    "conv_get t (cid 0) s5 = Inr (Some c)" "acquire_active other (cid 0) (id 3) 1700 s5 = (Inl CNotFound, s5)"
    "conv_open s5" "conv_rest {cid 0} s2 s5" "length (st_conversations s5) = length (st_conversations s2)"
    "dom (map_of (st_conversations s5)) = dom (map_of (st_conversations s2))"
    by (rule after_turn_steps[OF s2(2) f(3), of other nt "id 2" "id 3"])
      (use f ot R(6) ledger_part_D(11)[OF p2] in \<open>simp_all add: nt\<close>)
  obtain es where es: "conv_read_waiting t (cid 0) None 100 [s3] = Inr es" "map cev_seq es = [0, 1, 2]"
    using E(5) by (elim exE conjE)
  have l5: "st_max_conversations s5 = st_max_conversations (w_store w)" "ledger_part s5 = ledger_part (w_store w)"
      "map_of (st_conversations s5) (cid 1) = None"
    using E(11) s2(3) s1(3) ids(1)[of 1 0] new(5)[of 1] by (simp_all add: conv_rest_def cid_def)
  obtain s6 where s6: "conv_create c' s5 = (Inr c', s6)" "conv_at s6 c' Stream_default Snapshot_default"
      "conv_rest {cid 1} s5 s6" "length (st_conversations s6) = Suc (length (st_conversations s5))"
      "dom (map_of (st_conversations s6)) = insert (cid 1) (dom (map_of (st_conversations s5)))"
    by (rule conv_create_at[OF E(10), of c']) (use l5 f R(5) E(12) s2(4) s1(4) in simp_all)
  let ?s6 = "set_max_events_per_conversation 2 s6"
  obtain s7 where s7: "append_business (cst_events mem_conversation) t (cid 1) [2000, 2001] (w\<lparr>w_store := ?s6\<rparr>) = Some (w\<lparr>w_store := s7\<rparr>)"
    "conv_append_event t (cid 1) (Business ''b'' (JObj [])) 2100 s7 = (Inl CCapacityExceeded, s7)"
    "conv_open s7" "conv_rest {cid 1} ?s6 s7" "length (st_conversations s7) = length (st_conversations s6)"
    "dom (map_of (st_conversations s7)) = dom (map_of (st_conversations s6))"
    by (rule capped_steps[OF s6(2), of "w\<lparr>w_store := ?s6\<rparr>"]) (use f in simp_all)
  let ?s8 = "set_max_events_per_conversation 100000 s7"
  show ?thesis
  proof (rule case_passesI)
    show "assert_conversation_events_conformance (mem_ports cx hmac) d w = Some (w\<lparr>w_store := ?s8\<rparr>)"
      using s1(1) s2(1) E(1-4,6-9) es s6(1) s7(1,2) f nt
      by (simp add: assert_conversation_events_conformance_def fresh_conversation_def mem_port_simps cx
          fresh_tenant_eq[OF doc(2) label_okI] id_def[symmetric] cid_def[symmetric] t_def[symmetric] other_def[symmetric]
          c_def[symmetric] c'_def[symmetric] nt_def[symmetric] single_event_def content_free_def
          conversation_event_kind_to_json_def del: One_nat_def append_business.simps)
    let ?w = "w\<lparr>w_store := set_max_events_per_conversation 100000 (w_store w)\<rparr>"
    have twice: "set_max_events_per_conversation 100000 (set_max_events_per_conversation 2 x) = set_max_events_per_conversation 100000 x" for x
      by (simp add: set_max_events_per_conversation_def)
    have fields: "st_conversations (set_max_events_per_conversation k x) = st_conversations x"
        "st_max_conversations (set_max_events_per_conversation k x) = st_max_conversations x" for k x
      by (simp_all add: set_max_events_per_conversation_def)
    have part: "ledger_part ?s8 = ledger_part (w_store ?w)" "st_max_conversations ?s8 = st_max_conversations (w_store ?w)"
      using s7(4) s6(3) l5(1,2) by (simp_all add: conv_rest_def limit_at twice fields)
    have dom: "dom (map_of (st_conversations ?s8)) \<subseteq> dom (map_of (st_conversations (w_store ?w))) \<union> {cid 0, cid 1}"
      using s7(6) s6(5) E(13) s2(5) s1(5) by (auto simp: fields)
    have "conv_open ?s8" "length (st_conversations ?s8) + n \<le> length (st_conversations (w_store ?w)) + (n + 60)"
        "cid_uuid ` {cid 0, cid 1} \<subseteq> drawn_conversations d"
      using s7(3,5) s6(4) E(12) s2(4) s1(4) new(7) by (simp_all add: limit_at fields cid_def)
    from conv_case[OF ready_limit[OF r, of 100000] this(1) part this(2) _ dom this(3)]
    have "ready n q p (?w\<lparr>w_store := ?s8\<rparr>)" "grows d ?w (?w\<lparr>w_store := ?s8\<rparr>)" by simp_all
    then show "ready n q p (w\<lparr>w_store := ?s8\<rparr>)" "grows d w (w\<lparr>w_store := ?s8\<rparr>)"
      by (simp_all add: grows_def used_ids_def used_keys_def used_conversations_def set_max_events_per_conversation_def)
  qed
qed

end
