(* ===== verification/Contract_Suite.thy ===== *)
theory Contract_Suite
  imports Contract_Pressure Contract_Conversations
begin

text \<open>
  The whole contract on the in-memory ports: one pass over the table of cases, in every order in which
  the scheduler runs the racing calls, and what that pass leaves behind.
\<close>

section \<open>The draws of a pass\<close>

text \<open>Every case draws uuids of its own, and each group of spawned calls runs once in some order.\<close>

definition disjoint_draws :: "draws \<Rightarrow> draws \<Rightarrow> bool" where
  "disjoint_draws d e \<longleftrightarrow> drawn_responses d \<inter> drawn_responses e = {} \<and> drawn_keys d \<inter> drawn_keys e = {} \<and>
    drawn_conversations d \<inter> drawn_conversations e = {}"

definition suite_draws :: "codec \<Rightarrow> nat \<Rightarrow> (nat \<Rightarrow> draws) \<Rightarrow> bool" where
  "suite_draws cx n ds \<longleftrightarrow> (\<forall>k < n. draws_ok cx (ds k)) \<and> (\<forall>j < n. \<forall>k < n. j \<noteq> k \<longrightarrow> disjoint_draws (ds j) (ds k))"

definition orders_ok :: "(nat \<Rightarrow> draws) \<Rightarrow> bool" where
  "orders_ok ds \<longleftrightarrow> schedule 24 (dr_order (ds 6) 0) \<and> schedule 24 (dr_order (ds 6) 1) \<and> schedule 8 (dr_order (ds 6) 2) \<and>
    (\<forall>i < 3. schedule 12 (dr_order (ds 9) i))"

lemma unused_next:
  assumes "grows d w w'" "unused e w" "disjoint_draws d e"
  shows "unused e w'"
  using assms unfolding grows_def unused_def disjoint_draws_def by blast

section \<open>Running cases in sequence\<close>

text \<open>A world in which the cases from the \<open>k\<close>-th on can run.\<close>

definition suite_at :: "(nat \<Rightarrow> draws) \<Rightarrow> nat \<Rightarrow> nat \<Rightarrow> nat \<Rightarrow> response_id list \<Rightarrow> nat \<Rightarrow> world \<Rightarrow> bool" where
  "suite_at ds N k n q p w \<longleftrightarrow> ready n q p w \<and> (\<forall>j. k \<le> j \<longrightarrow> j < N \<longrightarrow> unused (ds j) w)"

definition passed :: "contract_case list \<Rightarrow> suite_report \<Rightarrow> suite_report" where
  "passed cs report = report\<lparr>sr_passed := sr_passed report @ map cc_name cs\<rparr>"

definition runs :: "world port_set \<Rightarrow> (nat \<Rightarrow> draws) \<Rightarrow> nat \<Rightarrow> nat \<Rightarrow> contract_case list \<Rightarrow>
    nat \<Rightarrow> response_id list \<Rightarrow> nat \<Rightarrow> nat \<Rightarrow> response_id list \<Rightarrow> nat \<Rightarrow> bool" where
  "runs ports ds N k cs n q p n' q' p' \<longleftrightarrow>
    (\<forall>report w. suite_at ds N k n q p w \<longrightarrow>
      (\<exists>w'. (\<forall>rest. run_cases ports ds k (cs @ rest) report w = run_cases ports ds (k + length cs) rest (passed cs report) w') \<and>
        suite_at ds N (k + length cs) n' q' p' w'))"

lemma runs_append:
  assumes a: "runs ports ds N k cs n q p n1 q1 p1" and b: "runs ports ds N (k + length cs) cs' n1 q1 p1 n2 q2 p2"
  shows "runs ports ds N k (cs @ cs') n q p n2 q2 p2"
  unfolding runs_def
proof (intro allI impI)
  fix report w
  assume "suite_at ds N k n q p w"
  then obtain w1 where w1: "\<And>rest. run_cases ports ds k (cs @ rest) report w = run_cases ports ds (k + length cs) rest (passed cs report) w1"
      "suite_at ds N (k + length cs) n1 q1 p1 w1"
    using a unfolding runs_def by blast
  from b w1(2) obtain w2 where w2: "\<And>rest. run_cases ports ds (k + length cs) (cs' @ rest) (passed cs report) w1 =
        run_cases ports ds (k + length cs + length cs') rest (passed cs' (passed cs report)) w2"
      "suite_at ds N (k + length cs + length cs') n2 q2 p2 w2"
    unfolding runs_def by blast
  have "passed (cs @ cs') report = passed cs' (passed cs report)" by (simp add: passed_def)
  then show "\<exists>w'. (\<forall>rest. run_cases ports ds k ((cs @ cs') @ rest) report w =
        run_cases ports ds (k + length (cs @ cs')) rest (passed (cs @ cs') report) w') \<and>
      suite_at ds N (k + length (cs @ cs')) n2 q2 p2 w'"
    using w1(1)[of "cs' @ rest" for rest] w2 by (intro exI[of _ w2]) (simp add: add.assoc)
qed

lemma runs_backend:
  assumes draws: "suite_draws cx N ds" "k < N"
    and pass: "\<And>w. ready (n + 60) q p w \<Longrightarrow> unused (ds k) w \<Longrightarrow> case_passes (ds k) n q' p' w (A w)"
    and run: "\<And>w. run_case ports (ds k) c w = do { s \<leftarrow> A w; Some (Passed, s) }"
  shows "runs ports ds N k [c] (n + 60) q p n q' p'"
  unfolding runs_def
proof (intro allI impI)
  fix report w
  assume at: "suite_at ds N k (n + 60) q p w"
  then have "case_passes (ds k) n q' p' w (A w)" using pass draws(2) by (simp add: suite_at_def)
  then obtain w' where w': "A w = Some w'" "ready n q' p' w'" "grows (ds k) w w'" by (auto simp: case_passes_def)
  have "unused (ds j) w'" if "k < j" "j < N" for j
    by (rule unused_next[OF w'(3)]) (use at draws that in \<open>auto simp: suite_at_def suite_draws_def\<close>)
  then show "\<exists>w'. (\<forall>rest. run_cases ports ds k ([c] @ rest) report w = run_cases ports ds (k + length [c]) rest (passed [c] report) w') \<and>
      suite_at ds N (k + length [c]) n q' p' w'"
    using w' by (intro exI[of _ w']) (simp add: run passed_def suite_at_def Suc_le_eq)
qed

lemma runs_pure:
  assumes run: "\<And>w. run_case ports (ds k) c w = Some (Passed, w)"
  shows "runs ports ds N k [c] n q p n q p"
  by (auto simp: runs_def run passed_def suite_at_def intro!: exI)

section \<open>The cases of the table\<close>

lemma table: "contract_cases = [contract_cases ! 0, contract_cases ! 1, contract_cases ! 2, contract_cases ! 3, contract_cases ! 4,
    contract_cases ! 5, contract_cases ! 6, contract_cases ! 7, contract_cases ! 8, contract_cases ! 9, contract_cases ! 10,
    contract_cases ! 11, contract_cases ! 12, contract_cases ! 13, contract_cases ! 14]"
  by (simp add: contract_cases_def)

lemma backend_runs:
  "run_case ports d (contract_cases ! 0) w = do { s \<leftarrow> assert_event_log_conformance ports d w; Some (Passed, s) }"
  "run_case ports d (contract_cases ! 1) w = do { s \<leftarrow> assert_ledger_conformance ports d w; Some (Passed, s) }"
  "run_case ports d (contract_cases ! 2) w = do { s \<leftarrow> assert_cancel_conformance ports d w; Some (Passed, s) }"
  "run_case ports d (contract_cases ! 3) w = do { s \<leftarrow> assert_context_conformance ports d w; Some (Passed, s) }"
  "run_case ports d (contract_cases ! 5) w = do { s \<leftarrow> assert_global_claim ports d w; Some (Passed, s) }"
  "run_case ports d (contract_cases ! 6) w = do { s \<leftarrow> assert_overload_integrity ports d w; Some (Passed, s) }"
  "run_case ports d (contract_cases ! 7) w = do { s \<leftarrow> assert_output_provenance ports d w; Some (Passed, s) }"
  "run_case ports d (contract_cases ! 8) w = do { s \<leftarrow> assert_durability_order ports d w; Some (Passed, s) }"
  "run_case ports d (contract_cases ! 9) w = do { s \<leftarrow> assert_concurrency_conformance ports d w; Some (Passed, s) }"
  "run_case ports d (contract_cases ! 13) w = do { s \<leftarrow> assert_conversation_conformance ports d w; Some (Passed, s) }"
  "run_case ports d (contract_cases ! 14) w = do { s \<leftarrow> assert_conversation_events_conformance ports d w; Some (Passed, s) }"
  by (simp_all add: contract_cases_def run_case_def Let_def)

lemma protocol_runs:
  assumes "codec_documented cx" "draws_ok cx d" "hmac_documented cx hmac"
  shows "run_case (mem_ports cx hmac) d (contract_cases ! 4) w = Some (Passed, w)"
    "run_case (mem_ports cx hmac) d (contract_cases ! 10) w = Some (Passed, w)"
    "run_case (mem_ports cx hmac) d (contract_cases ! 11) w = Some (Passed, w)"
    "run_case (mem_ports cx hmac) d (contract_cases ! 12) w = Some (Passed, w)"
proof -
  obtain ig where ig: "mem_integrity hmac = Some ig" "assert_integrity_conformance ig d = Some ()"
    by (rule integrity_case[OF assms])
  show "run_case (mem_ports cx hmac) d (contract_cases ! 4) w = Some (Passed, w)"
    using ig by (simp add: contract_cases_def run_case_def mem_ports_def Let_def)
qed (simp_all add: contract_cases_def run_case_def Let_def emitted_items_are_input protocol_subset_case[OF assms(2)] coalescing_case)

text \<open>Up to the overload case any queue and any number of rows in progress will do.\<close>

lemma first_cases:
  assumes doc: "codec_documented cx" "hmac_documented cx hmac" and draws: "suite_draws cx N ds" "6 \<le> N"
  shows "runs (mem_ports cx hmac) ds N 0 (take 6 contract_cases) (n + 300) q p n [] p"
proof -
  note ok = draws(1)[unfolded suite_draws_def, THEN conjunct1, rule_format]
  let ?P = "mem_ports cx hmac" and ?c = "\<lambda>i. contract_cases ! i"
  let ?q = "tl (q @ [new_id ?P (ds 1) 0])"
  have k: "k < N" if "k < 6" for k using draws(2) that by simp
  have "runs ?P ds N 0 [?c 0] (n + 240 + 60) q p (n + 240) q p"
    by (rule runs_backend[OF draws(1) k event_log_case backend_runs(1)]) (simp_all add: ok k)
  moreover have "runs ?P ds N 1 [?c 1] (n + 180 + 60) q p (n + 180) ?q p"
    by (rule runs_backend[OF draws(1) k ledger_case_passes[OF doc(1)] backend_runs(2)]) (simp_all add: ok k)
  moreover have "runs ?P ds N 2 [?c 2] (n + 120 + 60) ?q p (n + 120) ?q p"
    by (rule runs_backend[OF draws(1) k cancel_case[OF doc(1)] backend_runs(3)]) (simp_all add: ok k)
  moreover have "runs ?P ds N 3 [?c 3] (n + 60 + 60) ?q p (n + 60) ?q p"
    by (rule runs_backend[OF draws(1) k context_case[OF doc(1)] backend_runs(4)]) (simp_all add: ok k)
  moreover have "runs ?P ds N 4 [?c 4] (n + 60) ?q p (n + 60) ?q p"
    by (rule runs_pure) (rule protocol_runs(1)[OF doc(1) ok doc(2)], simp add: k)
  moreover have "runs ?P ds N 5 [?c 5] (n + 60) ?q p n [] p"
    by (rule runs_backend[OF draws(1) k global_claim_case[OF doc(1)] backend_runs(5)]) (simp_all add: ok k)
  ultimately have "runs ?P ds N 0 ([?c 0] @ [?c 1] @ [?c 2] @ [?c 3] @ [?c 4] @ [?c 5]) (n + 300) q p n [] p"
    by (intro runs_append[where cs = "[x]" for x]) (simp_all add: numeral_eq_Suc)
  moreover have "[?c 0] @ [?c 1] @ [?c 2] @ [?c 3] @ [?c 4] @ [?c 5] = take 6 contract_cases" by (simp add: contract_cases_def)
  ultimately show ?thesis by simp
qed

text \<open>The remaining cases, once nothing is in progress.\<close>

lemma last_cases:
  assumes doc: "codec_documented cx" "hmac_documented cx hmac" and draws: "suite_draws cx N ds" "15 \<le> N" and orders: "orders_ok ds"
  obtains x where "runs (mem_ports cx hmac) ds N 6 (drop 6 contract_cases) (n + 360) [] 0 n [x] 7"
proof -
  note ok = draws(1)[unfolded suite_draws_def, THEN conjunct1, rule_format]
  have o: "schedule 24 (dr_order (ds 6) 0)" "schedule 24 (dr_order (ds 6) 1)" "schedule 8 (dr_order (ds 6) 2)"
    "schedule 12 (dr_order (ds 9) 0)" "schedule 12 (dr_order (ds 9) 1)" "schedule 12 (dr_order (ds 9) 2)"
    using orders by (simp_all add: orders_ok_def)
  let ?P = "mem_ports cx hmac" and ?c = "\<lambda>i. contract_cases ! i"
  let ?q = "[new_id ?P (ds 8) 0, new_id ?P (ds 8) 1]" and ?x = "[new_id ?P (ds 9) (Suc (hd (dr_order (ds 9) 1)))]"
  have k: "k < N" if "k < 15" for k using draws(2) that by simp
  have "runs ?P ds N 6 [?c 6] (n + 300 + 60) [] 0 (n + 300) [] 3"
    by (rule runs_backend[OF draws(1) k overload_case[OF doc(1)] backend_runs(6)]) (simp_all add: ok k o del: One_nat_def)
  moreover have "runs ?P ds N 7 [?c 7] (n + 240 + 60) [] 3 (n + 240) [] (Suc 3)"
    by (rule runs_backend[OF draws(1) k provenance_case[OF doc(1)] backend_runs(7)]) (simp_all add: ok k)
  moreover have "runs ?P ds N 8 [?c 8] (n + 180 + 60) [] 4 (n + 180) ([] @ ?q) 4"
    by (rule runs_backend[OF draws(1) k durability_case[OF doc(1)] backend_runs(8)]) (simp_all add: ok k)
  moreover have "runs ?P ds N 9 [?c 9] (n + 120 + 60) ?q 4 (n + 120) ?x (4 + Suc (length ?q))"
    by (rule runs_backend[OF draws(1) k concurrency_case[OF doc(1)] backend_runs(9)]) (simp_all add: ok k o del: One_nat_def)
  moreover have "runs ?P ds N 10 [?c 10] (n + 120) ?x 7 (n + 120) ?x 7"
    by (rule runs_pure) (rule protocol_runs(2)[OF doc(1) ok doc(2)], simp add: k)
  moreover have "runs ?P ds N 11 [?c 11] (n + 120) ?x 7 (n + 120) ?x 7"
    by (rule runs_pure) (rule protocol_runs(3)[OF doc(1) ok doc(2)], simp add: k)
  moreover have "runs ?P ds N 12 [?c 12] (n + 120) ?x 7 (n + 120) ?x 7"
    by (rule runs_pure) (rule protocol_runs(4)[OF doc(1) ok doc(2)], simp add: k)
  moreover have "runs ?P ds N 13 [?c 13] (n + 60 + 60) ?x 7 (n + 60) ?x 7"
    by (rule runs_backend[OF draws(1) k conversation_case[OF doc(1)] backend_runs(10)]) (simp_all add: ok k)
  moreover have "runs ?P ds N 14 [?c 14] (n + 60) ?x 7 n ?x 7"
    by (rule runs_backend[OF draws(1) k conversation_events_case[OF doc(1)] backend_runs(11)]) (simp_all add: ok k)
  ultimately have "runs ?P ds N 6 ([?c 6] @ [?c 7] @ [?c 8] @ [?c 9] @ [?c 10] @ [?c 11] @ [?c 12] @ [?c 13] @ [?c 14]) (n + 360) [] 0 n ?x 7"
    by (intro runs_append[where cs = "[x]" for x]) (simp_all add: numeral_eq_Suc)
  moreover have "[?c 6] @ [?c 7] @ [?c 8] @ [?c 9] @ [?c 10] @ [?c 11] @ [?c 12] @ [?c 13] @ [?c 14] = drop 6 contract_cases"
    by (simp add: contract_cases_def)
  ultimately show thesis using that by simp
qed

section \<open>A pass, and another\<close>

definition full_report :: "string \<Rightarrow> suite_report" where
  "full_report label = \<lparr>sr_label = label, sr_passed = map cc_name contract_cases, sr_skipped = []\<rparr>"

lemma pass_completes:
  assumes doc: "codec_documented cx" "hmac_documented cx hmac" and draws: "suite_draws cx N ds" "15 \<le> N" "orders_ok ds"
    and at: "suite_at ds N 0 (n + 660) q 0 w"
  obtains w' x where "run_suite (mem_ports cx hmac) ds w = Some (full_report ''unlabelled'', w')" "suite_at ds N 15 n [x] 7 w'"
proof -
  have a: "runs (mem_ports cx hmac) ds N 0 (take 6 contract_cases) (n + 660) q 0 (n + 360) [] 0"
    using first_cases[OF doc draws(1), where q = q and n = "n + 360" and p = 0] draws(2) by (simp add: add.commute)
  obtain x where b: "runs (mem_ports cx hmac) ds N 6 (drop 6 contract_cases) (n + 360) [] 0 n [x] 7"
    by (rule last_cases[OF doc draws(1,2,3)])
  have len: "length contract_cases = 15" by (simp add: contract_cases_def)
  have "runs (mem_ports cx hmac) ds N 0 (take 6 contract_cases @ drop 6 contract_cases) (n + 660) q 0 n [x] 7"
    by (rule runs_append[OF a]) (use b len in simp)
  then have r: "runs (mem_ports cx hmac) ds N 0 contract_cases (n + 660) q 0 n [x] 7" by simp
  define rep where "rep = \<lparr>sr_label = ''unlabelled'', sr_passed = [], sr_skipped = []\<rparr>"
  obtain w' where w': "\<And>rest. run_cases (mem_ports cx hmac) ds 0 (contract_cases @ rest) rep w =
        run_cases (mem_ports cx hmac) ds (0 + length contract_cases) rest (passed contract_cases rep) w'"
      "suite_at ds N (0 + length contract_cases) n [x] 7 w'"
    using r at unfolding runs_def by blast
  have "passed contract_cases rep = full_report ''unlabelled''" by (simp add: passed_def rep_def full_report_def)
  then have "run_suite (mem_ports cx hmac) ds w = Some (full_report ''unlabelled'', w')"
    using w'(1)[of "[]"] by (simp add: run_suite_def run_suite_inner_def rep_def)
  then show thesis using that w'(2) len by simp
qed

text \<open>On a back end with a row in progress a pass panics in the overload case.\<close>

lemma pass_panics:
  assumes doc: "codec_documented cx" "hmac_documented cx hmac" and draws: "suite_draws cx N ds" "7 \<le> N" "schedule 24 (dr_order (ds 6) 0)"
    and at: "suite_at ds N 0 (n + 360) q p w" and held: "0 < p"
  shows "run_suite (mem_ports cx hmac) ds w = None"
proof -
  have a: "runs (mem_ports cx hmac) ds N 0 (take 6 contract_cases) (n + 60 + 300) q p (n + 60) [] p"
    by (rule first_cases[OF doc draws(1)]) (use draws(2) in simp)
  define rep where "rep = \<lparr>sr_label = ''unlabelled'', sr_passed = [], sr_skipped = []\<rparr>"
  have len: "length contract_cases = 15" by (simp add: contract_cases_def)
  have at': "suite_at ds N 0 (n + 60 + 300) q p w" using at by (simp add: add.commute add.left_commute)
  obtain w' where w': "\<And>rest. run_cases (mem_ports cx hmac) ds 0 (take 6 contract_cases @ rest) rep w =
        run_cases (mem_ports cx hmac) ds (0 + length (take 6 contract_cases)) rest (passed (take 6 contract_cases) rep) w'"
      "suite_at ds N (0 + length (take 6 contract_cases)) (n + 60) [] p w'"
    using a at' unfolding runs_def by blast
  have at6: "suite_at ds N 6 (n + 60) [] p w'" using w'(2) len by simp
  have "assert_overload_integrity (mem_ports cx hmac) (ds 6) w' = None"
    by (rule overload_case_fails[OF doc(1)]) (use at6 draws held in \<open>auto simp: suite_draws_def suite_at_def\<close>)
  then have stop: "run_case (mem_ports cx hmac) (ds 6) (contract_cases ! 6) w' = None" by (simp add: backend_runs)
  have "take 6 contract_cases @ contract_cases ! 6 # drop 7 contract_cases = contract_cases"
    using id_take_nth_drop[of 6 contract_cases] len by simp
  then show ?thesis
    using w'(1)[of "contract_cases ! 6 # drop 7 contract_cases"] stop len
    by (simp add: run_suite_def run_suite_inner_def rep_def)
qed

section \<open>The in-memory back end\<close>

lemma MemWorld_ready: "n \<le> 10000 \<Longrightarrow> ready n [] 0 (MemWorld_new clock)"
proof -
  assume n: "n \<le> 10000"
  have "ledger_wf (w_store (MemWorld_new clock))" "conv_wf (w_store (MemWorld_new clock))"
    by (simp_all add: MemWorld_new_def set_max_events_per_conversation_def set_max_records_def set_pending_limit_def)
  then show ?thesis
    using n event_log_wf_new[of 20000 100000]
    by (simp add: ready_def ledger_at_def queued_rows_def rows_in_def conv_open_def MemWorld_new_def EventLog_with_capacity_def
        set_max_events_per_conversation_def set_max_records_def set_pending_limit_def MemStore_new_def)
qed

lemma MemWorld_unused: "unused d (MemWorld_new clock)"
  by (simp add: unused_def used_ids_def used_keys_def used_conversations_def MemWorld_new_def EventLog_with_capacity_def
      set_max_events_per_conversation_def set_max_records_def set_pending_limit_def MemStore_new_def)

lemma MemWorld_suite_at: "n \<le> 10000 \<Longrightarrow> suite_at ds N 0 n [] 0 (MemWorld_new clock)"
  by (simp add: suite_at_def MemWorld_ready MemWorld_unused)

text \<open>The documented behaviour of the other crates, and draws for two passes.\<close>

definition pass_ok :: "codec \<Rightarrow> (string \<Rightarrow> string \<Rightarrow> string) \<Rightarrow> (nat \<Rightarrow> draws) \<Rightarrow> bool" where
  "pass_ok cx hmac ds \<longleftrightarrow> codec_documented cx \<and> hmac_documented cx hmac \<and> suite_draws cx 30 ds \<and>
    orders_ok ds \<and> orders_ok (\<lambda>k. ds (15 + k))"

lemma mem_pass:
  assumes "pass_ok cx hmac ds"
  obtains w' x where "run_mem_suite cx hmac ds clock = Some (full_report ''unlabelled'', w')" "suite_at ds 30 15 8000 [x] 7 w'"
proof -
  have a: "suite_at ds 30 0 (8000 + 660) [] 0 (MemWorld_new clock)" by (rule MemWorld_suite_at) simp
  show thesis
    by (rule pass_completes[OF _ _ _ _ _ a]) (use assms that in \<open>auto simp: pass_ok_def run_mem_suite_def\<close>)
qed

text \<open>C12: The in-memory back end satisfies the whole port contract: whatever uuids the cases draw and in whatever
  order the scheduler runs their racing creates, claims and appends, a pass over the table ends without a
  panic, every case passed and none skipped -- also the integrity case, whose port is optional.\<close>

theorem mem_backend_satisfies_the_contract:
  assumes "pass_ok cx hmac ds"
  shows "\<exists>w'. run_mem_suite cx hmac ds clock = Some (full_report ''unlabelled'', w')"
  by (rule mem_pass[OF assms]) blast

text \<open>The suite cannot be run twice against one back end, though it says it can: a pass leaves seven claimed
  rows in progress, the admission limit counts them, and the overload case of the next pass, which drains
  only queued rows before it sets a limit of three, finds none of its creates admitted and panics.\<close>

theorem second_pass_panics:
  assumes ok: "pass_ok cx hmac ds" and first: "run_mem_suite cx hmac ds clock = Some (report, w')"
  shows "rows_in InProgress (w_store w') = 7 \<and> run_suite (mem_ports cx hmac) (\<lambda>k. ds (15 + k)) w' = None"
proof -
  obtain x where at: "suite_at ds 30 15 8000 [x] 7 w'"
    by (rule mem_pass[OF ok, of clock]) (use first in auto)
  then have at': "suite_at (\<lambda>k. ds (15 + k)) 15 0 (7640 + 360) [x] 7 w'" by (auto simp: suite_at_def)
  have draws: "suite_draws cx 15 (\<lambda>k. ds (15 + k))"
    using ok by (auto simp: pass_ok_def suite_draws_def)
  have "rows_in InProgress (w_store w') = 7" using at by (simp add: suite_at_def ready_def ledger_at_def)
  moreover have "run_suite (mem_ports cx hmac) (\<lambda>k. ds (15 + k)) w' = None"
    by (rule pass_panics[OF _ _ draws _ _ at']) (use ok in \<open>simp_all add: pass_ok_def orders_ok_def\<close>)
  ultimately show ?thesis by simp
qed

section \<open>A concrete pass\<close>

definition hex_digits :: "nat \<Rightarrow> nat \<Rightarrow> string" where
  "hex_digits n a = map (\<lambda>i. char_of (97 + (a div 16 ^ i) mod 16 :: nat)) [0..<n]"

lemma low_digits:
  assumes "\<And>i. i < n \<Longrightarrow> (a div 16 ^ i) mod 16 = (b div 16 ^ i) mod (16 :: nat)"
  shows "a mod 16 ^ n = b mod 16 ^ n"
  using assms
proof (induction n)
  case (Suc n)
  have "x mod 16 ^ Suc n = 16 ^ n * (x div 16 ^ n mod 16) + x mod 16 ^ n" for x :: nat
    by (simp only: power_Suc2 mod_mult2_eq)
  then show ?case using Suc by simp
qed simp

lemma hex_digits_inj:
  assumes "hex_digits 32 (unat u) = hex_digits 32 (unat (v :: uuid))"
  shows "u = v"
proof -
  have digit: "x < 16 \<Longrightarrow> y < 16 \<Longrightarrow> char_of (97 + x :: nat) = (char_of (97 + y) :: char) \<Longrightarrow> x = y" for x y :: nat
    using arg_cong[of "char_of (97 + x)" "char_of (97 + y) :: char" "of_char :: char \<Rightarrow> nat"] by simp
  have "(unat u div 16 ^ i) mod 16 = (unat v div 16 ^ i) mod 16" if "i < 32" for i
    by (rule digit) (use assms that in \<open>simp_all add: hex_digits_def list_eq_iff_nth_eq\<close>)
  then have "unat u mod 16 ^ 32 = unat v mod 16 ^ 32" by (rule low_digits)
  moreover have "unat x < 16 ^ 32" for x :: uuid
  proof -
    have "unat x < 2 ^ LENGTH(128)" by (rule unsigned_less)
    then show ?thesis by simp
  qed
  ultimately show ?thesis by (simp add: word_unat_eq_iff)
qed

definition demo_cx :: codec where
  "demo_cx = \<lparr>cx_nfc = (\<lambda>s. if s = ''caf'' @ [CHR 0xC3, CHR 0xA9] then ''cafe'' @ [CHR 0xCC, CHR 0x81] else s),
    cx_esc = (\<lambda>s. CHR 0x22 # s @ [CHR 0x22]), cx_num_fmt = (\<lambda>_. ''0''),
    cx_uuid_fmt = (\<lambda>u. hex_digits 32 (unat u) @ ''-000'')\<rparr>"

definition demo_hmac :: "string \<Rightarrow> string \<Rightarrow> string" where
  "demo_hmac key s = replicate 64 (if CHR ''0'' \<in> set s then CHR ''a'' else CHR ''b'')"

definition demo_draws :: "nat \<Rightarrow> draws" where
  "demo_draws k = \<lparr>dr_codec = demo_cx, dr_to_f64 = (\<lambda>_. Fin (1 / 2)),
    dr_url_parse = (\<lambda>s. Some \<lparr>url_scheme = (if s = ''https://169.254.169.254/x'' then ''https'' else ''data''), url_username = [],
      url_password = None, url_host = Some (HostIpv4 (Ipv4Addr 169 254 169 254))\<rparr>),
    dr_simple = (\<lambda>u. replicate 32 (CHR ''a'')), dr_response = (\<lambda>i. of_nat (24 * k + i)),
    dr_conversation = (\<lambda>i. of_nat (24 * k + i)), dr_key = (\<lambda>i. of_nat (24 * k + i)), dr_tenant = of_nat, dr_agent = of_nat,
    dr_order = (\<lambda>i. if k mod 15 = 6 then (if i = 2 then rev [0..<8] else rev [0..<24]) else rev [0..<12])\<rparr>"

lemma hex_digits_plain: "list_all (\<lambda>c. byte_in 0x21 0x7e c \<and> plain c) (hex_digits n a)"
proof -
  have "byte_in 0x21 0x7e (char_of (97 + m :: nat)) \<and> plain (char_of (97 + m))" if "m < 16" for m :: nat
  proof -
    define c :: char where "c = char_of (97 + m)"
    have m: "of_char c = 97 + m" using that by (simp add: c_def)
    then have "c \<noteq> CHR 0x22" "c \<noteq> CHR 0x5C" by auto
    then show ?thesis unfolding c_def[symmetric] using m that by (simp add: plain_def byte_in_def)
  qed
  then show ?thesis by (simp add: hex_digits_def list_all_iff)
qed

lemma demo_codec_documented: "codec_documented demo_cx"
  unfolding codec_documented_def
proof (intro conjI allI impI)
  show "inj (cx_uuid_fmt demo_cx)" by (rule injI) (simp add: demo_cx_def hex_digits_inj)
  fix u :: uuid and s
  show "length (cx_uuid_fmt demo_cx u) = 36" by (simp add: demo_cx_def hex_digits_def)
  show "list_all (\<lambda>c. byte_in 0x21 0x7e c \<and> plain c) (cx_uuid_fmt demo_cx u)"
    using hex_digits_plain by (simp add: demo_cx_def plain_def byte_in_def)
  assume s: "list_all plain s"
  have "s \<noteq> ''caf'' @ [CHR 0xC3, CHR 0xA9]" using s by (auto simp: plain_def byte_in_def)
  then show "cx_nfc demo_cx s = s" "cx_esc demo_cx s = CHR 0x22 # s @ [CHR 0x22]" by (simp_all add: demo_cx_def)
qed (simp add: demo_cx_def)

lemma demo_hmac_documented: "hmac_documented demo_cx demo_hmac"
proof -
  have "contains (canonical_items demo_cx [user_text ''hell0'']) ''hell0''"
    by (rule canonical_shows[OF demo_codec_documented]) (auto simp: user_text_def plain_def byte_in_def)
  then have "CHR ''0'' \<in> set (canonical_items demo_cx [user_text ''hell0''])"
    unfolding contains_def using set_mono_sublist by fastforce
  moreover have "CHR ''0'' \<notin> set (canonical_items demo_cx [user_text ''hello''])"
    unfolding canonical_items_def
    by (rule canonical_lacks[OF demo_codec_documented]) (simp_all add: user_text_def opt_field_def plain_def byte_in_def)
  ultimately show ?thesis by (simp add: hmac_documented_def demo_hmac_def)
qed

lemma small_uuid: "x < 2 ^ 128 \<Longrightarrow> y < 2 ^ 128 \<Longrightarrow> (of_nat x :: uuid) = of_nat y \<longleftrightarrow> x = y"
  by (simp add: word_of_nat_eq_iff take_bit_nat_eq_self)

lemma demo_uuid:
  assumes "k < 30" "l < 30" "i < 24" "j < 24"
  shows "(of_nat (24 * k + i) :: uuid) = of_nat (24 * l + j) \<longleftrightarrow> k = l \<and> i = j"
proof -
  have "(of_nat (24 * k + i) :: uuid) = of_nat (24 * l + j) \<longleftrightarrow> 24 * k + i = 24 * l + j"
    by (rule small_uuid) (use assms in simp_all)
  also have "\<dots> \<longleftrightarrow> k = l \<and> i = j"
  proof -
    have "(24 * k + i) div 24 = k" "(24 * l + j) div 24 = l" using assms(3,4) by simp_all
    then show ?thesis by (metis add_left_cancel)
  qed
  finally show ?thesis .
qed

lemma demo_pass_ok: "pass_ok demo_cx demo_hmac demo_draws"
proof -
  have inj: "draws_ok demo_cx (demo_draws k)" if "k < 30" for k
    using demo_uuid[OF that that]
    by (simp add: draws_ok_def demo_draws_def draw_bound_def inj_on_def list_all_iff byte_class_defs)
  have key: "key_of (demo_draws k) i = key_of (demo_draws l) j \<longleftrightarrow> k = l \<and> i = j" if "k < 30" "l < 30" "i < 24" "j < 24" for k l i j
    using injD[OF codecD(1)[OF demo_codec_documented]] demo_uuid[OF that] by (auto simp: key_of_def demo_draws_def)
  have disj: "disjoint_draws (demo_draws k) (demo_draws l)" if "k < 30" "l < 30" "k \<noteq> l" for k l
    using demo_uuid[OF that(1,2)] key[OF that(1,2)] that(3)
    by (auto simp: disjoint_draws_def drawn_responses_def drawn_keys_def drawn_conversations_def draw_bound_def)
      (auto simp: demo_draws_def)
  have order: "schedule n (rev [0..<n])" for n by (auto simp: schedule_def)
  have "orders_ok demo_draws" "orders_ok (\<lambda>k. demo_draws (15 + k))"
    using order by (simp_all add: orders_ok_def demo_draws_def del: upt_rec_numeral)
  then show ?thesis
    using inj disj by (simp add: pass_ok_def suite_draws_def demo_codec_documented demo_hmac_documented)
qed

theorem mem_backend_satisfies_the_contract_witness:
  "\<exists>w'. run_mem_suite demo_cx demo_hmac demo_draws (\<lambda>_. 0) = Some (full_report ''unlabelled'', w')"
  by (rule mem_backend_satisfies_the_contract[OF demo_pass_ok])

theorem second_pass_panics_witness:
  "\<exists>report w'. run_mem_suite demo_cx demo_hmac demo_draws (\<lambda>_. 0) = Some (report, w') \<and>
    rows_in InProgress (w_store w') = 7 \<and> run_suite (mem_ports demo_cx demo_hmac) (\<lambda>k. demo_draws (15 + k)) w' = None"
proof (rule mem_pass[OF demo_pass_ok, of "\<lambda>_. 0"])
  fix w' x
  assume first: "run_mem_suite demo_cx demo_hmac demo_draws (\<lambda>_. 0) = Some (full_report ''unlabelled'', w')"
  show ?thesis using second_pass_panics[OF demo_pass_ok first] first by blast
qed

end
