(* ===== verification/Rpc.thy ===== *)
theory Rpc
  imports Conformance Port_Laws
begin

text \<open>
  The shared carrier between processes: the requests and responses of the data plane
  (\<open>verify/mock/server/src/proto.rs\<close>), the carrier's dispatch onto its in-process adapters (\<open>server.rs\<close>) and
  the client adapters, which keep the per-node controls and forward the rest (\<open>verify/mock/client/src\<close>).

  The transport (\<open>Rpc::call\<close>, JSON over HTTP) is a parameter \<open>call\<close>: it takes a request and the carrier and
  returns a response or the text of a transport failure.  \<open>dbg\<close> is the derived \<open>Debug\<close> text of a response.
\<close>

section \<open>The protocol (proto.rs)\<close>

record wire_event =
  we_response_id :: response_id
  we_attempt :: "attempt option"
  we_sequence_number :: "nat option"
  we_kind :: response_event_kind
  we_body :: event_body

definition wire_of_append :: "append_event \<Rightarrow> wire_event" where
  "wire_of_append e = \<lparr>we_response_id = ae_response_id e, we_attempt = ae_attempt e, we_sequence_number = None,
    we_kind = ae_kind e, we_body = ae_body e\<rparr>"

definition wire_of_response_event :: "response_event \<Rightarrow> wire_event" where
  "wire_of_response_event e = (wire_of_append (re_event e))\<lparr>we_sequence_number := Some (re_sequence_number e)\<rparr>"

definition append_of_wire :: "wire_event \<Rightarrow> append_event" where
  "append_of_wire w = AppendEvent_from_parts (we_response_id w) (we_kind w) (we_attempt w) (we_body w)"

datatype proto_error =
    PLedger ledger_error
  | PEventLog event_log_error
  | PConversation conversation_error
  | PInternal string

definition into_response_event :: "wire_event \<Rightarrow> proto_error + response_event" where
  "into_response_event w =
    (case we_sequence_number w of
       None \<Rightarrow> Inl (PInternal ''carrier returned an event with no sequence number'')
     | Some n \<Rightarrow> Inr (with_seq (append_of_wire w) n))"

datatype rpc_request =
    LedgerCreate response_record idempotency_key nat
  | LedgerClaim agent_id nat nat
  | LedgerHeartbeat agent_id nat
  | LedgerComplete response_id attempt response_status usage nat
  | LedgerCancel tenant_id response_id nat
  | LedgerReap nat nat
  | LedgerRecordPartialUsage response_id attempt usage
  | LedgerGet response_id
  | LedgerDelete response_id
  | LedgerDeleteByTenant tenant_id
  | LedgerCheckAttempt response_id attempt
  | LedgerInFlight
  | EventLogAppend wire_event
  | EventLogReadAfter response_id "nat option" nat nat
  | EventLogClose response_id nat nat
  | EventLogSweepExpired nat
  | EventLogRemove response_id
  | ConversationCreate conversation
  | ConversationGet tenant_id conversation_id
  | ConversationUpdateMetadata tenant_id conversation_id metadata
  | ConversationDelete tenant_id conversation_id
  | ConversationDeleteByTenant tenant_id
  | ConversationAdvance tenant_id conversation_id response_id
  | ConversationAcquireActive tenant_id conversation_id response_id nat
  | ConversationReleaseActive tenant_id conversation_id response_id response_status nat
  | ConversationReleaseStaleActive tenant_id conversation_id response_id
  | ConversationAppendEvent tenant_id conversation_id conversation_event_kind nat
  | ConversationReadAfter tenant_id conversation_id "nat option" nat nat
  | ConversationList tenant_id
  | ConversationReadSnapshot tenant_id conversation_id
  | ConversationAppendTurn tenant_id conversation_id response_id turn_commit nat
  | ConversationHealth

text \<open>The responses that carry nothing but success are told apart by the operation they answer.\<close>

datatype rpc_response =
    RCreate (the_created: create_outcome)
  | RClaim (the_claimed: "claimed_response option")
  | RHeartbeat
  | RComplete
  | RCancel
  | RReap (the_reaped: "aborted_claim list")
  | RRecordPartialUsage
  | RGet (the_got: "response_record option")
  | RDelete (the_deleted: bool)
  | RDeleteByTenant (the_purged: nat)
  | RCheckAttempt
  | RInFlight (the_in_flight: nat)
  | REventLogAppend (the_appended: nat)
  | REventLogReadAfter (the_events: "wire_event list")
  | REventLogClose
  | REventLogSweepExpired (the_swept: nat)
  | REventLogRemove
  | RConversationCreate (the_conv_created: conversation)
  | RConversationGet (the_conv_got: "conversation option")
  | RConversationUpdateMetadata (the_conv_updated: conversation)
  | RConversationDelete (the_conv_deleted: bool)
  | RConversationDeleteByTenant (the_conv_purged: nat)
  | RConversationAdvance
  | RConversationAcquireActive (the_acquired: nat)
  | RConversationReleaseActive (the_released: nat)
  | RConversationReleaseStaleActive (the_stale_released: bool)
  | RConversationAppendEvent (the_conv_appended: nat)
  | RConversationReadAfter (the_conv_events: "conversation_event list")
  | RConversationList (the_listed: "conversation list")
  | RConversationReadSnapshot (the_snapshot: resolved_context)
  | RConversationAppendTurn (the_turn_index: nat)
  | RConversationHealth
  | RErr (the_error: proto_error)

section \<open>The carrier (server.rs)\<close>

text \<open>One arm: run the port operation, tag its failure with the port, wrap its result.\<close>

definition arm :: "('a \<Rightarrow> rpc_response) \<Rightarrow> ('e \<Rightarrow> proto_error) \<Rightarrow> ('e + 'a) \<times> 's \<Rightarrow> rpc_response \<times> 's" where
  "arm wrap tag r = (case r of (Inl e, s) \<Rightarrow> (RErr (tag e), s) | (Inr x, s) \<Rightarrow> (wrap x, s))"

text \<open>The ports of the carrier: \<open>MemWorld\<close> has the adapters of the same names.\<close>

fun dispatch :: "'s response_ledger \<Rightarrow> 's response_event_log \<Rightarrow> 's conversation_store \<Rightarrow> rpc_request \<Rightarrow> 's \<Rightarrow> rpc_response \<times> 's" where
  "dispatch lg lo cs (LedgerCreate r key now_ms) s = arm RCreate PLedger (lg_create lg r key now_ms s)"
| "dispatch lg lo cs (LedgerClaim a now_ms ttl) s = arm RClaim PLedger (lg_claim lg a now_ms ttl s)"
| "dispatch lg lo cs (LedgerHeartbeat a now_ms) s = arm (\<lambda>_. RHeartbeat) PLedger (lg_heartbeat lg a now_ms s)"
| "dispatch lg lo cs (LedgerComplete rid att st u now_ms) s = arm (\<lambda>_. RComplete) PLedger (lg_complete lg rid att st u now_ms s)"
| "dispatch lg lo cs (LedgerCancel t rid now_ms) s = arm (\<lambda>_. RCancel) PLedger (lg_cancel lg t rid now_ms s)"
| "dispatch lg lo cs (LedgerReap now_ms ttl) s = arm RReap PLedger (lg_reap lg now_ms ttl s)"
| "dispatch lg lo cs (LedgerRecordPartialUsage rid att u) s = arm (\<lambda>_. RRecordPartialUsage) PLedger (lg_record_partial_usage lg rid att u s)"
| "dispatch lg lo cs (LedgerGet rid) s = arm RGet PLedger (lg_get lg rid s)"
| "dispatch lg lo cs (LedgerDelete rid) s = arm RDelete PLedger (lg_delete lg rid s)"
| "dispatch lg lo cs (LedgerDeleteByTenant t) s = arm RDeleteByTenant PLedger (lg_delete_by_tenant lg t s)"
| "dispatch lg lo cs (LedgerCheckAttempt rid att) s = arm (\<lambda>_. RCheckAttempt) PLedger (lg_check_attempt lg rid att s)"
| "dispatch lg lo cs LedgerInFlight s = arm RInFlight PLedger (lg_in_flight lg s)"
| "dispatch lg lo cs (EventLogAppend e) s = arm REventLogAppend PEventLog (lo_append lo (append_of_wire e) s)"
| "dispatch lg lo cs (EventLogReadAfter rid after limit wait) s =
    arm (\<lambda>es. REventLogReadAfter (map wire_of_response_event es)) PEventLog (lo_read_after lo rid after limit wait s)"
| "dispatch lg lo cs (EventLogClose rid now_ms retain) s = arm (\<lambda>_. REventLogClose) PEventLog (lo_close lo rid now_ms retain s)"
| "dispatch lg lo cs (EventLogSweepExpired now_ms) s = arm REventLogSweepExpired PEventLog (lo_sweep_expired lo now_ms s)"
| "dispatch lg lo cs (EventLogRemove rid) s = arm (\<lambda>_. REventLogRemove) PEventLog (lo_remove lo rid s)"
| "dispatch lg lo cs (ConversationCreate c) s = arm RConversationCreate PConversation (cr_create (cst_repo cs) c s)"
| "dispatch lg lo cs (ConversationGet t cid) s = arm RConversationGet PConversation (cr_get (cst_repo cs) t cid s)"
| "dispatch lg lo cs (ConversationUpdateMetadata t cid m) s =
    arm RConversationUpdateMetadata PConversation (cr_update_metadata (cst_repo cs) t cid m s)"
| "dispatch lg lo cs (ConversationDelete t cid) s = arm RConversationDelete PConversation (cr_delete (cst_repo cs) t cid s)"
| "dispatch lg lo cs (ConversationDeleteByTenant t) s =
    arm RConversationDeleteByTenant PConversation (cr_delete_by_tenant (cst_repo cs) t s)"
| "dispatch lg lo cs (ConversationAdvance t cid rid) s =
    arm (\<lambda>_. RConversationAdvance) PConversation (cn_advance (cst_snapshots cs) t cid rid s)"
| "dispatch lg lo cs (ConversationAcquireActive t cid rid now_ms) s =
    arm RConversationAcquireActive PConversation (tl_acquire_active (cst_lock cs) t cid rid now_ms s)"
| "dispatch lg lo cs (ConversationReleaseActive t cid rid st now_ms) s =
    arm RConversationReleaseActive PConversation (tl_release_active (cst_lock cs) t cid rid st now_ms s)"
| "dispatch lg lo cs (ConversationReleaseStaleActive t cid rid) s =
    arm RConversationReleaseStaleActive PConversation (tl_release_stale_active (cst_lock cs) t cid rid s)"
| "dispatch lg lo cs (ConversationAppendEvent t cid kind now_ms) s =
    arm RConversationAppendEvent PConversation (ce_append_event (cst_events cs) t cid kind now_ms s)"
| "dispatch lg lo cs (ConversationReadAfter t cid after limit wait) s =
    arm RConversationReadAfter PConversation (ce_read_after (cst_events cs) t cid after limit wait s)"
| "dispatch lg lo cs (ConversationList t) s = arm RConversationList PConversation (cr_list (cst_repo cs) t s)"
| "dispatch lg lo cs (ConversationReadSnapshot t cid) s =
    arm RConversationReadSnapshot PConversation (cn_read_snapshot (cst_snapshots cs) t cid s)"
| "dispatch lg lo cs (ConversationAppendTurn t cid rid tc now_ms) s =
    arm RConversationAppendTurn PConversation (cn_append_turn (cst_snapshots cs) t cid rid tc now_ms s)"
| "dispatch lg lo cs ConversationHealth s = arm (\<lambda>_. RConversationHealth) PConversation (cr_health (cst_repo cs) s)"

section \<open>The client (client/src)\<close>

text \<open>A node: the carrier it reaches and its own admission controls, shared by its three adapters.\<close>

record 's client =
  cl_carrier :: 's
  cl_read_only :: bool
  cl_pending_limit :: nat

type_synonym 's transport = "rpc_request \<Rightarrow> 's \<Rightarrow> (string + rpc_response) \<times> 's"

definition MemClientWorld_new :: "'s \<Rightarrow> 's client" where
  "MemClientWorld_new s = \<lparr>cl_carrier = s, cl_read_only = False, cl_pending_limit = 10000\<rparr>"

definition rpc_call :: "'s transport \<Rightarrow> rpc_request \<Rightarrow> 's client \<Rightarrow> (string + rpc_response) \<times> 's client" where
  "rpc_call call req c = (case call req (cl_carrier c) of (r, s) \<Rightarrow> (r, c\<lparr>cl_carrier := s\<rparr>))"

text \<open>\<open>ledger_rpc\<close>, \<open>event_rpc\<close> and \<open>conversation_rpc\<close>: carrier errors folded back into the port's own.\<close>

definition ledger_rpc :: "'s transport \<Rightarrow> rpc_request \<Rightarrow> 's client \<Rightarrow> (ledger_error + rpc_response) \<times> 's client" where
  "ledger_rpc call req c =
    (case rpc_call call req c of
       (Inl m, c) \<Rightarrow> (Inl (LStore (Internal m)), c)
     | (Inr r, c) \<Rightarrow>
         (case r of
            RErr (PLedger e) \<Rightarrow> (Inl e, c)
          | RErr (PInternal m) \<Rightarrow> (Inl (LStore (Internal m)), c)
          | ok \<Rightarrow> (Inr ok, c)))"

definition event_rpc :: "'s transport \<Rightarrow> rpc_request \<Rightarrow> 's client \<Rightarrow> (event_log_error + rpc_response) \<times> 's client" where
  "event_rpc call req c =
    (case rpc_call call req c of
       (Inl m, c) \<Rightarrow> (Inl (EStore (Internal m)), c)
     | (Inr r, c) \<Rightarrow>
         (case r of
            RErr (PEventLog e) \<Rightarrow> (Inl e, c)
          | RErr (PInternal m) \<Rightarrow> (Inl (EStore (Internal m)), c)
          | ok \<Rightarrow> (Inr ok, c)))"

definition conversation_rpc :: "'s transport \<Rightarrow> rpc_request \<Rightarrow> 's client \<Rightarrow> (conversation_error + rpc_response) \<times> 's client" where
  "conversation_rpc call req c =
    (case rpc_call call req c of
       (Inl m, c) \<Rightarrow> (Inl (CStore Unavailable), c)
     | (Inr r, c) \<Rightarrow>
         (case r of
            RErr (PConversation e) \<Rightarrow> (Inl e, c)
          | RErr (PInternal m) \<Rightarrow> (Inl (CStore (Internal m)), c)
          | ok \<Rightarrow> (Inr ok, c)))"

text \<open>A response of the expected shape gives its value, any other an error with its text.\<close>

definition expect_shape ::
  "('m \<Rightarrow> 'e) \<Rightarrow> (rpc_response \<Rightarrow> 'm) \<Rightarrow> (rpc_response \<Rightarrow> bool) \<Rightarrow> (rpc_response \<Rightarrow> 'a) \<Rightarrow> ('e + rpc_response) \<times> 's \<Rightarrow> ('e + 'a) \<times> 's" where
  "expect_shape wrap dbg is_it the_it r =
    (case r of
       (Inl e, c) \<Rightarrow> (Inl e, c)
     | (Inr x, c) \<Rightarrow> (if is_it x then Inr (the_it x) else Inl (wrap (dbg x)), c))"

definition unexpected :: "(rpc_response \<Rightarrow> string) \<Rightarrow> rpc_response \<Rightarrow> string" where
  "unexpected dbg r = ''unexpected rpc response '' @ dbg r"

definition ledger_ask ::
  "'s transport \<Rightarrow> (rpc_response \<Rightarrow> string) \<Rightarrow> rpc_request \<Rightarrow> (rpc_response \<Rightarrow> bool) \<Rightarrow> (rpc_response \<Rightarrow> 'a) \<Rightarrow> 's client
    \<Rightarrow> (ledger_error + 'a) \<times> 's client" where
  "ledger_ask call dbg req is_it the_it c =
    expect_shape (\<lambda>m. LStore (Internal m)) (unexpected dbg) is_it the_it (ledger_rpc call req c)"

definition event_ask ::
  "'s transport \<Rightarrow> (rpc_response \<Rightarrow> string) \<Rightarrow> rpc_request \<Rightarrow> (rpc_response \<Rightarrow> bool) \<Rightarrow> (rpc_response \<Rightarrow> 'a) \<Rightarrow> 's client
    \<Rightarrow> (event_log_error + 'a) \<times> 's client" where
  "event_ask call dbg req is_it the_it c =
    expect_shape (\<lambda>m. EStore (Internal m)) (unexpected dbg) is_it the_it (event_rpc call req c)"

definition conversation_ask ::
  "'s transport \<Rightarrow> (rpc_response \<Rightarrow> string) \<Rightarrow> rpc_request \<Rightarrow> (rpc_response \<Rightarrow> bool) \<Rightarrow> (rpc_response \<Rightarrow> 'a) \<Rightarrow> 's client
    \<Rightarrow> (conversation_error + 'a) \<times> 's client" where
  "conversation_ask call dbg req is_it the_it c =
    expect_shape (\<lambda>m. CStore (Internal m)) (unexpected dbg) is_it the_it (conversation_rpc call req c)"

text \<open>The gate of a write: the node's own read-only switch.\<close>

definition gated :: "'e \<Rightarrow> ('s client \<Rightarrow> ('e + 'a) \<times> 's client) \<Rightarrow> 's client \<Rightarrow> ('e + 'a) \<times> 's client" where
  "gated refused op c = (if cl_read_only c then (Inl refused, c) else op c)"

subsection \<open>Ledger (ledger.rs)\<close>

definition client_in_flight :: "'s transport \<Rightarrow> (rpc_response \<Rightarrow> string) \<Rightarrow> 's client \<Rightarrow> (ledger_error + nat) \<times> 's client" where
  "client_in_flight call dbg = ledger_ask call dbg LedgerInFlight is_RInFlight the_in_flight"

text \<open>The two halves of \<open>create\<close>: admission by the shared count and the node's limit, then the forwarded
  call.\<close>

definition client_admits :: "'s transport \<Rightarrow> (rpc_response \<Rightarrow> string) \<Rightarrow> 's client \<Rightarrow> (ledger_error + create_outcome option) \<times> 's client" where
  "client_admits call dbg c =
    (if cl_read_only c then (Inr (Some OutcomeReadOnly), c)
     else case client_in_flight call dbg c of
       (Inl e, c) \<Rightarrow> (Inl e, c)
     | (Inr n, c) \<Rightarrow> (Inr (if cl_pending_limit c \<le> n then Some Overloaded else None), c))"

definition client_forward_create ::
  "'s transport \<Rightarrow> (rpc_response \<Rightarrow> string) \<Rightarrow> response_record \<Rightarrow> idempotency_key \<Rightarrow> nat \<Rightarrow> 's client
    \<Rightarrow> (ledger_error + create_outcome) \<times> 's client" where
  "client_forward_create call dbg r key now_ms = ledger_ask call dbg (LedgerCreate r key now_ms) is_RCreate the_created"

definition client_create ::
  "'s transport \<Rightarrow> (rpc_response \<Rightarrow> string) \<Rightarrow> response_record \<Rightarrow> idempotency_key \<Rightarrow> nat \<Rightarrow> 's client
    \<Rightarrow> (ledger_error + create_outcome) \<times> 's client" where
  "client_create call dbg r key now_ms c =
    (case client_admits call dbg c of
       (Inl e, c) \<Rightarrow> (Inl e, c)
     | (Inr (Some refusal), c) \<Rightarrow> (Inr refusal, c)
     | (Inr None, c) \<Rightarrow> client_forward_create call dbg r key now_ms c)"

definition client_ledger :: "'s transport \<Rightarrow> (rpc_response \<Rightarrow> string) \<Rightarrow> 's client response_ledger" where
  "client_ledger call dbg = \<lparr>
    ac_set_read_only = (\<lambda>b c. c\<lparr>cl_read_only := b\<rparr>),
    ac_is_read_only = cl_read_only,
    ac_set_pending_limit = (\<lambda>n c. c\<lparr>cl_pending_limit := max n 1\<rparr>),
    ac_pending_limit = cl_pending_limit,
    lg_create = client_create call dbg,
    lg_claim = (\<lambda>a now_ms ttl. gated (LStore ReadOnly) (ledger_ask call dbg (LedgerClaim a now_ms ttl) is_RClaim the_claimed)),
    lg_heartbeat = (\<lambda>a now_ms. ledger_ask call dbg (LedgerHeartbeat a now_ms) ((=) RHeartbeat) (\<lambda>_. ())),
    lg_complete = (\<lambda>rid att st u now_ms. gated (LStore ReadOnly)
      (ledger_ask call dbg (LedgerComplete rid att st u now_ms) ((=) RComplete) (\<lambda>_. ()))),
    lg_cancel = (\<lambda>t rid now_ms. gated (LStore ReadOnly) (ledger_ask call dbg (LedgerCancel t rid now_ms) ((=) RCancel) (\<lambda>_. ()))),
    lg_reap = (\<lambda>now_ms ttl. ledger_ask call dbg (LedgerReap now_ms ttl) is_RReap the_reaped),
    lg_record_partial_usage = (\<lambda>rid att u. ledger_ask call dbg (LedgerRecordPartialUsage rid att u) ((=) RRecordPartialUsage) (\<lambda>_. ())),
    lg_get = (\<lambda>rid. ledger_ask call dbg (LedgerGet rid) is_RGet the_got),
    lg_delete = (\<lambda>rid. gated (LStore ReadOnly) (ledger_ask call dbg (LedgerDelete rid) is_RDelete the_deleted)),
    lg_delete_by_tenant = (\<lambda>t. gated (LStore ReadOnly) (ledger_ask call dbg (LedgerDeleteByTenant t) is_RDeleteByTenant the_purged)),
    lg_check_attempt = (\<lambda>rid att. gated (LStore ReadOnly) (ledger_ask call dbg (LedgerCheckAttempt rid att) ((=) RCheckAttempt) (\<lambda>_. ()))),
    lg_in_flight = client_in_flight call dbg\<rparr>"

subsection \<open>Event log (event_log.rs)\<close>

text \<open>The only failure of \<open>into_response_event\<close> is \<open>Internal\<close>, whose text has the prefix \<open>carrier: \<close>.\<close>

fun events_back :: "wire_event list \<Rightarrow> event_log_error + response_event list" where
  "events_back [] = Inr []"
| "events_back (w # ws) =
    (case into_response_event w of
       Inl e \<Rightarrow> Inl (EStore (Internal (case e of PInternal m \<Rightarrow> ''carrier: '' @ m | _ \<Rightarrow> [])))
     | Inr e \<Rightarrow> (case events_back ws of Inl x \<Rightarrow> Inl x | Inr es \<Rightarrow> Inr (e # es)))"

definition client_read_after ::
  "'s transport \<Rightarrow> (rpc_response \<Rightarrow> string) \<Rightarrow> response_id \<Rightarrow> nat option \<Rightarrow> nat \<Rightarrow> nat \<Rightarrow> 's client
    \<Rightarrow> (event_log_error + response_event list) \<times> 's client" where
  "client_read_after call dbg rid after limit wait c =
    (case event_ask call dbg (EventLogReadAfter rid after limit wait) is_REventLogReadAfter the_events c of
       (Inl e, c) \<Rightarrow> (Inl e, c)
     | (Inr ws, c) \<Rightarrow> (events_back ws, c))"

definition client_event_log :: "'s transport \<Rightarrow> (rpc_response \<Rightarrow> string) \<Rightarrow> 's client response_event_log" where
  "client_event_log call dbg = \<lparr>
    lo_append = (\<lambda>e. gated (EStore ReadOnly) (event_ask call dbg (EventLogAppend (wire_of_append e)) is_REventLogAppend the_appended)),
    lo_read_after = client_read_after call dbg,
    lo_close = (\<lambda>rid now_ms retain. event_ask call dbg (EventLogClose rid now_ms retain) ((=) REventLogClose) (\<lambda>_. ())),
    lo_sweep_expired = (\<lambda>now_ms. event_ask call dbg (EventLogSweepExpired now_ms) is_REventLogSweepExpired the_swept),
    lo_remove = (\<lambda>rid. event_ask call dbg (EventLogRemove rid) ((=) REventLogRemove) (\<lambda>_. ()))\<rparr>"

subsection \<open>Conversations (conversation.rs)\<close>

definition client_repo :: "'s transport \<Rightarrow> (rpc_response \<Rightarrow> string) \<Rightarrow> 's client conversation_repo" where
  "client_repo call dbg = \<lparr>
    cr_create = (\<lambda>c. gated (CStore ReadOnly) (conversation_ask call dbg (ConversationCreate c) is_RConversationCreate the_conv_created)),
    cr_get = (\<lambda>t cid. conversation_ask call dbg (ConversationGet t cid) is_RConversationGet the_conv_got),
    cr_update_metadata = (\<lambda>t cid m. gated (CStore ReadOnly)
      (conversation_ask call dbg (ConversationUpdateMetadata t cid m) is_RConversationUpdateMetadata the_conv_updated)),
    cr_delete = (\<lambda>t cid. gated (CStore ReadOnly)
      (conversation_ask call dbg (ConversationDelete t cid) is_RConversationDelete the_conv_deleted)),
    cr_delete_by_tenant = (\<lambda>t. gated (CStore ReadOnly)
      (conversation_ask call dbg (ConversationDeleteByTenant t) is_RConversationDeleteByTenant the_conv_purged)),
    cr_list = (\<lambda>t. conversation_ask call dbg (ConversationList t) is_RConversationList the_listed),
    cr_health = conversation_ask call dbg ConversationHealth ((=) RConversationHealth) (\<lambda>_. ())\<rparr>"

definition client_snapshots :: "'s transport \<Rightarrow> (rpc_response \<Rightarrow> string) \<Rightarrow> 's client conversation_snapshots" where
  "client_snapshots call dbg = \<lparr>
    cn_read_snapshot = (\<lambda>t cid. conversation_ask call dbg (ConversationReadSnapshot t cid) is_RConversationReadSnapshot the_snapshot),
    cn_append_turn = (\<lambda>t cid rid tc now_ms. gated (CStore ReadOnly)
      (conversation_ask call dbg (ConversationAppendTurn t cid rid tc now_ms) is_RConversationAppendTurn the_turn_index)),
    cn_advance = (\<lambda>t cid rid. gated (CStore ReadOnly)
      (conversation_ask call dbg (ConversationAdvance t cid rid) ((=) RConversationAdvance) (\<lambda>_. ())))\<rparr>"

definition client_lock :: "'s transport \<Rightarrow> (rpc_response \<Rightarrow> string) \<Rightarrow> 's client turn_lock" where
  "client_lock call dbg = \<lparr>
    tl_acquire_active = (\<lambda>t cid rid now_ms. gated (CStore ReadOnly)
      (conversation_ask call dbg (ConversationAcquireActive t cid rid now_ms) is_RConversationAcquireActive the_acquired)),
    tl_release_active = (\<lambda>t cid rid st now_ms. gated (CStore ReadOnly)
      (conversation_ask call dbg (ConversationReleaseActive t cid rid st now_ms) is_RConversationReleaseActive the_released)),
    tl_release_stale_active = (\<lambda>t cid holder. gated (CStore ReadOnly)
      (conversation_ask call dbg (ConversationReleaseStaleActive t cid holder) is_RConversationReleaseStaleActive the_stale_released))\<rparr>"

text \<open>The event bound lives on the carrier: the client's setter does nothing.\<close>

definition client_events :: "'s transport \<Rightarrow> (rpc_response \<Rightarrow> string) \<Rightarrow> 's client conversation_events" where
  "client_events call dbg = \<lparr>
    ce_append_event = (\<lambda>t cid kind now_ms. gated (CStore ReadOnly)
      (conversation_ask call dbg (ConversationAppendEvent t cid kind now_ms) is_RConversationAppendEvent the_conv_appended)),
    ce_read_after = (\<lambda>t cid after limit wait.
      conversation_ask call dbg (ConversationReadAfter t cid after limit wait) is_RConversationReadAfter the_conv_events),
    ce_set_max_events = (\<lambda>n c. c)\<rparr>"

definition client_conversation :: "'s transport \<Rightarrow> (rpc_response \<Rightarrow> string) \<Rightarrow> 's client conversation_store" where
  "client_conversation call dbg = \<lparr>cst_repo = client_repo call dbg, cst_snapshots = client_snapshots call dbg,
    cst_lock = client_lock call dbg, cst_events = client_events call dbg\<rparr>"

end
