(* ===== verification/Rpc_Nodes.thy ===== *)
theory Rpc_Nodes
  imports Rpc Contract_Races
begin

text \<open>
  What a node gets from the shared carrier (\<open>verify/mock/client/src\<close> over \<open>verify/mock/server/src/server.rs\<close>):
  over a reliable transport the client adapters are the carrier's ports behind the controls of the node; and
  what the controls lose by being checked in a call of their own.
\<close>

section \<open>A reliable carrier\<close>

text \<open>Every call arrives once and its response returns: what HTTP gives while nothing fails.\<close>

definition reliable :: "'s response_ledger \<Rightarrow> 's response_event_log \<Rightarrow> 's conversation_store \<Rightarrow> 's transport \<Rightarrow> bool" where
  "reliable lg lo cs call \<longleftrightarrow> (\<forall>req s. call req s = (Inr (fst (dispatch lg lo cs req s)), snd (dispatch lg lo cs req s)))"

text \<open>An operation of the carrier, run from a node.\<close>

definition over :: "('s \<Rightarrow> 'a \<times> 's) \<Rightarrow> 's client \<Rightarrow> 'a \<times> 's client" where
  "over op c = (case op (cl_carrier c) of (x, s) \<Rightarrow> (x, c\<lparr>cl_carrier := s\<rparr>))"

text \<open>What the adapters are to be: the carrier's own ports behind the controls of the node.\<close>

definition node_create ::
  "'s response_ledger \<Rightarrow> response_record \<Rightarrow> idempotency_key \<Rightarrow> nat \<Rightarrow> 's client \<Rightarrow> (ledger_error + create_outcome) \<times> 's client" where
  "node_create lg r key now_ms c =
    (if cl_read_only c then (Inr OutcomeReadOnly, c)
     else case over (lg_in_flight lg) c of
       (Inl e, c) \<Rightarrow> (Inl e, c)
     | (Inr n, c) \<Rightarrow> if cl_pending_limit c \<le> n then (Inr Overloaded, c) else over (lg_create lg r key now_ms) c)"

definition node_ledger :: "'s response_ledger \<Rightarrow> 's client response_ledger" where
  "node_ledger lg = \<lparr>
    ac_set_read_only = (\<lambda>b c. c\<lparr>cl_read_only := b\<rparr>),
    ac_is_read_only = cl_read_only,
    ac_set_pending_limit = (\<lambda>n c. c\<lparr>cl_pending_limit := max n 1\<rparr>),
    ac_pending_limit = cl_pending_limit,
    lg_create = node_create lg,
    lg_claim = (\<lambda>a now_ms ttl. gated (LStore ReadOnly) (over (lg_claim lg a now_ms ttl))),
    lg_heartbeat = (\<lambda>a now_ms. over (lg_heartbeat lg a now_ms)),
    lg_complete = (\<lambda>rid att st u now_ms. gated (LStore ReadOnly) (over (lg_complete lg rid att st u now_ms))),
    lg_cancel = (\<lambda>t rid now_ms. gated (LStore ReadOnly) (over (lg_cancel lg t rid now_ms))),
    lg_reap = (\<lambda>now_ms ttl. over (lg_reap lg now_ms ttl)),
    lg_record_partial_usage = (\<lambda>rid att u. over (lg_record_partial_usage lg rid att u)),
    lg_get = (\<lambda>rid. over (lg_get lg rid)),
    lg_delete = (\<lambda>rid. gated (LStore ReadOnly) (over (lg_delete lg rid))),
    lg_delete_by_tenant = (\<lambda>t. gated (LStore ReadOnly) (over (lg_delete_by_tenant lg t))),
    lg_check_attempt = (\<lambda>rid att. gated (LStore ReadOnly) (over (lg_check_attempt lg rid att))),
    lg_in_flight = over (lg_in_flight lg)\<rparr>"

definition node_event_log :: "'s response_event_log \<Rightarrow> 's client response_event_log" where
  "node_event_log lo = \<lparr>
    lo_append = (\<lambda>e. gated (EStore ReadOnly) (over (lo_append lo e))),
    lo_read_after = (\<lambda>rid after limit wait. over (lo_read_after lo rid after limit wait)),
    lo_close = (\<lambda>rid now_ms retain. over (lo_close lo rid now_ms retain)),
    lo_sweep_expired = (\<lambda>now_ms. over (lo_sweep_expired lo now_ms)),
    lo_remove = (\<lambda>rid. over (lo_remove lo rid))\<rparr>"

definition node_conversation :: "'s conversation_store \<Rightarrow> 's client conversation_store" where
  "node_conversation cs = \<lparr>
    cst_repo = \<lparr>
      cr_create = (\<lambda>c. gated (CStore ReadOnly) (over (cr_create (cst_repo cs) c))),
      cr_get = (\<lambda>t cid. over (cr_get (cst_repo cs) t cid)),
      cr_update_metadata = (\<lambda>t cid m. gated (CStore ReadOnly) (over (cr_update_metadata (cst_repo cs) t cid m))),
      cr_delete = (\<lambda>t cid. gated (CStore ReadOnly) (over (cr_delete (cst_repo cs) t cid))),
      cr_delete_by_tenant = (\<lambda>t. gated (CStore ReadOnly) (over (cr_delete_by_tenant (cst_repo cs) t))),
      cr_list = (\<lambda>t. over (cr_list (cst_repo cs) t)),
      cr_health = over (cr_health (cst_repo cs))\<rparr>,
    cst_snapshots = \<lparr>
      cn_read_snapshot = (\<lambda>t cid. over (cn_read_snapshot (cst_snapshots cs) t cid)),
      cn_append_turn = (\<lambda>t cid rid tc now_ms. gated (CStore ReadOnly) (over (cn_append_turn (cst_snapshots cs) t cid rid tc now_ms))),
      cn_advance = (\<lambda>t cid rid. gated (CStore ReadOnly) (over (cn_advance (cst_snapshots cs) t cid rid)))\<rparr>,
    cst_lock = \<lparr>
      tl_acquire_active = (\<lambda>t cid rid now_ms. gated (CStore ReadOnly) (over (tl_acquire_active (cst_lock cs) t cid rid now_ms))),
      tl_release_active = (\<lambda>t cid rid st now_ms. gated (CStore ReadOnly) (over (tl_release_active (cst_lock cs) t cid rid st now_ms))),
      tl_release_stale_active = (\<lambda>t cid holder. gated (CStore ReadOnly) (over (tl_release_stale_active (cst_lock cs) t cid holder)))\<rparr>,
    cst_events = \<lparr>
      ce_append_event = (\<lambda>t cid kind now_ms. gated (CStore ReadOnly) (over (ce_append_event (cst_events cs) t cid kind now_ms))),
      ce_read_after = (\<lambda>t cid after limit wait. over (ce_read_after (cst_events cs) t cid after limit wait)),
      ce_set_max_events = (\<lambda>n c. c)\<rparr>\<rparr>"

subsection \<open>Each call is the carrier's operation\<close>

lemma rpc_call_reliable:
  assumes "reliable lg lo cs call" "\<And>s. dispatch lg lo cs req s = arm wrap tag (op s)"
  shows "rpc_call call req c = (case over op c of (x, c') \<Rightarrow> (Inr (case x of Inl e \<Rightarrow> RErr (tag e) | Inr y \<Rightarrow> wrap y), c'))"
  using assms by (simp add: rpc_call_def reliable_def arm_def over_def split: prod.split sum.split)

lemma ledger_ask_over:
  assumes "reliable lg lo cs call" "\<And>s. dispatch lg lo cs req s = arm wrap PLedger (op s)"
    and shape: "\<And>x. is_it (wrap x)" "\<And>x. the_it (wrap x) = x" "\<And>x. \<not> is_RErr (wrap x)"
  shows "ledger_ask call dbg req is_it the_it = over op"
proof (rule ext)
  fix c :: "'a client"
  have ok: "(case wrap y of RErr (PLedger e) \<Rightarrow> (Inl e, c') | RErr (PInternal m) \<Rightarrow> (Inl (LStore (Internal m)), c') | r \<Rightarrow> (Inr r, c'))
      = (Inr (wrap y) :: ledger_error + rpc_response, c' :: 'a client)" for y and c' :: "'a client"
    using shape(3)[of y] by (cases "wrap y") simp_all
  show "ledger_ask call dbg req is_it the_it c = over op c"
    unfolding ledger_ask_def ledger_rpc_def rpc_call_reliable[OF assms(1,2)] expect_shape_def
    using shape(1,2) ok by (auto split: prod.split sum.split)
qed

lemma event_ask_over:
  assumes "reliable lg lo cs call" "\<And>s. dispatch lg lo cs req s = arm wrap PEventLog (op s)"
    and shape: "\<And>x. is_it (wrap x)" "\<And>x. the_it (wrap x) = x" "\<And>x. \<not> is_RErr (wrap x)"
  shows "event_ask call dbg req is_it the_it = over op"
proof (rule ext)
  fix c :: "'a client"
  have ok: "(case wrap y of RErr (PEventLog e) \<Rightarrow> (Inl e, c') | RErr (PInternal m) \<Rightarrow> (Inl (EStore (Internal m)), c') | r \<Rightarrow> (Inr r, c'))
      = (Inr (wrap y) :: event_log_error + rpc_response, c' :: 'a client)" for y and c' :: "'a client"
    using shape(3)[of y] by (cases "wrap y") simp_all
  show "event_ask call dbg req is_it the_it c = over op c"
    unfolding event_ask_def event_rpc_def rpc_call_reliable[OF assms(1,2)] expect_shape_def
    using shape(1,2) ok by (auto split: prod.split sum.split)
qed

lemma conversation_ask_over:
  assumes "reliable lg lo cs call" "\<And>s. dispatch lg lo cs req s = arm wrap PConversation (op s)"
    and shape: "\<And>x. is_it (wrap x)" "\<And>x. the_it (wrap x) = x" "\<And>x. \<not> is_RErr (wrap x)"
  shows "conversation_ask call dbg req is_it the_it = over op"
proof (rule ext)
  fix c :: "'a client"
  have ok: "(case wrap y of RErr (PConversation e) \<Rightarrow> (Inl e, c') | RErr (PInternal m) \<Rightarrow> (Inl (CStore (Internal m)), c') | r \<Rightarrow> (Inr r, c'))
      = (Inr (wrap y) :: conversation_error + rpc_response, c' :: 'a client)" for y and c' :: "'a client"
    using shape(3)[of y] by (cases "wrap y") simp_all
  show "conversation_ask call dbg req is_it the_it c = over op c"
    unfolding conversation_ask_def conversation_rpc_def rpc_call_reliable[OF assms(1,2)] expect_shape_def
    using shape(1,2) ok by (auto split: prod.split sum.split)
qed

text \<open>The numbered events come back as they were.\<close>

lemma append_of_wire_of [simp]: "append_of_wire (wire_of_append e) = e"
  by (simp add: append_of_wire_def wire_of_append_def AppendEvent_from_parts_def)

lemma events_back_of [simp]: "events_back (map wire_of_response_event es) = Inr es"
  by (induction es)
    (simp_all add: into_response_event_def wire_of_response_event_def wire_of_append_def append_of_wire_def
      AppendEvent_from_parts_def with_seq_def)

lemma client_read_after_over:
  assumes "reliable lg lo cs call"
  shows "client_read_after call dbg = (\<lambda>rid after limit wait. over (lo_read_after lo rid after limit wait))"
proof (intro ext)
  fix rid after limit wait c
  have "rpc_call call (EventLogReadAfter rid after limit wait) c =
      (case over (lo_read_after lo rid after limit wait) c of (x, c') \<Rightarrow>
        (Inr (case x of Inl e \<Rightarrow> RErr (PEventLog e) | Inr es \<Rightarrow> REventLogReadAfter (map wire_of_response_event es)), c'))"
    by (rule rpc_call_reliable[OF assms]) (rule dispatch.simps)
  then show "client_read_after call dbg rid after limit wait c = over (lo_read_after lo rid after limit wait) c"
    by (simp add: client_read_after_def event_ask_def event_rpc_def expect_shape_def split: prod.split sum.split)
qed

lemma client_create_over:
  assumes "reliable lg lo cs call"
  shows "client_create call dbg = node_create lg"
proof (intro ext)
  fix r key now_ms c
  have "client_in_flight call dbg = over (lg_in_flight lg)"
    unfolding client_in_flight_def by (rule ledger_ask_over[OF assms]) (rule dispatch.simps, simp_all)
  moreover have "client_forward_create call dbg r key now_ms = over (lg_create lg r key now_ms)"
    unfolding client_forward_create_def by (rule ledger_ask_over[OF assms]) (rule dispatch.simps, simp_all)
  ultimately show "client_create call dbg r key now_ms c = node_create lg r key now_ms c"
    by (simp add: client_create_def client_admits_def node_create_def split: prod.split sum.split)
qed

lemma client_ledger_over:
  assumes "reliable lg lo cs call"
  shows "client_ledger call dbg = node_ledger lg"
proof -
  note ask = ledger_ask_over[OF assms]
  have
    "\<And>a now_ms ttl. ledger_ask call dbg (LedgerClaim a now_ms ttl) is_RClaim the_claimed = over (lg_claim lg a now_ms ttl)"
    "\<And>a now_ms. ledger_ask call dbg (LedgerHeartbeat a now_ms) ((=) RHeartbeat) (\<lambda>_. ()) = over (lg_heartbeat lg a now_ms)"
    "\<And>rid att st u now_ms. ledger_ask call dbg (LedgerComplete rid att st u now_ms) ((=) RComplete) (\<lambda>_. ()) =
      over (lg_complete lg rid att st u now_ms)"
    "\<And>t rid now_ms. ledger_ask call dbg (LedgerCancel t rid now_ms) ((=) RCancel) (\<lambda>_. ()) = over (lg_cancel lg t rid now_ms)"
    "\<And>now_ms ttl. ledger_ask call dbg (LedgerReap now_ms ttl) is_RReap the_reaped = over (lg_reap lg now_ms ttl)"
    "\<And>rid att u. ledger_ask call dbg (LedgerRecordPartialUsage rid att u) ((=) RRecordPartialUsage) (\<lambda>_. ()) =
      over (lg_record_partial_usage lg rid att u)"
    "\<And>rid. ledger_ask call dbg (LedgerGet rid) is_RGet the_got = over (lg_get lg rid)"
    "\<And>rid. ledger_ask call dbg (LedgerDelete rid) is_RDelete the_deleted = over (lg_delete lg rid)"
    "\<And>t. ledger_ask call dbg (LedgerDeleteByTenant t) is_RDeleteByTenant the_purged = over (lg_delete_by_tenant lg t)"
    "\<And>rid att. ledger_ask call dbg (LedgerCheckAttempt rid att) ((=) RCheckAttempt) (\<lambda>_. ()) = over (lg_check_attempt lg rid att)"
    "ledger_ask call dbg LedgerInFlight is_RInFlight the_in_flight = over (lg_in_flight lg)"
    by (rule ask, rule dispatch.simps, simp_all)+
  then show ?thesis
    by (simp add: client_ledger_def node_ledger_def client_create_over[OF assms] client_in_flight_def)
qed

lemma client_event_log_over:
  assumes "reliable lg lo cs call"
  shows "client_event_log call dbg = node_event_log lo"
proof -
  note ask = event_ask_over[OF assms]
  have append: "\<And>e. event_ask call dbg (EventLogAppend (wire_of_append e)) is_REventLogAppend the_appended = over (lo_append lo e)"
    by (rule ask[where wrap = REventLogAppend]) simp_all
  have
    "\<And>rid now_ms retain. event_ask call dbg (EventLogClose rid now_ms retain) ((=) REventLogClose) (\<lambda>_. ()) =
      over (lo_close lo rid now_ms retain)"
    "\<And>now_ms. event_ask call dbg (EventLogSweepExpired now_ms) is_REventLogSweepExpired the_swept = over (lo_sweep_expired lo now_ms)"
    "\<And>rid. event_ask call dbg (EventLogRemove rid) ((=) REventLogRemove) (\<lambda>_. ()) = over (lo_remove lo rid)"
    by (rule ask, rule dispatch.simps, simp_all)+
  with append show ?thesis
    by (simp add: client_event_log_def node_event_log_def client_read_after_over[OF assms])
qed

lemma client_conversation_over:
  assumes "reliable lg lo cs call"
  shows "client_conversation call dbg = node_conversation cs"
proof -
  note ask = conversation_ask_over[OF assms]
  have
    "\<And>c. conversation_ask call dbg (ConversationCreate c) is_RConversationCreate the_conv_created = over (cr_create (cst_repo cs) c)"
    "\<And>t cid. conversation_ask call dbg (ConversationGet t cid) is_RConversationGet the_conv_got = over (cr_get (cst_repo cs) t cid)"
    "\<And>t cid m. conversation_ask call dbg (ConversationUpdateMetadata t cid m) is_RConversationUpdateMetadata the_conv_updated =
      over (cr_update_metadata (cst_repo cs) t cid m)"
    "\<And>t cid. conversation_ask call dbg (ConversationDelete t cid) is_RConversationDelete the_conv_deleted = over (cr_delete (cst_repo cs) t cid)"
    "\<And>t. conversation_ask call dbg (ConversationDeleteByTenant t) is_RConversationDeleteByTenant the_conv_purged =
      over (cr_delete_by_tenant (cst_repo cs) t)"
    "\<And>t. conversation_ask call dbg (ConversationList t) is_RConversationList the_listed = over (cr_list (cst_repo cs) t)"
    "conversation_ask call dbg ConversationHealth ((=) RConversationHealth) (\<lambda>_. ()) = over (cr_health (cst_repo cs))"
    "\<And>t cid. conversation_ask call dbg (ConversationReadSnapshot t cid) is_RConversationReadSnapshot the_snapshot =
      over (cn_read_snapshot (cst_snapshots cs) t cid)"
    "\<And>t cid rid tc now_ms. conversation_ask call dbg (ConversationAppendTurn t cid rid tc now_ms) is_RConversationAppendTurn the_turn_index =
      over (cn_append_turn (cst_snapshots cs) t cid rid tc now_ms)"
    "\<And>t cid rid. conversation_ask call dbg (ConversationAdvance t cid rid) ((=) RConversationAdvance) (\<lambda>_. ()) =
      over (cn_advance (cst_snapshots cs) t cid rid)"
    "\<And>t cid rid now_ms. conversation_ask call dbg (ConversationAcquireActive t cid rid now_ms) is_RConversationAcquireActive the_acquired =
      over (tl_acquire_active (cst_lock cs) t cid rid now_ms)"
    "\<And>t cid rid st now_ms. conversation_ask call dbg (ConversationReleaseActive t cid rid st now_ms) is_RConversationReleaseActive the_released =
      over (tl_release_active (cst_lock cs) t cid rid st now_ms)"
    "\<And>t cid holder. conversation_ask call dbg (ConversationReleaseStaleActive t cid holder) is_RConversationReleaseStaleActive the_stale_released =
      over (tl_release_stale_active (cst_lock cs) t cid holder)"
    "\<And>t cid kind now_ms. conversation_ask call dbg (ConversationAppendEvent t cid kind now_ms) is_RConversationAppendEvent the_conv_appended =
      over (ce_append_event (cst_events cs) t cid kind now_ms)"
    "\<And>t cid after limit wait. conversation_ask call dbg (ConversationReadAfter t cid after limit wait) is_RConversationReadAfter the_conv_events =
      over (ce_read_after (cst_events cs) t cid after limit wait)"
    by (rule ask, rule dispatch.simps, simp_all)+
  then show ?thesis
    by (simp add: client_conversation_def node_conversation_def client_repo_def client_snapshots_def client_lock_def client_events_def)
qed

section \<open>Admission across nodes\<close>

lemma in_flight_update: "length (filter P (AList.update k v t)) \<le> Suc (length (filter P t))"
  by (induction t) auto

lemma ledger_create_in_flight:
  "in_flight_count (snd (ledger_create cx ig r key s)) \<le> Suc (in_flight_count s)"
  by (simp add: ledger_create_def insert_record_def in_flight_count_def Let_def in_flight_update split: sum.split option.split)

lemma node_create_mem:
  "node_create (mem_ledger cx ig) r key now_ms c =
    (if cl_read_only c then (Inr OutcomeReadOnly, c)
     else if cl_pending_limit c \<le> in_flight_count (w_store (cl_carrier c)) then (Inr Overloaded, c)
     else over (on_store (ledger_create cx ig r key)) c)"
  by (simp add: node_create_def over_def mem_ledger_def reads_def ledger_in_flight_def)

lemma client_ledger_create: "lg_create (client_ledger call dbg) = client_create call dbg"
  by (simp add: client_ledger_def)

lemma mem_ledger_create: "lg_create (mem_ledger cx ig) r key now_ms = on_store (ledger_create cx ig r key)"
  by (simp add: mem_ledger_def)

lemma node_in_flight: "lg_in_flight (node_ledger lg) = over (lg_in_flight lg)"
  by (simp add: node_ledger_def)

lemma mem_in_flight: "lg_in_flight (mem_ledger cx ig) = reads (\<lambda>w. Inr (in_flight_count (w_store w)))"
  by (simp add: mem_ledger_def ledger_in_flight_def[abs_def])

lemma node_create_in_flight:
  "in_flight_count (w_store (cl_carrier (snd (node_create (mem_ledger cx ig) r key now_ms c)))) \<le>
    max (cl_pending_limit c) (in_flight_count (w_store (cl_carrier c)))"
  "cl_pending_limit (snd (node_create (mem_ledger cx ig) r key now_ms c)) = cl_pending_limit c"
  using ledger_create_in_flight[of cx ig r key "w_store (cl_carrier c)"]
  by (auto simp: node_create_mem over_def on_store_def split: prod.split)

lemma node_creates_in_flight:
  "in_flight_count (w_store (cl_carrier (snd (in_turn (map (\<lambda>x. node_create (mem_ledger cx ig) (fst x) (snd x) now_ms) xs) c)))) \<le>
    max (cl_pending_limit c) (in_flight_count (w_store (cl_carrier c)))"
proof (induction xs arbitrary: c)
  case (Cons x xs)
  obtain o' c1 where n: "node_create (mem_ledger cx ig) (fst x) (snd x) now_ms c = (o', c1)" by fastforce
  then have "in_flight_count (w_store (cl_carrier c1)) \<le> max (cl_pending_limit c) (in_flight_count (w_store (cl_carrier c)))"
    "cl_pending_limit c1 = cl_pending_limit c"
    using node_create_in_flight[of cx ig "fst x" "snd x" now_ms c] by simp_all
  with Cons.IH[of c1] n show ?case by (simp add: case_prod_unfold)
qed simp

lemma admits_in_turn:
  assumes "client_admits call dbg c = (Inr None, c)"
  shows "in_turn (replicate n (client_admits call dbg)) c = (replicate n (Inr None), c)"
  using assms by (induction n) simp_all

lemma forwards_in_turn:
  assumes rel: "reliable (mem_ledger cx None) lo cs call" and at: "ledger_at q p (w_store (cl_carrier c))"
    and rows: "\<forall>x \<in> set xs. record_ok (fst x) \<and> rr_status (fst x) = Queued"
    and new: "\<forall>x \<in> set xs. map_of (st_idem (w_store (cl_carrier c))) (snd x) = None \<and>
      map_of (st_records (w_store (cl_carrier c))) (rr_response_id (fst x)) = None \<and>
      rr_response_id (fst x) \<notin> set (st_queued (w_store (cl_carrier c)))"
    and inj: "distinct (map (\<lambda>x. rr_response_id (fst x)) xs)" "distinct (map snd xs)"
    and room: "length q + p + length xs \<le> st_pending_limit (w_store (cl_carrier c))"
      "length (st_records (w_store (cl_carrier c))) + length xs \<le> st_max_records (w_store (cl_carrier c))"
  shows "\<exists>c'. in_turn (map (\<lambda>x. client_forward_create call dbg (fst x) (snd x) now_ms) xs) c =
      (map (\<lambda>x. Inr (Accepted (fst x))) xs, c') \<and>
    ledger_at (q @ map (\<lambda>x. rr_response_id (fst x)) xs) p (w_store (cl_carrier c'))"
  using at rows new inj room
proof (induction xs arbitrary: q c)
  case (Cons x xs)
  let ?s = "w_store (cl_carrier c)"
  let ?c1 = "c\<lparr>cl_carrier := (cl_carrier c)\<lparr>w_store := enlist (fst x) (snd x) ?s\<rparr>\<rparr>"
  have fwd: "client_forward_create call dbg (fst x) (snd x) now_ms = over (lg_create (mem_ledger cx None) (fst x) (snd x) now_ms)"
    unfolding client_forward_create_def by (rule ledger_ask_over[OF rel]) (rule dispatch.simps, simp_all)
  have "ledger_create cx None (fst x) (snd x) ?s = (Inr (Accepted (fst x)), enlist (fst x) (snd x) ?s)"
    by (rule create_accepts[OF Cons.prems(1)]) (use Cons.prems in \<open>simp_all add: sign_def\<close>)
  then have one: "client_forward_create call dbg (fst x) (snd x) now_ms c = (Inr (Accepted (fst x)), ?c1)"
    by (simp add: fwd over_def mem_ledger_def on_store_def)
  have at1: "ledger_at (q @ [rr_response_id (fst x)]) p (w_store (cl_carrier ?c1))"
    using enlist_at[OF Cons.prems(1), of "fst x" "snd x"] Cons.prems(2,3) by simp
  have len: "length (st_records (w_store (cl_carrier ?c1))) = Suc (length (st_records ?s))"
    using enlist_length[of ?s "fst x"] Cons.prems(3) by simp
  have other: "\<forall>y \<in> set xs. rr_response_id (fst y) \<noteq> rr_response_id (fst x) \<and> snd y \<noteq> snd x"
  proof (intro ballI conjI notI)
    fix y assume y: "y \<in> set xs"
    show False if "rr_response_id (fst y) = rr_response_id (fst x)"
      using Cons.prems(4) that imageI[OF y, of "\<lambda>x. rr_response_id (fst x)"] by simp
    show False if "snd y = snd x" using Cons.prems(5) that imageI[OF y, of snd] by simp
  qed
  have "\<exists>c'. in_turn (map (\<lambda>x. client_forward_create call dbg (fst x) (snd x) now_ms) xs) ?c1 =
      (map (\<lambda>x. Inr (Accepted (fst x))) xs, c') \<and>
    ledger_at ((q @ [rr_response_id (fst x)]) @ map (\<lambda>x. rr_response_id (fst x)) xs) p (w_store (cl_carrier c'))"
  proof (rule Cons.IH[OF at1])
    show "\<forall>y \<in> set xs. record_ok (fst y) \<and> rr_status (fst y) = Queued" using Cons.prems(2) by simp
    show "\<forall>y \<in> set xs. map_of (st_idem (w_store (cl_carrier ?c1))) (snd y) = None \<and>
        map_of (st_records (w_store (cl_carrier ?c1))) (rr_response_id (fst y)) = None \<and>
        rr_response_id (fst y) \<notin> set (st_queued (w_store (cl_carrier ?c1)))"
      using Cons.prems(3) other by simp
  qed (use Cons.prems(4-) len in simp_all)
  then obtain c' where c': "in_turn (map (\<lambda>x. client_forward_create call dbg (fst x) (snd x) now_ms) xs) ?c1 =
      (map (\<lambda>x. Inr (Accepted (fst x))) xs, c')"
    "ledger_at ((q @ [rr_response_id (fst x)]) @ map (\<lambda>x. rr_response_id (fst x)) xs) p (w_store (cl_carrier c'))" by blast
  show ?case by (rule exI[of _ c']) (use one c' in simp)
qed simp

section \<open>Properties\<close>

text \<open>C13: Over a transport on which every call arrives and is answered, each of the three client adapters is, as
  a whole, the carrier's own port behind the controls of the node: every operation forwards to the operation of
  the same name and returns its result or its error, the read-only node refuses every gated write without a
  call, admission is decided from the carrier's count and the node's limit, and numbered events come back as
  they were stored.\<close>

theorem clients_are_the_carrier_behind_node_controls:
  assumes "reliable lg lo cs call"
  shows "client_ledger call dbg = node_ledger lg \<and> client_event_log call dbg = node_event_log lo \<and>
    client_conversation call dbg = node_conversation cs"
  using client_ledger_over[OF assms] client_event_log_over[OF assms] client_conversation_over[OF assms] by blast

definition direct :: "'s response_ledger \<Rightarrow> 's response_event_log \<Rightarrow> 's conversation_store \<Rightarrow> 's transport" where
  "direct lg lo cs req s = (case dispatch lg lo cs req s of (r, s') \<Rightarrow> (Inr r, s'))"

lemma direct_reliable: "reliable lg lo cs (direct lg lo cs)"
  by (simp add: reliable_def direct_def case_prod_unfold)

theorem clients_are_the_carrier_behind_node_controls_witness:
  "fst (lg_in_flight (client_ledger (direct (mem_ledger demo_codec None) mem_event_log mem_conversation) (\<lambda>_. []))
    (MemClientWorld_new (world_at demo_queued EventLog_new))) = Inr 1"
proof -
  have "client_ledger (direct (mem_ledger demo_codec None) mem_event_log mem_conversation) (\<lambda>_. []) = node_ledger (mem_ledger demo_codec None)"
    using clients_are_the_carrier_behind_node_controls[OF direct_reliable, where dbg = "\<lambda>_. []"] by blast
  moreover have "in_flight_count demo_queued = 1"
    by (simp add: in_flight_count_def demo_queued_eq insert_record_def Let_def MemStore_new_def demo_record_def ResponseRecord_queued_def
        split: option.split)
  ultimately show ?thesis by (simp add: node_in_flight mem_in_flight over_def reads_def MemClientWorld_new_def)
qed

text \<open>C14: The pending limit of a node is checked before it is taken.  However many whole creates run one after
  the other, the carrier never holds more unfinished responses than the limit (or than it held before).  But a
  create is two calls: when \<open>n\<close> of them all check first and then all write, every one is admitted as long as a
  single place was free, and the carrier ends with \<open>n\<close> more unfinished responses whatever the limit.\<close>

theorem pending_limit_is_check_then_act:
  assumes "reliable (mem_ledger cx None) mem_event_log mem_conversation call"
    and "ledger_at q p (w_store (cl_carrier c))" "\<not> cl_read_only c" "length q + p < cl_pending_limit c"
    and "\<forall>x \<in> set xs. record_ok (fst x) \<and> rr_status (fst x) = Queued"
    and "\<forall>x \<in> set xs. map_of (st_idem (w_store (cl_carrier c))) (snd x) = None \<and>
      map_of (st_records (w_store (cl_carrier c))) (rr_response_id (fst x)) = None \<and>
      rr_response_id (fst x) \<notin> set (st_queued (w_store (cl_carrier c)))"
    and "distinct (map (\<lambda>x. rr_response_id (fst x)) xs)" "distinct (map snd xs)"
    and "length q + p + length xs \<le> st_pending_limit (w_store (cl_carrier c))"
      "length (st_records (w_store (cl_carrier c))) + length xs \<le> st_max_records (w_store (cl_carrier c))"
  shows "in_flight_count (w_store (cl_carrier (snd
      (in_turn (map (\<lambda>x. client_create call dbg (fst x) (snd x) now_ms) xs) c)))) \<le> cl_pending_limit c \<and>
    in_turn (replicate (length xs) (client_admits call dbg)) c = (replicate (length xs) (Inr None), c) \<and>
    (\<exists>c'. in_turn (map (\<lambda>x. client_forward_create call dbg (fst x) (snd x) now_ms) xs) c =
        (map (\<lambda>x. Inr (Accepted (fst x))) xs, c') \<and>
      in_flight_count (w_store (cl_carrier c')) = in_flight_count (w_store (cl_carrier c)) + length xs)"
proof (intro conjI)
  note count = in_flight_at[OF assms(2)]
  show "in_flight_count (w_store (cl_carrier (snd
      (in_turn (map (\<lambda>x. client_create call dbg (fst x) (snd x) now_ms) xs) c)))) \<le> cl_pending_limit c"
    using node_creates_in_flight[of cx None now_ms xs c] count assms(4) by (simp add: client_create_over[OF assms(1)])
  have "client_in_flight call dbg = over (lg_in_flight (mem_ledger cx None))"
    unfolding client_in_flight_def by (rule ledger_ask_over[OF assms(1)]) (rule dispatch.simps, simp_all)
  then have "client_admits call dbg c = (Inr None, c)"
    using assms(3,4) count by (simp add: client_admits_def over_def mem_ledger_def reads_def ledger_in_flight_def)
  then show "in_turn (replicate (length xs) (client_admits call dbg)) c = (replicate (length xs) (Inr None), c)"
    by (rule admits_in_turn)
  obtain c' where c': "in_turn (map (\<lambda>x. client_forward_create call dbg (fst x) (snd x) now_ms) xs) c =
      (map (\<lambda>x. Inr (Accepted (fst x))) xs, c')"
    "ledger_at (q @ map (\<lambda>x. rr_response_id (fst x)) xs) p (w_store (cl_carrier c'))"
    using forwards_in_turn[OF assms(1,2,5-10), of dbg now_ms] by blast
  then show "\<exists>c'. in_turn (map (\<lambda>x. client_forward_create call dbg (fst x) (snd x) now_ms) xs) c =
      (map (\<lambda>x. Inr (Accepted (fst x))) xs, c') \<and>
    in_flight_count (w_store (cl_carrier c')) = in_flight_count (w_store (cl_carrier c)) + length xs"
    using in_flight_at[OF c'(2)] count by auto
qed

definition demo_node :: "world client" where
  "demo_node = (MemClientWorld_new (world_at MemStore_new EventLog_new))\<lparr>cl_pending_limit := 1\<rparr>"

definition demo_creates :: "(response_record \<times> idempotency_key) list" where
  "demo_creates = [(demo_record, demo_key), (demo_record\<lparr>rr_response_id := ResponseId (NodeTag ''n2'') 2\<rparr>, IdempotencyKey ''k2'')]"

lemma demo_node_fields:
  "w_store (cl_carrier demo_node) = MemStore_new" "\<not> cl_read_only demo_node" "cl_pending_limit demo_node = 1"
  by (simp_all add: demo_node_def MemClientWorld_new_def)

lemma demo_creates_ok:
  "\<forall>x \<in> set demo_creates. record_ok (fst x) \<and> rr_status (fst x) = Queued" "length demo_creates = 2"
  "distinct (map (\<lambda>x. rr_response_id (fst x)) demo_creates)" "distinct (map snd demo_creates)"
  by (simp_all add: demo_creates_def demo_record_def ResponseRecord_queued_def demo_ids record_ok_def UNCLAIMED_def)

lemma empty_store:
  "ledger_at [] 0 MemStore_new" "st_idem MemStore_new = []" "st_records MemStore_new = []" "st_queued MemStore_new = []"
  "st_pending_limit MemStore_new = 10000" "st_max_records MemStore_new = 100000" "in_flight_count MemStore_new = 0"
  using ledger_wf_new by (simp_all add: ledger_at_def queued_rows_def rows_in_def in_flight_count_def MemStore_new_def)

theorem pending_limit_is_check_then_act_witness:
  "\<exists>c'. in_turn (map (\<lambda>x. client_forward_create (direct (mem_ledger demo_codec None) mem_event_log mem_conversation) (\<lambda>_. [])
      (fst x) (snd x) 1000) demo_creates) demo_node = (map (\<lambda>x. Inr (Accepted (fst x))) demo_creates, c') \<and>
    cl_pending_limit demo_node < in_flight_count (w_store (cl_carrier c'))"
  using pending_limit_is_check_then_act[OF direct_reliable, where c = demo_node and q = "[]" and p = 0 and xs = demo_creates
      and cx = demo_codec and dbg = "\<lambda>_. []" and now_ms = 1000]
  by (simp add: demo_node_fields demo_creates_ok empty_store) (elim conjE exE, intro exI conjI, assumption, simp)

text \<open>A retry is answered by its key only below the limit.  For a key the carrier knows, the carrier's own
  port answers with the original response whatever the load and even when its node is read-only; the client adapter,
  which asks for the count first, answers the same retry \<open>Overloaded\<close> (or \<open>ReadOnly\<close>) once the limit is
  reached, although the retry would add no response.\<close>

theorem retry_is_refused_at_the_limit:
  assumes "reliable (mem_ledger cx ig) mem_event_log mem_conversation call"
    and "sign cx ig r0 = Inr r" "map_of (st_idem (w_store (cl_carrier c))) key = Some rid"
    and "map_of (st_records (w_store (cl_carrier c))) rid = Some original"
  shows "lg_create (mem_ledger cx ig) r0 key now_ms (cl_carrier c) = (Inr (Duplicate original), cl_carrier c) \<and>
    lg_create (client_ledger call dbg) r0 key now_ms c =
      (Inr (if cl_read_only c then OutcomeReadOnly
            else if cl_pending_limit c \<le> in_flight_count (w_store (cl_carrier c)) then Overloaded
            else Duplicate original), c)"
  using create_duplicate[OF assms(2-4)]
  by (simp add: client_ledger_create client_create_over[OF assms(1)] node_create_mem mem_ledger_create over_def on_store_def)

theorem retry_is_refused_at_the_limit_witness:
  "fst (lg_create (client_ledger (direct (mem_ledger demo_codec None) mem_event_log mem_conversation) (\<lambda>_. []))
     demo_record demo_key 2000 (demo_node\<lparr>cl_carrier := world_at demo_queued EventLog_new\<rparr>)) = Inr Overloaded"
  using retry_is_refused_at_the_limit[OF direct_reliable, where cx = demo_codec and ig = None and ?r0.0 = demo_record and r = demo_record
      and c = "demo_node\<lparr>cl_carrier := world_at demo_queued EventLog_new\<rparr>" and key = demo_key and rid = demo_rid
      and original = demo_record and dbg = "\<lambda>_. []" and now_ms = 2000]
  by (simp add: sign_def demo_queued_fields demo_node_def MemClientWorld_new_def)
    (simp add: in_flight_count_def demo_queued_eq insert_record_def Let_def MemStore_new_def demo_record_def ResponseRecord_queued_def)

end
