(* ===== verification/Completions.thy ===== *)
theory Completions
  imports Sink
begin

text \<open>
  What the mock executor sends to a model provider and gets back
  (\<open>verify/mock/agentd/src/completions\<close>): the outcome of one request, the request and its messages, and
  the translation of a context of items into messages.
\<close>

section \<open>Outcome (outcome.rs)\<close>

datatype finish_reason = FinishStop | FinishLength | FinishToolCalls | FinishRefusal

fun is_complete_answer :: "finish_reason \<Rightarrow> bool" where
  "is_complete_answer FinishStop = True"
| "is_complete_answer FinishToolCalls = True"
| "is_complete_answer FinishLength = False"
| "is_complete_answer FinishRefusal = False"

record tool_call =
  fc_id :: string
  fc_name :: string
  fc_arguments :: string

record completions_outcome =
  cmo_items :: "response_item list"
  cmo_usage :: usage
  cmo_finish :: finish_reason

text \<open>FNV-1a on 64 bits.\<close>

definition fnv_step :: "64 word \<Rightarrow> char \<Rightarrow> 64 word" where
  "fnv_step h b = xor h (of_char b) * 0x100000001b3"

definition stable_id :: "string \<Rightarrow> 64 word" where
  "stable_id t = foldl fnv_step 0xcbf29ce484222325 t"

text \<open>\<open>{:x}\<close>: lower-case hexadecimal without leading zeros.\<close>

definition hex_char :: "nat \<Rightarrow> char" where
  "hex_char n = ''0123456789abcdef'' ! n"

fun hex_text :: "nat \<Rightarrow> string" where
  "hex_text n = (if n < 16 then [hex_char n] else hex_text (n div 16) @ [hex_char (n mod 16)])"

declare hex_text.simps [simp del]

definition message_id :: "string \<Rightarrow> string" where
  "message_id t = ''msg_'' @ hex_text (unat (stable_id t))"

definition assistant_text_message :: "string \<Rightarrow> response_item" where
  "assistant_text_message t = Message Assistant [OutputText t] (Some (message_id t)) None"

definition outcome_text :: "string \<Rightarrow> usage \<Rightarrow> completions_outcome" where
  "outcome_text t u = \<lparr>cmo_items = [assistant_text_message t], cmo_usage = u, cmo_finish = FinishStop\<rparr>"

definition outcome_refusal :: "string \<Rightarrow> usage \<Rightarrow> completions_outcome" where
  "outcome_refusal reason u = \<lparr>cmo_items = [Message Assistant [Refusal reason] (Some (message_id reason)) None],
    cmo_usage = u, cmo_finish = FinishRefusal\<rparr>"

definition outcome_tool_calls :: "tool_call list \<Rightarrow> usage \<Rightarrow> completions_outcome" where
  "outcome_tool_calls calls u =
    \<lparr>cmo_items = map (\<lambda>c. FunctionCall (fc_id c) (fc_name c) (fc_arguments c) None None) calls,
     cmo_usage = u, cmo_finish = FinishToolCalls\<rparr>"

definition is_chain_closed :: "completions_outcome \<Rightarrow> bool" where
  "is_chain_closed oc = list_all is_acceptable_as_input (cmo_items oc)"

section \<open>Request (request.rs)\<close>

datatype completions_content = ContentText string | ContentImageUrl string | ContentFileRef string

record assistant_tool_call =
  atc_id :: string
  atc_kind :: string
  atc_name :: string
  atc_arguments :: string

definition AssistantToolCall_new :: "string \<Rightarrow> string \<Rightarrow> string \<Rightarrow> assistant_tool_call" where
  "AssistantToolCall_new i name arguments = \<lparr>atc_id = i, atc_kind = ''function'', atc_name = name, atc_arguments = arguments\<rparr>"

datatype completions_message =
    SystemMessage string
  | UserMessage "completions_content list"
  | AssistantMessage "string option" "string option" "assistant_tool_call list"
  | ToolMessage string string

definition message_user_text :: "string \<Rightarrow> completions_message" where
  "message_user_text t = UserMessage [ContentText t]"

definition message_assistant_text :: "string \<Rightarrow> completions_message" where
  "message_assistant_text t = AssistantMessage (Some t) None []"

fun role_name :: "completions_message \<Rightarrow> string" where
  "role_name (SystemMessage _) = ''system''"
| "role_name (UserMessage _) = ''user''"
| "role_name (AssistantMessage _ _ _) = ''assistant''"
| "role_name (ToolMessage _ _) = ''tool''"

fun content_chars :: "completions_content \<Rightarrow> nat" where
  "content_chars (ContentText t) = length t"
| "content_chars (ContentImageUrl u) = length u"
| "content_chars (ContentFileRef i) = length i"

fun message_chars :: "completions_message \<Rightarrow> nat" where
  "message_chars (SystemMessage t) = length t"
| "message_chars (ToolMessage _ t) = length t"
| "message_chars (UserMessage parts) = sum_list (map content_chars parts)"
| "message_chars (AssistantMessage t _ calls) =
    (case t of None \<Rightarrow> 0 | Some s \<Rightarrow> length s) + sum_list (map (\<lambda>c. length (atc_name c) + length (atc_arguments c)) calls)"

record tool_spec =
  tsp_kind :: string
  tsp_name :: string
  tsp_description :: "string option"
  tsp_parameters :: json
  tsp_strict :: "bool option"

definition ToolSpec_new :: "string \<Rightarrow> string option \<Rightarrow> json \<Rightarrow> tool_spec" where
  "ToolSpec_new name description parameters = \<lparr>tsp_kind = ''function'', tsp_name = name, tsp_description = description,
    tsp_parameters = parameters, tsp_strict = None\<rparr>"

fun tool_spec_of_tool :: "tool \<Rightarrow> tool_spec" where
  "tool_spec_of_tool (ToolFunction name description parameters strict) = \<lparr>tsp_kind = ''function'', tsp_name = name,
    tsp_description = description, tsp_parameters = parameters, tsp_strict = strict\<rparr>"

datatype completions_tool_choice = CompletionsMode tool_choice_mode | CompletionsSpecific string string

fun completions_choice_of :: "tool_choice \<Rightarrow> completions_tool_choice" where
  "completions_choice_of (ChoiceMode m) = CompletionsMode m"
| "completions_choice_of (ChoiceFunction name) = CompletionsSpecific ''function'' name"

record completions_request =
  cq_model :: string
  cq_messages :: "completions_message list"
  cq_tools :: "tool_spec list"
  cq_tool_choice :: "completions_tool_choice option"
  cq_max_completion_tokens :: "nat option"
  cq_temperature :: "f64 option"
  cq_metadata :: metadata
  cq_provenance :: request_provenance

text \<open>\<open>last_user_text\<close>: the last text part of the last user message that has one.\<close>

fun last_text_part :: "completions_content list \<Rightarrow> string option" where
  "last_text_part [] = None"
| "last_text_part (ContentText t # _) = Some t"
| "last_text_part (_ # parts) = last_text_part parts"

fun last_text_in :: "completions_message list \<Rightarrow> string" where
  "last_text_in [] = []"
| "last_text_in (UserMessage parts # ms) = (case last_text_part (rev parts) of Some t \<Rightarrow> t | None \<Rightarrow> last_text_in ms)"
| "last_text_in (_ # ms) = last_text_in ms"

definition last_user_text :: "completions_request \<Rightarrow> string" where
  "last_user_text q = last_text_in (rev (cq_messages q))"

definition approx_input_chars :: "completions_request \<Rightarrow> nat" where
  "approx_input_chars q = sum_list (map message_chars (cq_messages q))"

section \<open>Translation (translate.rs)\<close>

datatype translation_error = OrphanToolOutput string | EmptyContext

fun translation_error_to_string :: "translation_error \<Rightarrow> string" where
  "translation_error_to_string (OrphanToolOutput c) =
    ''tool output for call `'' @ c @ ''` has no preceding call in this context''"
| "translation_error_to_string EmptyContext = ''context contains no messages to send''"

fun part_text :: "content_part \<Rightarrow> string" where
  "part_text (InputText t) = t"
| "part_text (OutputText t) = t"
| "part_text _ = []"

definition flatten_text :: "content_part list \<Rightarrow> string" where
  "flatten_text parts = concat (map part_text parts)"

fun content_part_message :: "content_part \<Rightarrow> completions_content option" where
  "content_part_message (InputText t) = Some (ContentText t)"
| "content_part_message (OutputText t) = Some (ContentText t)"
| "content_part_message (Refusal _) = None"
| "content_part_message (InputImage url file_id _) =
    (case (url, file_id) of
       (Some u, _) \<Rightarrow> Some (ContentImageUrl u)
     | (None, Some i) \<Rightarrow> Some (ContentFileRef i)
     | (None, None) \<Rightarrow> None)"
| "content_part_message (InputFile file_id url _) =
    (case (file_id, url) of
       (Some i, _) \<Rightarrow> Some (ContentFileRef i)
     | (None, Some u) \<Rightarrow> Some (ContentImageUrl u)
     | (None, None) \<Rightarrow> None)"

fun first_refusal :: "content_part list \<Rightarrow> string option" where
  "first_refusal [] = None"
| "first_refusal (Refusal r # _) = Some r"
| "first_refusal (_ # parts) = first_refusal parts"

definition message_of_role :: "role \<Rightarrow> content_part list \<Rightarrow> completions_message" where
  "message_of_role r content =
    (case r of
       User \<Rightarrow> UserMessage (List.map_filter content_part_message content)
     | Assistant \<Rightarrow> AssistantMessage (Some (flatten_text content)) (first_refusal content) []
     | _ \<Rightarrow> SystemMessage (flatten_text content))"

text \<open>A call joins the assistant message before it while that message has no text of its own.\<close>

definition push_call :: "assistant_tool_call \<Rightarrow> completions_message list \<Rightarrow> completions_message list" where
  "push_call call out =
    (case rev out of
       AssistantMessage content refusal calls # before \<Rightarrow>
         if content = None \<or> calls = [] \<and> content = None
         then rev (AssistantMessage content refusal (calls @ [call]) # before)
         else out @ [AssistantMessage None None [call]]
     | _ \<Rightarrow> out @ [AssistantMessage None None [call]])"

fun translate_items ::
  "response_item list \<Rightarrow> string list \<Rightarrow> completions_message list \<Rightarrow> translation_error + completions_message list" where
  "translate_items [] known out = Inr out"
| "translate_items (Message r content _ _ # items) known out = translate_items items known (out @ [message_of_role r content])"
| "translate_items (FunctionCall c name arguments _ _ # items) known out =
    translate_items items (known @ [c]) (push_call (AssistantToolCall_new c name arguments) out)"
| "translate_items (FunctionCallOutput c output _ _ # items) known out =
    (if c \<notin> set known then Inl (OrphanToolOutput c) else translate_items items known (out @ [ToolMessage c output]))"

definition items_to_messages :: "response_item list \<Rightarrow> translation_error + completions_message list" where
  "items_to_messages items = translate_items items [] []"

definition from_context ::
  "string \<Rightarrow> string option \<Rightarrow> response_item list \<Rightarrow> request_provenance \<Rightarrow> translation_error + completions_request" where
  "from_context model instructions items provenance =
    (let prefix = (case instructions of Some t \<Rightarrow> if t \<noteq> [] then [SystemMessage t] else [] | None \<Rightarrow> []) in
     case items_to_messages items of
       Inl e \<Rightarrow> Inl e
     | Inr ms \<Rightarrow>
         if prefix @ ms = [] then Inl EmptyContext
         else Inr \<lparr>cq_model = model, cq_messages = prefix @ ms, cq_tools = [], cq_tool_choice = None,
           cq_max_completion_tokens = None, cq_temperature = None, cq_metadata = [], cq_provenance = provenance\<rparr>)"

definition with_tools :: "tool_spec list \<Rightarrow> completions_request \<Rightarrow> completions_request" where
  "with_tools tools q = q\<lparr>cq_tools := tools\<rparr>"

definition with_tool_choice :: "completions_tool_choice option \<Rightarrow> completions_request \<Rightarrow> completions_request" where
  "with_tool_choice choice q = q\<lparr>cq_tool_choice := choice\<rparr>"

definition with_metadata :: "metadata \<Rightarrow> completions_request \<Rightarrow> completions_request" where
  "with_metadata m q = q\<lparr>cq_metadata := m\<rparr>"

section \<open>What a translation is\<close>

fun is_call :: "response_item \<Rightarrow> bool" where
  "is_call (FunctionCall _ _ _ _ _) = True"
| "is_call _ = False"

fun call_of :: "response_item \<Rightarrow> assistant_tool_call" where
  "call_of i = AssistantToolCall_new (item_call_id i) (item_name i) (item_arguments i)"

fun call_ids :: "response_item list \<Rightarrow> string set" where
  "call_ids [] = {}"
| "call_ids (FunctionCall c name arguments i st # items) = insert c (call_ids items)"
| "call_ids (Message r content i st # items) = call_ids items"
| "call_ids (FunctionCallOutput c result i st # items) = call_ids items"

text \<open>The context as messages, one per item, a run of calls as one message.\<close>

function messages_of :: "response_item list \<Rightarrow> completions_message list" where
  "messages_of [] = []"
| "messages_of (Message r content i st # items) = message_of_role r content # messages_of items"
| "messages_of (FunctionCallOutput c result i st # items) = ToolMessage c result # messages_of items"
| "messages_of (FunctionCall c name arguments i st # items) =
    AssistantMessage None None (map call_of (takeWhile is_call (FunctionCall c name arguments i st # items)))
      # messages_of (dropWhile is_call items)"
  by pat_completeness auto
termination by (relation "measure length") (auto simp: less_Suc_eq_le length_dropWhile_le)

text \<open>The first tool output that answers no call before it.\<close>

fun first_orphan :: "string set \<Rightarrow> response_item list \<Rightarrow> string option" where
  "first_orphan known [] = None"
| "first_orphan known (FunctionCall c name arguments i st # items) = first_orphan (insert c known) items"
| "first_orphan known (FunctionCallOutput c result i st # items) = (if c \<in> known then first_orphan known items else Some c)"
| "first_orphan known (Message r content i st # items) = first_orphan known items"

text \<open>Translating while the last message of the result is an open group of calls.\<close>

definition open_group :: "completions_message list \<Rightarrow> bool" where
  "open_group out \<longleftrightarrow> (\<exists>refusal calls before. out = before @ [AssistantMessage None refusal calls])"

lemma push_call_closed: "\<not> open_group out \<Longrightarrow> push_call call out = out @ [AssistantMessage None None [call]]"
proof (cases out rule: rev_cases)
  case (snoc before m)
  assume "\<not> open_group out"
  then have "m \<noteq> AssistantMessage None r cs" for r cs using snoc by (auto simp: open_group_def)
  then show ?thesis using snoc by (cases m) (auto simp: push_call_def)
qed (simp add: push_call_def)

lemma push_call_open:
  "push_call call (before @ [AssistantMessage None refusal calls]) = before @ [AssistantMessage None refusal (calls @ [call])]"
  by (simp add: push_call_def)

lemma open_group_last [simp]:
  "open_group (out @ [m]) \<longleftrightarrow> (\<exists>refusal calls. m = AssistantMessage None refusal calls)"
  "open_group (out @ [m', m]) \<longleftrightarrow> (\<exists>refusal calls. m = AssistantMessage None refusal calls)" "\<not> open_group []"
  using append.assoc[of out "[m']" "[m]"] by (auto simp: open_group_def)

lemma message_of_role_text [simp]: "message_of_role r content \<noteq> AssistantMessage None refusal calls"
  by (cases r) (simp_all add: message_of_role_def)

definition translation :: "string set \<Rightarrow> response_item list \<Rightarrow> completions_message list \<Rightarrow> translation_error + completions_message list" where
  "translation known items out =
    (case first_orphan known items of Some c \<Rightarrow> Inl (OrphanToolOutput c) | None \<Rightarrow> Inr (out @ messages_of items))"

lemma translation_calls:
  assumes "is_call i"
  shows "first_orphan known (i # items) = first_orphan (insert (item_call_id i) known) items"
  using assms by (cases i) simp_all

lemma messages_of_dropWhile:
  "messages_of items =
    (if items \<noteq> [] \<and> is_call (hd items)
     then AssistantMessage None None (map call_of (takeWhile is_call items)) # messages_of (dropWhile is_call items)
     else messages_of items)"
proof (cases items)
  case (Cons i rest)
  then show ?thesis by (cases i) simp_all
qed simp

lemma translate_items_eq:
  "\<not> open_group out \<Longrightarrow> translate_items items known out = translation (set known) items out"
  "translate_items items known (out @ [AssistantMessage None refusal calls]) =
    (case first_orphan (set known) items of
       Some c \<Rightarrow> Inl (OrphanToolOutput c)
     | None \<Rightarrow> Inr (out @ AssistantMessage None refusal (calls @ map call_of (takeWhile is_call items))
         # messages_of (dropWhile is_call items)))"
proof (induction items arbitrary: known out refusal calls)
  case Nil
  { case 1 show ?case by (simp add: translation_def) }
  { case 2 show ?case by simp }
next
  case (Cons i items)
  { case 1
    show ?case
    proof (cases i)
      case (FunctionCall c name arguments x st)
      then show ?thesis
        using Cons.IH(2)[of "known @ [c]" out None "[AssistantToolCall_new c name arguments]"]
        by (simp add: push_call_closed[OF 1] translation_def split: option.split)
    qed (use Cons.IH(1) in \<open>auto simp: translation_def split: option.split\<close>) }
  { case 2
    show ?case
    proof (cases i)
      case (FunctionCall c name arguments x st)
      then show ?thesis
        using Cons.IH(2)[of "known @ [c]" out refusal "calls @ [AssistantToolCall_new c name arguments]"]
        by (simp add: push_call_open split: option.split)
    qed (use Cons.IH(1) in \<open>auto simp: translation_def split: option.split\<close>) }
qed

lemma items_to_messages_eq:
  "items_to_messages items =
    (case first_orphan {} items of Some c \<Rightarrow> Inl (OrphanToolOutput c) | None \<Rightarrow> Inr (messages_of items))"
  using translate_items_eq(1)[where out = "[]" and known = "[]" and items = items] by (simp add: items_to_messages_def translation_def split: option.split)

lemma output_split:
  "(\<exists>pre result i st post. x # items = pre @ FunctionCallOutput c result i st # post \<and> Q pre) \<longleftrightarrow>
    ((\<exists>result i st. x = FunctionCallOutput c result i st) \<and> Q []) \<or>
    (\<exists>pre result i st post. items = pre @ FunctionCallOutput c result i st # post \<and> Q (x # pre))"
    (is "?L \<longleftrightarrow> ?R1 \<or> ?R2")
proof
  assume ?L
  then obtain pre result i st post where eq: "x # items = pre @ FunctionCallOutput c result i st # post" and q: "Q pre" by blast
  show "?R1 \<or> ?R2"
  proof (cases pre)
    case (Cons y ys)
    then have "items = ys @ FunctionCallOutput c result i st # post \<and> Q (x # ys)" using eq q by simp
    then show ?thesis by blast
  qed (use eq q in simp)
next
  assume "?R1 \<or> ?R2"
  then show ?L
  proof
    assume ?R2
    then obtain pre result i st post where "items = pre @ FunctionCallOutput c result i st # post" "Q (x # pre)" by blast
    then have "x # items = (x # pre) @ FunctionCallOutput c result i st # post \<and> Q (x # pre)" by simp
    then show ?L by blast
  qed (metis append_Nil)
qed

lemma orphan_declared:
  "first_orphan known items = Some c \<longleftrightarrow>
    (\<exists>pre result i st post. items = pre @ FunctionCallOutput c result i st # post \<and> first_orphan known pre = None \<and>
      c \<notin> known \<union> call_ids pre)"
proof (induction items arbitrary: known)
  case (Cons x items)
  show ?case unfolding output_split[of x items c "\<lambda>pre. first_orphan known pre = None \<and> c \<notin> known \<union> call_ids pre"]
    by (cases x; simp add: Cons.IH; blast)
qed simp

lemma orphan_append:
  "first_orphan known (xs @ ys) =
    (case first_orphan known xs of Some c \<Rightarrow> Some c | None \<Rightarrow> first_orphan (known \<union> call_ids xs) ys)"
proof (induction xs arbitrary: known)
  case (Cons x xs)
  then show ?case by (cases x) (simp_all split: option.split)
qed simp

text \<open>C25: A context is translated exactly when every tool output answers a call before it; otherwise the answer names
  the call of the first output that does not.  The messages are the items in order, each run of calls as one assistant
  message without text that carries all of them; a context that translates to nothing, without instructions, is
  refused as empty.\<close>

theorem translation_groups_calls:
  "(\<forall>c. items_to_messages items = Inl (OrphanToolOutput c) \<longleftrightarrow>
      (\<exists>pre result i st post. items = pre @ FunctionCallOutput c result i st # post \<and>
        (\<exists>ms. items_to_messages pre = Inr ms) \<and> c \<notin> call_ids pre)) \<and>
    (\<forall>ms. items_to_messages items = Inr ms \<longrightarrow> ms = messages_of items) \<and>
    items_to_messages items \<noteq> Inl EmptyContext \<and>
    (from_context model instructions items provenance = Inl EmptyContext \<longleftrightarrow>
      items = [] \<and> (instructions = None \<or> instructions = Some []))"
proof (intro conjI allI impI)
  have orphan: "items_to_messages xs = Inl (OrphanToolOutput c) \<longleftrightarrow> first_orphan {} xs = Some c"
    and closed: "(\<exists>ms. items_to_messages xs = Inr ms) \<longleftrightarrow> first_orphan {} xs = None" for xs c
    by (simp_all add: items_to_messages_eq split: option.split)
  show "items_to_messages items = Inl (OrphanToolOutput c) \<longleftrightarrow>
      (\<exists>pre result i st post. items = pre @ FunctionCallOutput c result i st # post \<and>
        (\<exists>ms. items_to_messages pre = Inr ms) \<and> c \<notin> call_ids pre)" for c
    unfolding orphan closed orphan_declared[of "{}" items] by simp
  show "ms = messages_of items" if "items_to_messages items = Inr ms" for ms
    using that by (simp add: items_to_messages_eq split: option.splits)
  show "items_to_messages items \<noteq> Inl EmptyContext" by (simp add: items_to_messages_eq split: option.split)
  show "from_context model instructions items provenance = Inl EmptyContext \<longleftrightarrow>
      items = [] \<and> (instructions = None \<or> instructions = Some [])"
    by (cases items rule: messages_of.cases)
      (auto simp: from_context_def items_to_messages_eq Let_def split: option.splits)
qed

theorem translation_groups_calls_witness:
  "items_to_messages [user_text ''hi'', FunctionCall ''a'' ''f'' ''{}'' None None, FunctionCall ''b'' ''f'' ''{}'' None None,
      FunctionCallOutput ''a'' ''1'' None None] =
    Inr [UserMessage [ContentText ''hi''],
      AssistantMessage None None [AssistantToolCall_new ''a'' ''f'' ''{}'', AssistantToolCall_new ''b'' ''f'' ''{}''],
      ToolMessage ''a'' ''1'']"
proof -
  let ?items = "[user_text ''hi'', FunctionCall ''a'' ''f'' ''{}'' None None, FunctionCall ''b'' ''f'' ''{}'' None None,
      FunctionCallOutput ''a'' ''1'' None None]"
  obtain ms where ms: "items_to_messages ?items = Inr ms"
    by (simp add: items_to_messages_eq user_text_def)
  then have "ms = messages_of ?items" using translation_groups_calls by blast
  with ms show ?thesis by (simp add: user_text_def message_of_role_def List.map_filter_simps)
qed

end
