(* ===== verification/Scheduler.thy ===== *)
theory Scheduler
  imports Completions Ingress "HOL-Library.Sublist"
begin

text \<open>
  The mock executor's schedulers (\<open>verify/mock/agentd/src/scheduler\<close>): what they may fail with, the check of
  an outcome, and the two that need no provider, the echo and the scripted one.

  A scheduler runs while other processes act and while a cancellation probe watches.  Both are parameters
  (\<open>surroundings\<close>): what the others do to the world before a point where the scheduler awaits, whether the
  probe has resolved by then, and how a wait on the probe alone ends.  A dropped future leaves the sink
  and the world as they were at the await where it was dropped.
\<close>

section \<open>Errors and validation (scheduler/mod.rs)\<close>

datatype scheduler_error =
    SchSuperseded
  | SchDeadlineExceeded
  | SchUnavailable string
  | SchRejected string
  | SchQuotaExhausted
  | SchRefused string
  | SchEmptyOutcome
  | SchUnusableOutput string
  | SchInvalidOutput string
  | SchSink sink_error
  | SchOther string

fun sink_error_to_string :: "sink_error \<Rightarrow> string" where
  "sink_error_to_string (Transport m) = ''transport failure while streaming: '' @ m"
| "sink_error_to_string (SinkOther m) = m"

fun scheduler_error_to_string :: "scheduler_error \<Rightarrow> string" where
  "scheduler_error_to_string SchSuperseded = ''attempt superseded''"
| "scheduler_error_to_string SchDeadlineExceeded = ''execution deadline exceeded''"
| "scheduler_error_to_string (SchUnavailable m) = ''provider unavailable: '' @ m"
| "scheduler_error_to_string (SchRejected m) = ''provider rejected the request: '' @ m"
| "scheduler_error_to_string SchQuotaExhausted = ''provider quota exhausted''"
| "scheduler_error_to_string (SchRefused m) = ''scheduler refused the request: '' @ m"
| "scheduler_error_to_string SchEmptyOutcome = ''scheduler produced no output items''"
| "scheduler_error_to_string (SchUnusableOutput t) = ''scheduler produced a `'' @ t @ ''` item, which cannot be fed back as input''"
| "scheduler_error_to_string (SchInvalidOutput m) = ''scheduler produced an invalid item: '' @ m"
| "scheduler_error_to_string (SchSink e) = ''could not deliver incremental output: '' @ sink_error_to_string e"
| "scheduler_error_to_string (SchOther m) = m"

fun is_retryable :: "scheduler_error \<Rightarrow> bool" where
  "is_retryable (SchUnavailable _) = True"
| "is_retryable (SchRefused _) = True"
| "is_retryable (SchSink _) = True"
| "is_retryable _ = False"

fun item_type :: "response_item \<Rightarrow> string" where
  "item_type (Message _ _ _ _) = ''message''"
| "item_type (FunctionCall _ _ _ _ _) = ''function_call''"
| "item_type (FunctionCallOutput _ _ _ _) = ''function_call_output''"

fun validate_outcome_items ::
  "(string \<Rightarrow> parsed_url option) \<Rightarrow> protocol_limits \<Rightarrow> response_item list \<Rightarrow> scheduler_error + unit" where
  "validate_outcome_items url_parse limits [] = Inr ()"
| "validate_outcome_items url_parse limits (i # items) =
    (if \<not> is_acceptable_as_input i then Inl (SchUnusableOutput (item_type i))
     else case item_validate url_parse limits i of
       Inl e \<Rightarrow> Inl (SchInvalidOutput (item_violation_to_string e))
     | Inr _ \<Rightarrow> validate_outcome_items url_parse limits items)"

definition validate_outcome ::
  "(string \<Rightarrow> parsed_url option) \<Rightarrow> protocol_limits \<Rightarrow> completions_outcome \<Rightarrow> scheduler_error + unit" where
  "validate_outcome url_parse limits oc =
    (if cmo_items oc = [] then Inl SchEmptyOutcome else validate_outcome_items url_parse limits (cmo_items oc))"

text \<open>Text is cut between characters: a UTF-8 character is its first byte and the continuation bytes after it.\<close>

definition is_continuation :: "char \<Rightarrow> bool" where
  "is_continuation c \<longleftrightarrow> 0x80 \<le> (of_char c :: nat) \<and> of_char c < (0xC0 :: nat)"

function utf8_chars :: "string \<Rightarrow> string list" where
  "utf8_chars [] = []"
| "utf8_chars (c # cs) = (c # takeWhile is_continuation cs) # utf8_chars (dropWhile is_continuation cs)"
  by pat_completeness auto
termination by (relation "measure length") (simp_all add: less_Suc_eq_le length_dropWhile_le)

function chunks_of :: "nat \<Rightarrow> 'a list \<Rightarrow> 'a list list" where
  "chunks_of n xs = (if n = 0 \<or> xs = [] then [] else take n xs # chunks_of n (drop n xs))"
  by pat_completeness auto
termination by (relation "measure (length \<circ> snd)") auto

declare chunks_of.simps [simp del]

definition chunk_text :: "string \<Rightarrow> nat \<Rightarrow> string list" where
  "chunk_text t n =
    (if n \<le> 1 \<or> t = [] then [t]
     else let cs = utf8_chars t; chunk = max 1 ((length cs + n - 1) div n) in map concat (chunks_of chunk cs))"

section \<open>Streaming\<close>

record surroundings =
  sr_others :: "event_sink \<Rightarrow> world \<Rightarrow> world"
  sr_cancelled :: "event_sink \<Rightarrow> world \<Rightarrow> bool"
  sr_wait :: "event_sink \<Rightarrow> world \<Rightarrow> world option"

definition undisturbed :: surroundings where
  "undisturbed = \<lparr>sr_others = (\<lambda>_ w. w), sr_cancelled = (\<lambda>_ _. False), sr_wait = (\<lambda>_ _. None)\<rparr>"

datatype 'a raced = Ready 'a | CancelledFirst | Forever

type_synonym scheduler =
  "completions_request \<Rightarrow> event_sink \<Rightarrow> world \<Rightarrow> (scheduler_error + completions_outcome) raced \<times> event_sink \<times> world"

text \<open>A call whose verdict is ignored, and one after which \<open>Stop\<close> ends the run as superseded.\<close>

datatype stream_step = Unchecked sink_call | Checked sink_call

fun step_call :: "stream_step \<Rightarrow> sink_call" where
  "step_call (Unchecked c) = c"
| "step_call (Checked c) = c"

fun is_checked :: "stream_step \<Rightarrow> bool" where
  "is_checked (Checked _) = True"
| "is_checked (Unchecked _) = False"

fun stream_steps ::
  "surroundings \<Rightarrow> stream_step list \<Rightarrow> event_sink \<Rightarrow> world \<Rightarrow> (scheduler_error + unit) raced \<times> event_sink \<times> world" where
  "stream_steps sr [] sk w = (Ready (Inr ()), sk, w)"
| "stream_steps sr (s # ss) sk w =
    (let w1 = sr_others sr sk w in
     if sr_cancelled sr sk w1 then (CancelledFirst, sk, w1)
     else case sink_step (step_call s) sk w1 of
       (Inl e, sk2, w2) \<Rightarrow> (Ready (Inl (SchSink e)), sk2, w2)
     | (Inr v, sk2, w2) \<Rightarrow>
         if is_checked s \<and> v = Stop then (Ready (Inl SchSuperseded), sk2, w2) else stream_steps sr ss sk2 w2)"

definition text_steps :: "string \<Rightarrow> nat \<Rightarrow> stream_step list" where
  "text_steps t chunks =
    [Unchecked (CallItemAdded (assistant_text_message t)), Unchecked (CallPartAdded (message_id t) 0)] @
    map (\<lambda>piece. Checked (CallTextDelta piece)) (chunk_text t chunks) @
    [Unchecked (CallTextDone t), Unchecked (CallPartDone (message_id t) 0 t), Unchecked (CallItemDone (assistant_text_message t))]"

definition tool_call_steps :: "tool_call \<Rightarrow> stream_step list" where
  "tool_call_steps c =
    (let item = FunctionCall (fc_id c) (fc_name c) (fc_arguments c) None None in
     [Checked (CallItemAdded item), Checked (CallItemDone item)])"

text \<open>Stream, then answer.\<close>

definition streamed_then ::
  "surroundings \<Rightarrow> stream_step list \<Rightarrow> scheduler_error + completions_outcome \<Rightarrow> event_sink \<Rightarrow> world
    \<Rightarrow> (scheduler_error + completions_outcome) raced \<times> event_sink \<times> world" where
  "streamed_then sr steps answer sk w =
    (case stream_steps sr steps sk w of
       (Ready (Inr _), sk, w) \<Rightarrow> (Ready answer, sk, w)
     | (Ready (Inl e), sk, w) \<Rightarrow> (Ready (Inl e), sk, w)
     | (CancelledFirst, sk, w) \<Rightarrow> (CancelledFirst, sk, w)
     | (Forever, sk, w) \<Rightarrow> (Forever, sk, w))"

section \<open>Echo (scheduler/echo.rs)\<close>

definition EchoScheduler_new :: "nat \<Rightarrow> nat" where
  "EchoScheduler_new chunks = max chunks 1"

definition echo_answer :: "completions_request \<Rightarrow> string" where
  "echo_answer q = (if last_user_text q = [] then ''echo: (no user text)'' else ''echo: '' @ last_user_text q)"

definition echo_schedule :: "surroundings \<Rightarrow> nat \<Rightarrow> scheduler" where
  "echo_schedule sr chunks q =
    streamed_then sr (text_steps (echo_answer q) chunks)
      (Inr \<lparr>cmo_items = [assistant_text_message (echo_answer q)],
         cmo_usage = Usage_new (approx_input_chars q div 4) (length (echo_answer q) div 4), cmo_finish = FinishStop\<rparr>)"

section \<open>Scripted (scheduler/scripted.rs)\<close>

datatype script_match = MatchExact string | MatchContains string | MatchPrefix string | MatchAny

fun match_matches :: "script_match \<Rightarrow> completions_request \<Rightarrow> bool" where
  "match_matches (MatchExact s) q = (last_user_text q = s)"
| "match_matches (MatchContains s) q = sublist s (last_user_text q)"
| "match_matches (MatchPrefix s) q = prefix s (last_user_text q)"
| "match_matches MatchAny q = True"

datatype script =
    ScriptText string nat
  | ScriptTruncated string nat
  | ScriptRefuse string
  | ScriptToolCall string string string
  | ScriptFail string
  | ScriptReject string
  | ScriptStall string
  | ScriptEmpty
  | ScriptHang

record scripted_scheduler =
  ss_rules :: "(script_match \<times> script) list"
  ss_default :: "script option"

definition scripted_from_rules :: "(script_match \<times> script) list \<Rightarrow> scripted_scheduler" where
  "scripted_from_rules rules = \<lparr>ss_rules = rules, ss_default = None\<rparr>"

definition answering_by_default :: "string \<Rightarrow> nat \<Rightarrow> scripted_scheduler \<Rightarrow> scripted_scheduler" where
  "answering_by_default t chunks s = s\<lparr>ss_default := Some (ScriptText t (max chunks 1))\<rparr>"

definition failing_by_default :: "string \<Rightarrow> scripted_scheduler \<Rightarrow> scripted_scheduler" where
  "failing_by_default m s = s\<lparr>ss_default := Some (ScriptFail m)\<rparr>"

definition with_rule :: "script_match \<Rightarrow> script \<Rightarrow> scripted_scheduler \<Rightarrow> scripted_scheduler" where
  "with_rule m sc s = s\<lparr>ss_rules := ss_rules s @ [(m, sc)]\<rparr>"

definition scripted_select :: "scripted_scheduler \<Rightarrow> completions_request \<Rightarrow> script option" where
  "scripted_select s q =
    (case find (\<lambda>r. match_matches (fst r) q) (ss_rules s) of Some r \<Rightarrow> Some (snd r) | None \<Rightarrow> ss_default s)"

definition scripted_usage :: "completions_request \<Rightarrow> string \<Rightarrow> usage" where
  "scripted_usage q out = Usage_new (max 1 (approx_input_chars q div 4)) (max 1 (length out div 4))"

text \<open>\<open>dbg\<close> is the \<open>Debug\<close> text of a string.\<close>

definition scripted_schedule :: "surroundings \<Rightarrow> (string \<Rightarrow> string) \<Rightarrow> scripted_scheduler \<Rightarrow> scheduler" where
  "scripted_schedule sr dbg s q sk w =
    (case scripted_select s q of
       None \<Rightarrow> (Ready (Inl (SchOther (''no scripted rule matched, and no default was set. Last user text: ''
         @ dbg (last_user_text q)))), sk, w)
     | Some sc \<Rightarrow>
       (case sc of
          ScriptText t chunks \<Rightarrow>
            streamed_then sr (text_steps t chunks)
              (Inr \<lparr>cmo_items = [assistant_text_message t], cmo_usage = scripted_usage q t, cmo_finish = FinishStop\<rparr>) sk w
        | ScriptTruncated t chunks \<Rightarrow>
            streamed_then sr (text_steps t chunks)
              (Inr \<lparr>cmo_items = [assistant_text_message t], cmo_usage = scripted_usage q t, cmo_finish = FinishLength\<rparr>) sk w
        | ScriptRefuse reason \<Rightarrow> (Ready (Inr (outcome_refusal reason (scripted_usage q reason))), sk, w)
        | ScriptToolCall name arguments call_id \<Rightarrow>
            (let c = \<lparr>fc_id = call_id, fc_name = name, fc_arguments = arguments\<rparr> in
             streamed_then sr (tool_call_steps c) (Inr (outcome_tool_calls [c] (scripted_usage q arguments))) sk w)
        | ScriptFail m \<Rightarrow> (Ready (Inl (SchUnavailable m)), sk, w)
        | ScriptReject m \<Rightarrow> (Ready (Inl (SchRejected m)), sk, w)
        | ScriptStall before \<Rightarrow>
            streamed_then sr (if before \<noteq> [] then text_steps before 1 else []) (Inl SchDeadlineExceeded) sk w
        | ScriptEmpty \<Rightarrow> (Ready (Inr \<lparr>cmo_items = [], cmo_usage = Usage_default, cmo_finish = FinishStop\<rparr>), sk, w)
        | ScriptHang \<Rightarrow> (case sr_wait sr sk w of None \<Rightarrow> (Forever, sk, w) | Some w' \<Rightarrow> (CancelledFirst, sk, w'))))"

section \<open>Chunks\<close>

lemma concat_utf8_chars [simp]: "concat (utf8_chars t) = t"
  by (induction t rule: utf8_chars.induct) simp_all

lemma concat_chunks_of: "0 < n \<Longrightarrow> concat (chunks_of n xs) = xs"
proof (induction n xs rule: chunks_of.induct)
  case (1 n xs)
  then show ?case by (subst chunks_of.simps) auto
qed

lemma length_chunks_of: "0 < n \<Longrightarrow> length xs \<le> k * n \<Longrightarrow> length (chunks_of n xs) \<le> k"
proof (induction n xs arbitrary: k rule: chunks_of.induct)
  case (1 n xs)
  show ?case
  proof (cases "xs = []")
    case False
    then obtain k' where k: "k = Suc k'" using 1(3) by (cases k) auto
    then have "length (drop n xs) \<le> k' * n" using 1(3) by simp
    then have "length (chunks_of n (drop n xs)) \<le> k'" using 1(1)[of k'] 1(2) False by simp
    then show ?thesis using k False 1(2) by (subst chunks_of.simps) simp
  qed (simp add: chunks_of.simps)
qed

lemma chunks_of_nonempty: "[] \<notin> set (chunks_of n xs)"
proof (induction n xs rule: chunks_of.induct)
  case (1 n xs)
  then show ?case by (subst chunks_of.simps) auto
qed

lemma concat_map_concat: "concat (map concat xss) = concat (concat xss)"
  by (induction xss) simp_all

lemma ceiling_covers:
  fixes m n :: nat
  assumes "0 < n"
  shows "m \<le> n * ((m + n - 1) div n)"
proof -
  have "n * ((m + n - 1) div n) + (m + n - 1) mod n = m + n - 1" by simp
  moreover have "(m + n - 1) mod n < n" using assms by simp
  ultimately show ?thesis using assms by linarith
qed

lemma chunk_text_preserves: "concat (chunk_text t n) = t"
  by (simp add: chunk_text_def Let_def concat_chunks_of concat_map_concat)

lemma chunk_text_length: "length (chunk_text t n) \<le> max 1 n"
proof (cases "n \<le> 1 \<or> t = []")
  case False
  let ?cs = "utf8_chars t"
  let ?chunk = "max 1 ((length ?cs + n - 1) div n)"
  have "length ?cs \<le> n * ((length ?cs + n - 1) div n)" using False by (intro ceiling_covers) simp
  also have "\<dots> \<le> n * ?chunk" by (intro mult_le_mono2) simp
  finally have "length (chunks_of ?chunk ?cs) \<le> n" by (intro length_chunks_of) simp_all
  then show ?thesis using False by (simp add: chunk_text_def Let_def)
qed (simp add: chunk_text_def)

section \<open>What a run leaves in the sink\<close>

fun is_output :: "response_item \<Rightarrow> bool" where
  "is_output (FunctionCallOutput _ _ _ _) = True"
| "is_output _ = False"

text \<open>The items a list of calls reports as done, in order.\<close>

fun done_items :: "stream_step list \<Rightarrow> response_item list" where
  "done_items [] = []"
| "done_items (s # ss) = (case step_call s of CallItemDone i \<Rightarrow> [i] | _ \<Rightarrow> []) @ done_items ss"

lemma done_items_append [simp]: "done_items (xs @ ys) = done_items xs @ done_items ys"
  by (induction xs) simp_all

lemma done_items_deltas [simp]: "done_items (map (\<lambda>piece. Checked (CallTextDelta piece)) ps) = []"
  by (induction ps) simp_all

lemma done_items_text: "done_items (text_steps t chunks) = [assistant_text_message t]"
  by (simp add: text_steps_def)

lemma done_items_call:
  "done_items (tool_call_steps c) = [FunctionCall (fc_id c) (fc_name c) (fc_arguments c) None None]"
  by (simp add: tool_call_steps_def Let_def)

lemma sink_push_account: "es_completed (fst (snd (sink_push e sk w))) = es_completed sk"
  by (auto simp: sink_push_def split: prod.split sum.split)

lemma call_account_completed:
  "es_completed (call_account c sk) = es_completed sk @ (case c of CallItemDone i \<Rightarrow> [i] | _ \<Rightarrow> [])"
  by (cases c) simp_all

lemma sink_step_completed:
  "sink_step c sk w = (r, sk', w') \<Longrightarrow> es_completed sk' = es_completed sk @ (case c of CallItemDone i \<Rightarrow> [i] | _ \<Rightarrow> [])"
  using sink_push_account[of "call_event c sk" "call_account c sk" w]
  by (simp add: sink_step_push call_account_completed del: sink_step.simps)

lemma stream_steps_completed:
  "stream_steps sr ss sk w = (Ready (Inr u), sk', w') \<Longrightarrow> es_completed sk' = es_completed sk @ done_items ss"
proof (induction ss arbitrary: sk w)
  case (Cons s ss)
  obtain r sk2 w2 where st: "sink_step (step_call s) sk (sr_others sr sk w) = (r, sk2, w2)"
    by (cases "sink_step (step_call s) sk (sr_others sr sk w)") auto
  from Cons.prems st have "stream_steps sr ss sk2 w2 = (Ready (Inr u), sk', w')"
    by (cases r) (auto simp: Let_def split: if_splits)
  then show ?case using Cons.IH[of sk2 w2] sink_step_completed[OF st] by (simp add: append_assoc)
qed simp

lemma streamed_then_ready:
  assumes "streamed_then sr steps answer sk w = (Ready (Inr oc), sk', w')"
  shows "answer = Inr oc \<and> es_completed sk' = es_completed sk @ done_items steps"
  using assms stream_steps_completed[of sr steps sk w]
  by (auto simp: streamed_then_def split: prod.splits raced.splits sum.splits)

lemma stream_steps_returns: "fst (stream_steps sr ss sk w) \<noteq> Forever"
  by (induction ss arbitrary: sk w) (auto simp: Let_def split: prod.split sum.split)

lemma streamed_then_returns: "fst (streamed_then sr steps answer sk w) \<noteq> Forever"
  using stream_steps_returns[of sr steps sk w] by (auto simp: streamed_then_def split: prod.split raced.split sum.split)

section \<open>The contract of a scheduler\<close>

text \<open>
  What the runner relies on: an outcome has no tool outputs, calls only with the reason \<open>ToolCalls\<close>, and was
  reported to the sink item by item, but for a refusal, which neither scheduler streams.
\<close>

locale streaming_scheduler =
  fixes schedule :: scheduler
  assumes no_outputs: "schedule q sk w = (Ready (Inr oc), sk', w') \<Longrightarrow> \<forall>i \<in> set (cmo_items oc). \<not> is_output i"
    and calls_finish: "schedule q sk w = (Ready (Inr oc), sk', w') \<Longrightarrow> cmo_finish oc \<noteq> FinishToolCalls \<Longrightarrow>
      \<forall>i \<in> set (cmo_items oc). \<not> is_call i"
    and reported: "schedule q sk w = (Ready (Inr oc), sk', w') \<Longrightarrow>
      es_completed sk' = es_completed sk @ (if cmo_finish oc = FinishRefusal then [] else cmo_items oc)"
begin

lemma outcome_orphans:
  assumes "schedule q sk w = (Ready (Inr oc), sk', w')"
  shows "first_orphan known (cmo_items oc) = None"
proof -
  have "\<forall>i \<in> set items. \<not> is_output i \<Longrightarrow> first_orphan known items = None" for items known
  proof (induction items arbitrary: known)
    case (Cons i items)
    then show ?case by (cases i) auto
  qed simp
  then show ?thesis using no_outputs[OF assms] by blast
qed

end

lemma assistant_message_plain [simp]: "\<not> is_output (assistant_text_message t)" "\<not> is_call (assistant_text_message t)"
  by (simp_all add: assistant_text_message_def)

interpretation echo: streaming_scheduler "echo_schedule sr chunks"
  by unfold_locales (auto simp: echo_schedule_def done_items_text dest!: streamed_then_ready)

lemmas scripted_cases = scripted_schedule_def outcome_refusal_def outcome_tool_calls_def done_items_text done_items_call Let_def

interpretation scripted: streaming_scheduler "scripted_schedule sr dbg s"
proof unfold_locales
  fix q sk w oc sk' w'
  assume a: "scripted_schedule sr dbg s q sk w = (Ready (Inr oc), sk', w')"
  then show "\<forall>i \<in> set (cmo_items oc). \<not> is_output i"
    and "cmo_finish oc \<noteq> FinishToolCalls \<Longrightarrow> \<forall>i \<in> set (cmo_items oc). \<not> is_call i"
    and "es_completed sk' = es_completed sk @ (if cmo_finish oc = FinishRefusal then [] else cmo_items oc)"
    by (auto simp: scripted_cases split: option.splits script.splits if_splits dest!: streamed_then_ready)
qed

end
