(* ===== verification/Mock_Runner.thy ===== *)
theory Mock_Runner
  imports Scheduler System
begin

text \<open>
  The mock agent runner (\<open>verify/mock/agentd/src/mock_runner.rs\<close>) and the seam to its tools
  (\<open>tool.rs\<close>): schedule a completion, carry out the tool calls it asks for, and repeat until the model stops,
  is cut off, refuses, or the rounds are used up.
\<close>

section \<open>Tools (tool.rs)\<close>

datatype tool_error = UnknownTool string | ToolExecution string string

fun tool_error_to_string :: "tool_error \<Rightarrow> string" where
  "tool_error_to_string (UnknownTool name) = ''no tool named `'' @ name @ ''` is available''"
| "tool_error_to_string (ToolExecution name m) = ''tool `'' @ name @ ''` failed: '' @ m"

type_synonym tool_executor = "string \<Rightarrow> string \<Rightarrow> tool_error + string"

definition noop_tools :: tool_executor where
  "noop_tools name arguments = Inl (UnknownTool name)"

section \<open>The loop (mock_runner.rs)\<close>

text \<open>The calls of an outcome: id, name and arguments.\<close>

fun call_parts :: "response_item \<Rightarrow> (string \<times> string \<times> string) option" where
  "call_parts (FunctionCall c name arguments _ _) = Some (c, name, arguments)"
| "call_parts _ = None"

text \<open>The calls of one round: a result is announced and finished on the sink, then joins the conversation.
  The tool itself is raced against the probe, the sink calls are not.\<close>

fun run_tools ::
  "surroundings \<Rightarrow> tool_executor \<Rightarrow> usage \<Rightarrow> (string \<times> string \<times> string) list \<Rightarrow> response_item list \<Rightarrow> event_sink \<Rightarrow> world
    \<Rightarrow> (agent_error + response_item list) \<times> event_sink \<times> world" where
  "run_tools sr tools u [] conversation sk w = (Inr conversation, sk, w)"
| "run_tools sr tools u ((c, name, arguments) # calls) conversation sk w =
    (let w1 = sr_others sr sk w in
     if sr_cancelled sr sk w1 then (Inl Superseded, sk, w1)
     else case tools name arguments of
       Inl e \<Rightarrow> (Inl (AgentFailed (tool_error_to_string e) u), sk, w1)
     | Inr result \<Rightarrow>
         (let item = FunctionCallOutput c result None None in
          case sink_step (CallItemAdded item) sk (sr_others sr sk w1) of
            (Inl e, sk2, w2) \<Rightarrow> (Inl (AgentFailed (sink_error_to_string e) u), sk2, w2)
          | (Inr Stop, sk2, w2) \<Rightarrow> (Inl Superseded, sk2, w2)
          | (Inr Continue, sk2, w2) \<Rightarrow>
              (case sink_step (CallItemDone item) sk2 (sr_others sr sk2 w2) of
                 (Inl e, sk3, w3) \<Rightarrow> (Inl (AgentFailed (sink_error_to_string e) u), sk3, w3)
               | (Inr Stop, sk3, w3) \<Rightarrow> (Inl Superseded, sk3, w3)
               | (Inr Continue, sk3, w3) \<Rightarrow> run_tools sr tools u calls (conversation @ [item]) sk3 w3)))"

record mock_agent =
  ma_schedule :: scheduler
  ma_tools :: tool_executor
  ma_url_parse :: "string \<Rightarrow> parsed_url option"
  ma_limits :: protocol_limits

definition request_of :: "agent_task \<Rightarrow> response_item list \<Rightarrow> translation_error + completions_request" where
  "request_of task conversation =
    (case from_context (mp_model (tk_params task)) (mp_instructions (tk_params task)) conversation (tk_provenance task) of
       Inl e \<Rightarrow> Inl e
     | Inr q \<Rightarrow> Inr (with_metadata (mp_metadata (tk_params task))
         (with_tool_choice (map_option completions_choice_of (mp_tool_choice (tk_params task)))
           (with_tools (map tool_spec_of_tool (mp_tools (tk_params task))) q))))"

type_synonym run_result = "(agent_error + agent_outcome) \<times> event_sink \<times> world"

text \<open>What a round ends in: the run is over (or never ends), or the next round starts.\<close>

datatype round_end = RunOver "run_result option" | NextRound "response_item list" usage event_sink world

definition finished_with :: "agent_task \<Rightarrow> response_item list \<Rightarrow> usage \<Rightarrow> response_status \<Rightarrow> agent_outcome" where
  "finished_with task conversation u st =
    \<lparr>oc_items = drop (length (tk_items task)) conversation, oc_usage = u, oc_status = st\<rparr>"

definition mock_round ::
  "surroundings \<Rightarrow> mock_agent \<Rightarrow> agent_task \<Rightarrow> nat \<Rightarrow> response_item list \<Rightarrow> usage \<Rightarrow> event_sink \<Rightarrow> world \<Rightarrow> round_end" where
  "mock_round sr ma task tool_rounds conversation u sk w =
    (case request_of task conversation of
       Inl e \<Rightarrow> RunOver (Some (Inl (AgentFailed (''context: '' @ translation_error_to_string e) u), sk, w))
     | Inr q \<Rightarrow>
       (case ma_schedule ma q sk w of
          (Forever, sk, w) \<Rightarrow> RunOver None
        | (CancelledFirst, sk, w) \<Rightarrow> RunOver (Some (Inl Superseded, sk, w))
        | (Ready (Inl e), sk, w) \<Rightarrow>
            RunOver (Some (Inl (if e = SchSuperseded then Superseded else AgentFailed (scheduler_error_to_string e) u), sk, w))
        | (Ready (Inr oc), sk, w) \<Rightarrow>
          (case validate_outcome (ma_url_parse ma) (ma_limits ma) oc of
             Inl e \<Rightarrow> RunOver (Some (Inl (AgentFailed (scheduler_error_to_string e) u), sk, w))
           | Inr _ \<Rightarrow>
             (let calls = List.map_filter call_parts (cmo_items oc); u' = accumulate u (cmo_usage oc) in
              case cmo_finish oc of
                FinishStop \<Rightarrow> RunOver (Some (Inr (finished_with task (conversation @ cmo_items oc) u' Completed), sk, w))
              | FinishRefusal \<Rightarrow> RunOver (Some (Inr (finished_with task (conversation @ cmo_items oc) u' Completed), sk, w))
              | FinishLength \<Rightarrow> RunOver (Some (Inr (finished_with task (conversation @ cmo_items oc) u' Incomplete), sk, w))
              | FinishToolCalls \<Rightarrow>
                  if tk_max_tool_rounds task \<le> tool_rounds
                  then RunOver (Some (Inr (finished_with task conversation u' Incomplete), sk, w))
                  else if calls = []
                  then RunOver (Some (Inl (AgentFailed ''finish=ToolCalls but no tool calls were produced'' u), sk, w))
                  else case run_tools sr (ma_tools ma) u' calls (conversation @ cmo_items oc) sk w of
                    (Inl e, sk, w) \<Rightarrow> RunOver (Some (Inl e, sk, w))
                  | (Inr conversation', sk, w) \<Rightarrow> NextRound conversation' u' sk w))))"

lemma next_round_below:
  "mock_round sr ma task tool_rounds conversation u sk w = NextRound conversation' u' sk' w' \<Longrightarrow> tool_rounds < tk_max_tool_rounds task"
  by (auto simp: mock_round_def Let_def split: sum.splits prod.splits raced.splits finish_reason.splits if_splits)

text \<open>\<open>None\<close> is a run that never returns.\<close>

function mock_loop ::
  "surroundings \<Rightarrow> mock_agent \<Rightarrow> agent_task \<Rightarrow> nat \<Rightarrow> response_item list \<Rightarrow> usage \<Rightarrow> event_sink \<Rightarrow> world \<Rightarrow> run_result option" where
  "mock_loop sr ma task tool_rounds conversation u sk w =
    (case mock_round sr ma task tool_rounds conversation u sk w of
       RunOver r \<Rightarrow> r
     | NextRound conversation' u' sk' w' \<Rightarrow> mock_loop sr ma task (tool_rounds + 1) conversation' u' sk' w')"
  by pat_completeness auto
termination
  by (relation "measure (\<lambda>(_, _, task, tool_rounds, _). tk_max_tool_rounds task - tool_rounds)")
    (auto dest: next_round_below)

declare mock_loop.simps [simp del]

definition mock_run :: "surroundings \<Rightarrow> mock_agent \<Rightarrow> agent_task \<Rightarrow> event_sink \<Rightarrow> world \<Rightarrow> run_result option" where
  "mock_run sr ma task sk w = mock_loop sr ma task 0 (tk_items task) Usage_default sk w"

section \<open>One round\<close>

lemma run_tools_conversation:
  assumes "run_tools sr tools u calls conversation sk w = (Inr conversation', sk', w')"
  shows "\<exists>results. conversation' = conversation @ results \<and>
    list_all2 (\<lambda>c i. \<exists>result. i = FunctionCallOutput (fst c) result None None) calls results \<and>
    es_completed sk' = es_completed sk @ results"
  using assms
proof (induction calls arbitrary: conversation sk w)
  case (Cons c calls)
  obtain cid name arguments where c: "c = (cid, name, arguments)" by (cases c)
  obtain result sk2 w2 sk3 w3 where
    added: "sink_step (CallItemAdded (FunctionCallOutput cid result None None)) sk (sr_others sr sk (sr_others sr sk w)) = (Inr Continue, sk2, w2)"
    and finished: "sink_step (CallItemDone (FunctionCallOutput cid result None None)) sk2 (sr_others sr sk2 w2) = (Inr Continue, sk3, w3)"
    and rest: "run_tools sr tools u calls (conversation @ [FunctionCallOutput cid result None None]) sk3 w3 = (Inr conversation', sk', w')"
    using Cons.prems unfolding c
    by (auto simp: Let_def simp del: sink_step.simps split: if_splits sum.splits prod.splits sink_verdict.splits)
  from Cons.IH[OF rest] obtain results where
    "conversation' = (conversation @ [FunctionCallOutput cid result None None]) @ results"
    "list_all2 (\<lambda>c i. \<exists>result. i = FunctionCallOutput (fst c) result None None) calls results"
    "es_completed sk' = es_completed sk3 @ results" by blast
  then show ?case
    using sink_step_completed[OF added] sink_step_completed[OF finished]
    by (intro exI[of _ "FunctionCallOutput cid result None None # results"]) (simp add: c)
qed simp

lemma next_round_cases:
  assumes "mock_round sr ma task n conversation u sk w = NextRound conversation' u' sk' w'"
  obtains q oc sk1 w1 where "request_of task conversation = Inr q" "ma_schedule ma q sk w = (Ready (Inr oc), sk1, w1)"
    "validate_outcome (ma_url_parse ma) (ma_limits ma) oc = Inr ()" "cmo_finish oc = FinishToolCalls"
    "u' = accumulate u (cmo_usage oc)"
    "run_tools sr (ma_tools ma) u' (List.map_filter call_parts (cmo_items oc)) (conversation @ cmo_items oc) sk1 w1 =
      (Inr conversation', sk', w')"
  using assms
  by (auto simp: mock_round_def Let_def split: sum.splits prod.splits raced.splits finish_reason.splits if_splits)

lemma success_cases:
  assumes "mock_round sr ma task n conversation u sk w = RunOver (Some (Inr out, sk', w'))"
  obtains q oc where "ma_schedule ma q sk w = (Ready (Inr oc), sk', w')"
    "validate_outcome (ma_url_parse ma) (ma_limits ma) oc = Inr ()" "oc_usage out = accumulate u (cmo_usage oc)"
    "oc_status out = (if cmo_finish oc \<in> {FinishStop, FinishRefusal} then Completed else Incomplete)"
    "oc_items out = drop (length (tk_items task)) (if cmo_finish oc = FinishToolCalls then conversation else conversation @ cmo_items oc)"
  using assms
  by (auto simp: mock_round_def Let_def finished_with_def
      split: sum.splits prod.splits raced.splits finish_reason.splits if_splits)

text \<open>Reasoning about the loop by an invariant of its rounds.\<close>

lemma mock_loop_rule:
  assumes "Inv n conversation u sk w"
    and "\<And>n conversation u sk w conversation' u' sk' w'. Inv n conversation u sk w \<Longrightarrow>
      mock_round sr ma task n conversation u sk w = NextRound conversation' u' sk' w' \<Longrightarrow> Inv (n + 1) conversation' u' sk' w'"
    and "\<And>n conversation u sk w r. Inv n conversation u sk w \<Longrightarrow>
      mock_round sr ma task n conversation u sk w = RunOver r \<Longrightarrow> Q r"
  shows "Q (mock_loop sr ma task n conversation u sk w)"
  using assms(1)
proof (induction "tk_max_tool_rounds task - n" arbitrary: n conversation u sk w rule: less_induct)
  case less
  show ?case
  proof (cases "mock_round sr ma task n conversation u sk w")
    case (RunOver r)
    then show ?thesis using assms(3)[OF less.prems] by (simp add: mock_loop.simps)
  next
    case (NextRound conversation' u' sk' w')
    have "tk_max_tool_rounds task - (n + 1) < tk_max_tool_rounds task - n" using next_round_below[OF NextRound] by simp
    from less.hyps[OF this assms(2)[OF less.prems NextRound]] show ?thesis
      using NextRound by (simp add: mock_loop.simps[of sr ma task n])
  qed
qed

section \<open>Context and stream\<close>

lemma call_ids_append [simp]: "call_ids (xs @ ys) = call_ids xs \<union> call_ids ys"
proof (induction xs)
  case (Cons x xs)
  then show ?case by (cases x) auto
qed simp

lemma call_ids_parts: "call_ids items = fst ` set (List.map_filter call_parts items)"
proof (induction items)
  case (Cons i items)
  then show ?case by (cases i) (auto simp: List.map_filter_def)
qed (simp add: List.map_filter_def)

lemma validate_outcome_valid:
  assumes "validate_outcome url_parse limits oc = Inr ()" "i \<in> set (cmo_items oc)"
  shows "item_validate url_parse limits i = Inr ()"
proof -
  have "validate_outcome_items url_parse limits items = Inr () \<Longrightarrow> i \<in> set items \<Longrightarrow> item_validate url_parse limits i = Inr ()" for items
    by (induction items) (auto split: if_splits sum.splits)
  then show ?thesis using assms by (simp add: validate_outcome_def split: if_splits)
qed

lemma results_items:
  assumes "list_all2 (\<lambda>c i. \<exists>result. i = FunctionCallOutput (fst c) result None None) calls results"
  shows "call_ids results = {}" "\<forall>i \<in> set results. is_output i"
    "\<forall>c \<in> set calls. \<exists>result. FunctionCallOutput (fst c) result None None \<in> set results"
    "fst ` set calls \<subseteq> known \<Longrightarrow> first_orphan known results = None"
  using assms by (induction calls results rule: list_all2_induct) auto

definition answered :: "response_item list \<Rightarrow> bool" where
  "answered items \<longleftrightarrow> (\<forall>c \<in> call_ids items. \<exists>result. FunctionCallOutput c result None None \<in> set items)"

definition bounds_hold :: "mock_agent \<Rightarrow> response_item list \<Rightarrow> bool" where
  "bounds_hold ma items \<longleftrightarrow> (\<forall>i \<in> set items. \<not> is_output i \<longrightarrow> item_validate (ma_url_parse ma) (ma_limits ma) i = Inr ())"

definition round_inv :: "mock_agent \<Rightarrow> agent_task \<Rightarrow> event_sink \<Rightarrow> response_item list \<Rightarrow> event_sink \<Rightarrow> bool" where
  "round_inv ma task sk0 conversation sk \<longleftrightarrow>
    (\<exists>produced. conversation = tk_items task @ produced \<and> es_completed sk = es_completed sk0 @ produced \<and>
      first_orphan {} conversation = None \<and> answered produced \<and> bounds_hold ma produced)"

text \<open>How the stream and the outcome of a finished run relate: equal, or the refusal is missing from the stream, or
  the calls that were over the limit of rounds are on the stream only.\<close>

definition stream_agrees :: "response_item list \<Rightarrow> agent_outcome \<Rightarrow> bool" where
  "stream_agrees streamed out \<longleftrightarrow>
    streamed = oc_items out \<or>
    oc_status out = Completed \<and> (\<exists>refusal. refusal \<noteq> [] \<and> oc_items out = streamed @ refusal) \<or>
    oc_status out = Incomplete \<and> (\<exists>calls. calls \<noteq> [] \<and> streamed = oc_items out @ calls)"

definition run_good :: "mock_agent \<Rightarrow> agent_task \<Rightarrow> event_sink \<Rightarrow> run_result option \<Rightarrow> bool" where
  "run_good ma task sk0 r \<longleftrightarrow>
    (case r of
       Some (Inr out, sk, w) \<Rightarrow>
         first_orphan {} (tk_items task @ oc_items out) = None \<and> answered (oc_items out) \<and> bounds_hold ma (oc_items out) \<and>
         (\<exists>streamed. es_completed sk = es_completed sk0 @ streamed \<and> stream_agrees streamed out)
     | _ \<Rightarrow> True)"

context streaming_scheduler
begin

lemma round_keeps:
  assumes sched: "ma_schedule ma = schedule" and inv: "round_inv ma task sk0 conversation sk"
    and nxt: "mock_round sr ma task n conversation u sk w = NextRound conversation' u' sk' w'"
  shows "round_inv ma task sk0 conversation' sk'"
proof -
  obtain produced where I: "conversation = tk_items task @ produced" "es_completed sk = es_completed sk0 @ produced"
    "first_orphan {} conversation = None" "answered produced" "bounds_hold ma produced"
    using inv by (auto simp: round_inv_def)
  obtain q oc sk1 w1 where R: "ma_schedule ma q sk w = (Ready (Inr oc), sk1, w1)"
    "validate_outcome (ma_url_parse ma) (ma_limits ma) oc = Inr ()" "cmo_finish oc = FinishToolCalls"
    "run_tools sr (ma_tools ma) u' (List.map_filter call_parts (cmo_items oc)) (conversation @ cmo_items oc) sk1 w1 =
      (Inr conversation', sk', w')"
    using nxt by (rule next_round_cases)
  obtain results where res: "conversation' = (conversation @ cmo_items oc) @ results"
    "list_all2 (\<lambda>c i. \<exists>result. i = FunctionCallOutput (fst c) result None None) (List.map_filter call_parts (cmo_items oc)) results"
    "es_completed sk' = es_completed sk1 @ results"
    using run_tools_conversation[OF R(4)] by blast
  note ran = R(1)[unfolded sched]
  note out = results_items[OF res(2)]
  have "es_completed sk1 = es_completed sk @ cmo_items oc" using reported[OF ran] R(3) by simp
  then have streamed: "es_completed sk' = es_completed sk0 @ (produced @ cmo_items oc @ results)" using res(3) I(2) by simp
  have closed: "first_orphan {} conversation' = None"
    using I(3) outcome_orphans[OF ran] out(4) call_ids_parts[of "cmo_items oc"] by (simp add: res(1) orphan_append split: option.split)
  have "\<exists>result. FunctionCallOutput c result None None \<in> set results" if "c \<in> call_ids (cmo_items oc)" for c
    using that out(3) by (auto simp: call_ids_parts)
  then have "answered (produced @ cmo_items oc @ results)" using I(4) out(1) by (fastforce simp: answered_def)
  moreover have "bounds_hold ma (produced @ cmo_items oc @ results)"
    using I(5) out(2) validate_outcome_valid[OF R(2)] by (auto simp: bounds_hold_def)
  ultimately show ?thesis
    unfolding round_inv_def using res(1) I(1) streamed closed by (intro exI[of _ "produced @ cmo_items oc @ results"]) simp
qed

lemma round_ends_well:
  assumes sched: "ma_schedule ma = schedule" and inv: "round_inv ma task sk0 conversation sk"
    and over: "mock_round sr ma task n conversation u sk w = RunOver r"
  shows "run_good ma task sk0 r"
proof -
  have "run_good ma task sk0 (Some (Inr out, sk', w'))" if r: "r = Some (Inr out, sk', w')" for out sk' w'
  proof -
    obtain produced where I: "conversation = tk_items task @ produced" "es_completed sk = es_completed sk0 @ produced"
      "first_orphan {} conversation = None" "answered produced" "bounds_hold ma produced"
      using inv by (auto simp: round_inv_def)
    obtain q oc where R: "ma_schedule ma q sk w = (Ready (Inr oc), sk', w')"
      "validate_outcome (ma_url_parse ma) (ma_limits ma) oc = Inr ()"
      "oc_status out = (if cmo_finish oc \<in> {FinishStop, FinishRefusal} then Completed else Incomplete)"
      "oc_items out = drop (length (tk_items task)) (if cmo_finish oc = FinishToolCalls then conversation else conversation @ cmo_items oc)"
      using over unfolding r by (rule success_cases)
    note ran = R(1)[unfolded sched]
    have items: "oc_items out = (if cmo_finish oc = FinishToolCalls then produced else produced @ cmo_items oc)"
      using R(4) I(1) by simp
    have some: "cmo_items oc \<noteq> []" using R(2) by (auto simp: validate_outcome_def)
    have plain: "call_ids (cmo_items oc) = {}" if "cmo_finish oc \<noteq> FinishToolCalls"
      using calls_finish[OF ran that] by (force simp: call_ids_parts List.map_filter_def elim: call_parts.elims)
    have "first_orphan {} (tk_items task @ oc_items out) = None"
      using I(1,3) outcome_orphans[OF ran] by (auto simp: items orphan_append split: option.splits)
    moreover have "answered (oc_items out)" using I(4) plain by (auto simp: items answered_def)
    moreover have "bounds_hold ma (oc_items out)"
      using I(5) validate_outcome_valid[OF R(2)] by (auto simp: items bounds_hold_def)
    moreover have "\<exists>streamed. es_completed sk' = es_completed sk0 @ streamed \<and> stream_agrees streamed out"
      using reported[OF ran] I(2) some R(3)
      by (cases "cmo_finish oc") (auto simp: items stream_agrees_def)
    ultimately show ?thesis by (simp add: run_good_def)
  qed
  then show ?thesis by (auto simp: run_good_def split: option.split sum.split)
qed

lemma runs_well:
  assumes "ma_schedule ma = schedule" "first_orphan {} (tk_items task) = None"
  shows "run_good ma task sk (mock_run sr ma task sk w)"
  unfolding mock_run_def
proof (rule mock_loop_rule[where Inv = "\<lambda>n conversation u sk' w. round_inv ma task sk conversation sk'"])
  show "round_inv ma task sk (tk_items task) sk"
    using assms(2) by (simp add: round_inv_def answered_def bounds_hold_def)
qed (erule (1) round_keeps[OF assms(1)], erule (1) round_ends_well[OF assms(1)])

end

text \<open>The two schedulers that need no provider.\<close>

definition local_scheduler :: "surroundings \<Rightarrow> scheduler \<Rightarrow> bool" where
  "local_scheduler sr schedule \<longleftrightarrow>
    (\<exists>chunks. schedule = echo_schedule sr chunks) \<or> (\<exists>dbg s. schedule = scripted_schedule sr dbg s)"

lemma local_runs_well:
  assumes "local_scheduler sr' (ma_schedule ma)" "first_orphan {} (tk_items task) = None"
  shows "run_good ma task sk (mock_run sr ma task sk w)"
  using assms(1) echo.runs_well[OF _ assms(2)] scripted.runs_well[OF _ assms(2)] by (auto simp: local_scheduler_def)

section \<open>Rounds and usage\<close>

fun spent :: "run_result \<Rightarrow> usage" where
  "spent (Inr out, _) = oc_usage out"
| "spent (Inl (AgentFailed _ u), _) = u"
| "spent (Inl Superseded, _) = Usage_default"

definition usage_within :: "nat \<Rightarrow> nat \<Rightarrow> nat \<Rightarrow> usage \<Rightarrow> bool" where
  "usage_within a b n u \<longleftrightarrow> input_tokens u \<le> n * a \<and> output_tokens u \<le> n * b"

lemma usage_within_default [simp]: "usage_within a b n Usage_default"
  by (simp add: usage_within_def Usage_default_def Usage_new_def)

lemma usage_within_more: "usage_within a b n u \<Longrightarrow> n \<le> m \<Longrightarrow> usage_within a b m u"
  by (auto simp: usage_within_def intro: order_trans mult_le_mono1)

lemma usage_within_accumulate: "usage_within a b n u \<Longrightarrow> usage_within a b 1 v \<Longrightarrow> usage_within a b (n + 1) (accumulate u v)"
proof -
  have "sat_add x y \<le> x + y" for x y by (simp add: sat_add_def)
  then have "sat_add x y \<le> k + l" if "x \<le> l" "y \<le> k" for x y k l using add_mono[OF that(2,1)] by (metis add.commute le_trans)
  then show "usage_within a b n u \<Longrightarrow> usage_within a b 1 v \<Longrightarrow> usage_within a b (n + 1) (accumulate u v)"
    by (simp add: usage_within_def accumulate_def Usage_new_def)
qed

lemma run_tools_spent:
  "run_tools sr tools u calls conversation sk w = (Inl e, sk', w') \<Longrightarrow> e = Superseded \<or> (\<exists>m. e = AgentFailed m u)"
proof (induction calls arbitrary: conversation sk w)
  case (Cons c calls)
  obtain cid name arguments where c: "c = (cid, name, arguments)" by (cases c)
  show ?case using Cons.prems Cons.IH unfolding c
    by (auto simp: Let_def simp del: sink_step.simps split: if_splits sum.splits prod.splits sink_verdict.splits)
qed simp

lemma over_spent:
  assumes over: "mock_round sr ma task n conversation u sk w = RunOver r" and u: "usage_within a b n u"
    and ends: "\<And>q sk w. fst (ma_schedule ma q sk w) \<noteq> Forever"
    and each: "\<And>q sk w oc. fst (ma_schedule ma q sk w) = Ready (Inr oc) \<Longrightarrow> usage_within a b 1 (cmo_usage oc)"
  shows "\<exists>res. r = Some res \<and> usage_within a b (n + 1) (spent res)"
proof -
  have more: "usage_within a b (n + 1) (accumulate u (cmo_usage oc))" if "ma_schedule ma q sk w = (Ready (Inr oc), sk', w')" for q oc sk' w'
    using usage_within_accumulate[OF u each[of q sk w oc]] that by simp
  have less: "usage_within a b (n + 1) u" using usage_within_more[OF u] by simp
  have "ma_schedule ma q sk w \<noteq> (Forever, y)" for q sk w y using ends[of q sk w] by auto
  then have "r \<noteq> None"
    using over by (auto simp: mock_round_def Let_def split: sum.splits prod.splits raced.splits finish_reason.splits if_splits)
  then obtain res where r: "r = Some res" by blast
  have "usage_within a b (n + 1) (spent res)"
    using over more less run_tools_spent unfolding r
    by (fastforce simp: mock_round_def Let_def finished_with_def
        split: sum.splits prod.splits raced.splits finish_reason.splits if_splits)
  then show ?thesis using r by blast
qed

lemma next_spent:
  assumes nxt: "mock_round sr ma task n conversation u sk w = NextRound conversation' u' sk' w'" and u: "usage_within a b n u"
    and each: "\<And>q sk w oc. fst (ma_schedule ma q sk w) = Ready (Inr oc) \<Longrightarrow> usage_within a b 1 (cmo_usage oc)"
  shows "usage_within a b (n + 1) u'"
  using nxt by (rule next_round_cases) (use usage_within_accumulate[OF u] each in \<open>metis fst_conv\<close>)

lemma run_bounded:
  assumes "\<And>q sk w. fst (ma_schedule ma q sk w) \<noteq> Forever"
    and "\<And>q sk w oc. fst (ma_schedule ma q sk w) = Ready (Inr oc) \<Longrightarrow> usage_within a b 1 (cmo_usage oc)"
  shows "\<exists>res. mock_run sr ma task sk w = Some res \<and> usage_within a b (tk_max_tool_rounds task + 1) (spent res)"
  unfolding mock_run_def
proof (rule mock_loop_rule[where Inv = "\<lambda>n conversation u sk' w. n \<le> tk_max_tool_rounds task \<and> usage_within a b n u"])
  show "0 \<le> tk_max_tool_rounds task \<and> usage_within a b 0 Usage_default" by simp
next
  fix n conversation u sk w conversation' u' sk' w'
  assume "n \<le> tk_max_tool_rounds task \<and> usage_within a b n u"
    and nxt: "mock_round sr ma task n conversation u sk w = NextRound conversation' u' sk' w'"
  then show "n + 1 \<le> tk_max_tool_rounds task \<and> usage_within a b (n + 1) u'"
    using next_spent[OF nxt _ assms(2)] next_round_below[OF nxt] by simp
next
  fix n conversation u sk w r
  assume n: "n \<le> tk_max_tool_rounds task \<and> usage_within a b n u" and over: "mock_round sr ma task n conversation u sk w = RunOver r"
  have "\<exists>res. r = Some res \<and> usage_within a b (n + 1) (spent res)"
    by (rule over_spent[OF over]) (use n assms in auto)
  then obtain res where "r = Some res" "usage_within a b (n + 1) (spent res)" by blast
  then show "\<exists>res. r = Some res \<and> usage_within a b (tk_max_tool_rounds task + 1) (spent res)"
    using usage_within_more[of a b "n + 1"] n by auto
qed

section \<open>Port calls\<close>

definition port_surroundings :: "surroundings \<Rightarrow> bool" where
  "port_surroundings sr \<longleftrightarrow> (\<forall>sk w. runs_to w (sr_others sr sk w)) \<and> (\<forall>sk w w'. sr_wait sr sk w = Some w' \<longrightarrow> runs_to w w')"

lemma runs_to_step:
  assumes "port_surroundings sr" "runs_to v w" "sink_step c sk (sr_others sr sk w) = (r, sk', w')"
  shows "runs_to v w'"
proof -
  have "runs_to v (sr_others sr sk w)" using assms(1,2) runs_to_trans by (auto simp: port_surroundings_def)
  from runs_to_sink[OF this, of c sk] show ?thesis using assms(3) by simp
qed

lemma runs_to_steps:
  "port_surroundings sr \<Longrightarrow> runs_to v w \<Longrightarrow> stream_steps sr ss sk w = (r, sk', w') \<Longrightarrow> runs_to v w'"
proof (induction ss arbitrary: sk w)
  case (Cons s ss)
  obtain x sk2 w2 where st: "sink_step (step_call s) sk (sr_others sr sk w) = (x, sk2, w2)"
    by (cases "sink_step (step_call s) sk (sr_others sr sk w)") auto
  have "runs_to v (sr_others sr sk w)" "runs_to v w2"
    using Cons.prems(1,2) runs_to_trans runs_to_step[OF Cons.prems(1,2) st] by (auto simp: port_surroundings_def)
  then show ?case using Cons.prems(3) st Cons.IH[OF Cons.prems(1)]
    by (auto simp: Let_def split: if_splits sum.splits)
qed simp

lemma runs_to_streamed:
  "port_surroundings sr \<Longrightarrow> streamed_then sr steps answer sk w = (r, sk', w') \<Longrightarrow> runs_to w w'"
  using runs_to_steps[OF _ runs_to_refl, of sr steps sk w]
  by (auto simp: streamed_then_def split: prod.splits raced.splits sum.splits)

lemma runs_to_local:
  assumes sr: "port_surroundings sr" and "local_scheduler sr schedule" and run: "schedule q sk w = (r, sk', w')"
  shows "runs_to w w'"
proof -
  have "scripted_schedule sr dbg s q sk w = (r, sk', w') \<Longrightarrow> runs_to w w'" for dbg s
    using sr by (auto simp: scripted_schedule_def Let_def port_surroundings_def
        split: option.splits script.splits dest!: runs_to_streamed[OF sr])
  moreover have "echo_schedule sr chunks q sk w = (r, sk', w') \<Longrightarrow> runs_to w w'" for chunks
    by (auto simp: echo_schedule_def dest!: runs_to_streamed[OF sr])
  ultimately show ?thesis using assms(2) run by (auto simp: local_scheduler_def)
qed

lemma runs_to_tools:
  "port_surroundings sr \<Longrightarrow> runs_to v w \<Longrightarrow> run_tools sr tools u calls conversation sk w = (r, sk', w') \<Longrightarrow> runs_to v w'"
proof (induction calls arbitrary: conversation sk w)
  case (Cons c calls)
  obtain cid name arguments where c: "c = (cid, name, arguments)" by (cases c)
  have one: "runs_to v (sr_others sr sk x)" if "runs_to v x" for sk x
    using Cons.prems(1) that runs_to_trans by (auto simp: port_surroundings_def)
  note w1 = one[OF Cons.prems(2), of sk]
  show ?case
    using Cons.prems(3) w1 runs_to_step[OF Cons.prems(1)] Cons.IH[OF Cons.prems(1)] unfolding c
    by (auto simp: Let_def simp del: sink_step.simps split: if_splits sum.splits prod.splits sink_verdict.splits; meson)
qed simp

lemma runs_to_mock:
  assumes sr: "port_surroundings sr" and sched: "local_scheduler sr (ma_schedule ma)"
    and run: "mock_run sr ma task sk w = Some (res, sk', w')"
  shows "runs_to w w'"
proof -
  note local = runs_to_local[OF sr sched]
  have "case mock_run sr ma task sk w of Some (res, sk', w') \<Rightarrow> runs_to w w' | None \<Rightarrow> True"
    unfolding mock_run_def
  proof (rule mock_loop_rule[where Inv = "\<lambda>n conversation u sk' x. runs_to w x"])
    fix n conversation u sk x conversation' u' sk' w'
    assume x: "runs_to w x" and nxt: "mock_round sr ma task n conversation u sk x = NextRound conversation' u' sk' w'"
    from nxt show "runs_to w w'"
      by (rule next_round_cases) (use runs_to_tools[OF sr] runs_to_trans[OF x] local in blast)
  next
    fix n conversation u sk x r
    assume x: "runs_to w x" and over: "mock_round sr ma task n conversation u sk x = RunOver r"
    have "runs_to w y" if "ma_schedule ma q sk x = (a, sk1, y)" for q a sk1 y
      using runs_to_trans[OF x local[OF that]] .
    with over x runs_to_tools[OF sr] show "case r of Some (res, sk', w') \<Rightarrow> runs_to w w' | None \<Rightarrow> True"
      by (fastforce simp: mock_round_def Let_def split: sum.splits prod.splits raced.splits finish_reason.splits if_splits)
  qed simp
  then show ?thesis using run by simp
qed

section \<open>Properties\<close>


text \<open>What a subscriber saw done is what the run returns, item by item and in order, with two exceptions: a
  refusal is returned but never streamed, and when the rounds are used up the last tool calls were streamed but are
  not returned.\<close>

theorem streamed_items_are_the_outcome:
  assumes "local_scheduler sr' (ma_schedule ma)" "items_to_messages (tk_items task) = Inr ms"
    and "mock_run sr ma task sk w = Some (Inr out, sk', w')"
  shows "\<exists>streamed. es_completed sk' = es_completed sk @ streamed \<and>
    (streamed = oc_items out \<or>
     oc_status out = Completed \<and> (\<exists>refusal. refusal \<noteq> [] \<and> oc_items out = streamed @ refusal) \<or>
     oc_status out = Incomplete \<and> (\<exists>calls. calls \<noteq> [] \<and> streamed = oc_items out @ calls))"
proof -
  have "first_orphan {} (tk_items task) = None"
    using assms(2) by (simp add: items_to_messages_eq split: option.splits)
  then have "run_good ma task sk (Some (Inr out, sk', w'))" using local_runs_well[OF assms(1)] assms(3) by metis
  then show ?thesis by (simp add: run_good_def stream_agrees_def)
qed

text \<open>C27: A run ends, and its bill is bounded: with a scheduler that always answers and never bills more than \<open>a\<close> input and
  \<open>b\<close> output tokens for one request, a run returns and reports at most \<open>max_tool_rounds + 1\<close> times as much, however it
  ends, whatever the tools do and whenever the probe fires.\<close>

theorem a_run_is_bounded:
  assumes "\<And>q sk w. fst (ma_schedule ma q sk w) \<noteq> Forever"
    and "\<And>q sk w oc. fst (ma_schedule ma q sk w) = Ready (Inr oc) \<Longrightarrow>
      input_tokens (cmo_usage oc) \<le> a \<and> output_tokens (cmo_usage oc) \<le> b"
  shows "\<exists>res. mock_run sr ma task sk w = Some res \<and>
    input_tokens (spent res) \<le> (tk_max_tool_rounds task + 1) * a \<and> output_tokens (spent res) \<le> (tk_max_tool_rounds task + 1) * b"
  using run_bounded[of ma a b sr task sk w] assms by (auto simp: usage_within_def)

text \<open>The round whose answer is rejected is not billed: when the very first answer fails validation, the run
  reports zero usage, whatever the provider billed for that answer.\<close>

theorem rejected_round_is_not_billed:
  assumes "request_of task (tk_items task) = Inr q" "ma_schedule ma q sk w = (Ready (Inr oc), sk', w')"
    and "validate_outcome (ma_url_parse ma) (ma_limits ma) oc = Inl e"
  shows "mock_run sr ma task sk w = Some (Inl (AgentFailed (scheduler_error_to_string e) Usage_default), sk', w')"
  using assms by (simp add: mock_run_def mock_loop.simps mock_round_def)


section \<open>Witnesses\<close>

definition demo_agent_of :: "scripted_scheduler \<Rightarrow> mock_agent" where
  "demo_agent_of s = \<lparr>ma_schedule = scripted_schedule undisturbed (\<lambda>t. t) s, ma_tools = noop_tools, ma_url_parse = (\<lambda>_. None),
    ma_limits = ProtocolLimits_default\<rparr>"

definition demo_task :: agent_task where
  "demo_task = \<lparr>tk_params = ModelParams_new ''m'', tk_items = [user_text ''hi''],
    tk_provenance = \<lparr>rp_response_id = demo_rid, rp_attempt = Attempt 1, rp_exec_deadline_ms = 0\<rparr>, tk_max_tool_rounds = 3\<rparr>"

definition demo_refusing :: scripted_scheduler where
  "demo_refusing = scripted_from_rules [(MatchAny, ScriptRefuse ''no'')]"

definition demo_nameless :: scripted_scheduler where
  "demo_nameless = scripted_from_rules [(MatchAny, ScriptToolCall [] ''{}'' ''c1'')]"

definition demo_completions_request :: completions_request where
  "demo_completions_request = \<lparr>cq_model = ''m'', cq_messages = [UserMessage [ContentText ''hi'']], cq_tools = [], cq_tool_choice = None,
    cq_max_completion_tokens = None, cq_temperature = None, cq_metadata = [], cq_provenance = tk_provenance demo_task\<rparr>"

lemma demo_asked: "items_to_messages (tk_items demo_task) = Inr [UserMessage [ContentText ''hi'']]"
  "request_of demo_task (tk_items demo_task) = Inr demo_completions_request"
  by (simp_all add: demo_task_def demo_completions_request_def request_of_def from_context_def items_to_messages_def user_text_def message_of_role_def
      ModelParams_new_def with_tools_def with_tool_choice_def with_metadata_def List.map_filter_simps)

lemma demo_local: "local_scheduler undisturbed (ma_schedule (demo_agent_of s))"
  by (auto simp: local_scheduler_def demo_agent_of_def)

lemma demo_refused:
  "mock_run sr (demo_agent_of demo_refusing) demo_task sk w =
    Some (Inr \<lparr>oc_items = cmo_items (outcome_refusal ''no'' (Usage_new 1 1)), oc_usage = Usage_new 1 1, oc_status = Completed\<rparr>, sk, w)"
proof -
  have "scripted_schedule undisturbed (\<lambda>t. t) demo_refusing demo_completions_request sk w =
      (Ready (Inr (outcome_refusal ''no'' (Usage_new 1 1))), sk, w)"
    by (simp add: scripted_schedule_def scripted_select_def demo_refusing_def scripted_from_rules_def scripted_usage_def
        approx_input_chars_def demo_completions_request_def)
  moreover have "validate_outcome (\<lambda>_. None) ProtocolLimits_default (outcome_refusal ''no'' (Usage_new 1 1)) = Inr ()"
    by (simp add: validate_outcome_def outcome_refusal_def)
  moreover have "accumulate Usage_default (Usage_new 1 1) = Usage_new 1 1"
    by (simp add: accumulate_def Usage_default_def Usage_new_def u64_max_def sat_add_def)
  ultimately show ?thesis
    by (simp add: mock_run_def mock_loop.simps mock_round_def demo_asked demo_agent_of_def Let_def)
      (simp add: outcome_refusal_def finished_with_def demo_task_def)
qed


theorem streamed_items_are_the_outcome_witness:
  "\<exists>refusal. refusal \<noteq> [] \<and> cmo_items (outcome_refusal ''no'' (Usage_new 1 1)) = refusal"
  using streamed_items_are_the_outcome[OF demo_local demo_asked(1) demo_refused, of "EventSink_new demo_rid (Attempt 1)"]
  by (simp add: outcome_refusal_def)

definition demo_failing :: scripted_scheduler where
  "demo_failing = failing_by_default ''down'' (scripted_from_rules [])"

lemma demo_failing_answer:
  "ma_schedule (demo_agent_of demo_failing) q sk w = (Ready (Inl (SchUnavailable ''down'')), sk, w)"
  by (simp add: demo_agent_of_def scripted_schedule_def scripted_select_def demo_failing_def failing_by_default_def scripted_from_rules_def)

theorem a_run_is_bounded_witness:
  "\<exists>res. mock_run undisturbed (demo_agent_of demo_failing) demo_task (EventSink_new demo_rid (Attempt 1)) demo_world = Some res \<and> input_tokens (spent res) = 0 \<and>
    output_tokens (spent res) = 0"
  using a_run_is_bounded[of "demo_agent_of demo_failing" 0 0 undisturbed demo_task "EventSink_new demo_rid (Attempt 1)" demo_world]
  by (simp add: demo_failing_answer)

definition demo_billing :: mock_agent where
  "demo_billing = \<lparr>ma_schedule = (\<lambda>q sk w. (Ready (Inr \<lparr>cmo_items = [], cmo_usage = Usage_new 7 7, cmo_finish = FinishStop\<rparr>), sk, w)),
    ma_tools = noop_tools, ma_url_parse = (\<lambda>_. None), ma_limits = ProtocolLimits_default\<rparr>"

theorem rejected_round_is_not_billed_witness:
  "\<forall>sk w. mock_run undisturbed demo_billing demo_task sk w =
    Some (Inl (AgentFailed ''scheduler produced no output items'' Usage_default), sk, w)"
  using rejected_round_is_not_billed[OF demo_asked(2), of demo_billing _ _ _ _ _ SchEmptyOutcome undisturbed]
  by (simp add: demo_billing_def validate_outcome_def)


end
