(* ===== verification/Http_Scheduler.thy ===== *)
theory Http_Scheduler
  imports Scheduler Envelope
begin

text \<open>
  The scheduler that talks to a chat-completions provider (\<open>verify/mock/agentd/src/scheduler/http.rs\<close>): the
  request body, the reading of a streamed answer line by line as it arrives in chunks of bytes, and the outcome
  it is turned into.

  The provider and the JSON parser are parameters: a reply is its status, content type, text, JSON body and byte
  chunks (a chunk may be a transport error), and \<open>parse\<close> reads one JSON document.
\<close>

section \<open>Text\<close>

definition is_blank_char :: "string \<Rightarrow> bool" where
  "is_blank_char c \<longleftrightarrow> c \<noteq> [] \<and> ws_len c = length c"

text \<open>\<open>str::trim\<close>\<close>

definition str_trim :: "string \<Rightarrow> string" where
  "str_trim s = concat (rev (dropWhile is_blank_char (rev (dropWhile is_blank_char (utf8_chars s)))))"

text \<open>\<open>String::from_utf8_lossy\<close>: every maximal part of a broken character becomes U+FFFD.  \<open>utf8_step\<close> reads one
  character at the front: whether it is whole, and how many bytes were read.\<close>

definition utf8_needs :: "nat \<Rightarrow> nat option" where
  "utf8_needs b =
    (if b < 0x80 then Some 0 else if 0xC2 \<le> b \<and> b \<le> 0xDF then Some 1 else if 0xE0 \<le> b \<and> b \<le> 0xEF then Some 2
     else if 0xF0 \<le> b \<and> b \<le> 0xF4 then Some 3 else None)"

definition utf8_second :: "nat \<Rightarrow> nat \<Rightarrow> bool" where
  "utf8_second b c \<longleftrightarrow>
    (if b = 0xE0 then 0xA0 \<le> c \<and> c \<le> 0xBF else if b = 0xED then 0x80 \<le> c \<and> c \<le> 0x9F
     else if b = 0xF0 then 0x90 \<le> c \<and> c \<le> 0xBF else if b = 0xF4 then 0x80 \<le> c \<and> c \<le> 0x8F
     else 0x80 \<le> c \<and> c \<le> 0xBF)"

definition next_continues :: "string \<Rightarrow> bool" where
  "next_continues s = (case s of [] \<Rightarrow> False | c # _ \<Rightarrow> is_continuation c)"

fun utf8_step :: "string \<Rightarrow> bool \<times> nat" where
  "utf8_step [] = (True, 0)"
| "utf8_step (b # bs) =
    (case utf8_needs (of_char b) of
       None \<Rightarrow> (False, 1)
     | Some n \<Rightarrow>
         if n = 0 then (True, 1)
         else case bs of
           [] \<Rightarrow> (False, 1)
         | c # cs \<Rightarrow>
             if \<not> utf8_second (of_char b) (of_char c) then (False, 1)
             else if n = 1 then (True, 2)
             else if \<not> next_continues cs then (False, 2)
             else if n = 2 then (True, 3)
             else if \<not> next_continues (tl cs) then (False, 3)
             else (True, 4))"

definition replacement :: string where
  "replacement = [CHR 0xEF, CHR 0xBF, CHR 0xBD]"

lemma utf8_step_positive: "s \<noteq> [] \<Longrightarrow> 0 < snd (utf8_step s)"
  by (cases s) (auto split: option.split list.split)

function from_utf8_lossy :: "string \<Rightarrow> string" where
  "from_utf8_lossy s =
    (if s = [] then []
     else let (whole, n) = utf8_step s in (if whole then take n s else replacement) @ from_utf8_lossy (drop n s))"
  by pat_completeness auto
termination
  by (relation "measure length") (auto intro!: diff_less utf8_step_positive simp: prod_eq_iff)

declare from_utf8_lossy.simps [simp del]

section \<open>JSON access\<close>

text \<open>\<open>v[k]\<close> and \<open>v[i]\<close> on a \<open>serde_json::Value\<close> are null where there is nothing; \<open>v.get(k)\<close> tells the two apart.\<close>

definition json_get :: "json \<Rightarrow> string \<Rightarrow> json option" where
  "json_get v k = (case v of JObj m \<Rightarrow> map_of m k | _ \<Rightarrow> None)"

definition json_key :: "json \<Rightarrow> string \<Rightarrow> json" where
  "json_key v k = (case json_get v k of Some x \<Rightarrow> x | None \<Rightarrow> JNull)"

definition json_index :: "json \<Rightarrow> nat \<Rightarrow> json" where
  "json_index v i = (case v of JArr xs \<Rightarrow> if i < length xs then xs ! i else JNull | _ \<Rightarrow> JNull)"

definition as_count :: "json \<Rightarrow> nat option" where
  "as_count v = (case v of JNum (PosInt n) \<Rightarrow> Some n | _ \<Rightarrow> None)"

definition some_text :: "json \<Rightarrow> string option" where
  "some_text v = (case read_str v of Some s \<Rightarrow> if s = [] then None else Some s | None \<Rightarrow> None)"

fun first_some :: "'a option list \<Rightarrow> 'a option" where
  "first_some [] = None"
| "first_some (Some x # _) = Some x"
| "first_some (None # xs) = first_some xs"

section \<open>The request body\<close>

fun content_to_json :: "completions_content \<Rightarrow> json" where
  "content_to_json (ContentText t) = JObj [(''type'', JStr ''text''), (''text'', JStr t)]"
| "content_to_json (ContentImageUrl u) = JObj [(''type'', JStr ''image_url''), (''image_url'', JObj [(''url'', JStr u)])]"
| "content_to_json (ContentFileRef i) = JObj [(''type'', JStr ''file_ref''), (''id'', JStr i)]"

definition call_to_json :: "assistant_tool_call \<Rightarrow> json" where
  "call_to_json c = JObj [(''id'', JStr (atc_id c)), (''type'', JStr (atc_kind c)),
    (''function'', JObj [(''name'', JStr (atc_name c)), (''arguments'', JStr (atc_arguments c))])]"

fun message_to_json :: "completions_message \<Rightarrow> json" where
  "message_to_json (SystemMessage t) = JObj [(''role'', JStr ''system''), (''content'', JStr t)]"
| "message_to_json (UserMessage parts) = JObj [(''role'', JStr ''user''), (''content'', JArr (map content_to_json parts))]"
| "message_to_json (AssistantMessage t refusal calls) = JObj ((''role'', JStr ''assistant'') #
    opt_json ''content'' JStr t @ opt_json ''refusal'' JStr refusal @
    (if calls = [] then [] else [(''tool_calls'', JArr (map call_to_json calls))]))"
| "message_to_json (ToolMessage c t) = JObj [(''role'', JStr ''tool''), (''tool_call_id'', JStr c), (''content'', JStr t)]"

definition spec_to_json :: "tool_spec \<Rightarrow> json" where
  "spec_to_json s = JObj [(''type'', JStr (tsp_kind s)),
    (''function'', JObj ((''name'', JStr (tsp_name s)) # opt_json ''description'' JStr (tsp_description s) @
      [(''parameters'', tsp_parameters s)] @ opt_json ''strict'' JBool (tsp_strict s)))]"

fun choice_to_json :: "completions_tool_choice \<Rightarrow> json" where
  "choice_to_json (CompletionsMode m) = JStr (mode_wire m)"
| "choice_to_json (CompletionsSpecific kind name) = JObj [(''type'', JStr kind), (''function'', JObj [(''name'', JStr name)])]"

record http_scheduler =
  hs_base_url :: string
  hs_api_key :: string
  hs_default_model :: "string option"

definition HttpScheduler_new :: "string \<Rightarrow> string \<Rightarrow> string option \<Rightarrow> string + http_scheduler" where
  "HttpScheduler_new base_url api_key default_model =
    (if str_trim base_url = [] then Inl ''base_url must not be empty''
     else if str_trim api_key = [] then Inl ''api_key must not be empty (check $NOVA_CHAT_API_KEY)''
     else Inr \<lparr>hs_base_url = rev (dropWhile ((=) CHR ''/'') (rev (str_trim base_url))), hs_api_key = str_trim api_key,
       hs_default_model = default_model\<rparr>)"

definition http_model :: "http_scheduler \<Rightarrow> completions_request \<Rightarrow> string" where
  "http_model h q = (case hs_default_model h of Some m \<Rightarrow> m | None \<Rightarrow> cq_model q)"

text \<open>\<open>num\<close> is the JSON form of a float.\<close>

definition http_body :: "(f64 \<Rightarrow> json) \<Rightarrow> http_scheduler \<Rightarrow> completions_request \<Rightarrow> json" where
  "http_body num h q = JObj ([(''model'', JStr (http_model h q)), (''messages'', JArr (map message_to_json (cq_messages q))),
      (''stream'', JBool True)] @
    opt_json ''temperature'' num (cq_temperature q) @ opt_json ''max_tokens'' (\<lambda>n. JNum (PosInt n)) (cq_max_completion_tokens q) @
    (if cq_tools q = [] then [] else [(''tools'', JArr (map spec_to_json (cq_tools q)))]) @
    opt_json ''tool_choice'' choice_to_json (cq_tool_choice q))"

definition estimated_usage :: "completions_request \<Rightarrow> string \<Rightarrow> usage" where
  "estimated_usage q out = Usage_new (max 1 (approx_input_chars q div 4)) (max 1 (length out div 4))"

section \<open>One streamed event\<close>

definition delta_text :: "json \<Rightarrow> string option" where
  "delta_text choice =
    (case json_get choice ''delta'' of
       None \<Rightarrow> None
     | Some delta \<Rightarrow>
         (case read_str delta of
            Some s \<Rightarrow> if s = [] then None else Some s
          | None \<Rightarrow> first_some [some_text (json_key delta ''content''), some_text (json_key (json_key delta ''content'') ''text''),
              some_text (json_key delta ''text'')]))"

definition reasoning_text :: "json \<Rightarrow> string option" where
  "reasoning_text choice =
    Option.bind (json_get choice ''delta'')
      (\<lambda>delta. first_some (map (\<lambda>k. some_text (json_key delta k)) [''reasoning_content'', ''reasoning'', ''thinking'']))"

definition refusal_text :: "json \<Rightarrow> string option" where
  "refusal_text choice =
    Option.bind (json_get choice ''delta'')
      (\<lambda>delta. first_some [some_text (json_key delta ''refusal''), some_text (json_key (json_key delta ''refusal'') ''text'')])"

definition empty_call :: tool_call where
  "empty_call = \<lparr>fc_id = [], fc_name = [], fc_arguments = []\<rparr>"

definition pad_calls :: "nat \<Rightarrow> tool_call list \<Rightarrow> tool_call list" where
  "pad_calls index calls = calls @ replicate (Suc index - length calls) empty_call"

definition merge_call :: "json \<Rightarrow> tool_call \<Rightarrow> tool_call" where
  "merge_call tc c =
    c\<lparr>fc_id := (case some_text (json_key tc ''id'') of Some i \<Rightarrow> i | None \<Rightarrow> fc_id c),
      fc_name := (case some_text (json_key (json_key tc ''function'') ''name'') of Some n \<Rightarrow> n | None \<Rightarrow> fc_name c),
      fc_arguments := fc_arguments c @ (case read_str (json_key (json_key tc ''function'') ''arguments'') of Some a \<Rightarrow> a | None \<Rightarrow> [])\<rparr>"

definition call_index :: "json \<Rightarrow> nat" where
  "call_index tc = (case as_count (json_key tc ''index'') of Some n \<Rightarrow> n | None \<Rightarrow> 0)"

definition add_fragment :: "json \<Rightarrow> tool_call list \<Rightarrow> tool_call list" where
  "add_fragment tc calls =
    (let padded = pad_calls (call_index tc) calls in padded[call_index tc := merge_call tc (padded ! call_index tc)])"

definition accumulate_tool_calls :: "json \<Rightarrow> tool_call list \<Rightarrow> tool_call list" where
  "accumulate_tool_calls choice calls =
    (case json_get choice ''delta'' of
       None \<Rightarrow> calls
     | Some delta \<Rightarrow> (case json_key delta ''tool_calls'' of JArr tcs \<Rightarrow> fold add_fragment tcs calls | _ \<Rightarrow> calls))"

definition finish_of :: "string \<Rightarrow> finish_reason" where
  "finish_of reason = (if reason = ''length'' then FinishLength else if reason = ''tool_calls'' then FinishToolCalls else FinishStop)"

record http_state =
  ht_text :: string
  ht_refusal :: "string option"
  ht_finish :: finish_reason
  ht_calls :: "tool_call list"

definition http_start :: http_state where
  "http_start = \<lparr>ht_text = [], ht_refusal = None, ht_finish = FinishStop, ht_calls = []\<rparr>"

text \<open>What an event does to the sink, and to the state when the sink lets it.\<close>

definition choice_steps :: "json \<Rightarrow> stream_step list" where
  "choice_steps choice =
    (case delta_text choice of Some piece \<Rightarrow> [Checked (CallTextDelta piece)] | None \<Rightarrow> []) @
    (case reasoning_text choice of Some piece \<Rightarrow> [Checked (CallReasoningTextDelta piece)] | None \<Rightarrow> [])"

definition absorb_choice :: "json \<Rightarrow> http_state \<Rightarrow> http_state" where
  "absorb_choice choice st = \<lparr>
    ht_text = ht_text st @ (case delta_text choice of Some piece \<Rightarrow> piece | None \<Rightarrow> []),
    ht_refusal = (case refusal_text choice of Some r \<Rightarrow> Some ((case ht_refusal st of Some s \<Rightarrow> s | None \<Rightarrow> []) @ r) | None \<Rightarrow> ht_refusal st),
    ht_finish = (case read_str (json_key choice ''finish_reason'') of Some reason \<Rightarrow> finish_of reason | None \<Rightarrow> ht_finish st),
    ht_calls = accumulate_tool_calls choice (ht_calls st)\<rparr>"

section \<open>Lines and chunks\<close>

text \<open>The first line of the buffer, when it is complete, and what is left.\<close>

definition split_line :: "string \<Rightarrow> (string \<times> string) option" where
  "split_line buffer =
    (if CHR 0x0A \<in> set buffer
     then Some (takeWhile (\<lambda>c. c \<noteq> CHR 0x0A) buffer, tl (dropWhile (\<lambda>c. c \<noteq> CHR 0x0A) buffer)) else None)"

lemma split_line_shorter: "split_line buffer = Some (line, rest) \<Longrightarrow> length rest < length buffer"
proof -
  assume a: "split_line buffer = Some (line, rest)"
  then have "dropWhile (\<lambda>c. c \<noteq> CHR 0x0A) buffer \<noteq> []" by (auto simp: split_line_def dropWhile_eq_Nil_conv split: if_splits)
  then show ?thesis
    using a length_dropWhile_le[of "\<lambda>c. c \<noteq> CHR 0x0A" buffer]
    by (cases "dropWhile (\<lambda>c. c \<noteq> CHR 0x0A) buffer") (auto simp: split_line_def split: if_splits)
qed

text \<open>The payload of a line, without its line ends and blanks; \<open>None\<close> for a line to skip.\<close>

definition line_data :: "string \<Rightarrow> string option" where
  "line_data line = map_option str_trim (strip_prefix ''data:'' (str_trim line))"

definition choice_of :: "json \<Rightarrow> json" where
  "choice_of event = json_index (json_key event ''choices'') 0"

text \<open>The inner loop: it stops at a line \<open>[DONE]\<close>, leaving the rest in the buffer.\<close>

function http_drain ::
  "surroundings \<Rightarrow> (string \<Rightarrow> json option) \<Rightarrow> string \<Rightarrow> http_state \<Rightarrow> event_sink \<Rightarrow> world
    \<Rightarrow> (scheduler_error + string \<times> http_state) raced \<times> event_sink \<times> world" where
  "http_drain sr parse buffer st sk w =
    (case split_line buffer of
       None \<Rightarrow> (Ready (Inr (buffer, st)), sk, w)
     | Some (line, rest) \<Rightarrow>
       (case line_data line of
          None \<Rightarrow> http_drain sr parse rest st sk w
        | Some data \<Rightarrow>
            if data = ''[DONE]'' then (Ready (Inr (rest, st)), sk, w)
            else case parse data of
              None \<Rightarrow> http_drain sr parse rest st sk w
            | Some event \<Rightarrow>
                (case stream_steps sr (choice_steps (choice_of event)) sk w of
                   (Ready (Inr _), sk, w) \<Rightarrow> http_drain sr parse rest (absorb_choice (choice_of event) st) sk w
                 | (Ready (Inl e), sk, w) \<Rightarrow> (Ready (Inl e), sk, w)
                 | (CancelledFirst, sk, w) \<Rightarrow> (CancelledFirst, sk, w)
                 | (Forever, sk, w) \<Rightarrow> (Forever, sk, w))))"
  by pat_completeness auto
termination by (relation "measure (\<lambda>(_, _, buffer, _). length buffer)") (auto dest: split_line_shorter)

declare http_drain.simps [simp del]

text \<open>The outer loop: each chunk is decoded on its own and appended to the buffer; what is left at the end is dropped.\<close>

fun http_chunks ::
  "surroundings \<Rightarrow> (string \<Rightarrow> json option) \<Rightarrow> (string + string) list \<Rightarrow> string \<Rightarrow> http_state \<Rightarrow> event_sink \<Rightarrow> world
    \<Rightarrow> (scheduler_error + http_state) raced \<times> event_sink \<times> world" where
  "http_chunks sr parse [] buffer st sk w = (Ready (Inr st), sk, w)"
| "http_chunks sr parse (chunk # chunks) buffer st sk w =
    (let w1 = sr_others sr sk w in
     if sr_cancelled sr sk w1 then (CancelledFirst, sk, w1)
     else case chunk of
       Inl e \<Rightarrow> (Ready (Inl (SchUnavailable e)), sk, w1)
     | Inr bytes \<Rightarrow>
         (case http_drain sr parse (buffer @ from_utf8_lossy bytes) st sk w1 of
            (Ready (Inr (rest, st)), sk, w) \<Rightarrow> http_chunks sr parse chunks rest st sk w
          | (Ready (Inl e), sk, w) \<Rightarrow> (Ready (Inl e), sk, w)
          | (CancelledFirst, sk, w) \<Rightarrow> (CancelledFirst, sk, w)
          | (Forever, sk, w) \<Rightarrow> (Forever, sk, w)))"

text \<open>The outcome of what was read: a refusal, the tool calls, or the text.\<close>

definition http_finish :: "surroundings \<Rightarrow> completions_request \<Rightarrow> http_state \<Rightarrow> event_sink \<Rightarrow> world
    \<Rightarrow> (scheduler_error + completions_outcome) raced \<times> event_sink \<times> world" where
  "http_finish sr q st sk w =
    (case ht_refusal st of
       Some reason \<Rightarrow> (Ready (Inr (outcome_refusal reason (estimated_usage q reason))), sk, w)
     | None \<Rightarrow>
         if ht_calls st \<noteq> []
         then streamed_then sr (concat (map tool_call_steps (ht_calls st)))
           (Inr (outcome_tool_calls (ht_calls st) (estimated_usage q (concat (map fc_arguments (ht_calls st)))))) sk w
         else if ht_text st = [] then (Ready (Inl SchEmptyOutcome), sk, w)
         else (Ready (Inr \<lparr>cmo_items = [assistant_text_message (ht_text st)], cmo_usage = estimated_usage q (ht_text st),
           cmo_finish = ht_finish st\<rparr>), sk, w))"

definition parse_stream ::
  "surroundings \<Rightarrow> (string \<Rightarrow> json option) \<Rightarrow> (string + string) list \<Rightarrow> scheduler" where
  "parse_stream sr parse chunks q sk w =
    (case http_chunks sr parse chunks [] http_start sk w of
       (Ready (Inr st), sk, w) \<Rightarrow> http_finish sr q st sk w
     | (Ready (Inl e), sk, w) \<Rightarrow> (Ready (Inl e), sk, w)
     | (CancelledFirst, sk, w) \<Rightarrow> (CancelledFirst, sk, w)
     | (Forever, sk, w) \<Rightarrow> (Forever, sk, w))"

definition parse_json :: "string + json \<Rightarrow> completions_request \<Rightarrow> scheduler_error + completions_outcome" where
  "parse_json body q =
    (case body of
       Inl e \<Rightarrow> Inl (SchUnavailable (''decode json body: '' @ e))
     | Inr v \<Rightarrow>
         (let content = (case read_str (json_key (json_key (json_index (json_key v ''choices'') 0) ''message'') ''content'') of
            Some s \<Rightarrow> s | None \<Rightarrow> []) in
          if content = [] then Inl SchEmptyOutcome else Inr (outcome_text content (estimated_usage q content))))"

section \<open>The scheduler\<close>

record http_reply =
  hr_status :: nat
  hr_content_type :: "string option"
  hr_text :: string
  hr_json :: "string + json"
  hr_chunks :: "(string + string) list"

text \<open>\<open>provider\<close> answers a body, or fails to.  The waits for the reply and for its text or JSON are points where
  the call may be dropped.\<close>

definition awaiting ::
  "surroundings \<Rightarrow> (world \<Rightarrow> 'a raced \<times> event_sink \<times> world) \<Rightarrow> event_sink \<Rightarrow> world \<Rightarrow> 'a raced \<times> event_sink \<times> world" where
  "awaiting sr k sk w = (let w1 = sr_others sr sk w in if sr_cancelled sr sk w1 then (CancelledFirst, sk, w1) else k w1)"

definition http_schedule ::
  "surroundings \<Rightarrow> (f64 \<Rightarrow> json) \<Rightarrow> (string \<Rightarrow> json option) \<Rightarrow> (json \<Rightarrow> string + http_reply) \<Rightarrow> http_scheduler \<Rightarrow> scheduler" where
  "http_schedule sr num parse provider h q sk w =
    awaiting sr (\<lambda>w1.
      case provider (http_body num h q) of
        Inl e \<Rightarrow> (Ready (Inl (SchUnavailable e)), sk, w1)
      | Inr reply \<Rightarrow>
          if \<not> (200 \<le> hr_status reply \<and> hr_status reply < 300)
          then awaiting sr (\<lambda>w2. (Ready (Inl (if 500 \<le> hr_status reply \<and> hr_status reply < 600
            then SchUnavailable (hr_text reply) else SchRejected (hr_text reply))), sk, w2)) sk w1
          else if (case hr_content_type reply of Some t \<Rightarrow> sublist ''text/event-stream'' t | None \<Rightarrow> False)
          then parse_stream sr parse (hr_chunks reply) q sk w1
          else awaiting sr (\<lambda>w2. (Ready (parse_json (hr_json reply) q), sk, w2)) sk w1) sk w"

section \<open>The answer as its complete lines\<close>

function complete_lines :: "string \<Rightarrow> string list" where
  "complete_lines s = (case split_line s of None \<Rightarrow> [] | Some (line, rest) \<Rightarrow> line # complete_lines rest)"
  by pat_completeness auto
termination by (relation "measure length") (auto dest: split_line_shorter)

function last_part :: "string \<Rightarrow> string" where
  "last_part s = (case split_line s of None \<Rightarrow> s | Some (line, rest) \<Rightarrow> last_part rest)"
  by pat_completeness auto
termination by (relation "measure length") (auto dest: split_line_shorter)

declare complete_lines.simps [simp del] last_part.simps [simp del]

text \<open>What the scheduler means to do: every line in order, whatever the chunks.\<close>

fun run_lines ::
  "surroundings \<Rightarrow> (string \<Rightarrow> json option) \<Rightarrow> string list \<Rightarrow> http_state \<Rightarrow> event_sink \<Rightarrow> world
    \<Rightarrow> (scheduler_error + http_state) raced \<times> event_sink \<times> world" where
  "run_lines sr parse [] st sk w = (Ready (Inr st), sk, w)"
| "run_lines sr parse (line # lines) st sk w =
    (case Option.bind (line_data line) parse of
       None \<Rightarrow> run_lines sr parse lines st sk w
     | Some event \<Rightarrow>
         (case stream_steps sr (choice_steps (choice_of event)) sk w of
            (Ready (Inr _), sk, w) \<Rightarrow> run_lines sr parse lines (absorb_choice (choice_of event) st) sk w
          | (Ready (Inl e), sk, w) \<Rightarrow> (Ready (Inl e), sk, w)
          | (CancelledFirst, sk, w) \<Rightarrow> (CancelledFirst, sk, w)
          | (Forever, sk, w) \<Rightarrow> (Forever, sk, w)))"

definition no_done :: "string list \<Rightarrow> bool" where
  "no_done lines \<longleftrightarrow> list_all (\<lambda>l. line_data l \<noteq> Some ''[DONE]'') lines"

text \<open>Continuing after a run that succeeded.\<close>

definition then_run ::
  "('e + 'a) raced \<times> event_sink \<times> world \<Rightarrow> ('a \<Rightarrow> event_sink \<Rightarrow> world \<Rightarrow> ('e + 'b) raced \<times> event_sink \<times> world)
    \<Rightarrow> ('e + 'b) raced \<times> event_sink \<times> world" where
  "then_run r k =
    (case r of
       (Ready (Inr x), sk, w) \<Rightarrow> k x sk w
     | (Ready (Inl e), sk, w) \<Rightarrow> (Ready (Inl e), sk, w)
     | (CancelledFirst, sk, w) \<Rightarrow> (CancelledFirst, sk, w)
     | (Forever, sk, w) \<Rightarrow> (Forever, sk, w))"

lemma then_run_assoc: "then_run (then_run r k) l = then_run r (\<lambda>x sk w. then_run (k x sk w) l)"
  by (auto simp: then_run_def split: prod.split raced.split sum.split)

lemma then_run_ready [simp]: "then_run (Ready (Inr x), sk, w) k = k x sk w"
  by (simp add: then_run_def)

lemma run_lines_append: "run_lines sr parse (xs @ ys) st sk w = then_run (run_lines sr parse xs st sk w) (run_lines sr parse ys)"
proof (induction xs arbitrary: st sk w)
  case (Cons x xs)
  then show ?case by (auto simp: then_run_def split: option.split prod.split raced.split sum.split)
qed simp

lemma split_line_append: "split_line a = Some (line, rest) \<Longrightarrow> split_line (a @ b) = Some (line, rest @ b)"
  by (auto simp: split_line_def takeWhile_append1 dropWhile_append1 dropWhile_eq_Nil_conv split: if_splits intro!: tl_append2)

lemma complete_lines_append: "complete_lines (a @ b) = complete_lines a @ complete_lines (last_part a @ b)"
proof (induction a rule: last_part.induct)
  case (1 a)
  show ?case
  proof (cases "split_line a")
    case (Some p)
    obtain line rest where p: "p = (line, rest)" by fastforce
    then show ?thesis using 1[OF Some p[symmetric]] Some split_line_append[of a line rest b]
      by (simp add: complete_lines.simps[of a] complete_lines.simps[of "a @ b"] last_part.simps[of a])
  qed (simp add: complete_lines.simps[of a] last_part.simps[of a])
qed

lemma http_drain_lines:
  assumes "no_done (complete_lines buffer)"
  shows "http_drain sr parse buffer st sk w =
    then_run (run_lines sr parse (complete_lines buffer) st sk w) (\<lambda>st sk w. (Ready (Inr (last_part buffer, st)), sk, w))"
  using assms
proof (induction buffer arbitrary: st sk w rule: last_part.induct)
  case (1 buffer)
  show ?case
  proof (cases "split_line buffer")
    case (Some p)
    obtain line rest where p: "p = (line, rest)" by fastforce
    have lines: "complete_lines buffer = line # complete_lines rest" "last_part buffer = last_part rest"
      using Some p by (simp_all add: complete_lines.simps[of buffer] last_part.simps[of buffer])
    then have "no_done (complete_lines rest)" "line_data line \<noteq> Some ''[DONE]''" using 1(2) by (simp_all add: no_done_def)
    with 1(1)[OF Some p[symmetric] this(1)] show ?thesis
      unfolding lines http_drain.simps[of sr parse buffer]
      by (auto simp: Some p then_run_def split: option.split prod.split raced.split sum.split)
  qed (simp add: http_drain.simps[of sr parse buffer] complete_lines.simps[of buffer] last_part.simps[of buffer])
qed

section \<open>Bytes in chunks\<close>

function valid_utf8 :: "string \<Rightarrow> bool" where
  "valid_utf8 s =
    (if s = [] then True else if fst (utf8_step s) then valid_utf8 (drop (snd (utf8_step s)) s) else False)"
  by pat_completeness auto
termination by (relation "measure length") (auto intro!: diff_less utf8_step_positive)

declare valid_utf8.simps [simp del]

lemma utf8_step_append:
  assumes "s \<noteq> []" "fst (utf8_step s)"
  shows "utf8_step (s @ t) = utf8_step s \<and> snd (utf8_step s) \<le> length s"
proof -
  obtain b bs where s: "s = b # bs" using assms(1) by (cases s) auto
  obtain n where n: "utf8_needs (of_char b) = Some n" using assms(2) s by (cases "utf8_needs (of_char b)") simp_all
  show ?thesis
  proof (cases "n = 0")
    case False
    then obtain c cs where bs: "bs = c # cs" "utf8_second (of_char b) (of_char c)"
      using assms(2) s n by (cases bs) (simp_all split: if_splits)
    show ?thesis
    proof (cases "n = 1")
      case one: False
      then obtain d ds where cs: "cs = d # ds" "is_continuation d"
        using assms(2) s n False bs by (cases cs) (simp_all add: next_continues_def split: if_splits)
      show ?thesis
      proof (cases "n = 2")
        case two: False
        then obtain e es where "ds = e # es" "is_continuation e"
          using assms(2) s n False bs one cs by (cases ds) (simp_all add: next_continues_def split: if_splits)
        then show ?thesis using s n False bs one cs two by (simp add: next_continues_def)
      qed (use s n bs cs in \<open>simp add: next_continues_def\<close>)
    qed (use s n bs in simp)
  qed (use s n in simp)
qed

lemma lossy_append: "valid_utf8 a \<Longrightarrow> from_utf8_lossy (a @ b) = a @ from_utf8_lossy b"
proof (induction a rule: valid_utf8.induct)
  case (1 a)
  show ?case
  proof (cases "a = []")
    case False
    then have step: "fst (utf8_step a)" "valid_utf8 (drop (snd (utf8_step a)) a)" using 1(2) valid_utf8.simps[of a] by (auto split: if_splits)
    note ext = utf8_step_append[OF False step(1), of b]
    have "from_utf8_lossy (a @ b) = take (snd (utf8_step a)) a @ from_utf8_lossy (drop (snd (utf8_step a)) a @ b)"
      using False step(1) ext by (subst from_utf8_lossy.simps) (simp add: case_prod_unfold Let_def)
    also have "\<dots> = a @ from_utf8_lossy b" using 1(1)[OF False step(1) step(2)] by simp
    finally show ?thesis .
  qed simp
qed

lemma lossy_valid: "valid_utf8 a \<Longrightarrow> from_utf8_lossy a = a"
  using lossy_append[of a "[]"] by (simp add: from_utf8_lossy.simps)

lemma http_chunks_lines:
  assumes "split_line buffer = None" "list_all valid_utf8 chunks" "no_done (complete_lines (buffer @ concat chunks))"
  shows "http_chunks undisturbed parse (map Inr chunks) buffer st sk w =
    run_lines undisturbed parse (complete_lines (buffer @ concat chunks)) st sk w"
  using assms
proof (induction chunks arbitrary: buffer st sk w)
  case Nil
  then show ?case by (simp add: complete_lines.simps[of buffer])
next
  case (Cons chunk chunks)
  let ?b = "buffer @ chunk"
  have all: "complete_lines (buffer @ concat (chunk # chunks)) = complete_lines ?b @ complete_lines (last_part ?b @ concat chunks)"
    using complete_lines_append[of ?b "concat chunks"] by simp
  have "split_line (last_part s) = None" for s
  proof (induction s rule: last_part.induct)
    case (1 s)
    then show ?case by (subst last_part.simps) (auto split: option.split)
  qed
  note rest = Cons.IH[OF this, of ?b]
  have nd: "no_done (complete_lines ?b)" "no_done (complete_lines (last_part ?b @ concat chunks))"
    using Cons.prems(3) unfolding all by (simp_all add: no_done_def)
  have "http_chunks undisturbed parse (map Inr (chunk # chunks)) buffer st sk w =
      then_run (http_drain undisturbed parse ?b st sk w)
        (\<lambda>p sk w. http_chunks undisturbed parse (map Inr chunks) (fst p) (snd p) sk w)"
    using Cons.prems(2) by (auto simp: undisturbed_def lossy_valid then_run_def split: prod.split raced.split sum.split)
  also have "\<dots> = then_run (run_lines undisturbed parse (complete_lines ?b) st sk w)
      (run_lines undisturbed parse (complete_lines (last_part ?b @ concat chunks)))"
    using rest nd(2) Cons.prems(2) by (simp add: http_drain_lines[OF nd(1)] then_run_assoc)
  finally show ?case unfolding all run_lines_append .
qed

section \<open>What the sink sees\<close>

text \<open>Only deltas and tool calls: no message is ever opened on the sink.\<close>

fun plain_call :: "sink_call \<Rightarrow> bool" where
  "plain_call (CallTextDelta _) = True"
| "plain_call (CallReasoningTextDelta _) = True"
| "plain_call (CallItemAdded i) = is_call i"
| "plain_call (CallItemDone i) = is_call i"
| "plain_call _ = False"

definition unopened :: "event_sink \<Rightarrow> event_sink \<Rightarrow> bool" where
  "unopened sk sk' \<longleftrightarrow>
    (\<forall>i. es_open_item sk' = Some i \<longrightarrow> is_call i) \<and>
    (\<exists>calls. es_completed sk' = es_completed sk @ calls \<and> (\<forall>i \<in> set calls. is_call i))"

lemma unopened_step:
  assumes "unopened sk0 sk" "plain_call c" "sink_step c sk w = (r, sk', w')"
  shows "unopened sk0 sk'"
proof -
  have "es_open_item sk' = es_open_item (call_account c sk)"
    using assms(3) by (auto simp: sink_step_push sink_push_def simp del: sink_step.simps split: if_splits prod.splits sum.splits)
  moreover have "\<forall>i. es_open_item (call_account c sk) = Some i \<longrightarrow> is_call i"
    using assms(1,2) by (cases c) (auto simp: unopened_def)
  moreover obtain calls where "es_completed sk = es_completed sk0 @ calls" "\<forall>i \<in> set calls. is_call i"
    using assms(1) by (auto simp: unopened_def)
  then have "\<exists>calls. es_completed sk' = es_completed sk0 @ calls \<and> (\<forall>i \<in> set calls. is_call i)"
    using sink_step_completed[OF assms(3)] assms(2) by (cases c) auto
  ultimately show ?thesis by (simp add: unopened_def)
qed

lemma unopened_steps:
  "unopened sk0 sk \<Longrightarrow> list_all (\<lambda>s. plain_call (step_call s)) ss \<Longrightarrow> stream_steps sr ss sk w = (r, sk', w') \<Longrightarrow> unopened sk0 sk'"
proof (induction ss arbitrary: sk w)
  case (Cons s ss)
  obtain x sk2 w2 where st: "sink_step (step_call s) sk (sr_others sr sk w) = (x, sk2, w2)"
    by (cases "sink_step (step_call s) sk (sr_others sr sk w)") auto
  have "unopened sk0 sk2" using unopened_step[OF Cons.prems(1) _ st] Cons.prems(2) by simp
  then show ?case using Cons.prems st Cons.IH[of sk2 w2] by (auto simp: Let_def split: if_splits sum.splits)
qed simp

lemma choice_steps_plain [simp]: "list_all (\<lambda>s. plain_call (step_call s)) (choice_steps choice)"
  by (simp add: choice_steps_def split: option.split)

lemma tool_steps_plain: "list_all (\<lambda>s. plain_call (step_call s)) (concat (map tool_call_steps calls))"
  by (induction calls) (simp_all add: tool_call_steps_def Let_def)

lemma then_run_sink:
  "P (fst (snd r)) \<Longrightarrow> (\<And>x sk w. P sk \<Longrightarrow> P (fst (snd (k x sk w)))) \<Longrightarrow> P (fst (snd (then_run r k)))"
  by (auto simp: then_run_def split: prod.split raced.split sum.split)

lemma http_drain_step:
  "http_drain sr parse buffer st sk w =
    (case split_line buffer of
       None \<Rightarrow> (Ready (Inr (buffer, st)), sk, w)
     | Some (line, rest) \<Rightarrow>
       (case line_data line of
          None \<Rightarrow> http_drain sr parse rest st sk w
        | Some data \<Rightarrow>
            if data = ''[DONE]'' then (Ready (Inr (rest, st)), sk, w)
            else case parse data of
              None \<Rightarrow> http_drain sr parse rest st sk w
            | Some event \<Rightarrow> then_run (stream_steps sr (choice_steps (choice_of event)) sk w)
                (\<lambda>_. http_drain sr parse rest (absorb_choice (choice_of event) st))))"
  unfolding then_run_def by (rule http_drain.simps)

lemma http_chunks_step:
  "http_chunks sr parse (chunk # chunks) buffer st sk w =
    awaiting sr (\<lambda>w1. case chunk of
       Inl e \<Rightarrow> (Ready (Inl (SchUnavailable e)), sk, w1)
     | Inr bytes \<Rightarrow> then_run (http_drain sr parse (buffer @ from_utf8_lossy bytes) st sk w1)
         (\<lambda>p. http_chunks sr parse chunks (fst p) (snd p))) sk w"
  by (auto simp: awaiting_def then_run_def Let_def split: prod.split raced.split sum.split)

lemma parse_stream_step:
  "parse_stream sr parse chunks q sk w = then_run (http_chunks sr parse chunks [] http_start sk w) (http_finish sr q)"
  by (auto simp: parse_stream_def then_run_def split: prod.split raced.split sum.split)

lemma unopened_sink: "unopened sk0 sk \<Longrightarrow> list_all (\<lambda>s. plain_call (step_call s)) ss \<Longrightarrow> unopened sk0 (fst (snd (stream_steps sr ss sk w)))"
  using unopened_steps[of sk0 sk ss sr w] by (cases "stream_steps sr ss sk w") auto

lemma unopened_drain: "unopened sk0 sk \<Longrightarrow> unopened sk0 (fst (snd (http_drain sr parse buffer st sk w)))"
proof (induction buffer arbitrary: st sk w rule: last_part.induct)
  case (1 buffer)
  show ?case
  proof (cases "split_line buffer")
    case (Some p)
    obtain line rest where p: "p = (line, rest)" by fastforce
    note rest = 1(1)[OF Some p[symmetric]]
    have "unopened sk0 (fst (snd (then_run (stream_steps sr (choice_steps c) sk w) (\<lambda>_. http_drain sr parse rest (absorb_choice c st)))))" for c
      by (rule then_run_sink) (simp_all add: unopened_sink 1(2) rest)
    then show ?thesis
      using rest[OF 1(2)] 1(2) by (subst http_drain_step) (simp add: Some p split: option.split)
  qed (use 1 in \<open>simp add: http_drain_step[of sr parse buffer]\<close>)
qed

lemma unopened_chunks: "unopened sk0 sk \<Longrightarrow> unopened sk0 (fst (snd (http_chunks sr parse chunks buffer st sk w)))"
proof (induction chunks arbitrary: buffer st sk w)
  case (Cons chunk chunks)
  have "unopened sk0 (fst (snd (then_run (http_drain sr parse b st sk w1) (\<lambda>p. http_chunks sr parse chunks (fst p) (snd p)))))" for b w1
    by (rule then_run_sink) (simp_all add: unopened_drain Cons)
  then show ?case using Cons.prems by (simp add: http_chunks_step awaiting_def Let_def split: sum.split del: http_chunks.simps)
qed simp

lemma streamed_then_sink: "fst (snd (streamed_then sr steps answer sk w)) = fst (snd (stream_steps sr steps sk w))"
  by (auto simp: streamed_then_def split: prod.split raced.split sum.split)

lemma unopened_finish: "unopened sk0 sk \<Longrightarrow> unopened sk0 (fst (snd (http_finish sr q st sk w)))"
  using unopened_sink[OF _ tool_steps_plain, of sk0 sk sr "ht_calls st" w]
  by (simp add: http_finish_def streamed_then_sink split: option.split)

lemma unopened_schedule: "unopened sk0 sk \<Longrightarrow> unopened sk0 (fst (snd (http_schedule sr num parse provider h q sk w)))"
proof -
  assume u: "unopened sk0 sk"
  have "unopened sk0 (fst (snd (parse_stream sr parse chunks q sk w1)))" for chunks w1
    unfolding parse_stream_step by (rule then_run_sink) (simp_all add: unopened_chunks[OF u] unopened_finish)
  then show ?thesis using u by (simp add: http_schedule_def awaiting_def Let_def split: sum.split option.split)
qed

section \<open>Tool calls in fragments\<close>

definition call_at :: "tool_call list \<Rightarrow> nat \<Rightarrow> tool_call" where
  "call_at calls i = (if i < length calls then calls ! i else empty_call)"

lemma call_at_pad: "call_at (pad_calls n calls) i = call_at calls i"
  by (auto simp: call_at_def pad_calls_def nth_append)

lemma length_pad: "length (pad_calls n calls) = max (Suc n) (length calls)"
  by (simp add: pad_calls_def)

lemma call_at_fragment: "call_at (add_fragment tc calls) i = (if i = call_index tc then merge_call tc (call_at calls i) else call_at calls i)"
proof -
  have "call_at (add_fragment tc calls) i =
      (if i = call_index tc then merge_call tc (call_at (pad_calls (call_index tc) calls) i) else call_at (pad_calls (call_index tc) calls) i)"
    by (auto simp: add_fragment_def Let_def call_at_def length_pad nth_list_update)
  then show ?thesis by (simp add: call_at_pad)
qed

lemma call_at_fragments: "call_at (fold add_fragment tcs calls) i = fold merge_call (filter (\<lambda>tc. call_index tc = i) tcs) (call_at calls i)"
  by (induction tcs arbitrary: calls) (simp_all add: call_at_fragment)

lemma merged_arguments:
  "fc_arguments (fold merge_call tcs c) =
    fc_arguments c @ concat (map (\<lambda>tc. case read_str (json_key (json_key tc ''function'') ''arguments'') of Some a \<Rightarrow> a | None \<Rightarrow> []) tcs)"
  by (induction tcs arbitrary: c) (simp_all add: merge_call_def)

section \<open>One line in two chunks\<close>

lemma awaiting_undisturbed [simp]: "awaiting undisturbed k sk w = k w"
  by (simp add: awaiting_def undisturbed_def)

lemma split_one_line: "CHR 0x0A \<notin> set l \<Longrightarrow> split_line (l @ [CHR 0x0A]) = Some (l, [])"
  by (induction l) (auto simp: split_line_def)

lemma unfinished_line: "CHR 0x0A \<notin> set l \<Longrightarrow> http_drain sr parse l st sk w = (Ready (Inr (l, st)), sk, w)"
  by (simp add: http_drain_step split_line_def)

lemma drain_one_line:
  assumes "CHR 0x0A \<notin> set l" "line_data l = Some d" "d \<noteq> ''[DONE]''" "parse d = Some event"
  shows "http_drain sr parse (l @ [CHR 0x0A]) st sk w =
    then_run (stream_steps sr (choice_steps (choice_of event)) sk w)
      (\<lambda>_ sk w. (Ready (Inr ([], absorb_choice (choice_of event) st)), sk, w))"
proof -
  have "http_drain sr parse [] st = (\<lambda>sk w. (Ready (Inr ([], st)), sk, w))" for st
    by (intro ext) (simp add: unfinished_line)
  with assms show ?thesis by (subst http_drain_step) (simp add: split_one_line)
qed

text \<open>An event that refuses, and a character of three bytes.\<close>

definition refusal_event :: "string \<Rightarrow> json option" where
  "refusal_event data = Some (JObj [(''choices'', JArr [JObj [(''delta'', JObj [(''refusal'', JStr data)])]])])"

definition han_ni :: string where
  "han_ni = [CHR 0xE4, CHR 0xBD, CHR 0xA0]"

lemma refusal_line:
  assumes "line_data (''data:'' @ d) = Some d" "CHR 0x0A \<notin> set d" "d \<noteq> []" "d \<noteq> ''[DONE]''"
  shows "http_drain undisturbed refusal_event (''data:'' @ d @ [CHR 0x0A]) http_start sk w =
    (Ready (Inr ([], http_start\<lparr>ht_refusal := Some d\<rparr>)), sk, w)"
proof -
  let ?c = "JObj [(''delta'', JObj [(''refusal'', JStr d)])]"
  have c: "choice_of (JObj [(''choices'', JArr [?c])]) = ?c"
    by (simp add: choice_of_def json_index_def json_key_def json_get_def)
  have event: "refusal_event d = Some (JObj [(''choices'', JArr [?c])])" by (simp add: refusal_event_def)
  have steps: "choice_steps ?c = []"
    by (simp add: choice_steps_def delta_text_def reasoning_text_def json_key_def json_get_def some_text_def read_str_def)
  have absorb: "absorb_choice ?c http_start = http_start\<lparr>ht_refusal := Some d\<rparr>"
    using assms(3) by (simp add: absorb_choice_def delta_text_def refusal_text_def json_key_def json_get_def some_text_def
        read_str_def accumulate_tool_calls_def http_start_def)
  have "http_drain undisturbed refusal_event ((''data:'' @ d) @ [CHR 0x0A]) http_start sk w =
      then_run (stream_steps undisturbed (choice_steps ?c) sk w)
        (\<lambda>_ sk w. (Ready (Inr ([], absorb_choice ?c http_start)), sk, w))"
    by (rule drain_one_line[where parse = refusal_event, OF _ assms(1,4) event, unfolded c]) (use assms(2) in simp)
  then show ?thesis unfolding steps absorb by simp
qed

lemma character_data:
  "line_data (''data:'' @ han_ni) = Some han_ni" "CHR 0x0A \<notin> set han_ni" "han_ni \<noteq> []" "han_ni \<noteq> ''[DONE]''"
  by (simp_all add: han_ni_def line_data_def str_trim_def utf8_chars.simps is_continuation_def is_blank_char_def ws_len_def)

lemma replacement_data:
  "line_data (''data:'' @ replacement @ replacement) = Some (replacement @ replacement)"
  "CHR 0x0A \<notin> set replacement" "replacement \<noteq> []" "replacement @ replacement \<noteq> ''[DONE]''"
  by (simp_all add: replacement_def line_data_def str_trim_def utf8_chars.simps is_continuation_def is_blank_char_def ws_len_def)

section \<open>Properties\<close>


text \<open>It does matter inside a character: each chunk is decoded on its own, so the two halves of a character become
  replacement characters, and the same bytes give a different answer.\<close>

theorem split_characters_corrupt_the_answer:
  "\<exists>parse whole halves answer answer'. concat halves = whole \<and> valid_utf8 whole \<and> answer \<noteq> answer' \<and>
    parse_stream undisturbed parse [Inr whole] q sk w = (Ready (Inr (outcome_refusal answer (estimated_usage q answer))), sk, w) \<and>
    parse_stream undisturbed parse (map Inr halves) q sk w = (Ready (Inr (outcome_refusal answer' (estimated_usage q answer'))), sk, w)"
proof -
  let ?whole = "''data:'' @ han_ni @ [CHR 0x0A]"
  let ?halves = "[''data:'' @ take 2 han_ni, drop 2 han_ni @ [CHR 0x0A]]"
  have lossy: "from_utf8_lossy ?whole = ?whole" "from_utf8_lossy (?halves ! 0) = ''data:'' @ replacement"
      "from_utf8_lossy (?halves ! 1) = replacement @ [CHR 0x0A]" "valid_utf8 ?whole"
    by (simp_all add: han_ni_def from_utf8_lossy.simps valid_utf8.simps utf8_needs_def utf8_second_def next_continues_def
        is_continuation_def replacement_def)
  have "http_chunks undisturbed refusal_event [Inr ?whole] [] http_start sk w =
      (Ready (Inr (http_start\<lparr>ht_refusal := Some han_ni\<rparr>)), sk, w)"
    using refusal_line[OF character_data] lossy(1) by (simp add: http_chunks_step awaiting_undisturbed del: http_chunks.simps(2))
  moreover have "http_chunks undisturbed refusal_event (map Inr ?halves) [] http_start sk w =
      (Ready (Inr (http_start\<lparr>ht_refusal := Some (replacement @ replacement)\<rparr>)), sk, w)"
    using refusal_line[OF replacement_data(1) _ _ replacement_data(4)] replacement_data(2,3) lossy(2,3)
    by (simp add: http_chunks_step awaiting_undisturbed unfinished_line del: http_chunks.simps(2))
  ultimately have "concat ?halves = ?whole \<and> valid_utf8 ?whole \<and> han_ni \<noteq> replacement @ replacement \<and>
    parse_stream undisturbed refusal_event [Inr ?whole] q sk w = (Ready (Inr (outcome_refusal han_ni (estimated_usage q han_ni))), sk, w) \<and>
    parse_stream undisturbed refusal_event (map Inr ?halves) q sk w =
      (Ready (Inr (outcome_refusal (replacement @ replacement) (estimated_usage q (replacement @ replacement)))), sk, w)"
    using lossy(4) by (simp add: parse_stream_step http_finish_def) (simp add: han_ni_def replacement_def)
  then show ?thesis by blast
qed

text \<open>C32: The text this scheduler streams belongs to no item.  From a sink without an open message, whatever the provider
  sends and however the call ends, no message is open or done afterwards: the archive of a turn that dies now has the
  tool calls at most, and none of the text its reader saw.\<close>

theorem streamed_text_is_never_archived:
  assumes "http_schedule sr num parse provider h q sk w = (r, sk', w')" "es_open_item sk = None"
  shows "partial_item sk' = None \<and>
    (\<exists>calls. es_completed sk' = es_completed sk @ calls \<and> (\<forall>i \<in> set calls. is_call i))"
proof -
  have "unopened sk sk" using assms(2) by (simp add: unopened_def)
  from unopened_schedule[OF this, of sr num parse provider h q w] have u: "unopened sk sk'" using assms(1) by simp
  then have "partial_item sk' = None"
    by (auto simp: unopened_def partial_item_def split: option.split response_item.split)
  with u show ?thesis by (simp add: unopened_def)
qed

text \<open>Tool calls arrive in fragments, interleaved in any order.  Each call is the merge of the fragments that carry its
  index, in their order, and its arguments are their argument texts joined; calls of other indexes do not touch it.\<close>

theorem fragments_rebuild_the_calls:
  "call_at (fold add_fragment tcs []) i = fold merge_call (filter (\<lambda>tc. call_index tc = i) tcs) empty_call \<and>
    fc_arguments (call_at (fold add_fragment tcs []) i) =
      concat (map (\<lambda>tc. case read_str (json_key (json_key tc ''function'') ''arguments'') of Some a \<Rightarrow> a | None \<Rightarrow> [])
        (filter (\<lambda>tc. call_index tc = i) tcs))"
  by (simp add: call_at_fragments merged_arguments) (simp add: call_at_def empty_call_def)

section \<open>The hypotheses can hold\<close>


text \<open>A provider that streams a piece of text and then hangs up.\<close>

definition text_event :: "string \<Rightarrow> json option" where
  "text_event data = Some (JObj [(''choices'', JArr [JObj [(''delta'', JStr data)]])])"

definition demo_reply :: http_reply where
  "demo_reply = \<lparr>hr_status = 200, hr_content_type = Some ''text/event-stream'', hr_text = [], hr_json = Inl ''stream'',
    hr_chunks = [Inr (''data:hello'' @ [CHR 0x0A]), Inl ''connection reset'']\<rparr>"

definition demo_http :: http_scheduler where
  "demo_http = \<lparr>hs_base_url = ''https://llm'', hs_api_key = ''k'', hs_default_model = None\<rparr>"

theorem streamed_text_is_never_archived_witness:
  "\<forall>q. \<exists>r sk' w'. http_schedule undisturbed (\<lambda>_. JNull) text_event (\<lambda>_. Inr demo_reply) demo_http q
      (EventSink_new demo_rid (Attempt 1)) demo_world = (r, sk', w') \<and>
    partial_item sk' = None \<and> (\<forall>i \<in> set (es_completed sk'). is_call i)"
proof
  fix q
  obtain r sk' w' where run: "http_schedule undisturbed (\<lambda>_. JNull) text_event (\<lambda>_. Inr demo_reply) demo_http q
      (EventSink_new demo_rid (Attempt 1)) demo_world = (r, sk', w')"
    using prod_cases3 by blast
  have "partial_item sk' = None \<and>
      (\<exists>calls. es_completed sk' = es_completed (EventSink_new demo_rid (Attempt 1)) @ calls \<and> (\<forall>i \<in> set calls. is_call i))"
    by (rule streamed_text_is_never_archived[OF run]) (simp add: EventSink_new_def)
  then show "\<exists>r sk' w'. http_schedule undisturbed (\<lambda>_. JNull) text_event (\<lambda>_. Inr demo_reply) demo_http q
      (EventSink_new demo_rid (Attempt 1)) demo_world = (r, sk', w') \<and>
    partial_item sk' = None \<and> (\<forall>i \<in> set (es_completed sk'). is_call i)"
    using run by (auto simp: EventSink_new_def)
qed

end
