(* ===== verification/Calculator.thy ===== *)
theory Calculator
  imports Mock_Runner Http_Scheduler
begin

text \<open>
  The calculator the mock executor offers as a tool (\<open>verify/mock/agentd/src/tool.rs\<close>): a recursive-descent
  parser that computes as it reads.

  Floats are a parameter: a record of the operations the code uses, with the reading and the printing of numbers.
  The parser's state is the unread rest of the input; its position is how much of the input is gone.  The three
  parsing functions call each other and themselves, so they carry fuel; \<open>parse_expr_total\<close> shows that four times
  the length of the input plus three is always enough.
\<close>

section \<open>Numbers\<close>

record 'n arithmetic =
  ar_add :: "'n \<Rightarrow> 'n \<Rightarrow> 'n"
  ar_sub :: "'n \<Rightarrow> 'n \<Rightarrow> 'n"
  ar_mul :: "'n \<Rightarrow> 'n \<Rightarrow> 'n"
  ar_div :: "'n \<Rightarrow> 'n \<Rightarrow> 'n"
  ar_neg :: "'n \<Rightarrow> 'n"
  ar_is_zero :: "'n \<Rightarrow> bool"
  ar_read :: "string \<Rightarrow> 'n option"
  ar_show :: "'n \<Rightarrow> string"

section \<open>The parser\<close>

definition is_ascii_whitespace :: "char \<Rightarrow> bool" where
  "is_ascii_whitespace c \<longleftrightarrow> c \<in> {CHR 0x20, CHR 0x09, CHR 0x0A, CHR 0x0C, CHR 0x0D}"

definition number_char :: "char \<Rightarrow> bool" where
  "number_char c \<longleftrightarrow> c \<in> set ''0123456789.''"

definition skip_whitespace :: "string \<Rightarrow> string" where
  "skip_whitespace s = dropWhile is_ascii_whitespace s"

text \<open>\<open>None\<close> is fuel that ran out; \<open>Some (Inl _)\<close> an error of the expression.\<close>

type_synonym 'n parsed = "(string + 'n \<times> string) option"

definition parse_number :: "'n arithmetic \<Rightarrow> string \<Rightarrow> string + 'n \<times> string" where
  "parse_number ar s =
    (let raw = takeWhile number_char s in
     case ar_read ar raw of Some v \<Rightarrow> Inr (v, dropWhile number_char s) | None \<Rightarrow> Inl (''invalid number `'' @ raw @ ''`''))"

definition then_parse :: "'n parsed \<Rightarrow> ('n \<Rightarrow> string \<Rightarrow> 'n parsed) \<Rightarrow> 'n parsed" where
  "then_parse r k = (case r of None \<Rightarrow> None | Some (Inl e) \<Rightarrow> Some (Inl e) | Some (Inr (v, rest)) \<Rightarrow> k v rest)"

definition close_paren :: "'n \<Rightarrow> string \<Rightarrow> 'n parsed" where
  "close_paren v rest =
    (case skip_whitespace rest of
       [] \<Rightarrow> Some (Inl ''missing closing parenthesis'')
     | c # rest \<Rightarrow> if c = CHR '')'' then Some (Inr (v, rest)) else Some (Inl ''missing closing parenthesis''))"

text \<open>\<open>latin1\<close>: a byte printed as a character (\<open>c as char\<close>), in UTF-8.\<close>

definition latin1 :: "char \<Rightarrow> string" where
  "latin1 c = (let n = of_char c :: nat in if n < 128 then [c] else [char_of (192 + n div 64), char_of (128 + n mod 64)])"

fun parse_expr :: "'n arithmetic \<Rightarrow> nat \<Rightarrow> string \<Rightarrow> 'n parsed"
  and expr_loop :: "'n arithmetic \<Rightarrow> nat \<Rightarrow> 'n \<Rightarrow> string \<Rightarrow> 'n parsed"
  and parse_term :: "'n arithmetic \<Rightarrow> nat \<Rightarrow> string \<Rightarrow> 'n parsed"
  and term_loop :: "'n arithmetic \<Rightarrow> nat \<Rightarrow> 'n \<Rightarrow> string \<Rightarrow> 'n parsed"
  and parse_factor :: "'n arithmetic \<Rightarrow> nat \<Rightarrow> string \<Rightarrow> 'n parsed" where
  "parse_expr ar 0 s = None"
| "parse_expr ar (Suc n) s = then_parse (parse_term ar n s) (expr_loop ar n)"
| "expr_loop ar 0 acc s = None"
| "expr_loop ar (Suc n) acc s =
    (case skip_whitespace s of
       [] \<Rightarrow> Some (Inr (acc, []))
     | c # rest \<Rightarrow>
         if c = CHR ''+'' then then_parse (parse_term ar n rest) (\<lambda>v. expr_loop ar n (ar_add ar acc v))
         else if c = CHR ''-'' then then_parse (parse_term ar n rest) (\<lambda>v. expr_loop ar n (ar_sub ar acc v))
         else Some (Inr (acc, c # rest)))"
| "parse_term ar 0 s = None"
| "parse_term ar (Suc n) s = then_parse (parse_factor ar n s) (term_loop ar n)"
| "term_loop ar 0 acc s = None"
| "term_loop ar (Suc n) acc s =
    (case skip_whitespace s of
       [] \<Rightarrow> Some (Inr (acc, []))
     | c # rest \<Rightarrow>
         if c = CHR ''*'' then then_parse (parse_factor ar n rest) (\<lambda>v. term_loop ar n (ar_mul ar acc v))
         else if c = CHR ''/'' then then_parse (parse_factor ar n rest)
           (\<lambda>v rest. if ar_is_zero ar v then Some (Inl ''division by zero'') else term_loop ar n (ar_div ar acc v) rest)
         else Some (Inr (acc, c # rest)))"
| "parse_factor ar 0 s = None"
| "parse_factor ar (Suc n) s =
    (case skip_whitespace s of
       [] \<Rightarrow> Some (Inl ''unexpected end of expression'')
     | c # rest \<Rightarrow>
         if c = CHR ''+'' then parse_factor ar n rest
         else if c = CHR ''-'' then then_parse (parse_factor ar n rest) (\<lambda>v rest. Some (Inr (ar_neg ar v, rest)))
         else if c = CHR ''('' then then_parse (parse_expr ar n rest) close_paren
         else if number_char c then Some (parse_number ar (c # rest))
         else Some (Inl (''unexpected character `'' @ latin1 c @ ''`'')))"

definition expr_fuel :: "string \<Rightarrow> nat" where
  "expr_fuel s = 4 * length s + 3"

definition evaluate :: "'n arithmetic \<Rightarrow> string \<Rightarrow> (string + 'n) option" where
  "evaluate ar input =
    (case parse_expr ar (expr_fuel input) input of
       None \<Rightarrow> None
     | Some (Inl e) \<Rightarrow> Some (Inl e)
     | Some (Inr (v, rest)) \<Rightarrow>
         (case skip_whitespace rest of
            [] \<Rightarrow> Some (Inr v)
          | c # after \<Rightarrow> Some (Inl (''unexpected character `'' @ latin1 c @ ''` at position '' @ dec (length input - length (c # after))))))"

section \<open>The tool\<close>

definition TOOL_NAME :: string where
  "TOOL_NAME = ''calculate''"

definition parse_expression :: "(string \<Rightarrow> string + json) \<Rightarrow> string \<Rightarrow> string + string" where
  "parse_expression parse arguments =
    (case parse arguments of
       Inl e \<Rightarrow> Inl (''arguments are not JSON: '' @ e)
     | Inr v \<Rightarrow>
         (case json_get v ''expression'' of
            Some (JStr s) \<Rightarrow> Inr s
          | Some _ \<Rightarrow> Inl ''argument `expression` must be a string''
          | None \<Rightarrow> Inl ''missing `expression` argument''))"

text \<open>\<open>None\<close> is an evaluation that ran out of fuel.\<close>

definition calculator_call ::
  "'n arithmetic \<Rightarrow> (string \<Rightarrow> string + json) \<Rightarrow> string \<Rightarrow> string \<Rightarrow> (tool_error + string) option" where
  "calculator_call ar parse tool arguments =
    (if tool \<noteq> TOOL_NAME then Some (Inl (UnknownTool tool))
     else case parse_expression parse arguments of
       Inl m \<Rightarrow> Some (Inr (''error: '' @ m))
     | Inr expr \<Rightarrow>
         (case evaluate ar expr of
            None \<Rightarrow> None
          | Some (Inl m) \<Rightarrow> Some (Inr (''error: '' @ m))
          | Some (Inr v) \<Rightarrow> Some (Inr (ar_show ar v))))"

section \<open>What is left is shorter, and the fuel is enough\<close>

lemma then_parse_simps [simp]:
  "then_parse None k = None" "then_parse (Some (Inl e)) k = Some (Inl e)" "then_parse (Some (Inr (v, rest))) k = k v rest"
  by (simp_all add: then_parse_def)

lemma then_parse_Inr:
  "then_parse r k = Some (Inr (v, rest)) \<longleftrightarrow> (\<exists>u mid. r = Some (Inr (u, mid)) \<and> k u mid = Some (Inr (v, rest)))"
  by (auto simp: then_parse_def split: option.split sum.split)

lemma skip_whitespace_length: "length (skip_whitespace s) \<le> length s"
  by (simp add: skip_whitespace_def length_dropWhile_le)

lemma skipped_cons: "skip_whitespace s = c # rest \<Longrightarrow> length rest < length s"
  using skip_whitespace_length[of s] by simp

lemma close_paren_shorter: "close_paren v s = Some (Inr (u, rest)) \<Longrightarrow> length rest < length s"
  using skip_whitespace_length[of s]
  by (auto simp: close_paren_def split: list.splits if_splits)

lemma parse_number_shorter: "number_char c \<Longrightarrow> parse_number ar (c # s) = Inr (v, rest) \<Longrightarrow> length rest < length (c # s)"
  using length_dropWhile_le[of number_char s] by (auto simp: parse_number_def Let_def split: option.splits)

declare parse_expr.simps [simp del] expr_loop.simps [simp del] parse_term.simps [simp del] term_loop.simps [simp del]
  parse_factor.simps [simp del]

lemma rest_shorter_all:
  "(\<forall>s v rest. parse_expr ar n s = Some (Inr (v, rest)) \<longrightarrow> length rest < length s) \<and>
   (\<forall>x s v rest. expr_loop ar n x s = Some (Inr (v, rest)) \<longrightarrow> length rest \<le> length s) \<and>
   (\<forall>s v rest. parse_term ar n s = Some (Inr (v, rest)) \<longrightarrow> length rest < length s) \<and>
   (\<forall>x s v rest. term_loop ar n x s = Some (Inr (v, rest)) \<longrightarrow> length rest \<le> length s) \<and>
   (\<forall>s v rest. parse_factor ar n s = Some (Inr (v, rest)) \<longrightarrow> length rest < length s)"
proof (induction n)
  case (Suc n)
  then have E: "parse_expr ar n s = Some (Inr (v, rest)) \<Longrightarrow> length rest < length s"
    and L: "expr_loop ar n x s = Some (Inr (v, rest)) \<Longrightarrow> length rest \<le> length s"
    and T: "parse_term ar n s = Some (Inr (v, rest)) \<Longrightarrow> length rest < length s"
    and M: "term_loop ar n x s = Some (Inr (v, rest)) \<Longrightarrow> length rest \<le> length s"
    and F: "parse_factor ar n s = Some (Inr (v, rest)) \<Longrightarrow> length rest < length s" for s x v rest
    by blast+
  have TL: "then_parse (parse_term ar n s) (\<lambda>u. expr_loop ar n (f u)) = Some (Inr (v, rest)) \<Longrightarrow> length rest < length s" for f s v rest
    by (auto simp: then_parse_Inr dest!: T L)
  have FM: "then_parse (parse_factor ar n s) (\<lambda>u. term_loop ar n (f u)) = Some (Inr (v, rest)) \<Longrightarrow> length rest < length s" for f s v rest
    by (auto simp: then_parse_Inr dest!: F M)
  have FD: "then_parse (parse_factor ar n s) (\<lambda>u mid. if z u then Some (Inl e) else term_loop ar n (f u) mid) = Some (Inr (v, rest))
      \<Longrightarrow> length rest < length s" for z e f s v rest
    by (auto simp: then_parse_Inr split: if_splits dest!: F M)
  have FN: "then_parse (parse_factor ar n s) (\<lambda>u mid. Some (Inr (f u, mid))) = Some (Inr (v, rest)) \<Longrightarrow> length rest < length s" for f s v rest
    by (auto simp: then_parse_Inr dest!: F)
  have EP: "then_parse (parse_expr ar n s) close_paren = Some (Inr (v, rest)) \<Longrightarrow> length rest < length s" for s v rest
    by (auto simp: then_parse_Inr dest!: E close_paren_shorter)
  have 1: "parse_expr ar (Suc n) s = Some (Inr (v, rest)) \<Longrightarrow> length rest < length s" for s v rest
    using TL[of s "\<lambda>u. u"] by (simp add: parse_expr.simps)
  have 2: "expr_loop ar (Suc n) x s = Some (Inr (v, rest)) \<Longrightarrow> length rest \<le> length s" for x s v rest
    using skip_whitespace_length[of s]
    by (cases "skip_whitespace s") (auto simp: expr_loop.simps skip_whitespace_length split: if_splits dest!: TL)
  have 3: "parse_term ar (Suc n) s = Some (Inr (v, rest)) \<Longrightarrow> length rest < length s" for s v rest
    using FM[of s "\<lambda>u. u"] by (simp add: parse_term.simps)
  have 4: "term_loop ar (Suc n) x s = Some (Inr (v, rest)) \<Longrightarrow> length rest \<le> length s" for x s v rest
    using skip_whitespace_length[of s]
    by (cases "skip_whitespace s") (auto simp: term_loop.simps skip_whitespace_length split: if_splits dest!: FM FD)
  have 5: "parse_factor ar (Suc n) s = Some (Inr (v, rest)) \<Longrightarrow> length rest < length s" for s v rest
    using skip_whitespace_length[of s]
    by (cases "skip_whitespace s") (auto simp: parse_factor.simps split: if_splits dest!: F FN EP parse_number_shorter)
  show ?case using 1 2 3 4 5 by blast
qed (simp add: parse_expr.simps expr_loop.simps parse_term.simps term_loop.simps parse_factor.simps)

lemma rest_shorter:
  "parse_term ar n s = Some (Inr (v, rest)) \<Longrightarrow> length rest < length s"
  "parse_factor ar n s = Some (Inr (v, rest)) \<Longrightarrow> length rest < length s"
  using rest_shorter_all[of ar n] by blast+

lemma then_parse_total:
  "r \<noteq> None \<Longrightarrow> (\<And>u mid. r = Some (Inr (u, mid)) \<Longrightarrow> k u mid \<noteq> None) \<Longrightarrow> then_parse r k \<noteq> None"
  by (auto simp: then_parse_def split: option.split sum.split)

lemma enough_fuel:
  "(\<forall>s. 4 * length s + 3 \<le> n \<longrightarrow> parse_expr ar n s \<noteq> None) \<and>
   (\<forall>x s. 4 * length s + 1 \<le> n \<longrightarrow> expr_loop ar n x s \<noteq> None) \<and>
   (\<forall>s. 4 * length s + 2 \<le> n \<longrightarrow> parse_term ar n s \<noteq> None) \<and>
   (\<forall>x s. 4 * length s + 1 \<le> n \<longrightarrow> term_loop ar n x s \<noteq> None) \<and>
   (\<forall>s. 4 * length s + 1 \<le> n \<longrightarrow> parse_factor ar n s \<noteq> None)"
proof (induction n)
  case (Suc n)
  then have E: "4 * length s + 3 \<le> n \<Longrightarrow> parse_expr ar n s \<noteq> None"
    and L: "4 * length s + 1 \<le> n \<Longrightarrow> expr_loop ar n x s \<noteq> None"
    and T: "4 * length s + 2 \<le> n \<Longrightarrow> parse_term ar n s \<noteq> None"
    and M: "4 * length s + 1 \<le> n \<Longrightarrow> term_loop ar n x s \<noteq> None"
    and F: "4 * length s + 1 \<le> n \<Longrightarrow> parse_factor ar n s \<noteq> None" for s x
    by blast+
  have TL: "then_parse (parse_term ar n s) (\<lambda>u. expr_loop ar n (f u)) \<noteq> None" if "4 * length s + 2 \<le> n" for f s
  proof (rule then_parse_total[OF T[OF that]])
    fix u mid assume "parse_term ar n s = Some (Inr (u, mid))"
    then show "expr_loop ar n (f u) mid \<noteq> None" using rest_shorter(1) that by (intro L) fastforce
  qed
  have loop: "term_loop ar n x mid \<noteq> None" if "4 * length s + 1 \<le> n" "parse_factor ar n s = Some (Inr (u, mid))" for x s u mid
    using rest_shorter(2)[OF that(2)] that(1) by (intro M) simp
  have FM: "then_parse (parse_factor ar n s) (\<lambda>u. term_loop ar n (f u)) \<noteq> None" if "4 * length s + 1 \<le> n" for f s
    by (rule then_parse_total[OF F[OF that]]) (rule loop[OF that])
  have FD: "then_parse (parse_factor ar n s) (\<lambda>u mid. if z u then Some (Inl e) else term_loop ar n (f u) mid) \<noteq> None"
    if "4 * length s + 1 \<le> n" for z e f s
    by (rule then_parse_total[OF F[OF that]]) (use loop[OF that] in simp)
  have FN: "then_parse (parse_factor ar n s) (\<lambda>u mid. Some (Inr (f u, mid))) \<noteq> None" if "4 * length s + 1 \<le> n" for f s
    by (rule then_parse_total[OF F[OF that]]) simp
  have EP: "then_parse (parse_expr ar n s) close_paren \<noteq> None" if "4 * length s + 3 \<le> n" for s
    by (rule then_parse_total[OF E[OF that]]) (simp add: close_paren_def split: list.split)
  have 1: "4 * length s + 3 \<le> Suc n \<Longrightarrow> parse_expr ar (Suc n) s \<noteq> None" for s
    using TL[of s "\<lambda>u. u"] by (simp add: parse_expr.simps)
  have 2: "4 * length s + 1 \<le> Suc n \<Longrightarrow> expr_loop ar (Suc n) x s \<noteq> None" for x s
    using TL skip_whitespace_length[of s] by (cases "skip_whitespace s") (simp_all add: expr_loop.simps del: not_None_eq)
  have 3: "4 * length s + 2 \<le> Suc n \<Longrightarrow> parse_term ar (Suc n) s \<noteq> None" for s
    using FM[of s "\<lambda>u. u"] by (simp add: parse_term.simps)
  have 4: "4 * length s + 1 \<le> Suc n \<Longrightarrow> term_loop ar (Suc n) x s \<noteq> None" for x s
    using FM FD skip_whitespace_length[of s] by (cases "skip_whitespace s") (simp_all add: term_loop.simps del: not_None_eq)
  have 5: "4 * length s + 1 \<le> Suc n \<Longrightarrow> parse_factor ar (Suc n) s \<noteq> None" for s
    using F FN EP skip_whitespace_length[of s] by (cases "skip_whitespace s") (simp_all add: parse_factor.simps del: not_None_eq)
  show ?case using 1 2 3 4 5 by blast
qed simp

lemma parse_expr_total: "parse_expr ar (expr_fuel s) s \<noteq> None"
  using enough_fuel[of "expr_fuel s" ar] by (simp add: expr_fuel_def)

section \<open>More fuel changes nothing\<close>

definition stays :: "'a option \<Rightarrow> 'a option \<Rightarrow> bool" where
  "stays a b \<longleftrightarrow> a = None \<or> a = b"

lemma stays_refl [simp]: "stays a a" "stays None a"
  by (simp_all add: stays_def)

lemma stays_then: "stays r r' \<Longrightarrow> (\<And>v rest. stays (k v rest) (k' v rest)) \<Longrightarrow> stays (then_parse r k) (then_parse r' k')"
  by (auto simp: stays_def then_parse_def split: option.split sum.split)

lemma one_more_all:
  "(\<forall>s. stays (parse_expr ar n s) (parse_expr ar (Suc n) s)) \<and>
   (\<forall>x s. stays (expr_loop ar n x s) (expr_loop ar (Suc n) x s)) \<and>
   (\<forall>s. stays (parse_term ar n s) (parse_term ar (Suc n) s)) \<and>
   (\<forall>x s. stays (term_loop ar n x s) (term_loop ar (Suc n) x s)) \<and>
   (\<forall>s. stays (parse_factor ar n s) (parse_factor ar (Suc n) s))"
proof (induction n)
  case (Suc n)
  then have E: "stays (parse_expr ar n s) (parse_expr ar (Suc n) s)"
    and L: "stays (expr_loop ar n x s) (expr_loop ar (Suc n) x s)"
    and T: "stays (parse_term ar n s) (parse_term ar (Suc n) s)"
    and M: "stays (term_loop ar n x s) (term_loop ar (Suc n) x s)"
    and F: "stays (parse_factor ar n s) (parse_factor ar (Suc n) s)" for s x
    by blast+
  have TL: "stays (then_parse (parse_term ar n s) (\<lambda>u. expr_loop ar n (f u)))
      (then_parse (parse_term ar (Suc n) s) (\<lambda>u. expr_loop ar (Suc n) (f u)))" for f s
    by (rule stays_then[OF T L])
  have FM: "stays (then_parse (parse_factor ar n s) (\<lambda>u. term_loop ar n (f u)))
      (then_parse (parse_factor ar (Suc n) s) (\<lambda>u. term_loop ar (Suc n) (f u)))" for f s
    by (rule stays_then[OF F M])
  have FD: "stays (then_parse (parse_factor ar n s) (\<lambda>u mid. if z u then Some (Inl e) else term_loop ar n (f u) mid))
      (then_parse (parse_factor ar (Suc n) s) (\<lambda>u mid. if z u then Some (Inl e) else term_loop ar (Suc n) (f u) mid))" for z e f s
    by (rule stays_then[OF F]) (simp add: M)
  have FN: "stays (then_parse (parse_factor ar n s) (\<lambda>u mid. Some (Inr (f u, mid))))
      (then_parse (parse_factor ar (Suc n) s) (\<lambda>u mid. Some (Inr (f u, mid))))" for f s
    by (rule stays_then[OF F]) simp
  have EP: "stays (then_parse (parse_expr ar n s) close_paren) (then_parse (parse_expr ar (Suc n) s) close_paren)" for s
    by (rule stays_then[OF E]) simp
  have 1: "stays (parse_expr ar (Suc n) s) (parse_expr ar (Suc (Suc n)) s)" for s
    using TL[of s "\<lambda>u. u"] by (simp add: parse_expr.simps(2))
  have 2: "stays (expr_loop ar (Suc n) x s) (expr_loop ar (Suc (Suc n)) x s)" for x s
    using TL by (cases "skip_whitespace s") (simp_all add: expr_loop.simps(2))
  have 3: "stays (parse_term ar (Suc n) s) (parse_term ar (Suc (Suc n)) s)" for s
    using FM[of s "\<lambda>u. u"] by (simp add: parse_term.simps(2))
  have 4: "stays (term_loop ar (Suc n) x s) (term_loop ar (Suc (Suc n)) x s)" for x s
    using FM FD by (cases "skip_whitespace s") (simp_all add: term_loop.simps(2))
  have 5: "stays (parse_factor ar (Suc n) s) (parse_factor ar (Suc (Suc n)) s)" for s
    using F FN EP by (cases "skip_whitespace s") (simp_all add: parse_factor.simps(2))
  show ?case using 1 2 3 4 5 by blast
qed (simp add: parse_expr.simps(1) expr_loop.simps(1) parse_term.simps(1) term_loop.simps(1) parse_factor.simps(1))

lemma one_more:
  "stays (parse_expr ar n s) (parse_expr ar (Suc n) s)"
  "stays (expr_loop ar n x s) (expr_loop ar (Suc n) x s)"
  "stays (parse_term ar n s) (parse_term ar (Suc n) s)"
  "stays (term_loop ar n x s) (term_loop ar (Suc n) x s)"
  "stays (parse_factor ar n s) (parse_factor ar (Suc n) s)"
  using one_more_all[of ar n] by blast+

lemma more_fuel:
  assumes "\<And>n. stays (f n) (f (Suc n))" "f n = Some r" "n \<le> m"
  shows "f m = Some r"
  using assms(3,2)
proof (induction m rule: dec_induct)
  case (step m)
  with assms(1)[of m] show ?case by (simp add: stays_def)
qed

text \<open>What a parse gives with enough fuel.\<close>

definition gives :: "(nat \<Rightarrow> 'n parsed) \<Rightarrow> string + 'n \<times> string \<Rightarrow> bool" where
  "gives f r \<longleftrightarrow> (\<exists>n. f n = Some r)"

lemma gives_then:
  assumes "\<And>n. stays (f n) (f (Suc n))" "\<And>n. stays (k n v mid) (k (Suc n) v mid)"
    "gives f (Inr (v, mid))" "gives (\<lambda>n. k n v mid) r"
  shows "gives (\<lambda>n. then_parse (f n) (k n)) r"
proof -
  obtain n m where n: "f n = Some (Inr (v, mid))" and m: "k m v mid = Some r" using assms(3,4) by (auto simp: gives_def)
  have "f (max n m) = Some (Inr (v, mid))" by (rule more_fuel[OF assms(1) n]) simp
  moreover have "k (max n m) v mid = Some r" by (rule more_fuel[where f = "\<lambda>n. k n v mid", OF assms(2) m]) simp
  ultimately have "then_parse (f (max n m)) (k (max n m)) = Some r" by simp
  then show ?thesis unfolding gives_def by blast
qed

lemma gives_then_error: "gives f (Inl e) \<Longrightarrow> gives (\<lambda>n. then_parse (f n) (k n)) (Inl e)"
proof -
  assume "gives f (Inl e)"
  then obtain n where "f n = Some (Inl e)" by (auto simp: gives_def)
  then have "then_parse (f n) (k n) = Some (Inl e)" by simp
  then show ?thesis unfolding gives_def by blast
qed

lemma gives_through: "gives f r \<Longrightarrow> then_parse (Some r) k = Some r' \<Longrightarrow> gives (\<lambda>n. then_parse (f n) k) r'"
proof -
  assume "gives f r" and k: "then_parse (Some r) k = Some r'"
  then obtain n where "f n = Some r" by (auto simp: gives_def)
  with k have "then_parse (f n) k = Some r'" by simp
  then show ?thesis unfolding gives_def by blast
qed

lemma gives_Suc: "gives (\<lambda>n. f (Suc n)) r \<Longrightarrow> gives f r"
  by (auto simp: gives_def)

lemma gives_const [simp]: "gives (\<lambda>n. Some r) r"
  by (simp add: gives_def)

section \<open>Expressions and their text\<close>

datatype expression =
    Num string
  | Negated expression
  | Sum expression expression
  | Difference expression expression
  | Product expression expression
  | Quotient expression expression

text \<open>Numbers are non-empty runs of digits and points; which of them are numbers, the reader decides.\<close>

fun tokens_ok :: "expression \<Rightarrow> bool" where
  "tokens_ok (Num t) = (t \<noteq> [] \<and> list_all number_char t)"
| "tokens_ok (Negated a) = tokens_ok a"
| "tokens_ok (Sum a b) = (tokens_ok a \<and> tokens_ok b)"
| "tokens_ok (Difference a b) = (tokens_ok a \<and> tokens_ok b)"
| "tokens_ok (Product a b) = (tokens_ok a \<and> tokens_ok b)"
| "tokens_ok (Quotient a b) = (tokens_ok a \<and> tokens_ok b)"

text \<open>The text with as few parentheses as the level (0 sums, 1 products, 2 signs) allows, \<open>sp\<close> before every token.\<close>

definition in_parens :: "string \<Rightarrow> bool \<Rightarrow> string \<Rightarrow> string" where
  "in_parens sp b t = (if b then sp @ ''('' @ t @ sp @ '')'' else t)"

fun text_at :: "string \<Rightarrow> nat \<Rightarrow> expression \<Rightarrow> string" where
  "text_at sp l (Num t) = sp @ t"
| "text_at sp l (Negated a) = sp @ ''-'' @ text_at sp 2 a"
| "text_at sp l (Sum a b) = in_parens sp (0 < l) (text_at sp 0 a @ sp @ ''+'' @ text_at sp 1 b)"
| "text_at sp l (Difference a b) = in_parens sp (0 < l) (text_at sp 0 a @ sp @ ''-'' @ text_at sp 1 b)"
| "text_at sp l (Product a b) = in_parens sp (1 < l) (text_at sp 1 a @ sp @ ''*'' @ text_at sp 2 b)"
| "text_at sp l (Quotient a b) = in_parens sp (1 < l) (text_at sp 1 a @ sp @ ''/'' @ text_at sp 2 b)"

text \<open>The value, from left to right; the first error wins.\<close>

fun both :: "('n \<Rightarrow> 'n \<Rightarrow> string + 'n) \<Rightarrow> string + 'n \<Rightarrow> string + 'n \<Rightarrow> string + 'n" where
  "both f (Inl e) _ = Inl e"
| "both f (Inr _) (Inl e) = Inl e"
| "both f (Inr x) (Inr y) = f x y"

fun expression_value :: "'n arithmetic \<Rightarrow> expression \<Rightarrow> string + 'n" where
  "expression_value ar (Num t) = (case ar_read ar t of Some v \<Rightarrow> Inr v | None \<Rightarrow> Inl (''invalid number `'' @ t @ ''`''))"
| "expression_value ar (Negated a) = map_sum id (ar_neg ar) (expression_value ar a)"
| "expression_value ar (Sum a b) = both (\<lambda>x y. Inr (ar_add ar x y)) (expression_value ar a) (expression_value ar b)"
| "expression_value ar (Difference a b) = both (\<lambda>x y. Inr (ar_sub ar x y)) (expression_value ar a) (expression_value ar b)"
| "expression_value ar (Product a b) = both (\<lambda>x y. Inr (ar_mul ar x y)) (expression_value ar a) (expression_value ar b)"
| "expression_value ar (Quotient a b) =
    both (\<lambda>x y. if ar_is_zero ar y then Inl ''division by zero'' else Inr (ar_div ar x y)) (expression_value ar a) (expression_value ar b)"

section \<open>Reading them back\<close>

abbreviation "no_factor_char s \<equiv> (case s of [] \<Rightarrow> True | c # _ \<Rightarrow> \<not> number_char c)"

definition no_product :: "string \<Rightarrow> bool" where
  "no_product s \<longleftrightarrow> (case skip_whitespace s of [] \<Rightarrow> True | c # _ \<Rightarrow> c \<noteq> CHR ''*'' \<and> c \<noteq> CHR ''/'')"

text \<open>A value followed by what comes next.\<close>

definition continued :: "string + 'n \<Rightarrow> ('n \<Rightarrow> string + 'n \<times> string \<Rightarrow> bool) \<Rightarrow> string + 'n \<times> string \<Rightarrow> bool" where
  "continued x next r \<longleftrightarrow> (case x of Inl e \<Rightarrow> r = Inl e | Inr v \<Rightarrow> next v r)"

definition answer :: "string + 'n \<Rightarrow> string \<Rightarrow> string + 'n \<times> string" where
  "answer x rest = (case x of Inl e \<Rightarrow> Inl e | Inr v \<Rightarrow> Inr (v, rest))"

definition reads_factor :: "'n arithmetic \<Rightarrow> string \<Rightarrow> expression \<Rightarrow> bool" where
  "reads_factor ar sp e \<longleftrightarrow>
    (\<forall>k. no_factor_char k \<longrightarrow> gives (\<lambda>n. parse_factor ar n (text_at sp 2 e @ k)) (answer (expression_value ar e) k))"

definition reads_term :: "'n arithmetic \<Rightarrow> string \<Rightarrow> expression \<Rightarrow> bool" where
  "reads_term ar sp e \<longleftrightarrow>
    (\<forall>k r. no_factor_char k \<longrightarrow> continued (expression_value ar e) (\<lambda>v. gives (\<lambda>n. term_loop ar n v k)) r \<longrightarrow>
      gives (\<lambda>n. parse_term ar n (text_at sp 1 e @ k)) r)"

definition reads_expr :: "'n arithmetic \<Rightarrow> string \<Rightarrow> expression \<Rightarrow> bool" where
  "reads_expr ar sp e \<longleftrightarrow>
    (\<forall>k r. no_factor_char k \<longrightarrow> no_product k \<longrightarrow> continued (expression_value ar e) (\<lambda>v. gives (\<lambda>n. expr_loop ar n v k)) r \<longrightarrow>
      gives (\<lambda>n. parse_expr ar n (text_at sp 0 e @ k)) r)"

lemma skip_blanks:
  "list_all is_ascii_whitespace sp \<Longrightarrow> \<not> is_ascii_whitespace c \<Longrightarrow> skip_whitespace (sp @ c # s) = c # s"
  by (induction sp) (simp_all add: skip_whitespace_def)

lemma skip_twice [simp]: "skip_whitespace (skip_whitespace s) = skip_whitespace s"
  by (induction s) (simp_all add: skip_whitespace_def)

lemma blank_no_number: "is_ascii_whitespace c \<Longrightarrow> \<not> number_char c"
  by (auto simp: is_ascii_whitespace_def number_char_def)

lemma after_blanks: "list_all is_ascii_whitespace sp \<Longrightarrow> \<not> number_char c \<Longrightarrow> no_factor_char (sp @ c # s)"
  by (cases sp) (simp_all add: blank_no_number)

lemma loops_skip: "expr_loop ar n v (skip_whitespace s) = expr_loop ar n v s"
  by (cases n) (simp_all add: expr_loop.simps)

lemma term_loop_stops: "no_product s \<Longrightarrow> gives (\<lambda>n. term_loop ar n v s) (Inr (v, skip_whitespace s))"
  by (rule gives_Suc) (simp add: term_loop.simps no_product_def split: list.splits)

lemma term_of_factor:
  assumes "reads_factor ar sp e" "text_at sp 1 e = text_at sp 2 e"
  shows "reads_term ar sp e"
  unfolding reads_term_def
proof (intro allI impI)
  fix k r
  assume k: "no_factor_char k" and r: "continued (expression_value ar e) (\<lambda>v. gives (\<lambda>n. term_loop ar n v k)) r"
  have f: "gives (\<lambda>n. parse_factor ar n (text_at sp 2 e @ k)) (answer (expression_value ar e) k)"
    using assms(1) k by (simp add: reads_factor_def)
  show "gives (\<lambda>n. parse_term ar n (text_at sp 1 e @ k)) r"
  proof (rule gives_Suc, unfold parse_term.simps(2) assms(2), cases "expression_value ar e")
    case (Inl m)
    then show "gives (\<lambda>n. then_parse (parse_factor ar n (text_at sp 2 e @ k)) (term_loop ar n)) r"
      using f r gives_then_error by (simp add: answer_def continued_def)
  next
    case (Inr v)
    then show "gives (\<lambda>n. then_parse (parse_factor ar n (text_at sp 2 e @ k)) (term_loop ar n)) r"
      using f r by (intro gives_then[where v = v and mid = k]) (simp_all only: one_more, simp_all add: answer_def continued_def)
  qed
qed

lemma expr_then:
  assumes "reads_term ar sp e" "no_factor_char k" "no_product k"
    and "continued (expression_value ar e) (\<lambda>v. gives (\<lambda>n. expr_loop ar n (f v) k)) r"
  shows "gives (\<lambda>n. then_parse (parse_term ar n (text_at sp 1 e @ k)) (\<lambda>v. expr_loop ar n (f v))) r"
proof -
  have t: "continued (expression_value ar e) (\<lambda>v. gives (\<lambda>n. term_loop ar n v k)) r' \<Longrightarrow>
      gives (\<lambda>n. parse_term ar n (text_at sp 1 e @ k)) r'" for r'
    using assms(1,2) by (simp add: reads_term_def)
  show ?thesis
  proof (cases "expression_value ar e")
    case (Inl m)
    with t[of "Inl m"] assms(4) show ?thesis using gives_then_error by (simp add: continued_def)
  next
    case (Inr v)
    have "gives (\<lambda>n. parse_term ar n (text_at sp 1 e @ k)) (Inr (v, skip_whitespace k))"
      by (rule t) (simp add: Inr continued_def term_loop_stops[OF assms(3)])
    then show ?thesis using assms(4)
      by (intro gives_then[where v = v and mid = "skip_whitespace k"])
        (simp_all only: one_more, simp_all add: Inr continued_def loops_skip)
  qed
qed

lemma expr_of_term:
  assumes "reads_term ar sp e" "text_at sp 0 e = text_at sp 1 e"
  shows "reads_expr ar sp e"
  unfolding reads_expr_def
proof (intro allI impI)
  fix k r
  assume "no_factor_char k" "no_product k" "continued (expression_value ar e) (\<lambda>v. gives (\<lambda>n. expr_loop ar n v k)) r"
  from expr_then[OF assms(1) this]
  show "gives (\<lambda>n. parse_expr ar n (text_at sp 0 e @ k)) r"
    by - (rule gives_Suc, simp only: parse_expr.simps assms(2))
qed

lemma expr_of_sum:
  assumes "reads_expr ar sp a" "reads_term ar sp b" "list_all is_ascii_whitespace sp"
    and "c = CHR ''+'' \<and> f = ar_add ar \<or> c = CHR ''-'' \<and> f = ar_sub ar"
    and "expression_value ar e = both (\<lambda>x y. Inr (f x y)) (expression_value ar a) (expression_value ar b)"
    and "text_at sp 0 e = text_at sp 0 a @ sp @ c # text_at sp 1 b"
  shows "reads_expr ar sp e"
  unfolding reads_expr_def
proof (intro allI impI)
  fix k r
  assume k: "no_factor_char k" "no_product k" and r: "continued (expression_value ar e) (\<lambda>v. gives (\<lambda>n. expr_loop ar n v k)) r"
  let ?k = "sp @ c # (text_at sp 1 b @ k)"
  have c: "\<not> number_char c" "\<not> is_ascii_whitespace c" "c \<noteq> CHR ''*''" "c \<noteq> CHR ''/''"
    using assms(4) by (auto simp: number_char_def is_ascii_whitespace_def)
  have "gives (\<lambda>n. expr_loop ar n x ?k) r" if x: "expression_value ar a = Inr x" for x
  proof (rule gives_Suc)
    have "continued (expression_value ar b) (\<lambda>v. gives (\<lambda>n. expr_loop ar n (f x v) k)) r"
      using r x by (cases "expression_value ar b") (simp_all add: assms(5) continued_def)
    from expr_then[OF assms(2) k this]
    have "gives (\<lambda>n. then_parse (parse_term ar n (text_at sp 1 b @ k)) (\<lambda>v. expr_loop ar n (f x v))) r" .
    moreover have "expr_loop ar (Suc n) x ?k = then_parse (parse_term ar n (text_at sp 1 b @ k)) (\<lambda>v. expr_loop ar n (f x v))" for n
      using assms(4) by (auto simp: expr_loop.simps skip_blanks[OF assms(3) c(2)])
    ultimately show "gives (\<lambda>n. expr_loop ar (Suc n) x ?k) r" by simp
  qed
  moreover have "r = Inl m" if "expression_value ar a = Inl m" for m using r that by (simp add: assms(5) continued_def)
  ultimately have "continued (expression_value ar a) (\<lambda>v. gives (\<lambda>n. expr_loop ar n v ?k)) r"
    by (simp add: continued_def split: sum.split)
  moreover have "no_factor_char ?k" "no_product ?k"
    using after_blanks[OF assms(3) c(1)] c skip_blanks[OF assms(3) c(2)] by (simp_all add: no_product_def)
  ultimately show "gives (\<lambda>n. parse_expr ar n (text_at sp 0 e @ k)) r"
    using assms(1) by (simp add: reads_expr_def assms(6))
qed

lemma term_of_product:
  assumes "reads_term ar sp a" "reads_factor ar sp b" "list_all is_ascii_whitespace sp"
    and "c = CHR ''*'' \<and> g = (\<lambda>x y. Inr (ar_mul ar x y)) \<or>
      c = CHR ''/'' \<and> g = (\<lambda>x y. if ar_is_zero ar y then Inl ''division by zero'' else Inr (ar_div ar x y))"
    and "expression_value ar e = both g (expression_value ar a) (expression_value ar b)"
    and "text_at sp 1 e = text_at sp 1 a @ sp @ c # text_at sp 2 b"
  shows "reads_term ar sp e"
  unfolding reads_term_def
proof (intro allI impI)
  fix k r
  assume k: "no_factor_char k" and r: "continued (expression_value ar e) (\<lambda>v. gives (\<lambda>n. term_loop ar n v k)) r"
  let ?k = "sp @ c # (text_at sp 2 b @ k)"
  let ?next = "\<lambda>x n v rest. case g x v of Inl m \<Rightarrow> Some (Inl m) | Inr y \<Rightarrow> term_loop ar n y rest"
  have c: "\<not> number_char c" "\<not> is_ascii_whitespace c" using assms(4) by (auto simp: number_char_def is_ascii_whitespace_def)
  have f: "gives (\<lambda>n. parse_factor ar n (text_at sp 2 b @ k)) (answer (expression_value ar b) k)"
    using assms(2) k by (simp add: reads_factor_def)
  have "gives (\<lambda>n. term_loop ar n x ?k) r" if x: "expression_value ar a = Inr x" for x
  proof (rule gives_Suc)
    have "gives (\<lambda>n. then_parse (parse_factor ar n (text_at sp 2 b @ k)) (?next x n)) r"
    proof (cases "expression_value ar b")
      case (Inl m)
      then show ?thesis using f r x gives_then_error by (simp add: assms(5) answer_def continued_def)
    next
      case (Inr y)
      have "stays (?next x n y k) (?next x (Suc n) y k)" for n by (cases "g x y") (simp_all add: one_more)
      moreover have "gives (\<lambda>n. ?next x n y k) r" using r by (cases "g x y") (simp_all add: x Inr assms(5) continued_def)
      ultimately show ?thesis using f by (intro gives_then[where v = y and mid = k]) (simp_all only: one_more Inr answer_def sum.case)
    qed
    moreover have "term_loop ar (Suc n) x ?k = then_parse (parse_factor ar n (text_at sp 2 b @ k)) (?next x n)" for n
      using assms(4) by (auto simp: term_loop.simps skip_blanks[OF assms(3) c(2)] intro!: arg_cong[where f = "then_parse _"])
    ultimately show "gives (\<lambda>n. term_loop ar (Suc n) x ?k) r" by simp
  qed
  moreover have "r = Inl m" if "expression_value ar a = Inl m" for m using r that by (simp add: assms(5) continued_def)
  ultimately have "continued (expression_value ar a) (\<lambda>v. gives (\<lambda>n. term_loop ar n v ?k)) r"
    by (simp add: continued_def split: sum.split)
  then have "gives (\<lambda>n. parse_term ar n (text_at sp 1 a @ ?k)) r"
    using assms(1) after_blanks[OF assms(3) c(1)] by (simp add: reads_term_def)
  then show "gives (\<lambda>n. parse_term ar n (text_at sp 1 e @ k)) r" by (simp only: assms(6) append_assoc append_Cons)
qed

lemma factor_of_expr:
  assumes "reads_expr ar sp e" "list_all is_ascii_whitespace sp" "text_at sp 2 e = sp @ ''('' @ text_at sp 0 e @ sp @ '')''"
  shows "reads_factor ar sp e"
  unfolding reads_factor_def
proof (intro allI impI)
  fix k
  let ?k = "sp @ CHR '')'' # k"
  have p: "\<not> number_char (CHR '')'')" "\<not> is_ascii_whitespace (CHR '')'')" "\<not> is_ascii_whitespace (CHR ''('')"
    by (simp_all add: number_char_def is_ascii_whitespace_def)
  have loop: "gives (\<lambda>n. expr_loop ar n v ?k) (Inr (v, CHR '')'' # k))" for v
    by (rule gives_Suc) (simp add: expr_loop.simps skip_blanks[OF assms(2) p(2)])
  have "gives (\<lambda>n. parse_expr ar n (text_at sp 0 e @ ?k)) (answer (expression_value ar e) (CHR '')'' # k))"
    using assms(1) after_blanks[OF assms(2) p(1)] skip_blanks[OF assms(2) p(2)] loop
    by (simp add: reads_expr_def no_product_def continued_def answer_def split: sum.split)
  moreover have "close_paren v (CHR '')'' # k) = Some (Inr (v, k))" for v
    using skip_blanks[of "[]" "CHR '')''" k] p(2) by (simp add: close_paren_def)
  ultimately have "gives (\<lambda>n. then_parse (parse_expr ar n (text_at sp 0 e @ ?k)) close_paren) (answer (expression_value ar e) k)"
    by (elim gives_through) (auto simp: answer_def split: sum.split)
  moreover have "parse_factor ar (Suc n) (text_at sp 2 e @ k) = then_parse (parse_expr ar n (text_at sp 0 e @ ?k)) close_paren" for n
    by (simp add: parse_factor.simps assms(3) skip_blanks[OF assms(2) p(3)])
  ultimately show "gives (\<lambda>n. parse_factor ar n (text_at sp 2 e @ k)) (answer (expression_value ar e) k)"
    by - (rule gives_Suc, simp)
qed

lemma factor_of_sign:
  assumes "reads_factor ar sp a" "list_all is_ascii_whitespace sp"
  shows "reads_factor ar sp (Negated a)"
  unfolding reads_factor_def
proof (intro allI impI)
  fix k :: string
  assume k: "no_factor_char k"
  have p: "\<not> is_ascii_whitespace (CHR ''-'')" by (simp add: is_ascii_whitespace_def)
  have "gives (\<lambda>n. parse_factor ar n (text_at sp 2 a @ k)) (answer (expression_value ar a) k)"
    using assms(1) k by (simp add: reads_factor_def)
  then have "gives (\<lambda>n. then_parse (parse_factor ar n (text_at sp 2 a @ k)) (\<lambda>v rest. Some (Inr (ar_neg ar v, rest))))
      (answer (expression_value ar (Negated a)) k)"
    by (rule gives_through) (simp add: answer_def split: sum.split)
  moreover have "parse_factor ar (Suc n) (text_at sp 2 (Negated a) @ k) =
      then_parse (parse_factor ar n (text_at sp 2 a @ k)) (\<lambda>v rest. Some (Inr (ar_neg ar v, rest)))" for n
    by (simp add: parse_factor.simps skip_blanks[OF assms(2) p])
  ultimately show "gives (\<lambda>n. parse_factor ar n (text_at sp 2 (Negated a) @ k)) (answer (expression_value ar (Negated a)) k)"
    by - (rule gives_Suc, simp)
qed

lemma factor_of_number:
  assumes "tokens_ok (Num t)" "list_all is_ascii_whitespace sp"
  shows "reads_factor ar sp (Num t)"
  unfolding reads_factor_def
proof (intro allI impI)
  fix k :: string
  assume k: "no_factor_char k"
  obtain c cs where t: "t = c # cs" "number_char c" using assms(1) by (cases t) auto
  then have nb: "\<not> is_ascii_whitespace c" using blank_no_number by blast
  have all: "\<forall>x \<in> set t. number_char x" using assms(1) by (simp add: list_all_iff)
  have "takeWhile number_char (t @ k) = t" "dropWhile number_char (t @ k) = k"
    using all k by (cases k; simp add: takeWhile_append dropWhile_append)+
  then have "parse_number ar (t @ k) = answer (expression_value ar (Num t)) k"
    by (simp add: parse_number_def answer_def split: option.split)
  moreover have "c \<noteq> CHR ''+''" "c \<noteq> CHR ''-''" "c \<noteq> CHR ''(''" using t(2) by (auto simp: number_char_def)
  ultimately have "parse_factor ar (Suc n) (text_at sp 2 (Num t) @ k) = Some (answer (expression_value ar (Num t)) k)" for n
    using t by (simp add: parse_factor.simps skip_blanks[OF assms(2) nb] del: expression_value.simps)
  then show "gives (\<lambda>n. parse_factor ar n (text_at sp 2 (Num t) @ k)) (answer (expression_value ar (Num t)) k)"
    by - (rule gives_Suc, simp del: text_at.simps expression_value.simps)
qed

lemma reads_back:
  assumes "list_all is_ascii_whitespace sp" "tokens_ok e"
  shows "reads_factor ar sp e \<and> reads_term ar sp e \<and> reads_expr ar sp e"
  using assms(2)
proof (induction e)
  case (Num t)
  then have "reads_factor ar sp (Num t)" using factor_of_number assms(1) by blast
  then show ?case using term_of_factor[of ar sp "Num t"] expr_of_term[of ar sp "Num t"] by simp
next
  case (Negated a)
  then have "reads_factor ar sp (Negated a)" using factor_of_sign[of ar sp a] assms(1) by simp
  then show ?case using term_of_factor[of ar sp "Negated a"] expr_of_term[of ar sp "Negated a"] by simp
next
  case (Sum a b)
  then have e: "reads_expr ar sp (Sum a b)"
    by - (rule expr_of_sum[where a = a and b = b and c = "CHR ''+''" and f = "ar_add ar"], simp_all add: in_parens_def assms(1))
  have "reads_factor ar sp (Sum a b)" by (rule factor_of_expr[OF e]) (simp_all add: in_parens_def assms(1))
  with e show ?case using term_of_factor[of ar sp "Sum a b"] by (simp add: in_parens_def)
next
  case (Difference a b)
  then have e: "reads_expr ar sp (Difference a b)"
    by - (rule expr_of_sum[where a = a and b = b and c = "CHR ''-''" and f = "ar_sub ar"], simp_all add: in_parens_def assms(1))
  have "reads_factor ar sp (Difference a b)" by (rule factor_of_expr[OF e]) (simp_all add: in_parens_def assms(1))
  with e show ?case using term_of_factor[of ar sp "Difference a b"] by (simp add: in_parens_def)
next
  case (Product a b)
  then have t: "reads_term ar sp (Product a b)"
    by - (rule term_of_product[where a = a and b = b and c = "CHR ''*''" and g = "\<lambda>x y. Inr (ar_mul ar x y)"], simp_all add: in_parens_def assms(1))
  have e: "reads_expr ar sp (Product a b)" by (rule expr_of_term[OF t]) (simp add: in_parens_def)
  have "reads_factor ar sp (Product a b)" by (rule factor_of_expr[OF e]) (simp_all add: in_parens_def assms(1))
  with e t show ?case by simp
next
  case (Quotient a b)
  then have t: "reads_term ar sp (Quotient a b)"
    by - (rule term_of_product[where a = a and b = b and c = "CHR ''/''"
          and g = "\<lambda>x y. if ar_is_zero ar y then Inl ''division by zero'' else Inr (ar_div ar x y)"], simp_all add: in_parens_def assms(1))
  have e: "reads_expr ar sp (Quotient a b)" by (rule expr_of_term[OF t]) (simp add: in_parens_def)
  have "reads_factor ar sp (Quotient a b)" by (rule factor_of_expr[OF e]) (simp_all add: in_parens_def assms(1))
  with e t show ?case by simp
qed

section \<open>Properties\<close>

text \<open>C18: The calculator computes what the expression means.  For every expression, written with the parentheses its
  operators need and any blanks before its tokens, evaluation ends with the value of the expression read from left to
  right by precedence, or with the first error in that order (a token that is no number, a division by zero).\<close>

theorem calculator_computes:
  assumes "tokens_ok e" "list_all is_ascii_whitespace sp"
  shows "evaluate ar (text_at sp 0 e @ sp) = Some (expression_value ar e)"
proof -
  let ?s = "text_at sp 0 e @ sp"
  have blank: "skip_whitespace sp = []" using assms(2) by (induction sp) (simp_all add: skip_whitespace_def)
  have "no_factor_char sp" using assms(2) by (cases sp) (simp_all add: blank_no_number)
  moreover have "no_product sp" by (simp add: no_product_def blank)
  moreover have "gives (\<lambda>n. expr_loop ar n v sp) (Inr (v, []))" for v by (rule gives_Suc) (simp add: expr_loop.simps blank)
  ultimately have "gives (\<lambda>n. parse_expr ar n ?s) (answer (expression_value ar e) [])"
    using reads_back[OF assms(2,1), of ar] by (simp add: reads_expr_def continued_def answer_def split: sum.split)
  then obtain n where n: "parse_expr ar n ?s = Some (answer (expression_value ar e) [])" by (auto simp: gives_def)
  obtain r where r: "parse_expr ar (expr_fuel ?s) ?s = Some r" using parse_expr_total by blast
  have "parse_expr ar (max n (expr_fuel ?s)) ?s = Some (answer (expression_value ar e) [])"
    by (rule more_fuel[where f = "\<lambda>n. parse_expr ar n ?s", OF one_more(1) n]) simp
  moreover have "parse_expr ar (max n (expr_fuel ?s)) ?s = Some r"
    by (rule more_fuel[where f = "\<lambda>n. parse_expr ar n ?s", OF one_more(1) r]) simp
  ultimately show ?thesis using r by (simp add: evaluate_def answer_def skip_whitespace_def split: sum.split)
qed

text \<open>The calculator always answers: it ends on every argument, whatever the model sent is answered with text the
  model can read, and only another tool name is an error.\<close>

theorem calculator_always_answers:
  "\<exists>t. calculator_call ar parse tool arguments = Some (if tool = TOOL_NAME then Inr t else Inl (UnknownTool tool))"
proof -
  have total: "\<exists>y. evaluate ar expr = Some y" for expr
    using parse_expr_total[of ar expr] by (auto simp: evaluate_def split: sum.split list.split)
  show ?thesis
  proof (cases "parse_expression parse arguments")
    case (Inr expr)
    then show ?thesis using total[of expr] by (auto simp: calculator_call_def split: sum.split)
  qed (simp add: calculator_call_def)
qed

definition demo_arithmetic :: "int arithmetic" where
  "demo_arithmetic = \<lparr>ar_add = (+), ar_sub = (-), ar_mul = (*), ar_div = (div), ar_neg = uminus, ar_is_zero = (\<lambda>v. v = 0),
    ar_read = map_of [(''1'', 1), (''2'', 2), (''3'', 3)], ar_show = (\<lambda>_. [])\<rparr>"

theorem calculator_computes_witness:
  "evaluate demo_arithmetic '' ( 1 + 2 ) * - 3 '' = Some (Inr (- 9))"
  using calculator_computes[of "Product (Sum (Num ''1'') (Num ''2'')) (Negated (Num ''3''))" "'' ''" demo_arithmetic]
  by (simp add: number_char_def is_ascii_whitespace_def in_parens_def demo_arithmetic_def)

end
