(* ===== verification/Spec2Isabelle.thy ===== *)
theory Spec2Isabelle
  imports Gateway Scenario_Safety Contract_Suite Rpc_Nodes Calculator
begin

text \<open>
  Nova Chat: a Responses-API service (\<open>crates/responses\<close>), its executor (\<open>crates/agent-runtime\<close>), its
  HTTP edge (\<open>gateway\<close>), the in-memory back end behind its ports (\<open>verify/mock/server\<close>), the runner its
  executor ships with (\<open>verify/mock/agentd\<close>) and the harness that judges them (\<open>verify/harness\<close>).

  \<^bold>\<open>How the program works.\<close> A client posts a create request. The gateway authenticates it, validates it
  against a closed protocol subset and hands it to the responses service, which resolves the context of
  the turn (a conversation, a chain of previous responses, or nothing), takes the turn marker of the
  conversation, and writes a queued row to the ledger. An executor claims the row: the claim raises
  the row's attempt, the fencing token that every later event of that attempt must carry. The
  executor's runner streams events into the response's event log through a sink; completion writes the
  row, commits the turn to the conversation's snapshot, moves its tail and frees the marker. A sweeper
  reaps rows whose executor stopped reporting and expires closed streams. Clients follow a stream over
  server-sent events and reconnect by cursor.

  \<^bold>\<open>Theories, bottom up.\<close>
  \<^item> \<open>Nova_Prelude\<close>: 64-bit saturation, association lists for hash maps, the shared locales.
  \<^item> \<open>Identity\<close> (\<open>identity.rs\<close>, the ids of \<open>response.rs\<close>, \<open>conversation.rs\<close>), \<open>Url_Guard\<close>
    (\<open>protocol/url_guard.rs\<close>), \<open>Json\<close> (\<open>canonical.rs\<close>, \<open>protocol/limits.rs\<close>), \<open>Protocol\<close> (\<open>protocol/*.rs\<close>),
    \<open>Response\<close> (\<open>response.rs\<close>, \<open>usage.rs\<close>, \<open>conversation.rs\<close>), \<open>Events\<close> (\<open>events.rs\<close>), \<open>Wire\<close> (item
    encoding, \<open>integrity.rs\<close>): the values.
  \<^item> \<open>Store\<close>, \<open>Ledger\<close>, \<open>Event_Log\<close>, \<open>Conversation_Store\<close> (\<open>verify/mock/server/src\<close>, the ports of
    \<open>crates/responses/src/ports\<close>): the back end. One mutex holds the store, another the logs, so an
    operation is a function on \<open>mem_store\<close> or \<open>event_log\<close> that returns a result and the new state.
  \<^item> \<open>Paging\<close>, \<open>Replay\<close>: reading a stream by cursor and rebuilding items from it
    (\<open>service/sweep.rs\<close>, \<open>service/responses.rs\<close>).
  \<^item> \<open>World\<close>, \<open>Service\<close>, \<open>Sweep\<close> (\<open>crates/responses/src/service\<close>): the use cases, on a \<open>world\<close> of
    store, log, clock and counters.
  \<^item> \<open>Sink\<close>, \<open>Runtime\<close> (\<open>crates/agent-runtime/src\<close>): the sink, one round of the executor, its two
    terminal funnels, drain.
  \<^item> \<open>System\<close>: all port calls as a transition system; every use case is a run of it.
  \<^item> \<open>Ingress\<close>, \<open>Sse\<close>, \<open>Gateway\<close> (\<open>gateway/src\<close>): authentication, error answers, streaming, every
    route, the admin routes and drain.
  \<^item> \<open>Oracle\<close>, \<open>Scenario\<close>, \<open>Scenario_Safety\<close> (\<open>verify/harness/src\<close>): the trace oracles, the script
    interpreter, and what every script gets from the back end.
  \<^item> \<open>Envelope\<close> (\<open>protocol/request.rs\<close>, \<open>tool.rs\<close>, \<open>metadata.rs\<close>) and \<open>Event_Wire\<close> (\<open>events.rs\<close>,
    \<open>protocol/response_object.rs\<close>, \<open>conversation.rs\<close>): the JSON of requests and of events as the serde
    attributes and the hand-written visitors fix it, with its readers.
  \<^item> \<open>Ports\<close> (\<open>crates/responses/src/ports\<close>): the port traits as records of operations over a state, and the
    in-memory back end as their instance; \<open>Port_Laws\<close>: what its operations do, by the queue, the rows in
    progress, one log and one conversation.
  \<^item> \<open>Conformance\<close> (\<open>verify/conformance/src/lib.rs\<close>): the port contract, every assertion as a program over
    the ports with a panic as \<open>None\<close>; \<open>Contract\<close>, \<open>Contract_Cases\<close>, \<open>Contract_Conversations\<close>,
    \<open>Contract_Protocol\<close>, \<open>Contract_Races\<close>, \<open>Contract_Pressure\<close>, \<open>Contract_Suite\<close>: the cases pass on the
    in-memory ports, one by one and as a whole pass.
  \<^item> \<open>Rpc\<close> (\<open>verify/mock/server/src/proto.rs\<close>, \<open>server.rs\<close>, \<open>verify/mock/client/src\<close>): the data plane of the
    shared carrier and the client adapters; \<open>Rpc_Nodes\<close>: what a node gets from them.
  \<^item> \<open>Completions\<close> (\<open>verify/mock/agentd/src/completions\<close>), \<open>Scheduler\<close> (\<open>scheduler/mod.rs\<close>, \<open>echo.rs\<close>,
    \<open>scripted.rs\<close>), \<open>Http_Scheduler\<close> (\<open>scheduler/http.rs\<close>) and \<open>Mock_Runner\<close> (\<open>mock_runner.rs\<close>,
    \<open>tool.rs\<close>): what the executor asks a model, how the answer is streamed, and the loop over tools;
    \<open>Calculator\<close>: the tool it ships with.

  \<^bold>\<open>State.\<close> \<open>mem_store\<close> has the fields of \<open>MemStore\<close>'s inner state, \<open>event_log\<close> those of
  \<open>MemResponseEventLog\<close>; a \<open>HashMap\<close> is an association list with distinct keys, a \<open>BTreeSet\<close> index a
  sorted list, a \<open>String\<close> the list of its UTF-8 bytes, a \<open>u64\<close> a \<open>nat\<close> with the saturation or the
  wrap-around written where the code has it. A panic, an early return and a refused call are values
  (\<open>error + result\<close>).

  \<^bold>\<open>What the lemmas show.\<close> Each operation has its effect on every branch and keeps the
  well-formedness of its component (\<open>ledger_wf\<close>, \<open>conv_wf\<close>, \<open>event_log_wf\<close>); rows only evolve
  (\<open>record_evolves\<close>); the bounded ring refines an unbounded history (\<open>log_refines\<close>); the sink and the
  replay agree (\<open>Sink\<close>); the use cases settle what they must, return under a validated configuration
  and are runs of the transition system; routes answer foreign ids like absent ones; subscribers
  neither miss nor repeat an event; an oracle passes exactly the traces that keep its promise, and
  scripts cannot make the back end break the safety promises; the back end satisfies the port contract
  in every order of the racing calls, once; requests and events are read back as they are written; a node
  sees the carrier's ports behind its own controls, which racing creates can overrun; the mock runner ends within its rounds, leaves a
  chain that can be asked again, and is a run of the transition system; the calculator computes what an
  expression means.
  Interfaces are locales, each interpreted on the model: the tenant index and tables (\<open>Nova_Prelude\<close>,
  \<open>Store\<close>), \<open>paged_reader\<close> for both streams (\<open>Paging\<close>), \<open>sse_feed\<close> for both sources (\<open>Sse\<close>),
  \<open>transition_system\<close> (\<open>System\<close>), \<open>streaming_scheduler\<close> for the echo and the scripted scheduler (\<open>Scheduler\<close>).

  \<^bold>\<open>Loops and bounds.\<close> Loops over data are structural. A read loop is \<open>page_loop\<close>, a partial function
  whose \<open>None\<close> is a loop that never ends; it is proved to return for positive pages and streams
  shorter than the largest sequence number. Waiting is a list: the states a reader finds at its
  wake-ups, ending with the deadline. A clock is a function from the number of readings to the time,
  so it may jump. A case of the port contract draws at most 24 UUIDs for one purpose and adds less than 60
  rows, conversations and logs, so a pass over its 15 cases fits the limits of \<open>MemWorld\<close> (10000 pending). The loop of the mock runner is
  measured by the tool rounds left; a scheduler that hangs is the value \<open>None\<close>. The
  parser of the calculator carries fuel, four times the length of its input plus three, which is proved enough
  for every input; the depth of the stack is not bounded in the model.

  \<^bold>\<open>Parameters.\<close> The text form and the parser of UUIDs, Unicode normalisation, JSON escapes and number
  text (\<open>codec\<close>), URL parsing, HMAC, the decoders of request bodies, the runner, and the source of
  fresh UUIDs; in the port contract also the order in which the scheduler runs spawned calls; the transport
  between the processes (a call to the carrier, or the text of its failure); for the mock runner the model
  provider with its byte chunks, the JSON parser, the tools, the floats of the calculator, and a record \<open>surroundings\<close> of what others do to
  the world between two awaits and whether the probe sees the cancel there. A theorem that needs more of them than their type says so in a hypothesis (a UUID
  prints injectively and parses back; drawn UUIDs do not repeat).

  \<^bold>\<open>Not modelled.\<close> The task structure of the processes (the executor's poll loop, semaphore and
  heartbeat task, signal handling), HTTP between the processes and the carrier's control plane, the text of
  the calculator's results (\<open>format_number\<close>), the second harness layer that drives whole processes, the build tool
  \<open>xtask\<close>, and the \<open>main\<close> functions: they are input, output and scheduling around the functions
  modelled here. Counters at their largest value (\<open>2 ^ 64 - 1\<close> events of one stream, the last attempt)
  are hypotheses of the theorems that need them.
\<close>

end
